(* ===== verification/Prelude.thy ===== *)
theory Prelude
  imports Main
begin

text \<open>
  The shared base of the development: the Python values and library operations that the
  modelled modules of \<^verbatim>\<open>src/src/jarn\<close> use.

  \<^item> A Python \<^verbatim>\<open>str\<close> is a list of Unicode code points (\<open>pystr\<close>); \<open>u ''...''\<close> writes an
    ASCII literal. Whitespace is the exact set of code points for which
    \<^verbatim>\<open>str.isspace\<close> holds.
  \<^item> A Python \<^verbatim>\<open>dict\<close> is an insertion-ordered association list with distinct keys
    (\<open>pydict\<close>), with \<open>d.get\<close>, \<open>d[k] = v\<close> and \<open>d.pop\<close>; the interface other theories rely
    on is the locale \<open>dict_ops\<close>.
  \<^item> A call that may raise returns \<open>error + 'a\<close> for an error type of its component.
  \<^item> What CPython answers from its Unicode tables (NFKC normalisation, case folding,
    \<^verbatim>\<open>isalnum\<close>, \<^verbatim>\<open>repr\<close>) and from its floating-point conversions is the record \<open>pyuni\<close>, an argument of the definitions that
    use it. \<open>uni_ascii_ok\<close> collects the documented behaviour on ASCII text.
\<close>

named_theorems py_defs \<open>definitions of Python library operations\<close>
named_theorems engine_defs \<open>definitions of the permission engine\<close>
named_theorems guard_defs \<open>definitions of the danger guard\<close>


section \<open>Strings\<close>

type_synonym pystr = "int list"

definition u :: "string \<Rightarrow> pystr" where
  "u s = map of_char s"

lemma u_Nil [simp]: "u [] = []"
  by (simp add: u_def)

lemma u_Cons: "u (c # s) = of_char c # u s"
  by (simp add: u_def)

lemma u_append: "u (s @ t) = u s @ u t"
  by (simp add: u_def)

lemma length_u [simp]: "length (u s) = length s"
  by (simp add: u_def)

lemma of_char_int_eq_iff: "(of_char c :: int) = of_char d \<longleftrightarrow> c = d"
  by (rule of_char_eq_iff)

lemma u_eq_iff [simp]: "u s = u t \<longleftrightarrow> s = t"
  unfolding u_def by (rule inj_map_eq_map) (auto intro!: injI simp: of_char_int_eq_iff)

lemma u_eq_Nil_iff [simp]: "u s = [] \<longleftrightarrow> s = []" "[] = u s \<longleftrightarrow> s = []"
  by (auto simp: u_def)

abbreviation ch :: "char \<Rightarrow> int" where
  "ch c \<equiv> of_char c"

text \<open>\<^verbatim>\<open>str.isspace\<close> of a single character: the white-space set of Python 3.\<close>

definition isspace :: "int \<Rightarrow> bool" where
  "isspace c \<longleftrightarrow> (9 \<le> c \<and> c \<le> 13) \<or> (28 \<le> c \<and> c \<le> 32) \<or> c = 133 \<or> c = 160 \<or> c = 5760
     \<or> (8192 \<le> c \<and> c \<le> 8202) \<or> c = 8232 \<or> c = 8233 \<or> c = 8239 \<or> c = 8287 \<or> c = 12288"

text \<open>\<^verbatim>\<open>s.split()\<close>: the maximal runs of non-white-space characters.\<close>

fun split_ws_aux :: "pystr \<Rightarrow> pystr \<Rightarrow> pystr list" where
  "split_ws_aux acc [] = (if acc = [] then [] else [rev acc])"
| "split_ws_aux acc (c # cs) =
     (if isspace c then (if acc = [] then split_ws_aux [] cs else rev acc # split_ws_aux [] cs)
      else split_ws_aux (c # acc) cs)"

definition split_ws :: "pystr \<Rightarrow> pystr list" where
  "split_ws s = split_ws_aux [] s"

text \<open>\<^verbatim>\<open>sep.join(xs)\<close>, \<^verbatim>\<open>s.strip()\<close>, \<^verbatim>\<open>s.lstrip(chars)\<close>, \<^verbatim>\<open>s.rstrip(chars)\<close>.\<close>

fun py_join :: "pystr \<Rightarrow> pystr list \<Rightarrow> pystr" where
  "py_join sep [] = []"
| "py_join sep [x] = x"
| "py_join sep (x # y # ys) = x @ sep @ py_join sep (y # ys)"

definition lstrip_with :: "(int \<Rightarrow> bool) \<Rightarrow> pystr \<Rightarrow> pystr" where
  "lstrip_with P s = dropWhile P s"

definition rstrip_with :: "(int \<Rightarrow> bool) \<Rightarrow> pystr \<Rightarrow> pystr" where
  "rstrip_with P s = rev (dropWhile P (rev s))"

definition strip_ws :: "pystr \<Rightarrow> pystr" where
  "strip_ws s = rstrip_with isspace (lstrip_with isspace s)"

definition strip_chars :: "pystr \<Rightarrow> pystr \<Rightarrow> pystr" where
  "strip_chars cs s = rstrip_with (\<lambda>c. c \<in> set cs) (lstrip_with (\<lambda>c. c \<in> set cs) s)"

text \<open>\<^verbatim>\<open>s.split(c)\<close> for a one-character separator (empty fields kept), \<^verbatim>\<open>s.startswith\<close>,
  \<^verbatim>\<open>s.endswith\<close>, \<^verbatim>\<open>x in s\<close> for a substring, \<^verbatim>\<open>s.replace(a, b)\<close> for one-character
  arguments.\<close>

fun split_chr :: "int \<Rightarrow> pystr \<Rightarrow> pystr list" where
  "split_chr sep [] = [[]]"
| "split_chr sep (c # cs) =
     (if c = sep then [] # split_chr sep cs
      else (case split_chr sep cs of [] \<Rightarrow> [[c]] | w # ws \<Rightarrow> (c # w) # ws))"

fun startswith :: "pystr \<Rightarrow> pystr \<Rightarrow> bool" where
  "startswith s [] = True"
| "startswith [] (p # ps) = False"
| "startswith (c # cs) (p # ps) = (c = p \<and> startswith cs ps)"

definition endswith :: "pystr \<Rightarrow> pystr \<Rightarrow> bool" where
  "endswith s p = startswith (rev s) (rev p)"

fun contains :: "pystr \<Rightarrow> pystr \<Rightarrow> bool" where
  "contains [] p = (p = [])"
| "contains (c # cs) p = (startswith (c # cs) p \<or> contains cs p)"

definition replace_chr :: "int \<Rightarrow> int \<Rightarrow> pystr \<Rightarrow> pystr" where
  "replace_chr a b s = map (\<lambda>c. if c = a then b else c) s"

text \<open>The part of \<open>s\<close> before the first, and after the last, occurrence of a character:
  \<^verbatim>\<open>s.split(c, 1)[0]\<close> and \<^verbatim>\<open>s.rsplit(c, 1)[-1]\<close>.\<close>

definition before_first :: "int \<Rightarrow> pystr \<Rightarrow> pystr" where
  "before_first c s = takeWhile (\<lambda>x. x \<noteq> c) s"

definition after_last :: "int \<Rightarrow> pystr \<Rightarrow> pystr" where
  "after_last c s = rev (takeWhile (\<lambda>x. x \<noteq> c) (rev s))"

definition ascii_lower_chr :: "int \<Rightarrow> int" where
  "ascii_lower_chr c = (if 65 \<le> c \<and> c \<le> 90 then c + 32 else c)"

definition is_ascii :: "pystr \<Rightarrow> bool" where
  "is_ascii s \<longleftrightarrow> list_all (\<lambda>c. 0 \<le> c \<and> c < 128) s"

lemmas string_op_defs [py_defs] =
  split_ws_def lstrip_with_def rstrip_with_def strip_ws_def strip_chars_def endswith_def
  replace_chr_def before_first_def after_last_def

lemma startswith_iff: "startswith s p \<longleftrightarrow> (\<exists>t. s = p @ t)"
  by (induction s p rule: startswith.induct) auto

lemma startswith_append [simp]: "startswith (p @ t) p"
  by (simp add: startswith_iff)

lemma startswith_refl [simp]: "startswith p p"
  by (simp add: startswith_iff)

lemma endswith_iff: "endswith s p \<longleftrightarrow> (\<exists>t. s = t @ p)"
proof -
  have "startswith (rev s) (rev p) \<longleftrightarrow> (\<exists>t. s = rev t @ p)"
    unfolding startswith_iff by (metis rev_append rev_rev_ident)
  also have "\<dots> \<longleftrightarrow> (\<exists>t. s = t @ p)"
    by (metis rev_rev_ident)
  finally show ?thesis by (simp add: endswith_def)
qed

lemma contains_iff: "contains s p \<longleftrightarrow> (\<exists>a b. s = a @ p @ b)"
proof (induction s)
  case Nil
  then show ?case by auto
next
  case (Cons c cs)
  have "contains (c # cs) p \<longleftrightarrow> startswith (c # cs) p \<or> (\<exists>a b. cs = a @ p @ b)"
    by (simp add: Cons.IH)
  also have "\<dots> \<longleftrightarrow> (\<exists>a b. c # cs = a @ p @ b)"
  proof
    assume "startswith (c # cs) p \<or> (\<exists>a b. cs = a @ p @ b)"
    then show "\<exists>a b. c # cs = a @ p @ b"
      unfolding startswith_iff by (metis append_Cons append_Nil)
  next
    assume "\<exists>a b. c # cs = a @ p @ b"
    then show "startswith (c # cs) p \<or> (\<exists>a b. cs = a @ p @ b)"
      unfolding startswith_iff by (metis append_Nil append_eq_Cons_conv)
  qed
  finally show ?case .
qed

lemma split_chr_not_Nil [simp]: "split_chr c s \<noteq> []"
  by (induction s) (auto split: list.splits)

lemma split_chr_join:
  assumes "c \<notin> set w"
  shows "split_chr c (w @ c # s) = w # split_chr c s"
  using assms by (induction w) auto

lemma split_chr_none:
  assumes "c \<notin> set w"
  shows "split_chr c w = [w]"
  using assms by (induction w) auto

lemma py_join_split_chr: "py_join [c] (split_chr c s) = s"
proof (induction s)
  case Nil
  then show ?case by simp
next
  case (Cons a s)
  obtain w ws where e: "split_chr c s = w # ws"
    by (cases "split_chr c s") auto
  with Cons.IH show ?case by (cases ws) auto
qed


subsection \<open>Words of a string\<close>

definition word_tok :: "pystr \<Rightarrow> bool" where
  "word_tok w \<longleftrightarrow> w \<noteq> [] \<and> list_all (\<lambda>c. \<not> isspace c) w"

lemma isspace_32 [simp]: "isspace 32"
  by (simp add: isspace_def)

lemma split_ws_aux_tok:
  "list_all (\<lambda>c. \<not> isspace c) acc \<Longrightarrow> w \<in> set (split_ws_aux acc s) \<Longrightarrow> word_tok w"
proof (induction s arbitrary: acc)
  case Nil
  then show ?case by (simp add: word_tok_def list_all_iff split: if_splits)
next
  case (Cons c s)
  have acc: "acc \<noteq> [] \<Longrightarrow> word_tok (rev acc)"
    using Cons.prems(1) by (simp add: word_tok_def)
  show ?case
  proof (cases "isspace c")
    case True
    with Cons.prems(2) have "(acc \<noteq> [] \<and> w = rev acc) \<or> w \<in> set (split_ws_aux [] s)"
      by (cases "acc = []") simp_all
    with acc Cons.IH[of "[]"] show ?thesis by fastforce
  next
    case False
    with Cons.prems Cons.IH[of "c # acc"] show ?thesis by simp
  qed
qed

lemma split_ws_tok: "w \<in> set (split_ws s) \<Longrightarrow> word_tok w"
  unfolding split_ws_def by (rule split_ws_aux_tok) auto

lemma split_ws_aux_chars: "w \<in> set (split_ws_aux acc s) \<Longrightarrow> set w \<subseteq> set acc \<union> set s"
  by (induction acc s rule: split_ws_aux.induct) (auto split: if_splits)

lemma split_ws_chars: "w \<in> set (split_ws s) \<Longrightarrow> set w \<subseteq> set s"
  unfolding split_ws_def using split_ws_aux_chars by fastforce

lemma split_ws_aux_word:
  "list_all (\<lambda>c. \<not> isspace c) w \<Longrightarrow> split_ws_aux acc (w @ s) = split_ws_aux (rev w @ acc) s"
  by (induction w arbitrary: acc) auto

lemma split_ws_join:
  "list_all word_tok ws \<Longrightarrow> split_ws (py_join [32] ws) = ws"
  unfolding split_ws_def
proof (induction ws)
  case Nil
  then show ?case by simp
next
  case (Cons x xs)
  then have ns: "list_all (\<lambda>c. \<not> isspace c) x" and ne: "x \<noteq> []"
    by (auto simp: word_tok_def)
  show ?case
  proof (cases xs)
    case Nil
    then show ?thesis using split_ws_aux_word[OF ns, of "[]" "[]"] ne by simp
  next
    case (Cons y ys)
    then show ?thesis
      using Cons.IH Cons.prems split_ws_aux_word[OF ns, of "[]" "32 # py_join [32] xs"] ne by simp
  qed
qed


section \<open>Dictionaries\<close>

type_synonym ('k, 'v) pydict = "('k \<times> 'v) list"

fun dget :: "('k, 'v) pydict \<Rightarrow> 'k \<Rightarrow> 'v option" where
  "dget [] k = None"
| "dget ((a, b) # d) k = (if a = k then Some b else dget d k)"

fun dput :: "'k \<Rightarrow> 'v \<Rightarrow> ('k, 'v) pydict \<Rightarrow> ('k, 'v) pydict" where
  "dput k v [] = [(k, v)]"
| "dput k v ((a, b) # d) = (if a = k then (a, v) # d else (a, b) # dput k v d)"

fun dpop :: "'k \<Rightarrow> ('k, 'v) pydict \<Rightarrow> ('k, 'v) pydict" where
  "dpop k [] = []"
| "dpop k ((a, b) # d) = (if a = k then d else (a, b) # dpop k d)"

definition dkeys :: "('k, 'v) pydict \<Rightarrow> 'k list" where
  "dkeys d = map fst d"

definition dict_ok :: "('k, 'v) pydict \<Rightarrow> bool" where
  "dict_ok d \<longleftrightarrow> distinct (map fst d)"

text \<open>What a client of a dictionary relies on: the result of a lookup after an update or a
  removal, and that every operation keeps the keys distinct.\<close>

locale dict_ops =
  fixes empty :: 'd
    and get :: "'d \<Rightarrow> 'k \<Rightarrow> 'v option"
    and put :: "'k \<Rightarrow> 'v \<Rightarrow> 'd \<Rightarrow> 'd"
    and del :: "'k \<Rightarrow> 'd \<Rightarrow> 'd"
    and ok :: "'d \<Rightarrow> bool"
  assumes get_empty: "get empty k = None"
    and get_put: "ok d \<Longrightarrow> get (put k v d) k' = (if k' = k then Some v else get d k')"
    and get_del: "ok d \<Longrightarrow> get (del k d) k' = (if k' = k then None else get d k')"
    and ok_empty: "ok empty"
    and ok_put: "ok d \<Longrightarrow> ok (put k v d)"
    and ok_del: "ok d \<Longrightarrow> ok (del k d)"
begin

lemma get_put_same: "ok d \<Longrightarrow> get (put k v d) k = Some v"
  by (simp add: get_put)

lemma get_put_other: "ok d \<Longrightarrow> k' \<noteq> k \<Longrightarrow> get (put k v d) k' = get d k'"
  by (simp add: get_put)

lemma get_del_same: "ok d \<Longrightarrow> get (del k d) k = None"
  by (simp add: get_del)

lemma get_del_put: "ok d \<Longrightarrow> get (del k (put k v d)) k' = get (del k d) k'"
  by (simp add: get_put get_del ok_put)

lemma get_fold_put:
  "ok d \<Longrightarrow> distinct (map fst kvs) \<Longrightarrow>
   get (fold (\<lambda>(k, v). put k v) kvs d) k = (case map_of kvs k of Some v \<Rightarrow> Some v | None \<Rightarrow> get d k)"
proof (induction kvs arbitrary: d)
  case Nil
  then show ?case by simp
next
  case (Cons kv kvs)
  obtain a b where kv: "kv = (a, b)" by force
  have "get (fold (\<lambda>(k, v). put k v) kvs (put a b d)) k
      = (case map_of kvs k of Some v \<Rightarrow> Some v | None \<Rightarrow> get (put a b d) k)"
    using Cons by (auto simp: kv ok_put)
  moreover have "a = k \<Longrightarrow> map_of kvs k = None"
    using Cons.prems by (auto simp: kv map_of_eq_None_iff)
  ultimately show ?case
    using Cons.prems by (auto simp: kv get_put split: option.splits)
qed

end

lemma dget_None_iff: "dget d k = None \<longleftrightarrow> k \<notin> fst ` set d"
  by (induction d k rule: dget.induct) auto

lemma dget_Some_in: "dget d k = Some v \<Longrightarrow> (k, v) \<in> set d"
  by (induction d k rule: dget.induct) (auto split: if_splits)

lemma dget_in: "dict_ok d \<Longrightarrow> (k, v) \<in> set d \<Longrightarrow> dget d k = Some v"
  unfolding dict_ok_def by (induction d k rule: dget.induct) (auto simp: image_iff)

lemma dget_dput: "dget (dput k v d) k' = (if k' = k then Some v else dget d k')"
  by (induction k v d rule: dput.induct) auto

lemma dput_all: "list_all (\<lambda>(k, v). P v) d \<Longrightarrow> P v \<Longrightarrow> list_all (\<lambda>(k, v). P v) (dput k v d)"
  by (induction k v d rule: dput.induct) auto

lemma dput_keys: "fst ` set (dput k v d) = insert k (fst ` set d)"
  by (induction k v d rule: dput.induct) auto

lemma dpop_keys_subset: "fst ` set (dpop k d) \<subseteq> fst ` set d"
  by (induction k d rule: dpop.induct) auto

lemma dict_ok_dput: "dict_ok d \<Longrightarrow> dict_ok (dput k v d)"
  unfolding dict_ok_def
proof (induction k v d rule: dput.induct)
  case (2 k v a b d)
  have "set (map fst (dput k v d)) = insert k (set (map fst d))"
    using dput_keys[of k v d] by simp
  with 2 show ?case by (auto simp del: set_map)
qed simp

lemma dict_ok_dpop: "dict_ok d \<Longrightarrow> dict_ok (dpop k d)"
  unfolding dict_ok_def
proof (induction k d rule: dpop.induct)
  case (2 k a b d)
  have "set (map fst (dpop k d)) \<subseteq> set (map fst d)"
    using dpop_keys_subset[of k d] by simp
  with 2 show ?case by (auto simp del: set_map)
qed simp

lemma dget_dpop: "dict_ok d \<Longrightarrow> dget (dpop k d) k' = (if k' = k then None else dget d k')"
  unfolding dict_ok_def
proof (induction k d rule: dpop.induct)
  case (2 k a b d)
  have "a \<notin> fst ` set d" using 2 by simp
  then have "dget d a = None" by (simp add: dget_None_iff)
  with 2 show ?case by auto
qed simp

lemma dict_ok_Nil [simp]: "dict_ok []"
  by (simp add: dict_ok_def)

interpretation pydict: dict_ops "[]" dget dput dpop dict_ok
  by unfold_locales (auto simp: dget_dput dget_dpop dict_ok_dput dict_ok_dpop)


section \<open>Unicode tables\<close>

record pyuni =
  nfkc :: "pystr \<Rightarrow> pystr"
  casefold :: "pystr \<Rightarrow> pystr"
  lower :: "pystr \<Rightarrow> pystr"
  isalnum :: "int \<Rightarrow> bool"
  repr_str :: "pystr \<Rightarrow> pystr"
  bracketed_host_ok :: "pystr \<Rightarrow> bool"
  repr_float :: "pystr \<Rightarrow> pystr"
  float_truth :: "pystr \<Rightarrow> bool"
  digit_val :: "int \<Rightarrow> int option"

definition ascii_alnum :: "int \<Rightarrow> bool" where
  "ascii_alnum c \<longleftrightarrow> (48 \<le> c \<and> c \<le> 57) \<or> (65 \<le> c \<and> c \<le> 90) \<or> (97 \<le> c \<and> c \<le> 122)"

definition uni_ascii_ok :: "pyuni \<Rightarrow> bool" where
  "uni_ascii_ok U \<longleftrightarrow>
     (\<forall>s. is_ascii s \<longrightarrow> nfkc U s = s \<and> casefold U s = map ascii_lower_chr s
        \<and> lower U s = map ascii_lower_chr s)
     \<and> (\<forall>c. 0 \<le> c \<and> c < 128 \<longrightarrow> isalnum U c = ascii_alnum c)"

text \<open>A concrete instance: text outside ASCII is left alone.\<close>

definition ascii_uni :: pyuni where
  "ascii_uni = \<lparr>nfkc = (\<lambda>s. s), casefold = map ascii_lower_chr, lower = map ascii_lower_chr,
     isalnum = ascii_alnum, repr_str = (\<lambda>s. 39 # s @ [39]), bracketed_host_ok = (\<lambda>_. True),
     repr_float = (\<lambda>s. s), float_truth = (\<lambda>_. True),
     digit_val = (\<lambda>c. if 48 \<le> c \<and> c \<le> 57 then Some (c - 48) else None)\<rparr>"

lemma uni_ascii_ok_ascii_uni: "uni_ascii_ok ascii_uni"
  by (simp add: uni_ascii_ok_def ascii_uni_def)

lemma uni_ascii_isalnum:
  "uni_ascii_ok U \<Longrightarrow> 0 \<le> c \<Longrightarrow> c < 128 \<Longrightarrow> isalnum U c = ascii_alnum c"
  by (simp add: uni_ascii_ok_def)

lemma uni_ascii_nfkc: "uni_ascii_ok U \<Longrightarrow> is_ascii s \<Longrightarrow> nfkc U s = s"
  by (simp add: uni_ascii_ok_def)

lemma is_ascii_Nil [simp]: "is_ascii []"
  by (simp add: is_ascii_def)

lemma is_ascii_Cons [simp]: "is_ascii (c # s) \<longleftrightarrow> 0 \<le> c \<and> c < 128 \<and> is_ascii s"
  by (simp add: is_ascii_def)

lemma is_ascii_append [simp]: "is_ascii (s @ t) \<longleftrightarrow> is_ascii s \<and> is_ascii t"
  by (simp add: is_ascii_def)

end
