(* ===== verification/Regex.thy ===== *)
theory Regex
  imports Prelude
begin

text \<open>
  Python's \<^verbatim>\<open>re\<close>, as far as the guard's patterns use it: a syntax of patterns, what it
  means for a pattern to match (\<open>rm\<close>), and the matcher that computes it (\<open>ends\<close>), which the
  components call through \<open>re_search\<close> and \<open>re_fullmatch\<close>. The theorems \<open>ends_iff_rm\<close>,
  \<open>re_search_iff\<close> and \<open>re_fullmatch_iff\<close> say that the matcher computes the meaning.

  Only whether a pattern matches is used by the modelled code, so greedy and lazy
  repetition coincide. A position in the subject is the pair of the character before it (if
  any) and the rest of the subject, which is all that \<^verbatim>\<open>\b\<close>, \<^verbatim>\<open>^\<close>, \<^verbatim>\<open>$\<close> and look-ahead
  inspect. \<open>ci\<close> is the flag \<^verbatim>\<open>re.IGNORECASE\<close>.
\<close>

section \<open>Patterns\<close>

datatype citem = CC int | CR int int | CSp | CWd

datatype regex =
    Eps
  | Cls bool "citem list"
  | Cat regex regex
  | Alt regex regex
  | Rep regex
  | WordB
  | Bos
  | Eos
  | Ahead regex

text \<open>The code points that \<^verbatim>\<open>re.IGNORECASE\<close> identifies with \<open>c\<close>, among those that can occur
  in an ASCII pattern: the other case of a letter, and for the Kelvin sign, the long s and
  the dotted and dotless i the ASCII letters they fold to.\<close>

definition ci_alts :: "int \<Rightarrow> int list" where
  "ci_alts c = c # (if 65 \<le> c \<and> c \<le> 90 then [c + 32]
     else if 97 \<le> c \<and> c \<le> 122 then [c - 32]
     else if c = 8490 then [107, 75]
     else if c = 383 then [115, 83]
     else if c = 304 \<or> c = 305 then [105, 73]
     else [])"

definition word_chr :: "pyuni \<Rightarrow> int \<Rightarrow> bool" where
  "word_chr U c \<longleftrightarrow> isalnum U c \<or> c = 95"

fun citem_match :: "pyuni \<Rightarrow> bool \<Rightarrow> int \<Rightarrow> citem \<Rightarrow> bool" where
  "citem_match U ci c (CC a) = (if ci then a \<in> set (ci_alts c) else c = a)"
| "citem_match U ci c (CR a b) =
     (if ci then list_ex (\<lambda>i. a \<le> i \<and> i \<le> b) (ci_alts c) else a \<le> c \<and> c \<le> b)"
| "citem_match U ci c CSp = isspace c"
| "citem_match U ci c CWd = word_chr U c"

definition cls_match :: "pyuni \<Rightarrow> bool \<Rightarrow> bool \<Rightarrow> citem list \<Rightarrow> int \<Rightarrow> bool" where
  "cls_match U ci neg its c = (neg \<noteq> list_ex (citem_match U ci c) its)"

type_synonym ctx = "int option \<times> pystr"

definition opt_word :: "pyuni \<Rightarrow> int option \<Rightarrow> bool" where
  "opt_word U x = (case x of None \<Rightarrow> False | Some c \<Rightarrow> word_chr U c)"

definition next_chr :: "pystr \<Rightarrow> int option" where
  "next_chr s = (case s of [] \<Rightarrow> None | c # _ \<Rightarrow> Some c)"

definition at_word_b :: "pyuni \<Rightarrow> ctx \<Rightarrow> bool" where
  "at_word_b U c = (opt_word U (fst c) \<noteq> opt_word U (next_chr (snd c)))"

text \<open>\<^verbatim>\<open>$\<close> without \<^verbatim>\<open>re.MULTILINE\<close>: the end, or before a newline that ends the subject.\<close>

definition at_eos :: "ctx \<Rightarrow> bool" where
  "at_eos c = (snd c = [] \<or> snd c = [10])"


section \<open>What it means to match\<close>

inductive rm :: "pyuni \<Rightarrow> bool \<Rightarrow> regex \<Rightarrow> ctx \<Rightarrow> ctx \<Rightarrow> bool" for U ci where
  rm_Eps: "rm U ci Eps c c"
| rm_Cls: "cls_match U ci neg its x \<Longrightarrow> rm U ci (Cls neg its) (p, x # xs) (Some x, xs)"
| rm_Cat: "rm U ci r c d \<Longrightarrow> rm U ci s d e \<Longrightarrow> rm U ci (Cat r s) c e"
| rm_AltL: "rm U ci r c d \<Longrightarrow> rm U ci (Alt r s) c d"
| rm_AltR: "rm U ci s c d \<Longrightarrow> rm U ci (Alt r s) c d"
| rm_Rep0: "rm U ci (Rep r) c c"
| rm_RepS: "rm U ci r c d \<Longrightarrow> rm U ci (Rep r) d e \<Longrightarrow> rm U ci (Rep r) c e"
| rm_WordB: "at_word_b U c \<Longrightarrow> rm U ci WordB c c"
| rm_Bos: "rm U ci Bos (None, s) (None, s)"
| rm_Eos: "at_eos c \<Longrightarrow> rm U ci Eos c c"
| rm_Ahead: "rm U ci r c d \<Longrightarrow> rm U ci (Ahead r) c c"

inductive_cases rm_CatE: "rm U ci (Cat r s) c e"
inductive_cases rm_AltE: "rm U ci (Alt r s) c d"
inductive_cases rm_AheadE: "rm U ci (Ahead r) c d"
inductive_simps rm_Eps_iff: "rm U ci Eps c d"
inductive_simps rm_Cls_iff: "rm U ci (Cls neg its) c d"
inductive_simps rm_WordB_iff: "rm U ci WordB c d"
inductive_simps rm_Bos_iff: "rm U ci Bos c d"
inductive_simps rm_Eos_iff: "rm U ci Eos c d"
inductive_simps rm_Cat_iff: "rm U ci (Cat r s) c e"
inductive_simps rm_Alt_iff: "rm U ci (Alt r s) c d"
inductive_simps rm_Ahead_iff: "rm U ci (Ahead r) c d"

text \<open>A match ends at a suffix of the rest it started on, and the character before its end
  is the last one consumed.\<close>

definition prev_of :: "int option \<Rightarrow> pystr \<Rightarrow> int option" where
  "prev_of p m = (if m = [] then p else Some (last m))"

lemma prev_of_Nil [simp]: "prev_of p [] = p"
  by (simp add: prev_of_def)

lemma prev_of_Cons: "prev_of p (x # m) = prev_of (Some x) m"
  by (simp add: prev_of_def)

lemma prev_of_append: "prev_of p (m @ n) = prev_of (prev_of p m) n"
  by (simp add: prev_of_def)

lemma rm_consumes:
  "rm U ci r c d \<Longrightarrow> \<exists>m. snd c = m @ snd d \<and> fst d = prev_of (fst c) m"
proof (induction rule: rm.induct)
  case (rm_Cls neg its x p xs)
  show ?case by (intro exI[of _ "[x]"]) (simp add: prev_of_def)
next
  case (rm_Cat r c d s e)
  then obtain m n where "snd c = m @ snd d" "fst d = prev_of (fst c) m"
    "snd d = n @ snd e" "fst e = prev_of (fst d) n" by blast
  then show ?case by (intro exI[of _ "m @ n"]) (simp add: prev_of_append)
next
  case (rm_RepS r c d e)
  then obtain m n where "snd c = m @ snd d" "fst d = prev_of (fst c) m"
    "snd d = n @ snd e" "fst e = prev_of (fst d) n" by blast
  then show ?case by (intro exI[of _ "m @ n"]) (simp add: prev_of_append)
qed auto

lemma rm_length: "rm U ci r c d \<Longrightarrow> length (snd d) \<le> length (snd c)"
  by (drule rm_consumes) auto

lemma rm_no_progress: "rm U ci r c d \<Longrightarrow> length (snd d) = length (snd c) \<Longrightarrow> d = c"
  by (drule rm_consumes) (auto simp: prod_eq_iff)


section \<open>The matcher\<close>

fun star_ends :: "(ctx \<Rightarrow> ctx list) \<Rightarrow> nat \<Rightarrow> ctx \<Rightarrow> ctx list" where
  "star_ends f 0 c = [c]"
| "star_ends f (Suc n) c =
     c # concat (map (star_ends f n) (filter (\<lambda>d. length (snd d) < length (snd c)) (f c)))"

primrec ends :: "pyuni \<Rightarrow> bool \<Rightarrow> regex \<Rightarrow> ctx \<Rightarrow> ctx list" where
  "ends U ci Eps = (\<lambda>c. [c])"
| "ends U ci (Cls neg its) = (\<lambda>c. case snd c of [] \<Rightarrow> []
      | x # xs \<Rightarrow> if cls_match U ci neg its x then [(Some x, xs)] else [])"
| "ends U ci (Cat r s) = (\<lambda>c. concat (map (ends U ci s) (ends U ci r c)))"
| "ends U ci (Alt r s) = (\<lambda>c. ends U ci r c @ ends U ci s c)"
| "ends U ci (Rep r) = (\<lambda>c. star_ends (ends U ci r) (length (snd c)) c)"
| "ends U ci WordB = (\<lambda>c. if at_word_b U c then [c] else [])"
| "ends U ci Bos = (\<lambda>c. if fst c = None then [c] else [])"
| "ends U ci Eos = (\<lambda>c. if at_eos c then [c] else [])"
| "ends U ci (Ahead r) = (\<lambda>c. if ends U ci r c = [] then [] else [c])"

fun starts :: "int option \<Rightarrow> pystr \<Rightarrow> ctx list" where
  "starts p [] = [(p, [])]"
| "starts p (x # xs) = (p, x # xs) # starts (Some x) xs"

definition re_search :: "pyuni \<Rightarrow> bool \<Rightarrow> regex \<Rightarrow> pystr \<Rightarrow> bool" where
  "re_search U ci r s = list_ex (\<lambda>c. ends U ci r c \<noteq> []) (starts None s)"

definition re_fullmatch :: "pyuni \<Rightarrow> bool \<Rightarrow> regex \<Rightarrow> pystr \<Rightarrow> bool" where
  "re_fullmatch U ci r s = list_ex (\<lambda>d. snd d = []) (ends U ci r (None, s))"

lemma star_ends_sound:
  assumes f: "\<And>c d. d \<in> set (f c) \<Longrightarrow> rm U ci r c d"
  shows "d \<in> set (star_ends f n c) \<Longrightarrow> rm U ci (Rep r) c d"
proof (induction n arbitrary: c)
  case 0
  then show ?case by (simp add: rm_Rep0)
next
  case (Suc n)
  from Suc.prems consider "d = c"
    | e where "e \<in> set (f c)" "d \<in> set (star_ends f n e)" by auto
  then show ?case
  proof cases
    case 1
    then show ?thesis by (simp add: rm_Rep0)
  next
    case 2
    then show ?thesis using f Suc.IH rm_RepS by blast
  qed
qed

lemma star_ends_complete:
  assumes f: "\<And>c d. rm U ci r c d \<Longrightarrow> d \<in> set (f c)"
  shows "rm U ci r' c d \<Longrightarrow> r' = Rep r \<Longrightarrow> length (snd c) \<le> n \<Longrightarrow> d \<in> set (star_ends f n c)"
proof (induction arbitrary: n rule: rm.induct)
  case (rm_Rep0 r c)
  then show ?case by (cases n) auto
next
  case (rm_RepS r0 c d e)
  show ?case
  proof (cases "length (snd d) < length (snd c)")
    case True
    with True rm_RepS.prems obtain k where n: "n = Suc k" by (cases n) auto
    have e: "e \<in> set (star_ends f k d)" using True n rm_RepS by auto
    have "d \<in> set (filter (\<lambda>d. length (snd d) < length (snd c)) (f c))"
      using True f rm_RepS by auto
    with e show ?thesis unfolding n star_ends.simps set_concat set_map list.set(2) by blast
  next
    case False
    then have "d = c" using rm_RepS rm_length rm_no_progress
      by (metis le_neq_implies_less)
    with rm_RepS show ?thesis by blast
  qed
qed auto

theorem ends_iff_rm: "d \<in> set (ends U ci r c) \<longleftrightarrow> rm U ci r c d"
proof (induction r arbitrary: c d)
  case (Cls neg its)
  show ?case
    by (cases c; cases "snd c") (auto simp: rm_Cls_iff split: list.splits)
next
  case (Rep r)
  show ?case
  proof
    assume "d \<in> set (ends U ci (Rep r) c)"
    then show "rm U ci (Rep r) c d"
      using star_ends_sound[of "ends U ci r" U ci r d "length (snd c)" c] Rep by auto
  next
    assume "rm U ci (Rep r) c d"
    then show "d \<in> set (ends U ci (Rep r) c)"
      using star_ends_complete[of U ci r "ends U ci r" "Rep r" c d "length (snd c)"] Rep by auto
  qed
next
  case (Ahead r)
  have "ends U ci r c = [] \<longleftrightarrow> (\<nexists>d. rm U ci r c d)"
    using Ahead[of _ c] by (metis empty_iff list.set(1) list.set_intros(1) neq_Nil_conv)
  then show ?case by (auto simp: rm_Ahead_iff)
next
  case Bos
  show ?case by (cases c) (auto simp: rm_Bos_iff)
next
  case (Cat r1 r2)
  have "d \<in> set (ends U ci (Cat r1 r2) c) \<longleftrightarrow> (\<exists>e. e \<in> set (ends U ci r1 c) \<and> d \<in> set (ends U ci r2 e))"
    by auto
  then show ?case unfolding Cat rm_Cat_iff by (simp add: split_paired_Ex)
qed (auto simp: rm_Eps_iff rm_Alt_iff rm_WordB_iff rm_Eos_iff)

lemma ends_Nil_iff: "ends U ci r c = [] \<longleftrightarrow> (\<nexists>d. rm U ci r c d)"
  using ends_iff_rm[of _ U ci r c] by (metis empty_iff list.set(1) list.set_intros(1) neq_Nil_conv)

lemma starts_iff: "c \<in> set (starts p s) \<longleftrightarrow> (\<exists>m. s = m @ snd c \<and> fst c = prev_of p m)"
proof (induction p s rule: starts.induct)
  case (1 p)
  show ?case by (auto simp: prod_eq_iff)
next
  case (2 p x xs)
  show ?case
  proof
    assume "c \<in> set (starts p (x # xs))"
    then consider "c = (p, x # xs)" | "c \<in> set (starts (Some x) xs)" by auto
    then show "\<exists>m. x # xs = m @ snd c \<and> fst c = prev_of p m"
    proof cases
      case 1
      then show ?thesis by (intro exI[of _ "[]"]) simp
    next
      case 2
      then obtain m where "xs = m @ snd c" "fst c = prev_of (Some x) m" using "2.IH" by blast
      then show ?thesis by (intro exI[of _ "x # m"]) (simp add: prev_of_Cons)
    qed
  next
    assume "\<exists>m. x # xs = m @ snd c \<and> fst c = prev_of p m"
    then obtain m where m: "x # xs = m @ snd c" "fst c = prev_of p m" by blast
    show "c \<in> set (starts p (x # xs))"
    proof (cases m)
      case Nil
      with m have "c = (p, x # xs)" by (simp add: prod_eq_iff)
      then show ?thesis by simp
    next
      case (Cons y m')
      with m have "xs = m' @ snd c" "fst c = prev_of (Some x) m'" by (auto simp: prev_of_Cons)
      then show ?thesis using "2.IH" by auto
    qed
  qed
qed

theorem re_search_iff:
  "re_search U ci r s \<longleftrightarrow> (\<exists>a b d. s = a @ b \<and> rm U ci r (prev_of None a, b) d)"
  unfolding re_search_def list_ex_iff ends_Nil_iff Bex_def starts_iff
  by (metis fst_conv prod.collapse snd_conv)

theorem re_fullmatch_iff:
  "re_fullmatch U ci r s \<longleftrightarrow> (\<exists>p. rm U ci r (None, s) (p, []))"
  unfolding re_fullmatch_def list_ex_iff Bex_def ends_iff_rm
  by (metis prod.collapse snd_conv)

lemma re_searchI:
  "s = a @ b \<Longrightarrow> rm U ci r (prev_of None a, b) d \<Longrightarrow> re_search U ci r s"
  unfolding re_search_iff by blast


section \<open>Building patterns\<close>

definition Zero :: regex where
  "Zero = Cls False []"

definition Dot :: regex where
  "Dot = Cls True [CC 10]"

fun lit :: "string \<Rightarrow> regex" where
  "lit [] = Eps"
| "lit [c] = Cls False [CC (of_char c)]"
| "lit (c # d # s) = Cat (Cls False [CC (of_char c)]) (lit (d # s))"

fun cats :: "regex list \<Rightarrow> regex" where
  "cats [] = Eps"
| "cats [r] = r"
| "cats (r # s # rs) = Cat r (cats (s # rs))"

fun alts :: "regex list \<Rightarrow> regex" where
  "alts [] = Zero"
| "alts [r] = r"
| "alts (r # s # rs) = Alt r (alts (s # rs))"

definition opt :: "regex \<Rightarrow> regex" where
  "opt r = Alt r Eps"

definition plus1 :: "regex \<Rightarrow> regex" where
  "plus1 r = Cat r (Rep r)"

text \<open>The classes the patterns share: \<^verbatim>\<open>\s\<close>, \<^verbatim>\<open>\w\<close>, \<^verbatim>\<open>[a-zA-Z]\<close>, a character set given by
  the characters of a string, and its complement.\<close>

definition Sp :: regex where "Sp = Cls False [CSp]"
definition Wd :: regex where "Wd = Cls False [CWd]"
definition Letter :: regex where "Letter = Cls False [CR 97 122, CR 65 90]"

definition oneof :: "string \<Rightarrow> regex" where
  "oneof s = Cls False (map (\<lambda>c. CC (of_char c)) s)"

definition noneof :: "string \<Rightarrow> regex" where
  "noneof s = Cls True (map (\<lambda>c. CC (of_char c)) s)"

lemma rm_lit: "rm U False (lit w) (p, u w @ s) (prev_of p (u w), s)"
proof (induction w arbitrary: p rule: lit.induct)
  case 1
  show ?case by (simp add: rm_Eps)
next
  case (2 c)
  have "rm U False (Cls False [CC (of_char c)]) (p, of_char c # s) (Some (of_char c), s)"
    by (rule rm_Cls) (simp add: cls_match_def)
  then show ?case by (simp add: u_Cons prev_of_def)
next
  case (3 c d w)
  have "rm U False (Cls False [CC (of_char c)]) (p, of_char c # (u (d # w) @ s))
      (Some (of_char c), u (d # w) @ s)"
    by (rule rm_Cls) (simp add: cls_match_def)
  from rm_Cat[OF this "3.IH"[of "Some (of_char c)"]] show ?case
    by (simp add: u_Cons prev_of_Cons)
qed

lemma rm_cats_Cons: "rs \<noteq> [] \<Longrightarrow> rm U ci r c d \<Longrightarrow> rm U ci (cats rs) d e \<Longrightarrow> rm U ci (cats (r # rs)) c e"
  by (cases rs) (auto intro: rm_Cat)

lemma rm_alts: "r \<in> set rs \<Longrightarrow> rm U ci r c d \<Longrightarrow> rm U ci (alts rs) c d"
  by (induction rs rule: alts.induct) (auto intro: rm_AltL rm_AltR)

lemma rm_Rep_all:
  "list_all (cls_match U ci neg its) m \<Longrightarrow> rm U ci (Rep (Cls neg its)) (p, m @ s) (prev_of p m, s)"
proof (induction m arbitrary: p)
  case Nil
  then show ?case by (simp add: rm_Rep0)
next
  case (Cons x m)
  have "rm U ci (Cls neg its) (p, x # m @ s) (Some x, m @ s)"
    using Cons.prems by (intro rm_Cls) simp
  with Cons show ?case
    using rm_RepS[OF \<open>rm U ci (Cls neg its) (p, x # m @ s) (Some x, m @ s)\<close> Cons.IH] by (simp add: prev_of_Cons)
qed

lemma rm_optI: "rm U ci r c d \<Longrightarrow> rm U ci (opt r) c d"
  by (simp add: opt_def rm_AltL)

lemma rm_opt_skip: "rm U ci (opt r) c c"
  by (simp add: opt_def rm_AltR rm_Eps)

end
