(* ===== verification/Fnmatch.thy ===== *)
theory Fnmatch
  imports Prelude
begin

text \<open>
  \<^verbatim>\<open>fnmatch.fnmatch\<close> of the Python library on a POSIX host (where \<^verbatim>\<open>normcase\<close> is the
  identity): the translation of a shell glob into tokens (\<open>glob_tokens\<close>, including the
  chunked character sets with their empty ranges removed) and the match of a whole name
  (\<open>glob_match\<close>). \<open>gdenotes\<close> says what a token list denotes, \<open>glob_match_iff\<close> that the matcher
  computes it. The permission rules of the engine, the sensitive-read globs and the network
  policy are all matched through \<open>fnmatch\<close>.
\<close>

datatype gtok = GStar | GAny | GChr int | GSet bool "(int \<times> int) list" | GNever

subsection \<open>Character sets\<close>

text \<open>The text between the brackets and what follows it; \<open>None\<close> when no bracket closes.\<close>

fun eat :: "int \<Rightarrow> pystr \<Rightarrow> pystr \<times> pystr" where
  "eat a [] = ([], [])"
| "eat a (c # cs) = (if c = a then ([c], cs) else ([], c # cs))"

definition bracket_split :: "pystr \<Rightarrow> (pystr \<times> pystr) option" where
  "bracket_split rest =
     (let (p1, r1) = eat 33 rest;
          (p2, r2) = eat 93 r1;
          body = takeWhile (\<lambda>c. c \<noteq> 93) r2;
          after = dropWhile (\<lambda>c. c \<noteq> 93) r2
      in if after = [] then None else Some (p1 @ p2 @ body, tl after))"

text \<open>The hyphens that make ranges split the text into chunks; a hyphen in the first \<open>k\<close>
  positions of a chunk is an ordinary character.\<close>

fun chunk_aux :: "nat \<Rightarrow> pystr \<Rightarrow> pystr \<Rightarrow> pystr list" where
  "chunk_aux k acc [] = [rev acc]"
| "chunk_aux 0 acc (c # cs) =
     (if c = 45 then rev acc # chunk_aux 2 [] cs else chunk_aux 0 (c # acc) cs)"
| "chunk_aux (Suc k) acc (c # cs) = chunk_aux k (c # acc) cs"

definition fix_last :: "pystr list \<Rightarrow> pystr list" where
  "fix_last cs =
     (if cs \<noteq> [] \<and> last cs = [] \<and> butlast cs \<noteq> []
      then butlast (butlast cs) @ [last (butlast cs) @ [45]] else cs)"

fun merge_chunks :: "pystr list \<Rightarrow> pystr list" where
  "merge_chunks [] = []"
| "merge_chunks [a] = [a]"
| "merge_chunks (a # b # cs) =
     (case merge_chunks (b # cs) of
        [] \<Rightarrow> [a]
      | b' # bs \<Rightarrow> if last a > hd b' then (butlast a @ tl b') # bs else a # b' # bs)"

definition set_chunks :: "pystr \<Rightarrow> pystr list" where
  "set_chunks stuff =
     (if 45 \<notin> set stuff then [stuff]
      else merge_chunks (fix_last (chunk_aux (if hd stuff = 33 then 2 else 1) [] stuff)))"

fun chunk_ranges :: "pystr list \<Rightarrow> (int \<times> int) list" where
  "chunk_ranges [] = []"
| "chunk_ranges [a] = map (\<lambda>c. (c, c)) a"
| "chunk_ranges (a # b # cs) =
     map (\<lambda>c. (c, c)) a @ (last a, hd b) # chunk_ranges (b # cs)"

definition set_token :: "pystr \<Rightarrow> gtok" where
  "set_token stuff =
     (case set_chunks stuff of
        [] \<Rightarrow> GNever
      | c # cs \<Rightarrow>
          if c = [] \<and> cs = [] then GNever
          else if c = [33] \<and> cs = [] then GAny
          else if c \<noteq> [] \<and> hd c = 33 then GSet True (chunk_ranges (tl c # cs))
          else GSet False (chunk_ranges (c # cs)))"

lemma eat_length: "length (snd (eat a s)) \<le> length s"
  by (cases s) auto

lemma bracket_split_shorter:
  assumes "bracket_split rest = Some (stuff, after)"
  shows "length after < length rest"
proof -
  define r2 where "r2 = snd (eat 93 (snd (eat 33 rest)))"
  have le: "length r2 \<le> length rest"
    unfolding r2_def using eat_length[of 93 "snd (eat 33 rest)"] eat_length[of 33 rest] by simp
  from assms have ne: "dropWhile (\<lambda>c. c \<noteq> 93) r2 \<noteq> []"
    and after: "after = tl (dropWhile (\<lambda>c. c \<noteq> 93) r2)"
    unfolding r2_def bracket_split_def Let_def by (auto split: prod.splits if_splits)
  from ne have "length after < length (dropWhile (\<lambda>c. c \<noteq> 93) r2)"
    unfolding after by (cases "dropWhile (\<lambda>c. c \<noteq> 93) r2") auto
  also have "\<dots> \<le> length r2" by (rule length_dropWhile_le)
  finally show ?thesis using le by simp
qed


subsection \<open>Tokens and matching\<close>

function glob_tokens :: "pystr \<Rightarrow> gtok list" where
  "glob_tokens [] = []"
| "glob_tokens (c # cs) =
     (if c = 42 then GStar # glob_tokens cs
      else if c = 63 then GAny # glob_tokens cs
      else if c = 91 then
        (case bracket_split cs of
           None \<Rightarrow> GChr c # glob_tokens cs
         | Some (stuff, after) \<Rightarrow> set_token stuff # glob_tokens after)
      else GChr c # glob_tokens cs)"
  by pat_completeness auto
termination
  by (relation "measure length") (auto dest: bracket_split_shorter)

fun gtok_match :: "gtok \<Rightarrow> int \<Rightarrow> bool" where
  "gtok_match GStar c = True"
| "gtok_match GAny c = True"
| "gtok_match (GChr a) c = (c = a)"
| "gtok_match (GSet neg rs) c = (neg \<noteq> list_ex (\<lambda>(a, b). a \<le> c \<and> c \<le> b) rs)"
| "gtok_match GNever c = False"

fun glob_match :: "gtok list \<Rightarrow> pystr \<Rightarrow> bool" where
  "glob_match [] s = (s = [])"
| "glob_match (GStar # ts) [] = glob_match ts []"
| "glob_match (GStar # ts) (c # cs) = (glob_match ts (c # cs) \<or> glob_match (GStar # ts) cs)"
| "glob_match (t # ts) [] = False"
| "glob_match (t # ts) (c # cs) = (gtok_match t c \<and> glob_match ts cs)"

definition fnmatch :: "pystr \<Rightarrow> pystr \<Rightarrow> bool" where
  "fnmatch name pat = glob_match (glob_tokens pat) name"


subsection \<open>What a token list denotes\<close>

inductive gdenotes :: "gtok list \<Rightarrow> pystr \<Rightarrow> bool" where
  gd_Nil: "gdenotes [] []"
| gd_Star: "gdenotes ts s \<Longrightarrow> gdenotes (GStar # ts) (m @ s)"
| gd_One: "t \<noteq> GStar \<Longrightarrow> gtok_match t c \<Longrightarrow> gdenotes ts s \<Longrightarrow> gdenotes (t # ts) (c # s)"

inductive_cases gdenotes_NilE: "gdenotes [] s"
inductive_cases gdenotes_ConsE: "gdenotes (t # ts) s"

lemma gdenotes_Nil_iff: "gdenotes [] s \<longleftrightarrow> s = []"
  by (auto intro: gd_Nil elim: gdenotes_NilE)

lemma gdenotes_Star_iff: "gdenotes (GStar # ts) s \<longleftrightarrow> (\<exists>a b. s = a @ b \<and> gdenotes ts b)"
proof
  assume "gdenotes (GStar # ts) s"
  then show "\<exists>a b. s = a @ b \<and> gdenotes ts b"
    by (rule gdenotes_ConsE) auto
qed (auto intro: gd_Star)

lemma gdenotes_One_iff:
  "t \<noteq> GStar \<Longrightarrow> gdenotes (t # ts) s \<longleftrightarrow> (\<exists>c b. s = c # b \<and> gtok_match t c \<and> gdenotes ts b)"
  by (auto intro: gd_One elim: gdenotes_ConsE)

theorem glob_match_iff: "glob_match ts s \<longleftrightarrow> gdenotes ts s"
proof (induction ts s rule: glob_match.induct)
  case (3 ts c cs)
  have "gdenotes (GStar # ts) (c # cs) \<longleftrightarrow> gdenotes ts (c # cs) \<or> gdenotes (GStar # ts) cs"
    unfolding gdenotes_Star_iff by (metis append_Cons append_Nil neq_Nil_conv list.inject)
  with 3 show ?case by simp
qed (auto simp: gdenotes_Nil_iff gdenotes_Star_iff gdenotes_One_iff)

definition is_meta :: "int \<Rightarrow> bool" where
  "is_meta c \<longleftrightarrow> c = 42 \<or> c = 63 \<or> c = 91"

lemma glob_tokens_plain:
  "\<forall>c \<in> set p. \<not> is_meta c \<Longrightarrow> glob_tokens (p @ q) = map GChr p @ glob_tokens q"
  by (induction p) (auto simp: is_meta_def)

lemma glob_tokens_plain_all: "\<forall>c \<in> set p. \<not> is_meta c \<Longrightarrow> glob_tokens p = map GChr p"
  using glob_tokens_plain[of p "[]"] by simp

lemma gdenotes_chars: "gdenotes (map GChr w @ ts) s \<longleftrightarrow> (\<exists>t. s = w @ t \<and> gdenotes ts t)"
proof (induction w arbitrary: s)
  case Nil
  then show ?case by simp
next
  case (Cons a w)
  have "gdenotes (GChr a # (map GChr w @ ts)) s \<longleftrightarrow> (\<exists>b. s = a # b \<and> gdenotes (map GChr w @ ts) b)"
    by (subst gdenotes_One_iff) auto
  with Cons show ?case by auto
qed

text \<open>A pattern without metacharacters matches exactly itself.\<close>

lemma fnmatch_plain: "\<forall>c \<in> set p. \<not> is_meta c \<Longrightarrow> fnmatch s p \<longleftrightarrow> s = p"
  using gdenotes_chars[of p "[]" s]
  by (simp add: fnmatch_def glob_match_iff glob_tokens_plain_all gdenotes_Nil_iff)

text \<open>The shapes \<^verbatim>\<open>**w\<close> and \<^verbatim>\<open>**w**\<close> with a plain \<open>w\<close> are the suffix and the substring test.\<close>

lemma fnmatch_star2_suffix:
  assumes "\<forall>c \<in> set w. \<not> is_meta c"
  shows "fnmatch s (42 # 42 # w) \<longleftrightarrow> endswith s w"
proof -
  have "glob_tokens (42 # 42 # w) = GStar # GStar # map GChr w"
    using assms by (simp add: glob_tokens_plain_all)
  then have "fnmatch s (42 # 42 # w) \<longleftrightarrow> (\<exists>a b c. s = a @ b @ c \<and> c = w)"
    using gdenotes_chars[of w "[]"]
    by (auto simp: fnmatch_def glob_match_iff gdenotes_Star_iff gdenotes_Nil_iff)
  then show ?thesis unfolding endswith_iff by (metis append.assoc append_Nil)
qed

lemma gdenotes_two_stars: "gdenotes [GStar, GStar] t"
  using gd_Star[OF gd_Star[OF gd_Nil, of "[]"], of t] by simp

lemma fnmatch_star2_infix:
  assumes "\<forall>c \<in> set w. \<not> is_meta c"
  shows "fnmatch s (42 # 42 # w @ [42, 42]) \<longleftrightarrow> contains s w"
proof -
  have "glob_tokens (42 # 42 # w @ [42, 42]) = GStar # GStar # map GChr w @ [GStar, GStar]"
    using assms by (simp add: glob_tokens_plain)
  then have m: "fnmatch s (42 # 42 # w @ [42, 42])
      \<longleftrightarrow> (\<exists>a b. s = a @ b \<and> (\<exists>c d. b = c @ d \<and> (\<exists>t. d = w @ t)))"
    by (simp only: fnmatch_def glob_match_iff gdenotes_two_stars simp_thms
        gdenotes_Star_iff[of "GStar # map GChr w @ [GStar, GStar]"]
        gdenotes_Star_iff[of "map GChr w @ [GStar, GStar]"] gdenotes_chars[of w "[GStar, GStar]"])
  show ?thesis
  proof
    assume "fnmatch s (42 # 42 # w @ [42, 42])"
    then obtain a c t where "s = (a @ c) @ w @ t" unfolding m by auto
    then show "contains s w" unfolding contains_iff by blast
  next
    assume "contains s w"
    then obtain a t where "s = a @ w @ t" unfolding contains_iff by blast
    then have "s = a @ (w @ t) \<and> w @ t = [] @ (w @ t)" by simp
    then show "fnmatch s (42 # 42 # w @ [42, 42])" unfolding m by blast
  qed
qed

text \<open>A lone star matches every name.\<close>

lemma fnmatch_star: "fnmatch s [42]"
  by (simp add: fnmatch_def glob_match_iff gdenotes_Star_iff gdenotes_Nil_iff)

end
