(* ===== verification/Py_Path.thy ===== *)
theory Py_Path
  imports Prelude "HOL-Library.Sublist"
begin

text \<open>
  \<^verbatim>\<open>pathlib.PurePosixPath\<close>: parsing, joining, \<^verbatim>\<open>parts\<close>, \<^verbatim>\<open>parents\<close>, \<^verbatim>\<open>as_posix\<close> and
  \<^verbatim>\<open>relative_to\<close>, as the permission engine uses them. What needs the host (symbolic links,
  home directories, the environment) is the record \<open>host\<close>, an argument of the definitions that
  use it; an answer \<open>None\<close> stands for the exceptions the code catches
  (\<^verbatim>\<open>OSError\<close>, \<^verbatim>\<open>RuntimeError\<close>, \<^verbatim>\<open>ValueError\<close>).
\<close>

record ppath =
  proot :: pystr
  ptail :: "pystr list"

definition path_seg :: "pystr \<Rightarrow> bool" where
  "path_seg w \<longleftrightarrow> w \<noteq> [] \<and> w \<noteq> [46]"

definition parse_path :: "pystr \<Rightarrow> ppath" where
  "parse_path s =
     (let (rt, rel) = (if \<not> startswith s [47] then ([], s)
                       else if startswith s [47, 47] \<and> \<not> startswith s [47, 47, 47]
                       then ([47, 47], drop 2 s) else ([47], drop 1 s))
      in \<lparr>proot = rt, ptail = filter path_seg (split_chr 47 rel)\<rparr>)"

definition as_posix :: "ppath \<Rightarrow> pystr" where
  "as_posix p = (if proot p = [] \<and> ptail p = [] then [46] else proot p @ py_join [47] (ptail p))"

definition is_absolute :: "ppath \<Rightarrow> bool" where
  "is_absolute p \<longleftrightarrow> proot p \<noteq> []"

definition parts :: "ppath \<Rightarrow> pystr list" where
  "parts p = (if proot p = [] then ptail p else proot p # ptail p)"

text \<open>\<^verbatim>\<open>p / q\<close>\<close>

definition path_join :: "ppath \<Rightarrow> ppath \<Rightarrow> ppath" where
  "path_join p q = (if is_absolute q then q else p\<lparr>ptail := ptail p @ ptail q\<rparr>)"

text \<open>\<^verbatim>\<open>d in c.parents\<close>\<close>

definition in_parents :: "ppath \<Rightarrow> ppath \<Rightarrow> bool" where
  "in_parents d c \<longleftrightarrow> proot d = proot c \<and> strict_prefix (ptail d) (ptail c)"

text \<open>\<^verbatim>\<open>c == d or d in c.parents\<close>\<close>

definition under :: "ppath \<Rightarrow> ppath \<Rightarrow> bool" where
  "under c d \<longleftrightarrow> c = d \<or> in_parents d c"

text \<open>\<^verbatim>\<open>c.relative_to(d).as_posix()\<close>; \<open>None\<close> is \<^verbatim>\<open>ValueError\<close>.\<close>

definition relative_to :: "ppath \<Rightarrow> ppath \<Rightarrow> ppath option" where
  "relative_to c d = (if under c d then Some \<lparr>proot = [], ptail = drop (length (ptail d)) (ptail c)\<rparr> else None)"

lemma under_iff: "under c d \<longleftrightarrow> proot c = proot d \<and> prefix (ptail d) (ptail c)"
  by (auto simp: under_def in_parents_def strict_prefix_def ppath.equality)

lemma under_refl [simp]: "under c c"
  by (simp add: under_def)

lemma under_trans: "under a b \<Longrightarrow> under b c \<Longrightarrow> under a c"
  by (auto simp: under_iff intro: prefix_order.trans)

lemma path_join_under: "\<not> is_absolute q \<Longrightarrow> under (path_join p q) p"
  by (simp add: path_join_def under_iff)

subsection \<open>The host\<close>

record host =
  h_resolve :: "ppath \<Rightarrow> ppath option"
  h_user :: "pystr \<Rightarrow> pystr"
  h_home :: "ppath option"
  h_jarn_home :: "pystr option"
  h_cwd :: ppath

text \<open>\<^verbatim>\<open>Path.expanduser\<close>: a leading \<^verbatim>\<open>~\<close> or \<^verbatim>\<open>~user\<close> component is looked up with
  \<^verbatim>\<open>os.path.expanduser\<close> (\<open>h_user\<close>), which returns its argument when it has no answer.\<close>

definition expanduser :: "host \<Rightarrow> ppath \<Rightarrow> ppath option" where
  "expanduser H p =
     (if proot p = [] \<and> ptail p \<noteq> [] \<and> startswith (hd (ptail p)) [126] then
        (let hd' = h_user H (hd (ptail p))
         in if startswith hd' [126] then None
            else (let q = parse_path hd' in Some (q\<lparr>ptail := ptail q @ tl (ptail p)\<rparr>)))
      else Some p)"

text \<open>\<^verbatim>\<open>jarn.config.paths\<close>: the global home and the directories of the secret store.\<close>

definition default_global_home :: "host \<Rightarrow> ppath option" where
  "default_global_home H = map_option (\<lambda>h. path_join h (parse_path (u ''.jarn''))) (h_home H)"

definition global_home :: "host \<Rightarrow> ppath option" where
  "global_home H = (case h_jarn_home H of
       Some override \<Rightarrow> if override \<noteq> [] then expanduser H (parse_path override)
                       else default_global_home H
     | None \<Rightarrow> default_global_home H)"

definition secret_store_dirs :: "host \<Rightarrow> ppath list" where
  "secret_store_dirs H =
     (let lookup = (\<lambda>h. case h of None \<Rightarrow> []
           | Some p \<Rightarrow> (case h_resolve H (path_join p (parse_path (u ''secrets''))) of
                          None \<Rightarrow> [] | Some d \<Rightarrow> [d]))
      in remdups (lookup (global_home H) @ lookup (default_global_home H)))"

subsection \<open>A concrete host\<close>

text \<open>A host without symbolic links: \<^verbatim>\<open>resolve()\<close> anchors a relative path at the working
  directory and removes \<^verbatim>\<open>..\<close> components. It is used for examples.\<close>

fun collapse :: "pystr list \<Rightarrow> pystr list \<Rightarrow> pystr list" where
  "collapse acc [] = rev acc"
| "collapse acc (w # ws) = collapse (if w = [46, 46] then tl acc else w # acc) ws"

definition plain_host :: "pystr \<Rightarrow> pystr \<Rightarrow> host" where
  "plain_host home cwd =
     \<lparr>h_resolve = (\<lambda>p. let q = path_join (parse_path cwd) p in Some (q\<lparr>ptail := collapse [] (ptail q)\<rparr>)),
      h_user = (\<lambda>s. if s = [126] then home else s),
      h_home = Some (parse_path home), h_jarn_home = None, h_cwd = parse_path cwd\<rparr>"

definition user_host :: host where
  "user_host = plain_host (u ''/home/ann'') (u ''/home/ann/proj'')"

end
