(* ===== verification/Guard.thy ===== *)
theory Guard
  imports Regex Fnmatch
begin

text \<open>
  The danger guard, \<^verbatim>\<open>src/src/jarn/permissions/guard.py\<close>: the normalisation of a shell
  command, every pattern of the module as a \<open>regex\<close>, the classification of \<^verbatim>\<open>rm\<close>, the network
  egress policy, and \<open>inspect_command\<close> / \<open>inspect_path_write\<close>. A call that raises
  (\<^verbatim>\<open>urlparse\<close> on a malformed URL) returns \<open>Inl\<close>.
\<close>

section \<open>Verdicts\<close>

datatype exn = ValueError

datatype GuardLevel = SAFE | DANGEROUS | BLOCKED

record GuardVerdict =
  level :: GuardLevel
  greason :: pystr

definition verdict :: "GuardLevel \<Rightarrow> pystr \<Rightarrow> GuardVerdict" where
  "verdict l r = \<lparr>level = l, greason = r\<rparr>"

lemma level_verdict [simp]: "level (verdict l r) = l"
  by (simp add: verdict_def)

section \<open>Patterns\<close>

text \<open>\<^verbatim>\<open>[\s'"]\<close>, \<^verbatim>\<open>[^\s'"]\<close>, \<^verbatim>\<open>(?:^|[\s'"])\<close>, \<^verbatim>\<open>[^|;&\n]*\<close> and \<^verbatim>\<open>\b(?:...)\b\<close>.\<close>

definition SpQ :: regex where "SpQ = Cls False [CSp, CC 39, CC 34]"
definition NotSpQ :: regex where "NotSpQ = Cls True [CSp, CC 39, CC 34]"
definition BosSpQ :: regex where "BosSpQ = Alt Bos SpQ"
definition Seg :: regex where "Seg = Rep (Cls True [CC 124, CC 59, CC 38, CC 10])"
definition words :: "string list \<Rightarrow> regex" where
  "words ws = cats [WordB, alts (map lit ws), WordB]"

definition RM :: regex where "RM = cats [WordB, lit ''rm'', WordB]"

definition RM_RECURSIVE :: regex where
  "RM_RECURSIVE = cats [Alt Bos Sp,
     Alt (lit ''--recursive'') (cats [lit ''-'', Rep Letter, lit ''r'', Rep Letter]),
     Ahead (Alt Sp Eos)]"

definition RM_FORCE :: regex where
  "RM_FORCE = cats [Alt Bos Sp,
     Alt (lit ''--force'') (cats [lit ''-'', Rep Letter, lit ''f'', Rep Letter]),
     Ahead (Alt Sp Eos)]"

definition ROOT_TARGETS :: "regex list" where
  "ROOT_TARGETS = [lit ''/'', lit ''/*'', lit ''~'', cats [lit ''~/'', opt (lit ''*'')],
     lit ''$HOME'', lit ''${HOME}'']"

definition ROOT_TARGET :: regex where
  "ROOT_TARGET = cats [BosSpQ, alts ROOT_TARGETS, Ahead (Alt SpQ Eos)]"

definition JARN_SECRET_PATH :: regex where
  "JARN_SECRET_PATH = Alt
     (cats [BosSpQ, opt (cats [Rep NotSpQ, lit ''/'']), lit ''.jarn/secrets'',
            alts [lit ''/'', SpQ, Eos]])
     (cats [Alt (lit ''$JARN_HOME'') (lit ''${JARN_HOME}''), lit ''/secrets'',
            alts [lit ''/'', SpQ, Eos]])"

definition NotSlashSpQ :: regex where
  "NotSlashSpQ = Cls True [CC 47, CSp, CC 39, CC 34]"

definition SENSITIVE_SHELL_PATH :: regex where
  "SENSITIVE_SHELL_PATH = cats [BosSpQ, opt (cats [Rep NotSpQ, lit ''/'']),
     alts [cats [lit ''.env'', opt (cats [lit ''.'', plus1 NotSlashSpQ])],
           cats [lit ''.ssh/'', Alt (cats [lit ''id_'', plus1 NotSlashSpQ]) (lit ''config'')],
           lit ''.aws/credentials'',
           cats [plus1 NotSlashSpQ, lit ''.'', Alt (lit ''pem'') (lit ''key'')]],
     Alt SpQ Eos]"

definition DYNAMIC_SHELL :: regex where
  "DYNAMIC_SHELL = alts [lit ''$('', Cls False [CC 96],
     cats [Alt Bos Sp, oneof ''<>'', lit ''(''],
     cats [lit ''<<'', opt (lit ''-''), Rep Sp, opt (Cls False [CC 39, CC 34]), plus1 Wd]]"

definition SHELL_DYNAMIC_PAYLOAD :: regex where
  "SHELL_DYNAMIC_PAYLOAD = cats [words [''bash'', ''sh'', ''zsh'', ''dash'', ''fish'', ''ksh''], Seg,
     Sp, lit ''-c'', plus1 Sp, opt (Cls False [CC 39, CC 34]), lit ''$'',
     Alt (lit ''{'') (Cls False [CR 65 90, CR 97 122, CC 95])]"

definition CODE_EVALUATOR :: regex where
  "CODE_EVALUATOR = cats [WordB,
     alts [cats [lit ''python'', opt (Alt (lit ''2'') (lit ''3'')), plus1 Sp, lit ''-c''],
           cats [lit ''node'', plus1 Sp, Alt (lit ''-e'') (lit ''--eval'')],
           cats [lit ''ruby'', plus1 Sp, lit ''-e''],
           cats [lit ''perl'', plus1 Sp, lit ''-e''],
           cats [lit ''php'', plus1 Sp, lit ''-r'']], WordB]"

definition ALIAS_OR_FUNCTION :: regex where
  "ALIAS_OR_FUNCTION = cats [Alt Bos (cats [oneof '';&'', Rep Sp]),
     alts [cats [lit ''alias'', plus1 Sp, plus1 Wd, lit ''=''],
           cats [lit ''function'', plus1 Sp, plus1 Wd],
           cats [Cls False [CR 65 90, CR 97 122, CC 95], Rep Wd, Rep Sp, lit ''()'', Rep Sp, lit ''{'']]]"

definition DYNAMIC_LOADER :: regex where
  "DYNAMIC_LOADER = cats [WordB, Alt (lit ''LD_PRELOAD'') (lit ''DYLD_INSERT_LIBRARIES''), Rep Sp, lit ''='']"

definition REMOTE_TRANSFER :: regex where
  "REMOTE_TRANSFER = Alt (words [''scp'', ''sftp'', ''nc'', ''netcat'', ''socat''])
     (cats [words [''rsync''], Seg, Sp, plus1 (Cls True [CSp]), lit ''@'',
            plus1 (Cls True [CSp, CC 58]), lit '':''])"

definition CURL_UPLOAD :: regex where
  "CURL_UPLOAD = cats [words [''curl''], Seg,
     alts [lit ''--upload-file'', cats [lit ''-T'', WordB],
           cats [lit ''--data'', opt (Alt (lit ''-binary'') (lit ''-raw'')), plus1 Sp, lit ''@''],
           cats [Alt (lit ''-F'') (lit ''--form''), plus1 Sp, plus1 (Cls True [CSp, CC 61]), lit ''=@'']]]"

definition ENV_DUMP :: regex where
  "ENV_DUMP = cats [Alt Bos (cats [oneof ''|;&'', Rep Sp]),
     alts [lit ''env'', lit ''printenv'', lit ''set'', lit ''export''], Rep Sp, Alt Eos (oneof ''|;&'')]"

definition AlnumU :: regex where
  "AlnumU = Cls False [CR 65 90, CR 97 122, CR 48 57, CC 95]"

definition SECRET_NAME :: regex where
  "SECRET_NAME = cats [WordB, Rep AlnumU,
     alts [lit ''API_KEY'', lit ''TOKEN'', lit ''SECRET'', lit ''PASSWORD'', lit ''CREDENTIAL''],
     Rep AlnumU, WordB]"

definition EGRESS_PROGRAM :: regex where
  "EGRESS_PROGRAM = words [''curl'', ''wget'', ''scp'', ''sftp'', ''nc'', ''netcat'', ''socat'', ''ssh'']"

definition GIT :: "regex list" where
  "GIT = [words [''git''], Seg]"

definition RULES :: "(regex \<times> GuardLevel \<times> pystr) list" where
  "RULES =
   [(cats [lit '':()'', Rep Sp, lit ''{'', Rep Sp, lit '':'', Rep Sp, lit ''|'', Rep Sp, lit '':'', Rep Sp,
           lit ''&'', Rep Sp, lit ''}'', Rep Sp, lit '';'', Rep Sp, lit '':''], BLOCKED, u ''fork bomb''),
    (cats [WordB, lit ''mkfs'', opt (cats [lit ''.'', plus1 Wd]), WordB], BLOCKED, u ''filesystem format''),
    (cats [words [''dd''], Rep Dot, WordB, lit ''of=/dev/'',
           alts [lit ''sd'', lit ''nvme'', lit ''disk'', lit ''rdisk'']], BLOCKED, u ''raw write to a block device''),
    (cats [lit ''>'', Rep Sp, lit ''/dev/'', alts [lit ''sd'', lit ''nvme'', lit ''disk'']],
       BLOCKED, u ''redirect into a block device''),
    (cats [WordB, lit ''docker'', plus1 Sp, lit ''run'', WordB, Seg,
           alts [lit ''--privileged'', lit ''--pid=host'', lit ''--net=host''], WordB],
       BLOCKED, u ''privileged container (isolation escape)''),
    (cats (GIT @ [words [''push''], Seg,
           alts [cats [lit ''--force'', WordB], cats [lit ''--force-with-lease'', WordB],
                 cats [Sp, lit ''-f'', WordB]]]), DANGEROUS, u ''force push''),
    (cats (GIT @ [WordB, lit ''reset'', plus1 Sp, lit ''--hard'', WordB]),
       DANGEROUS, u ''hard reset (discards changes)''),
    (cats (GIT @ [WordB, lit ''clean'', plus1 Sp, lit ''-'', Rep Letter, lit ''f'']),
       DANGEROUS, u ''git clean (deletes untracked)''),
    (cats (GIT @ [WordB, Alt (lit ''checkout'') (lit ''restore''), plus1 Sp,
           Alt (lit ''.'') (cats [lit ''--'', plus1 Sp, Alt (lit ''.'') (lit ''*'')]), Alt Sp Eos]),
       DANGEROUS, u ''mass discard of working-tree changes (checkout/restore .)''),
    (cats [words [''chmod'', ''chown''], Seg, Sp, lit ''-R'', Rep Letter, Alt Sp Eos],
       DANGEROUS, u ''recursive permission change''),
    (words [''sudo''], DANGEROUS, u ''elevated privileges''),
    (cats [words [''curl''], Rep Dot, lit ''|'', Rep Sp, opt (cats [lit ''sudo'', plus1 Sp]),
           alts [lit ''sh'', lit ''bash'', lit ''zsh''], WordB], DANGEROUS, u ''pipe-to-shell install''),
    (cats [words [''wget''], Rep Dot, lit ''|'', Rep Sp, opt (cats [lit ''sudo'', plus1 Sp]),
           alts [lit ''sh'', lit ''bash'', lit ''zsh''], WordB], DANGEROUS, u ''pipe-to-shell install''),
    (cats [words [''curl'', ''wget''], Seg, Sp, lit ''-'', oneof ''oO'', WordB, Rep (noneof [CHR '';'', CHR 0x0A]),
           lit '';'', Rep Sp, alts [lit ''sh'', lit ''bash'', lit ''zsh''], WordB],
       DANGEROUS, u ''download-then-execute''),
    (cats [words [''base64''], Seg, Sp, lit ''-d'', WordB, Seg, lit ''|'', Rep Sp,
           alts [lit ''sh'', lit ''bash'', lit ''zsh''], WordB],
       DANGEROUS, u ''base64-decoded payload piped to shell''),
    (cats [WordB, lit ''kill'', opt (lit ''all''), plus1 Sp, lit ''-9'', WordB], DANGEROUS, u ''force kill''),
    (cats [words [''find''], Seg, Sp, lit ''-delete'', WordB], DANGEROUS, u ''find -delete''),
    (cats [words [''find''], Seg, Sp, lit ''-exec'', opt (lit ''dir''), plus1 Sp, lit ''rm'', WordB],
       DANGEROUS, u ''find -exec rm (mass delete)''),
    (cats [WordB, alts [cats [lit ''npm'', plus1 Sp, lit ''install''],
           cats [lit ''pnpm'', plus1 Sp, lit ''install''], cats [lit ''yarn'', plus1 Sp, lit ''add'']], WordB],
       DANGEROUS, u ''package install (postinstall scripts run code)''),
    (cats [WordB, alts [cats [lit ''pip'', plus1 Sp, lit ''install''],
           cats [lit ''uv'', plus1 Sp, lit ''pip'', plus1 Sp, lit ''install''],
           cats [lit ''uv'', plus1 Sp, lit ''add''], lit ''npx'', lit ''bunx''], WordB],
       DANGEROUS, u ''package manager / remote-code runner''),
    (words [''shutdown'', ''reboot'', ''halt''], DANGEROUS, u ''host power control''),
    (cats [words [''truncate''], Seg, Sp, lit ''-s'', Rep Sp, lit ''0'', WordB],
       DANGEROUS, u ''truncate file to zero bytes'')]"

section \<open>Normalisation\<close>

text \<open>The homoglyph table as the module builds it. The second \<^verbatim>\<open>str.maketrans\<close> of the source
  filters on \<^verbatim>\<open>k != "\u0436"\<close>, but the keys are already code points, so the comparison with
  a string is always true and the entry for U+0436 stays.\<close>

definition CONFUSABLES :: "(int \<times> int) list" where
  "CONFUSABLES =
    [(1072, 97), (1077, 101), (1078, 120), (1086, 111), (1088, 112), (1089, 99), (1091, 121),
     (1093, 120), (1084, 109), (1090, 116), (1040, 65), (1042, 66), (1045, 69), (1050, 75),
     (1052, 77), (1053, 72), (1054, 79), (1056, 80), (1057, 67), (1058, 84), (1061, 88)]"

definition translate :: "(int \<times> int) list \<Rightarrow> pystr \<Rightarrow> pystr" where
  "translate tab s = map (\<lambda>c. case map_of tab c of None \<Rightarrow> c | Some d \<Rightarrow> d) s"

definition normalize :: "pyuni \<Rightarrow> pystr \<Rightarrow> pystr" where
  "normalize U command = py_join [32] (split_ws (translate CONFUSABLES (nfkc U command)))"

section \<open>\<^verbatim>\<open>rm\<close>\<close>

definition rm_verdict :: "pyuni \<Rightarrow> pystr \<Rightarrow> GuardVerdict option" where
  "rm_verdict U normalized =
     (if \<not> re_search U False RM normalized \<or> \<not> re_search U False RM_RECURSIVE normalized then None
      else if re_search U False ROOT_TARGET normalized
      then Some (verdict BLOCKED (u ''recursive delete of a root/home path''))
      else if re_search U False RM_FORCE normalized
      then Some (verdict DANGEROUS (u ''recursive force-delete''))
      else None)"

section \<open>Network egress policy\<close>

datatype NetworkVerdict = ALLOWED | NOT_ALLOWED | DENIED

record NetworkPolicy =
  np_allow :: "pystr list"
  np_deny :: "pystr list"

definition host_norm :: "pyuni \<Rightarrow> pystr \<Rightarrow> pystr" where
  "host_norm U h = rstrip_with (\<lambda>c. c = 46) (lower U (strip_ws h))"

definition host_matches :: "pyuni \<Rightarrow> pystr \<Rightarrow> pystr list \<Rightarrow> bool" where
  "host_matches U host patterns =
     (let h = host_norm U host
      in list_ex (\<lambda>pat. let p = host_norm U pat in p \<noteq> [] \<and> fnmatch h p) patterns)"

definition classify_host :: "pyuni \<Rightarrow> pystr \<Rightarrow> NetworkPolicy \<Rightarrow> NetworkVerdict" where
  "classify_host U host policy =
     (if host = [] then (if np_allow policy \<noteq> [] then NOT_ALLOWED else ALLOWED)
      else if host_matches U host (np_deny policy) then DENIED
      else if np_allow policy \<noteq> [] \<and> \<not> host_matches U host (np_allow policy) then NOT_ALLOWED
      else ALLOWED)"

definition EGRESS_CMD :: regex where "EGRESS_CMD = words [''curl'', ''wget'']"

definition BARE_HOST :: regex where
  "BARE_HOST = cats [plus1 (cats [plus1 (Cls False [CWd, CC 45]), lit ''.'']),
     Cls False [CR 97 122], plus1 (Cls False [CR 97 122])]"

definition PROG_TOKEN :: "string \<Rightarrow> regex" where
  "PROG_TOKEN prog = cats [Alt Bos (lit ''/''), lit prog, Eos]"

definition FILENAME_FLAGS_curl :: "pystr list" where
  "FILENAME_FLAGS_curl = [u ''-o'', u ''--output'']"

definition FILENAME_FLAGS_wget :: "pystr list" where
  "FILENAME_FLAGS_wget = [u ''-O'', u ''--output-document'']"

text \<open>\<^verbatim>\<open>urlparse(tok).hostname\<close> for a token that starts with \<^verbatim>\<open>http://\<close> or \<^verbatim>\<open>https://\<close>;
  \<open>after\<close> is the token after that prefix. The checks that make \<^verbatim>\<open>urlsplit\<close> raise come
  first: unbalanced brackets, a bracketed host that is no address, and a host that normalises
  to one with a delimiter.\<close>

definition partition_at :: "int \<Rightarrow> pystr \<Rightarrow> pystr \<times> bool \<times> pystr" where
  "partition_at c s = (takeWhile (\<lambda>x. x \<noteq> c) s, c \<in> set s, drop (Suc (length (takeWhile (\<lambda>x. x \<noteq> c) s))) s)"

definition check_netloc :: "pyuni \<Rightarrow> pystr \<Rightarrow> bool" where
  "check_netloc U netloc =
     (let n = filter (\<lambda>c. c \<notin> {64, 58, 35, 63}) netloc; n2 = nfkc U n
      in is_ascii netloc \<or> n = n2 \<or> list_all (\<lambda>c. c \<notin> {47, 63, 35, 64, 58}) n2)"

definition url_hostname :: "pyuni \<Rightarrow> pystr \<Rightarrow> exn + pystr option" where
  "url_hostname U after =
     (let netloc = takeWhile (\<lambda>c. c \<notin> {47, 63, 35}) after;
          op = 91 \<in> set netloc; cl = 93 \<in> set netloc
      in if op \<noteq> cl then Inl ValueError
         else if op \<and> cl \<and> \<not> bracketed_host_ok U netloc then Inl ValueError
         else if \<not> check_netloc U netloc then Inl ValueError
         else (let hostinfo = after_last 64 netloc;
                   (_, have_open, bracketed) = partition_at 91 hostinfo;
                   name = (if have_open then before_first 93 bracketed else before_first 58 hostinfo);
                   (nm, percent, zone) = partition_at 37 name
               in if name = [] then Inr None
                  else Inr (Some (lower U nm @ (if percent then 37 # zone else [])))))"

definition host_from_token :: "pyuni \<Rightarrow> pystr \<Rightarrow> exn + pystr option" where
  "host_from_token U token =
     (let tok = strip_chars [39, 34] token
      in if lower U (take 7 tok) = u ''http://'' then
           (case url_hostname U (drop 7 tok) of Inl e \<Rightarrow> Inl e
            | Inr h \<Rightarrow> Inr (case h of None \<Rightarrow> None | Some x \<Rightarrow> if x = [] then None else Some (lower U x)))
         else if lower U (take 8 tok) = u ''https://'' then
           (case url_hostname U (drop 8 tok) of Inl e \<Rightarrow> Inl e
            | Inr h \<Rightarrow> Inr (case h of None \<Rightarrow> None | Some x \<Rightarrow> if x = [] then None else Some (lower U x)))
         else if tok = [] \<or> startswith tok [45] then Inr None
         else (let c1 = before_first 47 tok;
                   c2 = (if 64 \<in> set c1 then after_last 64 c1 else c1);
                   c3 = before_first 58 c2
               in if re_fullmatch U True BARE_HOST c3 then Inr (Some (lower U c3)) else Inr None))"

fun egress_scan :: "pyuni \<Rightarrow> pystr list \<Rightarrow> bool \<Rightarrow> pystr list \<Rightarrow> exn + pystr list" where
  "egress_scan U flags skip_next [] = Inr []"
| "egress_scan U flags skip_next (tok # toks) =
     (if skip_next then egress_scan U flags False toks
      else (case host_from_token U tok of
          Inl e \<Rightarrow> Inl e
        | Inr host \<Rightarrow>
            if host \<noteq> None \<and> host \<noteq> Some []
            then map_sum id (\<lambda>hs. the host # hs) (egress_scan U flags False toks)
            else if re_search U True (PROG_TOKEN ''curl'') tok then egress_scan U FILENAME_FLAGS_curl False toks
            else if re_search U True (PROG_TOKEN ''wget'') tok then egress_scan U FILENAME_FLAGS_wget False toks
            else egress_scan U flags (tok \<in> set flags) toks))"

definition egress_hosts :: "pyuni \<Rightarrow> pystr \<Rightarrow> exn + pystr list" where
  "egress_hosts U normalized =
     (if \<not> re_search U True EGRESS_CMD normalized then Inr []
      else egress_scan U [] False (split_ws normalized))"

text \<open>The loop of \<^verbatim>\<open>_egress_verdict\<close>: the first denied host decides, otherwise the first host
  off the allow-list.\<close>

fun egress_loop :: "pyuni \<Rightarrow> NetworkPolicy \<Rightarrow> pystr option \<Rightarrow> pystr list \<Rightarrow> GuardVerdict option" where
  "egress_loop U policy na [] =
     (case na of None \<Rightarrow> None
      | Some h \<Rightarrow> Some (verdict DANGEROUS
          (u ''egress to '' @ repr_str U h @ u '' is not on the network allowlist'')))"
| "egress_loop U policy na (host # hosts) =
     (case classify_host U host policy of
        DENIED \<Rightarrow> Some (verdict BLOCKED (u ''network policy denies egress to '' @ repr_str U host))
      | NOT_ALLOWED \<Rightarrow> egress_loop U policy (if na = None then Some host else na) hosts
      | ALLOWED \<Rightarrow> egress_loop U policy na hosts)"

definition egress_verdict :: "pyuni \<Rightarrow> pystr \<Rightarrow> NetworkPolicy \<Rightarrow> exn + GuardVerdict option" where
  "egress_verdict U normalized policy =
     map_sum id (egress_loop U policy None) (egress_hosts U normalized)"

section \<open>The guard\<close>

fun first_rule :: "pyuni \<Rightarrow> pystr \<Rightarrow> (regex \<times> GuardLevel \<times> pystr) list \<Rightarrow> GuardVerdict option" where
  "first_rule U s [] = None"
| "first_rule U s ((r, l, why) # rs) =
     (if re_search U False r s then Some (verdict l why) else first_rule U s rs)"

definition late_checks :: "pyuni \<Rightarrow> pystr \<Rightarrow> GuardVerdict option" where
  "late_checks U s =
     (if re_search U True SENSITIVE_SHELL_PATH s
      then Some (verdict DANGEROUS (u ''shell access to a sensitive credential path''))
      else if re_search U False DYNAMIC_SHELL s \<or> re_search U False SHELL_DYNAMIC_PAYLOAD s
      then Some (verdict DANGEROUS (u ''dynamic shell expansion hides the executed payload''))
      else if re_search U False CODE_EVALUATOR s
      then Some (verdict DANGEROUS (u ''inline code evaluator can hide side effects''))
      else if re_search U False ALIAS_OR_FUNCTION s
      then Some (verdict DANGEROUS (u ''shell alias/function can hide later side effects''))
      else if re_search U False DYNAMIC_LOADER s
      then Some (verdict DANGEROUS (u ''dynamic-loader injection''))
      else if re_search U False CURL_UPLOAD s \<or> re_search U False REMOTE_TRANSFER s
      then Some (verdict DANGEROUS (u ''command can transfer local data remotely''))
      else if re_search U False ENV_DUMP s
      then Some (verdict DANGEROUS (u ''command can expose environment credentials''))
      else if re_search U True SECRET_NAME s \<and> re_search U False EGRESS_PROGRAM s
      then Some (verdict DANGEROUS (u ''credential-like environment value sent to network''))
      else None)"

definition policy_active :: "NetworkPolicy option \<Rightarrow> bool" where
  "policy_active np = (case np of None \<Rightarrow> False | Some p \<Rightarrow> np_allow p \<noteq> [] \<or> np_deny p \<noteq> [])"

definition net_verdict :: "pyuni \<Rightarrow> pystr \<Rightarrow> NetworkPolicy option \<Rightarrow> exn + GuardVerdict option" where
  "net_verdict U s np = (if policy_active np then egress_verdict U s (the np) else Inr None)"

definition inspect_command :: "pyuni \<Rightarrow> pystr \<Rightarrow> NetworkPolicy option \<Rightarrow> exn + GuardVerdict" where
  "inspect_command U command network_policy =
     (let normalized = normalize U command
      in if re_search U True JARN_SECRET_PATH normalized
         then Inr (verdict BLOCKED (u ''shell access to J.A.R.N.'s credential store is prohibited''))
         else (case rm_verdict U normalized of
             Some v \<Rightarrow> Inr v
           | None \<Rightarrow>
             (case net_verdict U normalized network_policy of
                Inl e \<Rightarrow> Inl e
              | Inr net \<Rightarrow>
                  if (case net of Some v \<Rightarrow> level v = BLOCKED | None \<Rightarrow> False) then Inr (the net)
                  else (case first_rule U normalized RULES of
                      Some v \<Rightarrow> Inr v
                    | None \<Rightarrow> (case late_checks U normalized of
                          Some v \<Rightarrow> Inr v
                        | None \<Rightarrow> (case net of
                              Some v \<Rightarrow> Inr v
                            | None \<Rightarrow> Inr (verdict SAFE [])))))))"

definition risky_suffixes :: "pystr list" where
  "risky_suffixes = [u ''.git/'', u ''/.ssh/'', u ''/.aws/credentials'']"

definition inspect_path_write :: "pystr \<Rightarrow> bool \<Rightarrow> GuardVerdict" where
  "inspect_path_write path in_scope =
     (if \<not> in_scope then verdict DANGEROUS (u ''write outside the project scope: '' @ path)
      else if list_ex (contains (replace_chr 92 47 path)) risky_suffixes
      then verdict DANGEROUS (u ''write to a sensitive location: '' @ path)
      else verdict SAFE [])"


section \<open>Tokens of a normalised command\<close>

text \<open>A pattern delimited by word boundaries finds a word that is a whole token; a flag or a
  target that is a whole token is found whatever surrounds it.\<close>

definition tokens :: "pyuni \<Rightarrow> pystr \<Rightarrow> pystr list" where
  "tokens U command = split_ws (translate CONFUSABLES (nfkc U command))"

lemma normalize_tokens: "normalize U command = py_join [32] (tokens U command)"
  by (simp add: normalize_def tokens_def)

lemma join_token:
  "w \<in> set ws \<Longrightarrow> \<exists>a b. py_join [32] ws = a @ w @ b \<and> (a = [] \<or> last a = 32) \<and> (b = [] \<or> hd b = 32)"
proof (induction ws rule: induct_list012)
  case (2 x)
  then show ?case by (intro exI[of _ "[]"]) simp
next
  case (3 x y zs)
  show ?case
  proof (cases "w = x")
    case True
    then show ?thesis
      by (intro exI[of _ "[]"] exI[of _ "32 # py_join [32] (y # zs)"]) simp
  next
    case False
    with 3 obtain a b where ab: "py_join [32] (y # zs) = a @ w @ b"
      "a = [] \<or> last a = 32" "b = [] \<or> hd b = 32" by auto
    then show ?thesis
      by (intro exI[of _ "x @ 32 # a"] exI[of _ b]) auto
  qed
qed simp

lemma word_chr_space: "uni_ascii_ok U \<Longrightarrow> \<not> word_chr U 32"
  by (simp add: word_chr_def uni_ascii_isalnum ascii_alnum_def)

definition word_ends :: "pyuni \<Rightarrow> pystr \<Rightarrow> bool" where
  "word_ends U w \<longleftrightarrow> w \<noteq> [] \<and> word_chr U (hd w) \<and> word_chr U (last w)"

lemma opt_word_delim:
  "uni_ascii_ok U \<Longrightarrow> a = [] \<or> last a = 32 \<Longrightarrow> \<not> opt_word U (prev_of None a)"
  by (auto simp: opt_word_def prev_of_def word_chr_space)

lemma next_word_delim:
  "uni_ascii_ok U \<Longrightarrow> b = [] \<or> hd b = 32 \<Longrightarrow> \<not> opt_word U (next_chr b)"
  by (cases b) (auto simp: opt_word_def next_chr_def word_chr_space)

lemma search_words_token:
  assumes U: "uni_ascii_ok U" and w: "u w \<in> set ws" "w \<in> set ks" "word_ends U (u w)"
  shows "re_search U False (words ks) (py_join [32] ws)"
proof -
  obtain a b where e: "py_join [32] ws = a @ u w @ b"
    and a: "a = [] \<or> last a = 32" and b: "b = [] \<or> hd b = 32"
    using join_token[OF w(1)] by blast
  have w': "u w \<noteq> []" "word_chr U (hd (u w))" "word_chr U (last (u w))"
    using w(3) by (auto simp: word_ends_def)
  have 1: "at_word_b U (prev_of None a, u w @ b)"
    using opt_word_delim[OF U a] w' by (cases "u w") (auto simp: at_word_b_def opt_word_def next_chr_def)
  have 2: "at_word_b U (prev_of (prev_of None a) (u w), b)"
    using next_word_delim[OF U b] w' by (auto simp: at_word_b_def opt_word_def prev_of_def)
  have "rm U False (cats [WordB, alts (map lit ks), WordB]) (prev_of None a, u w @ b)
      (prev_of (prev_of None a) (u w), b)"
    using rm_alts[of "lit w" "map lit ks", OF _ rm_lit[of U w "prev_of None a" b]] w(2) 1 2
    by (auto intro!: rm_Cat rm_WordB)
  with e show ?thesis unfolding words_def by (intro re_searchI[OF e])
qed

lemma words_single: "words [w] = cats [WordB, lit w, WordB]"
  by (simp add: words_def)

text \<open>A whole token that a pattern matches, preceded by the start or a space and followed by the
  end or a space.\<close>

lemma search_flag_token:
  assumes its: "CSp \<in> set its"
    and w: "w \<in> set ws" and r: "\<And>p s. rm U False r (p, w @ s) (prev_of p w, s)"
  shows "re_search U False (cats [Alt Bos (Cls False its), r, Ahead (Alt (Cls False its) Eos)])
     (py_join [32] ws)"
proof -
  have sp: "rm U False (Cls False its) (p, 32 # s) (Some 32, s)" for p s
    using its by (intro rm_Cls) (force simp: cls_match_def list_ex_iff)
  obtain a b where e: "py_join [32] ws = a @ w @ b"
    and a: "a = [] \<or> last a = 32" and b: "b = [] \<or> hd b = 32"
    using join_token[OF w] by blast
  have ahead: "rm U False (Ahead (Alt (Cls False its) Eos)) (p, b) (p, b)" for p
  proof (cases b)
    case Nil
    then show ?thesis by (auto intro!: rm_Ahead rm_AltR rm_Eos simp: at_eos_def)
  next
    case (Cons x xs)
    then have "b = 32 # xs" using b by simp
    then show ?thesis using rm_Ahead[OF rm_AltL[OF sp[of p xs]]] by simp
  qed
  show ?thesis
  proof (cases "a = []")
    case True
    have "rm U False (cats [Alt Bos (Cls False its), r, Ahead (Alt (Cls False its) Eos)])
        (None, w @ b) (prev_of None w, b)"
      using r[of None b] ahead by (auto intro!: rm_Cat rm_AltL rm_Bos)
    with True e show ?thesis by (intro re_searchI[of _ "[]" "w @ b"]) simp_all
  next
    case False
    with a obtain a' where a': "a = a' @ [32]" by (metis append_butlast_last_id)
    have "rm U False (cats [Alt Bos (Cls False its), r, Ahead (Alt (Cls False its) Eos)])
        (prev_of None a', 32 # w @ b) (prev_of (Some 32) w, b)"
      using rm_AltR[OF sp] r[of "Some 32" b] ahead by (auto intro!: rm_Cat)
    with e a' show ?thesis by (intro re_searchI[of _ a' "32 # w @ b"]) simp_all
  qed
qed

section \<open>Recursive deletes of a root or home directory\<close>

text \<open>A flag that makes \<^verbatim>\<open>rm\<close> recursive, in any spelling: \<^verbatim>\<open>--recursive\<close>, or a group of short
  options that contains \<^verbatim>\<open>r\<close>.\<close>

definition ascii_letters :: "pystr \<Rightarrow> bool" where
  "ascii_letters s \<longleftrightarrow> list_all (\<lambda>c. (97 \<le> c \<and> c \<le> 122) \<or> (65 \<le> c \<and> c \<le> 90)) s"

definition recursive_flag :: "pystr \<Rightarrow> bool" where
  "recursive_flag w \<longleftrightarrow> w = u ''--recursive''
     \<or> (\<exists>a b. w = 45 # a @ 114 # b \<and> ascii_letters a \<and> ascii_letters b)"

definition root_targets :: "pystr list" where
  "root_targets = [u ''/'', u ''/*'', u ''~'', u ''~/'', u ''~/*'', u ''$HOME'', u ''${HOME}'']"

lemma rm_letters:
  "ascii_letters a \<Longrightarrow> rm U False (Rep Letter) (p, a @ s) (prev_of p a, s)"
  unfolding Letter_def ascii_letters_def
  by (rule rm_Rep_all) (auto simp: cls_match_def list_all_iff)

lemma rm_lit1: "rm U False (lit [c]) (p, of_char c # s) (Some (of_char c), s)"
  using rm_lit[of U "[c]" p s] by (simp add: u_Cons prev_of_def)

lemma rm_recursive_flag:
  assumes "recursive_flag w"
  shows "rm U False (Alt (lit ''--recursive'') (cats [lit ''-'', Rep Letter, lit ''r'', Rep Letter]))
     (p, w @ s) (prev_of p w, s)"
proof -
  consider "w = u ''--recursive''"
    | a b where "w = 45 # a @ 114 # b" "ascii_letters a" "ascii_letters b"
    using assms unfolding recursive_flag_def by blast
  then show ?thesis
  proof cases
    case 1
    show ?thesis unfolding 1 by (rule rm_AltL[OF rm_lit])
  next
    case 2
    have m: "rm U False (lit ''-'') (p, 45 # t) (Some 45, t)"
      and r: "rm U False (lit ''r'') (q, 114 # t) (Some 114, t)" for p q t
      using rm_lit1[of U "CHR ''-''" p t] rm_lit1[of U "CHR ''r''" q t] by simp_all
    have "rm U False (cats [lit ''-'', Rep Letter, lit ''r'', Rep Letter])
        (p, 45 # a @ 114 # b @ s) (prev_of (Some 114) b, s)"
      unfolding cats.simps
      by (rule rm_Cat[OF m rm_Cat[OF rm_letters[OF 2(2)] rm_Cat[OF r rm_letters[OF 2(3)]]]])
    moreover have "prev_of (Some 114) b = prev_of p w"
      unfolding 2(1) by (simp add: prev_of_def)
    ultimately show ?thesis unfolding 2(1) by (simp add: rm_AltR)
  qed
qed

lemma rm_root_target:
  assumes "w \<in> set root_targets"
  shows "rm U False (alts ROOT_TARGETS) (p, w @ s) (prev_of p w, s)"
proof -
  have tilde: "rm U False (cats [lit ''~/'', opt (lit ''*'')]) (p, u ''~/'' @ s) (prev_of p (u ''~/''), s)"
    unfolding cats.simps by (rule rm_Cat[OF rm_lit rm_opt_skip])
  have star: "rm U False (cats [lit ''~/'', opt (lit ''*'')]) (p, u ''~/*'' @ s) (prev_of p (u ''~/*''), s)"
    unfolding cats.simps
    using rm_Cat[OF rm_lit[of U "''~/''" p "u ''*'' @ s"] rm_optI[OF rm_lit[of U "''*''" _ s]]]
    by (simp add: u_Cons prev_of_def)
  from assms consider
      (l) k where "w = u k" "lit k \<in> set ROOT_TARGETS"
    | (t) "w = u ''~/''" | (ts) "w = u ''~/*''"
    unfolding root_targets_def ROOT_TARGETS_def by auto
  then show ?thesis
  proof cases
    case l
    then show ?thesis using rm_alts[OF l(2) rm_lit] by simp
  next
    case t
    then show ?thesis
      using rm_alts[of "cats [lit ''~/'', opt (lit ''*'')]" ROOT_TARGETS, OF _ tilde]
      by (simp add: ROOT_TARGETS_def)
  next
    case ts
    then show ?thesis
      using rm_alts[of "cats [lit ''~/'', opt (lit ''*'')]" ROOT_TARGETS, OF _ star]
      by (simp add: ROOT_TARGETS_def)
  qed
qed

lemma word_ends_ascii:
  assumes "uni_ascii_ok U" "w \<noteq> []" "ascii_alnum (hd w)" "ascii_alnum (last w)"
  shows "word_ends U w"
  using assms by (auto simp: word_ends_def word_chr_def uni_ascii_isalnum ascii_alnum_def)

lemma rm_verdict_root:
  assumes U: "uni_ascii_ok U" and rm: "u ''rm'' \<in> set ws"
    and f: "f \<in> set ws" "recursive_flag f" and t: "t \<in> set ws" "t \<in> set root_targets"
  shows "rm_verdict U (py_join [32] ws) =
     Some (verdict BLOCKED (u ''recursive delete of a root/home path''))"
proof -
  have "word_ends U (u ''rm'')"
    by (rule word_ends_ascii[OF U]) (simp_all add: u_def ascii_alnum_def)
  then have 1: "re_search U False RM (py_join [32] ws)"
    using search_words_token[OF U rm, of "[''rm'']"] by (simp add: RM_def words_single)
  have 2: "re_search U False RM_RECURSIVE (py_join [32] ws)"
    unfolding RM_RECURSIVE_def Sp_def
    by (rule search_flag_token[OF _ f(1) rm_recursive_flag[OF f(2)]]) simp
  have 3: "re_search U False ROOT_TARGET (py_join [32] ws)"
    unfolding ROOT_TARGET_def BosSpQ_def SpQ_def
    by (rule search_flag_token[OF _ t(1) rm_root_target[OF t(2)]]) simp
  from 1 2 3 show ?thesis by (simp add: rm_verdict_def)
qed


section \<open>Verdicts of the guard\<close>

lemma first_rule_Some:
  "first_rule U s rs = Some v \<Longrightarrow> \<exists>r l why. (r, l, why) \<in> set rs \<and> re_search U False r s \<and> v = verdict l why"
proof (induction rs)
  case Nil
  then show ?case by simp
next
  case (Cons x rs)
  obtain r l why where x: "x = (r, l, why)" by (cases x)
  show ?case
  proof (cases "re_search U False r s")
    case True
    with Cons.prems show ?thesis unfolding x by (intro exI[of _ r] exI[of _ l] exI[of _ why]) simp
  next
    case False
    with Cons show ?thesis unfolding x by auto
  qed
qed

lemma first_rule_None_iff:
  "first_rule U s rs = None \<longleftrightarrow> (\<forall>(r, l, why) \<in> set rs. \<not> re_search U False r s)"
  by (induction rs) (auto split: if_splits)

definition blocked_rules :: "(regex \<times> GuardLevel \<times> pystr) list" where
  "blocked_rules = take 5 RULES"

lemma RULES_split: "RULES = blocked_rules @ drop 5 RULES"
  by (simp add: blocked_rules_def)

lemma blocked_rules_level: "list_all (\<lambda>(r, l, why). l = BLOCKED) blocked_rules"
  by (simp add: blocked_rules_def RULES_def)

lemma other_rules_level: "list_all (\<lambda>(r, l, why). l = DANGEROUS) (drop 5 RULES)"
  by (simp add: RULES_def)

lemma first_rule_append:
  "first_rule U s (xs @ ys) = (case first_rule U s xs of None \<Rightarrow> first_rule U s ys | Some v \<Rightarrow> Some v)"
  by (induction xs) auto

lemma first_rule_level:
  "list_all (\<lambda>(r, l, why). l = L) rs \<Longrightarrow> first_rule U s rs = Some v \<Longrightarrow> level v = L"
  by (drule first_rule_Some) (auto simp: list_all_iff)

lemma first_rule_RULES_level:
  assumes "first_rule U s RULES = Some v"
  shows "level v = (if first_rule U s blocked_rules = None then DANGEROUS else BLOCKED)"
  using assms first_rule_level[OF blocked_rules_level] first_rule_level[OF other_rules_level]
  by (subst (asm) RULES_split) (auto simp: first_rule_append split: option.splits)

lemma late_checks_level: "late_checks U s = Some v \<Longrightarrow> level v = DANGEROUS"
  by (auto simp: late_checks_def split: if_splits)

lemma rm_verdict_level: "rm_verdict U s = Some v \<Longrightarrow> level v = DANGEROUS \<or> level v = BLOCKED"
  by (auto simp: rm_verdict_def split: if_splits)

lemma egress_loop_blocked_iff:
  "(\<exists>v. egress_loop U p na hs = Some v \<and> level v = BLOCKED)
     \<longleftrightarrow> (\<exists>h \<in> set hs. classify_host U h p = DENIED)"
  by (induction U p na hs rule: egress_loop.induct)
     (auto split: option.splits NetworkVerdict.splits)

lemma egress_loop_level: "egress_loop U p na hs = Some v \<Longrightarrow> level v = DANGEROUS \<or> level v = BLOCKED"
  by (induction U p na hs rule: egress_loop.induct)
     (auto split: option.splits NetworkVerdict.splits)

lemma egress_loop_None_iff:
  "egress_loop U p na hs = None \<longleftrightarrow> na = None \<and> (\<forall>h \<in> set hs. classify_host U h p = ALLOWED)"
  by (induction U p na hs rule: egress_loop.induct)
     (auto split: option.splits NetworkVerdict.splits)

text \<open>The hosts a command sends to, when a policy is configured; none under an inert policy.\<close>

definition net_hosts :: "pyuni \<Rightarrow> pystr \<Rightarrow> NetworkPolicy option \<Rightarrow> exn + pystr list" where
  "net_hosts U s np = (if policy_active np then egress_hosts U s else Inr [])"

lemma net_verdict_hosts:
  "net_verdict U s np = map_sum id (\<lambda>hs. if policy_active np then egress_loop U (the np) None hs else None)
     (net_hosts U s np)"
  by (simp add: net_verdict_def net_hosts_def egress_verdict_def)

lemma net_verdict_level: "net_verdict U s np = Inr (Some v) \<Longrightarrow> level v = DANGEROUS \<or> level v = BLOCKED"
  unfolding net_verdict_hosts by (cases "net_hosts U s np") (auto dest: egress_loop_level split: if_splits)

lemma inspect_command_cases:
  assumes "inspect_command U cmd np = Inr v"
  obtains (secret) "re_search U True JARN_SECRET_PATH (normalize U cmd)" "level v = BLOCKED"
  | (rm) "rm_verdict U (normalize U cmd) = Some v"
      "\<not> re_search U True JARN_SECRET_PATH (normalize U cmd)"
  | (net) net where "\<not> re_search U True JARN_SECRET_PATH (normalize U cmd)"
      "rm_verdict U (normalize U cmd) = None" "net_verdict U (normalize U cmd) np = Inr net"
      "net = Some v" "level v = BLOCKED"
  | (rule) net where "\<not> re_search U True JARN_SECRET_PATH (normalize U cmd)"
      "rm_verdict U (normalize U cmd) = None" "net_verdict U (normalize U cmd) np = Inr net"
      "\<And>w. net = Some w \<Longrightarrow> level w \<noteq> BLOCKED" "first_rule U (normalize U cmd) RULES = Some v"
  | (late) net where "\<not> re_search U True JARN_SECRET_PATH (normalize U cmd)"
      "rm_verdict U (normalize U cmd) = None" "net_verdict U (normalize U cmd) np = Inr net"
      "\<And>w. net = Some w \<Longrightarrow> level w \<noteq> BLOCKED" "first_rule U (normalize U cmd) RULES = None"
      "late_checks U (normalize U cmd) = Some v"
  | (last) net where "\<not> re_search U True JARN_SECRET_PATH (normalize U cmd)"
      "rm_verdict U (normalize U cmd) = None" "net_verdict U (normalize U cmd) np = Inr net"
      "\<And>w. net = Some w \<Longrightarrow> level w \<noteq> BLOCKED" "first_rule U (normalize U cmd) RULES = None"
      "late_checks U (normalize U cmd) = None"
      "v = (case net of Some w \<Rightarrow> w | None \<Rightarrow> verdict SAFE [])"
  using assms unfolding inspect_command_def Let_def
  by (auto split: if_splits option.splits sum.splits)

section \<open>Properties of the guard\<close>

lemma inspect_command_level:
  "inspect_command U cmd np = Inr v \<Longrightarrow>
     level v = BLOCKED \<longleftrightarrow> re_search U True JARN_SECRET_PATH (normalize U cmd)
       \<or> (case rm_verdict U (normalize U cmd) of Some w \<Rightarrow> level w = BLOCKED
          | None \<Rightarrow> (\<exists>w. net_verdict U (normalize U cmd) np = Inr (Some w) \<and> level w = BLOCKED)
                   \<or> first_rule U (normalize U cmd) blocked_rules \<noteq> None)"
proof (erule inspect_command_cases)
  fix net
  assume "first_rule U (normalize U cmd) RULES = Some v"
    and "\<not> re_search U True JARN_SECRET_PATH (normalize U cmd)" "rm_verdict U (normalize U cmd) = None"
    "net_verdict U (normalize U cmd) np = Inr net" "\<And>w. net = Some w \<Longrightarrow> level w \<noteq> BLOCKED"
  then show ?thesis using first_rule_RULES_level[of U "normalize U cmd" v] by auto
qed (auto dest: late_checks_level simp: RULES_split[THEN arg_cong[where f = "first_rule U (normalize U cmd)"]]
    first_rule_append split: option.splits)

lemma inspect_rm_root:
  assumes "uni_ascii_ok U" "u ''rm'' \<in> set (tokens U cmd)"
    and "f \<in> set (tokens U cmd)" "recursive_flag f"
    and "t \<in> set (tokens U cmd)" "t \<in> set root_targets"
  shows "\<exists>v. inspect_command U cmd np = Inr v \<and> level v = BLOCKED"
  using rm_verdict_root[OF assms] by (simp add: inspect_command_def Let_def normalize_tokens)

text \<open>
  A command among whose normalised words are \<^verbatim>\<open>rm\<close>, an option that makes it recursive (in any
  spelling and order) and a root or home target is blocked, whatever the network policy.
\<close>

theorem guard_rm_root_blocked:
  assumes "uni_ascii_ok U" "u ''rm'' \<in> set (tokens U cmd)"
    and "f \<in> set (tokens U cmd)" "recursive_flag f"
    and "t \<in> set (tokens U cmd)" "t \<in> set root_targets"
  shows "\<exists>v. inspect_command U cmd np = Inr v \<and> level v = BLOCKED"
  by (rule inspect_rm_root[OF assms])

theorem guard_rm_root_blocked_witness:
  "\<exists>v. inspect_command ascii_uni (u ''sudo rm -fvr ~/*'') None = Inr v \<and> level v = BLOCKED"
proof (rule guard_rm_root_blocked[of _ _ "u ''-fvr''" "u ''~/*''"])
  show "uni_ascii_ok ascii_uni" by (rule uni_ascii_ok_ascii_uni)
  show "u ''rm'' \<in> set (tokens ascii_uni (u ''sudo rm -fvr ~/*''))" by code_simp
  show "u ''-fvr'' \<in> set (tokens ascii_uni (u ''sudo rm -fvr ~/*''))" by code_simp
  show "recursive_flag (u ''-fvr'')"
    unfolding recursive_flag_def
    by (intro disjI2 exI[of _ "u ''fv''"] exI[of _ "[]"]) (simp add: u_def ascii_letters_def)
  show "u ''~/*'' \<in> set (tokens ascii_uni (u ''sudo rm -fvr ~/*''))" by code_simp
  show "u ''~/*'' \<in> set root_targets" by code_simp
qed


text \<open>
  The guard calls a command safe exactly when no check fires: not the credential store, not the
  \<^verbatim>\<open>rm\<close> check, no pattern of the rule table, none of the late checks, and every egress host
  is allowed by the active policy.
\<close>

theorem guard_safe_iff:
  "(\<exists>v. inspect_command U cmd np = Inr v \<and> level v = SAFE) \<longleftrightarrow>
     \<not> re_search U True JARN_SECRET_PATH (normalize U cmd)
     \<and> rm_verdict U (normalize U cmd) = None
     \<and> list_all (\<lambda>(r, l, why). \<not> re_search U False r (normalize U cmd)) RULES
     \<and> late_checks U (normalize U cmd) = None
     \<and> (\<exists>hs. net_hosts U (normalize U cmd) np = Inr hs \<and>
          list_all (\<lambda>h. classify_host U h (the np) = ALLOWED) hs)"
  (is "?L \<longleftrightarrow> ?R")
proof -
  let ?n = "normalize U cmd"
  have net: "net_verdict U ?n np = Inr None \<longleftrightarrow>
      (\<exists>hs. net_hosts U ?n np = Inr hs \<and> list_all (\<lambda>h. classify_host U h (the np) = ALLOWED) hs)"
    using egress_loop_None_iff[of U "the np" None]
    by (cases "net_hosts U ?n np") (auto simp: list_all_iff net_verdict_hosts net_hosts_def split: if_splits)
  have rls: "list_all (\<lambda>(r, l, why). \<not> re_search U False r ?n) RULES \<longleftrightarrow> first_rule U ?n RULES = None"
    by (simp add: first_rule_None_iff list_all_iff)
  show ?thesis unfolding rls net[symmetric]
  proof
    assume ?L
    then obtain v where v: "inspect_command U cmd np = Inr v" and s: "level v = SAFE" by blast
    from v show "\<not> re_search U True JARN_SECRET_PATH ?n \<and> rm_verdict U ?n = None
        \<and> first_rule U ?n RULES = None \<and> late_checks U ?n = None \<and> net_verdict U ?n np = Inr None"
    proof (cases rule: inspect_command_cases)
      case rm
      then show ?thesis using s rm_verdict_level[of U ?n v] by auto
    next
      case rule
      then show ?thesis using s first_rule_RULES_level[of U ?n v] by (auto split: if_splits)
    next
      case late
      then show ?thesis using s late_checks_level[of U ?n v] by auto
    next
      case last
      then show ?thesis using s net_verdict_level[of U ?n np] by (auto split: option.splits)
    qed (use s in auto)
  next
    assume "\<not> re_search U True JARN_SECRET_PATH ?n \<and> rm_verdict U ?n = None
        \<and> first_rule U ?n RULES = None \<and> late_checks U ?n = None \<and> net_verdict U ?n np = Inr None"
    then show ?L by (simp add: inspect_command_def)
  qed
qed

text \<open>
  The guard raises only from the egress check: exactly when no earlier check decides, a network
  policy is configured, and some token of a \<^verbatim>\<open>curl\<close> or \<^verbatim>\<open>wget\<close> command is a malformed URL.
\<close>

theorem guard_raises_iff:
  "inspect_command U cmd np = Inl e \<longleftrightarrow>
     \<not> re_search U True JARN_SECRET_PATH (normalize U cmd) \<and> rm_verdict U (normalize U cmd) = None
     \<and> policy_active np \<and> egress_hosts U (normalize U cmd) = Inl e"
  by (cases "egress_hosts U (normalize U cmd)")
     (auto simp: inspect_command_def Let_def net_verdict_def egress_verdict_def split: option.splits)

text \<open>
  A recursive force-delete of an ordinary path returns its dangerous verdict before the blocking
  patterns and the network policy are consulted: \<^verbatim>\<open>rm -rf build; mkfs /dev/sda1\<close> is only dangerous,
  although a blocking pattern matches it.
\<close>

theorem guard_rm_masks_blocked:
  "\<exists>cmd r why v. (r, BLOCKED, why) \<in> set RULES \<and> re_search ascii_uni False r (normalize ascii_uni cmd)
     \<and> (\<forall>np. inspect_command ascii_uni cmd np = Inr v) \<and> level v = DANGEROUS"
proof -
  let ?cmd = "u ''rm -rf build; mkfs /dev/sda1''"
  let ?r = "cats [WordB, lit ''mkfs'', opt (cats [lit ''.'', plus1 Wd]), WordB]"
  have 1: "(?r, BLOCKED, u ''filesystem format'') \<in> set RULES"
    by (simp add: RULES_def)
  have 2: "re_search ascii_uni False ?r (normalize ascii_uni ?cmd)"
    by code_simp
  have "\<not> re_search ascii_uni True JARN_SECRET_PATH (normalize ascii_uni ?cmd)"
    by code_simp
  moreover have "rm_verdict ascii_uni (normalize ascii_uni ?cmd)
      = Some (verdict DANGEROUS (u ''recursive force-delete''))"
    by code_simp
  ultimately have "\<forall>np. inspect_command ascii_uni ?cmd np
      = Inr (verdict DANGEROUS (u ''recursive force-delete''))"
    by (simp add: inspect_command_def)
  with 1 2 show ?thesis
    by (intro exI[of _ ?cmd] exI[of _ ?r] exI[of _ "u ''filesystem format''"]
        exI[of _ "verdict DANGEROUS (u ''recursive force-delete'')"]) simp
qed

text \<open>The table still maps U+0436 (zhe) to \<^verbatim>\<open>x\<close>.\<close>

lemma zhe_still_mapped: "translate CONFUSABLES [1078] = u ''x''"
  by code_simp

end
