(* ===== verification/Json.thy ===== *)
theory Json
  imports Prelude
begin

text \<open>
  JSON text as Python's \<^verbatim>\<open>json\<close> module reads and writes it: \<open>json_loads\<close> is
  \<^verbatim>\<open>json.loads\<close> (\<open>None\<close> for \<^verbatim>\<open>JSONDecodeError\<close>), \<open>dumps_strs\<close> is
  \<^verbatim>\<open>json.dumps(..., ensure_ascii=False, separators=(",", ":"))\<close> on an object whose values are
  strings, which is what the permission engine writes. \<open>loads_dumps_strs\<close> is the round trip;
  the parser's fuel is twice the length of the text, and \<open>json_fuel_enough\<close> shows that more fuel
  never changes an answer.
\<close>

datatype json =
    JNull
  | JBool bool
  | JInt int
  | JFloat pystr
  | JStr pystr
  | JList "json list"
  | JObj "(pystr \<times> json) list"

section \<open>Writing\<close>

definition hex_digit :: "int \<Rightarrow> int" where
  "hex_digit d = (if d < 10 then 48 + d else 87 + d)"

definition esc_chr :: "int \<Rightarrow> pystr" where
  "esc_chr c =
     (if c = 34 then [92, 34] else if c = 92 then [92, 92]
      else if c = 10 then [92, 110] else if c = 13 then [92, 114]
      else if c = 9 then [92, 116] else if c = 12 then [92, 102] else if c = 8 then [92, 98]
      else if c < 32 then [92, 117, 48, 48, hex_digit (c div 16), hex_digit (c mod 16)]
      else [c])"

definition json_str :: "pystr \<Rightarrow> pystr" where
  "json_str s = 34 # concat (map esc_chr s) @ [34]"

definition member_str :: "pystr \<times> pystr \<Rightarrow> pystr" where
  "member_str kv = json_str (fst kv) @ 58 # json_str (snd kv)"

definition dumps_strs :: "(pystr \<times> pystr) list \<Rightarrow> pystr" where
  "dumps_strs kvs = 123 # py_join [44] (map member_str kvs) @ [125]"

section \<open>Reading\<close>

definition hex_val :: "int \<Rightarrow> int option" where
  "hex_val c = (if 48 \<le> c \<and> c \<le> 57 then Some (c - 48)
     else if 97 \<le> c \<and> c \<le> 102 then Some (c - 87)
     else if 65 \<le> c \<and> c \<le> 70 then Some (c - 55) else None)"

fun hex4 :: "pystr \<Rightarrow> (int \<times> pystr) option" where
  "hex4 (a # b # c # d # r) =
     (case (hex_val a, hex_val b, hex_val c, hex_val d) of
        (Some w, Some x, Some y, Some z) \<Rightarrow> Some (((w * 16 + x) * 16 + y) * 16 + z, r)
      | _ \<Rightarrow> None)"
| "hex4 _ = None"

definition simple_esc :: "int \<Rightarrow> int option" where
  "simple_esc c = (if c = 34 then Some 34 else if c = 92 then Some 92 else if c = 47 then Some 47
     else if c = 98 then Some 8 else if c = 102 then Some 12 else if c = 110 then Some 10
     else if c = 114 then Some 13 else if c = 116 then Some 9 else None)"

text \<open>\<^verbatim>\<open>\uXXXX\<close>, with a surrogate pair combined into one code point.\<close>

definition scan_u :: "pystr \<Rightarrow> (int \<times> pystr) option" where
  "scan_u s = (case hex4 s of None \<Rightarrow> None
     | Some (x, r) \<Rightarrow>
         if 55296 \<le> x \<and> x \<le> 56319 \<and> startswith r [92, 117] then
           (case hex4 (drop 2 r) of None \<Rightarrow> None
            | Some (y, r') \<Rightarrow>
                if 56320 \<le> y \<and> y \<le> 57343
                then Some (65536 + ((x - 55296) * 1024 + (y - 56320)), r') else Some (x, r))
         else Some (x, r))"

lemma hex4_shorter: "hex4 s = Some (x, r) \<Longrightarrow> length r < length s"
  by (induction s rule: hex4.induct) (auto split: option.splits)

lemma scan_u_shorter: "scan_u s = Some (x, r) \<Longrightarrow> length r < length s"
  by (auto simp: scan_u_def dest!: hex4_shorter split: option.splits if_splits)

function scan_str :: "pystr \<Rightarrow> (pystr \<times> pystr) option" where
  "scan_str [] = None"
| "scan_str (c # cs) =
     (if c = 34 then Some ([], cs)
      else if c = 92 then
        (case cs of [] \<Rightarrow> None
         | e # es \<Rightarrow>
             if e = 117 then
               (case scan_u es of None \<Rightarrow> None
                | Some (x, r) \<Rightarrow> map_option (\<lambda>(t, q). (x # t, q)) (scan_str r))
             else (case simple_esc e of None \<Rightarrow> None
                | Some x \<Rightarrow> map_option (\<lambda>(t, q). (x # t, q)) (scan_str es)))
      else if c < 32 then None
      else map_option (\<lambda>(t, q). (c # t, q)) (scan_str cs))"
  by pat_completeness auto
termination
  by (relation "measure length") (auto dest: scan_u_shorter)

declare scan_str.simps(2) [simp del]

definition is_digit :: "int \<Rightarrow> bool" where
  "is_digit c \<longleftrightarrow> 48 \<le> c \<and> c \<le> 57"

definition digits_val :: "pystr \<Rightarrow> int" where
  "digits_val ds = foldl (\<lambda>n d. n * 10 + (d - 48)) 0 ds"

text \<open>A number token: the integer part, then a fraction and an exponent when they have digits.\<close>

definition num_int :: "pystr \<Rightarrow> pystr \<times> pystr" where
  "num_int s = (let ds = (if startswith s [48] then [48] else takeWhile is_digit s)
     in (ds, drop (length ds) s))"

definition num_frac :: "pystr \<Rightarrow> pystr \<times> pystr" where
  "num_frac s = (let fr = (if startswith s [46] then takeWhile is_digit (drop 1 s) else [])
     in (fr, if fr = [] then s else drop (Suc (length fr)) s))"

definition num_exp :: "pystr \<Rightarrow> pystr \<times> pystr" where
  "num_exp s =
     (let k = (if startswith s [101] \<or> startswith s [69] then
                 (if startswith (drop 1 s) [43] \<or> startswith (drop 1 s) [45] then 2 else 1)
               else 0);
          ex = (if k = 0 then [] else takeWhile is_digit (drop k s))
      in (ex, if ex = [] then s else drop (k + length ex) s))"

definition scan_num :: "pystr \<Rightarrow> (json \<times> pystr) option" where
  "scan_num s =
     (let neg = startswith s [45];
          (ds, s2) = num_int (if neg then drop 1 s else s);
          (fr, s3) = num_frac s2;
          (ex, s4) = num_exp s3
      in if ds = [] then None
         else if fr = [] \<and> ex = [] then Some (JInt (if neg then - digits_val ds else digits_val ds), s4)
         else Some (JFloat (take (length s - length s4) s), s4))"

definition skip_ws :: "pystr \<Rightarrow> pystr" where
  "skip_ws s = dropWhile (\<lambda>c. c = 32 \<or> c = 9 \<or> c = 10 \<or> c = 13) s"

definition keyword :: "pystr \<Rightarrow> json \<Rightarrow> pystr \<Rightarrow> (json \<times> pystr) option" where
  "keyword w v s = (if startswith s w then Some (v, drop (length w) s) else None)"

definition scan_atom :: "pystr \<Rightarrow> (json \<times> pystr) option" where
  "scan_atom s =
     (case keyword (u ''null'') JNull s of Some x \<Rightarrow> Some x | None \<Rightarrow>
      (case keyword (u ''true'') (JBool True) s of Some x \<Rightarrow> Some x | None \<Rightarrow>
       (case keyword (u ''false'') (JBool False) s of Some x \<Rightarrow> Some x | None \<Rightarrow>
        (case scan_num s of Some x \<Rightarrow> Some x | None \<Rightarrow>
         (case keyword (u ''NaN'') (JFloat (u ''NaN'')) s of Some x \<Rightarrow> Some x | None \<Rightarrow>
          (case keyword (u ''Infinity'') (JFloat (u ''Infinity'')) s of Some x \<Rightarrow> Some x | None \<Rightarrow>
           keyword (u ''-Infinity'') (JFloat (u ''-Infinity'')) s))))))"

fun pvalue :: "nat \<Rightarrow> pystr \<Rightarrow> (json \<times> pystr) option"
  and pmembers :: "nat \<Rightarrow> pystr \<Rightarrow> (pystr, json) pydict \<Rightarrow> (json \<times> pystr) option"
  and pitems :: "nat \<Rightarrow> pystr \<Rightarrow> json list \<Rightarrow> (json \<times> pystr) option" where
  "pvalue 0 s = None"
| "pvalue (Suc n) s =
     (if startswith s [34] then map_option (\<lambda>(t, r). (JStr t, r)) (scan_str (tl s))
      else if startswith s [123] then
        (let r = skip_ws (tl s)
         in if startswith r [125] then Some (JObj [], tl r) else pmembers n r [])
      else if startswith s [91] then
        (let r = skip_ws (tl s)
         in if startswith r [93] then Some (JList [], tl r) else pitems n r [])
      else scan_atom s)"
| "pmembers 0 s acc = None"
| "pmembers (Suc n) s acc =
     (if \<not> startswith s [34] then None
      else (case scan_str (tl s) of None \<Rightarrow> None
        | Some (k, r) \<Rightarrow>
           let r1 = skip_ws r
           in if \<not> startswith r1 [58] then None
              else (case pvalue n (skip_ws (tl r1)) of None \<Rightarrow> None
                | Some (v, r2) \<Rightarrow>
                   let r3 = skip_ws r2; acc' = dput k v acc
                   in if startswith r3 [125] then Some (JObj acc', tl r3)
                      else if startswith r3 [44] then pmembers n (skip_ws (tl r3)) acc'
                      else None)))"
| "pitems 0 s acc = None"
| "pitems (Suc n) s acc =
     (case pvalue n s of None \<Rightarrow> None
      | Some (v, r) \<Rightarrow>
         let r1 = skip_ws r
         in if startswith r1 [93] then Some (JList (acc @ [v]), tl r1)
            else if startswith r1 [44] then pitems n (skip_ws (tl r1)) (acc @ [v])
            else None)"

definition json_loads :: "pystr \<Rightarrow> json option" where
  "json_loads s =
     (if startswith s [65279] then None
      else (case pvalue (Suc (2 * length s)) (skip_ws s) of None \<Rightarrow> None
        | Some (v, r) \<Rightarrow> if skip_ws r = [] then Some v else None))"

declare pvalue.simps(2) [simp del] pmembers.simps(2) [simp del] pitems.simps(2) [simp del]

section \<open>The fuel is enough\<close>

lemma startswith1_iff: "startswith s [c] \<longleftrightarrow> (\<exists>t. s = c # t)"
  by (cases s) auto

lemma skip_ws_le: "length (skip_ws s) \<le> length s"
  by (simp add: skip_ws_def length_dropWhile_le)

lemma skip_ws_tl_less: "startswith s [c] \<Longrightarrow> length (skip_ws (tl s)) < length s"
  using skip_ws_le[of "tl s"] by (auto simp: startswith1_iff)

lemma scan_str_shorter: "scan_str s = Some (t, r) \<Longrightarrow> length r < length s"
proof (induction s arbitrary: t r rule: scan_str.induct)
  case 1
  then show ?case by simp
next
  case (2 c cs)
  show ?case
  proof (cases "c = 92")
    case True
    with "2.prems" obtain e es where cs: "cs = e # es"
      by (cases cs) (simp_all add: scan_str.simps(2))
    show ?thesis
    proof (cases "e = 117")
      case e: True
      with True "2.prems" cs obtain x q t' where q: "scan_u es = Some (x, q)" "scan_str q = Some (t', r)"
        by (auto simp: scan_str.simps(2) split: option.splits)
      have "length r < length q"
        using "2.IH"(1)[OF _ True cs e q(1)] q True by simp
      with scan_u_shorter[OF q(1)] cs show ?thesis by simp
    next
      case e: False
      with True "2.prems" cs obtain x t' where q: "simple_esc e = Some x" "scan_str es = Some (t', r)"
        by (auto simp: scan_str.simps(2) split: option.splits)
      have "length r < length es"
        using "2.IH"(2)[OF _ True cs e q(1)] q True by simp
      with cs show ?thesis by simp
    qed
  next
    case False
    show ?thesis
    proof (cases "c = 34")
      case True
      with "2.prems" show ?thesis by (simp add: scan_str.simps(2))
    next
      case c: False
      with False "2.prems" obtain t' where "\<not> c < 32" "scan_str cs = Some (t', r)"
        by (auto simp: scan_str.simps(2) split: if_splits)
      with "2.IH"(3)[OF c False] show ?thesis by fastforce
    qed
  qed
qed

lemma num_parts_le:
  "length (snd (num_int s)) \<le> length s" "length (snd (num_frac s)) \<le> length s"
  "length (snd (num_exp s)) \<le> length s"
  by (simp_all add: num_int_def num_frac_def num_exp_def Let_def)

lemma scan_num_le: "scan_num s = Some (v, r) \<Longrightarrow> length r \<le> length s"
proof -
  assume a: "scan_num s = Some (v, r)"
  obtain t where "length t \<le> length s" "r = snd (num_exp (snd (num_frac (snd (num_int t)))))"
    using a by (intro that[of "if startswith s [45] then drop 1 s else s"])
      (auto simp: scan_num_def Let_def split: prod.splits if_splits)
  then show ?thesis using num_parts_le by (metis order.trans)
qed

lemma keyword_le: "keyword w v s = Some (x, r) \<Longrightarrow> length r \<le> length s"
  by (auto simp: keyword_def split: if_splits)

lemma scan_atom_le: "scan_atom s = Some (v, r) \<Longrightarrow> length r \<le> length s"
  unfolding scan_atom_def
  by (auto split: option.splits dest: keyword_le scan_num_le)

lemma rest_le:
  "(\<forall>s v r. pvalue n s = Some (v, r) \<longrightarrow> length r \<le> length s)
   \<and> (\<forall>s acc v r. pmembers n s acc = Some (v, r) \<longrightarrow> length r \<le> length s)
   \<and> (\<forall>s acc v r. pitems n s acc = Some (v, r) \<longrightarrow> length r \<le> length s)"
proof (induction n)
  case 0
  show ?case by simp
next
  case (Suc n)
  have V: "pvalue n s = Some (v, r) \<Longrightarrow> length r \<le> length s"
    and M: "pmembers n s acc = Some (v, r) \<Longrightarrow> length r \<le> length s"
    and I: "pitems n s js = Some (v, r) \<Longrightarrow> length r \<le> length s" for s acc js v r
    using Suc.IH by blast+
  have tl: "length (tl (skip_ws s)) \<le> length s" for s :: pystr
    using skip_ws_le[of s] by (simp add: le_diff_conv)
  have V': "length r \<le> length s" if "pvalue (Suc n) s = Some (v, r)" for s v r
    using that scan_str_shorter[of "tl s"] tl[of "tl s"] skip_ws_le[of "tl s"]
      M[of "skip_ws (tl s)" "[]" v r] I[of "skip_ws (tl s)" "[]" v r] scan_atom_le[of s v r]
    by (fastforce simp: pvalue.simps(2) Let_def split: if_splits)
  have M': "length r \<le> length s" if h: "pmembers (Suc n) s acc = Some (v, r)" for s acc v r
  proof -
    from h obtain k q w q2 where q: "scan_str (tl s) = Some (k, q)"
      "pvalue n (skip_ws (tl (skip_ws q))) = Some (w, q2)"
      "(r = tl (skip_ws q2)) \<or> pmembers n (skip_ws (tl (skip_ws q2))) (dput k w acc) = Some (v, r)"
      by (auto simp: pmembers.simps(2) Let_def split: if_splits option.splits prod.splits)
    have "length r \<le> length q2"
      using q(3) M[of "skip_ws (tl (skip_ws q2))"] tl[of q2] skip_ws_le[of "tl (skip_ws q2)"] by fastforce
    also have "\<dots> \<le> length q"
      using V[OF q(2)] tl[of q] skip_ws_le[of "tl (skip_ws q)"] by linarith
    also have "\<dots> \<le> length s"
      using scan_str_shorter[OF q(1)] by simp
    finally show ?thesis .
  qed
  have I': "length r \<le> length s" if h: "pitems (Suc n) s js = Some (v, r)" for s js v r
  proof -
    from h obtain w q2 where q: "pvalue n s = Some (w, q2)"
      "(r = tl (skip_ws q2)) \<or> pitems n (skip_ws (tl (skip_ws q2))) (js @ [w]) = Some (v, r)"
      by (auto simp: pitems.simps(2) Let_def split: if_splits option.splits prod.splits)
    have "length r \<le> length q2"
      using q(2) I[of "skip_ws (tl (skip_ws q2))"] tl[of q2] skip_ws_le[of "tl (skip_ws q2)"] by fastforce
    with V[OF q(1)] show ?thesis by simp
  qed
  show ?case using V' M' I' by blast
qed

lemma fuel_step:
  "(\<forall>s. 2 * length s < n \<longrightarrow> pvalue (Suc n) s = pvalue n s)
   \<and> (\<forall>s acc. 2 * length s < n \<longrightarrow> pmembers (Suc n) s acc = pmembers n s acc)
   \<and> (\<forall>s acc. 2 * length s + 1 < n \<longrightarrow> pitems (Suc n) s acc = pitems n s acc)"
proof (induction n)
  case 0
  show ?case by simp
next
  case (Suc n)
  have V: "2 * length s < n \<Longrightarrow> pvalue (Suc n) s = pvalue n s"
    and M: "2 * length s < n \<Longrightarrow> pmembers (Suc n) s acc = pmembers n s acc"
    and I: "2 * length s + 1 < n \<Longrightarrow> pitems (Suc n) s js = pitems n s js" for s acc js
    using Suc.IH by blast+
  have V': "pvalue (Suc (Suc n)) s = pvalue (Suc n) s" if h: "2 * length s < Suc n" for s
  proof -
    have lt: "startswith s [c] \<Longrightarrow> 2 * length (skip_ws (tl s)) + 1 < n" for c
      using skip_ws_tl_less[of s c] h by linarith
    have 1: "startswith s [123] \<Longrightarrow> pmembers (Suc n) (skip_ws (tl s)) [] = pmembers n (skip_ws (tl s)) []"
      by (rule M) (use lt[of 123] in simp)
    have 2: "startswith s [91] \<Longrightarrow> pitems (Suc n) (skip_ws (tl s)) [] = pitems n (skip_ws (tl s)) []"
      by (rule I) (use lt[of 91] in simp)
    show ?thesis
      using 1 2 by (simp add: pvalue.simps(2)[of "Suc n"] pvalue.simps(2)[of n] Let_def)
  qed
  have M': "pmembers (Suc (Suc n)) s acc = pmembers (Suc n) s acc" if h: "2 * length s < Suc n" for s acc
  proof -
    have 1: "2 * length (skip_ws (tl (skip_ws q))) < n"
      if "startswith s [34]" "scan_str (tl s) = Some (k, q)" for k q
    proof -
      have "length q < length s" using that scan_str_shorter[of "tl s"] by fastforce
      moreover have "length (skip_ws (tl (skip_ws q))) \<le> length q"
        using skip_ws_le[of "tl (skip_ws q)"] skip_ws_le[of q] by simp
      ultimately show ?thesis using h by linarith
    qed
    have 2: "2 * length (skip_ws (tl (skip_ws q2))) < n"
      if "startswith s [34]" "scan_str (tl s) = Some (k, q)"
        "pvalue n (skip_ws (tl (skip_ws q))) = Some (w, q2)" for k q w q2
    proof -
      have "length q2 \<le> length (skip_ws (tl (skip_ws q)))" using rest_le that(3) by blast
      moreover have "length (skip_ws (tl (skip_ws q2))) \<le> length q2"
        using skip_ws_le[of "tl (skip_ws q2)"] skip_ws_le[of q2] by simp
      ultimately show ?thesis using 1[OF that(1,2)] by linarith
    qed
    show ?thesis
    proof (cases "startswith s [34]")
      case s: True
      show ?thesis
      proof (cases "scan_str (tl s)")
        case (Some kq)
        obtain k q where kq: "scan_str (tl s) = Some (k, q)" using Some by (cases kq) auto
        have v: "pvalue (Suc n) (skip_ws (tl (skip_ws q))) = pvalue n (skip_ws (tl (skip_ws q)))"
          by (rule V) (rule 1[OF s kq])
        have m: "pmembers (Suc n) (skip_ws (tl (skip_ws q2))) a = pmembers n (skip_ws (tl (skip_ws q2))) a"
          if "pvalue n (skip_ws (tl (skip_ws q))) = Some (w, q2)" for w q2 a
          by (rule M) (rule 2[OF s kq that])
        show ?thesis
          unfolding pmembers.simps(2)[of "Suc n" s acc] pmembers.simps(2)[of n s acc] Let_def kq option.case prod.case v
          by (cases "pvalue n (skip_ws (tl (skip_ws q)))") (auto simp: m simp del: pmembers.simps pvalue.simps split: prod.split)
      qed (simp add: pmembers.simps(2))
    qed (simp add: pmembers.simps(2))
  qed
  have I': "pitems (Suc (Suc n)) s js = pitems (Suc n) s js" if h: "2 * length s + 1 < Suc n" for s js
  proof -
    have 1: "pvalue (Suc n) s = pvalue n s" using V h by simp
    have 2: "2 * length (skip_ws (tl (skip_ws q))) + 1 < n"
      if "pvalue n s = Some (w, q)" "startswith (skip_ws q) [44]" for w q
    proof -
      have "length q \<le> length s" using rest_le that(1) by blast
      moreover have "length (skip_ws (tl (skip_ws q))) < length (skip_ws q)"
        using skip_ws_tl_less[OF that(2)] .
      moreover have "length (skip_ws q) \<le> length q" by (rule skip_ws_le)
      ultimately show ?thesis using h by linarith
    qed
    show ?thesis
      unfolding pitems.simps(2)[of "Suc n" s js] pitems.simps(2)[of n s js] Let_def 1
      using 2 I by (auto simp del: pitems.simps pvalue.simps split: option.splits)
  qed
  show ?case using V' M' I' by blast
qed

theorem json_fuel_enough: "2 * length s < n \<Longrightarrow> pvalue (n + k) s = pvalue n s"
proof (induction k)
  case (Suc k)
  then show ?case using fuel_step[of "n + k"] by simp
qed simp

section \<open>The round trip\<close>

lemma hex_val_digit: "0 \<le> d \<Longrightarrow> d < 16 \<Longrightarrow> hex_val (hex_digit d) = Some d"
  by (auto simp: hex_val_def hex_digit_def)

definition code_points :: "pystr \<Rightarrow> bool" where
  "code_points s \<longleftrightarrow> list_all (\<lambda>c. 0 \<le> c) s"

lemma code_points_u [simp]: "code_points (u s)"
proof -
  have "0 \<le> (of_char c :: int)" for c :: char
    by (metis of_nat_of_char of_nat_0_le_iff)
  then show ?thesis by (simp add: code_points_def u_def list_all_iff)
qed

lemma scan_str_esc:
  assumes "0 \<le> c"
  shows "scan_str (esc_chr c @ s) = map_option (\<lambda>(t, q). (c # t, q)) (scan_str s)"
proof (cases "c < 32 \<and> c \<noteq> 8 \<and> c \<noteq> 9 \<and> c \<noteq> 10 \<and> c \<noteq> 12 \<and> c \<noteq> 13")
  case True
  then have e: "esc_chr c = [92, 117, 48, 48, hex_digit (c div 16), hex_digit (c mod 16)]"
    by (auto simp: esc_chr_def)
  have "hex_val (hex_digit (c div 16)) = Some (c div 16)" "hex_val (hex_digit (c mod 16)) = Some (c mod 16)"
    using True assms by (intro hex_val_digit; linarith?; simp)+
  moreover have "hex_val 48 = Some 0" by (simp add: hex_val_def)
  ultimately have "scan_u (48 # 48 # hex_digit (c div 16) # hex_digit (c mod 16) # s) = Some (c, s)"
    using True by (simp add: scan_u_def)
  then show ?thesis unfolding e by (simp add: scan_str.simps(2))
next
  case False
  then show ?thesis
    by (auto simp: esc_chr_def scan_str.simps(2) simple_esc_def)
qed

lemma scan_json_str: "code_points t \<Longrightarrow> scan_str (tl (json_str t) @ s) = Some (t, s)"
proof (induction t)
  case Nil
  then show ?case by (simp add: json_str_def scan_str.simps(2))
next
  case (Cons c t)
  then show ?case
    using scan_str_esc[of c "concat (map esc_chr t) @ 34 # s"]
    by (simp add: json_str_def code_points_def)
qed

lemma json_str_Cons: "json_str t = 34 # tl (json_str t)"
  by (simp add: json_str_def)

lemma skip_ws_no: "\<not> (c = 32 \<or> c = 9 \<or> c = 10 \<or> c = 13) \<Longrightarrow> skip_ws (c # s) = c # s"
  by (simp add: skip_ws_def)

lemma pvalue_json_str:
  "code_points t \<Longrightarrow> pvalue (Suc n) (json_str t @ s) = Some (JStr t, s)"
  by (subst json_str_Cons) (simp add: pvalue.simps(2) scan_json_str)

definition str_members :: "(pystr \<times> pystr) list \<Rightarrow> (pystr, json) pydict" where
  "str_members kvs = map (\<lambda>(k, v). (k, JStr v)) kvs"

lemma dput_fresh: "k \<notin> fst ` set d \<Longrightarrow> dput k v d = d @ [(k, v)]"
  by (induction k v d rule: dput.induct) auto

lemma pmembers_member:
  assumes "code_points k" "code_points v"
  shows "pmembers (Suc (Suc n)) (member_str (k, v) @ s) acc =
     (let r3 = skip_ws s; acc' = dput k (JStr v) acc
      in if startswith r3 [125] then Some (JObj acc', tl r3)
         else if startswith r3 [44] then pmembers (Suc n) (skip_ws (tl r3)) acc' else None)"
proof -
  have e: "member_str (k, v) @ s = 34 # (tl (json_str k) @ 58 # json_str v @ s)"
    using json_str_Cons[of k] by (simp add: member_str_def)
  have v: "skip_ws (json_str v @ s) = json_str v @ s"
    by (subst (1 2) json_str_Cons) (simp add: skip_ws_no)
  show ?thesis
    unfolding e
    by (simp add: pmembers.simps(2) scan_json_str[OF assms(1)] skip_ws_no v
        pvalue_json_str[OF assms(2)])
qed

lemma skip_ws_member: "skip_ws (member_str kv @ s) = member_str kv @ s"
  unfolding member_str_def by (subst (1 2) json_str_Cons) (simp add: skip_ws_no)

lemma pmembers_strs:
  assumes "kvs \<noteq> []" "distinct (map fst kvs)"
    "list_all (\<lambda>(k, v). code_points k \<and> code_points v) kvs"
    "fst ` set acc \<inter> fst ` set kvs = {}" "length kvs < n"
  shows "pmembers n (py_join [44] (map member_str kvs) @ 125 # s) acc
     = Some (JObj (acc @ str_members kvs), s)"
  using assms
proof (induction kvs arbitrary: n acc)
  case Nil
  then show ?case by simp
next
  case (Cons kv kvs)
  obtain k v where kv: "kv = (k, v)" by force
  from Cons.prems have kn: "k \<notin> fst ` set acc" by (auto simp: kv)
  from Cons.prems obtain m where n: "n = Suc (Suc m)"
    by (metis Suc_lessE length_Cons less_nat_zero_code not0_implies_Suc)
  have cp: "code_points k" "code_points v" using Cons.prems by (auto simp: kv)
  show ?case
  proof (cases kvs)
    case Nil
    then show ?thesis
      using pmembers_member[OF cp, of m "125 # s" acc] kn
      by (simp add: n kv skip_ws_no dput_fresh str_members_def)
  next
    case (Cons y ys)
    have IH: "pmembers (Suc m) (py_join [44] (map member_str kvs) @ 125 # s) (acc @ [(k, JStr v)])
        = Some (JObj ((acc @ [(k, JStr v)]) @ str_members kvs), s)"
      using Cons.prems by (intro Cons.IH) (auto simp: kv n Cons)
    have ws: "skip_ws (py_join [44] (map member_str kvs) @ 125 # s) = py_join [44] (map member_str kvs) @ 125 # s"
      unfolding Cons by (cases ys) (simp_all add: skip_ws_member)
    show ?thesis
      using pmembers_member[OF cp, of m "44 # py_join [44] (map member_str kvs) @ 125 # s" acc] IH kn ws
      by (simp add: n kv Cons skip_ws_no dput_fresh str_members_def)
  qed
qed

lemma length_py_join: "length xs \<le> Suc (length (py_join [44] xs))"
  by (induction "[44 :: int]" xs rule: py_join.induct) auto

theorem loads_dumps_strs:
  assumes "kvs \<noteq> []" "distinct (map fst kvs)"
    "list_all (\<lambda>(k, v). code_points k \<and> code_points v) kvs"
  shows "json_loads (dumps_strs kvs) = Some (JObj (str_members kvs))"
proof -
  define body where "body = py_join [44] (map member_str kvs) @ [125]"
  obtain kv rest where kvs: "kvs = kv # rest" using assms(1) by (cases kvs) auto
  have ws: "skip_ws body = body"
    unfolding body_def kvs by (cases rest) (simp_all add: skip_ws_member)
  have "length kvs < 2 * length (123 # body)"
    unfolding body_def using length_py_join[of "map member_str kvs"] by simp
  then have "pmembers (2 * length (123 # body)) body [] = Some (JObj (str_members kvs), [])"
    unfolding body_def using pmembers_strs[OF assms, of "[]" _ "[]"] by simp
  moreover have "\<not> startswith body [125]"
  proof -
    have "\<exists>t. body = 34 # t"
      unfolding body_def kvs member_str_def
      by (cases rest; cases kv) (simp_all add: json_str_def)
    then show ?thesis by auto
  qed
  ultimately show ?thesis
    unfolding json_loads_def dumps_strs_def body_def[symmetric]
    by (simp add: skip_ws_no pvalue.simps(2) ws) (simp add: skip_ws_def)
qed

end
