(* ===== verification/Engine.thy ===== *)
theory Engine
  imports Guard Json Py_Path
begin

text \<open>
  The permission engine, \<^verbatim>\<open>src/src/jarn/permissions/engine.py\<close>: modes, rules, the danger guard,
  the secret-store floor and remembered approvals combined into one decision per action.
  Every method of \<^verbatim>\<open>PermissionEngine\<close> is a definition here; \<open>U\<close> is the Unicode tables,
  \<open>H\<close> the host file system, \<open>E\<close> the engine's state. A set of aliases, which the code only
  searches, is a list.
\<close>

section \<open>Data\<close>

datatype PermissionMode = PLAN | MODE_ASK | AUTO_EDIT | YOLO

fun mode_rank :: "PermissionMode \<Rightarrow> nat" where
  "mode_rank PLAN = 0"
| "mode_rank MODE_ASK = 1"
| "mode_rank AUTO_EDIT = 2"
| "mode_rank YOLO = 3"

fun mode_value :: "PermissionMode \<Rightarrow> pystr" where
  "mode_value PLAN = u ''plan''"
| "mode_value MODE_ASK = u ''ask''"
| "mode_value AUTO_EDIT = u ''auto-edit''"
| "mode_value YOLO = u ''yolo''"

datatype ActionKind = READ | WRITE | SHELL | NETWORK

fun kind_value :: "ActionKind \<Rightarrow> pystr" where
  "kind_value READ = u ''read''"
| "kind_value WRITE = u ''write''"
| "kind_value SHELL = u ''shell''"
| "kind_value NETWORK = u ''network''"

datatype Decision = ALLOW | ASK | DENY

datatype RememberScope = ONCE | SESSION | ALWAYS

record Action =
  kind :: ActionKind
  target :: pystr
  tool :: "pystr option"
  read_targets :: "pystr list"

record PermissionResult =
  decision :: Decision
  reason :: pystr
  dangerous :: bool
  block_remember_always :: bool

record PermissionRules =
  allow :: "pystr list"
  deny :: "pystr list"
  sensitive_read_globs :: "pystr list"
  network :: NetworkPolicy

text \<open>\<open>has_persist\<close> says whether a sink for \<^verbatim>\<open>ALWAYS\<close> rules is wired (\<^verbatim>\<open>persist is not None\<close>);
  the sink itself is modelled with the rule store.\<close>

record PermissionEngine =
  mode :: PermissionMode
  rules :: PermissionRules
  project_root :: "ppath option"
  roots :: "ppath list"
  virtual_reads :: bool
  has_persist :: bool
  session_allow :: "pystr list"
  session_deny :: "pystr list"

definition presult :: "Decision \<Rightarrow> pystr \<Rightarrow> PermissionResult" where
  "presult d r = \<lparr>decision = d, reason = r, dangerous = False, block_remember_always = False\<rparr>"

definition hard_result :: "Decision \<Rightarrow> pystr \<Rightarrow> PermissionResult" where
  "hard_result d r = \<lparr>decision = d, reason = r, dangerous = True, block_remember_always = True\<rparr>"

definition SECRET_STORE_DENIAL :: PermissionResult where
  "SECRET_STORE_DENIAL = hard_result DENY (u ''jarn's own secret store is never accessible to the agent'')"

definition READONLY_NETWORK_TOOLS :: "pystr list" where
  "READONLY_NETWORK_TOOLS = [u ''web_search'', u ''web_fetch'', u ''check_async_task'', u ''list_async_tasks'']"

definition WRAPPER_PROGRAMS :: "pystr list" where
  "WRAPPER_PROGRAMS = map u [''bash'', ''sh'', ''zsh'', ''dash'', ''fish'', ''ksh'',
     ''python'', ''python2'', ''python3'', ''node'', ''ruby'', ''perl'', ''php'',
     ''env'', ''xargs'', ''nohup'', ''timeout'', ''watch'', ''eval'', ''exec'']"

definition SCOPED_RULE_PREFIX :: pystr where
  "SCOPED_RULE_PREFIX = u ''jarn-scope:v1:''"

definition SECRET_STORE_GLOBS :: "pystr list" where
  "SECRET_STORE_GLOBS = [u ''**/.jarn/secrets'', u ''**/.jarn/secrets/**'']"

definition DEFAULT_SENSITIVE_READ_GLOBS :: "pystr list" where
  "DEFAULT_SENSITIVE_READ_GLOBS = map u [''.env'', ''.env.*'', ''**/.env'', ''**/.env.*'',
     ''**/.ssh/**'', ''**/.aws/credentials'', ''**/.git/config'', ''*_rsa'', ''*.pem'',
     ''**/id_*'', ''**/*.key'']"

definition is_glob :: "pystr \<Rightarrow> bool" where
  "is_glob s \<longleftrightarrow> list_ex (\<lambda>c. c = 42 \<or> c = 63 \<or> c = 91) s"

definition path_within :: "pyuni \<Rightarrow> ppath \<Rightarrow> ppath \<Rightarrow> bool" where
  "path_within U candidate directory \<longleftrightarrow>
     under candidate directory
     \<or> (length (parts directory) \<le> length (parts candidate)
        \<and> list_all (\<lambda>(a, b). casefold U a = casefold U b) (zip (parts candidate) (parts directory)))"

definition truthy_tool :: "pystr option \<Rightarrow> pystr" where
  "truthy_tool t = (case t of None \<Rightarrow> [] | Some s \<Rightarrow> s)"

section \<open>Scope\<close>

definition scope_roots :: "PermissionEngine \<Rightarrow> ppath list" where
  "scope_roots E = (case project_root E of None \<Rightarrow> [] | Some r \<Rightarrow> [r]) @ roots E"

text \<open>\<^verbatim>\<open>resolved == r or r in resolved.parents\<close> for a root that resolves.\<close>

definition under_root :: "host \<Rightarrow> ppath \<Rightarrow> ppath \<Rightarrow> bool" where
  "under_root H resolved root =
     (case h_resolve H root of None \<Rightarrow> False | Some r \<Rightarrow> under resolved r)"

text \<open>\<^verbatim>\<open>(primary / path).expanduser().resolve()\<close>, the shared anchoring of \<^verbatim>\<open>_in_scope\<close> and
  \<^verbatim>\<open>_resolved_read_path\<close>.\<close>

definition anchored :: "host \<Rightarrow> ppath \<Rightarrow> pystr \<Rightarrow> ppath option" where
  "anchored H root path =
     (case h_resolve H root of None \<Rightarrow> None
      | Some primary \<Rightarrow>
         (case expanduser H (path_join primary (parse_path path)) of None \<Rightarrow> None
          | Some p \<Rightarrow> h_resolve H p))"

definition in_scope :: "host \<Rightarrow> PermissionEngine \<Rightarrow> pystr \<Rightarrow> bool" where
  "in_scope H E t =
     (case scope_roots E of [] \<Rightarrow> True
      | root # rest \<Rightarrow>
         (case anchored H root t of None \<Rightarrow> False
          | Some resolved \<Rightarrow> list_ex (under_root H resolved) (root # rest)))"

definition workspace_scope :: "host \<Rightarrow> PermissionEngine \<Rightarrow> pystr" where
  "workspace_scope H E =
     (case scope_roots E of [] \<Rightarrow> []
      | root # _ \<Rightarrow> (case h_resolve H root of Some r \<Rightarrow> as_posix r
                     | None \<Rightarrow> as_posix (path_join (h_cwd H) root)))"

definition resolved_read_path :: "host \<Rightarrow> PermissionEngine \<Rightarrow> pystr \<Rightarrow> ppath option" where
  "resolved_read_path H E path =
     (case scope_roots E of [] \<Rightarrow> None | root # _ \<Rightarrow> anchored H root path)"

fun project_relative_in :: "host \<Rightarrow> ppath list \<Rightarrow> ppath \<Rightarrow> pystr option" where
  "project_relative_in H [] resolved = None"
| "project_relative_in H (root # rs) resolved =
     (case h_resolve H root of None \<Rightarrow> project_relative_in H rs resolved
      | Some r \<Rightarrow> if under resolved r then
           (case relative_to resolved r of Some p \<Rightarrow> Some (as_posix p)
            | None \<Rightarrow> project_relative_in H rs resolved)
         else project_relative_in H rs resolved)"

definition project_relative :: "host \<Rightarrow> PermissionEngine \<Rightarrow> ppath \<Rightarrow> pystr option" where
  "project_relative H E resolved = project_relative_in H (scope_roots E) resolved"

section \<open>Read paths\<close>

definition canonical_read_target :: "host \<Rightarrow> PermissionEngine \<Rightarrow> pystr \<Rightarrow> pystr" where
  "canonical_read_target H E t =
     (case project_root E of None \<Rightarrow> t
      | Some pr \<Rightarrow>
         if \<not> virtual_reads E \<or> t = [] then t
         else if \<not> startswith t [47] then t
         else if is_glob t then lstrip_with (\<lambda>c. c = 47) t
         else (let resolved = (case h_resolve H (parse_path t) of Some p \<Rightarrow> p | None \<Rightarrow> parse_path t)
               in if list_ex (under_root H resolved) (roots E) then t
                  else as_posix (path_join pr (parse_path (lstrip_with (\<lambda>c. c = 47) t)))))"

definition canonicalized_action :: "host \<Rightarrow> PermissionEngine \<Rightarrow> Action \<Rightarrow> Action" where
  "canonicalized_action H E a =
     (if kind a \<noteq> READ \<or> \<not> virtual_reads E then a
      else a\<lparr>target := canonical_read_target H E (target a),
             read_targets := map (canonical_read_target H E) (read_targets a)\<rparr>)"

fun keep_new :: "pystr list \<Rightarrow> pystr list \<Rightarrow> pystr list" where
  "keep_new out [] = out"
| "keep_new out (c # cs) = keep_new (if c \<noteq> [] \<and> c \<notin> set out then out @ [c] else out) cs"

definition read_candidates :: "Action \<Rightarrow> pystr list" where
  "read_candidates a = keep_new [] (target a # read_targets a)"

definition read_alias_set :: "host \<Rightarrow> PermissionEngine \<Rightarrow> pystr \<Rightarrow> pystr list \<times> ppath option" where
  "read_alias_set H E path =
     (let norm = replace_chr 92 47 path;
          aliases = [norm, if startswith norm [47] then norm else 47 # norm]
      in if is_glob path then (aliases, None)
         else (case resolved_read_path H E path of None \<Rightarrow> (aliases, None)
           | Some identity \<Rightarrow>
              (aliases @ [as_posix identity]
                 @ (case project_relative H E identity of None \<Rightarrow> [] | Some rel \<Rightarrow> [rel]),
               Some identity)))"

text \<open>The loop of \<^verbatim>\<open>_expand_read_patterns\<close>, with \<^verbatim>\<open>out\<close> and \<^verbatim>\<open>seen\<close> (the same elements).\<close>

fun expand_loop :: "pystr list \<Rightarrow> pystr list \<Rightarrow> pystr list" where
  "expand_loop out [] = out"
| "expand_loop out (p # ps) =
     (if p = [] then expand_loop out ps
      else (let norm = as_posix (parse_path p)
            in if norm \<noteq> [] \<and> norm \<noteq> [46] \<and> norm \<notin> set out then expand_loop (out @ [norm]) ps
               else expand_loop out ps))"

definition expand_read_patterns :: "PermissionEngine \<Rightarrow> pystr list \<Rightarrow> pystr list" where
  "expand_read_patterns E patterns =
     (if scope_roots E = [] then patterns else expand_loop patterns patterns)"

definition read_candidate_matches :: "host \<Rightarrow> PermissionEngine \<Rightarrow> pystr \<Rightarrow> pystr list \<Rightarrow> bool" where
  "read_candidate_matches H E cand patterns =
     (let (aliases, identity) = read_alias_set H E cand
      in list_ex (\<lambda>pattern.
           list_ex (\<lambda>alias. alias = pattern \<or> fnmatch alias pattern) aliases
           \<or> (identity \<noteq> None \<and> \<not> is_glob pattern
              \<and> resolved_read_path H E pattern = identity)) (expand_read_patterns E patterns))"

definition is_sensitive_read_canonical :: "host \<Rightarrow> PermissionEngine \<Rightarrow> pystr \<Rightarrow> bool" where
  "is_sensitive_read_canonical H E path =
     (let globs = sensitive_read_globs (rules E)
      in if globs = [] \<or> path = [] then False
         else list_ex (\<lambda>pattern. list_ex (\<lambda>alias. fnmatch alias pattern) (fst (read_alias_set H E path)))
                (expand_read_patterns E globs))"

definition is_sensitive_read_path :: "host \<Rightarrow> PermissionEngine \<Rightarrow> pystr \<Rightarrow> bool" where
  "is_sensitive_read_path H E path = is_sensitive_read_canonical H E (canonical_read_target H E path)"

definition is_sensitive_read :: "host \<Rightarrow> PermissionEngine \<Rightarrow> Action \<Rightarrow> bool" where
  "is_sensitive_read H E a = list_ex (is_sensitive_read_canonical H E) (read_candidates a)"

section \<open>The secret store\<close>

definition resolve_absolute :: "host \<Rightarrow> PermissionEngine \<Rightarrow> pystr \<Rightarrow> ppath option" where
  "resolve_absolute H E path =
     (if is_glob path then None
      else (case expanduser H (parse_path path) of None \<Rightarrow> None
        | Some candidate \<Rightarrow>
           if is_absolute candidate then h_resolve H candidate
           else (case scope_roots E of [] \<Rightarrow> h_resolve H candidate
             | root # _ \<Rightarrow> (case h_resolve H root of None \<Rightarrow> None
                  | Some primary \<Rightarrow> h_resolve H (path_join primary candidate)))))"

definition is_secret_store_path :: "pyuni \<Rightarrow> host \<Rightarrow> PermissionEngine \<Rightarrow> pystr \<Rightarrow> bool" where
  "is_secret_store_path U H E path =
     (if path = [] then False
      else (let resolved = resolve_absolute H E path
            in if (case resolved of None \<Rightarrow> False
                   | Some p \<Rightarrow> list_ex (path_within U p) (secret_store_dirs H)) then True
               else (let aliases = fst (read_alias_set H E path)
                         @ (case resolved of None \<Rightarrow> [] | Some p \<Rightarrow> [as_posix p])
                     in list_ex (\<lambda>pattern. list_ex (\<lambda>alias. fnmatch (casefold U alias) pattern) aliases)
                          SECRET_STORE_GLOBS)))"

definition touches_secret_store :: "pyuni \<Rightarrow> host \<Rightarrow> PermissionEngine \<Rightarrow> Action \<Rightarrow> bool" where
  "touches_secret_store U H E a =
     (case kind a of
        READ \<Rightarrow> list_ex (is_secret_store_path U H E) (read_candidates a)
      | WRITE \<Rightarrow> if is_secret_store_path U H E (target a) then True
                 else if virtual_reads E
                 then is_secret_store_path U H E (canonical_read_target H E (target a)) else False
      | _ \<Rightarrow> False)"

section \<open>Rules\<close>

definition rule_for :: "host \<Rightarrow> PermissionEngine \<Rightarrow> Action \<Rightarrow> pystr" where
  "rule_for H E a =
     (case kind a of
        READ \<Rightarrow> canonical_read_target H E (target a)
      | SHELL \<Rightarrow>
          (let ps = split_ws (target a)
           in if length ps < 2 then target a
              else (let prog = after_last 47 (ps ! 0); first_arg = ps ! 1
                    in if prog \<in> set WRAPPER_PROGRAMS \<or> startswith first_arg [45] then target a
                       else if prog = u ''npm'' \<and> 3 \<le> length ps \<and> ps ! 1 = u ''run'' then target a
                       else ps ! 0 @ [32] @ first_arg))
      | _ \<Rightarrow> target a)"

definition scoped_rule_for :: "host \<Rightarrow> PermissionEngine \<Rightarrow> Action \<Rightarrow> pystr \<Rightarrow> pystr" where
  "scoped_rule_for H E a rule =
     SCOPED_RULE_PREFIX @ dumps_strs
       [(u ''kind'', kind_value (kind a)), (u ''rule'', rule),
        (u ''tool'', truthy_tool (tool a)), (u ''workspace'', workspace_scope H E)]"

text \<open>One scoped rule, unwrapped when its whole authority matches the action.\<close>

definition unwrap_scoped :: "pystr \<Rightarrow> pystr \<Rightarrow> pystr \<Rightarrow> pystr \<Rightarrow> pystr option" where
  "unwrap_scoped knd tl_name workspace body =
     (case json_loads body of
        Some (JObj payload) \<Rightarrow>
          if set (dkeys payload) \<noteq> {u ''kind'', u ''rule'', u ''tool'', u ''workspace''} then None
          else if dget payload (u ''kind'') \<noteq> Some (JStr knd) then None
          else if dget payload (u ''tool'') \<noteq> Some (JStr tl_name)
                  \<or> dget payload (u ''workspace'') \<noteq> Some (JStr workspace) then None
          else (case dget payload (u ''rule'') of
                  Some (JStr rule) \<Rightarrow> if rule \<noteq> [] then Some rule else None
                | _ \<Rightarrow> None)
      | _ \<Rightarrow> None)"

fun applicable_loop :: "pystr \<Rightarrow> pystr \<Rightarrow> pystr \<Rightarrow> pystr list \<Rightarrow> pystr list" where
  "applicable_loop knd tl_name ws [] = []"
| "applicable_loop knd tl_name ws (raw # raws) =
     (if \<not> startswith raw SCOPED_RULE_PREFIX then raw # applicable_loop knd tl_name ws raws
      else (case unwrap_scoped knd tl_name ws (drop (length SCOPED_RULE_PREFIX) raw) of
              Some rule \<Rightarrow> rule # applicable_loop knd tl_name ws raws
            | None \<Rightarrow> applicable_loop knd tl_name ws raws))"

definition applicable_patterns :: "host \<Rightarrow> PermissionEngine \<Rightarrow> Action \<Rightarrow> pystr list \<Rightarrow> pystr list" where
  "applicable_patterns H E a patterns =
     applicable_loop (kind_value (kind a)) (truthy_tool (tool a)) (workspace_scope H E) patterns"

definition matches :: "host \<Rightarrow> PermissionEngine \<Rightarrow> Action \<Rightarrow> pystr list \<Rightarrow> bool" where
  "matches H E a patterns =
     (let applicable = applicable_patterns H E a patterns
      in if kind a = READ then list_ex (\<lambda>c. read_candidate_matches H E c applicable) (read_candidates a)
         else list_ex (\<lambda>pattern. list_ex (\<lambda>cand. cand = pattern \<or> fnmatch cand pattern)
                [target a, rule_for H E a]) applicable)"

definition all_allow :: "PermissionEngine \<Rightarrow> pystr list" where
  "all_allow E = allow (rules E) @ session_allow E"

definition all_deny :: "PermissionEngine \<Rightarrow> pystr list" where
  "all_deny E = deny (rules E) @ session_deny E"

section \<open>Decisions\<close>

definition guard_for :: "pyuni \<Rightarrow> host \<Rightarrow> PermissionEngine \<Rightarrow> Action \<Rightarrow> exn + GuardVerdict" where
  "guard_for U H E a =
     (case kind a of
        SHELL \<Rightarrow> inspect_command U (target a) (Some (network (rules E)))
      | WRITE \<Rightarrow> Inr (inspect_path_write (target a) (in_scope H E (target a)))
      | _ \<Rightarrow> Inr (verdict SAFE []))"

definition mode_decision :: "host \<Rightarrow> PermissionEngine \<Rightarrow> Action \<Rightarrow> PermissionResult" where
  "mode_decision H E a =
     (let confirm = presult ASK (mode_value (mode E) @ u '' mode requires confirmation'')
      in case mode E of
           PLAN \<Rightarrow> presult DENY (u ''plan mode is read-only'')
         | YOLO \<Rightarrow> presult ALLOW (u ''yolo mode'')
         | AUTO_EDIT \<Rightarrow>
             if kind a = WRITE then
               (if in_scope H E (target a) then presult ALLOW (u ''auto-edit: in-scope write'')
                else presult ASK (u ''auto-edit: write is out of scope''))
             else if kind a = NETWORK \<and> tool a \<in> Some ` set READONLY_NETWORK_TOOLS
             then presult ALLOW (u ''auto-edit: read-only network'')
             else confirm
         | MODE_ASK \<Rightarrow> confirm)"

definition read_decision :: "host \<Rightarrow> PermissionEngine \<Rightarrow> Action \<Rightarrow> PermissionResult" where
  "read_decision H E a =
     (let allowed = applicable_patterns H E a (all_allow E)
      in if list_ex (\<lambda>cand. is_sensitive_read_canonical H E cand
             \<and> \<not> read_candidate_matches H E cand allowed) (read_candidates a)
         then presult ASK (u ''sensitive-path read requires confirmation'')
         else presult ALLOW (u ''reads are always permitted''))"

definition evaluate :: "pyuni \<Rightarrow> host \<Rightarrow> PermissionEngine \<Rightarrow> Action \<Rightarrow> exn + PermissionResult" where
  "evaluate U H E action =
     (let a = canonicalized_action H E action
      in case guard_for U H E a of
           Inl e \<Rightarrow> Inl e
         | Inr guard \<Rightarrow> Inr (
             if level guard = BLOCKED
             then hard_result DENY (u ''blocked by danger-guard: '' @ greason guard)
             else if touches_secret_store U H E a then SECRET_STORE_DENIAL
             else if matches H E a (all_deny E) then presult DENY (u ''matched a deny rule'')
             else if level guard = DANGEROUS
             then hard_result ASK (u ''danger-guard: '' @ greason guard)
             else if kind a = READ then read_decision H E a
             else if matches H E a (all_allow E) then presult ALLOW (u ''matched an allow rule'')
             else mode_decision H E a))"

section \<open>Remembered approvals\<close>

definition add_once :: "pystr \<Rightarrow> pystr list \<Rightarrow> pystr list" where
  "add_once r rs = (if r \<in> set rs then rs else rs @ [r])"

text \<open>\<^verbatim>\<open>remember\<close>: the new state, the returned rule, and the argument of the call of
  \<^verbatim>\<open>self.persist\<close> when one is made (its \<^verbatim>\<open>ConfigCorruptError\<close> and \<^verbatim>\<open>OSError\<close> are caught, so it
  does not change the rest).\<close>

definition remember :: "host \<Rightarrow> PermissionEngine \<Rightarrow> Action \<Rightarrow> RememberScope
    \<Rightarrow> PermissionEngine \<times> pystr option \<times> pystr option" where
  "remember H E a scope =
     (let rule = rule_for H E a
      in if scope = ONCE then (E, None, None)
         else (let scoped_rule = scoped_rule_for H E a rule;
                   E' = E\<lparr>session_allow := add_once scoped_rule (session_allow E)\<rparr>
               in if scope = ALWAYS
                  then (E', Some rule, if has_persist E then Some scoped_rule else None)
                  else (E', None, None)))"

definition deny_session_op :: "host \<Rightarrow> PermissionEngine \<Rightarrow> Action \<Rightarrow> PermissionEngine" where
  "deny_session_op H E a =
     E\<lparr>session_deny := add_once (scoped_rule_for H E a (rule_for H E a)) (session_deny E)\<rparr>"

definition remember_scope_summary :: "pyuni \<Rightarrow> host \<Rightarrow> PermissionEngine \<Rightarrow> Action \<Rightarrow> pystr" where
  "remember_scope_summary U H E a =
     (let ws = workspace_scope H E;
          workspace = (if ws = [] then u ''no project workspace'' else ws);
          tl_name = (if truthy_tool (tool a) = [] then u ''direct action'' else truthy_tool (tool a));
          noun = (if kind a = SHELL then u ''command prefix'' else u ''target'')
      in u ''capability '' @ kind_value (kind a) @ u '' via '' @ tl_name @ u ''; '' @ noun @ u '' ''
         @ repr_str U (rule_for H E a) @ u ''; workspace '' @ workspace)"

section \<open>Filtering of read results\<close>

definition read_action :: "pystr \<Rightarrow> Action" where
  "read_action path = \<lparr>kind = READ, target = path, tool = None, read_targets = []\<rparr>"

definition is_read_denied_path :: "pyuni \<Rightarrow> host \<Rightarrow> PermissionEngine \<Rightarrow> pystr \<Rightarrow> bool" where
  "is_read_denied_path U H E path =
     (let act = canonicalized_action H E (read_action path)
      in touches_secret_store U H E act \<or> matches H E act (all_deny E))"

definition read_content_blocked :: "pyuni \<Rightarrow> host \<Rightarrow> PermissionEngine \<Rightarrow> pystr \<Rightarrow> bool" where
  "read_content_blocked U H E path =
     (let act = canonicalized_action H E (read_action path)
      in if touches_secret_store U H E act then True
         else if matches H E act (all_deny E) then True
         else if matches H E act (all_allow E) then False
         else is_sensitive_read H E act)"


section \<open>Decisions ordered by permissiveness\<close>

fun permissiveness :: "Decision \<Rightarrow> nat" where
  "permissiveness DENY = 0"
| "permissiveness ASK = 1"
| "permissiveness ALLOW = 2"

lemma permissiveness_inj [simp]: "permissiveness d = permissiveness e \<longleftrightarrow> d = e"
  by (cases d; cases e) simp_all

instantiation Decision :: linorder
begin

definition less_eq_Decision :: "Decision \<Rightarrow> Decision \<Rightarrow> bool" where
  "d \<le> e \<longleftrightarrow> permissiveness d \<le> permissiveness e"

definition less_Decision :: "Decision \<Rightarrow> Decision \<Rightarrow> bool" where
  "d < e \<longleftrightarrow> permissiveness d < permissiveness e"

instance
  by standard (auto simp: less_eq_Decision_def less_Decision_def)

end

lemma DENY_least [simp]: "DENY \<le> d"
  by (simp add: less_eq_Decision_def)

lemma ALLOW_greatest [simp]: "d \<le> ALLOW"
  by (cases d) (simp_all add: less_eq_Decision_def)

lemma decision_le_iff [simp]:
  "d \<le> DENY \<longleftrightarrow> d = DENY" "ALLOW \<le> d \<longleftrightarrow> d = ALLOW" "ASK \<le> d \<longleftrightarrow> d \<noteq> DENY" "d \<le> ASK \<longleftrightarrow> d \<noteq> ALLOW"
  by (cases d; simp add: less_eq_Decision_def)+

text \<open>An evaluation compared: the same exception, or a decision at most as permissive.\<close>

definition result_le :: "exn + PermissionResult \<Rightarrow> exn + PermissionResult \<Rightarrow> bool" where
  "result_le x y = rel_sum (=) (\<lambda>r s. decision r \<le> decision s) x y"

lemma presult_simps [simp]:
  "decision (presult d r) = d" "dangerous (presult d r) = False"
  "block_remember_always (presult d r) = False" "reason (presult d r) = r"
  "decision (hard_result d r) = d" "dangerous (hard_result d r) = True"
  "block_remember_always (hard_result d r) = True" "reason (hard_result d r) = r"
  "decision SECRET_STORE_DENIAL = DENY" "dangerous SECRET_STORE_DENIAL = True"
  by (simp_all add: presult_def hard_result_def SECRET_STORE_DENIAL_def)

section \<open>What the engine's parts depend on\<close>

text \<open>Two engines with the same roots and the same read namespace agree on everything that precedes the
  rules, except for the guard, which needs the same network policy too.\<close>

definition same_roots :: "PermissionEngine \<Rightarrow> PermissionEngine \<Rightarrow> bool" where
  "same_roots E F \<longleftrightarrow> project_root E = project_root F \<and> roots E = roots F \<and> virtual_reads E = virtual_reads F"

definition same_scope :: "PermissionEngine \<Rightarrow> PermissionEngine \<Rightarrow> bool" where
  "same_scope E F \<longleftrightarrow> project_root E = project_root F \<and> roots E = roots F
     \<and> virtual_reads E = virtual_reads F \<and> network (rules E) = network (rules F)"

lemma same_scope_roots: "same_scope E F \<Longrightarrow> same_roots E F"
  by (simp add: same_scope_def same_roots_def)

lemma same_scope_refl [simp]: "same_scope E E"
  by (simp add: same_scope_def)

lemma same_scope_fields [simp]:
  "same_scope (E\<lparr>mode := m\<rparr>) E" "same_scope (E\<lparr>session_allow := xs\<rparr>) E"
  "same_scope (E\<lparr>session_deny := xs\<rparr>) E"
  by (simp_all add: same_scope_def)

lemma same_roots_cong:
  assumes "same_roots E F"
  shows "scope_roots E = scope_roots F" "in_scope H E = in_scope H F"
    "workspace_scope H E = workspace_scope H F" "resolved_read_path H E = resolved_read_path H F"
    "project_relative H E = project_relative H F" "canonical_read_target H E = canonical_read_target H F"
    "read_alias_set H E = read_alias_set H F" "expand_read_patterns E = expand_read_patterns F"
proof -
  show 1: "scope_roots E = scope_roots F"
    using assms by (simp add: same_roots_def scope_roots_def)
  show "in_scope H E = in_scope H F" "workspace_scope H E = workspace_scope H F"
    and 2: "resolved_read_path H E = resolved_read_path H F"
    and 3: "project_relative H E = project_relative H F"
    unfolding fun_eq_iff in_scope_def workspace_scope_def resolved_read_path_def
        project_relative_def 1 by simp_all
  show "canonical_read_target H E = canonical_read_target H F"
    using assms by (auto simp: fun_eq_iff canonical_read_target_def same_roots_def split: option.split)
  show "read_alias_set H E = read_alias_set H F"
    unfolding fun_eq_iff read_alias_set_def 2 3 by simp
  show "expand_read_patterns E = expand_read_patterns F"
    by (simp add: fun_eq_iff expand_read_patterns_def 1)
qed

lemma same_roots_actions:
  assumes "same_roots E F"
  shows "canonicalized_action H E = canonicalized_action H F"
    "read_candidate_matches H E = read_candidate_matches H F"
    "applicable_patterns H E = applicable_patterns H F"
    "matches H E = matches H F" "rule_for H E = rule_for H F"
    "scoped_rule_for H E = scoped_rule_for H F"
proof -
  note c = same_roots_cong[OF assms]
  show "canonicalized_action H E = canonicalized_action H F"
    using assms c by (simp add: fun_eq_iff canonicalized_action_def same_roots_def)
  show 1: "read_candidate_matches H E = read_candidate_matches H F"
    by (simp add: fun_eq_iff read_candidate_matches_def c)
  show 2: "applicable_patterns H E = applicable_patterns H F"
    by (simp add: fun_eq_iff applicable_patterns_def c)
  show 3: "rule_for H E = rule_for H F"
    unfolding fun_eq_iff rule_for_def c by simp
  show "matches H E = matches H F"
    by (simp add: fun_eq_iff matches_def 1 2 3)
  show "scoped_rule_for H E = scoped_rule_for H F"
    by (simp add: fun_eq_iff scoped_rule_for_def c)
qed

lemma same_roots_secret:
  assumes "same_roots E F"
  shows "touches_secret_store U H E = touches_secret_store U H F"
proof -
  note c = same_roots_cong[OF assms]
  have r: "resolve_absolute H E = resolve_absolute H F"
    unfolding fun_eq_iff resolve_absolute_def c by simp
  have p: "is_secret_store_path U H E = is_secret_store_path U H F"
    unfolding fun_eq_iff is_secret_store_path_def c r by simp
  have v: "virtual_reads E = virtual_reads F" using assms by (simp add: same_roots_def)
  show ?thesis unfolding fun_eq_iff touches_secret_store_def c p v by simp
qed

lemmas same_scope_cong = same_roots_cong[OF same_scope_roots]
lemmas same_scope_secret = same_roots_secret[OF same_scope_roots]

lemma same_scope_guard: "same_scope E F \<Longrightarrow> guard_for U H E = guard_for U H F"
  using same_scope_cong(2)[of E F H] by (auto simp: fun_eq_iff guard_for_def same_scope_def split: ActionKind.split)

lemmas same_scope_actions = same_roots_actions[OF same_scope_roots] same_scope_guard

lemma canonicalized_kind [simp]: "kind (canonicalized_action H E a) = kind a"
  "tool (canonicalized_action H E a) = tool a"
  by (simp_all add: canonicalized_action_def)

lemma canonicalized_other: "kind a \<noteq> READ \<Longrightarrow> canonicalized_action H E a = a"
  by (simp add: canonicalized_action_def)

section \<open>The decision, by outcome\<close>

text \<open>The three hard tiers: an exception of the guard, a blocked command, the secret store.\<close>

definition floor_hit :: "pyuni \<Rightarrow> host \<Rightarrow> PermissionEngine \<Rightarrow> Action \<Rightarrow> bool" where
  "floor_hit U H E a \<longleftrightarrow>
     (\<exists>g. guard_for U H E (canonicalized_action H E a) = Inr g \<and>
        (level g = BLOCKED \<or> touches_secret_store U H E (canonicalized_action H E a)))"

lemma evaluate_Inl_iff: "evaluate U H E a = Inl e \<longleftrightarrow> guard_for U H E a = Inl e"
proof (cases "kind a = READ")
  case True
  then show ?thesis by (simp add: evaluate_def guard_for_def Let_def)
next
  case False
  then show ?thesis
    by (auto simp: evaluate_def canonicalized_other Let_def split: sum.split)
qed

lemma evaluate_InrE:
  assumes "evaluate U H E a = Inr r"
  obtains (blocked) g where "guard_for U H E (canonicalized_action H E a) = Inr g" "level g = BLOCKED"
      "r = hard_result DENY (u ''blocked by danger-guard: '' @ greason g)"
  | (secret) g where "guard_for U H E (canonicalized_action H E a) = Inr g" "level g \<noteq> BLOCKED"
      "touches_secret_store U H E (canonicalized_action H E a)" "r = SECRET_STORE_DENIAL"
  | (denied) g where "guard_for U H E (canonicalized_action H E a) = Inr g"
      "\<not> floor_hit U H E a" "matches H E (canonicalized_action H E a) (all_deny E)"
      "r = presult DENY (u ''matched a deny rule'')"
  | (danger) g where "guard_for U H E (canonicalized_action H E a) = Inr g" "level g = DANGEROUS"
      "\<not> floor_hit U H E a" "\<not> matches H E (canonicalized_action H E a) (all_deny E)"
      "r = hard_result ASK (u ''danger-guard: '' @ greason g)"
  | (read) g where "guard_for U H E (canonicalized_action H E a) = Inr g" "level g = SAFE"
      "\<not> floor_hit U H E a" "\<not> matches H E (canonicalized_action H E a) (all_deny E)" "kind a = READ"
      "r = read_decision H E (canonicalized_action H E a)"
  | (allowed) g where "guard_for U H E (canonicalized_action H E a) = Inr g" "level g = SAFE"
      "\<not> floor_hit U H E a" "\<not> matches H E (canonicalized_action H E a) (all_deny E)" "kind a \<noteq> READ"
      "matches H E a (all_allow E)" "r = presult ALLOW (u ''matched an allow rule'')"
  | (mode) g where "guard_for U H E (canonicalized_action H E a) = Inr g" "level g = SAFE"
      "\<not> floor_hit U H E a" "\<not> matches H E (canonicalized_action H E a) (all_deny E)" "kind a \<noteq> READ"
      "\<not> matches H E a (all_allow E)" "r = mode_decision H E a"
proof -
  obtain g where g: "guard_for U H E (canonicalized_action H E a) = Inr g"
    using assms by (auto simp: evaluate_def Let_def split: sum.splits)
  have f: "floor_hit U H E a \<longleftrightarrow> level g = BLOCKED \<or> touches_secret_store U H E (canonicalized_action H E a)"
    by (simp add: floor_hit_def g)
  have "level g \<noteq> BLOCKED \<Longrightarrow> level g \<noteq> DANGEROUS \<Longrightarrow> level g = SAFE"
    by (cases "level g") auto
  then show thesis
    using assms that[OF g] f canonicalized_other[of a H E]
    by (auto simp: evaluate_def Let_def g split: if_splits)
qed

section \<open>Rules in scope\<close>

text \<open>The pattern that one stored rule contributes to an action of the given kind, tool and
  workspace.\<close>

definition rule_applies :: "pystr \<Rightarrow> pystr \<Rightarrow> pystr \<Rightarrow> pystr \<Rightarrow> pystr option" where
  "rule_applies knd tl_name ws raw =
     (if \<not> startswith raw SCOPED_RULE_PREFIX then Some raw
      else unwrap_scoped knd tl_name ws (drop (length SCOPED_RULE_PREFIX) raw))"

lemma applicable_loop_set:
  "set (applicable_loop knd tl_name ws raws) = {r. \<exists>raw \<in> set raws. rule_applies knd tl_name ws raw = Some r}"
  by (induction raws) (auto simp: rule_applies_def split: option.splits)

lemma applicable_patterns_mono:
  "set xs \<subseteq> set ys \<Longrightarrow> set (applicable_patterns H E a xs) \<subseteq> set (applicable_patterns H E a ys)"
  by (auto simp: applicable_patterns_def applicable_loop_set)

definition pattern_aliases :: "pystr \<Rightarrow> pystr set" where
  "pattern_aliases p = (if p = [] then {} else {as_posix (parse_path p)} - {[], [46]})"

lemma expand_loop_set: "set (expand_loop out ps) = set out \<union> (\<Union>p \<in> set ps. pattern_aliases p)"
  by (induction ps arbitrary: out) (auto simp: Let_def pattern_aliases_def)

lemma expand_read_patterns_mono:
  "set xs \<subseteq> set ys \<Longrightarrow> set (expand_read_patterns E xs) \<subseteq> set (expand_read_patterns E ys)"
  by (auto simp: expand_read_patterns_def expand_loop_set)

lemma expand_read_patterns_self: "set ps \<subseteq> set (expand_read_patterns E ps)"
  by (simp add: expand_read_patterns_def expand_loop_set)

lemma list_ex_mono: "set xs \<subseteq> set ys \<Longrightarrow> list_ex P xs \<Longrightarrow> list_ex P ys"
  by (auto simp: list_ex_iff)

lemma read_candidate_matches_mono:
  assumes "set xs \<subseteq> set ys" "read_candidate_matches H E c xs"
  shows "read_candidate_matches H E c ys"
  using list_ex_mono[OF expand_read_patterns_mono[OF assms(1), of E]] assms(2)
  unfolding read_candidate_matches_def by (simp add: split_beta)

lemma matches_mono:
  assumes s: "set xs \<subseteq> set ys" and m: "matches H E a xs"
  shows "matches H E a ys"
proof (cases "kind a = READ")
  case True
  with m read_candidate_matches_mono[OF applicable_patterns_mono[OF s, of H E a]] show ?thesis
    by (auto simp: matches_def list_ex_iff)
next
  case False
  with m list_ex_mono[OF applicable_patterns_mono[OF s, of H E a]] show ?thesis
    by (simp add: matches_def)
qed

lemma sensitive_mono:
  assumes E: "same_roots E F"
    and g: "set (sensitive_read_globs (rules F)) \<subseteq> set (sensitive_read_globs (rules E))"
    and s: "is_sensitive_read_canonical H F c"
  shows "is_sensitive_read_canonical H E c"
proof -
  have "sensitive_read_globs (rules F) \<noteq> []" "c \<noteq> []"
    using s by (auto simp: is_sensitive_read_canonical_def Let_def split: if_splits)
  moreover from this g have "sensitive_read_globs (rules E) \<noteq> []" by auto
  ultimately show ?thesis
    using s list_ex_mono[OF expand_read_patterns_mono[OF g, of F]] same_roots_cong[OF E]
    by (simp add: is_sensitive_read_canonical_def)
qed

lemma mode_decision_mono:
  assumes "same_roots E F" "mode_rank (mode E) \<le> mode_rank (mode F)"
  shows "decision (mode_decision H E a) \<le> decision (mode_decision H F a)"
  using assms(2) same_roots_cong(2)[OF assms(1)]
  by (cases "mode E"; cases "mode F") (auto simp: mode_decision_def)

lemma read_decision_mono:
  assumes E: "same_roots E F"
    and g: "set (sensitive_read_globs (rules F)) \<subseteq> set (sensitive_read_globs (rules E))"
    and al: "set (all_allow E) \<subseteq> set (all_allow F)"
  shows "decision (read_decision H E a) \<le> decision (read_decision H F a)"
  using sensitive_mono[OF E g] same_roots_actions[OF E]
    read_candidate_matches_mono[OF applicable_patterns_mono[OF al, of H F a]]
  by (auto simp: read_decision_def Let_def list_ex_iff)

text \<open>An engine with more deny rules, fewer allow rules, more sensitive globs and a lower mode is
  at most as permissive, on every action.\<close>

lemma evaluate_tighter:
  assumes E: "same_roots E F"
    and d: "set (all_deny F) \<subseteq> set (all_deny E)" and al: "set (all_allow E) \<subseteq> set (all_allow F)"
    and g: "set (sensitive_read_globs (rules F)) \<subseteq> set (sensitive_read_globs (rules E))"
    and m: "mode_rank (mode E) \<le> mode_rank (mode F)"
    and v: "guard_for U H E (canonicalized_action H F a) = Inr v" "guard_for U H F (canonicalized_action H F a) = Inr w"
      "level v = level w \<or> level v = BLOCKED"
  shows "result_le (evaluate U H E a) (evaluate U H F a)"
proof -
  note eqs = same_roots_actions[OF E] same_roots_secret[OF E]
  let ?a = "canonicalized_action H F a"
  have dm: "matches H F ?a (all_deny F) \<Longrightarrow> matches H F ?a (all_deny E)"
    and am: "matches H F ?a (all_allow E) \<Longrightarrow> matches H F ?a (all_allow F)"
    using matches_mono[OF d] matches_mono[OF al] by blast+
  have rd: "decision (read_decision H E ?a) \<le> decision (read_decision H F ?a)"
    and md: "decision (mode_decision H E ?a) \<le> decision (mode_decision H F ?a)"
    using read_decision_mono[OF E g al] mode_decision_mono[OF E m] by blast+
  show ?thesis
    using v dm am rd md unfolding result_le_def evaluate_def Let_def eqs
    by auto
qed

lemma evaluate_mono_aux:
  assumes E: "same_scope E F"
    and d: "set (all_deny F) \<subseteq> set (all_deny E)" and al: "set (all_allow E) \<subseteq> set (all_allow F)"
    and g: "set (sensitive_read_globs (rules F)) \<subseteq> set (sensitive_read_globs (rules E))"
    and m: "mode_rank (mode E) \<le> mode_rank (mode F)"
  shows "result_le (evaluate U H E a) (evaluate U H F a)"
proof (cases "guard_for U H F (canonicalized_action H F a)")
  case (Inl e)
  then show ?thesis
    unfolding result_le_def evaluate_def Let_def same_scope_actions[OF E] same_scope_secret[OF E] by simp
next
  case (Inr v)
  with same_scope_guard[OF E, of U H] show ?thesis
    by (intro evaluate_tighter[OF same_scope_roots[OF E] d al g m]) auto
qed

section \<open>Scoped rules: the envelope and its authority\<close>

definition envelope :: "pystr \<Rightarrow> pystr \<Rightarrow> pystr \<Rightarrow> pystr \<Rightarrow> pystr" where
  "envelope k r t w = SCOPED_RULE_PREFIX @ dumps_strs
     [(u ''kind'', k), (u ''rule'', r), (u ''tool'', t), (u ''workspace'', w)]"

lemma scoped_rule_for_envelope:
  "scoped_rule_for H E a rule =
     envelope (kind_value (kind a)) rule (truthy_tool (tool a)) (workspace_scope H E)"
  by (simp add: scoped_rule_for_def envelope_def)

lemma code_points_kind [simp]: "code_points (kind_value k)"
  by (cases k) simp_all

lemma kind_value_inj [simp]: "kind_value k = kind_value l \<longleftrightarrow> k = l"
  by (cases k; cases l) simp_all

lemma rule_applies_envelope:
  assumes "code_points k" "code_points r" "code_points t" "code_points w"
  shows "rule_applies k' t' w' (envelope k r t w) =
     (if k' = k \<and> t' = t \<and> w' = w \<and> r \<noteq> [] then Some r else None)"
proof -
  let ?kvs = "[(u ''kind'', k), (u ''rule'', r), (u ''tool'', t), (u ''workspace'', w)]"
  have j: "json_loads (dumps_strs ?kvs) = Some (JObj (str_members ?kvs))"
    using assms by (intro loads_dumps_strs) simp_all
  show ?thesis
    unfolding rule_applies_def envelope_def
    by (simp add: unwrap_scoped_def j) (auto simp: str_members_def dkeys_def)
qed

lemma applicable_loop_append:
  "applicable_loop k t w (xs @ ys) = applicable_loop k t w xs @ applicable_loop k t w ys"
  by (induction xs) (auto split: option.split)

lemma applicable_loop_inert:
  "rule_applies k t w raw = None \<Longrightarrow> applicable_loop k t w (xs @ [raw]) = applicable_loop k t w xs"
  by (auto simp: applicable_loop_append rule_applies_def split: if_splits option.split)

section \<open>Effect of remembered rules\<close>

lemma remember_state:
  "fst (remember H E a scope) = (if scope = ONCE then E
     else E\<lparr>session_allow := add_once (scoped_rule_for H E a (rule_for H E a)) (session_allow E)\<rparr>)"
  by (simp add: remember_def Let_def)

lemma add_once_set [simp]: "set (add_once r rs) = insert r (set rs)"
  by (auto simp: add_once_def)

lemma rule_for_chars: "kind a \<noteq> READ \<Longrightarrow> set (rule_for H E a) \<subseteq> insert 32 (set (target a))"
proof (cases "kind a = SHELL")
  case True
  have t: "i < length (split_ws (target a)) \<Longrightarrow> set (split_ws (target a) ! i) \<subseteq> set (target a)" for i
    by (rule split_ws_chars) simp
  show ?thesis
  proof (cases "length (split_ws (target a)) < 2")
    case False
    then have "set (split_ws (target a) ! 0) \<subseteq> set (target a)" "set (split_ws (target a) ! 1) \<subseteq> set (target a)"
      by (auto intro!: t)
    then show ?thesis using True False by (auto simp: rule_for_def Let_def)
  qed (use True in \<open>auto simp: rule_for_def Let_def\<close>)
qed (cases "kind a"; auto simp: rule_for_def)

lemma rule_for_nonempty: "kind a \<noteq> READ \<Longrightarrow> target a \<noteq> [] \<Longrightarrow> rule_for H E a \<noteq> []"
  by (cases "kind a") (auto simp: rule_for_def Let_def)

definition scope_text_ok :: "host \<Rightarrow> PermissionEngine \<Rightarrow> Action \<Rightarrow> bool" where
  "scope_text_ok H E a \<longleftrightarrow> code_points (target a) \<and> code_points (truthy_tool (tool a))
     \<and> code_points (workspace_scope H E) \<and> code_points (rule_for H E a)"

lemma scope_text_ok_intro:
  "kind a \<noteq> READ \<Longrightarrow> code_points (target a) \<Longrightarrow> code_points (truthy_tool (tool a))
   \<Longrightarrow> code_points (workspace_scope H E) \<Longrightarrow> scope_text_ok H E a"
  using rule_for_chars[of a H E] by (auto simp: scope_text_ok_def code_points_def list_all_iff)

lemma own_rule_applies:
  assumes "scope_text_ok H E a" "rule_for H E a \<noteq> []"
    "scoped_rule_for H E a (rule_for H E a) \<in> set rs"
  shows "rule_for H E a \<in> set (applicable_patterns H E a rs)"
  using assms
  by (auto simp: applicable_patterns_def applicable_loop_set scoped_rule_for_envelope scope_text_ok_def
      rule_applies_envelope intro!: bexI[of _ "scoped_rule_for H E a (rule_for H E a)"])

lemma own_rule_matches:
  assumes "scope_text_ok H E a" "rule_for H E a \<noteq> []" "kind a \<noteq> READ"
    "scoped_rule_for H E a (rule_for H E a) \<in> set rs"
  shows "matches H E a rs"
  using own_rule_applies[OF assms(1,2,4)] assms(3) by (force simp: matches_def list_ex_iff)

lemma evaluate_inert_allow:
  assumes "rule_applies (kind_value (kind b)) (truthy_tool (tool b)) (workspace_scope H F) raw = None"
  shows "evaluate U H (F\<lparr>session_allow := session_allow F @ [raw]\<rparr>) b = evaluate U H F b"
proof -
  let ?F = "F\<lparr>session_allow := session_allow F @ [raw]\<rparr>"
  have s: "same_scope ?F F" by simp
  note eqs = same_scope_actions[OF s] same_scope_secret[OF s] same_scope_cong[OF s]
  have al: "applicable_patterns H F (canonicalized_action H F b) (all_allow F @ [raw])
      = applicable_patterns H F (canonicalized_action H F b) (all_allow F)"
    using assms by (simp add: applicable_patterns_def applicable_loop_inert)
  have aa: "all_allow ?F = all_allow F @ [raw]" "all_deny ?F = all_deny F"
    by (simp_all add: all_allow_def all_deny_def)
  have se: "is_sensitive_read_canonical H ?F = is_sensitive_read_canonical H F"
    by (simp add: fun_eq_iff is_sensitive_read_canonical_def eqs)
  have md: "mode_decision H ?F = mode_decision H F"
    by (simp add: fun_eq_iff mode_decision_def eqs)
  show ?thesis
    unfolding evaluate_def Let_def read_decision_def matches_def eqs aa al se md ..
qed

section \<open>Properties of the engine\<close>

text \<open>A project with the default sensitive globs and the given rules, for examples.\<close>

definition project_engine :: "PermissionMode \<Rightarrow> pystr list \<Rightarrow> pystr list \<Rightarrow> PermissionEngine" where
  "project_engine m al dn =
     \<lparr>mode = m, rules = \<lparr>allow = al, deny = dn, sensitive_read_globs = DEFAULT_SENSITIVE_READ_GLOBS,
          network = \<lparr>np_allow = [], np_deny = []\<rparr>\<rparr>, project_root = Some (parse_path (u ''/home/ann/proj'')),
      roots = [], virtual_reads = False, has_persist = False, session_allow = [], session_deny = []\<rparr>"

definition action :: "ActionKind \<Rightarrow> pystr \<Rightarrow> pystr option \<Rightarrow> Action" where
  "action k t tl_name = \<lparr>kind = k, target = t, tool = tl_name, read_targets = []\<rparr>"


text \<open>
  The hard floor: a blocked command, or an access to the secret store, is denied and flagged so
  that it cannot be remembered, and the verdict is the same for every engine with the same roots
  and network policy: no mode, allow rule, deny rule or session approval changes it.
\<close>

theorem floor_unallowlistable:
  assumes "evaluate U H E a = Inr r" "decision r = DENY" "dangerous r" "same_scope E F"
  shows "evaluate U H F a = Inr r \<and> block_remember_always r"
proof -
  note eqs = same_scope_actions[OF assms(4)] same_scope_secret[OF assms(4)]
  have md: "\<not> dangerous (mode_decision H E a)"
    by (simp add: mode_decision_def Let_def split: PermissionMode.split)
  have rd: "\<not> dangerous (read_decision H E b)" for b
    by (simp add: read_decision_def Let_def)
  from assms(1) show ?thesis
  proof (cases rule: evaluate_InrE)
    case blocked
    then show ?thesis unfolding evaluate_def eqs by simp
  next
    case secret
    then show ?thesis unfolding evaluate_def eqs by (simp add: SECRET_STORE_DENIAL_def)
  qed (use assms(2,3) md rd in simp_all)
qed

theorem floor_unallowlistable_witness:
  "evaluate ascii_uni user_host (project_engine YOLO [u ''*''] []) (action SHELL (u ''mkfs /dev/sda'') None)
     = Inr (hard_result DENY (u ''blocked by danger-guard: filesystem format''))"
proof -
  have "evaluate ascii_uni user_host (project_engine PLAN [] []) (action SHELL (u ''mkfs /dev/sda'') None)
      = Inr (hard_result DENY (u ''blocked by danger-guard: filesystem format''))"
    by code_simp
  from floor_unallowlistable[OF this, of "project_engine YOLO [u ''*''] []"]
  show ?thesis by (simp add: same_scope_def project_engine_def)
qed

text \<open>
  C4. The engine is monotone: on every action, an engine with at least the deny rules and sensitive
  globs, at most the allow rules, and a mode of lower or equal rank is at most as permissive.
\<close>

theorem evaluate_mono:
  assumes "same_scope E F"
    and "set (all_deny F) \<subseteq> set (all_deny E)" and "set (all_allow E) \<subseteq> set (all_allow F)"
    and "set (sensitive_read_globs (rules F)) \<subseteq> set (sensitive_read_globs (rules E))"
    and "mode_rank (mode E) \<le> mode_rank (mode F)"
  shows "result_le (evaluate U H E a) (evaluate U H F a)"
  by (rule evaluate_mono_aux[OF assms])

theorem evaluate_mono_witness:
  "result_le
     (evaluate ascii_uni user_host (project_engine MODE_ASK [] [u ''*.lock'']) (action WRITE (u ''a.lock'') None))
     (evaluate ascii_uni user_host (project_engine YOLO [u ''ls''] []) (action WRITE (u ''a.lock'') None))"
  by (rule evaluate_mono) (simp_all add: project_engine_def same_scope_def all_deny_def all_allow_def)

text \<open>
  A dangerous verdict of the guard is never turned into an approval: in every mode and under every
  allow rule the action is denied or must be confirmed, and an approval of it is never persisted.
\<close>

theorem dangerous_never_allowed:
  assumes "guard_for U H E (canonicalized_action H E a) = Inr g" "level g \<noteq> SAFE"
  shows "\<exists>r. evaluate U H E a = Inr r
           \<and> (decision r = DENY \<or> decision r = ASK \<and> dangerous r \<and> block_remember_always r)"
  using assms by (cases "level g") (auto simp: evaluate_def Let_def)

theorem dangerous_never_allowed_witness:
  "\<exists>r. evaluate ascii_uni user_host (project_engine YOLO [u ''*''] []) (action SHELL (u ''sudo ls'') None) = Inr r
     \<and> (decision r = DENY \<or> decision r = ASK \<and> dangerous r \<and> block_remember_always r)"
proof (rule dangerous_never_allowed)
  show "guard_for ascii_uni user_host (project_engine YOLO [u ''*''] [])
      (canonicalized_action user_host (project_engine YOLO [u ''*''] []) (action SHELL (u ''sudo ls'') None))
    = Inr (verdict DANGEROUS (u ''elevated privileges''))" by code_simp
qed simp

text \<open>
  Remembering an approval (for the session or always) of an action that had to be confirmed, and
  that the guard did not flag, makes the engine allow the same action from then on.
\<close>

theorem remember_then_allowed:
  assumes ev: "evaluate U H E a = Inr r" "decision r = ASK" "\<not> dangerous r"
    and a: "kind a \<noteq> READ" "target a \<noteq> []" "scope \<noteq> ONCE"
    and cp: "code_points (target a)" "code_points (truthy_tool (tool a))" "code_points (workspace_scope H E)"
  shows "evaluate U H (fst (remember H E a scope)) a = Inr (presult ALLOW (u ''matched an allow rule''))"
proof -
  let ?E = "fst (remember H E a scope)"
  let ?r = "scoped_rule_for H E a (rule_for H E a)"
  have E': "?E = E\<lparr>session_allow := add_once ?r (session_allow E)\<rparr>"
    using a(3) by (simp add: remember_state)
  have s: "same_scope ?E E" unfolding E' by simp
  note eqs = same_scope_actions[OF s] same_scope_secret[OF s]
  have "matches H E a (all_allow ?E)"
    by (rule own_rule_matches[OF scope_text_ok_intro[OF a(1) cp] rule_for_nonempty[OF a(1,2)] a(1)])
       (simp add: E' all_allow_def)
  moreover have "all_deny ?E = all_deny E" by (simp add: E' all_deny_def)
  moreover from ev(1) have "\<exists>g. guard_for U H E a = Inr g \<and> level g = SAFE \<and> \<not> touches_secret_store U H E a
      \<and> \<not> matches H E a (all_deny E)"
    by (cases rule: evaluate_InrE)
       (use ev(2,3) a(1) in \<open>auto simp: floor_hit_def canonicalized_other\<close>)
  ultimately show ?thesis
    using a(1) unfolding evaluate_def Let_def eqs by (auto simp: canonicalized_other)
qed

theorem remember_then_allowed_witness:
  "evaluate ascii_uni user_host (fst (remember user_host (project_engine MODE_ASK [] [])
       (action SHELL (u ''npm test --watch'') None) SESSION)) (action SHELL (u ''npm test --watch'') None)
     = Inr (presult ALLOW (u ''matched an allow rule''))"
proof (rule remember_then_allowed)
  show "evaluate ascii_uni user_host (project_engine MODE_ASK [] []) (action SHELL (u ''npm test --watch'') None)
      = Inr (presult ASK (u ''ask mode requires confirmation''))" by code_simp
  show "code_points (target (action SHELL (u ''npm test --watch'') None))" by code_simp
  show "code_points (truthy_tool (tool (action SHELL (u ''npm test --watch'') None)))" by code_simp
  show "code_points (workspace_scope user_host (project_engine MODE_ASK [] []))" by code_simp
qed (simp_all add: action_def)

text \<open>
  A generated rule never widens its authority: in any engine, a rule remembered for one kind of
  action, tool and workspace does not change the decision on an action that differs in one of the
  three.
\<close>

theorem scoped_rule_confined:
  assumes "code_points rule" "code_points (truthy_tool (tool a))" "code_points (workspace_scope H E)"
    and "kind b \<noteq> kind a \<or> truthy_tool (tool b) \<noteq> truthy_tool (tool a)
         \<or> workspace_scope H F \<noteq> workspace_scope H E"
  shows "evaluate U H (F\<lparr>session_allow := session_allow F @ [scoped_rule_for H E a rule]\<rparr>) b
       = evaluate U H F b"
  using assms
  by (intro evaluate_inert_allow) (auto simp: scoped_rule_for_envelope rule_applies_envelope)

theorem scoped_rule_confined_witness:
  "evaluate ascii_uni user_host ((project_engine MODE_ASK [] [])\<lparr>session_allow := session_allow (project_engine MODE_ASK [] [])
        @ [scoped_rule_for user_host (project_engine MODE_ASK [] []) (action SHELL (u ''ls *'') (Some (u ''execute''))) (u ''*'')]\<rparr>)
      (action WRITE (u ''notes.txt'') (Some (u ''write_file'')))
   = evaluate ascii_uni user_host (project_engine MODE_ASK [] []) (action WRITE (u ''notes.txt'') (Some (u ''write_file'')))"
proof (rule scoped_rule_confined)
  show "code_points (workspace_scope user_host (project_engine MODE_ASK [] []))" by code_simp
qed (simp_all add: action_def truthy_tool_def)

text \<open>
  A session denial of a write, command or network action takes effect at once and in every mode:
  the same action is denied from then on, and on every other action the engine is at most as
  permissive as before.
\<close>

theorem deny_session_restricts:
  assumes a: "kind a \<noteq> READ" "target a \<noteq> []" "guard_for U H E a = Inr g"
    and cp: "code_points (target a)" "code_points (truthy_tool (tool a))" "code_points (workspace_scope H E)"
  shows "(\<exists>r. evaluate U H (deny_session_op H E a) a = Inr r \<and> decision r = DENY)
       \<and> result_le (evaluate U H (deny_session_op H E a) b) (evaluate U H E b)"
proof -
  let ?E = "deny_session_op H E a"
  have s: "same_scope ?E E" by (simp add: deny_session_op_def)
  note eqs = same_scope_actions[OF s] same_scope_secret[OF s]
  have "matches H E a (all_deny ?E)"
    by (rule own_rule_matches[OF scope_text_ok_intro[OF a(1) cp] rule_for_nonempty[OF a(1,2)] a(1)])
       (simp add: deny_session_op_def all_deny_def)
  then have "\<exists>r. evaluate U H ?E a = Inr r \<and> decision r = DENY"
    using a unfolding evaluate_def Let_def eqs by (simp add: canonicalized_other)
  moreover have "result_le (evaluate U H ?E b) (evaluate U H E b)"
    by (rule evaluate_mono_aux[OF s]) (auto simp: deny_session_op_def all_deny_def all_allow_def)
  ultimately show ?thesis by blast
qed

theorem deny_session_restricts_witness:
  "(\<exists>r. evaluate ascii_uni user_host (deny_session_op user_host (project_engine YOLO [] [])
         (action NETWORK (u ''https://x.io'') (Some (u ''web_fetch''))))
       (action NETWORK (u ''https://x.io'') (Some (u ''web_fetch''))) = Inr r \<and> decision r = DENY)
   \<and> result_le (evaluate ascii_uni user_host (deny_session_op user_host (project_engine YOLO [] [])
         (action NETWORK (u ''https://x.io'') (Some (u ''web_fetch'')))) (action WRITE (u ''a'') None))
       (evaluate ascii_uni user_host (project_engine YOLO [] []) (action WRITE (u ''a'') None))"
proof (rule deny_session_restricts)
  show "guard_for ascii_uni user_host (project_engine YOLO [] []) (action NETWORK (u ''https://x.io'') (Some (u ''web_fetch'')))
    = Inr (verdict SAFE [])" by code_simp
  show "code_points (workspace_scope user_host (project_engine YOLO [] []))" by code_simp
qed (simp_all add: action_def truthy_tool_def)

lemma keep_new_set: "set (keep_new out cs) = set out \<union> (set cs - {[]})"
  by (induction out cs rule: keep_new.induct) auto

lemma read_candidates_set: "set (read_candidates a) = insert (target a) (set (read_targets a)) - {[]}"
  by (auto simp: read_candidates_def keep_new_set)

lemma canonicalized_read: "canonicalized_action H E (read_action p) =
  read_action (if virtual_reads E then canonical_read_target H E p else p)"
  by (simp add: canonicalized_action_def read_action_def)

lemma read_blocked_iff:
  "read_content_blocked U H E path \<longleftrightarrow>
     (\<exists>r. evaluate U H E (read_action path) = Inr r \<and> decision r \<noteq> ALLOW)"
proof -
  obtain q where q: "canonicalized_action H E (read_action path) = read_action q"
    by (metis canonicalized_read)
  have k: "kind (read_action q) = READ" by (simp add: read_action_def)
  have rc: "read_candidates (read_action q) = (if q = [] then [] else [q])"
    by (simp add: read_candidates_def read_action_def)
  show ?thesis
    unfolding read_content_blocked_def evaluate_def Let_def q
    by (simp add: guard_for_def k read_decision_def matches_def[of H E "read_action q" "all_allow E"]
        is_sensitive_read_def rc Let_def)
qed

text \<open>
  The filter of read results and the gate before execution agree: the contents of a file are
  withheld exactly when a read of that path would not be allowed outright.
\<close>

theorem read_content_blocked_iff:
  "read_content_blocked U H E path \<longleftrightarrow>
     (\<exists>r. evaluate U H E (read_action path) = Inr r \<and> decision r \<noteq> ALLOW)"
  by (rule read_blocked_iff)

text \<open>
  No spelling of a stored credential can be read: if any candidate of a read resolves to a path
  whose components, compared without case, start with those of a secret-store directory, the read
  is denied, whatever the mode and the rules.
\<close>

theorem secret_store_read_denied:
  assumes "kind a = READ" "c \<in> set (read_candidates (canonicalized_action H E a))"
    and "resolve_absolute H E c = Some p" "d \<in> set (secret_store_dirs H)"
    and "length (parts d) \<le> length (parts p)"
    and "map (casefold U) (take (length (parts d)) (parts p)) = map (casefold U) (parts d)"
  shows "evaluate U H E a = Inr SECRET_STORE_DENIAL"
proof -
  have "c \<noteq> []" using assms(2) by (simp add: read_candidates_set)
  have "list_all (\<lambda>(x, y). casefold U x = casefold U y) (zip (parts p) (parts d))"
  proof -
    have "casefold U (parts p ! i) = casefold U (parts d ! i)" if "i < length (parts d)" for i
      using arg_cong[OF assms(6), of "\<lambda>xs. xs ! i"] that assms(5) by simp
    then show ?thesis by (auto simp: list_all_length)
  qed
  then have "path_within U p d" using assms(5) by (simp add: path_within_def)
  then have "is_secret_store_path U H E c"
    using \<open>c \<noteq> []\<close> assms(3,4) by (auto simp: is_secret_store_path_def list_ex_iff)
  then have "touches_secret_store U H E (canonicalized_action H E a)"
    using assms(1,2) by (auto simp: touches_secret_store_def list_ex_iff)
  then show ?thesis using assms(1) by (simp add: evaluate_def guard_for_def Let_def)
qed

theorem secret_store_read_denied_witness:
  "evaluate ascii_uni user_host (project_engine YOLO [u ''*''] [])
     \<lparr>kind = READ, target = u ''/home/ann/proj'', tool = Some (u ''grep''),
      read_targets = [u ''../.jarn/SECRETS/jarn/groq'']\<rparr> = Inr SECRET_STORE_DENIAL"
proof (rule secret_store_read_denied[where c = "u ''../.jarn/SECRETS/jarn/groq''"
        and p = "parse_path (u ''/home/ann/.jarn/SECRETS/jarn/groq'')" and d = "parse_path (u ''/home/ann/.jarn/secrets'')"])
qed (simp, code_simp+)

text \<open>
  A write outside every root is never allowed without confirmation, even in the full-auto mode
  and with an allow rule that matches everything.
\<close>

theorem write_out_of_scope_not_allowed:
  assumes "kind a = WRITE" "\<not> in_scope H E (target a)"
  shows "\<exists>r. evaluate U H E a = Inr r \<and> decision r \<noteq> ALLOW"
  using assms by (simp add: evaluate_def guard_for_def canonicalized_other inspect_path_write_def)

theorem write_out_of_scope_not_allowed_witness:
  "\<exists>r. evaluate ascii_uni user_host (project_engine YOLO [u ''*''] []) (action WRITE (u ''../other/x'') None) = Inr r
     \<and> decision r \<noteq> ALLOW"
  by (rule write_out_of_scope_not_allowed) (simp add: action_def, code_simp)

text \<open>
  A target is in scope exactly when there is no root, or it resolves (anchored at the primary
  root, symbolic links followed) to a path at or below a root that itself resolves.
\<close>

theorem in_scope_iff:
  "in_scope H E t \<longleftrightarrow> scope_roots E = [] \<or>
     (\<exists>p root r. anchored H (hd (scope_roots E)) t = Some p \<and> root \<in> set (scope_roots E)
        \<and> h_resolve H root = Some r \<and> proot p = proot r \<and> prefix (ptail r) (ptail p))"
proof (cases "scope_roots E")
  case (Cons x xs)
  have "in_scope H E t \<longleftrightarrow> (\<exists>p. anchored H x t = Some p \<and> (\<exists>root \<in> set (x # xs). under_root H p root))"
    by (simp add: in_scope_def Cons list_ex_iff split: option.split)
  moreover have "under_root H p root \<longleftrightarrow>
      (\<exists>r. h_resolve H root = Some r \<and> proot p = proot r \<and> prefix (ptail r) (ptail p))" for p root
    by (simp add: under_root_def under_iff split: option.split)
  ultimately show ?thesis unfolding Cons by (simp del: set_simps) blast
qed (simp add: in_scope_def)

text \<open>
  Plan mode alone is not read-only: an allow rule still allows a shell command in plan mode.
\<close>

theorem plan_mode_allow_rule_runs_shell:
  "evaluate ascii_uni user_host (project_engine PLAN [u ''make *''] []) (action SHELL (u ''make install'') None)
     = Inr (presult ALLOW (u ''matched an allow rule''))"
  by code_simp

text \<open>
  Outside allow rules, plan mode never allows a write, a command or a network action: every such
  action the guard can judge is denied, except that a dangerous one asks.
\<close>

theorem plan_mode_denies:
  assumes "mode E = PLAN" "kind a \<noteq> READ" "\<not> matches H E a (all_allow E)" "guard_for U H E a = Inr g"
  shows "\<exists>r. evaluate U H E a = Inr r \<and> (decision r = DENY \<or> decision r = ASK \<and> level g = DANGEROUS)"
  using assms by (simp add: evaluate_def Let_def canonicalized_other mode_decision_def)

theorem plan_mode_denies_witness:
  "\<exists>r. evaluate ascii_uni user_host (project_engine PLAN [] []) (action SHELL (u ''make install'') None) = Inr r
     \<and> (decision r = DENY \<or> decision r = ASK \<and> level (verdict SAFE []) = DANGEROUS)"
  by (rule plan_mode_denies) (simp add: project_engine_def, simp add: action_def, code_simp, code_simp)

text \<open>
  An approved command is generalised to its program and first argument only when the program is no
  interpreter or wrapper, the argument is no option, and it is not \<^verbatim>\<open>npm run <script>\<close>;
  otherwise the whole command is remembered.
\<close>

theorem rule_for_shell_iff:
  assumes "kind a = SHELL" "rule_for H E a \<noteq> target a"
  shows "\<exists>p x ws. split_ws (target a) = p # x # ws \<and> rule_for H E a = p @ [32] @ x
     \<and> after_last 47 p \<notin> set WRAPPER_PROGRAMS \<and> \<not> startswith x [45]
     \<and> \<not> (after_last 47 p = u ''npm'' \<and> x = u ''run'' \<and> ws \<noteq> [])"
proof -
  have "\<not> length (split_ws (target a)) < 2" using assms by (auto simp: rule_for_def Let_def)
  then obtain p x ws where s: "split_ws (target a) = p # x # ws"
    by (cases "split_ws (target a)"; cases "tl (split_ws (target a))") auto
  have "rule_for H E a = p @ [32] @ x \<and> after_last 47 p \<notin> set WRAPPER_PROGRAMS \<and> \<not> startswith x [45]
     \<and> \<not> (after_last 47 p = u ''npm'' \<and> x = u ''run'' \<and> ws \<noteq> [])"
    using assms by (cases ws) (auto simp: rule_for_def Let_def s split: if_split_asm)
  with s show ?thesis by blast
qed

theorem rule_for_shell_iff_witness:
  "\<exists>p x ws. split_ws (target (action SHELL (u ''git status -s'') None)) = p # x # ws
     \<and> rule_for user_host (project_engine MODE_ASK [] []) (action SHELL (u ''git status -s'') None) = p @ [32] @ x
     \<and> after_last 47 p \<notin> set WRAPPER_PROGRAMS \<and> \<not> startswith x [45]
     \<and> \<not> (after_last 47 p = u ''npm'' \<and> x = u ''run'' \<and> ws \<noteq> [])"
  by (rule rule_for_shell_iff) (simp add: action_def, code_simp)

end
