(* ===== verification/Bridge.thy ===== *)
theory Bridge
  imports Engine
begin

text \<open>
  The translation of tool calls into actions, \<^verbatim>\<open>src/src/jarn/agent/permissions_bridge.py\<close>. The
  arguments of a call are a dictionary of JSON values; \<open>py_str\<close>, \<open>py_repr\<close> and \<open>truthy\<close> are
  Python's \<^verbatim>\<open>str\<close>, \<^verbatim>\<open>repr\<close> and truth value of them.
\<close>

section \<open>Python's view of JSON values\<close>

fun dec_digits :: "nat \<Rightarrow> pystr" where
  "dec_digits n = (if n < 10 then [48 + int n] else dec_digits (n div 10) @ [48 + int (n mod 10)])"

declare dec_digits.simps [simp del]

definition str_int :: "int \<Rightarrow> pystr" where
  "str_int i = (if i < 0 then 45 # dec_digits (nat (- i)) else dec_digits (nat i))"

fun py_repr :: "pyuni \<Rightarrow> json \<Rightarrow> pystr" where
  "py_repr U JNull = u ''None''"
| "py_repr U (JBool b) = (if b then u ''True'' else u ''False'')"
| "py_repr U (JInt i) = str_int i"
| "py_repr U (JFloat x) = repr_float U x"
| "py_repr U (JStr s) = repr_str U s"
| "py_repr U (JList xs) = 91 # py_join (u '', '') (map (py_repr U) xs) @ [93]"
| "py_repr U (JObj kvs) =
     123 # py_join (u '', '') (map (\<lambda>(k, v). repr_str U k @ u '': '' @ py_repr U v) kvs) @ [125]"

definition py_str :: "pyuni \<Rightarrow> json \<Rightarrow> pystr" where
  "py_str U v = (case v of JStr s \<Rightarrow> s | _ \<Rightarrow> py_repr U v)"

fun truthy :: "pyuni \<Rightarrow> json \<Rightarrow> bool" where
  "truthy U JNull = False"
| "truthy U (JBool b) = b"
| "truthy U (JInt i) = (i \<noteq> 0)"
| "truthy U (JFloat x) = float_truth U x"
| "truthy U (JStr s) = (s \<noteq> [])"
| "truthy U (JList xs) = (xs \<noteq> [])"
| "truthy U (JObj kvs) = (kvs \<noteq> [])"

type_synonym args = "(pystr, json) pydict"

definition aget :: "args \<Rightarrow> string \<Rightarrow> json" where
  "aget a k = (case dget a (u k) of None \<Rightarrow> JNull | Some v \<Rightarrow> v)"

text \<open>\<^verbatim>\<open>args.get(k1) or args.get(k2) or ... or default\<close>\<close>

fun aget_or :: "pyuni \<Rightarrow> args \<Rightarrow> string list \<Rightarrow> json \<Rightarrow> json" where
  "aget_or U a [] d = d"
| "aget_or U a (k # ks) d = (if truthy U (aget a k) then aget a k else aget_or U a ks d)"

definition stringify :: "pyuni \<Rightarrow> args \<Rightarrow> pystr" where
  "stringify U a = py_join [32] (map (\<lambda>(k, v). py_str U v) a)"

section \<open>Tables\<close>

definition MUTATING_TOOLS :: "pystr list" where
  "MUTATING_TOOLS = [u ''write_file'', u ''edit_file'', u ''execute'']"
definition WIKI_MUTATING_TOOLS :: "pystr list" where
  "WIKI_MUTATING_TOOLS = [u ''wiki_write'', u ''wiki_append'']"
definition WIKI_READONLY_TOOLS :: "pystr list" where
  "WIKI_READONLY_TOOLS = [u ''wiki_search'', u ''wiki_read'']"
definition ASYNC_SUBAGENT_TOOLS :: "pystr list" where
  "ASYNC_SUBAGENT_TOOLS = [u ''start_async_task'', u ''check_async_task'', u ''update_async_task'',
     u ''cancel_async_task'', u ''list_async_tasks'']"
definition READONLY_TOOLS :: "pystr list" where
  "READONLY_TOOLS = [u ''read_file'', u ''ls'', u ''glob'', u ''grep'']"
definition INTERNAL_TOOLS :: "pystr list" where
  "INTERNAL_TOOLS = [u ''write_todos'', u ''task'']"
definition BACKGROUND_START_TOOL :: pystr where
  "BACKGROUND_START_TOOL = u ''run_in_background''"
definition BACKGROUND_CONTROL_TOOLS :: "pystr list" where
  "BACKGROUND_CONTROL_TOOLS = [u ''check_background'', u ''kill_background'', u ''list_background'']"
definition UNGATED_EXTRA_TOOLS :: "pystr list" where
  "UNGATED_EXTRA_TOOLS = WIKI_READONLY_TOOLS @ [u ''repo_map''] @ BACKGROUND_CONTROL_TOOLS"

lemmas tool_tables = MUTATING_TOOLS_def WIKI_MUTATING_TOOLS_def WIKI_READONLY_TOOLS_def
  ASYNC_SUBAGENT_TOOLS_def READONLY_TOOLS_def BACKGROUND_START_TOOL_def BACKGROUND_CONTROL_TOOLS_def

definition interrupt_map :: "pystr list \<Rightarrow> bool \<Rightarrow> (pystr, bool) pydict" where
  "interrupt_map extra_tools include_async =
     fold (\<lambda>t. dput t True) (MUTATING_TOOLS @ READONLY_TOOLS @ extra_tools
       @ (if include_async then ASYNC_SUBAGENT_TOOLS else [])) []"

section \<open>Actions\<close>

definition mcp_prefix :: pystr where "mcp_prefix = u ''mcp__''"

definition is_known_network_tool :: "pystr \<Rightarrow> bool" where
  "is_known_network_tool n \<longleftrightarrow> n = u ''web_fetch'' \<or> n = u ''web_search'' \<or> startswith n mcp_prefix
     \<or> n \<in> set ASYNC_SUBAGENT_TOOLS"

text \<open>\<^verbatim>\<open>s.split("__", 1)\<close>: the text before the first separator, and the text after it if any.\<close>

fun split_dunder :: "pystr \<Rightarrow> pystr \<times> pystr option" where
  "split_dunder [] = ([], None)"
| "split_dunder (c # cs) =
     (if startswith (c # cs) [95, 95] then ([], Some (drop 1 cs))
      else (let (a, b) = split_dunder cs in (c # a, b)))"

definition clip :: "pystr \<Rightarrow> pystr" where
  "clip s = (if length s \<le> 120 then s else take 117 s @ u ''...'')"

definition network_target :: "pyuni \<Rightarrow> pystr \<Rightarrow> args \<Rightarrow> pystr" where
  "network_target U tool_name args =
     (let arrow = [32, 8594, 32]; preview = stringify U args in
      if tool_name = u ''web_fetch'' then
        (let url = aget_or U args [''url''] (JStr [])
         in if truthy U url then tool_name @ arrow @ py_str U url else tool_name)
      else if tool_name = u ''web_search'' then
        (let query = aget_or U args [''query'', ''q''] (JStr [])
         in if truthy U query then tool_name @ arrow @ py_repr U query else tool_name)
      else if startswith tool_name mcp_prefix then
        (let (server, rest) = split_dunder (drop 5 tool_name);
             tl_name = (case rest of None \<Rightarrow> tool_name | Some r \<Rightarrow> r);
             base = u ''mcp/'' @ server @ u ''/'' @ tl_name
         in if preview \<noteq> [] then base @ u '' ('' @ clip preview @ u '')'' else base)
      else if tool_name \<in> set ASYNC_SUBAGENT_TOOLS then
        (if preview \<noteq> [] then tool_name @ u '' ('' @ clip preview @ u '')'' else tool_name)
      else tool_name)"

definition mk_action :: "ActionKind \<Rightarrow> pystr \<Rightarrow> pystr \<Rightarrow> pystr list \<Rightarrow> Action" where
  "mk_action k t n rts = \<lparr>kind = k, target = t, tool = Some n, read_targets = rts\<rparr>"

definition tool_to_action :: "pyuni \<Rightarrow> pystr \<Rightarrow> args \<Rightarrow> Action" where
  "tool_to_action U tool_name args =
     (if tool_name = u ''execute'' \<or> tool_name = BACKGROUND_START_TOOL then
        mk_action SHELL (py_str U (aget_or U args [''command'', ''cmd''] (JStr (stringify U args)))) tool_name []
      else if tool_name \<in> set BACKGROUND_CONTROL_TOOLS then
        mk_action READ (py_str U (aget_or U args [''id''] (JStr (u ''bg'')))) tool_name []
      else if tool_name = u ''write_file'' \<or> tool_name = u ''edit_file'' then
        mk_action WRITE (py_str U (aget_or U args [''file_path'', ''path'', ''filename''] (JStr []))) tool_name []
      else if tool_name \<in> set READONLY_TOOLS then
        (let path = py_str U (aget_or U args [''file_path'', ''path''] (JStr []));
             file_glob = (if tool_name = u ''grep'' then py_str U (aget_or U args [''glob''] (JStr []))
                          else if tool_name = u ''glob'' then py_str U (aget_or U args [''pattern''] (JStr []))
                          else []);
             primary = (if path \<noteq> [] then path else file_glob)
         in mk_action READ primary tool_name (filter (\<lambda>t. t \<noteq> []) [path, file_glob]))
      else if tool_name \<in> set WIKI_MUTATING_TOOLS then
        mk_action WRITE (py_str U (aget_or U args [''page'', ''name''] (JStr []))) tool_name []
      else if tool_name \<in> set WIKI_READONLY_TOOLS then
        mk_action READ (py_str U (aget_or U args [''query'', ''page''] (JStr []))) tool_name []
      else if tool_name = u ''repo_map'' then
        mk_action READ (py_str U (aget_or U args [''focus''] (JStr (u ''repo'')))) tool_name []
      else mk_action NETWORK (network_target U tool_name args) tool_name [])"

text \<open>\<^verbatim>\<open>_safe_tool_name\<close>, the label written to the log for an unknown tool.\<close>

definition safe_tool_name :: "pystr \<Rightarrow> pystr" where
  "safe_tool_name n =
     (let value = concat (map (\<lambda>c. if c = 13 then [92, 114] else if c = 10 then [92, 110] else [c]) n)
      in if length value > 128 then take 125 value @ u ''...'' else value)"

section \<open>Lemmas\<close>

lemma mk_action_simps [simp]:
  "kind (mk_action k t n r) = k" "target (mk_action k t n r) = t"
  "tool (mk_action k t n r) = Some n" "read_targets (mk_action k t n r) = r"
  by (simp_all add: mk_action_def)

lemma dget_fold_True:
  "dget (fold (\<lambda>t. dput t True) ts d) k = (if k \<in> set ts then Some True else dget d k)"
  by (induction ts arbitrary: d) (auto simp: dget_dput)

lemma startswith_mcp: "startswith n mcp_prefix \<Longrightarrow> \<exists>t. n = u ''mcp__'' @ t"
  by (auto simp: startswith_iff mcp_prefix_def)

lemma action_kind_table:
  "kind (tool_to_action U n args) =
     (if n \<in> {u ''execute'', u ''run_in_background''} then SHELL
      else if n \<in> {u ''write_file'', u ''edit_file'', u ''wiki_write'', u ''wiki_append''} then WRITE
      else if n \<in> {u ''read_file'', u ''ls'', u ''glob'', u ''grep'', u ''check_background'',
             u ''kill_background'', u ''list_background'', u ''wiki_search'', u ''wiki_read'', u ''repo_map''}
      then READ else NETWORK)
   \<and> tool (tool_to_action U n args) = Some n"
  unfolding tool_to_action_def Let_def by (simp add: tool_tables)

lemma mcp_tool_network:
  assumes "startswith n (u ''mcp__'')"
  shows "kind (tool_to_action U n args) = NETWORK"
proof -
  obtain t where n: "n = u ''mcp__'' @ t" using assms by (auto simp: startswith_iff)
  have "u ''mcp__'' @ t \<noteq> u w" if "take 5 w \<noteq> ''mcp__''" for w
  proof
    assume "u ''mcp__'' @ t = u w"
    from arg_cong[OF this, of "take 5"] have "u ''mcp__'' = u (take 5 w)"
      by (simp add: u_def take_map)
    with that show False by simp
  qed
  then show ?thesis unfolding n action_kind_table[THEN conjunct1] by simp
qed

section \<open>Properties\<close>

text \<open>
  Every tool call is classified: the two tools that start processes are shell actions, file and
  wiki writers are writes, the fixed table of readers are reads, and everything else, every
  \<^verbatim>\<open>mcp__\<close> tool and every unknown tool included, is a network action. The action carries the
  tool's name.
\<close>

theorem tool_to_action_kind:
  "kind (tool_to_action U n args) =
     (if n \<in> {u ''execute'', u ''run_in_background''} then SHELL
      else if n \<in> {u ''write_file'', u ''edit_file'', u ''wiki_write'', u ''wiki_append''} then WRITE
      else if n \<in> {u ''read_file'', u ''ls'', u ''glob'', u ''grep'', u ''check_background'',
             u ''kill_background'', u ''list_background'', u ''wiki_search'', u ''wiki_read'', u ''repo_map''}
      then READ else NETWORK)
   \<and> tool (tool_to_action U n args) = Some n"
  by (rule action_kind_table)

text \<open>
  A tool loaded from an MCP server can never pass as a built-in reader, writer or shell: whatever
  its arguments, it is judged as a network action, so in plan mode it is denied unless an allow
  rule matches it.
\<close>

theorem mcp_tool_gated:
  assumes "startswith n (u ''mcp__'')" "mode E = PLAN"
    and "\<not> matches H E (tool_to_action U n args) (all_allow E)"
  shows "\<exists>r. evaluate U H E (tool_to_action U n args) = Inr r \<and> decision r = DENY"
  using assms(2,3) mcp_tool_network[OF assms(1), of U args]
  by (simp add: evaluate_def guard_for_def Let_def canonicalized_other mode_decision_def
      touches_secret_store_def)

theorem mcp_tool_gated_witness:
  "\<exists>r. evaluate ascii_uni user_host (project_engine PLAN [] [])
        (tool_to_action ascii_uni (u ''mcp__srv__wiki_read'') [(u ''page'', JStr (u ''x''))]) = Inr r
      \<and> decision r = DENY"
  by (rule mcp_tool_gated) (code_simp, simp add: project_engine_def, code_simp)

text \<open>
  A benign search path cannot hide a sensitive glob: the file filter of a \<^verbatim>\<open>grep\<close> or the pattern
  of a \<^verbatim>\<open>glob\<close> is itself one of the candidates the engine judges, next to the path.
\<close>

theorem search_glob_is_candidate:
  assumes "n = u ''grep'' \<and> g = py_str U (aget_or U args [''glob''] (JStr []))
        \<or> n = u ''glob'' \<and> g = py_str U (aget_or U args [''pattern''] (JStr []))"
  shows "set (read_candidates (tool_to_action U n args)) =
     {py_str U (aget_or U args [''file_path'', ''path''] (JStr [])), g} - {[]}"
  using assms
  by (elim disjE conjE) (auto simp: tool_to_action_def tool_tables read_candidates_set Let_def)

theorem search_glob_is_candidate_witness:
  "set (read_candidates (tool_to_action ascii_uni (u ''grep'')
       [(u ''pattern'', JStr (u ''KEY'')), (u ''path'', JStr (u ''/repo'')), (u ''glob'', JStr (u ''**/.env''))])) =
   {py_str ascii_uni (aget_or ascii_uni [(u ''pattern'', JStr (u ''KEY'')), (u ''path'', JStr (u ''/repo'')),
       (u ''glob'', JStr (u ''**/.env''))] [''file_path'', ''path''] (JStr [])), u ''**/.env''} - {[]}"
  by (rule search_glob_is_candidate) code_simp

text \<open>
  Every built-in mutating and reading tool is gated in every mode, whatever extra tools are
  configured, and the extra tools are gated too.
\<close>

theorem interrupt_map_gates:
  "dget (interrupt_map extra include_async) t =
     (if t \<in> set MUTATING_TOOLS \<union> set READONLY_TOOLS \<union> set extra
         \<union> (if include_async then set ASYNC_SUBAGENT_TOOLS else {}) then Some True else None)"
  by (simp add: interrupt_map_def dget_fold_True)

end
