(* ===== verification/Rule_Store.thy ===== *)
theory Rule_Store
  imports Bridge "HOL-Library.Countable"
begin

text \<open>
  The persisted allow rules, \<^verbatim>\<open>src/src/jarn/permissions/rule_store.py\<close>, over the fail-closed YAML
  store \<^verbatim>\<open>src/src/jarn/config/yaml_store.py\<close>. The file system is a map from paths to files; a file
  that cannot be read is \<open>FUnreadable\<close>. Parsing and printing YAML (\<^verbatim>\<open>ruamel.yaml\<close>) is the record
  \<open>yaml\<close>, whose documented round trip is \<open>yaml_ok\<close>. The lock of \<^verbatim>\<open>add_allow\<close> makes it one
  atomic step, which is what a single function is.
\<close>

section \<open>Files\<close>

datatype fnode = FText pystr | FUnreadable

type_synonym fs = "(pystr, fnode) pydict"

datatype store_error = ConfigCorruptError | OSError | TypeError

record yaml =
  y_load :: "pystr \<Rightarrow> json option"
  y_dump :: "json \<Rightarrow> pystr"

definition yaml_ok :: "yaml \<Rightarrow> bool" where
  "yaml_ok Y \<longleftrightarrow> (\<forall>d. y_load Y (y_dump Y d) = Some d)"

definition backup_path :: "pystr \<Rightarrow> pystr" where
  "backup_path p = p @ u ''.bak''"

definition backup_path1 :: "pystr \<Rightarrow> pystr" where
  "backup_path1 p = p @ u ''.bak.1''"

text \<open>\<^verbatim>\<open>rotate_backup\<close>: the files after it, and \<open>Inl\<close> when copying the file fails.\<close>

definition rotate_backup :: "pystr \<Rightarrow> fs \<Rightarrow> fs \<times> (store_error + pystr option)" where
  "rotate_backup p F =
     (case dget F p of None \<Rightarrow> (F, Inr None)
      | Some node \<Rightarrow>
         let bak = backup_path p;
             F1 = (case dget F bak of None \<Rightarrow> F | Some b \<Rightarrow> dput (backup_path1 p) b (dpop bak F))
         in case node of FUnreadable \<Rightarrow> (F1, Inl OSError)
            | FText t \<Rightarrow> (dput bak (FText t) F1, Inr (Some bak)))"

text \<open>\<^verbatim>\<open>raise _corrupt(path, ...)\<close>\<close>

definition corrupt :: "pystr \<Rightarrow> fs \<Rightarrow> fs \<times> store_error" where
  "corrupt p F = (case rotate_backup p F of (F', Inl e) \<Rightarrow> (F', e) | (F', Inr _) \<Rightarrow> (F', ConfigCorruptError))"

definition load_yaml_doc :: "yaml \<Rightarrow> pystr \<Rightarrow> fs \<Rightarrow> fs \<times> (store_error + (pystr, json) pydict)" where
  "load_yaml_doc Y p F =
     (let bad = (case corrupt p F of (F', e) \<Rightarrow> (F', Inl e))
      in case dget F p of
           None \<Rightarrow> (F, Inr [])
         | Some FUnreadable \<Rightarrow> bad
         | Some (FText t) \<Rightarrow>
             (case y_load Y t of
                None \<Rightarrow> bad
              | Some JNull \<Rightarrow> (F, Inr [])
              | Some (JObj d) \<Rightarrow> (F, Inr d)
              | Some _ \<Rightarrow> bad))"

definition atomic_write_yaml :: "yaml \<Rightarrow> pystr \<Rightarrow> (pystr, json) pydict \<Rightarrow> fs \<Rightarrow> fs \<times> (store_error + unit)" where
  "atomic_write_yaml Y p d F =
     (case rotate_backup p F of
        (F', Inl e) \<Rightarrow> (F', Inl e)
      | (F', Inr _) \<Rightarrow> (dput p (FText (y_dump Y (JObj d))) F', Inr ()))"

section \<open>The rule store\<close>

text \<open>\<^verbatim>\<open>list(allow) if allow else []\<close> for a value that is not a list: a string gives its
  characters, a mapping its keys, and \<^verbatim>\<open>list\<close> of a number or a boolean raises.\<close>

definition as_list :: "pyuni \<Rightarrow> json \<Rightarrow> store_error + json list" where
  "as_list U v =
     (case v of JList xs \<Rightarrow> Inr xs
      | _ \<Rightarrow> if \<not> truthy U v then Inr []
            else (case v of JStr s \<Rightarrow> Inr (map (\<lambda>c. JStr [c]) s)
                  | JObj kvs \<Rightarrow> Inr (map (\<lambda>(k, _). JStr k) kvs)
                  | _ \<Rightarrow> Inl TypeError))"

definition perms_of :: "(pystr, json) pydict \<Rightarrow> (pystr, json) pydict" where
  "perms_of d = (case dget d (u ''permissions'') of Some (JObj p) \<Rightarrow> p | _ \<Rightarrow> [])"

definition add_allow :: "pyuni \<Rightarrow> yaml \<Rightarrow> pystr option \<Rightarrow> pystr \<Rightarrow> fs \<Rightarrow> fs \<times> (store_error + bool)" where
  "add_allow U Y config_path rule F =
     (case config_path of None \<Rightarrow> (F, Inr False)
      | Some p \<Rightarrow>
         if rule = [] then (F, Inr False)
         else (case load_yaml_doc Y p F of
             (F', Inl e) \<Rightarrow> (F', Inl e)
           | (F', Inr data) \<Rightarrow>
               let perms = perms_of data
               in (case as_list U (case dget perms (u ''allow'') of None \<Rightarrow> JNull | Some v \<Rightarrow> v) of
                     Inl e \<Rightarrow> (F', Inl e)
                   | Inr al \<Rightarrow>
                       if JStr rule \<in> set al then (F', Inr False)
                       else (let perms' = dput (u ''allow'') (JList (al @ [JStr rule])) perms;
                                 data' = dput (u ''permissions'') (JObj perms') data
                             in case atomic_write_yaml Y p data' F' of
                                  (F2, Inl e) \<Rightarrow> (F2, Inl e)
                                | (F2, Inr _) \<Rightarrow> (F2, Inr True)))))"

text \<open>The strings under \<^verbatim>\<open>permissions.allow\<close> of the file, as another process finds them.\<close>

definition stored_allow :: "yaml \<Rightarrow> pystr \<Rightarrow> fs \<Rightarrow> pystr list" where
  "stored_allow Y p F =
     (case load_yaml_doc Y p F of (_, Inr d) \<Rightarrow>
        (case dget (perms_of d) (u ''allow'') of
           Some (JList xs) \<Rightarrow> concat (map (\<lambda>v. case v of JStr s \<Rightarrow> [s] | _ \<Rightarrow> []) xs)
         | _ \<Rightarrow> [])
      | _ \<Rightarrow> [])"

text \<open>\<^verbatim>\<open>remember\<close> with the store wired as \<^verbatim>\<open>persist\<close>: \<^verbatim>\<open>ConfigCorruptError\<close> and \<^verbatim>\<open>OSError\<close> of the
  store are caught, any other error escapes.\<close>

definition remember_persist :: "pyuni \<Rightarrow> yaml \<Rightarrow> host \<Rightarrow> pystr option \<Rightarrow> PermissionEngine \<Rightarrow> Action
    \<Rightarrow> RememberScope \<Rightarrow> fs \<Rightarrow> PermissionEngine \<times> fs \<times> (store_error + pystr option)" where
  "remember_persist U Y H config_path E a scope F =
     (case remember H E a scope of
        (E', rule, None) \<Rightarrow> (E', F, Inr rule)
      | (E', rule, Some scoped_rule) \<Rightarrow>
          (case add_allow U Y config_path scoped_rule F of
             (F', Inl e) \<Rightarrow> (E', F', if e = TypeError then Inl e else Inr rule)
           | (F', Inr _) \<Rightarrow> (E', F', Inr rule)))"

section \<open>Lemmas\<close>

lemma backup_paths_distinct [simp]:
  "backup_path p \<noteq> p" "backup_path1 p \<noteq> p" "backup_path p \<noteq> backup_path1 p"
  "p \<noteq> backup_path p" "p \<noteq> backup_path1 p" "backup_path1 p \<noteq> backup_path p"
  by (simp_all add: backup_path_def backup_path1_def u_def)

lemma rotate_backup_keeps:
  "dict_ok F \<Longrightarrow> dget (fst (rotate_backup p F)) p = dget F p"
  by (auto simp: rotate_backup_def Let_def dget_dput dget_dpop split: option.split fnode.split)

lemma rotate_backup_ok: "dict_ok F \<Longrightarrow> dict_ok (fst (rotate_backup p F))"
  by (auto simp: rotate_backup_def Let_def dict_ok_dput dict_ok_dpop split: option.split fnode.split)

lemma rotate_backup_other:
  "dict_ok F \<Longrightarrow> q \<notin> {backup_path p, backup_path1 p} \<Longrightarrow> dget (fst (rotate_backup p F)) q = dget F q"
  by (auto simp: rotate_backup_def Let_def dget_dput dget_dpop split: option.split fnode.split)

lemma load_fs: "fst (load_yaml_doc Y p F) = F \<or> fst (load_yaml_doc Y p F) = fst (rotate_backup p F)"
  by (auto simp: load_yaml_doc_def corrupt_def Let_def split: option.split fnode.split json.split prod.split sum.split)

lemma load_Inr_fs: "load_yaml_doc Y p F = (F', Inr d) \<Longrightarrow> F' = F"
  by (auto simp: load_yaml_doc_def corrupt_def Let_def split: option.splits fnode.splits json.splits prod.splits sum.splits)

lemma load_readable: "load_yaml_doc Y p F = (F', Inr d) \<Longrightarrow> dget F p \<noteq> Some FUnreadable"
  by (auto simp: load_yaml_doc_def corrupt_def Let_def split: option.splits fnode.splits json.splits prod.splits sum.splits)

lemma write_ok:
  "dict_ok F \<Longrightarrow> dget F p \<noteq> Some FUnreadable \<Longrightarrow>
   \<exists>F'. atomic_write_yaml Y p d F = (F', Inr ()) \<and> dget F' p = Some (FText (y_dump Y (JObj d)))"
  by (auto simp: atomic_write_yaml_def rotate_backup_def Let_def dget_dput
      split: option.split fnode.split prod.split sum.split)

lemma load_written:
  "yaml_ok Y \<Longrightarrow> dget F p = Some (FText (y_dump Y (JObj d))) \<Longrightarrow> load_yaml_doc Y p F = (F, Inr d)"
  by (simp add: load_yaml_doc_def yaml_ok_def)

lemma add_allow_TrueE:
  assumes "add_allow U Y (Some p) rule F = (F', Inr True)" "dict_ok F"
  obtains d al where "load_yaml_doc Y p F = (F, Inr d)"
    "as_list U (case dget (perms_of d) (u ''allow'') of None \<Rightarrow> JNull | Some v \<Rightarrow> v) = Inr al"
    "JStr rule \<notin> set al" "rule \<noteq> []"
    "dget F' p = Some (FText (y_dump Y (JObj (dput (u ''permissions'')
        (JObj (dput (u ''allow'') (JList (al @ [JStr rule])) (perms_of d))) d))))"
    "F' = dput p (FText (y_dump Y (JObj (dput (u ''permissions'')
        (JObj (dput (u ''allow'') (JList (al @ [JStr rule])) (perms_of d))) d)))) (fst (rotate_backup p F))"
proof -
  have ne: "rule \<noteq> []" using assms(1) by (auto simp: add_allow_def split: if_splits)
  then obtain F1 d where l: "load_yaml_doc Y p F = (F1, Inr d)"
    using assms(1) by (auto simp: add_allow_def split: prod.splits sum.splits)
  have F1: "F1 = F" by (rule load_Inr_fs[OF l])
  let ?v = "case dget (perms_of d) (u ''allow'') of None \<Rightarrow> JNull | Some v \<Rightarrow> v"
  obtain al where al: "as_list U ?v = Inr al"
    using assms(1) ne by (cases "as_list U ?v") (simp_all add: add_allow_def l)
  have nin: "JStr rule \<notin> set al"
    using assms(1) ne by (auto simp: add_allow_def l al)
  let ?d = "dput (u ''permissions'') (JObj (dput (u ''allow'') (JList (al @ [JStr rule])) (perms_of d))) d"
  have w: "atomic_write_yaml Y p ?d F = (F', Inr ())"
    using assms(1) ne nin by (simp add: add_allow_def l al F1 Let_def split: prod.splits sum.splits)
  then have "F' = dput p (FText (y_dump Y (JObj ?d))) (fst (rotate_backup p F))"
    by (auto simp: atomic_write_yaml_def split: prod.splits sum.splits)
  with that[OF l[unfolded F1] al nin ne] show thesis by (simp add: dget_dput)
qed

lemma perms_of_put: "perms_of (dput (u ''permissions'') (JObj q) d) = q"
  by (simp add: perms_of_def dget_dput)

lemma stored_allow_written:
  assumes "yaml_ok Y" "dget F p = Some (FText (y_dump Y (JObj (dput (u ''permissions'')
      (JObj (dput (u ''allow'') (JList xs) q)) d))))"
  shows "stored_allow Y p F = concat (map (\<lambda>v. case v of JStr s \<Rightarrow> [s] | _ \<Rightarrow> []) xs)"
  by (simp add: stored_allow_def load_written[OF assms] perms_of_put dget_dput)

section \<open>Properties\<close>

text \<open>
  A rule that \<^verbatim>\<open>add_allow\<close> reports as written is found by the next reader of the file, together
  with every rule stored before; a second call changes nothing and reports so; and the previous
  contents of the file are in its backup.
\<close>

theorem add_allow_persists:
  assumes "add_allow U Y (Some p) rule F = (F', Inr True)" "dict_ok F" "yaml_ok Y"
  shows "rule \<in> set (stored_allow Y p F')
     \<and> set (stored_allow Y p F) \<subseteq> set (stored_allow Y p F')
     \<and> add_allow U Y (Some p) rule F' = (F', Inr False)
     \<and> (dget F p = None \<or> dget F' (backup_path p) = dget F p)"
proof -
  from assms(1,2) obtain d al where l: "load_yaml_doc Y p F = (F, Inr d)"
    and al: "as_list U (case dget (perms_of d) (u ''allow'') of None \<Rightarrow> JNull | Some v \<Rightarrow> v) = Inr al"
    and ne: "rule \<noteq> []"
    and w: "dget F' p = Some (FText (y_dump Y (JObj (dput (u ''permissions'')
        (JObj (dput (u ''allow'') (JList (al @ [JStr rule])) (perms_of d))) d))))"
    and F': "F' = dput p (FText (y_dump Y (JObj (dput (u ''permissions'')
        (JObj (dput (u ''allow'') (JList (al @ [JStr rule])) (perms_of d))) d)))) (fst (rotate_backup p F))"
    by (rule add_allow_TrueE)
  note st = stored_allow_written[OF assms(3) w]
  have 1: "rule \<in> set (stored_allow Y p F')" by (simp add: st)
  have 2: "set (stored_allow Y p F) \<subseteq> set (stored_allow Y p F')"
    using al by (auto simp: st stored_allow_def[of Y p F] l as_list_def split: option.splits json.splits)
  have 3: "add_allow U Y (Some p) rule F' = (F', Inr False)"
    using ne by (simp add: add_allow_def load_written[OF assms(3) w] perms_of_put dget_dput as_list_def)
  have 4: "dget F p = None \<or> dget F' (backup_path p) = dget F p"
    using load_readable[OF l]
    by (auto simp: F' dget_dput rotate_backup_def Let_def split: option.split fnode.split)
  from 1 2 3 4 show ?thesis by blast
qed

text \<open>
  A corrupt project configuration is never overwritten: when the file does not parse, or its top
  level is no mapping, \<^verbatim>\<open>add_allow\<close> raises, the file keeps its contents, and a backup has them.
\<close>

theorem add_allow_corrupt_untouched:
  assumes "dget F p = Some (FText t)" "dict_ok F" "rule \<noteq> []"
    and "case y_load Y t of None \<Rightarrow> True | Some JNull \<Rightarrow> False | Some (JObj _) \<Rightarrow> False | Some _ \<Rightarrow> True"
  shows "\<exists>F'. add_allow U Y (Some p) rule F = (F', Inl ConfigCorruptError)
     \<and> dget F' p = Some (FText t) \<and> dget F' (backup_path p) = Some (FText t)"
proof -
  obtain F' where r: "rotate_backup p F = (F', Inr (Some (backup_path p)))"
    and b: "dget F' (backup_path p) = Some (FText t)"
    using assms(1) by (auto simp: rotate_backup_def Let_def dget_dput)
  have "load_yaml_doc Y p F = (F', Inl ConfigCorruptError)"
    using assms(1,4) r by (auto simp: load_yaml_doc_def corrupt_def split: option.splits json.splits)
  moreover have "dget F' p = Some (FText t)"
    using rotate_backup_keeps[OF assms(2), of p] r assms(1) by simp
  ultimately show ?thesis using b assms(3) by (simp add: add_allow_def)
qed


section \<open>Examples\<close>

instance json :: countable
  by countable_datatype

text \<open>A storage format with the round trip: the number of the document.\<close>

definition number_yaml :: yaml where
  "number_yaml = \<lparr>y_load = (\<lambda>t. case t of [n] \<Rightarrow> Some (from_nat (nat n)) | _ \<Rightarrow> None),
     y_dump = (\<lambda>d. [int (to_nat d)])\<rparr>"

lemma number_yaml_ok: "yaml_ok number_yaml"
  by (simp add: yaml_ok_def number_yaml_def)

lemma add_allow_missing:
  "rule \<noteq> [] \<Longrightarrow> add_allow U Y (Some p) rule [] =
     ([(p, FText (y_dump Y (JObj [(u ''permissions'', JObj [(u ''allow'', JList [JStr rule])])])))], Inr True)"
  by (simp add: add_allow_def load_yaml_doc_def perms_of_def as_list_def atomic_write_yaml_def rotate_backup_def)

theorem add_allow_persists_witness:
  "u ''npm test'' \<in> set (stored_allow number_yaml (u ''c.yaml'')
      (fst (add_allow ascii_uni number_yaml (Some (u ''c.yaml'')) (u ''npm test'') [])))"
  using add_allow_persists[OF add_allow_missing[of "u ''npm test''" ascii_uni number_yaml "u ''c.yaml''"]
      dict_ok_Nil number_yaml_ok]
  by (simp add: add_allow_missing)

theorem add_allow_corrupt_untouched_witness:
  "\<exists>F'. add_allow ascii_uni number_yaml (Some (u ''c.yaml'')) (u ''ls'') [(u ''c.yaml'', FText (u ''{x''))]
       = (F', Inl ConfigCorruptError)
     \<and> dget F' (u ''c.yaml'') = Some (FText (u ''{x'')) \<and> dget F' (backup_path (u ''c.yaml'')) = Some (FText (u ''{x''))"
  by (rule add_allow_corrupt_untouched) (simp_all add: dict_ok_def number_yaml_def u_def)

definition persist_engine :: "PermissionMode \<Rightarrow> pystr list \<Rightarrow> PermissionEngine" where
  "persist_engine m al = (project_engine m al [])\<lparr>has_persist := True\<rparr>"


end
