(* ===== verification/Gate.thy ===== *)
theory Gate
  imports Engine
begin

text \<open>
  The engine over a session: the contract that the session driver relies on, as the locale
  \<open>permission_gate\<close>, its consequences for every sequence of remembered approvals, rejections and
  mode changes, and its interpretation on the engine of \<^verbatim>\<open>src/src/jarn/permissions/engine.py\<close>.
\<close>

section \<open>The contract\<close>

datatype 'a gate_op = Remember 'a RememberScope | Reject 'a | SetMode PermissionMode

locale permission_gate =
  fixes ev :: "'e \<Rightarrow> 'a \<Rightarrow> exn + PermissionResult"
    and remem :: "'e \<Rightarrow> 'a \<Rightarrow> RememberScope \<Rightarrow> 'e"
    and reject :: "'e \<Rightarrow> 'a \<Rightarrow> 'e"
    and set_mode :: "'e \<Rightarrow> PermissionMode \<Rightarrow> 'e"
    and ok :: "'e \<Rightarrow> 'a \<Rightarrow> bool"
    and barred :: "'e \<Rightarrow> 'a \<Rightarrow> bool"
    and hard :: "'e \<Rightarrow> 'a \<Rightarrow> bool"
  assumes barred_denied: "barred e a \<Longrightarrow> \<exists>r. ev e a = Inr r \<and> decision r = DENY"
    and barred_reject: "ok e a \<Longrightarrow> barred (reject e a) a"
    and barred_keep: "barred e b \<Longrightarrow> barred (remem e a s) b" "barred e b \<Longrightarrow> barred (reject e a) b"
      "barred e b \<Longrightarrow> barred (set_mode e m) b"
    and hard_denied: "hard e a \<Longrightarrow> \<exists>r. ev e a = Inr r \<and> decision r = DENY \<and> block_remember_always r"
    and hard_keep: "hard (remem e a s) b = hard e b" "hard (reject e a) b = hard e b"
      "hard (set_mode e m) b = hard e b"
    and remem_up: "result_le (ev e b) (ev (remem e a s) b)"
    and reject_down: "result_le (ev (reject e a) b) (ev e b)"
begin

primrec step :: "'a gate_op \<Rightarrow> 'e \<Rightarrow> 'e" where
  "step (Remember a s) e = remem e a s"
| "step (Reject a) e = reject e a"
| "step (SetMode m) e = set_mode e m"

definition run :: "'a gate_op list \<Rightarrow> 'e \<Rightarrow> 'e" where
  "run ops e = fold step ops e"

lemma barred_run: "barred e a \<Longrightarrow> barred (run ops e) a"
proof (induction ops arbitrary: e)
  case (Cons p ops)
  then show ?case by (cases p) (simp_all add: run_def barred_keep)
qed (simp add: run_def)

lemma hard_run: "hard (run ops e) a = hard e a"
proof (induction ops arbitrary: e)
  case (Cons p ops)
  then show ?case by (cases p) (simp_all add: run_def hard_keep)
qed (simp add: run_def)

lemma rejected_forever:
  "ok e a \<Longrightarrow> \<exists>r. ev (run ops (reject e a)) a = Inr r \<and> decision r = DENY"
  by (rule barred_denied[OF barred_run[OF barred_reject]])

lemma hard_forever:
  "hard e a \<Longrightarrow> \<exists>r. ev (run ops e) a = Inr r \<and> decision r = DENY \<and> block_remember_always r"
  by (rule hard_denied) (simp add: hard_run)

lemma result_le_trans [trans]: "result_le x y \<Longrightarrow> result_le y z \<Longrightarrow> result_le x z"
  by (cases x; cases y; cases z) (auto simp: result_le_def)

lemma result_le_refl [simp]: "result_le x x"
  by (cases x) (auto simp: result_le_def)

lemma approvals_only_widen:
  "list_all (\<lambda>p. \<exists>b s. p = Remember b s) ops \<Longrightarrow> result_le (ev e a) (ev (run ops e) a)"
proof (induction ops arbitrary: e)
  case (Cons p ops)
  then obtain b s where p: "p = Remember b s" by auto
  have "result_le (ev e a) (ev (remem e b s) a)" by (rule remem_up)
  also have "result_le (ev (remem e b s) a) (ev (run ops (remem e b s)) a)" using Cons by auto
  finally show ?case by (simp add: run_def p)
qed (simp add: run_def)

lemma rejections_only_narrow:
  "list_all (\<lambda>p. \<exists>b. p = Reject b) ops \<Longrightarrow> result_le (ev (run ops e) a) (ev e a)"
proof (induction ops arbitrary: e)
  case (Cons p ops)
  then obtain b where p: "p = Reject b" by auto
  have "result_le (ev (run ops (reject e b)) a) (ev (reject e b) a)" using Cons by auto
  also have "result_le (ev (reject e b) a) (ev e a)" by (rule reject_down)
  finally show ?case by (simp add: run_def p)
qed (simp add: run_def)

end

section \<open>The engine keeps the contract\<close>

definition approve :: "host \<Rightarrow> PermissionEngine \<Rightarrow> Action \<Rightarrow> RememberScope \<Rightarrow> PermissionEngine" where
  "approve H E a s = fst (remember H E a s)"

definition with_mode :: "PermissionEngine \<Rightarrow> PermissionMode \<Rightarrow> PermissionEngine" where
  "with_mode E m = E\<lparr>mode := m\<rparr>"

definition deny_matched :: "pyuni \<Rightarrow> host \<Rightarrow> PermissionEngine \<Rightarrow> Action \<Rightarrow> bool" where
  "deny_matched U H E a \<longleftrightarrow> (\<exists>g. guard_for U H E (canonicalized_action H E a) = Inr g)
     \<and> matches H E (canonicalized_action H E a) (all_deny E)"

text \<open>An action a session rule can name: the guard judges it, its text is a sequence of code
  points, and a read target has no backslash (which would be normalised away when it is matched).\<close>

definition nameable :: "pyuni \<Rightarrow> host \<Rightarrow> PermissionEngine \<Rightarrow> Action \<Rightarrow> bool" where
  "nameable U H E a \<longleftrightarrow> (\<exists>g. guard_for U H E (canonicalized_action H E a) = Inr g)
     \<and> scope_text_ok H E a \<and> rule_for H E a \<noteq> [] \<and> (kind a = READ \<longrightarrow> 92 \<notin> set (rule_for H E a))"

lemma canonicalized_target:
  "kind a = READ \<Longrightarrow> target (canonicalized_action H E a) = rule_for H E a"
  by (simp add: canonicalized_action_def rule_for_def canonical_read_target_def split: option.split)

lemma replace_chr_absent: "x \<notin> set s \<Longrightarrow> replace_chr x y s = s"
  by (auto simp: replace_chr_def intro: map_idI)

lemma read_candidate_matches_self:
  assumes "92 \<notin> set c" "c \<in> set ps"
  shows "read_candidate_matches H E c ps"
proof -
  have "c \<in> set (fst (read_alias_set H E c))"
    using replace_chr_absent[OF assms(1), of 47]
    by (auto simp: read_alias_set_def Let_def split: option.split)
  moreover have "c \<in> set (expand_read_patterns E ps)"
    using expand_read_patterns_self assms(2) by blast
  ultimately show ?thesis
    unfolding read_candidate_matches_def by (auto simp: list_ex_iff split_beta)
qed

lemma own_rule_matches_canonical:
  assumes ok: "nameable U H E a" and r: "scoped_rule_for H E a (rule_for H E a) \<in> set rs"
  shows "matches H E (canonicalized_action H E a) rs"
proof (cases "kind a = READ")
  case True
  have ne: "rule_for H E a \<noteq> []" and b: "92 \<notin> set (rule_for H E a)" and st: "scope_text_ok H E a"
    using ok True by (auto simp: nameable_def)
  have "rule_for H E a \<in> set (applicable_patterns H E (canonicalized_action H E a) rs)"
    using own_rule_applies[OF st ne r] by (simp add: applicable_patterns_def)
  moreover have "rule_for H E a \<in> set (read_candidates (canonicalized_action H E a))"
    using ne by (simp add: read_candidates_set canonicalized_target[OF True])
  ultimately show ?thesis
    using read_candidate_matches_self[OF b] True by (auto simp: matches_def list_ex_iff)
next
  case False
  then show ?thesis
    using own_rule_matches[OF _ _ False r] ok by (auto simp: nameable_def canonicalized_other)
qed

lemma deny_matched_mono:
  assumes "same_scope F E" "set (all_deny E) \<subseteq> set (all_deny F)" "deny_matched U H E a"
  shows "deny_matched U H F a"
  using assms(3) matches_mono[OF assms(2)] unfolding deny_matched_def same_scope_actions[OF assms(1)] by blast

lemma floor_hit_same_scope: "same_scope F E \<Longrightarrow> floor_hit U H F a = floor_hit U H E a"
  unfolding floor_hit_def by (simp add: same_scope_actions same_scope_secret)

lemma session_ops_scope [simp]:
  "same_scope (approve H E a s) E" "same_scope (deny_session_op H E a) E" "same_scope (with_mode E m) E"
  by (simp_all add: approve_def remember_state deny_session_op_def with_mode_def)

lemma session_ops_rules:
  "all_deny (approve H E a s) = all_deny E" "all_deny (with_mode E m) = all_deny E"
  "set (all_deny (deny_session_op H E a)) = insert (scoped_rule_for H E a (rule_for H E a)) (set (all_deny E))"
  "set (all_allow E) \<subseteq> set (all_allow (approve H E a s))" "all_allow (deny_session_op H E a) = all_allow E"
  "sensitive_read_globs (rules (approve H E a s)) = sensitive_read_globs (rules E)"
  "sensitive_read_globs (rules (deny_session_op H E a)) = sensitive_read_globs (rules E)"
  "mode (approve H E a s) = mode E" "mode (deny_session_op H E a) = mode E"
  by (auto simp: approve_def remember_state deny_session_op_def with_mode_def all_deny_def all_allow_def)

lemma nameable_reject: "nameable U H E a \<Longrightarrow> deny_matched U H (deny_session_op H E a) a"
  unfolding deny_matched_def same_scope_actions[OF session_ops_scope(2)]
  using own_rule_matches_canonical[of U H E a "all_deny (deny_session_op H E a)"]
  by (simp add: session_ops_rules nameable_def)

interpretation engine: permission_gate "evaluate U H" "approve H" "deny_session_op H" with_mode
    "nameable U H" "deny_matched U H" "floor_hit U H" for U H
proof unfold_locales
  fix E a b s m
  show "deny_matched U H E a \<Longrightarrow> \<exists>r. evaluate U H E a = Inr r \<and> decision r = DENY"
    by (auto simp: deny_matched_def evaluate_def Let_def)
  show "nameable U H E a \<Longrightarrow> deny_matched U H (deny_session_op H E a) a"
    by (rule nameable_reject)
  show "deny_matched U H E b \<Longrightarrow> deny_matched U H (approve H E a s) b"
    and "deny_matched U H E b \<Longrightarrow> deny_matched U H (deny_session_op H E a) b"
    and "deny_matched U H E b \<Longrightarrow> deny_matched U H (with_mode E m) b"
    by (erule deny_matched_mono[rotated 2], simp, auto simp: session_ops_rules)+
  show "floor_hit U H E a \<Longrightarrow> \<exists>r. evaluate U H E a = Inr r \<and> decision r = DENY \<and> block_remember_always r"
    by (auto simp: floor_hit_def evaluate_def Let_def SECRET_STORE_DENIAL_def)
  show "floor_hit U H (approve H E a s) b = floor_hit U H E b"
    "floor_hit U H (deny_session_op H E a) b = floor_hit U H E b"
    "floor_hit U H (with_mode E m) b = floor_hit U H E b"
    by (simp_all add: floor_hit_same_scope)
  show "result_le (evaluate U H E b) (evaluate U H (approve H E a s) b)"
    by (rule evaluate_mono_aux)
       (use session_ops_scope(1)[of H E a s] in \<open>auto simp: session_ops_rules same_scope_def\<close>)
  show "result_le (evaluate U H (deny_session_op H E a) b) (evaluate U H E b)"
    by (rule evaluate_mono_aux) (auto simp: session_ops_rules)
qed

section \<open>Properties of a session\<close>

definition gate_step :: "host \<Rightarrow> Action gate_op \<Rightarrow> PermissionEngine \<Rightarrow> PermissionEngine" where
  "gate_step H p E = (case p of Remember a s \<Rightarrow> approve H E a s | Reject a \<Rightarrow> deny_session_op H E a
     | SetMode m \<Rightarrow> with_mode E m)"

definition gate_run :: "host \<Rightarrow> Action gate_op list \<Rightarrow> PermissionEngine \<Rightarrow> PermissionEngine" where
  "gate_run H ops E = fold (gate_step H) ops E"

lemma gate_run_engine: "gate_run H ops E = engine.run H ops E"
proof -
  have "gate_step H p = engine.step H p" for p
    by (cases p) (simp_all add: fun_eq_iff gate_step_def)
  then have "gate_step H = engine.step H" by blast
  then show ?thesis by (simp add: gate_run_def engine.run_def)
qed


lemma gate_example_nameable:
  "nameable ascii_uni user_host (project_engine MODE_ASK [] []) (action READ (u ''data.env.txt'') (Some (u ''read_file'')))"
  unfolding nameable_def
proof (intro conjI exI)
  show "guard_for ascii_uni user_host (project_engine MODE_ASK [] [])
      (canonicalized_action user_host (project_engine MODE_ASK [] []) (action READ (u ''data.env.txt'') (Some (u ''read_file''))))
      = Inr (verdict SAFE [])" by code_simp
  show "scope_text_ok user_host (project_engine MODE_ASK [] []) (action READ (u ''data.env.txt'') (Some (u ''read_file'')))"
    by code_simp
  show "rule_for user_host (project_engine MODE_ASK [] []) (action READ (u ''data.env.txt'') (Some (u ''read_file''))) \<noteq> []"
    by code_simp
  show "kind (action READ (u ''data.env.txt'') (Some (u ''read_file''))) = READ \<longrightarrow>
    92 \<notin> set (rule_for user_host (project_engine MODE_ASK [] []) (action READ (u ''data.env.txt'') (Some (u ''read_file''))))"
    by code_simp
qed


text \<open>
  Whatever is approved, rejected or switched during a session, an action on the hard floor (a
  blocked command, the secret store) stays denied and cannot be remembered.
\<close>

theorem floor_holds_all_session:
  assumes "floor_hit U H E a"
  shows "\<exists>r. evaluate U H (gate_run H ops E) a = Inr r \<and> decision r = DENY \<and> block_remember_always r"
  unfolding gate_run_engine by (rule engine.hard_forever[OF assms])

theorem floor_holds_all_session_witness:
  "\<exists>r. evaluate ascii_uni user_host (gate_run user_host
        [Remember (action READ (u ''~/.jarn/secrets/jarn/groq'') None) ALWAYS, SetMode YOLO] (project_engine PLAN [] []))
      (action READ (u ''~/.jarn/secrets/jarn/groq'') None) = Inr r \<and> decision r = DENY \<and> block_remember_always r"
proof (rule floor_holds_all_session)
  have "guard_for ascii_uni user_host (project_engine PLAN [] []) (canonicalized_action user_host (project_engine PLAN [] [])
      (action READ (u ''~/.jarn/secrets/jarn/groq'') None)) = Inr (verdict SAFE [])" by code_simp
  moreover have "touches_secret_store ascii_uni user_host (project_engine PLAN [] []) (canonicalized_action user_host
      (project_engine PLAN [] []) (action READ (u ''~/.jarn/secrets/jarn/groq'') None))" by code_simp
  ultimately show "floor_hit ascii_uni user_host (project_engine PLAN [] []) (action READ (u ''~/.jarn/secrets/jarn/groq'') None)"
    unfolding floor_hit_def by blast
qed

end
