(* ===== verification/Hooks.thy ===== *)
theory Hooks
  imports Prelude Fnmatch
begin

text \<open>
  Lifecycle hooks: \<^verbatim>\<open>src/src/jarn/extensibility/hooks.py\<close> and the environment boundary
  \<^verbatim>\<open>src/src/jarn/util/process_env.py\<close>. Running a shell command is a parameter \<open>sh\<close>: given
  the state of the outside world, the command and its environment, it answers with an outcome and
  the new state.
\<close>

section \<open>Data\<close>

datatype HookEvent = PRE_TOOL | POST_TOOL | POST_EDIT | PRE_COMMIT | SESSION_START | SESSION_END

fun hook_event_value :: "HookEvent \<Rightarrow> pystr" where
  "hook_event_value PRE_TOOL = u ''pre_tool''"
| "hook_event_value POST_TOOL = u ''post_tool''"
| "hook_event_value POST_EDIT = u ''post_edit''"
| "hook_event_value PRE_COMMIT = u ''pre_commit''"
| "hook_event_value SESSION_START = u ''session_start''"
| "hook_event_value SESSION_END = u ''session_end''"

record HookSpec =
  h_event :: pystr
  h_command :: pystr
  h_matcher :: "pystr option"
  h_blocking :: bool

record HookResult =
  spec :: HookSpec
  exit_code :: int
  hstdout :: pystr
  hstderr :: pystr

definition hook_ok :: "HookResult \<Rightarrow> bool" where
  "hook_ok r \<longleftrightarrow> exit_code r = 0"

definition should_abort :: "HookResult \<Rightarrow> bool" where
  "should_abort r \<longleftrightarrow> h_blocking (spec r) \<and> \<not> hook_ok r"

type_synonym env = "(pystr, pystr) pydict"

record HookRunner =
  hooks :: "HookSpec list"
  timeout_text :: pystr
  inherit_env :: bool

datatype proc_outcome = Completed int pystr pystr | TimeoutExpired | ProcOSError pystr

type_synonym 'x shell = "'x \<Rightarrow> pystr \<Rightarrow> env \<Rightarrow> proc_outcome \<times> 'x"

text \<open>The process: its environment, whether it is a frozen executable, and the platform.\<close>

record proc_env =
  os_environ :: env
  frozen :: bool
  platform_name :: pystr

section \<open>The environment of a hook\<close>

definition ALLOWED_ENV :: "pystr list" where
  "ALLOWED_ENV = map u [''PATH'', ''HOME'', ''USER'', ''LOGNAME'', ''SHELL'', ''TMPDIR'', ''TMP'',
     ''LANG'', ''LC_ALL'', ''LC_CTYPE'', ''TERM'', ''TZ'']"

definition put_all :: "env \<Rightarrow> env \<Rightarrow> env" where
  "put_all kvs d = fold (\<lambda>(k, v). dput k v) kvs d"

definition base_env :: "env \<Rightarrow> env" where
  "base_env os =
     put_all (filter (\<lambda>(k, v). startswith k (u ''JARN_'')) os)
       (put_all (concat (map (\<lambda>k. case dget os k of None \<Rightarrow> [] | Some v \<Rightarrow> [(k, v)]) ALLOWED_ENV)) [])"

definition has_key :: "env \<Rightarrow> pystr \<Rightarrow> bool" where
  "has_key d k \<longleftrightarrow> dget d k \<noteq> None"

definition external_command_env :: "proc_env \<Rightarrow> env \<Rightarrow> env" where
  "external_command_env P base =
     (let rewritten = (startswith (platform_name P) (u ''linux'') \<or> startswith (platform_name P) (u ''aix''))
            \<and> (frozen P \<or> has_key base (u ''_PYI_ARCHIVE_FILE'') \<or> has_key base (u ''LD_LIBRARY_PATH_ORIG''));
          env = (if rewritten then
                   (case dget base (u ''LD_LIBRARY_PATH_ORIG'') of
                      None \<Rightarrow> dpop (u ''LD_LIBRARY_PATH'') (dpop (u ''LD_LIBRARY_PATH_ORIG'') base)
                    | Some v \<Rightarrow> dput (u ''LD_LIBRARY_PATH'') v (dpop (u ''LD_LIBRARY_PATH_ORIG'') base))
                 else base)
      in dput (u ''PYINSTALLER_RESET_ENVIRONMENT'') (u ''1'') env)"

definition hook_env :: "proc_env \<Rightarrow> HookRunner \<Rightarrow> HookEvent \<Rightarrow> pystr option \<Rightarrow> env \<Rightarrow> env" where
  "hook_env P R event tgt extra =
     (let env = (if inherit_env R then os_environ P else base_env (os_environ P));
          env = dput (u ''JARN_HOOK_EVENT'') (hook_event_value event) env;
          env = (case tgt of Some t \<Rightarrow> if t \<noteq> [] then dput (u ''JARN_HOOK_TARGET'') t env else env
                 | None \<Rightarrow> env);
          env = put_all extra env
      in external_command_env P env)"

section \<open>Running hooks\<close>

definition for_event :: "HookRunner \<Rightarrow> HookEvent \<Rightarrow> pystr option \<Rightarrow> HookSpec list" where
  "for_event R event tgt =
     filter (\<lambda>h. h_event h = hook_event_value event
        \<and> \<not> (case (h_matcher h, tgt) of
               (Some m, Some t) \<Rightarrow> m \<noteq> [] \<and> \<not> fnmatch t m | _ \<Rightarrow> False)) (hooks R)"

definition run_one :: "'x shell \<Rightarrow> HookRunner \<Rightarrow> HookSpec \<Rightarrow> env \<Rightarrow> 'x \<Rightarrow> HookResult \<times> 'x" where
  "run_one sh R sp env x =
     (case sh x (h_command sp) env of
        (Completed rc out err, x') \<Rightarrow> (\<lparr>spec = sp, exit_code = rc, hstdout = out, hstderr = err\<rparr>, x')
      | (TimeoutExpired, x') \<Rightarrow> (\<lparr>spec = sp, exit_code = 124, hstdout = [],
            hstderr = u ''hook timed out after '' @ timeout_text R @ u ''s''\<rparr>, x')
      | (ProcOSError msg, x') \<Rightarrow> (\<lparr>spec = sp, exit_code = 127, hstdout = [], hstderr = msg\<rparr>, x'))"

fun run_specs :: "'x shell \<Rightarrow> HookRunner \<Rightarrow> env \<Rightarrow> HookSpec list \<Rightarrow> 'x \<Rightarrow> HookResult list \<times> 'x" where
  "run_specs sh R env [] x = ([], x)"
| "run_specs sh R env (sp # sps) x =
     (let (r, x1) = run_one sh R sp env x
      in if should_abort r then ([r], x1)
         else (let (rs, x2) = run_specs sh R env sps x1 in (r # rs, x2)))"

definition run_hooks :: "'x shell \<Rightarrow> proc_env \<Rightarrow> HookRunner \<Rightarrow> HookEvent \<Rightarrow> pystr option \<Rightarrow> env
    \<Rightarrow> 'x \<Rightarrow> HookResult list \<times> 'x" where
  "run_hooks sh P R event tgt extra x =
     run_specs sh R (hook_env P R event tgt extra) (for_event R event tgt) x"

section \<open>Lemmas\<close>

lemma keys_dput: "set (dkeys (dput k v d)) = insert k (set (dkeys d))"
  using dput_keys[of k v d] by (simp add: dkeys_def)

lemma keys_dpop: "set (dkeys (dpop k d)) \<subseteq> set (dkeys d)"
  using dpop_keys_subset[of k d] by (simp add: dkeys_def)

lemma put_all_keys: "set (dkeys (put_all kvs d)) = set (dkeys kvs) \<union> set (dkeys d)"
proof (induction kvs arbitrary: d)
  case (Cons x kvs)
  have "put_all (x # kvs) d = put_all kvs (dput (fst x) (snd x) d)"
    by (simp add: put_all_def split_beta)
  moreover have "set (dkeys (x # kvs)) = insert (fst x) (set (dkeys kvs))" by (simp add: dkeys_def)
  ultimately show ?case using Cons.IH by (simp add: keys_dput)
qed (simp add: put_all_def dkeys_def)

lemma base_env_keys:
  assumes "k \<in> set (dkeys (base_env os))"
  shows "k \<in> set ALLOWED_ENV \<or> startswith k (u ''JARN_'')"
proof -
  have 1: "set (dkeys (filter (\<lambda>(k, v). startswith k (u ''JARN_'')) os)) \<subseteq> {k. startswith k (u ''JARN_'')}"
    by (auto simp: dkeys_def)
  have 2: "set (dkeys (concat (map (\<lambda>k. case dget os k of None \<Rightarrow> [] | Some v \<Rightarrow> [(k, v)]) ks))) \<subseteq> set ks" for ks
    by (auto simp: dkeys_def split: option.splits)
  have 3: "set (dkeys []) = {}" by (simp add: dkeys_def)
  from assms 1 2[of ALLOWED_ENV] show ?thesis
    unfolding base_env_def put_all_keys 3 by blast
qed

lemma external_env_keys:
  "set (dkeys (external_command_env P base)) \<subseteq>
     insert (u ''PYINSTALLER_RESET_ENVIRONMENT'') (insert (u ''LD_LIBRARY_PATH'') (set (dkeys base)))"
  unfolding external_command_env_def Let_def
  using keys_dpop[of "u ''LD_LIBRARY_PATH_ORIG''" base]
    keys_dpop[of "u ''LD_LIBRARY_PATH''" "dpop (u ''LD_LIBRARY_PATH_ORIG'') base"]
  by (cases "dget base (u ''LD_LIBRARY_PATH_ORIG'')") (auto simp: keys_dput)

lemma run_specs_length: "length (fst (run_specs sh R env sps x)) \<le> length sps"
  by (induction sh R env sps x rule: run_specs.induct) (auto simp: Let_def split: prod.splits)

lemma run_one_spec: "spec (fst (run_one sh R sp env x)) = sp"
  by (auto simp: run_one_def split: prod.splits proc_outcome.splits)

lemma run_specs_prefix:
  "map spec (fst (run_specs sh R env sps x)) = take (length (fst (run_specs sh R env sps x))) sps"
proof (induction sh R env sps x rule: run_specs.induct)
  case (2 sh R env sp sps x)
  obtain r x1 where r: "run_one sh R sp env x = (r, x1)" by force
  have "spec r = sp" using run_one_spec[of sh R sp env x] r by simp
  with 2 r show ?case by (auto simp: Let_def split: prod.splits)
qed simp

lemma run_specs_abort_last:
  "\<not> list_ex should_abort (butlast (fst (run_specs sh R env sps x)))"
proof (induction sh R env sps x rule: run_specs.induct)
  case (2 sh R env sp sps x)
  obtain r x1 where r: "run_one sh R sp env x = (r, x1)" by force
  obtain rs x2 where rs: "run_specs sh R env sps x1 = (rs, x2)" by force
  from 2[OF r[symmetric]] r rs show ?case by auto
qed simp

lemma run_specs_complete:
  "\<not> list_ex should_abort (fst (run_specs sh R env sps x)) \<Longrightarrow>
   length (fst (run_specs sh R env sps x)) = length sps"
proof (induction sh R env sps x rule: run_specs.induct)
  case (2 sh R env sp sps x)
  obtain r x1 where r: "run_one sh R sp env x = (r, x1)" by force
  obtain rs x2 where rs: "run_specs sh R env sps x1 = (rs, x2)" by force
  from 2 r rs show ?case by (auto split: if_splits)
qed simp

section \<open>Properties\<close>

text \<open>
  Unless the user opts into inheriting it, the environment of a hook holds only the fixed
  allow-list, \<^verbatim>\<open>JARN_\<close> variables, the variables the caller declares, and the loader variables
  that the process boundary sets: no other exported variable, so no API key or token, reaches it.
\<close>

theorem hook_env_no_secrets:
  assumes "\<not> inherit_env R" "k \<in> set (dkeys (hook_env P R event tgt extra))"
  shows "k \<in> set ALLOWED_ENV \<or> startswith k (u ''JARN_'') \<or> k \<in> set (dkeys extra)
     \<or> k = u ''PYINSTALLER_RESET_ENVIRONMENT'' \<or> k = u ''LD_LIBRARY_PATH''"
proof -
  let ?b = "base_env (os_environ P)"
  have j: "startswith (u ''JARN_HOOK_EVENT'') (u ''JARN_'')" "startswith (u ''JARN_HOOK_TARGET'') (u ''JARN_'')"
    by code_simp+
  have "k \<in> set (dkeys extra) \<or> k = u ''JARN_HOOK_EVENT'' \<or> k = u ''JARN_HOOK_TARGET''
      \<or> k \<in> set (dkeys ?b) \<or> k = u ''PYINSTALLER_RESET_ENVIRONMENT'' \<or> k = u ''LD_LIBRARY_PATH''"
  proof -
    define env where "env = put_all extra (case tgt of Some t \<Rightarrow>
        if t \<noteq> [] then dput (u ''JARN_HOOK_TARGET'') t (dput (u ''JARN_HOOK_EVENT'') (hook_event_value event) ?b)
        else dput (u ''JARN_HOOK_EVENT'') (hook_event_value event) ?b
      | None \<Rightarrow> dput (u ''JARN_HOOK_EVENT'') (hook_event_value event) ?b)"
    have "k \<in> set (dkeys (external_command_env P env))"
      using assms by (simp add: hook_env_def Let_def env_def)
    then have "k \<in> set (dkeys env) \<or> k = u ''PYINSTALLER_RESET_ENVIRONMENT'' \<or> k = u ''LD_LIBRARY_PATH''"
      using external_env_keys[of P env] by blast
    then show ?thesis
      unfolding env_def by (cases tgt) (auto simp: put_all_keys keys_dput split: if_splits)
  qed
  then show ?thesis using base_env_keys[of k] j by blast
qed

theorem hook_env_no_secrets_witness:
  "u ''OPENAI_API_KEY'' \<notin> set (dkeys (hook_env
      \<lparr>os_environ = [(u ''OPENAI_API_KEY'', u ''sk''), (u ''PATH'', u ''/bin'')], frozen = False, platform_name = u ''linux''\<rparr>
      \<lparr>hooks = [], timeout_text = u ''120'', inherit_env = False\<rparr> PRE_TOOL (Some (u ''ls'')) []))"
proof
  assume "u ''OPENAI_API_KEY'' \<in> set (dkeys (hook_env
      \<lparr>os_environ = [(u ''OPENAI_API_KEY'', u ''sk''), (u ''PATH'', u ''/bin'')], frozen = False, platform_name = u ''linux''\<rparr>
      \<lparr>hooks = [], timeout_text = u ''120'', inherit_env = False\<rparr> PRE_TOOL (Some (u ''ls'')) []))"
  from hook_env_no_secrets[OF _ this]
  have "u ''OPENAI_API_KEY'' \<in> set ALLOWED_ENV \<or> startswith (u ''OPENAI_API_KEY'') (u ''JARN_'')"
    by (simp add: dkeys_def)
  moreover have "\<not> (u ''OPENAI_API_KEY'' \<in> set ALLOWED_ENV \<or> startswith (u ''OPENAI_API_KEY'') (u ''JARN_''))"
    by code_simp
  ultimately show False by blast
qed

text \<open>
  Hooks of an event run in the order they are declared, each at most once; only the last result
  can be a failed blocking hook, and if none is, every hook of the event was run.
\<close>

theorem run_hooks_order:
  "\<exists>n. map spec (fst (run_hooks sh P R event tgt extra x)) = take n (for_event R event tgt)
     \<and> \<not> list_ex should_abort (butlast (fst (run_hooks sh P R event tgt extra x)))
     \<and> (list_ex should_abort (fst (run_hooks sh P R event tgt extra x))
        \<or> n = length (for_event R event tgt))"
  unfolding run_hooks_def
  by (intro exI[of _ "length (fst (run_specs sh R (hook_env P R event tgt extra) (for_event R event tgt) x))"]
      conjI run_specs_prefix run_specs_abort_last) (meson run_specs_complete)

end
