(* ===== verification/Interrupts.thy ===== *)
theory Interrupts
  imports Bridge Hooks Gate
begin

text \<open>
  The resolution of interrupts, \<^verbatim>\<open>src/src/jarn/agent/interrupts.py\<close>, with the events and the
  approval contract of \<^verbatim>\<open>src/src/jarn/agent/events.py\<close>. A gated tool call goes through the special
  handoffs, the hooks, the permission engine and the approver to exactly one decision.

  The approver is a parameter: it sees the request, and answers with a reply; it may change its own
  state and the engine (it escalates the mode when a plan is approved). \<open>d_saved\<close> is the log of the
  rules handed to the engine's persistence sink.
\<close>

section \<open>Data\<close>

datatype EventKind = TEXT | REASONING | TOOL_START | TOOL_PROGRESS | TOOL_END | APPROVAL | NOTICE | ERROR | DONE

record Event =
  ekind :: EventKind
  etext :: pystr
  edata :: args

record SuggestedMemory =
  sm_name :: pystr
  sm_description :: pystr
  sm_body :: pystr
  sm_type :: pystr
  sm_scope :: pystr

record SuggestedSkill =
  ss_name :: pystr
  ss_description :: pystr
  ss_body :: pystr
  ss_trigger :: pystr

record ApprovalRequest =
  q_action :: Action
  q_result :: PermissionResult
  q_description :: pystr
  q_args :: args
  q_plan :: "pystr option"
  q_memory :: "SuggestedMemory option"
  q_skill :: "SuggestedSkill option"

record ApprovalReply =
  approved :: bool
  reply_scope :: RememberScope
  message :: pystr
  edited_args :: "args option"
  plan_mode_target :: "pystr option"

datatype tool_decision = Approve | RejectWith pystr | Edit pystr args

record ActionRequest =
  rq_action :: pystr
  rq_name :: pystr
  rq_args :: args
  rq_description :: pystr

record 'x driver =
  d_engine :: PermissionEngine
  d_hooks :: "HookRunner option"
  d_saved :: "pystr list"
  d_ext :: 'x

record 'x params =
  p_uni :: pyuni
  p_host :: host
  p_proc :: proc_env
  p_shell :: "'x shell"
  p_approver :: "ApprovalRequest \<Rightarrow> PermissionEngine \<Rightarrow> 'x \<Rightarrow> ApprovalReply \<times> PermissionEngine \<times> 'x"

text \<open>What a request yields: the pairs of an event and an optional decision, the driver after it,
  and the exception that ended it, if any.\<close>

type_synonym 'x outcome = "(Event \<times> tool_decision option) list \<times> 'x driver \<times> exn option"

definition ev :: "EventKind \<Rightarrow> pystr \<Rightarrow> args \<Rightarrow> Event" where
  "ev k t d = \<lparr>ekind = k, etext = t, edata = d\<rparr>"

definition target_data :: "pystr \<Rightarrow> args" where
  "target_data t = [(u ''target'', JStr t)]"

fun scope_value :: "RememberScope \<Rightarrow> pystr" where
  "scope_value ONCE = u ''once''"
| "scope_value SESSION = u ''session''"
| "scope_value ALWAYS = u ''always''"

section \<open>Commits\<close>

text \<open>\<^verbatim>\<open>shlex.split\<close> in POSIX mode: \<open>None\<close> is \<^verbatim>\<open>ValueError\<close> (no closing quotation, no escaped
  character).\<close>

datatype shlex_state = ShSpace | ShWord | ShQuote int | ShEsc "int option"

definition sh_ws :: "int \<Rightarrow> bool" where
  "sh_ws c \<longleftrightarrow> c = 32 \<or> c = 9 \<or> c = 13 \<or> c = 10"

definition sh_quote :: "int \<Rightarrow> bool" where
  "sh_quote c \<longleftrightarrow> c = 39 \<or> c = 34"

fun shlex_go :: "shlex_state \<Rightarrow> pystr \<Rightarrow> bool \<Rightarrow> pystr \<Rightarrow> pystr list option" where
  "shlex_go ShSpace tok q [] = Some []"
| "shlex_go ShWord tok q [] = Some (if tok \<noteq> [] \<or> q then [rev tok] else [])"
| "shlex_go (ShQuote d) tok q [] = None"
| "shlex_go (ShEsc e) tok q [] = None"
| "shlex_go ShSpace tok q (c # cs) =
     (if sh_ws c then shlex_go ShSpace [] False cs
      else if c = 92 then shlex_go (ShEsc None) [] False cs
      else if sh_quote c then shlex_go (ShQuote c) [] False cs
      else shlex_go ShWord [c] False cs)"
| "shlex_go ShWord tok q (c # cs) =
     (if sh_ws c then
        (if tok \<noteq> [] \<or> q then map_option (\<lambda>ts. rev tok # ts) (shlex_go ShSpace [] False cs)
         else shlex_go ShSpace [] False cs)
      else if sh_quote c then shlex_go (ShQuote c) tok q cs
      else if c = 92 then shlex_go (ShEsc None) tok q cs
      else shlex_go ShWord (c # tok) q cs)"
| "shlex_go (ShQuote d) tok q (c # cs) =
     (if c = d then shlex_go ShWord tok True cs
      else if c = 92 \<and> d = 34 then shlex_go (ShEsc (Some d)) tok True cs
      else shlex_go (ShQuote d) (c # tok) True cs)"
| "shlex_go (ShEsc e) tok q (c # cs) =
     (case e of
        None \<Rightarrow> shlex_go ShWord (c # tok) q cs
      | Some d \<Rightarrow> shlex_go (ShQuote d) (if c \<noteq> 92 \<and> c \<noteq> d then c # 92 # tok else c # tok) q cs)"

definition shlex_split :: "pystr \<Rightarrow> pystr list option" where
  "shlex_split s = shlex_go ShSpace [] False s"

definition VALUE_FLAGS :: "pystr list" where
  "VALUE_FLAGS = map u [''-C'', ''-c'', ''--git-dir'', ''--work-tree'', ''--namespace'', ''--exec-path'']"

text \<open>The inner loop: skip global options; \<open>skip\<close> says that the next token is an option's value.\<close>

fun git_subcommand :: "bool \<Rightarrow> pystr list \<Rightarrow> pystr option" where
  "git_subcommand skip [] = None"
| "git_subcommand skip (tok # toks) =
     (if skip then git_subcommand False toks
      else if tok \<in> set VALUE_FLAGS then git_subcommand True toks
      else if startswith tok [45] then git_subcommand False toks
      else Some tok)"

definition is_git :: "pystr \<Rightarrow> bool" where
  "is_git tok \<longleftrightarrow> tok = u ''git'' \<or> endswith tok (u ''/git'')"

definition looks_like_git_commit :: "pystr \<Rightarrow> bool" where
  "looks_like_git_commit command =
     (let tokens = (case shlex_split command of Some ts \<Rightarrow> ts | None \<Rightarrow> split_ws command)
      in case dropWhile (\<lambda>t. \<not> is_git t) tokens of
           [] \<Rightarrow> False
         | _ # rest \<Rightarrow> git_subcommand False rest = Some (u ''commit''))"

section \<open>Hooks before a tool\<close>

definition line_break :: "int \<Rightarrow> bool" where
  "line_break c \<longleftrightarrow> c \<in> {10, 11, 12, 13, 28, 29, 30, 133, 8232, 8233}"

text \<open>\<^verbatim>\<open>text.splitlines()[-1]\<close> for a stripped, non-empty text.\<close>

definition last_line :: "pystr \<Rightarrow> pystr" where
  "last_line s = rev (takeWhile (\<lambda>c. \<not> line_break c) (rev s))"

definition hook_detail :: "HookResult \<Rightarrow> pystr" where
  "hook_detail r =
     (let text = strip_ws (if hstderr r \<noteq> [] then hstderr r else hstdout r)
      in if text \<noteq> [] then last_line text else u ''exit '' @ str_int (exit_code r))"

fun scan_results :: "HookEvent \<Rightarrow> HookResult list \<Rightarrow> pystr option \<times> pystr list" where
  "scan_results e [] = (None, [])"
| "scan_results e (r # rs) =
     (if should_abort r then (Some (hook_event_value e @ u '': '' @ hook_detail r), [])
      else if \<not> hook_ok r then
        (case scan_results e rs of (ab, ns) \<Rightarrow>
           (ab, (hook_event_value e @ u '' hook failed: '' @ hook_detail r) # ns))
      else scan_results e rs)"

fun pre_hook_events :: "'x params \<Rightarrow> HookRunner \<Rightarrow> pystr \<Rightarrow> HookEvent list \<Rightarrow> 'x
    \<Rightarrow> (pystr option \<times> pystr list) \<times> 'x" where
  "pre_hook_events Z R tgt [] x = ((None, []), x)"
| "pre_hook_events Z R tgt (e # es) x =
     (case run_hooks (p_shell Z) (p_proc Z) R e (Some tgt) [] x of (results, x1) \<Rightarrow>
        (case scan_results e results of
           (Some ab, ns) \<Rightarrow> ((Some ab, ns), x1)
         | (None, ns) \<Rightarrow> (case pre_hook_events Z R tgt es x1 of ((ab, ns'), x2) \<Rightarrow> ((ab, ns @ ns'), x2))))"

definition run_pre_hooks :: "'x params \<Rightarrow> HookRunner \<Rightarrow> pystr \<Rightarrow> Action \<Rightarrow> 'x
    \<Rightarrow> (pystr option \<times> pystr list) \<times> 'x" where
  "run_pre_hooks Z R name a x =
     pre_hook_events Z R (target a)
       (PRE_TOOL # (if name = u ''execute'' \<and> looks_like_git_commit (target a) then [PRE_COMMIT] else [])) x"

text \<open>\<^verbatim>\<open>run_post_hooks\<close>; \<open>last_edit\<close> is \<^verbatim>\<open>driver._last_edit_target\<close>.\<close>

definition run_post_hooks :: "'x params \<Rightarrow> HookRunner \<Rightarrow> pystr \<Rightarrow> pystr option \<Rightarrow> 'x \<Rightarrow> Event list \<times> 'x" where
  "run_post_hooks Z R name last_edit x =
     (let targets = (POST_TOOL, name) #
            (if name = u ''write_file'' \<or> name = u ''edit_file''
             then [(POST_EDIT, if truthy_tool last_edit \<noteq> [] then truthy_tool last_edit else name)] else [])
      in fold (\<lambda>(e, t) (out, x). case run_hooks (p_shell Z) (p_proc Z) R e (Some t) [] x of (rs, x') \<Rightarrow>
                 (out @ map (\<lambda>r. ev NOTICE (hook_event_value e @ u '' hook failed: '' @ hook_detail r) [])
                          (filter (\<lambda>r. \<not> hook_ok r) rs), x')) targets ([], x))"

section \<open>Resolving one request\<close>

definition call_approver :: "'x params \<Rightarrow> ApprovalRequest \<Rightarrow> 'x driver \<Rightarrow> ApprovalReply \<times> 'x driver" where
  "call_approver Z q d =
     (case p_approver Z q (d_engine d) (d_ext d) of (reply, E, x) \<Rightarrow> (reply, d\<lparr>d_engine := E, d_ext := x\<rparr>))"

definition or_msg :: "pystr \<Rightarrow> pystr \<Rightarrow> pystr" where
  "or_msg m dflt = (if m \<noteq> [] then m else dflt)"

text \<open>\<^verbatim>\<open>str(args.get(k, dflt))\<close>\<close>

definition arg_text :: "pyuni \<Rightarrow> args \<Rightarrow> string \<Rightarrow> string \<Rightarrow> pystr" where
  "arg_text U a k dflt = (case dget a (u k) of None \<Rightarrow> u dflt | Some v \<Rightarrow> py_str U v)"

definition arg_strip :: "pyuni \<Rightarrow> args \<Rightarrow> string \<Rightarrow> string \<Rightarrow> pystr" where
  "arg_strip U a k dflt = strip_ws (arg_text U a k dflt)"

definition request :: "Action \<Rightarrow> PermissionResult \<Rightarrow> pystr \<Rightarrow> args \<Rightarrow> ApprovalRequest" where
  "request a r descr as = \<lparr>q_action = a, q_result = r, q_description = descr, q_args = as,
     q_plan = None, q_memory = None, q_skill = None\<rparr>"

text \<open>The handoffs that bypass the engine ask the approver and turn its reply into an approval or
  a rejection with a default message.\<close>

definition handoff :: "'x params \<Rightarrow> ApprovalRequest \<Rightarrow> pystr \<Rightarrow> pystr \<Rightarrow> pystr \<Rightarrow> pystr \<Rightarrow> 'x driver \<Rightarrow> 'x outcome" where
  "handoff Z q tgt yes no dflt d =
     (case call_approver Z q d of (reply, d') \<Rightarrow>
        (if approved reply then [(ev APPROVAL yes (target_data tgt), Some Approve)]
         else [(ev APPROVAL no (target_data tgt), Some (RejectWith (or_msg (message reply) dflt)))], d', None))"

definition plan_handoff :: "'x params \<Rightarrow> ActionRequest \<Rightarrow> pystr \<Rightarrow> 'x driver \<Rightarrow> 'x outcome" where
  "plan_handoff Z rq name d =
     handoff Z ((request (mk_action READ (u ''plan'') name []) (presult ASK (u ''plan ready for review''))
          (rq_description rq) (rq_args rq))\<lparr>q_plan := Some (arg_strip (p_uni Z) (rq_args rq) ''plan'' '''')\<rparr>)
       (u ''plan'') (u ''plan approved '' @ [8212] @ u '' executing'')
       (u ''plan not approved '' @ [8212] @ u '' still planning'')
       (u ''Keep refining the plan; call exit_plan_mode again when ready.'') d"

definition memory_handoff :: "'x params \<Rightarrow> ActionRequest \<Rightarrow> pystr \<Rightarrow> 'x driver \<Rightarrow> 'x outcome" where
  "memory_handoff Z rq name d =
     (let U = p_uni Z; a = rq_args rq;
          m = \<lparr>sm_name = arg_strip U a ''name'' '''', sm_description = arg_strip U a ''description'' '''',
               sm_body = arg_strip U a ''body'' '''',
               sm_type = or_msg (arg_strip U a ''type'' ''project'') (u ''project''),
               sm_scope = or_msg (arg_strip U a ''scope'' ''project'') (u ''project'')\<rparr>
      in handoff Z ((request (mk_action READ (u ''memory'') name []) (presult ASK (u ''memory suggested''))
             (rq_description rq) a)\<lparr>q_memory := Some m\<rparr>)
           (u ''memory'') (u ''memory saved'') (u ''memory not saved'') (u ''User declined to save the memory.'') d)"

definition skill_handoff :: "'x params \<Rightarrow> ActionRequest \<Rightarrow> pystr \<Rightarrow> 'x driver \<Rightarrow> 'x outcome" where
  "skill_handoff Z rq name d =
     (let U = p_uni Z; a = rq_args rq;
          m = \<lparr>ss_name = arg_strip U a ''name'' '''', ss_description = arg_strip U a ''description'' '''',
               ss_body = arg_strip U a ''body'' '''',
               ss_trigger = or_msg (arg_strip U a ''trigger'' ''auto'') (u ''auto'')\<rparr>
      in handoff Z ((request (mk_action READ (u ''skill'') name []) (presult ASK (u ''skill suggested''))
             (rq_description rq) a)\<lparr>q_skill := Some m\<rparr>)
           (u ''skill'') (u ''skill saved'') (u ''skill not saved'') (u ''User declined to save the skill.'') d)"

definition schedule_handoff :: "'x params \<Rightarrow> ActionRequest \<Rightarrow> pystr \<Rightarrow> 'x driver \<Rightarrow> 'x outcome" where
  "schedule_handoff Z rq name d =
     (let U = p_uni Z; a = rq_args rq;
          act = or_msg (lower U (strip_ws (arg_text U a ''action'' ''create''))) (u ''create'')
      in if act = u ''list''
         then ([(ev APPROVAL (u ''auto-allowed: schedule_task list'') (target_data (u ''schedule'')), Some Approve)], d, None)
         else handoff Z (request
                (mk_action NETWORK (py_str U (aget_or U a [''cron'', ''at'', ''job_id''] (JStr (u ''schedule'')))) name [])
                (presult ASK (u ''schedule proposed''))
                (or_msg (rq_description rq) (u ''schedule_task '' @ act)) a)
              (u ''schedule'') (u ''schedule '' @ act @ u '' approved'') (u ''schedule '' @ act @ u '' declined'')
              (u ''User declined the schedule change.'') d)"

text \<open>\<^verbatim>\<open>driver.engine.remember(action, scope)\<close> with the persistence sink logged.\<close>

definition driver_remember :: "'x params \<Rightarrow> Action \<Rightarrow> RememberScope \<Rightarrow> 'x driver \<Rightarrow> 'x driver" where
  "driver_remember Z a s d =
     (case remember (p_host Z) (d_engine d) a s of (E, _, saved) \<Rightarrow>
        d\<lparr>d_engine := E, d_saved := d_saved d @ (case saved of None \<Rightarrow> [] | Some r \<Rightarrow> [r])\<rparr>)"

definition ask_user :: "'x params \<Rightarrow> ActionRequest \<Rightarrow> pystr \<Rightarrow> Action \<Rightarrow> PermissionResult \<Rightarrow> 'x driver
    \<Rightarrow> (Event \<times> tool_decision option) \<times> 'x driver" where
  "ask_user Z rq name a result d =
     (case call_approver Z (request a result (rq_description rq) (rq_args rq)) d of (reply, d1) \<Rightarrow>
        if approved reply then
          (let scope = (if block_remember_always result \<and> reply_scope reply = ALWAYS then SESSION
                        else reply_scope reply);
               d2 = driver_remember Z a scope d1;
               data = target_data (target a) @ [(u ''scope'', JStr (scope_value scope))]
           in case edited_args reply of
                Some as \<Rightarrow> ((ev APPROVAL (u ''approved (edited): '' @ name) data, Some (Edit name as)), d2)
              | None \<Rightarrow> ((ev APPROVAL (u ''approved: '' @ name) data, Some Approve), d2))
        else ((ev APPROVAL (u ''rejected: '' @ name) (target_data (target a)),
               Some (RejectWith (or_msg (message reply) (u ''rejected by user'')))),
              d1\<lparr>d_engine := deny_session_op (p_host Z) (d_engine d1) a\<rparr>))"

definition gate_tool :: "'x params \<Rightarrow> ActionRequest \<Rightarrow> pystr \<Rightarrow> Action \<Rightarrow> 'x driver \<Rightarrow> 'x outcome" where
  "gate_tool Z rq name a d =
     (case evaluate (p_uni Z) (p_host Z) (d_engine d) a of
        Inl e \<Rightarrow> ([], d, Some e)
      | Inr result \<Rightarrow>
          (case decision result of
             ALLOW \<Rightarrow> ([(ev APPROVAL (u ''auto-allowed: '' @ name) (target_data (target a)), Some Approve)], d, None)
           | DENY \<Rightarrow> ([(ev APPROVAL (u ''blocked: '' @ name @ u '' ('' @ reason result @ u '')'')
                        (target_data (target a) @ [(u ''dangerous'', JBool (dangerous result))]),
                      Some (RejectWith (reason result)))], d, None)
           | ASK \<Rightarrow> (case ask_user Z rq name a result d of (out, d') \<Rightarrow> ([out], d', None))))"

definition request_name :: "ActionRequest \<Rightarrow> pystr" where
  "request_name rq = or_msg (rq_action rq) (or_msg (rq_name rq) (u ''tool''))"

definition ordinary_tool :: "'x params \<Rightarrow> ActionRequest \<Rightarrow> pystr \<Rightarrow> 'x driver \<Rightarrow> 'x outcome" where
  "ordinary_tool Z rq name d =
     (let a = tool_to_action (p_uni Z) name (rq_args rq)
      in case d_hooks d of
           None \<Rightarrow> gate_tool Z rq name a d
         | Some R \<Rightarrow>
             (case run_pre_hooks Z R name a (d_ext d) of ((ab, notes), x) \<Rightarrow>
                (let d1 = d\<lparr>d_ext := x\<rparr>; ns = map (\<lambda>n. (ev NOTICE n [], None)) notes
                 in case ab of
                      Some why \<Rightarrow> (ns @ [(ev APPROVAL (u ''blocked by hook: '' @ name @ u '' ('' @ why @ u '')'')
                                     (target_data (target a)), Some (RejectWith why))], d1, None)
                    | None \<Rightarrow> (case gate_tool Z rq name a d1 of (out, d2, e) \<Rightarrow> (ns @ out, d2, e)))))"

definition resolve_one :: "'x params \<Rightarrow> ActionRequest \<Rightarrow> 'x driver \<Rightarrow> 'x outcome" where
  "resolve_one Z rq d =
     (let name = request_name rq
      in if name = u ''exit_plan_mode'' then plan_handoff Z rq name d
         else if name = u ''suggest_memory'' then memory_handoff Z rq name d
         else if name = u ''suggest_skill'' then skill_handoff Z rq name d
         else if name = u ''schedule_task'' then schedule_handoff Z rq name d
         else ordinary_tool Z rq name d)"

section \<open>All interrupts\<close>

datatype interrupt_value =
    IDict "ActionRequest list option"
  | IList "ActionRequest list option list"
  | IOther

fun action_requests :: "interrupt_value \<Rightarrow> ActionRequest list" where
  "action_requests (IDict (Some rs)) = rs"
| "action_requests (IList vs) = concat (map (\<lambda>v. case v of Some rs \<Rightarrow> rs | None \<Rightarrow> []) vs)"
| "action_requests _ = []"

fun resolve_requests :: "'x params \<Rightarrow> ActionRequest list \<Rightarrow> 'x driver \<Rightarrow> 'x outcome" where
  "resolve_requests Z [] d = ([], d, None)"
| "resolve_requests Z (rq # rqs) d =
     (case resolve_one Z rq d of
        (out, d1, Some e) \<Rightarrow> (out, d1, Some e)
      | (out, d1, None) \<Rightarrow> (case resolve_requests Z rqs d1 of (out', d2, e) \<Rightarrow> (out @ out', d2, e)))"

definition resolve_interrupts :: "'x params \<Rightarrow> interrupt_value list \<Rightarrow> 'x driver \<Rightarrow> 'x outcome" where
  "resolve_interrupts Z is d = resolve_requests Z (concat (map action_requests is)) d"

datatype resume = ResumeMap "(pystr \<times> tool_decision list) list" | ResumeFlat "tool_decision list"

definition resume_payload :: "(pystr option \<times> tool_decision list) list \<Rightarrow> resume" where
  "resume_payload resolved =
     (let keyed = concat (map (\<lambda>(iid, ds). case iid of Some i \<Rightarrow> [(i, ds)] | None \<Rightarrow> []) resolved)
      in if length resolved > 1 \<and> length keyed = length resolved
         then ResumeMap (fold (\<lambda>(i, ds) m. dput i ds m) keyed [])
         else ResumeFlat (concat (map snd resolved)))"

text \<open>\<^verbatim>\<open>_auto_reject\<close>, the approver of a session without a user.\<close>

definition auto_reject :: "ApprovalRequest \<Rightarrow> PermissionEngine \<Rightarrow> 'x \<Rightarrow> ApprovalReply \<times> PermissionEngine \<times> 'x" where
  "auto_reject q E x = (\<lparr>approved = False, reply_scope = ONCE,
     message = u ''auto-denied (no interactive approver)'', edited_args = None, plan_mode_target = None\<rparr>, E, x)"

section \<open>Lemmas\<close>

definition decisions :: "(Event \<times> tool_decision option) list \<Rightarrow> tool_decision list" where
  "decisions out = concat (map (\<lambda>(e, d). case d of Some x \<Rightarrow> [x] | None \<Rightarrow> []) out)"

lemma decisions_simps [simp]:
  "decisions [] = []" "decisions ((e, Some x) # out) = x # decisions out"
  "decisions ((e, None) # out) = decisions out"
  "decisions (xs @ ys) = decisions xs @ decisions ys"
  "decisions (map (\<lambda>n. (f n, None)) ns) = []"
proof -
  show "decisions (map (\<lambda>n. (f n, None)) ns) = []"
    by (induction ns) (simp_all add: decisions_def)
qed (simp_all add: decisions_def)

text \<open>An outcome that did not raise carries one decision.\<close>

definition one_decision :: "'x outcome \<Rightarrow> bool" where
  "one_decision o1 \<longleftrightarrow> snd (snd o1) = None \<longrightarrow> length (decisions (fst o1)) = 1"

lemma one_decision_if: "one_decision x \<Longrightarrow> one_decision y \<Longrightarrow> one_decision (if b then x else y)"
  by simp

lemma handoff_one: "one_decision (handoff Z q t y n m d)"
  by (auto simp: one_decision_def handoff_def split: prod.split)

lemma ask_user_one: "\<exists>e x d'. ask_user Z rq name a r d = ((e, Some x), d')"
  by (auto simp: ask_user_def Let_def split: prod.split option.split)

lemma gate_tool_one: "one_decision (gate_tool Z rq name a d)"
proof (cases "evaluate (p_uni Z) (p_host Z) (d_engine d) a")
  case (Inr r)
  obtain e x d' where "ask_user Z rq name a r d = ((e, Some x), d')" using ask_user_one by blast
  with Inr show ?thesis by (cases "decision r") (simp_all add: one_decision_def gate_tool_def)
qed (simp add: one_decision_def gate_tool_def)

lemma ordinary_one: "one_decision (ordinary_tool Z rq name d)"
proof (cases "d_hooks d")
  case (Some R)
  let ?a = "tool_to_action (p_uni Z) name (rq_args rq)"
  obtain ab nts x where p: "run_pre_hooks Z R name ?a (d_ext d) = ((ab, nts), x)"
    by (cases "run_pre_hooks Z R name ?a (d_ext d)") auto
  show ?thesis
    using gate_tool_one[of Z rq name ?a "d\<lparr>d_ext := x\<rparr>"]
    by (cases ab; cases "gate_tool Z rq name ?a (d\<lparr>d_ext := x\<rparr>)")
       (simp_all add: ordinary_tool_def Some p one_decision_def)
qed (simp add: ordinary_tool_def gate_tool_one)

lemma schedule_one: "one_decision (schedule_handoff Z rq n d)"
  unfolding schedule_handoff_def Let_def
  by (intro one_decision_if handoff_one) (simp add: one_decision_def)

lemma resolve_one_one: "one_decision (resolve_one Z rq d)"
  unfolding resolve_one_def Let_def plan_handoff_def memory_handoff_def skill_handoff_def
  by (intro one_decision_if handoff_one schedule_one ordinary_one)

lemma resolve_requests_decisions:
  "resolve_requests Z rqs d = (out, d', None) \<Longrightarrow> length (decisions out) = length rqs"
proof (induction rqs arbitrary: d out)
  case (Cons rq rqs)
  obtain out1 d1 e1 where 1: "resolve_one Z rq d = (out1, d1, e1)" by (cases "resolve_one Z rq d") auto
  obtain out2 d2 e2 where 2: "resolve_requests Z rqs d1 = (out2, d2, e2)"
    by (cases "resolve_requests Z rqs d1") auto
  from Cons.prems 1 2 have "e1 = None" "e2 = None" "out = out1 @ out2" by (auto split: option.splits)
  with Cons.IH[of d1 out2] 1 2 Cons.prems resolve_one_one[of Z rq d] show ?case
    by (auto simp: one_decision_def split: option.splits)
qed simp

text \<open>
  A rule that the resolution of a request may persist: the engine at that time asked about the action of this
  request and did not mark it as unrememberable, and the approver that was shown it said yes with the scope ALWAYS.
\<close>

definition rule_earned :: "'x params \<Rightarrow> 'x driver \<Rightarrow> ActionRequest \<Rightarrow> pystr \<Rightarrow> bool" where
  "rule_earned Z d rq rule \<longleftrightarrow> (let a = tool_to_action (p_uni Z) (request_name rq) (rq_args rq) in
     \<exists>r x reply E x'. evaluate (p_uni Z) (p_host Z) (d_engine d) a = Inr r \<and> decision r = ASK \<and> \<not> block_remember_always r
       \<and> p_approver Z (request a r (rq_description rq) (rq_args rq)) (d_engine d) x = (reply, E, x')
       \<and> approved reply \<and> reply_scope reply = ALWAYS \<and> rule = scoped_rule_for (p_host Z) E a (rule_for (p_host Z) E a))"

definition keeps_saved :: "'x params \<Rightarrow> 'x driver \<Rightarrow> ActionRequest \<Rightarrow> 'x driver \<Rightarrow> bool" where
  "keeps_saved Z d rq d' \<longleftrightarrow> (\<exists>new. d_saved d' = d_saved d @ new \<and> (\<forall>rule\<in>set new. rule_earned Z d rq rule))"

lemma keeps_saved_same: "d_saved d' = d_saved d \<Longrightarrow> keeps_saved Z d rq d'"
  by (auto simp: keeps_saved_def)

lemma call_approver_saved: "d_saved (snd (call_approver Z q d)) = d_saved d"
  by (simp add: call_approver_def split: prod.split)

lemma handoff_saved: "d_saved (fst (snd (handoff Z q t y n m d))) = d_saved d"
  using call_approver_saved[of Z q d] by (auto simp: handoff_def split: prod.split)

lemma driver_remember_saved:
  "d_saved (driver_remember Z a s d) = d_saved d @ (if s = ALWAYS \<and> has_persist (d_engine d)
     then [scoped_rule_for (p_host Z) (d_engine d) a (rule_for (p_host Z) (d_engine d) a)] else [])"
  by (simp add: driver_remember_def remember_def Let_def)

lemma ask_user_keeps:
  assumes "evaluate (p_uni Z) (p_host Z) (d_engine d) a = Inr r" "decision r = ASK"
    and "a = tool_to_action (p_uni Z) (request_name rq) (rq_args rq)"
  shows "keeps_saved Z d rq (snd (ask_user Z rq name a r d))"
proof -
  obtain reply E x' where c: "p_approver Z (request a r (rq_description rq) (rq_args rq)) (d_engine d) (d_ext d) = (reply, E, x')"
    by (metis prod_cases3)
  then have k: "call_approver Z (request a r (rq_description rq) (rq_args rq)) d = (reply, d\<lparr>d_engine := E, d_ext := x'\<rparr>)"
    by (simp add: call_approver_def)
  show ?thesis
  proof (cases "approved reply \<and> \<not> block_remember_always r \<and> reply_scope reply = ALWAYS")
    case True
    then have "snd (ask_user Z rq name a r d) = driver_remember Z a ALWAYS (d\<lparr>d_engine := E, d_ext := x'\<rparr>)"
      by (simp add: ask_user_def k Let_def split: option.split)
    moreover have "rule_earned Z d rq (scoped_rule_for (p_host Z) E a (rule_for (p_host Z) E a))"
      using assms(1,2) c True unfolding rule_earned_def Let_def assms(3)[symmetric] by blast
    ultimately show ?thesis by (simp add: keeps_saved_def driver_remember_saved)
  next
    case False
    then show ?thesis
      by (intro keeps_saved_same) (auto simp: ask_user_def k Let_def driver_remember_saved split: option.split)
  qed
qed

lemma gate_tool_keeps:
  assumes "a = tool_to_action (p_uni Z) (request_name rq) (rq_args rq)"
  shows "keeps_saved Z d rq (fst (snd (gate_tool Z rq name a d)))"
proof (cases "evaluate (p_uni Z) (p_host Z) (d_engine d) a")
  case (Inr r)
  show ?thesis
  proof (cases "decision r")
    case ASK
    then show ?thesis
      using Inr ask_user_keeps[OF Inr ASK assms, of name]
      by (cases "ask_user Z rq name a r d") (simp add: gate_tool_def)
  qed (use Inr in \<open>simp_all add: keeps_saved_same gate_tool_def\<close>)
qed (simp add: keeps_saved_same gate_tool_def)

lemma keeps_saved_ext: "keeps_saved Z (d\<lparr>d_ext := x\<rparr>) rq d' = keeps_saved Z d rq d'"
  by (simp add: keeps_saved_def rule_earned_def)

lemma ordinary_keeps: "keeps_saved Z d rq (fst (snd (ordinary_tool Z rq (request_name rq) d)))"
proof (cases "d_hooks d")
  case (Some R)
  let ?a = "tool_to_action (p_uni Z) (request_name rq) (rq_args rq)"
  obtain ab nts x where p: "run_pre_hooks Z R (request_name rq) ?a (d_ext d) = ((ab, nts), x)"
    by (cases "run_pre_hooks Z R (request_name rq) ?a (d_ext d)") auto
  show ?thesis
    using gate_tool_keeps[OF refl, where d = "d\<lparr>d_ext := x\<rparr>" and Z = Z and rq = rq and name = "request_name rq"]
    by (cases ab; cases "gate_tool Z rq (request_name rq) ?a (d\<lparr>d_ext := x\<rparr>)")
       (simp_all add: ordinary_tool_def Some p keeps_saved_ext keeps_saved_same)
qed (simp add: ordinary_tool_def gate_tool_keeps)

lemma resolve_one_keeps: "keeps_saved Z d rq (fst (snd (resolve_one Z rq d)))"
proof -
  have "keeps_saved Z d rq (fst (snd (handoff Z q t y n m d)))" for q t y n m
    by (rule keeps_saved_same) (rule handoff_saved)
  then show ?thesis
    by (simp add: resolve_one_def plan_handoff_def memory_handoff_def skill_handoff_def schedule_handoff_def Let_def
        ordinary_keeps keeps_saved_same)
qed

text \<open>Each rule that a resolution adds belongs to one of the requests and to the state in which that request was resolved.\<close>

lemma resolve_requests_saved:
  "resolve_requests Z rqs d = (out, d', e) \<Longrightarrow> \<exists>new. d_saved d' = d_saved d @ new \<and> (\<forall>rule\<in>set new. \<exists>i di oi. i < length rqs
     \<and> resolve_requests Z (take i rqs) d = (oi, di, None) \<and> rule_earned Z di (rqs ! i) rule)"
proof (induction rqs arbitrary: d out)
  case (Cons rq rqs)
  obtain out1 d1 e1 where 1: "resolve_one Z rq d = (out1, d1, e1)" by (cases "resolve_one Z rq d") auto
  obtain n1 where n1: "d_saved d1 = d_saved d @ n1" "\<forall>rule\<in>set n1. rule_earned Z d rq rule"
    using resolve_one_keeps[of Z d rq] 1 by (auto simp: keeps_saved_def)
  have here: "\<exists>i di oi. i < length (rq # rqs) \<and> resolve_requests Z (take i (rq # rqs)) d = (oi, di, None)
      \<and> rule_earned Z di ((rq # rqs) ! i) rule" if "rule \<in> set n1" for rule
    using n1(2) that by (intro exI[of _ 0]) simp
  show ?case
  proof (cases e1)
    case None
    obtain out2 where 2: "resolve_requests Z rqs d1 = (out2, d', e)"
      using Cons.prems 1 None by (auto split: prod.splits)
    obtain n2 where n2: "d_saved d' = d_saved d1 @ n2" "\<forall>rule\<in>set n2. \<exists>i di oi. i < length rqs
        \<and> resolve_requests Z (take i rqs) d1 = (oi, di, None) \<and> rule_earned Z di (rqs ! i) rule"
      using Cons.IH[OF 2] by blast
    have "\<exists>i di oi. i < length (rq # rqs) \<and> resolve_requests Z (take i (rq # rqs)) d = (oi, di, None)
        \<and> rule_earned Z di ((rq # rqs) ! i) rule" if r: "rule \<in> set n2" for rule
    proof -
      obtain i di oi where "i < length rqs" "resolve_requests Z (take i rqs) d1 = (oi, di, None)" "rule_earned Z di (rqs ! i) rule"
        using n2(2) r by blast
      then show ?thesis using 1 None by (intro exI[of _ "Suc i"] exI[of _ di] exI[of _ "out1 @ oi"]) simp
    qed
    then show ?thesis using n1(1) n2(1) here by (intro exI[of _ "n1 @ n2"]) auto
  next
    case (Some x)
    then have "d' = d1" using Cons.prems 1 by simp
    then show ?thesis using n1(1) here by blast
  qed
qed simp

section \<open>Properties\<close>

text \<open>
  Every gated call gets exactly one decision, in order: when the resolution of a list of
  interrupts ends without an exception, the number of decisions is the number of requests.
\<close>

theorem one_decision_per_request:
  assumes "resolve_interrupts Z is d = (out, d', None)"
  shows "length (decisions out) = length (concat (map action_requests is))"
  using resolve_requests_decisions assms unfolding resolve_interrupts_def by blast

text \<open>
  C6. What an interrupt resolution persists was earned: each rule it adds belongs to one of the requests, and when that request
  came up the engine asked about its action without marking it as unrememberable, and the approver shown it
  answered yes with the scope ALWAYS. So an action that the guard flagged, or that touches the secret store, adds no rule, whatever the approver answers.
\<close>

theorem dangerous_never_persisted:
  assumes "resolve_interrupts Z is d = (out, d', e)"
  shows "\<exists>new. d_saved d' = d_saved d @ new \<and> (\<forall>rule\<in>set new. \<exists>i di oi. i < length (concat (map action_requests is))
     \<and> resolve_requests Z (take i (concat (map action_requests is))) d = (oi, di, None)
     \<and> rule_earned Z di (concat (map action_requests is) ! i) rule)"
  using assms unfolding resolve_interrupts_def by (rule resolve_requests_saved)

text \<open>
  C2. A tool call runs only with permission: an ordinary call that is approved, or approved with edited
  arguments, was allowed by the engine, or the engine asked and the approver said yes.
\<close>

theorem approved_means_permitted:
  assumes "resolve_one Z rq d = (out, d', e)" "x \<in> set (decisions out)" "x = Approve \<or> x = Edit n as"
    and "request_name rq \<notin> {u ''exit_plan_mode'', u ''suggest_memory'', u ''suggest_skill'', u ''schedule_task''}"
  shows "\<exists>r y. evaluate (p_uni Z) (p_host Z) (d_engine d) (tool_to_action (p_uni Z) (request_name rq) (rq_args rq)) = Inr r
     \<and> (decision r = ALLOW \<or> decision r = ASK \<and> approved (fst (p_approver Z
          (request (tool_to_action (p_uni Z) (request_name rq) (rq_args rq)) r (rq_description rq) (rq_args rq))
          (d_engine d) y)))"
proof -
  let ?a = "tool_to_action (p_uni Z) (request_name rq) (rq_args rq)"
  have ord: "ordinary_tool Z rq (request_name rq) d = (out, d', e)"
    using assms(1,4) by (simp add: resolve_one_def)
  have gate: "\<exists>r y. evaluate (p_uni Z) (p_host Z) (d_engine d) ?a = Inr r \<and> (decision r = ALLOW \<or> decision r = ASK \<and>
        approved (fst (p_approver Z (request ?a r (rq_description rq) (rq_args rq)) (d_engine d) y)))"
    if x: "x \<in> set (decisions (fst (gate_tool Z rq (request_name rq) ?a (d\<lparr>d_ext := z\<rparr>))))" for z
  proof (cases "evaluate (p_uni Z) (p_host Z) (d_engine d) ?a")
    case (Inr r)
    show ?thesis
    proof (cases "decision r")
      case ASK
      have "approved (fst (p_approver Z (request ?a r (rq_description rq) (rq_args rq)) (d_engine d) z))"
        using x assms(3) ASK Inr
        by (auto simp: gate_tool_def ask_user_def call_approver_def Let_def split: prod.splits if_splits option.splits)
      with Inr ASK show ?thesis by blast
    next
      case DENY
      with x assms(3) Inr show ?thesis by (auto simp: gate_tool_def)
    qed (use Inr in blast)
  qed (use x in \<open>simp add: gate_tool_def\<close>)
  show ?thesis
  proof (cases "d_hooks d")
    case None
    with ord gate[of "d_ext d"] assms(2) show ?thesis by (simp add: ordinary_tool_def)
  next
    case (Some R)
    obtain ab nts z where p: "run_pre_hooks Z R (request_name rq) ?a (d_ext d) = ((ab, nts), z)"
      by (cases "run_pre_hooks Z R (request_name rq) ?a (d_ext d)") auto
    from ord Some p assms(2,3) have "x \<in> set (decisions (fst (gate_tool Z rq (request_name rq) ?a (d\<lparr>d_ext := z\<rparr>))))"
      by (auto simp: ordinary_tool_def Let_def split: option.splits prod.splits)
    then show ?thesis by (rule gate)
  qed
qed

lemma scan_results_abort:
  "r \<in> set rs \<Longrightarrow> should_abort r \<Longrightarrow> \<exists>why ns. scan_results e rs = (Some why, ns)"
  by (induction rs) (auto split: prod.splits)

text \<open>
  A failed blocking hook stops the call: when a blocking \<^verbatim>\<open>pre_tool\<close> hook fails, an ordinary tool
  call is rejected, whatever the engine and the approver would say, and neither is consulted: the
  engine and the persisted rules are as before.
\<close>

theorem blocking_hook_rejects:
  assumes "d_hooks d = Some R"
    and "r \<in> set (fst (run_hooks (p_shell Z) (p_proc Z) R PRE_TOOL
            (Some (target (tool_to_action (p_uni Z) (request_name rq) (rq_args rq)))) [] (d_ext d)))"
    and "should_abort r"
    and "request_name rq \<notin> {u ''exit_plan_mode'', u ''suggest_memory'', u ''suggest_skill'', u ''schedule_task''}"
  shows "\<exists>out d' why. resolve_one Z rq d = (out, d', None) \<and> decisions out = [RejectWith why]
     \<and> d_engine d' = d_engine d \<and> d_saved d' = d_saved d"
proof -
  let ?a = "tool_to_action (p_uni Z) (request_name rq) (rq_args rq)"
  obtain results x1 where h: "run_hooks (p_shell Z) (p_proc Z) R PRE_TOOL (Some (target ?a)) [] (d_ext d) = (results, x1)"
    by force
  then obtain why ns where "scan_results PRE_TOOL results = (Some why, ns)"
    using scan_results_abort[of r results PRE_TOOL] assms(2,3) by auto
  with h have "run_pre_hooks Z R (request_name rq) ?a (d_ext d) = ((Some why, ns), x1)"
    by (simp add: run_pre_hooks_def)
  then show ?thesis
    using assms(1,4) by (simp add: resolve_one_def ordinary_tool_def Let_def)
qed

definition demo_params :: "unit params" where
  "demo_params = \<lparr>p_uni = ascii_uni, p_host = user_host,
     p_proc = \<lparr>os_environ = [], frozen = False, platform_name = u ''darwin''\<rparr>,
     p_shell = (\<lambda>x c e. (Completed (if c = u ''false'' then 1 else 0) [] [], x)), p_approver = auto_reject\<rparr>"

definition demo_request :: "string \<Rightarrow> string \<Rightarrow> string \<Rightarrow> ActionRequest" where
  "demo_request name k v = \<lparr>rq_action = [], rq_name = u name, rq_args = [(u k, JStr (u v))], rq_description = []\<rparr>"

definition demo_driver :: "HookRunner option \<Rightarrow> unit driver" where
  "demo_driver R = \<lparr>d_engine = project_engine MODE_ASK [u ''npm test''] [], d_hooks = R, d_saved = [], d_ext = ()\<rparr>"

definition failing_hooks :: HookRunner where
  "failing_hooks = \<lparr>hooks = [\<lparr>h_event = u ''pre_tool'', h_command = u ''false'', h_matcher = None, h_blocking = True\<rparr>],
     timeout_text = u ''120'', inherit_env = False\<rparr>"

theorem blocking_hook_rejects_witness:
  "\<exists>out d' why. resolve_one demo_params (demo_request ''execute'' ''command'' ''npm test'') (demo_driver (Some failing_hooks))
       = (out, d', None) \<and> decisions out = [RejectWith why]
     \<and> d_engine d' = d_engine (demo_driver (Some failing_hooks)) \<and> d_saved d' = d_saved (demo_driver (Some failing_hooks))"
proof (rule blocking_hook_rejects[where r = "\<lparr>spec = hd (hooks failing_hooks), exit_code = 1, hstdout = [], hstderr = []\<rparr>"])
  show "d_hooks (demo_driver (Some failing_hooks)) = Some failing_hooks" by (simp add: demo_driver_def)
  show "request_name (demo_request ''execute'' ''command'' ''npm test'')
      \<notin> {u ''exit_plan_mode'', u ''suggest_memory'', u ''suggest_skill'', u ''schedule_task''}" by code_simp
  show "should_abort \<lparr>spec = hd (hooks failing_hooks), exit_code = 1, hstdout = [], hstderr = []\<rparr>" by code_simp
qed code_simp

theorem approved_means_permitted_witness:
  "\<exists>r y. evaluate ascii_uni user_host (project_engine MODE_ASK [u ''npm test''] [])
        (tool_to_action ascii_uni (u ''execute'') [(u ''command'', JStr (u ''npm test''))]) = Inr r
     \<and> (decision r = ALLOW \<or> decision r = ASK \<and> approved (fst (auto_reject
          (request (tool_to_action ascii_uni (u ''execute'') [(u ''command'', JStr (u ''npm test''))]) r []
             [(u ''command'', JStr (u ''npm test''))]) (project_engine MODE_ASK [u ''npm test''] []) (y :: unit))))"
proof -
  let ?rq = "demo_request ''execute'' ''command'' ''npm test''"
  have "resolve_one demo_params ?rq (demo_driver None)
      = ([(ev APPROVAL (u ''auto-allowed: execute'') (target_data (u ''npm test'')), Some Approve)], demo_driver None, None)"
    by code_simp
  from approved_means_permitted[OF this, of Approve]
  show ?thesis by (simp add: request_name_def demo_request_def or_msg_def demo_params_def demo_driver_def)
qed

theorem one_decision_per_request_witness:
  "length (decisions (fst (resolve_interrupts demo_params [IDict (Some [demo_request ''ls'' ''path'' ''src'',
      demo_request ''execute'' ''command'' ''sudo ls'']), IOther] (demo_driver None)))) = 2"
proof -
  let ?is = "[IDict (Some [demo_request ''ls'' ''path'' ''src'', demo_request ''execute'' ''command'' ''sudo ls'']), IOther]"
  obtain out d' e where r: "resolve_interrupts demo_params ?is (demo_driver None) = (out, d', e)"
    by (metis prod_cases3)
  moreover have "snd (snd (resolve_interrupts demo_params ?is (demo_driver None))) = None" by code_simp
  ultimately have "resolve_interrupts demo_params ?is (demo_driver None) = (out, d', None)" by simp
  from one_decision_per_request[OF this] this show ?thesis by simp
qed

definition always_yes :: "ApprovalRequest \<Rightarrow> PermissionEngine \<Rightarrow> unit \<Rightarrow> ApprovalReply \<times> PermissionEngine \<times> unit" where
  "always_yes q E x = (\<lparr>approved = True, reply_scope = ALWAYS, message = [], edited_args = None, plan_mode_target = None\<rparr>, E, x)"

definition saving_driver :: "unit driver" where
  "saving_driver = (demo_driver None)\<lparr>d_engine := (project_engine MODE_ASK [] [])\<lparr>has_persist := True\<rparr>\<rparr>"

theorem dangerous_never_persisted_witness:
  "\<exists>rule i di oi. d_saved (fst (snd (resolve_interrupts (demo_params\<lparr>p_approver := always_yes\<rparr>)
       [IDict (Some [demo_request ''execute'' ''command'' ''make all'', demo_request ''execute'' ''command'' ''sudo ls''])]
       saving_driver))) = [rule]
     \<and> resolve_requests (demo_params\<lparr>p_approver := always_yes\<rparr>)
         (take i [demo_request ''execute'' ''command'' ''make all'', demo_request ''execute'' ''command'' ''sudo ls'']) saving_driver = (oi, di, None)
     \<and> rule_earned (demo_params\<lparr>p_approver := always_yes\<rparr>) di
         ([demo_request ''execute'' ''command'' ''make all'', demo_request ''execute'' ''command'' ''sudo ls''] ! i) rule"
proof -
  let ?Z = "demo_params\<lparr>p_approver := always_yes\<rparr>"
  let ?rqs = "[demo_request ''execute'' ''command'' ''make all'', demo_request ''execute'' ''command'' ''sudo ls'']"
  let ?rule = "scoped_rule_for user_host (d_engine saving_driver) (mk_action SHELL (u ''make all'') (u ''execute'') []) (u ''make all'')"
  have s: "d_saved (fst (snd (resolve_interrupts ?Z [IDict (Some ?rqs)] saving_driver))) = [?rule]" by code_simp
  obtain out d' e where r: "resolve_interrupts ?Z [IDict (Some ?rqs)] saving_driver = (out, d', e)" by (metis prod_cases3)
  have "d_saved saving_driver = []" by (simp add: saving_driver_def demo_driver_def)
  with dangerous_never_persisted[OF r] s r show ?thesis by fastforce
qed

text \<open>A resolution that widens nothing.\<close>

definition not_widened :: "pyuni \<Rightarrow> host \<Rightarrow> 'x driver \<Rightarrow> 'x driver \<Rightarrow> bool" where
  "not_widened U H d d' \<longleftrightarrow> d_saved d' = d_saved d \<and> session_allow (d_engine d') = session_allow (d_engine d)
     \<and> mode (d_engine d') = mode (d_engine d)
     \<and> (\<forall>b. result_le (evaluate U H (d_engine d') b) (evaluate U H (d_engine d) b))"

lemma not_widened_refl [simp]: "not_widened U H d d" "not_widened U H d (d\<lparr>d_ext := x\<rparr>)"
  by (simp_all add: not_widened_def engine.result_le_refl)

lemma not_widened_trans: "not_widened U H d d1 \<Longrightarrow> not_widened U H d1 d2 \<Longrightarrow> not_widened U H d d2"
  unfolding not_widened_def by (metis engine.result_le_trans)

lemma not_widened_reject:
  "not_widened U H d (d\<lparr>d_engine := deny_session_op H (d_engine d) a\<rparr>)"
  by (simp add: not_widened_def engine.reject_down) (simp add: deny_session_op_def)

lemma auto_reject_call: "p_approver Z = auto_reject \<Longrightarrow> snd (call_approver Z q d) = d
    \<and> \<not> approved (fst (call_approver Z q d))"
  by (simp add: call_approver_def auto_reject_def)

lemma handoff_headless: "p_approver Z = auto_reject \<Longrightarrow> fst (snd (handoff Z q t y n m d)) = d"
  using auto_reject_call[of Z q d] by (auto simp: handoff_def split: prod.splits)

lemma gate_tool_headless:
  assumes "p_approver Z = auto_reject"
  shows "not_widened (p_uni Z) (p_host Z) d (fst (snd (gate_tool Z rq name a d)))"
proof -
  have "not_widened (p_uni Z) (p_host Z) d (snd (ask_user Z rq name a r d))" for r
    using auto_reject_call[OF assms, of "request a r (rq_description rq) (rq_args rq)" d]
    by (auto simp: ask_user_def not_widened_reject split: prod.splits)
  then show ?thesis
    by (auto simp: gate_tool_def split: sum.split Decision.split prod.splits) (metis snd_conv)
qed

lemma resolve_one_headless:
  assumes "p_approver Z = auto_reject"
  shows "not_widened (p_uni Z) (p_host Z) d (fst (snd (resolve_one Z rq d)))"
proof -
  have h: "fst (snd (plan_handoff Z rq n d)) = d" "fst (snd (memory_handoff Z rq n d)) = d"
    "fst (snd (skill_handoff Z rq n d)) = d" "fst (snd (schedule_handoff Z rq n d)) = d" for n
    by (simp_all add: plan_handoff_def memory_handoff_def skill_handoff_def schedule_handoff_def Let_def
        handoff_headless[OF assms])
  have "not_widened (p_uni Z) (p_host Z) d (fst (snd (ordinary_tool Z rq name d)))" for name
  proof (cases "d_hooks d")
    case (Some R)
    let ?a = "tool_to_action (p_uni Z) name (rq_args rq)"
    obtain ab nts x where p: "run_pre_hooks Z R name ?a (d_ext d) = ((ab, nts), x)"
      by (cases "run_pre_hooks Z R name ?a (d_ext d)") auto
    have "not_widened (p_uni Z) (p_host Z) d (fst (snd (gate_tool Z rq name ?a (d\<lparr>d_ext := x\<rparr>))))"
      by (rule not_widened_trans[OF not_widened_refl(2) gate_tool_headless[OF assms]])
    then show ?thesis
      by (cases ab; cases "gate_tool Z rq name ?a (d\<lparr>d_ext := x\<rparr>)") (simp_all add: ordinary_tool_def Some p)
  qed (simp add: ordinary_tool_def gate_tool_headless[OF assms])
  then show ?thesis by (simp add: resolve_one_def h Let_def)
qed

text \<open>
  C7. Without a user nothing is widened: with the approver that declines every question, whatever is
  requested, no rule is persisted, no session approval is added, the mode is kept, and afterwards the
  engine is at most as permissive on every action as before.
\<close>

theorem headless_never_widens:
  assumes "p_approver Z = auto_reject"
  shows "not_widened (p_uni Z) (p_host Z) d (fst (snd (resolve_interrupts Z is d)))"
proof -
  have "not_widened (p_uni Z) (p_host Z) d (fst (snd (resolve_requests Z rqs d)))" for rqs
  proof (induction rqs arbitrary: d)
    case (Cons rq rqs)
    obtain out1 d1 e1 where 1: "resolve_one Z rq d = (out1, d1, e1)" by (cases "resolve_one Z rq d") auto
    have "not_widened (p_uni Z) (p_host Z) d d1"
      using resolve_one_headless[OF assms, of d rq] 1 by simp
    with not_widened_trans[OF _ Cons.IH[of d1]] 1 show ?case
      by (cases e1; cases "resolve_requests Z rqs d1") auto
  qed simp
  then show ?thesis by (simp add: resolve_interrupts_def)
qed

theorem headless_never_widens_witness:
  "not_widened ascii_uni user_host saving_driver (fst (snd (resolve_interrupts demo_params
     [IDict (Some [demo_request ''execute'' ''command'' ''make all''])] saving_driver)))"
  using headless_never_widens[of demo_params saving_driver] by (simp add: demo_params_def)

text \<open>
  Resuming several pending interrupts keeps every decision with its interrupt: when all of them
  have distinct ids, the resume value maps each id to its decisions; a single interrupt resumes with
  the flat list.
\<close>

theorem resume_keeps_decisions:
  assumes "list_all (\<lambda>(i, ds). i \<noteq> None) resolved" "distinct (map fst resolved)"
  shows "if length resolved > 1
     then \<exists>m. resume_payload resolved = ResumeMap m \<and> m = map (\<lambda>(i, ds). (the i, ds)) resolved
     else resume_payload resolved = ResumeFlat (concat (map snd resolved))"
proof -
  have keyed: "concat (map (\<lambda>(iid, ds). case iid of Some i \<Rightarrow> [(i, ds)] | None \<Rightarrow> []) resolved)
      = map (\<lambda>(i, ds). (the i, ds)) resolved"
    using assms(1) by (induction resolved) (auto split: option.splits)
  have "None \<notin> set (map fst resolved)"
    using assms(1) by (auto simp: list_all_iff)
  then have "inj_on the (set (map fst resolved))"
    by (intro inj_onI) (metis option.expand)
  then have "distinct (map the (map fst resolved))"
    using assms(2) by (simp only: distinct_map)
  moreover have "map fst (map (\<lambda>(i, ds). (the i, ds)) resolved) = map the (map fst resolved)"
    by (simp add: split_beta comp_def)
  ultimately have d: "distinct (map fst (map (\<lambda>(i, ds). (the i, ds)) resolved))"
    by (simp only:)
  have f: "fold (\<lambda>(i, ds) m. dput i ds m) kvs acc = acc @ kvs"
    if "distinct (map fst kvs)" "fst ` set acc \<inter> fst ` set kvs = {}" for kvs and acc :: "(pystr \<times> tool_decision list) list"
    using that by (induction kvs arbitrary: acc) (auto simp: dput_fresh)
  show ?thesis
    using keyed f[OF d, of "[]"] by (simp add: resume_payload_def Let_def)
qed

theorem resume_keeps_decisions_witness:
  "\<exists>m. resume_payload [(Some (u ''a''), [Approve]), (Some (u ''b''), [RejectWith [], Approve])] = ResumeMap m
     \<and> m = [(u ''a'', [Approve]), (u ''b'', [RejectWith [], Approve])]"
  using resume_keeps_decisions[of "[(Some (u ''a''), [Approve]), (Some (u ''b''), [RejectWith [], Approve])]"] by simp

end
