(* ===== verification/Input_Queue.thy ===== *)
theory Input_Queue
  imports Prelude "HOL-Library.Multiset"
begin

text \<open>
  The queue of lines typed while a turn runs, \<^verbatim>\<open>src/src/jarn/tui/input_queue.py\<close>. Indices are
  Python integers, 1-based where the code is. Its contract is the first-in first-out locale
  \<open>fifo\<close>, which the queue interprets.
\<close>

record QueuedLine =
  display :: pystr
  payload :: pystr
  internal :: bool

type_synonym InputQueue = "QueuedLine list"

section \<open>Operations\<close>

definition q_append :: "pystr \<Rightarrow> pystr \<Rightarrow> bool \<Rightarrow> InputQueue \<Rightarrow> int \<times> InputQueue" where
  "q_append d p i q =
     (let q' = q @ [\<lparr>display = d, payload = p, internal = i\<rparr>] in (int (length q'), q'))"

definition pop_next :: "InputQueue \<Rightarrow> QueuedLine option \<times> InputQueue" where
  "pop_next q = (case q of [] \<Rightarrow> (None, []) | x # xs \<Rightarrow> (Some x, xs))"

definition clear :: "InputQueue \<Rightarrow> int \<times> InputQueue" where
  "clear q = (int (length q), [])"

definition drop_internal :: "InputQueue \<Rightarrow> int \<times> InputQueue" where
  "drop_internal q = (let q' = filter (\<lambda>it. \<not> internal it) q in (int (length q) - int (length q'), q'))"

text \<open>\<^verbatim>\<open>items.pop(i)\<close> for an index in range.\<close>

definition pop_at :: "nat \<Rightarrow> 'a list \<Rightarrow> 'a \<times> 'a list" where
  "pop_at i xs = (xs ! i, take i xs @ drop (Suc i) xs)"

definition cancel :: "int \<Rightarrow> InputQueue \<Rightarrow> QueuedLine option \<times> InputQueue" where
  "cancel index q =
     (if index < 1 \<or> index > int (length q) then (None, q)
      else map_prod Some id (pop_at (nat (index - 1)) q))"

definition user_items :: "InputQueue \<Rightarrow> QueuedLine list" where
  "user_items q = filter (\<lambda>it. \<not> internal it) q"

definition user_count :: "InputQueue \<Rightarrow> int" where
  "user_count q = sum_list (map (\<lambda>it. if internal it then 0 else 1) q)"

definition positions :: "InputQueue \<Rightarrow> nat list" where
  "positions q = filter (\<lambda>i. \<not> internal (q ! i)) [0..<length q]"

definition cancel_user :: "int \<Rightarrow> InputQueue \<Rightarrow> QueuedLine option \<times> InputQueue" where
  "cancel_user index q =
     (let ps = positions q
      in if index < 1 \<or> index > int (length ps) then (None, q)
         else map_prod Some id (pop_at (ps ! nat (index - 1)) q))"

text \<open>\<^verbatim>\<open>items.insert(i, x)\<close> for \<^verbatim>\<open>0 <= i\<close>: past the end it appends.\<close>

definition insert_at :: "nat \<Rightarrow> 'a \<Rightarrow> 'a list \<Rightarrow> 'a list" where
  "insert_at i x xs = take i xs @ x # drop i xs"

definition q_move :: "int \<Rightarrow> int \<Rightarrow> InputQueue \<Rightarrow> bool \<times> InputQueue" where
  "q_move from_index to_index q =
     (if from_index < 1 \<or> from_index > int (length q) then (False, q)
      else if to_index < 1 \<or> to_index > int (length q) then (False, q)
      else if from_index = to_index then (True, q)
      else (let (item, rest) = pop_at (nat (from_index - 1)) q
            in (True, insert_at (nat (to_index - 1)) item rest)))"

section \<open>The contract\<close>

locale fifo =
  fixes enq :: "'a \<Rightarrow> 'q \<Rightarrow> 'q"
    and deq :: "'q \<Rightarrow> 'a option \<times> 'q"
    and items :: "'q \<Rightarrow> 'a list"
    and nil :: 'q
  assumes items_nil: "items nil = []"
    and items_enq: "items (enq x q) = items q @ [x]"
    and deq_empty: "items q = [] \<Longrightarrow> fst (deq q) = None \<and> items (snd (deq q)) = []"
    and deq_cons: "items q = x # xs \<Longrightarrow> fst (deq q) = Some x \<and> items (snd (deq q)) = xs"
begin

fun drain :: "nat \<Rightarrow> 'q \<Rightarrow> 'a list" where
  "drain 0 q = []"
| "drain (Suc n) q = (case deq q of (None, _) \<Rightarrow> [] | (Some x, q') \<Rightarrow> x # drain n q')"

lemma drain_items: "length (items q) \<le> n \<Longrightarrow> drain n q = items q"
proof (induction n arbitrary: q)
  case (Suc n)
  show ?case
  proof (cases "items q")
    case Nil
    then show ?thesis using deq_empty[of q] by (cases "deq q") (auto split: option.split)
  next
    case (Cons x xs)
    then obtain q' where "deq q = (Some x, q')" "items q' = xs"
      using deq_cons[of q x xs] by (cases "deq q") auto
    with Suc Cons show ?thesis by simp
  qed
qed simp

lemma items_fold: "items (fold enq xs q) = items q @ xs"
  by (induction xs arbitrary: q) (simp_all add: items_enq)

lemma fifo_order: "drain (length xs) (fold enq xs nil) = xs"
  by (simp add: drain_items items_fold items_nil)

end

definition enq_line :: "QueuedLine \<Rightarrow> InputQueue \<Rightarrow> InputQueue" where
  "enq_line l q = snd (q_append (display l) (payload l) (internal l) q)"

interpretation input_queue: fifo enq_line pop_next "\<lambda>q. q" "[]"
  by unfold_locales (auto simp: enq_line_def q_append_def pop_next_def Let_def)

section \<open>Lemmas\<close>

lemma pop_at_mset: "i < length xs \<Longrightarrow> add_mset (fst (pop_at i xs)) (mset (snd (pop_at i xs))) = mset xs"
  by (subst (3) id_take_nth_drop[of i xs]) (simp_all add: pop_at_def)

lemma pop_at_length: "i < length xs \<Longrightarrow> length (snd (pop_at i xs)) = length xs - 1"
  by (simp add: pop_at_def)

lemma insert_at_mset: "mset (insert_at i x xs) = add_mset x (mset xs)"
  unfolding insert_at_def by simp (metis append_take_drop_id mset_append union_commute)

lemma insert_at_nth: "i \<le> length xs \<Longrightarrow> insert_at i x xs ! i = x"
  by (simp add: insert_at_def nth_append)

lemma positions_props:
  assumes "k < length (positions q)"
  shows "positions q ! k < length q" "\<not> internal (q ! (positions q ! k))"
  using nth_mem[OF assms] by (auto simp: positions_def)

lemma map_positions: "map ((!) q) (positions q) = user_items q"
proof -
  have "user_items q = filter (\<lambda>it. \<not> internal it) (map ((!) q) [0..<length q])"
    by (simp add: user_items_def map_nth)
  also have "\<dots> = map ((!) q) (positions q)"
    by (simp add: positions_def filter_map comp_def)
  finally show ?thesis by simp
qed

lemma user_items_pop_at:
  assumes "i < length q"
  shows "user_items (snd (pop_at i q)) =
     (if internal (q ! i) then user_items q
      else take (length (user_items (take i q))) (user_items q) @ drop (Suc (length (user_items (take i q)))) (user_items q))"
proof -
  have q: "q = take i q @ q ! i # drop (Suc i) q" using assms by (rule id_take_nth_drop)
  have "user_items q = user_items (take i q) @ (if internal (q ! i) then [] else [q ! i]) @ user_items (drop (Suc i) q)"
    by (subst q) (simp add: user_items_def)
  then show ?thesis by (simp add: pop_at_def user_items_def)
qed

section \<open>Properties\<close>

text \<open>
  First in, first out: whatever lines are queued, taking them out one by one yields exactly the
  lines in the order they were queued.
\<close>

theorem queue_fifo:
  "input_queue.drain (length ls) (fold (\<lambda>l q. snd (q_append (display l) (payload l) (internal l) q)) ls []) = ls"
  using input_queue.fifo_order[of ls] by (simp add: enq_line_def[abs_def])

text \<open>
  Steering by number can never take an internal line: cancelling the n-th user line either finds
  none and changes nothing, or removes exactly one line, which is the n-th line the user sees and is
  not internal.
\<close>

theorem cancel_user_never_internal:
  "case cancel_user n q of
     (None, q') \<Rightarrow> q' = q \<and> (n < 1 \<or> n > int (length (user_items q)))
   | (Some l, q') \<Rightarrow> \<not> internal l \<and> l = user_items q ! nat (n - 1) \<and> add_mset l (mset q') = mset q"
proof -
  have len: "length (positions q) = length (user_items q)"
    using arg_cong[OF map_positions[of q], of length] by simp
  show ?thesis
  proof (cases "n < 1 \<or> n > int (length (positions q))")
    case False
    let ?k = "nat (n - 1)"
    have k: "?k < length (positions q)" using False by linarith
    note p = positions_props[OF k]
    have "q ! (positions q ! ?k) = user_items q ! ?k"
      using k by (simp flip: map_positions)
    with p pop_at_mset[OF p(1)] False show ?thesis
      by (simp add: cancel_user_def Let_def pop_at_def)
  qed (simp add: cancel_user_def len)
qed

text \<open>
  Reordering loses and duplicates nothing and puts the moved line where it was asked to go; an
  index out of range changes nothing and is reported.
\<close>

theorem move_permutes:
  "mset (snd (q_move i j q)) = mset q
   \<and> (if 1 \<le> i \<and> i \<le> int (length q) \<and> 1 \<le> j \<and> j \<le> int (length q)
      then fst (q_move i j q) \<and> snd (q_move i j q) ! nat (j - 1) = q ! nat (i - 1)
      else q_move i j q = (False, q))"
proof (cases "1 \<le> i \<and> i \<le> int (length q) \<and> 1 \<le> j \<and> j \<le> int (length q) \<and> i \<noteq> j")
  case True
  let ?i = "nat (i - 1)" and ?j = "nat (j - 1)"
  have i: "?i < length q" and j: "?j \<le> length (snd (pop_at ?i q))"
    using True pop_at_length[of ?i q] by (auto simp: nat_less_iff nat_le_iff)
  have m: "q_move i j q = (True, insert_at ?j (fst (pop_at ?i q)) (snd (pop_at ?i q)))"
    using True by (auto simp: q_move_def split_beta)
  show ?thesis
    using True pop_at_mset[OF i] insert_at_nth[OF j] unfolding m
    by (simp add: insert_at_mset) (simp add: pop_at_def)
qed (auto simp: q_move_def)

end
