(* ===== verification/Cost.thy ===== *)
theory Cost
  imports Complex_Main Bridge
begin

text \<open>
  Cost accounting: \<^verbatim>\<open>src/src/jarn/cost/pricing.py\<close> (prices and the price of a call),
  \<^verbatim>\<open>src/src/jarn/cost/usage.py\<close> (reading a provider's usage record) and
  \<^verbatim>\<open>src/src/jarn/cost/tracker.py\<close> (the per-session tracker and its budget).

  Token counts are Python integers. Amounts are floating-point numbers: their arithmetic is the
  record \<open>flops\<close>, an argument of the definitions, so that no theorem depends on exact sums
  unless it says so; \<open>rat_flops\<close> is exact arithmetic.
\<close>

section \<open>Floating-point operations\<close>

record 'f flops =
  f_add :: "'f \<Rightarrow> 'f \<Rightarrow> 'f"
  f_mul :: "'f \<Rightarrow> 'f \<Rightarrow> 'f"
  f_div :: "'f \<Rightarrow> 'f \<Rightarrow> 'f"
  f_quot :: "int \<Rightarrow> int \<Rightarrow> 'f"
  f_le :: "'f \<Rightarrow> 'f \<Rightarrow> bool"
  f_finite :: "'f \<Rightarrow> bool"
  f_parse :: "json \<Rightarrow> 'f option"

definition f_of :: "('f, 'z) flops_scheme \<Rightarrow> int \<Rightarrow> 'f" where
  "f_of A n = f_quot A n 1"

definition rat_flops :: "rat flops" where
  "rat_flops = \<lparr>f_add = (+), f_mul = (*), f_div = (/), f_quot = (\<lambda>a b. of_int a / of_int b), f_le = (\<le>),
     f_finite = (\<lambda>_. True), f_parse = (\<lambda>j. case j of JInt i \<Rightarrow> Some (of_int i) | _ \<Rightarrow> None)\<rparr>"

section \<open>Prices\<close>

record 'f Price =
  input_per_mtok :: 'f
  output_per_mtok :: 'f
  cache_read_rate :: "'f option"
  cache_write_rate :: "'f option"

definition norm_slug :: "pystr \<Rightarrow> pystr" where
  "norm_slug s = replace_chr 46 45 s"

text \<open>\<^verbatim>\<open>max(matches, key=len)\<close>: the first of the longest keys.\<close>

fun longest :: "(pystr \<times> 'v) \<Rightarrow> (pystr \<times> 'v) list \<Rightarrow> (pystr \<times> 'v)" where
  "longest b [] = b"
| "longest b (x # xs) = longest (if length (fst x) > length (fst b) then x else b) xs"

definition match_substr :: "(pystr, 'v) pydict \<Rightarrow> pystr \<Rightarrow> 'v option" where
  "match_substr table model_id =
     (case filter (\<lambda>(k, v). contains (norm_slug model_id) (norm_slug k)) table of
        [] \<Rightarrow> None | m # ms \<Rightarrow> Some (snd (longest m ms)))"

text \<open>\<^verbatim>\<open>_valid_rate\<close>; \<open>None\<close> is \<^verbatim>\<open>TypeError\<close> or \<^verbatim>\<open>ValueError\<close>.\<close>

definition valid_rate :: "'f flops \<Rightarrow> json \<Rightarrow> 'f option" where
  "valid_rate A x =
     (case x of JBool _ \<Rightarrow> None
      | _ \<Rightarrow> (case f_parse A x of None \<Rightarrow> None
              | Some v \<Rightarrow> if \<not> f_finite A v \<or> \<not> f_le A (f_of A 0) v then None else Some v))"

definition safe_cache_rate :: "'f flops \<Rightarrow> json \<Rightarrow> 'f option" where
  "safe_cache_rate A raw = (if raw = JNull then None else valid_rate A raw)"

text \<open>\<^verbatim>\<open>int(x)\<close> of a JSON value.\<close>

datatype int_result = IntOk int | IntTypeError | IntValueError | IntOverflowError

record int_conv =
  i_of_float :: "pystr \<Rightarrow> int_result"
  i_of_str :: "pystr \<Rightarrow> int_result"

fun py_int :: "int_conv \<Rightarrow> json \<Rightarrow> int_result" where
  "py_int C (JInt i) = IntOk i"
| "py_int C (JBool b) = IntOk (if b then 1 else 0)"
| "py_int C (JFloat x) = i_of_float C x"
| "py_int C (JStr s) = i_of_str C s"
| "py_int C _ = IntTypeError"

record 'f catalog_entry =
  ce_price :: "'f Price"
  ce_context :: int

definition entry_context :: "pyuni \<Rightarrow> int_conv \<Rightarrow> json \<Rightarrow> int option" where
  "entry_context U C raw =
     (if \<not> truthy U raw then Some 0
      else (case py_int C raw of IntOk i \<Rightarrow> Some i | IntOverflowError \<Rightarrow> None | _ \<Rightarrow> Some 0))"

text \<open>\<^verbatim>\<open>_validate_catalog\<close> on the mapping of slugs to entries. \<open>None\<close> is the
  \<^verbatim>\<open>OverflowError\<close> of \<^verbatim>\<open>int\<close> on an infinite context, which is not caught.\<close>

fun validate_catalog :: "pyuni \<Rightarrow> int_conv \<Rightarrow> 'f flops \<Rightarrow> (pystr, json) pydict
    \<Rightarrow> (pystr, 'f catalog_entry) pydict \<Rightarrow> (pystr, 'f catalog_entry) pydict option" where
  "validate_catalog U C A [] out = Some out"
| "validate_catalog U C A ((slug, entry) # raw) out =
     (if slug = [] then validate_catalog U C A raw out
      else (case entry of
          JObj e \<Rightarrow>
            (case (valid_rate A (aget e ''input''), valid_rate A (aget e ''output'')) of
               (Some inp, Some outp) \<Rightarrow>
                 (case entry_context U C (aget e ''context'') of
                    None \<Rightarrow> None
                  | Some ctx \<Rightarrow> validate_catalog U C A raw
                      (dput slug \<lparr>ce_price = \<lparr>input_per_mtok = inp, output_per_mtok = outp,
                           cache_read_rate = safe_cache_rate A (aget e ''cache_read''),
                           cache_write_rate = safe_cache_rate A (aget e ''cache_write'')\<rparr>, ce_context = ctx\<rparr> out))
             | _ \<Rightarrow> validate_catalog U C A raw out)
        | _ \<Rightarrow> validate_catalog U C A raw out))"

text \<open>\<^verbatim>\<open>_parse_price_overrides\<close> on the parsed mapping.\<close>

definition opt_rate :: "'f flops \<Rightarrow> json \<Rightarrow> 'f option option" where
  "opt_rate A v = (if v = JNull then Some None else map_option Some (valid_rate A v))"

fun parse_price_overrides :: "'f flops \<Rightarrow> (pystr, json) pydict \<Rightarrow> (pystr, 'f Price) pydict
    \<Rightarrow> (pystr, 'f Price) pydict" where
  "parse_price_overrides A [] out = out"
| "parse_price_overrides A ((key, val) # raw) out =
     (case val of
        JObj v \<Rightarrow>
          (if u ''input'' \<in> set (dkeys v) \<and> u ''output'' \<in> set (dkeys v) then
             (case (valid_rate A (aget v ''input''), valid_rate A (aget v ''output''),
                    opt_rate A (aget v ''cache_read''), opt_rate A (aget v ''cache_write'')) of
                (Some inp, Some outp, Some cr, Some cw) \<Rightarrow>
                  parse_price_overrides A raw (dput key \<lparr>input_per_mtok = inp, output_per_mtok = outp,
                      cache_read_rate = cr, cache_write_rate = cw\<rparr> out)
              | _ \<Rightarrow> parse_price_overrides A raw out)
           else parse_price_overrides A raw out)
      | _ \<Rightarrow> parse_price_overrides A raw out)"

definition OR_VENDOR_ALIAS :: "(pystr, pystr) pydict" where
  "OR_VENDOR_ALIAS = [(u ''mistral'', u ''mistralai''), (u ''xai'', u ''x-ai'')]"

definition catalog_get :: "(pystr, 'e) pydict \<Rightarrow> pystr \<Rightarrow> 'e option" where
  "catalog_get cat model_id =
     (if dget cat model_id \<noteq> None then dget cat model_id
      else if 47 \<in> set model_id then
        (let profile = before_first 47 model_id; rest = drop (Suc (length profile)) model_id
         in if dget cat rest \<noteq> None then dget cat rest
            else (case dget OR_VENDOR_ALIAS profile of None \<Rightarrow> None
                  | Some al \<Rightarrow> dget cat (al @ [47] @ rest)))
      else None)"

text \<open>The three sources of prices and of context windows.\<close>

record 'f price_tables =
  pt_overrides :: "(pystr, 'f Price) pydict"
  pt_builtin :: "(pystr, 'f Price) pydict"
  pt_catalog :: "(pystr, 'f catalog_entry) pydict"
  pt_window_overrides :: "(pystr, int) pydict"

definition price_lookup :: "'f price_tables \<Rightarrow> pystr \<Rightarrow> 'f Price option" where
  "price_lookup T model_id =
     (case match_substr (pt_overrides T) model_id of Some p \<Rightarrow> Some p
      | None \<Rightarrow> (case match_substr (pt_builtin T) model_id of Some p \<Rightarrow> Some p
        | None \<Rightarrow> map_option ce_price (catalog_get (pt_catalog T) model_id)))"

definition CONTEXT_WINDOWS :: "(pystr, int) pydict" where
  "CONTEXT_WINDOWS = [(u ''claude-opus-4-8'', 200000), (u ''claude-sonnet-4-5'', 200000),
     (u ''claude-haiku-4-5'', 200000), (u ''qwen3-coder'', 256000)]"

definition context_window :: "'f price_tables \<Rightarrow> pystr \<Rightarrow> int" where
  "context_window T model_id =
     (let nz = (\<lambda>x. case x of None \<Rightarrow> None | Some n \<Rightarrow> if n = 0 then None else Some n)
      in case nz (match_substr (pt_window_overrides T) model_id) of Some n \<Rightarrow> n
         | None \<Rightarrow> (case nz (match_substr CONTEXT_WINDOWS model_id) of Some n \<Rightarrow> n
           | None \<Rightarrow> (case nz (map_option ce_context (catalog_get (pt_catalog T) model_id)) of Some n \<Rightarrow> n
             | None \<Rightarrow> 0)))"

definition cost_of :: "'f flops \<Rightarrow> 'f price_tables \<Rightarrow> pystr \<Rightarrow> int \<Rightarrow> int \<Rightarrow> int \<Rightarrow> int \<Rightarrow> 'f option" where
  "cost_of A T model_id inp outp cr cw =
     (case price_lookup T model_id of None \<Rightarrow> None
      | Some price \<Rightarrow>
         let rr = (case cache_read_rate price of Some r \<Rightarrow> r | None \<Rightarrow> input_per_mtok price);
             wr = (case cache_write_rate price of Some r \<Rightarrow> r | None \<Rightarrow> input_per_mtok price);
             plain_input = max 0 (inp - cr - cw);
             m = (\<lambda>n rate. f_mul A (f_quot A n 1000000) rate)
         in Some (f_add A (f_add A (f_add A (m plain_input (input_per_mtok price))
              (m outp (output_per_mtok price))) (m cr rr)) (m cw wr)))"

section \<open>Usage records\<close>

record TokenCounts =
  tc_input :: int
  tc_output :: int
  tc_cache_read :: int
  tc_cache_creation :: int

datatype usage_error = UOverflowError | UAttributeError

definition as_int :: "pyuni \<Rightarrow> int_conv \<Rightarrow> json \<Rightarrow> usage_error + int" where
  "as_int U C v =
     (case py_int C (if truthy U v then v else JInt 0) of
        IntOk i \<Rightarrow> Inr (max 0 i)
      | IntOverflowError \<Rightarrow> Inl UOverflowError
      | _ \<Rightarrow> Inr 0)"

definition bind_sum :: "'e + 'a \<Rightarrow> ('a \<Rightarrow> 'e + 'b) \<Rightarrow> 'e + 'b" where
  "bind_sum x f = (case x of Inl e \<Rightarrow> Inl e | Inr a \<Rightarrow> f a)"

definition normalize_usage :: "pyuni \<Rightarrow> int_conv \<Rightarrow> args option \<Rightarrow> usage_error + TokenCounts option" where
  "normalize_usage U C usage =
     (case usage of None \<Rightarrow> Inr None
      | Some us \<Rightarrow>
         if us = [] then Inr None
         else (case aget_or U us [''input_token_details''] (JObj []) of
             JObj details \<Rightarrow>
               bind_sum (as_int U C (aget details ''cache_creation'')) (\<lambda>cc0.
               bind_sum (if cc0 \<noteq> 0 then Inr cc0
                   else bind_sum (as_int U C (aget details ''ephemeral_5m_input_tokens'')) (\<lambda>a.
                        bind_sum (as_int U C (aget details ''ephemeral_1h_input_tokens'')) (\<lambda>b. Inr (a + b)))) (\<lambda>cc.
               bind_sum (as_int U C (aget us ''input_tokens'')) (\<lambda>i.
               bind_sum (as_int U C (aget us ''output_tokens'')) (\<lambda>o1.
               bind_sum (as_int U C (aget details ''cache_read'')) (\<lambda>r.
                 Inr (Some \<lparr>tc_input = i, tc_output = o1, tc_cache_read = r, tc_cache_creation = cc\<rparr>))))))
           | _ \<Rightarrow> Inl UAttributeError))"

section \<open>The tracker\<close>

record 'f Usage =
  input_tokens :: int
  output_tokens :: int
  cost_usd :: 'f
  ucalls :: int
  unpriced_calls :: int
  cache_read_tokens :: int
  cache_creation_tokens :: int

record 'f BudgetConfig =
  per_session_usd :: "'f option"
  hard_stop :: bool
  warn_at_pct :: int

record 'f CostTracker =
  budget :: "'f BudgetConfig"
  total :: "'f Usage"
  per_model :: "(pystr, 'f Usage) pydict"
  per_tool :: "(pystr, 'f Usage) pydict"
  per_namespace :: "(pystr, 'f Usage) pydict"
  context_tokens :: int

datatype BudgetStatus = OK | WARN | EXCEEDED

definition zero_usage :: "'f flops \<Rightarrow> 'f Usage" where
  "zero_usage A = \<lparr>input_tokens = 0, output_tokens = 0, cost_usd = f_of A 0, ucalls = 0, unpriced_calls = 0,
     cache_read_tokens = 0, cache_creation_tokens = 0\<rparr>"

definition RESPONSE_TOOL :: pystr where
  "RESPONSE_TOOL = u ''(response)''"

text \<open>The in-place additions to a bucket.\<close>

definition bump :: "'f flops \<Rightarrow> int \<Rightarrow> int \<Rightarrow> 'f \<Rightarrow> int \<Rightarrow> int \<Rightarrow> int \<Rightarrow> int \<Rightarrow> 'f Usage \<Rightarrow> 'f Usage" where
  "bump A inp outp cost calls unpriced cr cw us =
     us\<lparr>input_tokens := input_tokens us + inp, output_tokens := output_tokens us + outp,
        cost_usd := f_add A (cost_usd us) cost, ucalls := ucalls us + calls,
        unpriced_calls := unpriced_calls us + unpriced,
        cache_read_tokens := cache_read_tokens us + cr, cache_creation_tokens := cache_creation_tokens us + cw\<rparr>"

text \<open>\<^verbatim>\<open>d.setdefault(k, Usage())\<close> followed by an update of the bucket.\<close>

definition upd_bucket :: "'f flops \<Rightarrow> pystr \<Rightarrow> ('f Usage \<Rightarrow> 'f Usage) \<Rightarrow> (pystr, 'f Usage) pydict \<Rightarrow> (pystr, 'f Usage) pydict" where
  "upd_bucket A k f d = dput k (f (case dget d k of None \<Rightarrow> zero_usage A | Some us \<Rightarrow> us)) d"

definition or_zero :: "'f flops \<Rightarrow> 'f option \<Rightarrow> 'f" where
  "or_zero A c = (case c of None \<Rightarrow> f_of A 0 | Some x \<Rightarrow> x)"

definition record_aggregate :: "'f flops \<Rightarrow> 'f price_tables \<Rightarrow> pystr \<Rightarrow> int \<Rightarrow> int \<Rightarrow> int \<Rightarrow> int \<Rightarrow> bool \<Rightarrow> bool
    \<Rightarrow> 'f CostTracker \<Rightarrow> 'f CostTracker" where
  "record_aggregate A T model_id inp outp cr cw increment_call is_main tr =
     (let cost = cost_of A T model_id inp outp cr cw;
          f = bump A inp outp (or_zero A cost) (if increment_call then 1 else 0)
                (if cost = None \<and> increment_call then 1 else 0) cr cw;
          p = inp + cr + cw
      in tr\<lparr>per_model := upd_bucket A model_id f (per_model tr), total := f (total tr),
            context_tokens := (if is_main \<and> p > 0 then p else context_tokens tr)\<rparr>)"

definition record_tool_share :: "'f flops \<Rightarrow> 'f price_tables \<Rightarrow> pystr \<Rightarrow> int \<Rightarrow> int \<Rightarrow> int \<Rightarrow> int \<Rightarrow> int \<Rightarrow> pystr
    \<Rightarrow> 'f CostTracker \<Rightarrow> 'f CostTracker" where
  "record_tool_share A T tl_name inp outp calls cr cw model_id tr =
     (let cost = cost_of A T model_id inp outp cr cw
      in tr\<lparr>per_tool := upd_bucket A tl_name
             (bump A inp outp (or_zero A cost) calls (if cost = None then calls else 0) cr cw) (per_tool tr)\<rparr>)"

text \<open>The share of tool \<open>i\<close> of an amount split over \<open>n\<close> tools with \<^verbatim>\<open>divmod\<close>.\<close>

definition share :: "int \<Rightarrow> int \<Rightarrow> nat \<Rightarrow> int" where
  "share x n i = x div n + (if int i < x mod n then 1 else 0)"

definition record_call :: "'f flops \<Rightarrow> 'f price_tables \<Rightarrow> pystr \<Rightarrow> int \<Rightarrow> int \<Rightarrow> pystr option \<Rightarrow> pystr list
    \<Rightarrow> int \<Rightarrow> int \<Rightarrow> bool \<Rightarrow> bool \<Rightarrow> 'f CostTracker \<Rightarrow> 'f Usage \<times> 'f CostTracker" where
  "record_call A T model_id inp outp tl_name tools cr cw increment_call is_main tr =
     (let tool_names = (case filter (\<lambda>t. t \<noteq> []) tools of
            [] \<Rightarrow> [if truthy_tool tl_name \<noteq> [] then truthy_tool tl_name else RESPONSE_TOOL] | ts \<Rightarrow> ts);
          n = int (length tool_names);
          tr1 = record_aggregate A T model_id inp outp cr cw increment_call is_main tr;
          tr2 = fold (\<lambda>(i, t) tr. record_tool_share A T t (share inp n i) (share outp n i)
                   (if increment_call then share 1 n i else 0) (share cr n i) (share cw n i) model_id tr)
                 (enumerate 0 tool_names) tr1
      in (total tr2, tr2))"

definition record_task_usage :: "'f flops \<Rightarrow> 'f price_tables \<Rightarrow> pystr \<Rightarrow> pystr \<Rightarrow> int \<Rightarrow> int \<Rightarrow> int \<Rightarrow> int
    \<Rightarrow> 'f CostTracker \<Rightarrow> 'f Usage \<times> 'f CostTracker" where
  "record_task_usage A T namespace model_id inp outp cr cw tr =
     (let cost = cost_of A T model_id inp outp cr cw;
          d = upd_bucket A namespace (bump A inp outp (or_zero A cost) 1 (if cost = None then 1 else 0) cr cw)
                (per_namespace tr)
      in (the (dget d namespace), tr\<lparr>per_namespace := d\<rparr>))"

fun insort_desc :: "'f flops \<Rightarrow> (pystr \<times> 'f Usage) \<Rightarrow> (pystr \<times> 'f Usage) list \<Rightarrow> (pystr \<times> 'f Usage) list" where
  "insort_desc A x [] = [x]"
| "insort_desc A x (y # ys) =
     (if f_le A (cost_usd (snd y)) (cost_usd (snd x)) then x # y # ys else y # insort_desc A x ys)"

definition top_tools :: "'f flops \<Rightarrow> nat \<Rightarrow> 'f CostTracker \<Rightarrow> (pystr \<times> 'f Usage) list" where
  "top_tools A limit tr = take limit (foldr (insort_desc A) (per_tool tr) [])"

definition is_zero :: "'f flops \<Rightarrow> 'f \<Rightarrow> bool" where
  "is_zero A x \<longleftrightarrow> f_le A x (f_of A 0) \<and> f_le A (f_of A 0) x"

definition fraction_used :: "'f flops \<Rightarrow> 'f CostTracker \<Rightarrow> 'f" where
  "fraction_used A tr =
     (case per_session_usd (budget tr) of None \<Rightarrow> f_of A 0
      | Some l \<Rightarrow> if is_zero A l then f_of A 1 else f_div A (cost_usd (total tr)) l)"

definition budget_status :: "'f flops \<Rightarrow> 'f CostTracker \<Rightarrow> BudgetStatus" where
  "budget_status A tr =
     (case per_session_usd (budget tr) of None \<Rightarrow> OK
      | Some l \<Rightarrow>
         if is_zero A l then EXCEEDED
         else (let frac = f_div A (cost_usd (total tr)) l
               in if f_le A (f_of A 1) frac then EXCEEDED
                  else if unpriced_calls (total tr) > 0 \<and> hard_stop (budget tr) then WARN
                  else if f_le A (f_of A (warn_at_pct (budget tr))) (f_mul A frac (f_of A 100)) then WARN
                  else OK))"

definition should_stop :: "'f flops \<Rightarrow> 'f CostTracker \<Rightarrow> bool" where
  "should_stop A tr \<longleftrightarrow> per_session_usd (budget tr) \<noteq> None \<and> hard_stop (budget tr) \<and> budget_status A tr = EXCEEDED"

text \<open>\<^verbatim>\<open>check_or_raise\<close>; \<open>Inl\<close> is \<^verbatim>\<open>BudgetExceeded\<close> with what was spent and the limit.\<close>

definition check_or_raise :: "'f flops \<Rightarrow> 'f CostTracker \<Rightarrow> ('f \<times> 'f) + unit" where
  "check_or_raise A tr =
     (if should_stop A tr then Inl (cost_usd (total tr), the (per_session_usd (budget tr))) else Inr ())"

section \<open>Shares and sums\<close>

lemma count_below: "0 \<le> r \<Longrightarrow> r \<le> int n \<Longrightarrow> (\<Sum>i < n. if int i < r then 1 else (0 :: int)) = r"
proof (induction n arbitrary: r)
  case (Suc n)
  show ?case
  proof (cases "r \<le> int n")
    case True
    with Suc.IH[of r] Suc.prems show ?thesis by simp
  next
    case False
    then have r: "r = int n + 1" using Suc.prems by simp
    have "(\<Sum>i < n. if int i < r then 1 else (0 :: int)) = (\<Sum>i < n. 1)"
      by (rule sum.cong) (auto simp: r)
    then show ?thesis by (simp add: r)
  qed
qed simp

lemma share_sum: "0 < n \<Longrightarrow> (\<Sum>i < n. share x (int n) i) = x"
proof -
  assume n: "0 < n"
  have "(\<Sum>i < n. share x (int n) i) = int n * (x div int n) + (\<Sum>i < n. if int i < x mod int n then 1 else (0 :: int))"
    by (simp add: share_def sum.distrib)
  also have "\<dots> = int n * (x div int n) + x mod int n"
    using n count_below[of "x mod int n" n] by (simp add: less_imp_le)
  finally show ?thesis by simp
qed

definition bucket_sum :: "('u \<Rightarrow> int) \<Rightarrow> (pystr \<times> 'u) list \<Rightarrow> int" where
  "bucket_sum g d = sum_list (map (\<lambda>(k, us). g us) d)"

lemma bucket_sum_dput:
  "bucket_sum g (dput k v d) = bucket_sum g d - (case dget d k of None \<Rightarrow> 0 | Some w \<Rightarrow> g w) + g v"
  by (induction k v d rule: dput.induct) (auto simp: bucket_sum_def)

text \<open>A figure of a bucket that starts at zero and grows by a fixed amount.\<close>

definition counts :: "'f flops \<Rightarrow> ('f Usage \<Rightarrow> int) \<Rightarrow> ('f Usage \<Rightarrow> 'f Usage) \<Rightarrow> int \<Rightarrow> bool" where
  "counts A g f c \<longleftrightarrow> g (zero_usage A) = 0 \<and> (\<forall>us. g (f us) = g us + c)"

lemma bucket_sum_upd: "counts A g f c \<Longrightarrow> bucket_sum g (upd_bucket A k f d) = bucket_sum g d + c"
  by (auto simp: upd_bucket_def bucket_sum_dput counts_def split: option.split)

lemma counts_bump:
  "counts A input_tokens (bump A a b c d e f g) a" "counts A output_tokens (bump A a b c d e f g) b"
  "counts A ucalls (bump A a b c d e f g) d" "counts A unpriced_calls (bump A a b c d e f g) e"
  "counts A cache_read_tokens (bump A a b c d e f g) f"
  "counts A cache_creation_tokens (bump A a b c d e f g) g"
  by (simp_all add: counts_def bump_def zero_usage_def)

text \<open>The integer figures of a tracker reconcile when both breakdowns sum to the total.\<close>

definition figures :: "('f Usage \<Rightarrow> int) list" where
  "figures = [input_tokens, output_tokens, ucalls, unpriced_calls, cache_read_tokens, cache_creation_tokens]"

definition reconciled :: "'f CostTracker \<Rightarrow> bool" where
  "reconciled tr \<longleftrightarrow> list_all (\<lambda>g. bucket_sum g (per_tool tr) = g (total tr)
     \<and> bucket_sum g (per_model tr) = g (total tr)) figures"

lemma cost_of_None: "cost_of A T m a b c d = None \<longleftrightarrow> price_lookup T m = None"
  by (simp add: cost_of_def Let_def split: option.split)

definition share_loop :: "'f flops \<Rightarrow> 'f price_tables \<Rightarrow> pystr \<Rightarrow> int \<Rightarrow> int \<Rightarrow> int \<Rightarrow> int \<Rightarrow> bool \<Rightarrow> int
    \<Rightarrow> (nat \<times> pystr) list \<Rightarrow> 'f CostTracker \<Rightarrow> 'f CostTracker" where
  "share_loop A T model_id inp outp cr cw increment_call n its tr =
     fold (\<lambda>(i, t) tr. record_tool_share A T t (share inp n i) (share outp n i)
         (if increment_call then share 1 n i else 0) (share cr n i) (share cw n i) model_id tr) its tr"

lemma share_loop_simps:
  "share_loop A T m inp outp cr cw ic n [] tr = tr"
  "share_loop A T m inp outp cr cw ic n ((i, t) # its) tr = share_loop A T m inp outp cr cw ic n its
     (record_tool_share A T t (share inp n i) (share outp n i) (if ic then share 1 n i else 0)
       (share cr n i) (share cw n i) m tr)"
  by (simp_all add: share_loop_def)

lemma share_loop_frame:
  "total (share_loop A T m inp outp cr cw ic n its tr) = total tr"
  "per_model (share_loop A T m inp outp cr cw ic n its tr) = per_model tr"
  "budget (share_loop A T m inp outp cr cw ic n its tr) = budget tr"
  by (induction its arbitrary: tr)
     (auto simp: share_loop_simps record_tool_share_def Let_def)

lemma share_loop_sums:
  "bucket_sum input_tokens (per_tool (share_loop A T m inp outp cr cw ic n its tr))
     = bucket_sum input_tokens (per_tool tr) + sum_list (map (\<lambda>(i, t). share inp n i) its)"
  "bucket_sum output_tokens (per_tool (share_loop A T m inp outp cr cw ic n its tr))
     = bucket_sum output_tokens (per_tool tr) + sum_list (map (\<lambda>(i, t). share outp n i) its)"
  "bucket_sum ucalls (per_tool (share_loop A T m inp outp cr cw ic n its tr))
     = bucket_sum ucalls (per_tool tr) + sum_list (map (\<lambda>(i, t). if ic then share 1 n i else 0) its)"
  "bucket_sum unpriced_calls (per_tool (share_loop A T m inp outp cr cw ic n its tr))
     = bucket_sum unpriced_calls (per_tool tr)
       + sum_list (map (\<lambda>(i, t). if price_lookup T m = None then if ic then share 1 n i else 0 else 0) its)"
  "bucket_sum cache_read_tokens (per_tool (share_loop A T m inp outp cr cw ic n its tr))
     = bucket_sum cache_read_tokens (per_tool tr) + sum_list (map (\<lambda>(i, t). share cr n i) its)"
  "bucket_sum cache_creation_tokens (per_tool (share_loop A T m inp outp cr cw ic n its tr))
     = bucket_sum cache_creation_tokens (per_tool tr) + sum_list (map (\<lambda>(i, t). share cw n i) its)"
  by (induction its arbitrary: tr)
     (auto simp: share_loop_simps record_tool_share_def Let_def cost_of_None bucket_sum_upd[OF counts_bump(1)]
        bucket_sum_upd[OF counts_bump(2)] bucket_sum_upd[OF counts_bump(3)] bucket_sum_upd[OF counts_bump(4)]
        bucket_sum_upd[OF counts_bump(5)] bucket_sum_upd[OF counts_bump(6)])

lemma sum_shares_enumerate:
  fixes ts :: "pystr list"
  assumes "ts \<noteq> []"
  shows "sum_list (map (\<lambda>(i, t). share x (int (length ts)) i) (enumerate 0 ts)) = x"
proof -
  have "map (\<lambda>(i, t). f i) (enumerate k xs) = map f [k..<k + length xs]" for f :: "nat \<Rightarrow> int" and k and xs :: "pystr list"
    by (simp add: map_fst_enumerate[symmetric] split_beta comp_def del: map_fst_enumerate)
  from this[of "share x (int (length ts))" 0 ts]
  have "map (\<lambda>(i, t). share x (int (length ts)) i) (enumerate 0 ts) = map (share x (int (length ts))) [0..<length ts]"
    by simp
  then show ?thesis
    using share_sum[of "length ts" x] assms by (simp add: interv_sum_list_conv_sum_set_nat atLeast0LessThan)
qed

lemma sum_calls_enumerate:
  fixes ts :: "pystr list"
  assumes "ts \<noteq> []"
  shows "sum_list (map (\<lambda>(i, t). if b then share 1 (int (length ts)) i else 0) (enumerate 0 ts)) = (if b then 1 else 0)"
    "sum_list (map (\<lambda>(i, t). if c then if b then share 1 (int (length ts)) i else 0 else 0) (enumerate 0 ts))
       = (if c \<and> b then 1 else 0)"
proof -
  have z: "sum_list (map (\<lambda>(i, t). 0 :: int) xs) = 0" for xs :: "(nat \<times> pystr) list"
    by (induction xs) auto
  show "sum_list (map (\<lambda>(i, t). if b then share 1 (int (length ts)) i else 0) (enumerate 0 ts)) = (if b then 1 else 0)"
    by (cases b) (simp_all only: if_True if_False sum_shares_enumerate[OF assms] z)
  then show "sum_list (map (\<lambda>(i, t). if c then if b then share 1 (int (length ts)) i else 0 else 0) (enumerate 0 ts))
       = (if c \<and> b then 1 else 0)"
    by (cases c) (simp_all only: if_True if_False z simp_thms)
qed

definition tool_names :: "pystr option \<Rightarrow> pystr list \<Rightarrow> pystr list" where
  "tool_names tl_name tools = (case filter (\<lambda>t. t \<noteq> []) tools of
      [] \<Rightarrow> [if truthy_tool tl_name \<noteq> [] then truthy_tool tl_name else RESPONSE_TOOL] | ts \<Rightarrow> ts)"

lemma tool_names_not_Nil: "tool_names tl_name tools \<noteq> []"
  by (simp add: tool_names_def split: list.split)

lemma record_call_loop:
  "snd (record_call A T m inp outp tl_name tools cr cw ic im tr) =
     share_loop A T m inp outp cr cw ic (int (length (tool_names tl_name tools)))
       (enumerate 0 (tool_names tl_name tools)) (record_aggregate A T m inp outp cr cw ic im tr)"
  by (simp add: record_call_def share_loop_def tool_names_def Let_def)

lemma reconciled_record:
  assumes "reconciled tr"
  shows "reconciled (snd (record_call A T m inp outp tl_name tools cr cw ic im tr))"
proof -
  note ne = tool_names_not_Nil[of tl_name tools]
  let ?tr = "snd (record_call A T m inp outp tl_name tools cr cw ic im tr)"
  let ?f = "bump A inp outp (or_zero A (cost_of A T m inp outp cr cw)) (if ic then 1 else 0)
    (if cost_of A T m inp outp cr cw = None \<and> ic then 1 else 0) cr cw"
  have tot: "total ?tr = ?f (total tr)" and pm: "per_model ?tr = upd_bucket A m ?f (per_model tr)"
    by (simp_all add: record_call_loop share_loop_frame record_aggregate_def Let_def)
  have pt: "per_tool (record_aggregate A T m inp outp cr cw ic im tr) = per_tool tr"
    by (simp add: record_aggregate_def Let_def)
  have g: "bucket_sum g (per_model ?tr) = bucket_sum g (per_model tr) + c \<and> g (total ?tr) = g (total tr) + c"
    if "counts A g ?f c" for g c
    using that bucket_sum_upd[OF that] by (simp add: tot pm counts_def)
  note gs = g[OF counts_bump(1)] g[OF counts_bump(2)] g[OF counts_bump(3)] g[OF counts_bump(4)]
    g[OF counts_bump(5)] g[OF counts_bump(6)]
  have t: "bucket_sum input_tokens (per_tool ?tr) = bucket_sum input_tokens (per_tool tr) + inp"
    "bucket_sum output_tokens (per_tool ?tr) = bucket_sum output_tokens (per_tool tr) + outp"
    "bucket_sum ucalls (per_tool ?tr) = bucket_sum ucalls (per_tool tr) + (if ic then 1 else 0)"
    "bucket_sum unpriced_calls (per_tool ?tr) = bucket_sum unpriced_calls (per_tool tr)
       + (if price_lookup T m = None \<and> ic then 1 else 0)"
    "bucket_sum cache_read_tokens (per_tool ?tr) = bucket_sum cache_read_tokens (per_tool tr) + cr"
    "bucket_sum cache_creation_tokens (per_tool ?tr) = bucket_sum cache_creation_tokens (per_tool tr) + cw"
    unfolding record_call_loop share_loop_sums pt sum_shares_enumerate[OF ne] sum_calls_enumerate[OF ne] by simp_all
  from assms t gs show ?thesis
    by (simp add: reconciled_def figures_def cost_of_None)
qed

definition new_tracker :: "'f flops \<Rightarrow> 'f BudgetConfig \<Rightarrow> 'f CostTracker" where
  "new_tracker A b = \<lparr>budget = b, total = zero_usage A, per_model = [], per_tool = [], per_namespace = [],
     context_tokens = 0\<rparr>"

record model_call =
  mc_model :: pystr
  mc_in :: int
  mc_out :: int
  mc_tool :: "pystr option"
  mc_tools :: "pystr list"
  mc_read :: int
  mc_write :: int
  mc_increment :: bool
  mc_main :: bool

definition record_one :: "'f flops \<Rightarrow> 'f price_tables \<Rightarrow> model_call \<Rightarrow> 'f CostTracker \<Rightarrow> 'f CostTracker" where
  "record_one A T c tr = snd (record_call A T (mc_model c) (mc_in c) (mc_out c) (mc_tool c) (mc_tools c)
     (mc_read c) (mc_write c) (mc_increment c) (mc_main c) tr)"

section \<open>Properties\<close>

text \<open>
  The breakdowns reconcile: after any sequence of recorded calls, however the calls are split over
  parallel tools, the token, cache and call counts of the per-tool buckets, and those of the per-model
  buckets, sum exactly to the session total.
\<close>

theorem breakdowns_reconcile: "reconciled (fold (record_one A T) cs (new_tracker A b))"
proof -
  have "reconciled tr \<Longrightarrow> reconciled (fold (record_one A T) cs tr)" for tr
    by (induction cs arbitrary: tr) (simp_all add: record_one_def reconciled_record)
  moreover have "reconciled (new_tracker A b)"
    by (simp add: reconciled_def figures_def new_tracker_def bucket_sum_def zero_usage_def)
  ultimately show ?thesis by blast
qed

text \<open>
  The dollar amounts do not: even in exact arithmetic, splitting a call with cache traffic over two
  tools charges some tokens twice, because each share clamps its plain input at zero, so the per-tool
  costs sum to more than the total.
\<close>

theorem split_cost_exceeds_total:
  "\<exists>T m tools. let tr = snd (record_call rat_flops T m 2 0 None tools 1 1 True False
        (new_tracker rat_flops \<lparr>per_session_usd = None, hard_stop = True, warn_at_pct = 80\<rparr>))
     in cost_usd (total tr) < sum_list (map (\<lambda>(k, us). cost_usd us) (per_tool tr))"
proof -
  let ?T = "\<lparr>pt_overrides = [], pt_builtin = [(u ''opus'', \<lparr>input_per_mtok = 5, output_per_mtok = 25,
       cache_read_rate = Some (1 / 2), cache_write_rate = Some (25 / 4)\<rparr>)], pt_catalog = [], pt_window_overrides = []\<rparr>
     :: rat price_tables"
  show ?thesis
    by (intro exI[of _ ?T] exI[of _ "u ''opus''"] exI[of _ "[u ''a'', u ''b'']"]) code_simp
qed

text \<open>
  A hard budget cap never reports everything in order while the spend is unknown: with a configured
  limit and an unpriced call, the status is at least a warning.
\<close>

theorem unpriced_never_ok:
  assumes "per_session_usd (budget tr) = Some l" "hard_stop (budget tr)" "0 < unpriced_calls (total tr)"
  shows "budget_status A tr \<noteq> OK"
  using assms by (simp add: budget_status_def Let_def)

theorem unpriced_never_ok_witness:
  "budget_status rat_flops (record_one rat_flops \<lparr>pt_overrides = [], pt_builtin = [], pt_catalog = [], pt_window_overrides = []\<rparr>
     \<lparr>mc_model = u ''x'', mc_in = 10, mc_out = 1, mc_tool = None, mc_tools = [], mc_read = 0, mc_write = 0,
      mc_increment = True, mc_main = True\<rparr>
     (new_tracker rat_flops \<lparr>per_session_usd = Some 1, hard_stop = True, warn_at_pct = 80\<rparr>)) \<noteq> OK"
  by (rule unpriced_never_ok[where l = 1]) code_simp+

definition rate_ok :: "'f flops \<Rightarrow> 'f \<Rightarrow> bool" where
  "rate_ok A v \<longleftrightarrow> f_finite A v \<and> f_le A (f_of A 0) v"

definition price_ok :: "'f flops \<Rightarrow> 'f Price \<Rightarrow> bool" where
  "price_ok A p \<longleftrightarrow> rate_ok A (input_per_mtok p) \<and> rate_ok A (output_per_mtok p)
     \<and> pred_option (rate_ok A) (cache_read_rate p) \<and> pred_option (rate_ok A) (cache_write_rate p)"

lemma valid_rate_ok: "valid_rate A x = Some v \<Longrightarrow> rate_ok A v"
  by (auto simp: valid_rate_def rate_ok_def split: json.splits option.splits if_splits)

lemma safe_cache_rate_ok: "pred_option (rate_ok A) (safe_cache_rate A x)"
  using valid_rate_ok by (auto simp: safe_cache_rate_def pred_option_def)

lemma opt_rate_ok: "opt_rate A x = Some y \<Longrightarrow> pred_option (rate_ok A) y"
  using valid_rate_ok by (fastforce simp: opt_rate_def pred_option_def split: if_splits)

lemma validate_catalog_ok:
  "validate_catalog U C A raw out = Some cat \<Longrightarrow> list_all (\<lambda>(k, e). price_ok A (ce_price e)) out \<Longrightarrow>
   list_all (\<lambda>(k, e). price_ok A (ce_price e)) cat"
proof (induction raw arbitrary: out)
  case (Cons x raw)
  obtain slug entry where x: "x = (slug, entry)" by force
  show ?case
  proof (cases "slug \<noteq> [] \<and> (\<exists>e inp outp. entry = JObj e \<and> valid_rate A (aget e ''input'') = Some inp
      \<and> valid_rate A (aget e ''output'') = Some outp)")
    case True
    then obtain e inp outp where t: "slug \<noteq> []" "entry = JObj e" "valid_rate A (aget e ''input'') = Some inp"
      "valid_rate A (aget e ''output'') = Some outp" by blast
    with Cons.prems(1) obtain ctx where v: "validate_catalog U C A raw (dput slug
        \<lparr>ce_price = \<lparr>input_per_mtok = inp, output_per_mtok = outp,
          cache_read_rate = safe_cache_rate A (aget e ''cache_read''),
          cache_write_rate = safe_cache_rate A (aget e ''cache_write'')\<rparr>, ce_context = ctx\<rparr> out) = Some cat"
      by (auto simp: x split: option.splits)
    show ?thesis
      by (rule Cons.IH[OF v dput_all[OF Cons.prems(2)]])
         (simp add: price_ok_def valid_rate_ok[OF t(3)] valid_rate_ok[OF t(4)] safe_cache_rate_ok)
  next
    case False
    then have "validate_catalog U C A raw out = Some cat"
      using Cons.prems(1) by (cases "slug = []"; cases entry) (auto simp: x split: option.splits)
    then show ?thesis using Cons.IH Cons.prems(2) by blast
  qed
qed simp

lemma parse_price_overrides_ok:
  "list_all (\<lambda>(k, p). price_ok A p) out \<Longrightarrow> list_all (\<lambda>(k, p). price_ok A p) (parse_price_overrides A raw out)"
proof (induction raw arbitrary: out)
  case (Cons x raw)
  obtain key val where x: "x = (key, val)" by force
  have "parse_price_overrides A (x # raw) out = parse_price_overrides A raw out
    \<or> (\<exists>v inp outp cr cw. parse_price_overrides A (x # raw) out = parse_price_overrides A raw
        (dput key \<lparr>input_per_mtok = inp, output_per_mtok = outp, cache_read_rate = cr, cache_write_rate = cw\<rparr> out)
        \<and> valid_rate A (aget v ''input'') = Some inp \<and> valid_rate A (aget v ''output'') = Some outp
        \<and> opt_rate A (aget v ''cache_read'') = Some cr \<and> opt_rate A (aget v ''cache_write'') = Some cw)"
  proof (cases val)
    case (JObj v)
    show ?thesis
      by (cases "valid_rate A (aget v ''input'')"; cases "valid_rate A (aget v ''output'')";
          cases "opt_rate A (aget v ''cache_read'')"; cases "opt_rate A (aget v ''cache_write'')")
         (simp_all add: x JObj, blast)
  qed (simp_all add: x)
  then consider (skip) "parse_price_overrides A (x # raw) out = parse_price_overrides A raw out"
    | (add) v inp outp cr cw where "parse_price_overrides A (x # raw) out = parse_price_overrides A raw
        (dput key \<lparr>input_per_mtok = inp, output_per_mtok = outp, cache_read_rate = cr, cache_write_rate = cw\<rparr> out)"
        "valid_rate A (aget v ''input'') = Some inp" "valid_rate A (aget v ''output'') = Some outp"
        "opt_rate A (aget v ''cache_read'') = Some cr" "opt_rate A (aget v ''cache_write'') = Some cw"
    by blast
  then show ?case
  proof cases
    case skip
    then show ?thesis using Cons by simp
  next
    case add
    show ?thesis unfolding add(1)
      by (rule Cons.IH[OF dput_all[OF Cons.prems]])
         (simp add: price_ok_def valid_rate_ok[OF add(2)] valid_rate_ok[OF add(3)] opt_rate_ok[OF add(4)] opt_rate_ok[OF add(5)])
  qed
qed simp

text \<open>
  No poisoned rate reaches a cost: every price admitted from the model catalog (network or disk
  cache) or from the user's override file is finite and not negative, so a hard budget cannot be
  disabled by a NaN.
\<close>

theorem admitted_prices_finite:
  assumes "validate_catalog U C A raw [] = Some cat" "catalog_get cat m = Some e"
  shows "price_ok A (ce_price e) \<and> list_all (\<lambda>(k, p). price_ok A p) (parse_price_overrides A ov [])"
proof -
  have all: "list_all (\<lambda>(k, e). price_ok A (ce_price e)) cat"
    using validate_catalog_ok[OF assms(1)] by simp
  have "\<exists>k. dget cat k = Some e"
    using assms(2) by (auto simp: catalog_get_def Let_def split: if_splits option.splits)
  then show ?thesis
    using all dget_Some_in parse_price_overrides_ok[of A "[]" ov] by (fastforce simp: list_all_iff)
qed

definition demo_conv :: int_conv where
  "demo_conv = \<lparr>i_of_float = (\<lambda>s. if s = u ''Infinity'' then IntOverflowError else IntValueError),
     i_of_str = (\<lambda>_. IntValueError)\<rparr>"

theorem admitted_prices_finite_witness:
  "price_ok rat_flops (ce_price \<lparr>ce_price = \<lparr>input_per_mtok = 3, output_per_mtok = 15, cache_read_rate = None,
       cache_write_rate = None\<rparr>, ce_context = 0\<rparr>)
   \<and> list_all (\<lambda>(k, p). price_ok rat_flops p) (parse_price_overrides rat_flops
        [(u ''a'', JObj [(u ''input'', JInt 1), (u ''output'', JInt (-1))])] [])"
proof (rule admitted_prices_finite[where U = ascii_uni and C = demo_conv and m = "u ''or/a''"
      and raw = "[(u ''a'', JObj [(u ''input'', JInt 3), (u ''output'', JInt 15), (u ''cache_read'', JBool True)]),
                  (u ''b'', JObj [(u ''input'', JInt (-3))])]"])
  show "validate_catalog ascii_uni demo_conv rat_flops
      [(u ''a'', JObj [(u ''input'', JInt 3), (u ''output'', JInt 15), (u ''cache_read'', JBool True)]),
       (u ''b'', JObj [(u ''input'', JInt (-3))])] []
    = Some [(u ''a'', \<lparr>ce_price = \<lparr>input_per_mtok = 3, output_per_mtok = 15, cache_read_rate = None,
       cache_write_rate = None\<rparr>, ce_context = 0\<rparr>)]"
    by code_simp
qed code_simp

lemma longest_in: "longest b xs \<in> set (b # xs)"
  by (induction b xs rule: longest.induct) auto

lemma longest_max: "x \<in> set (b # xs) \<Longrightarrow> length (fst x) \<le> length (fst (longest b xs))"
proof (induction b xs arbitrary: x rule: longest.induct)
  case (2 b y ys)
  show ?case
    using "2.prems" "2.IH"[of x] "2.IH"[of "if length (fst y) > length (fst b) then y else b"] by auto
qed simp

text \<open>
  A price table is read by the most specific key: the entry found is one whose key occurs in the
  model id up to the dot or dash of the version, and no matching key is longer; no price is found
  exactly when no key occurs.
\<close>

theorem match_substr_most_specific:
  "case match_substr table m of
     None \<Rightarrow> \<not> list_ex (\<lambda>(k, v). contains (norm_slug m) (norm_slug k)) table
   | Some v \<Rightarrow> \<exists>k. (k, v) \<in> set table \<and> contains (norm_slug m) (norm_slug k)
       \<and> \<not> list_ex (\<lambda>(k', v'). contains (norm_slug m) (norm_slug k') \<and> length k < length k') table"
proof (cases "filter (\<lambda>(k, v). contains (norm_slug m) (norm_slug k)) table")
  case Nil
  then show ?thesis by (auto simp: match_substr_def list_ex_iff filter_empty_conv)
next
  case (Cons x xs)
  obtain k v where l: "longest x xs = (k, v)" by force
  have in_table: "(k, v) \<in> set (filter (\<lambda>(k, v). contains (norm_slug m) (norm_slug k)) table)"
    using longest_in[of x xs] l Cons by simp
  have mx: "length k' \<le> length k"
    if "(k', v') \<in> set (filter (\<lambda>(k, v). contains (norm_slug m) (norm_slug k)) table)" for k' v'
    using longest_max[of "(k', v')" x xs] that l Cons by simp
  have m: "match_substr table m = Some v" by (simp add: match_substr_def Cons l)
  have "\<not> list_ex (\<lambda>(k', v'). contains (norm_slug m) (norm_slug k') \<and> length k < length k') table"
    using mx by (auto simp: list_ex_iff not_less[symmetric])
  with in_table m show ?thesis by auto
qed

lemma cost_of_nonneg:
  assumes "pred_option (price_ok rat_flops) (price_lookup T m)" "0 \<le> outp" "0 \<le> cr" "0 \<le> cw"
  shows "0 \<le> or_zero rat_flops (cost_of rat_flops T m inp outp cr cw)"
proof (cases "price_lookup T m")
  case None
  then show ?thesis by (simp add: cost_of_def or_zero_def f_of_def rat_flops_def)
next
  case (Some p)
  with assms show ?thesis
    by (auto simp: cost_of_def or_zero_def Let_def price_ok_def rate_ok_def f_of_def rat_flops_def
        intro!: add_nonneg_nonneg mult_nonneg_nonneg divide_nonneg_nonneg split: option.splits)
qed

text \<open>
  An exceeded budget stays exceeded: with exact amounts, admitted prices and token counts that are
  not negative, once the hard stop holds it holds after every further recorded call.
\<close>

theorem hard_stop_is_permanent:
  assumes "should_stop rat_flops tr" "per_session_usd (budget tr) = Some l" "0 \<le> l"
    and "list_all (\<lambda>c. pred_option (price_ok rat_flops) (price_lookup T (mc_model c))
           \<and> 0 \<le> mc_out c \<and> 0 \<le> mc_read c \<and> 0 \<le> mc_write c) cs"
  shows "should_stop rat_flops (fold (record_one rat_flops T) cs tr)"
  using assms
proof (induction cs arbitrary: tr)
  case (Cons c cs)
  have tot: "total (record_one rat_flops T c tr) = total (record_aggregate rat_flops T (mc_model c) (mc_in c) (mc_out c)
      (mc_read c) (mc_write c) (mc_increment c) (mc_main c) tr)" and b: "budget (record_one rat_flops T c tr) = budget tr"
    by (simp_all add: record_one_def record_call_loop share_loop_frame) (simp add: record_aggregate_def Let_def)
  have "cost_usd (total tr) \<le> cost_usd (total (record_one rat_flops T c tr))"
    using cost_of_nonneg[of T "mc_model c" "mc_out c" "mc_read c" "mc_write c" "mc_in c"] Cons.prems(4)
    by (simp add: tot record_aggregate_def Let_def bump_def) (simp add: rat_flops_def)
  then have "should_stop rat_flops (record_one rat_flops T c tr)"
    using Cons.prems(1,2,3) b
    by (auto simp: should_stop_def budget_status_def is_zero_def Let_def f_of_def rat_flops_def le_divide_eq
        split: if_splits)
  with Cons.IH[of "record_one rat_flops T c tr"] Cons.prems b show ?case by simp
qed simp

definition demo_call :: model_call where
  "demo_call = \<lparr>mc_model = u ''opus'', mc_in = 1000000, mc_out = 0, mc_tool = None, mc_tools = [], mc_read = 0,
     mc_write = 0, mc_increment = True, mc_main = True\<rparr>"

definition demo_tables :: "rat price_tables" where
  "demo_tables = \<lparr>pt_overrides = [], pt_builtin = [(u ''opus'', \<lparr>input_per_mtok = 5, output_per_mtok = 25,
     cache_read_rate = None, cache_write_rate = None\<rparr>)], pt_catalog = [], pt_window_overrides = []\<rparr>"

definition demo_tracker :: "rat CostTracker" where
  "demo_tracker = new_tracker rat_flops \<lparr>per_session_usd = Some 5, hard_stop = True, warn_at_pct = 80\<rparr>"

theorem hard_stop_is_permanent_witness:
  "should_stop rat_flops (fold (record_one rat_flops demo_tables) [demo_call, demo_call]
     (record_one rat_flops demo_tables demo_call demo_tracker))"
proof (rule hard_stop_is_permanent[where l = 5])
  show "should_stop rat_flops (record_one rat_flops demo_tables demo_call demo_tracker)" by code_simp
  show "per_session_usd (budget (record_one rat_flops demo_tables demo_call demo_tracker)) = Some 5" by code_simp
  show "list_all (\<lambda>c. pred_option (price_ok rat_flops) (price_lookup demo_tables (mc_model c))
           \<and> 0 \<le> mc_out c \<and> 0 \<le> mc_read c \<and> 0 \<le> mc_write c) [demo_call, demo_call]"
  proof -
    have "price_lookup demo_tables (u ''opus'') = Some \<lparr>input_per_mtok = 5, output_per_mtok = 25,
        cache_read_rate = None, cache_write_rate = None\<rparr>" by code_simp
    then show ?thesis by (simp add: demo_call_def price_ok_def rate_ok_def rat_flops_def f_of_def)
  qed
qed simp

lemma bind_sum_Inr: "bind_sum x f = Inr y \<longleftrightarrow> (\<exists>a. x = Inr a \<and> f a = Inr y)"
  by (cases x) (simp_all add: bind_sum_def)

lemma as_int_nonneg: "as_int U C v = Inr i \<Longrightarrow> 0 \<le> i"
  by (auto simp: as_int_def split: int_result.splits)

text \<open>
  A usage record that can be read gives counts that are not negative, whatever the provider put in
  its fields.
\<close>

theorem normalize_usage_nonneg:
  assumes "normalize_usage U C us = Inr (Some t)"
  shows "0 \<le> tc_input t \<and> 0 \<le> tc_output t \<and> 0 \<le> tc_cache_read t \<and> 0 \<le> tc_cache_creation t"
proof -
  from assms obtain a where a: "us = Some a" "a \<noteq> []"
    by (cases us) (auto simp: normalize_usage_def split: if_splits)
  obtain d where d: "aget_or U a [''input_token_details''] (JObj []) = JObj d"
    using assms a by (auto simp: normalize_usage_def simp del: aget_or.simps split: json.splits)
  show ?thesis
    using assms
    by (auto simp: normalize_usage_def a d bind_sum_Inr simp del: aget_or.simps dest!: as_int_nonneg split: if_splits)
qed

theorem normalize_usage_nonneg_witness:
  "0 \<le> tc_input \<lparr>tc_input = 12, tc_output = 0, tc_cache_read = 0, tc_cache_creation = 7\<rparr>
   \<and> 0 \<le> tc_output \<lparr>tc_input = 12, tc_output = 0, tc_cache_read = 0, tc_cache_creation = 7\<rparr>
   \<and> 0 \<le> tc_cache_read \<lparr>tc_input = 12, tc_output = 0, tc_cache_read = 0, tc_cache_creation = 7\<rparr>
   \<and> 0 \<le> tc_cache_creation \<lparr>tc_input = 12, tc_output = 0, tc_cache_read = 0, tc_cache_creation = 7\<rparr>"
  by (rule normalize_usage_nonneg[of ascii_uni demo_conv "Some [(u ''input_tokens'', JInt 12), (u ''output_tokens'', JInt (-4)),
      (u ''input_token_details'', JObj [(u ''cache_creation'', JInt 0), (u ''ephemeral_5m_input_tokens'', JInt 7)])]"]) code_simp

text \<open>An infinite count is not degraded to zero: \<^verbatim>\<open>int\<close> of an infinite float raises
  \<^verbatim>\<open>OverflowError\<close>, which \<^verbatim>\<open>_as_int\<close> does not catch.\<close>

lemma infinite_count_raises:
  assumes "float_truth U (u ''Infinity'')" "i_of_float C (u ''Infinity'') = IntOverflowError"
  shows "as_int U C (JFloat (u ''Infinity'')) = Inl UOverflowError"
  using assms by (simp add: as_int_def)

end
