(* ===== verification/Cron.thy ===== *)
theory Cron
  imports Bridge
begin

text \<open>
  The five-field cron expressions of \<^verbatim>\<open>src/src/jarn/gateway/scheduler.py\<close>: parsing, matching, and
  the search for the next firing.

  An aware UTC \<^verbatim>\<open>datetime\<close> is an \<open>instant\<close>: the number of microseconds since 0001-01-01T00:00,
  with the calendar of the \<^verbatim>\<open>datetime\<close> module (\<open>ord2ymd\<close>). The overflow of that module after
  the year 9999 is not modelled.
\<close>

section \<open>The calendar\<close>

type_synonym instant = int

definition MINUTE :: int where "MINUTE = 60000000"

definition is_leap :: "int \<Rightarrow> bool" where
  "is_leap y \<longleftrightarrow> y mod 4 = 0 \<and> (y mod 100 \<noteq> 0 \<or> y mod 400 = 0)"

definition month_lengths :: "bool \<Rightarrow> int list" where
  "month_lengths leap = [31, if leap then 29 else 28, 31, 30, 31, 30, 31, 31, 30, 31, 30, 31]"

text \<open>Month and day of the \<open>n\<close>-th day (from 0) of a year.\<close>

fun month_day :: "int \<Rightarrow> int list \<Rightarrow> int \<Rightarrow> int \<times> int" where
  "month_day m [] n = (m, n + 1)"
| "month_day m (l # ls) n = (if n < l then (m, n + 1) else month_day (m + 1) ls (n - l))"

text \<open>\<^verbatim>\<open>date.fromordinal\<close>: year, month and day of a day number.\<close>

definition ord2ymd :: "int \<Rightarrow> int \<times> int \<times> int" where
  "ord2ymd ordinal =
     (let n = ordinal - 1; n400 = n div 146097; n = n mod 146097;
          y = n400 * 400 + 1; n100 = n div 36524; n = n mod 36524;
          n4 = n div 1461; n = n mod 1461; n1 = n div 365; n = n mod 365;
          year = y + n100 * 100 + n4 * 4 + n1
      in if n1 = 4 \<or> n100 = 4 then (year - 1, 12, 31)
         else (let (m, d) = month_day 1 (month_lengths (is_leap year)) n in (year, m, d)))"

definition minute_no :: "instant \<Rightarrow> int" where "minute_no t = t div MINUTE"
definition minute_of :: "instant \<Rightarrow> int" where "minute_of t = minute_no t mod 60"
definition hour_of :: "instant \<Rightarrow> int" where "hour_of t = (minute_no t div 60) mod 24"
definition ordinal_of :: "instant \<Rightarrow> int" where "ordinal_of t = minute_no t div 1440 + 1"
definition month_of :: "instant \<Rightarrow> int" where "month_of t = fst (snd (ord2ymd (ordinal_of t)))"
definition day_of :: "instant \<Rightarrow> int" where "day_of t = snd (snd (ord2ymd (ordinal_of t)))"
definition isoweekday :: "instant \<Rightarrow> int" where "isoweekday t = (ordinal_of t - 1) mod 7 + 1"

section \<open>Fields\<close>

definition parse_num :: "pyuni \<Rightarrow> pystr \<Rightarrow> int option" where
  "parse_num U s =
     (if s = [] \<or> \<not> list_all (\<lambda>c. digit_val U c \<noteq> None) s then None
      else Some (foldl (\<lambda>a c. a * 10 + the (digit_val U c)) 0 s))"

text \<open>One part of a list: \<^verbatim>\<open>n\<close> or \<^verbatim>\<open>a-b\<close>.\<close>

definition parse_part :: "pyuni \<Rightarrow> pystr \<Rightarrow> (int \<times> int) option" where
  "parse_part U part =
     (case split_chr 45 part of
        [a] \<Rightarrow> map_option (\<lambda>x. (x, x)) (parse_num U a)
      | [a, b] \<Rightarrow> (case (parse_num U a, parse_num U b) of (Some x, Some y) \<Rightarrow> Some (x, y) | _ \<Rightarrow> None)
      | _ \<Rightarrow> None)"

fun parse_parts :: "pyuni \<Rightarrow> pystr list \<Rightarrow> (int \<times> int) list option" where
  "parse_parts U [] = Some []"
| "parse_parts U (p # ps) =
     (case (parse_part U p, parse_parts U ps) of (Some r, Some rs) \<Rightarrow> Some (r # rs) | _ \<Rightarrow> None)"

definition split_step :: "pystr \<Rightarrow> (pystr \<times> pystr option) option" where
  "split_step text =
     (case split_chr 47 text of [b] \<Rightarrow> Some (b, None) | [b, s] \<Rightarrow> Some (b, Some s) | _ \<Rightarrow> None)"

text \<open>\<^verbatim>\<open>_parse_cron_field\<close>: the values, in order; \<open>None\<close> is \<^verbatim>\<open>ScheduleError\<close>.\<close>

definition apply_step :: "int \<Rightarrow> int \<Rightarrow> int list \<Rightarrow> int list" where
  "apply_step step origin values =
     (if step > 1 then filter (\<lambda>v. (v - origin) mod step = 0) values else values)"

definition parse_cron_field :: "pyuni \<Rightarrow> pystr \<Rightarrow> int \<Rightarrow> int \<Rightarrow> int list option" where
  "parse_cron_field U raw minimum maximum =
     (case split_step (strip_ws raw) of None \<Rightarrow> None
      | Some (base, step_s) \<Rightarrow>
         (case (case step_s of None \<Rightarrow> Some 1 | Some s \<Rightarrow> parse_num U s) of None \<Rightarrow> None
          | Some step \<Rightarrow>
             if base = [42] then
               (if step < 1 then None else Some (apply_step step minimum [minimum..maximum]))
             else (case parse_parts U (split_chr 44 base) of None \<Rightarrow> None
               | Some ranges \<Rightarrow>
                  if step < 1 then None
                  else if list_ex (\<lambda>(s, e). s > e \<or> s < minimum \<or> e > maximum) ranges then None
                  else (let values = sort (remdups (concat (map (\<lambda>(s, e). [s..e]) ranges)))
                        in Some (apply_step step (hd values) values)))))"

record CronExpr =
  c_minute :: "int list"
  c_hour :: "int list"
  c_day :: "int list"
  c_month :: "int list"
  c_dow :: "int list"

definition parse_cron :: "pyuni \<Rightarrow> pystr \<Rightarrow> CronExpr option" where
  "parse_cron U expr =
     (case split_ws expr of
        [a, b, c, d, e] \<Rightarrow>
          (case (parse_cron_field U a 0 59, parse_cron_field U b 0 23, parse_cron_field U c 1 31,
                 parse_cron_field U d 1 12, parse_cron_field U e 0 7) of
             (Some mi, Some h, Some da, Some mo, Some dw) \<Rightarrow>
               Some \<lparr>c_minute = mi, c_hour = h, c_day = da, c_month = mo, c_dow = dw\<rparr>
           | _ \<Rightarrow> None)
      | _ \<Rightarrow> None)"

definition cron_matches :: "CronExpr \<Rightarrow> instant \<Rightarrow> bool" where
  "cron_matches c t =
     (let dow = isoweekday t mod 7
      in if minute_of t \<notin> set (c_minute c) then False
         else if hour_of t \<notin> set (c_hour c) then False
         else if month_of t \<notin> set (c_month c) then False
         else (let day_wildcard = (set (c_day c) = set [1..31]);
                   dow_wildcard = (set (c_dow c) = set [0..7]);
                   day_ok = (day_of t \<in> set (c_day c));
                   dow_ok = (dow \<in> set (c_dow c) \<or> (dow = 0 \<and> 7 \<in> set (c_dow c)))
               in if \<not> day_wildcard \<and> \<not> dow_wildcard then day_ok \<or> dow_ok
                  else if \<not> day_wildcard then day_ok
                  else if \<not> dow_wildcard then dow_ok
                  else True))"

section \<open>The next firing\<close>

definition SEARCH_MINUTES :: nat where "SEARCH_MINUTES = 366 * 2 * 24 * 60"

fun search_cron :: "CronExpr \<Rightarrow> nat \<Rightarrow> instant \<Rightarrow> instant option" where
  "search_cron c 0 cursor = None"
| "search_cron c (Suc n) cursor =
     (if cron_matches c cursor then Some cursor else search_cron c n (cursor + MINUTE))"

definition floor_minute :: "instant \<Rightarrow> instant" where
  "floor_minute t = t - t mod MINUTE"

definition next_cron_after :: "CronExpr \<Rightarrow> instant \<Rightarrow> instant option" where
  "next_cron_after c after = search_cron c SEARCH_MINUTES (floor_minute after + MINUTE)"

section \<open>Lemmas\<close>

lemma search_cron_Some:
  "search_cron c n cur = Some t \<Longrightarrow>
     \<exists>k < n. t = cur + int k * MINUTE \<and> cron_matches c t \<and> (\<forall>j < k. \<not> cron_matches c (cur + int j * MINUTE))"
proof (induction n arbitrary: cur)
  case (Suc n)
  show ?case
  proof (cases "cron_matches c cur")
    case True
    with Suc.prems show ?thesis by (intro exI[of _ 0]) simp
  next
    case False
    with Suc.prems have "search_cron c n (cur + MINUTE) = Some t" by simp
    from Suc.IH[OF this] obtain k where k: "k < n" "t = cur + MINUTE + int k * MINUTE" "cron_matches c t"
      "\<And>j. j < k \<Longrightarrow> \<not> cron_matches c (cur + MINUTE + int j * MINUTE)" by blast
    have "\<not> cron_matches c (cur + int j * MINUTE)" if "j < Suc k" for j
    proof (cases j)
      case (Suc i)
      then show ?thesis using k(4)[of i] that by (simp add: algebra_simps)
    qed (use False in simp)
    then show ?thesis using k by (intro exI[of _ "Suc k"]) (auto simp: algebra_simps)
  qed
qed simp

lemma search_cron_None:
  "search_cron c n cur = None \<longleftrightarrow> (\<forall>k < n. \<not> cron_matches c (cur + int k * MINUTE))"
proof (induction n arbitrary: cur)
  case (Suc n)
  have "(\<forall>k < Suc n. \<not> cron_matches c (cur + int k * MINUTE)) \<longleftrightarrow>
      \<not> cron_matches c cur \<and> (\<forall>k < n. \<not> cron_matches c (cur + MINUTE + int k * MINUTE))"
    by (auto simp: less_Suc_eq_0_disj algebra_simps)
  then show ?case using Suc.IH[of "cur + MINUTE"] by simp
qed simp

lemma floor_minute_bounds: "floor_minute t \<le> t" "t < floor_minute t + MINUTE" "floor_minute t mod MINUTE = 0"
proof -
  have "0 < MINUTE" by (simp add: MINUTE_def)
  then show "floor_minute t \<le> t" "t < floor_minute t + MINUTE"
    by (simp_all add: floor_minute_def)
  show "floor_minute t mod MINUTE = 0" by (simp add: floor_minute_def minus_mod_eq_mult_div)
qed

lemma apply_step_subset: "set (apply_step s o1 vs) \<subseteq> set vs"
  by (auto simp: apply_step_def)

lemma parse_parts_not_Nil: "parse_parts U ps = Some rs \<Longrightarrow> ps \<noteq> [] \<Longrightarrow> rs \<noteq> []"
  by (cases ps) (auto split: option.splits)

lemma next_cron_later:
  assumes "next_cron_after c t = Some n"
  shows "t < n" "n mod 1000000 = 0"
proof -
  obtain k where k: "n = floor_minute t + MINUTE + int k * MINUTE"
    using assms unfolding next_cron_after_def by (blast dest: search_cron_Some)
  have "0 \<le> int k * MINUTE" by (simp add: MINUTE_def)
  then show "t < n" using floor_minute_bounds(2)[of t] k by linarith
  have "MINUTE dvd n"
    using floor_minute_bounds(3)[of t] k by (simp add: dvd_eq_mod_eq_0 mod_add_left_eq)
  moreover have "1000000 dvd MINUTE" by (simp add: MINUTE_def)
  ultimately have "1000000 dvd n" by (rule dvd_trans[rotated])
  then show "n mod 1000000 = 0" by simp
qed

section \<open>Properties\<close>

text \<open>
  Every value of a parsed cron field lies in the field's range, and a field that parses is never
  empty: a step keeps at least the first value.
\<close>

theorem cron_field_range:
  assumes "parse_cron_field U raw lo hi = Some vs" "lo \<le> hi"
  shows "vs \<noteq> [] \<and> set vs \<subseteq> {lo..hi}"
proof -
  from assms(1) obtain base ss step where b: "split_step (strip_ws raw) = Some (base, ss)"
    and st: "(case ss of None \<Rightarrow> Some 1 | Some s \<Rightarrow> parse_num U s) = Some step"
    by (auto simp: parse_cron_field_def split: option.splits)
  have keep: "o1 \<in> set ws \<Longrightarrow> apply_step s o1 ws \<noteq> []" for s o1 ws
    by (auto simp: apply_step_def filter_empty_conv intro!: bexI[of _ o1])
  show ?thesis
  proof (cases "base = [42]")
    case True
    with assms(1) b st have "vs = apply_step step lo [lo..hi]"
      by (simp add: parse_cron_field_def split: if_splits)
    then show ?thesis using keep[of lo "[lo..hi]" step] apply_step_subset[of step lo "[lo..hi]"] assms(2) by auto
  next
    case False
    then obtain ranges where r: "parse_parts U (split_chr 44 base) = Some ranges"
      and ok: "\<not> list_ex (\<lambda>(s, e). s > e \<or> s < lo \<or> e > hi) ranges"
      and vs: "vs = apply_step step (hd (sort (remdups (concat (map (\<lambda>(s, e). [s..e]) ranges)))))
          (sort (remdups (concat (map (\<lambda>(s, e). [s..e]) ranges))))"
      using assms(1) b st by (auto simp: parse_cron_field_def Let_def split: option.splits if_splits)
    let ?v = "sort (remdups (concat (map (\<lambda>(s, e). [s..e]) ranges)))"
    obtain a b' rs where ab: "ranges = (a, b') # rs"
      using parse_parts_not_Nil[OF r] by (cases ranges) auto
    have sub: "set ?v \<subseteq> {lo..hi}" using ok by (fastforce simp: list_ex_iff)
    have "a \<in> set ?v" using ok ab by (simp add: list_ex_iff)
    then have ne: "?v \<noteq> []" by (metis emptyE list.set(1))
    then have "hd ?v \<in> set ?v" by (rule hd_in_set)
    from keep[OF this, of step] have "vs \<noteq> []" unfolding vs .
    moreover have "set vs \<subseteq> {lo..hi}"
      unfolding vs using apply_step_subset sub by (rule order.trans)
    ultimately show ?thesis by (rule conjI)
  qed
qed

theorem cron_field_range_witness:
  "[5, 20, 35, 50 :: int] \<noteq> [] \<and> set [5, 20, 35, 50] \<subseteq> {0..59 :: int}"
  by (rule cron_field_range[of ascii_uni "u ''5-59/15''" 0 59]) (code_simp, simp)

text \<open>
  C39. The next firing is exact: it is a whole minute strictly after the given time at which the
  expression matches, and it matches at no whole minute in between; there is none exactly when the
  expression matches at none of the minutes of the two-year search.
\<close>

theorem next_cron_after_exact:
  "case next_cron_after c t of
     Some n \<Rightarrow> t < n \<and> n mod MINUTE = 0 \<and> cron_matches c n
       \<and> \<not> (\<exists>m. t < m \<and> m < n \<and> m mod MINUTE = 0 \<and> cron_matches c m)
   | None \<Rightarrow> \<not> (\<exists>k < SEARCH_MINUTES. cron_matches c (floor_minute t + MINUTE + int k * MINUTE))"
proof (cases "next_cron_after c t")
  case None
  then have "\<forall>k < SEARCH_MINUTES. \<not> cron_matches c (floor_minute t + MINUTE + int k * MINUTE)"
    by (simp add: next_cron_after_def search_cron_None)
  with None show ?thesis by auto
next
  case (Some n)
  then obtain k where k: "n = floor_minute t + MINUTE + int k * MINUTE" "cron_matches c n"
    "\<And>j. j < k \<Longrightarrow> \<not> cron_matches c (floor_minute t + MINUTE + int j * MINUTE)"
    unfolding next_cron_after_def by (blast dest: search_cron_Some)
  have pos: "0 < MINUTE" by (simp add: MINUTE_def)
  have tn: "t < n" using floor_minute_bounds(2)[of t] k(1) pos by (simp add: less_le_trans)
  have nm: "n mod MINUTE = 0" using floor_minute_bounds(3)[of t] k(1) by (simp add: mod_add_left_eq)
  have mid: False if m: "t < m" "m < n" "m mod MINUTE = 0" "cron_matches c m" for m
  proof -
    define q where "q = (m - floor_minute t) div MINUTE"
    have "(m - floor_minute t) mod MINUTE = 0"
      using m(3) floor_minute_bounds(3)[of t] by (simp add: mod_diff_eq[symmetric])
    then have mq: "m = floor_minute t + q * MINUTE" by (auto simp: q_def)
    have "0 < q * MINUTE" using m(1) floor_minute_bounds(1)[of t] mq by linarith
    then have q1: "1 \<le> q" using pos by (simp add: zero_less_mult_iff)
    have "q * MINUTE < (1 + int k) * MINUTE" using m(2) k(1) mq by (simp add: algebra_simps)
    then have "q < 1 + int k" using pos by simp
    then have "nat (q - 1) < k" using q1 by linarith
    from k(3)[OF this] m(4) mq q1 show False by (simp add: algebra_simps)
  qed
  have "\<not> (\<exists>m. t < m \<and> m < n \<and> m mod MINUTE = 0 \<and> cron_matches c m)"
    by (rule notI) (elim exE conjE, rule mid)
  with tn nm k(2) show ?thesis unfolding Some by simp
qed

end
