(* ===== verification/Json_Store.thy ===== *)
theory Json_Store
  imports Bridge "HOL-Library.List_Lexorder"
begin

text \<open>
  The JSON files of the gateway (\<^verbatim>\<open>jobs.json\<close>, \<^verbatim>\<open>pending_approvals.json\<close>,
  \<^verbatim>\<open>active_delivery.json\<close>) share one shape: a document with a version and a mapping of keys to
  rows, loaded leniently and saved with sorted keys. A file is its parsed document, \<open>None\<close> when it
  is missing or unreadable. Every operation of a store holds the file's lock from the load to the
  save, so it is one step here. The writer also sorts the keys inside a row, which changes no lookup
  and no comparison of Python dictionaries; the model keeps a row's keys in the order they were
  written.

  The locale \<open>row_codec\<close> is the contract of the rows: what is written is read back. Its lemmas are
  the laws of the store, which the components interpret on their own rows.
\<close>

text \<open>A value that passes \<^verbatim>\<open>isinstance(v, int)\<close>: an integer or a boolean.\<close>

datatype pyint = PyInt int | PyBool bool

type_synonym row = args

type_synonym json_file = "json option"

definition load_rows :: "pystr \<Rightarrow> json_file \<Rightarrow> (pystr, row) pydict" where
  "load_rows key F =
     (case F of
        Some (JObj doc) \<Rightarrow>
          (case (case dget doc key of None \<Rightarrow> JObj doc | Some v \<Rightarrow> v) of
             JObj rows \<Rightarrow> concat (map (\<lambda>(k, v). case v of JObj r \<Rightarrow> [(k, r)] | _ \<Rightarrow> []) rows)
           | _ \<Rightarrow> [])
      | _ \<Rightarrow> [])"

text \<open>The names of the mappings all sort before \<^verbatim>\<open>version\<close>.\<close>

definition save_rows :: "pystr \<Rightarrow> (pystr, row) pydict \<Rightarrow> json_file" where
  "save_rows key d = Some (JObj [(key, JObj (map (\<lambda>(k, r). (k, JObj r)) (sort_key fst d))), (u ''version'', JInt 1)])"

definition store_get :: "(row \<Rightarrow> 'e + 'r) \<Rightarrow> pystr \<Rightarrow> pystr \<Rightarrow> json_file \<Rightarrow> 'e + 'r option" where
  "store_get dec key k F = (case dget (load_rows key F) k of None \<Rightarrow> Inr None | Some r \<Rightarrow> map_sum id Some (dec r))"

definition store_put :: "('r \<Rightarrow> row) \<Rightarrow> pystr \<Rightarrow> pystr \<Rightarrow> 'r \<Rightarrow> json_file \<Rightarrow> json_file" where
  "store_put enc key k r F = save_rows key (dput k (enc r) (load_rows key F))"

definition store_del :: "(row \<Rightarrow> 'e + 'r) \<Rightarrow> pystr \<Rightarrow> pystr \<Rightarrow> json_file \<Rightarrow> ('e + 'r option) \<times> json_file" where
  "store_del dec key k F =
     (let data = load_rows key F
      in case dget data k of None \<Rightarrow> (Inr None, F)
         | Some r \<Rightarrow> (map_sum id Some (dec r), save_rows key (dpop k data)))"

section \<open>Lemmas\<close>

lemma load_save: "load_rows key (save_rows key d) = sort_key fst d"
proof -
  have "concat (map (\<lambda>(k, v). case v of JObj r \<Rightarrow> [(k, r)] | _ \<Rightarrow> []) (map (\<lambda>(k, r). (k, JObj r)) xs)) = xs"
    for xs :: "(pystr, row) pydict"
    by (induction xs) auto
  then show ?thesis by (simp add: load_rows_def save_rows_def)
qed

lemma dict_ok_sort: "dict_ok d \<Longrightarrow> dict_ok (sort_key fst d)"
  unfolding dict_ok_def by (metis distinct_map distinct_sort set_sort)

lemma dget_sort: "dict_ok d \<Longrightarrow> dget (sort_key fst d) k = dget d k"
proof (cases "dget d k")
  case None
  then have "dget (sort_key fst d) k = None" unfolding dget_None_iff by simp
  with None show ?thesis by simp
next
  case (Some v)
  assume "dict_ok d"
  then show ?thesis using Some dget_in[OF dict_ok_sort, of d k v] dget_Some_in[OF Some] by simp
qed

definition file_ok :: "pystr \<Rightarrow> json_file \<Rightarrow> bool" where
  "file_ok key F \<longleftrightarrow> dict_ok (load_rows key F)"

lemma file_ok_None [simp]: "file_ok key None"
  by (simp add: file_ok_def load_rows_def)

lemma file_ok_save: "dict_ok d \<Longrightarrow> file_ok key (save_rows key d)"
  by (simp add: file_ok_def load_save dict_ok_sort)

locale row_codec =
  fixes enc :: "'r \<Rightarrow> row"
    and dec :: "row \<Rightarrow> 'e + 'r"
    and key :: pystr
    and good :: "'r \<Rightarrow> bool"
  assumes dec_enc: "good r \<Longrightarrow> dec (enc r) = Inr r"
begin

lemma put_ok: "file_ok key F \<Longrightarrow> file_ok key (store_put enc key k r F)"
  unfolding store_put_def by (rule file_ok_save) (simp add: file_ok_def pydict.ok_put)

lemma del_ok: "file_ok key F \<Longrightarrow> file_ok key (snd (store_del dec key k F))"
  by (auto simp: store_del_def Let_def file_ok_def load_save pydict.ok_del intro!: dict_ok_sort split: option.split)

lemma get_put:
  assumes "file_ok key F" "good r"
  shows "store_get dec key k' (store_put enc key k r F) = (if k' = k then Inr (Some r) else store_get dec key k' F)"
  using assms dec_enc[OF assms(2)]
  by (simp add: store_get_def store_put_def load_save dget_sort pydict.ok_put pydict.get_put file_ok_def)

lemma get_del:
  assumes "file_ok key F"
  shows "store_get dec key k' (snd (store_del dec key k F)) = (if k' = k then Inr None else store_get dec key k' F)"
proof (cases "dget (load_rows key F) k")
  case (Some r)
  then show ?thesis
    using assms by (simp add: store_get_def store_del_def load_save dget_sort pydict.ok_del pydict.get_del file_ok_def)
qed (simp add: store_get_def store_del_def)

lemma del_returns: "store_get dec key k F = fst (store_del dec key k F)"
  by (simp add: store_get_def store_del_def Let_def split: option.split)

end

end
