(* ===== verification/Scheduler.thy ===== *)
theory Scheduler
  imports Cron Json_Store "HOL-Library.Product_Lexorder"
begin

text \<open>
  The job store and the tick of the gateway's scheduler, \<^verbatim>\<open>src/src/jarn/gateway/scheduler.py\<close>.

  The store's file is its parsed JSON document (\<open>None\<close> when it is missing or unreadable, which the
  code treats alike); every operation holds the file lock, so it is one step. ISO-8601 text is read
  and written by the record \<open>iso\<close>, whose documented law is \<open>iso_ok\<close>: what is written reads back,
  with the microseconds dropped.
\<close>

section \<open>Jobs\<close>

record iso =
  i_parse :: "pystr \<Rightarrow> instant option"
  i_format :: "instant \<Rightarrow> pystr"

definition iso_ok :: "iso \<Rightarrow> bool" where
  "iso_ok I \<longleftrightarrow> (\<forall>t. i_format I t \<noteq> [] \<and> i_parse I (i_format I t) = Some (t - t mod 1000000))"

record ScheduledJob =
  job_id :: pystr
  prompt :: pystr
  chat_id :: int
  job_root :: pystr
  enabled :: bool
  cron :: "pystr option"
  at :: "pystr option"
  jpayload :: args
  last_run :: "pystr option"
  next_run :: "pystr option"
  created_at :: pystr

record DueWork =
  w_job_id :: pystr
  w_chat_id :: int
  w_root :: pystr
  w_prompt :: pystr
  w_payload :: args

definition opt_json :: "pystr option \<Rightarrow> json" where
  "opt_json x = (case x of None \<Rightarrow> JNull | Some s \<Rightarrow> JStr s)"

definition to_dict :: "ScheduledJob \<Rightarrow> row" where
  "to_dict j = [(u ''id'', JStr (job_id j)), (u ''prompt'', JStr (prompt j)), (u ''chat_id'', JInt (chat_id j)),
     (u ''root'', JStr (job_root j)), (u ''enabled'', JBool (enabled j)), (u ''cron'', opt_json (cron j)),
     (u ''at'', opt_json (at j)), (u ''payload'', JObj (jpayload j)), (u ''last_run'', opt_json (last_run j)),
     (u ''next_run'', opt_json (next_run j)), (u ''created_at'', JStr (created_at j))]"

definition opt_str :: "pyuni \<Rightarrow> json \<Rightarrow> pystr option" where
  "opt_str U v = (if v = JNull then None else Some (py_str U v))"

text \<open>The errors of a malformed row: the ones that the loops catch (\<^verbatim>\<open>KeyError\<close>, \<^verbatim>\<open>TypeError\<close>,
  \<^verbatim>\<open>ValueError\<close>) and the one that they do not (\<^verbatim>\<open>AttributeError\<close>).\<close>

datatype row_error = RowCorrupt | RowAttributeError

definition row_prompt :: "pyuni \<Rightarrow> row \<Rightarrow> row_error + pystr" where
  "row_prompt U d =
     (if truthy U (aget d ''prompt'') then Inr (py_str U (aget d ''prompt''))
      else (case (case dget d (u ''payload'') of None \<Rightarrow> JObj [] | Some v \<Rightarrow> v) of
          JObj p \<Rightarrow> Inr (py_str U (aget_or U p [''prompt''] (JStr [])))
        | _ \<Rightarrow> Inl RowAttributeError))"

definition from_dict :: "pyuni \<Rightarrow> row \<Rightarrow> row_error + ScheduledJob" where
  "from_dict U d =
     (case dget d (u ''chat_id'') of
        Some (JInt cid) \<Rightarrow>
          (case aget_or U d [''payload''] (JObj []) of
             JObj p \<Rightarrow>
               (case dget d (u ''id'') of None \<Rightarrow> Inl RowCorrupt
                | Some i \<Rightarrow>
                   (case row_prompt U d of Inl e \<Rightarrow> Inl e
                    | Inr pr \<Rightarrow>
                       (case dget d (u ''root'') of None \<Rightarrow> Inl RowCorrupt
                        | Some r \<Rightarrow> Inr
                           \<lparr>job_id = py_str U i, prompt = pr, chat_id = cid, job_root = py_str U r,
                            enabled = (case dget d (u ''enabled'') of None \<Rightarrow> True | Some v \<Rightarrow> truthy U v),
                            cron = opt_str U (aget d ''cron''), at = opt_str U (aget d ''at''), jpayload = p,
                            last_run = opt_str U (aget d ''last_run''), next_run = opt_str U (aget d ''next_run''),
                            created_at = py_str U (aget_or U d [''created_at''] (JStr []))\<rparr>)))
           | _ \<Rightarrow> Inl RowCorrupt)
      | _ \<Rightarrow> Inl RowCorrupt)"

section \<open>The file\<close>

type_synonym jobs_file = json_file

definition jobs_key :: pystr where "jobs_key = u ''jobs''"

definition load_jobs :: "jobs_file \<Rightarrow> (pystr, row) pydict" where
  "load_jobs F = load_rows jobs_key F"

definition save_jobs :: "(pystr, row) pydict \<Rightarrow> jobs_file" where
  "save_jobs d = save_rows jobs_key d"

section \<open>Operations\<close>

datatype sched_error = ScheduleError | SchedValueError | SchedRowError row_error

definition truthy_opt :: "pystr option \<Rightarrow> bool" where
  "truthy_opt x \<longleftrightarrow> x \<noteq> None \<and> x \<noteq> Some []"

definition next_cron_text :: "pyuni \<Rightarrow> pystr \<Rightarrow> instant \<Rightarrow> sched_error + instant" where
  "next_cron_text U expr after =
     (case parse_cron U expr of None \<Rightarrow> Inl ScheduleError
      | Some c \<Rightarrow> (case next_cron_after c after of None \<Rightarrow> Inl ScheduleError | Some t \<Rightarrow> Inr t))"

definition compute_next_run :: "pyuni \<Rightarrow> iso \<Rightarrow> pystr option \<Rightarrow> pystr option \<Rightarrow> instant
    \<Rightarrow> sched_error + instant option" where
  "compute_next_run U I cr at1 now =
     (if truthy_opt cr \<and> truthy_opt at1 then Inl ScheduleError
      else if truthy_opt cr then map_sum id Some (next_cron_text U (the cr) now)
      else if truthy_opt at1 then
        (case i_parse I (the at1) of None \<Rightarrow> Inl SchedValueError
         | Some when1 \<Rightarrow> Inr (if when1 > now then Some when1 else None))
      else Inl ScheduleError)"

definition add_job :: "pyuni \<Rightarrow> iso \<Rightarrow> pystr \<Rightarrow> int \<Rightarrow> pystr option \<Rightarrow> pystr option \<Rightarrow> pystr \<Rightarrow> args \<Rightarrow> bool
    \<Rightarrow> pystr \<Rightarrow> instant \<Rightarrow> jobs_file \<Rightarrow> (sched_error + ScheduledJob) \<times> jobs_file" where
  "add_job U I prompt_s cid cr at1 root_path pl en jid now F =
     (let p = strip_ws prompt_s
      in if p = [] then (Inl ScheduleError, F)
         else if truthy_opt cr \<and> truthy_opt at1 then (Inl ScheduleError, F)
         else if \<not> truthy_opt cr \<and> \<not> truthy_opt at1 then (Inl ScheduleError, F)
         else if truthy_opt cr \<and> parse_cron U (the cr) = None then (Inl ScheduleError, F)
         else (case compute_next_run U I cr at1 now of
             Inl e \<Rightarrow> (Inl e, F)
           | Inr nxt \<Rightarrow>
               if truthy_opt at1 \<and> nxt = None then (Inl ScheduleError, F)
               else (let job = \<lparr>job_id = jid, prompt = p, chat_id = cid, job_root = root_path, enabled = en,
                        cron = (if truthy_opt cr then Some (strip_ws (the cr)) else None),
                        at = (if truthy_opt at1 then Some (i_format I (the (i_parse I (the at1)))) else None),
                        jpayload = pl, last_run = None, next_run = map_option (i_format I) nxt,
                        created_at = i_format I now\<rparr>;
                      data = load_jobs F
                     in if jid \<in> set (dkeys data) then (Inl ScheduleError, F)
                        else (Inr job, save_jobs (dput jid (to_dict job) data)))))"

definition get_job :: "pyuni \<Rightarrow> pystr \<Rightarrow> jobs_file \<Rightarrow> row_error + ScheduledJob option" where
  "get_job U jid F = store_get (from_dict U) jobs_key jid F"

definition remove_job :: "pyuni \<Rightarrow> pystr \<Rightarrow> jobs_file \<Rightarrow> (row_error + ScheduledJob option) \<times> jobs_file" where
  "remove_job U jid F = store_del (from_dict U) jobs_key jid F"

definition enable_job :: "pyuni \<Rightarrow> iso \<Rightarrow> pystr \<Rightarrow> bool \<Rightarrow> instant \<Rightarrow> jobs_file
    \<Rightarrow> (sched_error + ScheduledJob) \<times> jobs_file" where
  "enable_job U I jid en now F =
     (let data = load_jobs F
      in case dget data jid of None \<Rightarrow> (Inl ScheduleError, F)
         | Some r \<Rightarrow>
            (case from_dict U r of Inl e \<Rightarrow> (Inl (SchedRowError e), F)
             | Inr job \<Rightarrow>
                if \<not> en then (let j = job\<lparr>enabled := False\<rparr> in (Inr j, save_jobs (dput jid (to_dict j) data)))
                else (case compute_next_run U I (cron job) (at job) now of
                    Inl e \<Rightarrow> (Inl e, F)
                  | Inr nxt \<Rightarrow>
                      (let j = job\<lparr>enabled := True, next_run := map_option (i_format I) nxt\<rparr>
                       in if truthy_opt (at j) \<and> next_run j = None then (Inl ScheduleError, F)
                          else (Inr j, save_jobs (dput jid (to_dict j) data))))))"

definition list_jobs :: "pyuni \<Rightarrow> int option \<Rightarrow> jobs_file \<Rightarrow> row_error + ScheduledJob list" where
  "list_jobs U cid F =
     (let rows = map snd (load_jobs F)
      in if list_ex (\<lambda>r. from_dict U r = Inl RowAttributeError) rows then Inl RowAttributeError
         else Inr (sort_key (\<lambda>j. (case next_run j of None \<Rightarrow> [] | Some s \<Rightarrow> s, job_id j))
           (filter (\<lambda>j. cid = None \<or> chat_id j = the cid)
             (concat (map (\<lambda>r. case from_dict U r of Inr j \<Rightarrow> [j] | Inl _ \<Rightarrow> []) rows)))))"

section \<open>The tick\<close>

definition due_work :: "ScheduledJob \<Rightarrow> DueWork" where
  "due_work j = \<lparr>w_job_id = job_id j, w_chat_id = chat_id j, w_root = as_posix (parse_path (job_root j)),
     w_prompt = prompt j, w_payload = jpayload j\<rparr>"

text \<open>The jobs that fire at \<open>now\<close>.\<close>

definition due_now :: "iso \<Rightarrow> instant \<Rightarrow> ScheduledJob \<Rightarrow> bool" where
  "due_now I now j \<longleftrightarrow> enabled j \<and> truthy_opt (next_run j)
     \<and> (case i_parse I (the (next_run j)) of None \<Rightarrow> False | Some t \<Rightarrow> t \<le> now)"

definition fired :: "pyuni \<Rightarrow> iso \<Rightarrow> instant \<Rightarrow> ScheduledJob \<Rightarrow> sched_error + ScheduledJob" where
  "fired U I now j =
     (let j1 = j\<lparr>last_run := Some (i_format I now)\<rparr>
      in if truthy_opt (cron j) then
           (case next_cron_text U (the (cron j)) now of Inl e \<Rightarrow> Inl e
            | Inr t \<Rightarrow> Inr (j1\<lparr>next_run := Some (i_format I t)\<rparr>))
         else Inr (j1\<lparr>enabled := False, next_run := None\<rparr>))"

fun due_loop :: "pyuni \<Rightarrow> iso \<Rightarrow> instant \<Rightarrow> (pystr \<times> row) list \<Rightarrow> (pystr, row) pydict \<Rightarrow> DueWork list
    \<Rightarrow> sched_error + (pystr, row) pydict \<times> DueWork list" where
  "due_loop U I now [] data due = Inr (data, due)"
| "due_loop U I now ((jid, raw) # items) data due =
     (case from_dict U raw of
        Inl RowCorrupt \<Rightarrow> due_loop U I now items data due
      | Inl e \<Rightarrow> Inl (SchedRowError e)
      | Inr job \<Rightarrow>
          if \<not> due_now I now job then due_loop U I now items data due
          else (case fired U I now job of
              Inl e \<Rightarrow> Inl e
            | Inr job' \<Rightarrow> due_loop U I now items (dput jid (to_dict job') data) (due @ [due_work job])))"

definition run_due :: "pyuni \<Rightarrow> iso \<Rightarrow> instant \<Rightarrow> jobs_file \<Rightarrow> (sched_error + DueWork list) \<times> jobs_file" where
  "run_due U I now F =
     (let data = load_jobs F
      in case due_loop U I now data data [] of
           Inl e \<Rightarrow> (Inl e, F)
         | Inr (data', due) \<Rightarrow> (Inr due, if due = [] then F else save_jobs data'))"

section \<open>Lemmas\<close>

lemma to_dict_get:
  "dget (to_dict j) (u ''id'') = Some (JStr (job_id j))" "dget (to_dict j) (u ''prompt'') = Some (JStr (prompt j))"
  "dget (to_dict j) (u ''chat_id'') = Some (JInt (chat_id j))" "dget (to_dict j) (u ''root'') = Some (JStr (job_root j))"
  "dget (to_dict j) (u ''enabled'') = Some (JBool (enabled j))" "dget (to_dict j) (u ''cron'') = Some (opt_json (cron j))"
  "dget (to_dict j) (u ''at'') = Some (opt_json (at j))" "dget (to_dict j) (u ''payload'') = Some (JObj (jpayload j))"
  "dget (to_dict j) (u ''last_run'') = Some (opt_json (last_run j))"
  "dget (to_dict j) (u ''next_run'') = Some (opt_json (next_run j))"
  "dget (to_dict j) (u ''created_at'') = Some (JStr (created_at j))"
  by (simp_all add: to_dict_def)

lemma opt_str_json [simp]: "opt_str U (opt_json x) = x"
  by (cases x) (simp_all add: opt_str_def opt_json_def py_str_def)

lemma py_str_JStr [simp]: "py_str U (JStr s) = s"
  by (simp add: py_str_def)

lemma from_to_dict:
  "\<exists>p. from_dict U (to_dict j) = Inr (j\<lparr>prompt := p\<rparr>) \<and> (prompt j \<noteq> [] \<longrightarrow> p = prompt j)"
proof -
  have pl: "aget_or U (to_dict j) [''payload''] (JObj []) = JObj (jpayload j)"
    by (simp add: aget_def to_dict_get)
  have ca: "py_str U (aget_or U (to_dict j) [''created_at''] (JStr [])) = created_at j"
    by (simp add: aget_def to_dict_get)
  obtain p where p: "row_prompt U (to_dict j) = Inr p" "prompt j \<noteq> [] \<Longrightarrow> p = prompt j"
    by (cases "prompt j = []") (auto simp: row_prompt_def aget_def to_dict_get)
  have "from_dict U (to_dict j) = Inr (j\<lparr>prompt := p\<rparr>)"
    unfolding from_dict_def pl ca p(1) by (simp add: aget_def to_dict_get)
  with p(2) show ?thesis by blast
qed

lemma load_save_jobs: "load_jobs (save_jobs d) = sort_key fst d"
  by (simp add: load_jobs_def save_jobs_def load_save)

interpretation jobs: row_codec to_dict "from_dict U" jobs_key "\<lambda>j. prompt j \<noteq> []" for U
  by unfold_locales (use from_to_dict in fastforce)

text \<open>A row that is left alone by a tick: neither due nor malformed in a way that escapes.\<close>

definition row_quiet :: "pyuni \<Rightarrow> iso \<Rightarrow> instant \<Rightarrow> row \<Rightarrow> bool" where
  "row_quiet U I now r = (case from_dict U r of Inl e \<Rightarrow> e = RowCorrupt | Inr j \<Rightarrow> \<not> due_now I now j)"

lemma due_loop_quiet:
  "list_all (\<lambda>(k, r). row_quiet U I now r) items \<Longrightarrow> due_loop U I now items data due = Inr (data, due)"
  by (induction items) (auto simp: row_quiet_def split: sum.splits row_error.splits)

lemma fired_quiet:
  assumes "iso_ok I" "fired U I now j = Inr j'"
  shows "row_quiet U I now (to_dict j')"
proof -
  obtain p where p: "from_dict U (to_dict j') = Inr (j'\<lparr>prompt := p\<rparr>)" using from_to_dict by blast
  have "\<not> due_now I now (j'\<lparr>prompt := p\<rparr>)"
  proof (cases "truthy_opt (cron j)")
    case True
    with assms(2) obtain c t where "next_cron_after c now = Some t" "next_run j' = Some (i_format I t)"
      by (auto simp: fired_def Let_def next_cron_text_def split: option.splits sum.splits)
    then show ?thesis
      using assms(1) next_cron_later[of c now t] by (simp add: due_now_def iso_ok_def)
  next
    case False
    with assms(2) have "\<not> enabled j'" by (auto simp: fired_def Let_def)
    then show ?thesis by (simp add: due_now_def)
  qed
  with p show ?thesis by (simp add: row_quiet_def)
qed

lemma due_loop_all_quiet:
  assumes "due_loop U I now items data due = Inr (data', due')" "iso_ok I" "dict_ok data" "distinct (map fst items)"
    and "\<And>k r. (k, r) \<in> set items \<Longrightarrow> dget data k = Some r"
    and "\<And>k r. dget data k = Some r \<Longrightarrow> k \<notin> fst ` set items \<Longrightarrow> row_quiet U I now r"
  shows "dict_ok data' \<and> (\<forall>k r. dget data' k = Some r \<longrightarrow> row_quiet U I now r)"
  using assms
proof (induction items arbitrary: data due)
  case Nil
  then show ?case by auto
next
  case (Cons x items)
  obtain jid raw where x: "x = (jid, raw)" by force
  have jid: "dget data jid = Some raw" using Cons.prems(5) x by simp
  have fresh: "jid \<notin> fst ` set items" using Cons.prems(4) x by simp
  show ?case
  proof (cases "row_quiet U I now raw")
    case True
    then have l: "due_loop U I now items data due = Inr (data', due')"
      using Cons.prems(1) by (auto simp: x row_quiet_def split: sum.splits row_error.splits)
    show ?thesis
    proof (rule Cons.IH[OF l Cons.prems(2,3)])
      show "distinct (map fst items)" using Cons.prems(4) by simp
      show "dget data k = Some r" if "(k, r) \<in> set items" for k r using Cons.prems(5) that by simp
      show "row_quiet U I now r" if "dget data k = Some r" "k \<notin> fst ` set items" for k r
        using Cons.prems(6)[OF that(1)] that True jid x by (cases "k = jid") auto
    qed
  next
    case False
    with Cons.prems(1) obtain job job' where f: "fired U I now job = Inr job'"
      and l: "due_loop U I now items (dput jid (to_dict job') data) (due @ [due_work job]) = Inr (data', due')"
      by (auto simp: x row_quiet_def split: sum.splits row_error.splits if_splits)
    show ?thesis
    proof (rule Cons.IH[OF l Cons.prems(2) dict_ok_dput[OF Cons.prems(3)]])
      show "distinct (map fst items)" using Cons.prems(4) by simp
      show "dget (dput jid (to_dict job') data) k = Some r" if "(k, r) \<in> set items" for k r
        using Cons.prems(5)[of k r] that fresh by (auto simp: dget_dput image_iff)
      show "row_quiet U I now r" if "dget (dput jid (to_dict job') data) k = Some r" "k \<notin> fst ` set items" for k r
        using that Cons.prems(6)[of k r] fired_quiet[OF Cons.prems(2) f] x by (auto simp: dget_dput split: if_splits)
    qed
  qed
qed

text \<open>The work of a tick: the due jobs, in the order of the store.\<close>

definition due_jobs :: "pyuni \<Rightarrow> iso \<Rightarrow> instant \<Rightarrow> (pystr \<times> row) list \<Rightarrow> ScheduledJob list" where
  "due_jobs U I now items = concat (map (\<lambda>(k, r). case from_dict U r of
     Inr j \<Rightarrow> if due_now I now j then [j] else [] | Inl _ \<Rightarrow> []) items)"

lemma due_loop_work:
  "due_loop U I now items data due = Inr (data', due') \<Longrightarrow> due' = due @ map due_work (due_jobs U I now items)"
proof (induction items arbitrary: data due)
  case (Cons x items)
  obtain jid raw where x: "x = (jid, raw)" by force
  show ?case
    using Cons.prems
    by (auto simp: x due_jobs_def dest!: Cons.IH split: sum.splits row_error.splits if_splits)
qed (simp add: due_jobs_def)

lemma due_loop_no_attr:
  "due_loop U I now items data due = Inr y \<Longrightarrow> (k, r) \<in> set items \<Longrightarrow> from_dict U r \<noteq> Inl RowAttributeError"
proof (induction items arbitrary: data due)
  case (Cons x items)
  obtain jid raw where x: "x = (jid, raw)" by force
  from Cons.prems(1) obtain data2 due2 where "due_loop U I now items data2 due2 = Inr y"
    "from_dict U raw \<noteq> Inl RowAttributeError"
    by (auto simp: x split: sum.splits row_error.splits if_splits)
  with Cons.IH Cons.prems(2) x show ?case by auto
qed simp

lemma due_loop_error:
  assumes "(k, r) \<in> set items" "from_dict U r = Inr j" "due_now I now j" "fired U I now j = Inl e"
  shows "\<exists>e'. due_loop U I now items data due = Inl e'"
  using assms(1)
proof (induction items arbitrary: data due)
  case (Cons x items)
  obtain jid raw where x: "x = (jid, raw)" by force
  show ?case
  proof (cases "raw = r")
    case True
    with assms show ?thesis by (simp add: x)
  next
    case False
    with Cons.prems x have "(k, r) \<in> set items" by simp
    with Cons.IH show ?thesis
      by (auto simp: x split: sum.split row_error.split)
  qed
qed simp

lemma add_job_put:
  assumes "add_job U I p cid cr at1 rt pl en jid now F = (Inr job, F1)"
  shows "F1 = store_put to_dict jobs_key jid job F" "prompt job \<noteq> []"
  using assms
  by (auto simp: add_job_def Let_def store_put_def load_jobs_def save_jobs_def split: if_splits sum.splits)

lemma add_job_get:
  assumes "dict_ok (load_jobs F)" "add_job U I p cid cr at1 rt pl en jid now F = (Inr job, F1)"
  shows "get_job U jid F1 = Inr (Some job)"
proof -
  have "file_ok jobs_key F" using assms(1) by (simp add: file_ok_def load_jobs_def)
  from jobs.get_put[OF this add_job_put(2)[OF assms(2)], of U jid] show ?thesis
    by (simp add: get_job_def add_job_put(1)[OF assms(2)])
qed

section \<open>Properties\<close>

text \<open>
  A job survives its row: a job with a prompt, written as a dictionary and read back, is the same
  job.
\<close>

theorem job_roundtrip:
  assumes "prompt j \<noteq> []"
  shows "from_dict U (to_dict j) = Inr j"
  using from_to_dict[of U j] assms by auto

definition demo_job :: "pystr option \<Rightarrow> pystr option \<Rightarrow> ScheduledJob" where
  "demo_job cr nx = \<lparr>job_id = u ''j1'', prompt = u ''stand-up'', chat_id = 7, job_root = u ''/p'', enabled = True,
     cron = cr, at = None, jpayload = [], last_run = None, next_run = nx, created_at = u ''t''\<rparr>"

theorem job_roundtrip_witness:
  "from_dict ascii_uni (to_dict (demo_job (Some (u ''0 9 * * 1-5'')) None)) = Inr (demo_job (Some (u ''0 9 * * 1-5'')) None)"
  by (rule job_roundtrip) (simp add: demo_job_def)

text \<open>
  Catch-up runs once: a tick that succeeds returns exactly the due jobs of the store, each once
  however many firings were missed, and afterwards no job is due at that time: a second tick at the
  same time returns nothing and changes nothing.
\<close>

theorem run_due_catches_up_once:
  assumes "run_due U I now F = (Inr due, F')" "iso_ok I" "dict_ok (load_jobs F)"
  shows "due = map due_work (due_jobs U I now (load_jobs F)) \<and> run_due U I now F' = (Inr [], F')"
proof -
  from assms(1) obtain data' where l: "due_loop U I now (load_jobs F) (load_jobs F) [] = Inr (data', due)"
    and F': "F' = (if due = [] then F else save_jobs data')"
    by (auto simp: run_due_def Let_def split: sum.splits prod.splits)
  have q: "dict_ok data' \<and> (\<forall>k r. dget data' k = Some r \<longrightarrow> row_quiet U I now r)"
    using assms(3) dget_None_iff[of "load_jobs F"]
    by (intro due_loop_all_quiet[OF l assms(2,3)])
       (auto simp: dict_ok_def[symmetric] dget_in, metis option.distinct(1))
  have w: "due = map due_work (due_jobs U I now (load_jobs F))" using due_loop_work[OF l] by simp
  have quiet: "list_all (\<lambda>(k, r). row_quiet U I now r) (load_jobs F')"
  proof (cases "due = []")
    case True
    then have "due_jobs U I now (load_jobs F) = []" using w by simp
    moreover have "from_dict U r \<noteq> Inl RowAttributeError" if "(k, r) \<in> set (load_jobs F)" for k r
      by (rule due_loop_no_attr[OF l that])
    ultimately show ?thesis
      using True F' by (auto simp: due_jobs_def list_all_iff row_quiet_def split: sum.splits if_splits)
        (metis row_error.exhaust)
  next
    case False
    then show ?thesis
      using q dget_in[of data'] F' by (auto simp: load_save_jobs list_all_iff)
  qed
  then have "run_due U I now F' = (Inr [], F')"
    by (simp add: run_due_def due_loop_quiet)
  with w show ?thesis by blast
qed

definition raw_iso :: iso where
  "raw_iso = \<lparr>i_parse = (\<lambda>s. case s of [x] \<Rightarrow> Some x | _ \<Rightarrow> None), i_format = (\<lambda>t. [t - t mod 1000000])\<rparr>"

lemma raw_iso_ok: "iso_ok raw_iso"
  by (simp add: iso_ok_def raw_iso_def)

definition demo_file :: "ScheduledJob \<Rightarrow> jobs_file" where
  "demo_file j = save_jobs [(job_id j, to_dict j)]"

lemma load_demo: "load_jobs (demo_file j) = [(job_id j, to_dict j)]"
  by (simp add: demo_file_def load_save_jobs)

theorem run_due_catches_up_once_witness:
  "let F = demo_file (demo_job (Some (u ''*/5 * * * *'')) (Some [0]));
       R = run_due ascii_uni raw_iso (17 * MINUTE) F
   in fst R = Inr (map due_work (due_jobs ascii_uni raw_iso (17 * MINUTE) (load_jobs F)))
      \<and> run_due ascii_uni raw_iso (17 * MINUTE) (snd R) = (Inr [], snd R)"
proof -
  let ?j = "demo_job (Some (u ''*/5 * * * *'')) (Some [0])"
  let ?j' = "?j\<lparr>last_run := Some [17 * MINUTE], next_run := Some [20 * MINUTE]\<rparr>"
  have c: "parse_cron ascii_uni (u ''*/5 * * * *'') = Some \<lparr>c_minute = [0,5,10,15,20,25,30,35,40,45,50,55],
      c_hour = [0..23], c_day = [1..31], c_month = [1..12], c_dow = [0..7]\<rparr>" by code_simp
  let ?c = "\<lparr>c_minute = [0,5,10,15,20,25,30,35,40,45,50,55], c_hour = [0..23], c_day = [1..31], c_month = [1..12], c_dow = [0..7]\<rparr>"
  have m: "\<not> cron_matches ?c (18 * MINUTE)" "\<not> cron_matches ?c (19 * MINUTE)" "cron_matches ?c (20 * MINUTE)"
    by code_simp+
  have f: "floor_minute (17 * MINUTE) + MINUTE = 18 * MINUTE" "18 * MINUTE + MINUTE = 19 * MINUTE"
    "19 * MINUTE + MINUTE = 20 * MINUTE" by (simp_all add: floor_minute_def)
  have s: "SEARCH_MINUTES = Suc (Suc (Suc 1054077))" by (simp add: SEARCH_MINUTES_def)
  have n: "next_cron_after ?c (17 * MINUTE) = Some (20 * MINUTE)"
    by (simp only: next_cron_after_def s search_cron.simps f m if_False if_True)
  have j: "from_dict ascii_uni (to_dict ?j) = Inr ?j" by code_simp
  have d: "due_now raw_iso (17 * MINUTE) ?j" by code_simp
  have fmt: "i_format raw_iso (17 * MINUTE) = [17 * MINUTE]" "i_format raw_iso (20 * MINUTE) = [20 * MINUTE]" by code_simp+
  have cr: "truthy_opt (cron ?j)" "the (cron ?j) = u ''*/5 * * * *''" by code_simp+
  have "next_cron_text ascii_uni (u ''*/5 * * * *'') (17 * MINUTE) = Inr (20 * MINUTE)"
    by (simp only: next_cron_text_def c n option.case)
  then have fi: "fired ascii_uni raw_iso (17 * MINUTE) ?j = Inr ?j'"
    unfolding fired_def Let_def cr(2) fmt using cr(1) by (simp add: fmt)
  have "run_due ascii_uni raw_iso (17 * MINUTE) (demo_file ?j)
      = (Inr [due_work ?j], save_jobs [(job_id ?j, to_dict ?j')])"
    by (simp add: run_due_def load_demo j d fi)
  moreover have "dict_ok (load_jobs (demo_file ?j))" by (simp add: load_demo dict_ok_def)
  ultimately show ?thesis
    using run_due_catches_up_once[OF _ raw_iso_ok] by (fastforce simp: Let_def)
qed

text \<open>
  One job can stop the whole scheduler: if a due cron job has no next firing within the two-year
  search, the tick raises before anything is saved, so no due work of any job is returned and the
  store stays as it was.
\<close>

theorem run_due_poisoned:
  assumes "(k, r) \<in> set (load_jobs F)" "from_dict U r = Inr j" "due_now I now j"
    and "cron j = Some e" "parse_cron U e = Some c" "next_cron_after c now = None"
  shows "\<exists>err. run_due U I now F = (Inl err, F)"
proof -
  have "e \<noteq> []" using assms(5) by (auto simp: parse_cron_def split_ws_def)
  then have "fired U I now j = Inl ScheduleError"
    using assms(4,5,6) by (simp add: fired_def next_cron_text_def truthy_opt_def)
  from due_loop_error[OF assms(1-3) this, of "load_jobs F" "[]"]
  obtain err where "due_loop U I now (load_jobs F) (load_jobs F) [] = Inl err" by blast
  then show ?thesis by (simp add: run_due_def)
qed

definition leap_cron :: CronExpr where
  "leap_cron = \<lparr>c_minute = [0], c_hour = [0], c_day = [29], c_month = [2], c_dow = [0..7]\<rparr>"

definition leap_day_2028 :: instant where
  "leap_day_2028 = 740405 * 1440 * MINUTE"

lemma leap_days_2028: "ord2ymd 740406 = (2028, 2, 29)"
  by code_simp

lemma month_day_feb29: "month_day 1 (month_lengths l) n = (2, 29) \<Longrightarrow> l \<and> n = 59"
  by (auto simp: month_lengths_def split: if_splits)

lemma ord2ymd_feb29:
  assumes "snd (ord2ymd (c + 1)) = (2, 29)" "c div 146097 = n400" "c mod 146097 = r400" "r400 div 36524 = n100"
    "r400 mod 36524 = r100" "r100 div 1461 = n4" "r100 mod 1461 = r4" "r4 div 365 = n1" "r4 mod 365 = r1"
  shows "n1 \<noteq> 4 \<and> is_leap (n400 * 400 + 1 + n100 * 100 + n4 * 4 + n1) \<and> r1 = 59"
proof -
  obtain m d where md: "month_day 1 (month_lengths (is_leap (n400 * 400 + 1 + n100 * 100 + n4 * 4 + n1))) r1 = (m, d)"
    by force
  have "ord2ymd (c + 1) = (if n1 = 4 \<or> n100 = 4 then (n400 * 400 + 1 + n100 * 100 + n4 * 4 + n1 - 1, 12, 31)
      else (n400 * 400 + 1 + n100 * 100 + n4 * 4 + n1, m, d))"
    using md by (simp add: ord2ymd_def Let_def assms(2-))
  with assms(1) have "n1 \<noteq> 4" "(m, d) = (2, 29)" by (auto split: if_splits)
  with month_day_feb29 md show ?thesis by metis
qed

lemma no_leap_day_until_2030:
  assumes "0 \<le> i" "i < 733"
  shows "snd (ord2ymd (740406 + i + 1)) \<noteq> (2, 29)"
proof
  assume a: "snd (ord2ymd (740406 + i + 1)) = (2, 29)"
  have 1: "(740406 + i) div 146097 = 5" "(740406 + i) mod 146097 = 9921 + i"
    using assms by (auto intro: int_div_pos_eq[where r = "9921 + i"] int_mod_pos_eq[where q = 5])
  have 2: "(9921 + i) div 36524 = 0" "(9921 + i) mod 36524 = 9921 + i" using assms by simp_all
  show False
  proof (cases "i < 306")
    case True
    have 3: "(9921 + i) div 1461 = 6" "(9921 + i) mod 1461 = 1155 + i"
      using assms True by (auto intro: int_div_pos_eq[where r = "1155 + i"] int_mod_pos_eq[where q = 6])
    show False
    proof (cases "i < 305")
      case True
      have 4: "(1155 + i) div 365 = 3" "(1155 + i) mod 365 = 60 + i"
        using assms True by (auto intro: int_div_pos_eq[where r = "60 + i"] int_mod_pos_eq[where q = 3])
      from ord2ymd_feb29[OF a 1 2 3 4] assms show False by simp
    next
      case False
      with \<open>i < 306\<close> have "i = 305" by simp
      then have 4: "(1155 + i) div 365 = 4" "(1155 + i) mod 365 = 0" by simp_all
      from ord2ymd_feb29[OF a 1 2 3 4] show False by simp
    qed
  next
    case False
    have 3: "(9921 + i) div 1461 = 7" "(9921 + i) mod 1461 = i - 306"
      using assms False by (auto intro: int_div_pos_eq[where r = "i - 306"] int_mod_pos_eq[where q = 7])
    show False
    proof (cases "i < 671")
      case True
      have 4: "(i - 306) div 365 = 0" "(i - 306) mod 365 = i - 306" using False True by simp_all
      from ord2ymd_feb29[OF a 1 2 3 4] show False by (simp add: is_leap_def)
    next
      case big: False
      have 4: "(i - 306) div 365 = 1" "(i - 306) mod 365 = i - 671"
        using assms big by (auto intro: int_div_pos_eq[where r = "i - 671"] int_mod_pos_eq[where q = 1])
      from ord2ymd_feb29[OF a 1 2 3 4] show False by (simp add: is_leap_def)
    qed
  qed
qed

lemma leap_cron_midnight:
  assumes "cron_matches leap_cron t"
  shows "minute_no t mod 1440 = 0" "snd (ord2ymd (ordinal_of t)) = (2, 29)"
proof -
  have w: "set [29] \<noteq> set [1..31 :: int]" by code_simp
  have md: "month_of t = 2" "day_of t = 29" "minute_of t = 0" "hour_of t = 0"
    using assms w by (auto simp: cron_matches_def leap_cron_def Let_def split: if_splits)
  from md(1,2) show "snd (ord2ymd (ordinal_of t)) = (2, 29)"
    by (simp add: month_of_def day_of_def prod_eq_iff)
  from md(3,4) show "minute_no t mod 1440 = 0"
    using zmod_zmult2_eq[of 24 "minute_no t" 60] by (simp add: minute_of_def hour_of_def)
qed

lemma leap_cron_silent: "next_cron_after leap_cron leap_day_2028 = None"
proof -
  have "\<not> cron_matches leap_cron (leap_day_2028 + MINUTE + int k * MINUTE)" if k: "k < SEARCH_MINUTES" for k
  proof
    let ?t = "leap_day_2028 + MINUTE + int k * MINUTE"
    assume m: "cron_matches leap_cron ?t"
    have "?t = (740405 * 1440 + (1 + int k)) * MINUTE"
      by (simp add: leap_day_2028_def algebra_simps)
    then have mn: "minute_no ?t = 740405 * 1440 + (1 + int k)"
      unfolding minute_no_def by (simp only: MINUTE_def) simp
    have "(1 + int k) mod 1440 = 0"
      using leap_cron_midnight(1)[OF m] unfolding mn by (simp only: mod_mult_self3)
    then obtain q where q: "1 + int k = 1440 * q" by (auto simp: dvd_def mod_eq_0_iff_dvd)
    have "int k < 1054080" using k by (simp add: SEARCH_MINUTES_def)
    with q have "0 \<le> q - 1" "q - 1 < 733" by linarith+
    moreover have "ordinal_of ?t = 740406 + (q - 1) + 1"
      unfolding ordinal_of_def mn q by simp
    ultimately show False
      using leap_cron_midnight(2)[OF m] no_leap_day_until_2030 by metis
  qed
  moreover have "floor_minute leap_day_2028 = leap_day_2028"
    by (simp add: floor_minute_def leap_day_2028_def)
  ultimately show ?thesis by (simp add: next_cron_after_def search_cron_None)
qed

theorem run_due_poisoned_witness:
  "\<exists>err. run_due ascii_uni raw_iso leap_day_2028 (demo_file (demo_job (Some (u ''0 0 29 2 *'')) (Some [leap_day_2028])))
     = (Inl err, demo_file (demo_job (Some (u ''0 0 29 2 *'')) (Some [leap_day_2028])))"
proof (rule run_due_poisoned[OF _ _ _ _ _ leap_cron_silent])
  let ?j = "demo_job (Some (u ''0 0 29 2 *'')) (Some [leap_day_2028])"
  show "(u ''j1'', to_dict ?j) \<in> set (load_jobs (demo_file ?j))" by (simp add: load_demo) (simp add: demo_job_def)
  show "from_dict ascii_uni (to_dict ?j) = Inr ?j" using from_to_dict[of ascii_uni ?j] by (auto simp: demo_job_def)
  show "due_now raw_iso leap_day_2028 ?j" by (simp add: due_now_def demo_job_def truthy_opt_def raw_iso_def)
  show "cron ?j = Some (u ''0 0 29 2 *'')" by (simp add: demo_job_def)
  show "parse_cron ascii_uni (u ''0 0 29 2 *'') = Some leap_cron" by code_simp
qed

text \<open>
  The store behaves as a map of jobs: after a job is added it is found under its id, after a
  removal it is gone, and in both cases every other job is found as before.
\<close>

theorem store_add_remove:
  assumes "dict_ok (load_jobs F)"
    and "add_job U I p cid cr at1 rt pl en jid now F = (Inr job, F1)"
  shows "get_job U k F1 = (if k = jid then Inr (Some job) else get_job U k F)
     \<and> get_job U k (snd (remove_job U jid F1)) = (if k = jid then Inr None else get_job U k F)"
proof -
  note F1 = add_job_put(1)[OF assms(2)] and pr = add_job_put(2)[OF assms(2)]
  have ok: "file_ok jobs_key F" using assms(1) by (simp add: file_ok_def load_jobs_def)
  show ?thesis
    unfolding get_job_def remove_job_def F1
    using jobs.get_put[OF ok pr, of U k] jobs.get_put[OF ok pr, of U jid] jobs.get_del[OF jobs.put_ok[OF ok], of U k] by simp
qed

theorem store_add_remove_witness:
  "let R = add_job ascii_uni raw_iso (u ''ping'') 7 None (Some [5]) (u ''/p'') [] True (u ''j9'') 3 None
   in (\<exists>job. fst R = Inr job \<and> get_job ascii_uni (u ''j9'') (snd R) = Inr (Some job))
      \<and> get_job ascii_uni (u ''j9'') (snd (remove_job ascii_uni (u ''j9'') (snd R))) = Inr None"
proof -
  obtain job F1 where R: "add_job ascii_uni raw_iso (u ''ping'') 7 None (Some [5]) (u ''/p'') [] True (u ''j9'') 3 None = (Inr job, F1)"
    by (simp add: add_job_def strip_ws_def lstrip_with_def rstrip_with_def isspace_def u_def truthy_opt_def
        compute_next_run_def raw_iso_def load_jobs_def load_rows_def dkeys_def Let_def)
  have "dict_ok (load_jobs None)" by (simp add: load_jobs_def load_rows_def)
  from store_add_remove[OF this R, of "u ''j9''"] R show ?thesis by (simp add: Let_def)
qed

end
