(* ===== verification/Approvals.thy ===== *)
theory Approvals
  imports Interrupts Json_Store
begin

text \<open>
  Remote approvals, \<^verbatim>\<open>src/src/jarn/gateway/approvals.py\<close>: the durable map of parked questions, the
  approver that parks, the approver that replays a verdict, and the resumption of a parked turn with
  \<^verbatim>\<open>resume_pending_approval\<close> of \<^verbatim>\<open>src/src/jarn/agent/session.py\<close>.

  Minted tokens are arguments (\<^verbatim>\<open>secrets.token_urlsafe\<close>), the graph that runs after a resume is the
  parameter \<open>graph\<close>, and the interrupts pending in the checkpoint are an argument of the resumption.
\<close>

section \<open>Rows\<close>

record PendingApproval =
  pa_token :: pystr
  pa_root :: pystr
  pa_thread_id :: pystr
  pa_interrupt_id :: pystr
  pa_chat_id :: int
  pa_message_id :: "pyint option"
  pa_card :: "args option"

datatype pa_error = PAValueError | PAKeyError | PAPathError

definition pa_to_dict :: "PendingApproval \<Rightarrow> row" where
  "pa_to_dict r = [(u ''token'', JStr (pa_token r)), (u ''root'', JStr (pa_root r)),
     (u ''thread_id'', JStr (pa_thread_id r)), (u ''interrupt_id'', JStr (pa_interrupt_id r)),
     (u ''chat_id'', JInt (pa_chat_id r)),
     (u ''message_id'', case pa_message_id r of None \<Rightarrow> JNull | Some (PyInt i) \<Rightarrow> JInt i | Some (PyBool b) \<Rightarrow> JBool b),
     (u ''card'', case pa_card r of None \<Rightarrow> JNull | Some c \<Rightarrow> JObj c)]"

definition row_message_id :: "row \<Rightarrow> pa_error + pyint option" where
  "row_message_id d = (case aget d ''message_id'' of
       JNull \<Rightarrow> Inr None | JInt i \<Rightarrow> Inr (Some (PyInt i)) | JBool b \<Rightarrow> Inr (Some (PyBool b))
     | _ \<Rightarrow> Inl PAValueError)"

definition row_chat_id :: "row \<Rightarrow> pa_error + int" where
  "row_chat_id d = (case dget d (u ''chat_id'') of
       None \<Rightarrow> Inl PAKeyError | Some (JInt i) \<Rightarrow> Inr i | Some _ \<Rightarrow> Inl PAValueError)"

definition row_card :: "row \<Rightarrow> pa_error + args option" where
  "row_card d = (case aget d ''card'' of JNull \<Rightarrow> Inr None | JObj c \<Rightarrow> Inr (Some c) | _ \<Rightarrow> Inl PAValueError)"

definition pa_from_dict :: "pyuni \<Rightarrow> row \<Rightarrow> pa_error + PendingApproval" where
  "pa_from_dict U d =
     (case row_message_id d of Inl e \<Rightarrow> Inl e | Inr mid \<Rightarrow>
     (case row_chat_id d of Inl e \<Rightarrow> Inl e | Inr cid \<Rightarrow>
     (case row_card d of Inl e \<Rightarrow> Inl e | Inr crd \<Rightarrow>
     (case (dget d (u ''token''), dget d (u ''root''), dget d (u ''thread_id''), dget d (u ''interrupt_id'')) of
        (Some t, Some r, Some th, Some i) \<Rightarrow>
          Inr \<lparr>pa_token = py_str U t, pa_root = py_str U r, pa_thread_id = py_str U th,
               pa_interrupt_id = py_str U i, pa_chat_id = cid, pa_message_id = mid, pa_card = crd\<rparr>
      | _ \<Rightarrow> Inl PAKeyError))))"

section \<open>The map\<close>

definition pending_key :: pystr where "pending_key = u ''pending''"

definition pa_put :: "PendingApproval \<Rightarrow> json_file \<Rightarrow> PendingApproval \<times> json_file" where
  "pa_put r F = (r, store_put pa_to_dict pending_key (pa_token r) r F)"

definition pa_get :: "pyuni \<Rightarrow> pystr \<Rightarrow> json_file \<Rightarrow> pa_error + PendingApproval option" where
  "pa_get U t F = store_get (pa_from_dict U) pending_key t F"

definition pa_delete :: "pyuni \<Rightarrow> pystr \<Rightarrow> json_file \<Rightarrow> (pa_error + PendingApproval option) \<times> json_file" where
  "pa_delete U t F = store_del (pa_from_dict U) pending_key t F"

definition pa_list :: "pyuni \<Rightarrow> json_file \<Rightarrow> PendingApproval list" where
  "pa_list U F = concat (map (\<lambda>(k, r). case pa_from_dict U r of Inr a \<Rightarrow> [a] | Inl _ \<Rightarrow> []) (load_rows pending_key F))"

definition pa_clear :: "json_file \<Rightarrow> nat \<times> json_file" where
  "pa_clear F = (length (load_rows pending_key F), save_rows pending_key [])"

text \<open>\<^verbatim>\<open>str(Path(root).expanduser().resolve())\<close>\<close>

definition resolve_root :: "host \<Rightarrow> pystr \<Rightarrow> pa_error + pystr" where
  "resolve_root H s = (case Option.bind (expanduser H (parse_path s)) (h_resolve H) of
       None \<Rightarrow> Inl PAPathError | Some p \<Rightarrow> Inr (as_posix p))"

text \<open>The common part of \<^verbatim>\<open>attach_card\<close> and \<^verbatim>\<open>set_message_id\<close>: replace the row of a token that
  exists, in one locked step.\<close>

definition pa_update :: "pyuni \<Rightarrow> (PendingApproval \<Rightarrow> pa_error + PendingApproval) \<Rightarrow> pystr \<Rightarrow> json_file
    \<Rightarrow> (pa_error + PendingApproval option) \<times> json_file" where
  "pa_update U f t F =
     (let data = load_rows pending_key F
      in case dget data t of
           None \<Rightarrow> (Inr None, F)
         | Some raw \<Rightarrow>
             (case pa_from_dict U raw of Inl e \<Rightarrow> (Inl e, F)
              | Inr r \<Rightarrow> (case f r of Inl e \<Rightarrow> (Inl e, F)
                 | Inr updated \<Rightarrow> (Inr (Some updated), save_rows pending_key (dput t (pa_to_dict updated) data)))))"

definition attach_card :: "pyuni \<Rightarrow> host \<Rightarrow> pystr \<Rightarrow> pystr \<Rightarrow> int \<Rightarrow> args \<Rightarrow> json_file
    \<Rightarrow> (pa_error + PendingApproval option) \<times> json_file" where
  "attach_card U H t root chat crd F =
     pa_update U (\<lambda>r. map_sum id (\<lambda>p. r\<lparr>pa_root := p, pa_chat_id := chat, pa_card := Some crd\<rparr>) (resolve_root H root)) t F"

definition set_message_id :: "pyuni \<Rightarrow> pystr \<Rightarrow> int \<Rightarrow> json_file
    \<Rightarrow> (pa_error + PendingApproval option) \<times> json_file" where
  "set_message_id U t mid F = pa_update U (\<lambda>r. Inr (r\<lparr>pa_message_id := Some (PyInt mid)\<rparr>)) t F"

definition record_pending_approval :: "host \<Rightarrow> pystr \<Rightarrow> pystr \<Rightarrow> pystr \<Rightarrow> int \<Rightarrow> pyint option \<Rightarrow> pystr option
    \<Rightarrow> pystr \<Rightarrow> json_file \<Rightarrow> (pa_error + PendingApproval) \<times> json_file" where
  "record_pending_approval H root thread intr chat mid tok minted F =
     (case resolve_root H root of Inl e \<Rightarrow> (Inl e, F)
      | Inr p \<Rightarrow>
          (case pa_put \<lparr>pa_token = (case tok of Some t \<Rightarrow> or_msg t minted | None \<Rightarrow> minted), pa_root = p,
              pa_thread_id = thread, pa_interrupt_id = intr, pa_chat_id = chat, pa_message_id = mid,
              pa_card = None\<rparr> F of (r, F') \<Rightarrow> (Inr r, F')))"

section \<open>Approvers\<close>

text \<open>The approver that parks never answers: it raises \<^verbatim>\<open>ApprovalParked\<close>, or what \<^verbatim>\<open>on_park\<close>
  raised. \<open>root_s\<close> is the root that \<^verbatim>\<open>make_park_approver\<close> resolved.\<close>

datatype 'e park_exn = ApprovalParked pystr ApprovalRequest | ParkCallbackError 'e

definition park :: "pystr \<Rightarrow> pystr \<Rightarrow> pystr \<Rightarrow> int \<Rightarrow> pyint option
    \<Rightarrow> (PendingApproval \<Rightarrow> ApprovalRequest \<Rightarrow> args) option
    \<Rightarrow> (PendingApproval \<Rightarrow> ApprovalRequest \<Rightarrow> 'x \<Rightarrow> 'e option \<times> 'x) option
    \<Rightarrow> pystr \<Rightarrow> ApprovalRequest \<Rightarrow> json_file \<Rightarrow> 'x \<Rightarrow> 'e park_exn \<times> json_file \<times> 'x" where
  "park root_s thread intr chat mid card_factory on_park minted q F x =
     (let r0 = \<lparr>pa_token = minted, pa_root = root_s, pa_thread_id = thread, pa_interrupt_id = intr,
                pa_chat_id = chat, pa_message_id = mid, pa_card = None\<rparr>;
          r = (case card_factory of None \<Rightarrow> r0 | Some f \<Rightarrow> r0\<lparr>pa_card := Some (f r0 q)\<rparr>);
          F' = snd (pa_put r F)
      in case on_park of
           None \<Rightarrow> (ApprovalParked (pa_token r) q, F', x)
         | Some f \<Rightarrow> (case f r q x of
              (Some e, x') \<Rightarrow> (ParkCallbackError e, F', x')
            | (None, x') \<Rightarrow> (ApprovalParked (pa_token r) q, F', x')))"

datatype scope_arg = ScopeValue RememberScope | ScopeText pystr

definition remember_scope_of :: "pyuni \<Rightarrow> scope_arg \<Rightarrow> RememberScope option" where
  "remember_scope_of U s = (case s of ScopeValue v \<Rightarrow> Some v
     | ScopeText t \<Rightarrow> (let v = lower U t
         in if v = u ''once'' then Some ONCE else if v = u ''session'' then Some SESSION
            else if v = u ''always'' then Some ALWAYS else None))"

definition verdict_reply :: "pyuni \<Rightarrow> bool \<Rightarrow> scope_arg \<Rightarrow> pystr \<Rightarrow> pystr option \<Rightarrow> args option
    \<Rightarrow> ApprovalReply option" where
  "verdict_reply U ok s msg plan edits =
     map_option (\<lambda>v. \<lparr>approved = ok, reply_scope = (if v = ALWAYS then SESSION else v), message = msg,
        edited_args = edits, plan_mode_target = plan\<rparr>) (remember_scope_of U s)"

definition make_verdict_approver :: "pyuni \<Rightarrow> bool \<Rightarrow> scope_arg \<Rightarrow> pystr \<Rightarrow> pystr option \<Rightarrow> args option
    \<Rightarrow> (ApprovalRequest \<Rightarrow> PermissionEngine \<Rightarrow> 'x \<Rightarrow> ApprovalReply \<times> PermissionEngine \<times> 'x) option" where
  "make_verdict_approver U ok s msg plan edits =
     map_option (\<lambda>reply q E x. (reply, E, x)) (verdict_reply U ok s msg plan edits)"

section \<open>Resuming\<close>

text \<open>\<^verbatim>\<open>resume_pending_approval\<close>: every pending interrupt is resolved on its own, then the graph is
  resumed with all decisions. The undo snapshot that the driver takes before it resumes is not
  modelled.\<close>

fun resolve_pending :: "'x params \<Rightarrow> (pystr option \<times> interrupt_value) list \<Rightarrow> 'x driver
    \<Rightarrow> Event list \<times> (exn + (pystr option \<times> tool_decision list) list) \<times> 'x driver" where
  "resolve_pending Z [] d = ([], Inr [], d)"
| "resolve_pending Z ((iid, v) # pend) d =
     (case resolve_interrupts Z [v] d of
        (out, d1, Some e) \<Rightarrow> (map fst out, Inl e, d1)
      | (out, d1, None) \<Rightarrow>
          (case resolve_pending Z pend d1 of (evs, res, d2) \<Rightarrow>
             (map fst out @ evs, map_sum id (\<lambda>rs. (iid, decisions out) # rs) res, d2)))"

text \<open>The graph is a parameter: from a resume value it runs to its next stop, and returns the events
  it streamed and the interrupts it raised (none when the turn is over).\<close>

type_synonym 'x graph = "resume \<Rightarrow> 'x driver \<Rightarrow> Event list \<times> (pystr option \<times> interrupt_value) list \<times> 'x driver"

text \<open>One decision per interrupt: a later interrupt with the id of an earlier one is dropped; the
  ones without an id are different objects.\<close>

fun unique_interrupts :: "pystr list \<Rightarrow> (pystr option \<times> interrupt_value) list \<Rightarrow> (pystr option \<times> interrupt_value) list" where
  "unique_interrupts seen [] = []"
| "unique_interrupts seen ((iid, v) # is) =
     (case iid of
        None \<Rightarrow> (iid, v) # unique_interrupts seen is
      | Some i \<Rightarrow> if i = [] then (iid, v) # unique_interrupts seen is
                  else if i \<in> set seen then unique_interrupts seen is
                  else (iid, v) # unique_interrupts (i # seen) is)"

text \<open>The interrupt loop of \<^verbatim>\<open>_stream_turn\<close>. It may run forever, when the graph never stops asking.\<close>

partial_function (option) stream_turn :: "'x params \<Rightarrow> 'x graph \<Rightarrow> resume \<Rightarrow> 'x driver
    \<Rightarrow> (Event list \<times> exn option \<times> 'x driver) option" where
  "stream_turn Z graph payload d =
     (case graph payload d of (evs, intrs, d1) \<Rightarrow>
        if intrs = [] then Some (evs @ [ev DONE [] []], None, d1)
        else (case resolve_pending Z (unique_interrupts [] intrs) d1 of
            (evs2, Inl e, d2) \<Rightarrow> Some (evs @ evs2, Some e, d2)
          | (evs2, Inr resolved, d2) \<Rightarrow>
              Option.bind (stream_turn Z graph (resume_payload resolved) d2)
                (\<lambda>(evs3, e, d3). Some (evs @ evs2 @ evs3, e, d3))))"

definition resume_pending_approval :: "'x params \<Rightarrow> 'x graph \<Rightarrow> (pystr option \<times> interrupt_value) list
    \<Rightarrow> 'x driver \<Rightarrow> (Event list \<times> exn option \<times> 'x driver) option" where
  "resume_pending_approval Z graph intrs d =
     (let pend = unique_interrupts [] intrs
      in if pend = [] then Some ([], None, d)
         else (case resolve_pending Z pend d of
             (evs, Inl e, d1) \<Rightarrow> Some (evs, Some e, d1)
           | (evs, Inr resolved, d1) \<Rightarrow>
               map_option (\<lambda>(evs', e, d2). (evs @ evs', e, d2)) (stream_turn Z graph (resume_payload resolved) d1)))"

record 'x worker =
  wk_thread :: "pystr option"
  wk_params :: "'x params"
  wk_driver :: "'x driver"

datatype resume_error = UnknownToken | BadRow pa_error | BadScope | TurnError exn | BadRowOnDelete pa_error

text \<open>\<open>pend\<close> gives the interrupts pending in the checkpoint of a thread. The \<^verbatim>\<open>finally\<close> block
  restores the approver and deletes the row, also when the turn raised; an error of the deletion then
  replaces the turn's error.\<close>

definition resume_parked_approval :: "pyuni \<Rightarrow> 'x graph \<Rightarrow> (pystr option \<Rightarrow> (pystr option \<times> interrupt_value) list)
    \<Rightarrow> pystr \<Rightarrow> bool \<Rightarrow> scope_arg \<Rightarrow> pystr \<Rightarrow> pystr option \<Rightarrow> args option \<Rightarrow> bool \<Rightarrow> json_file \<Rightarrow> 'x worker
    \<Rightarrow> (Event list \<times> resume_error option \<times> json_file \<times> 'x worker) option" where
  "resume_parked_approval U graph pend tok ok s msg plan edits delete_on_complete F w =
     (case pa_get U tok F of
        Inl e \<Rightarrow> Some ([], Some (BadRow e), F, w)
      | Inr None \<Rightarrow> Some ([], Some UnknownToken, F, w)
      | Inr (Some r) \<Rightarrow>
          (let w1 = (if wk_thread w \<noteq> None \<and> wk_thread w \<noteq> Some (pa_thread_id r)
                     then w\<lparr>wk_thread := Some (pa_thread_id r)\<rparr> else w)
           in case make_verdict_approver U ok s msg plan edits of
                None \<Rightarrow> Some ([], Some BadScope, F, w1)
              | Some ap \<Rightarrow>
                  map_option (\<lambda>(evs, e, d).
                      (let w2 = w1\<lparr>wk_driver := d\<rparr>
                       in if delete_on_complete
                          then (case pa_delete U tok F of
                                  (Inl er, F') \<Rightarrow> (evs, Some (BadRowOnDelete er), F', w2)
                                | (Inr _, F') \<Rightarrow> (evs, map_option TurnError e, F', w2))
                          else (evs, map_option TurnError e, F, w2)))
                    (resume_pending_approval ((wk_params w1)\<lparr>p_approver := ap\<rparr>) graph (pend (wk_thread w1)) (wk_driver w1))))"

section \<open>Lemmas\<close>

lemma pa_to_dict_get:
  "dget (pa_to_dict r) (u ''token'') = Some (JStr (pa_token r))" "dget (pa_to_dict r) (u ''root'') = Some (JStr (pa_root r))"
  "dget (pa_to_dict r) (u ''thread_id'') = Some (JStr (pa_thread_id r))"
  "dget (pa_to_dict r) (u ''interrupt_id'') = Some (JStr (pa_interrupt_id r))"
  "row_chat_id (pa_to_dict r) = Inr (pa_chat_id r)" "row_message_id (pa_to_dict r) = Inr (pa_message_id r)"
  "row_card (pa_to_dict r) = Inr (pa_card r)"
  by (simp_all add: pa_to_dict_def row_chat_id_def row_message_id_def row_card_def aget_def split: option.split pyint.split)

lemma pa_from_to_dict: "pa_from_dict U (pa_to_dict r) = Inr r"
  by (simp add: pa_from_dict_def pa_to_dict_get py_str_def)

interpretation parked: row_codec pa_to_dict "pa_from_dict U" pending_key "\<lambda>r. True" for U
  by unfold_locales (rule pa_from_to_dict)

lemma pa_update_get:
  assumes "file_ok pending_key F" "pa_update U f t F = (Inr (Some r), F')"
  shows "pa_get U k F' = (if k = t then Inr (Some r) else pa_get U k F)"
proof -
  from assms(2) have "F' = store_put pa_to_dict pending_key t r F"
    by (auto simp: pa_update_def Let_def store_put_def split: option.splits sum.splits)
  then show ?thesis using parked.get_put[OF assms(1)] by (simp add: pa_get_def)
qed

text \<open>A resolution whose effects end with the session: no rule is persisted, and of the engine only
  the approvals and refusals of the session change.\<close>

definition session_bound :: "'x driver \<Rightarrow> 'x driver \<Rightarrow> bool" where
  "session_bound d d' \<longleftrightarrow> d_saved d' = d_saved d
     \<and> (\<exists>sa sd. d_engine d' = (d_engine d)\<lparr>session_allow := sa, session_deny := sd\<rparr>)"

lemma session_bound_engine: "d_saved d' = d_saved d \<Longrightarrow> d_engine d' = d_engine d \<Longrightarrow> session_bound d d'"
  unfolding session_bound_def by (metis PermissionEngine.surjective PermissionEngine.update_convs(7,8))

lemma session_bound_refl [simp]: "session_bound d d" "session_bound d (d\<lparr>d_ext := x\<rparr>)"
  by (simp_all add: session_bound_engine)

lemma session_bound_trans: "session_bound d d1 \<Longrightarrow> session_bound d1 d2 \<Longrightarrow> session_bound d d2"
  unfolding session_bound_def by fastforce

text \<open>An approver that never asks for persistence and leaves the engine alone.\<close>

definition tame :: "'x params \<Rightarrow> bool" where
  "tame Z \<longleftrightarrow> (\<forall>q E x. reply_scope (fst (p_approver Z q E x)) \<noteq> ALWAYS \<and> fst (snd (p_approver Z q E x)) = E)"

lemma verdict_tame:
  "make_verdict_approver U ok s msg plan edits = Some ap \<Longrightarrow> tame (Z\<lparr>p_approver := ap\<rparr>)"
  by (auto simp: make_verdict_approver_def verdict_reply_def tame_def split: if_splits)

lemma tame_call:
  assumes "tame Z" "call_approver Z q d = (reply, d')"
  shows "session_bound d d' \<and> reply_scope reply \<noteq> ALWAYS"
proof -
  obtain E x where p: "p_approver Z q (d_engine d) (d_ext d) = (reply, E, x)"
    using assms(2) by (auto simp: call_approver_def split: prod.splits)
  then have "E = d_engine d" "reply_scope reply \<noteq> ALWAYS" using assms(1) unfolding tame_def by (metis fst_conv snd_conv)+
  with p assms(2) show ?thesis by (auto simp: call_approver_def intro: session_bound_engine)
qed

lemma session_bound_upd:
  "session_bound d (d\<lparr>d_engine := (d_engine d)\<lparr>session_allow := sa\<rparr>\<rparr>)"
  "session_bound d (d\<lparr>d_engine := (d_engine d)\<lparr>session_deny := sd\<rparr>\<rparr>)"
proof -
  have "(d_engine d)\<lparr>session_allow := sa\<rparr> = (d_engine d)\<lparr>session_allow := sa, session_deny := session_deny (d_engine d)\<rparr>"
    "(d_engine d)\<lparr>session_deny := sd\<rparr> = (d_engine d)\<lparr>session_allow := session_allow (d_engine d), session_deny := sd\<rparr>"
    by simp_all
  then show "session_bound d (d\<lparr>d_engine := (d_engine d)\<lparr>session_allow := sa\<rparr>\<rparr>)"
    "session_bound d (d\<lparr>d_engine := (d_engine d)\<lparr>session_deny := sd\<rparr>\<rparr>)"
    unfolding session_bound_def by (cases d; metis driver.select_convs(1,3) driver.update_convs(1))+
qed

lemma tame_remember: "s \<noteq> ALWAYS \<Longrightarrow> session_bound d (driver_remember Z a s d)"
  using session_bound_upd(1)[of d] by (cases s) (simp_all add: driver_remember_def remember_def Let_def session_bound_engine)

lemma tame_deny: "session_bound d (d\<lparr>d_engine := deny_session_op H (d_engine d) a\<rparr>)"
  unfolding deny_session_op_def by (rule session_bound_upd)

lemma tame_handoff: "tame Z \<Longrightarrow> session_bound d (fst (snd (handoff Z q t y n m d)))"
  using tame_call[of Z q d] by (auto simp: handoff_def split: prod.splits)

lemma tame_ask:
  assumes "tame Z"
  shows "session_bound d (snd (ask_user Z rq name a r d))"
proof -
  obtain reply d1 where c: "call_approver Z (request a r (rq_description rq) (rq_args rq)) d = (reply, d1)" by force
  from tame_call[OF assms c] have b: "session_bound d d1" "reply_scope reply \<noteq> ALWAYS" by simp_all
  from session_bound_trans[OF b(1) tame_remember[OF b(2)]] session_bound_trans[OF b(1) tame_deny] b(2)
  show ?thesis by (simp add: ask_user_def c Let_def split: option.split)
qed

lemma tame_gate:
  assumes "tame Z"
  shows "session_bound d (fst (snd (gate_tool Z rq name a d)))"
  using tame_ask[OF assms, of d rq name a]
  by (auto simp: gate_tool_def split: sum.split Decision.split prod.splits) (metis snd_conv)

lemma tame_one:
  assumes "tame Z"
  shows "session_bound d (fst (snd (resolve_one Z rq d)))"
proof -
  have "session_bound d (fst (snd (ordinary_tool Z rq name d)))" for name
  proof (cases "d_hooks d")
    case (Some R)
    let ?a = "tool_to_action (p_uni Z) name (rq_args rq)"
    obtain ab nts x where p: "run_pre_hooks Z R name ?a (d_ext d) = ((ab, nts), x)"
      by (cases "run_pre_hooks Z R name ?a (d_ext d)") auto
    have "session_bound d (fst (snd (gate_tool Z rq name ?a (d\<lparr>d_ext := x\<rparr>))))"
      by (rule session_bound_trans[OF session_bound_refl(2) tame_gate[OF assms]])
    then show ?thesis
      by (cases ab; cases "gate_tool Z rq name ?a (d\<lparr>d_ext := x\<rparr>)") (simp_all add: ordinary_tool_def Some p)
  qed (simp add: ordinary_tool_def tame_gate[OF assms])
  then show ?thesis
    by (simp add: resolve_one_def Let_def plan_handoff_def memory_handoff_def skill_handoff_def schedule_handoff_def
        tame_handoff[OF assms])
qed

lemma tame_requests: "tame Z \<Longrightarrow> session_bound d (fst (snd (resolve_requests Z rqs d)))"
proof (induction rqs arbitrary: d)
  case (Cons rq rqs)
  obtain out1 d1 e1 where 1: "resolve_one Z rq d = (out1, d1, e1)" by (cases "resolve_one Z rq d") auto
  have "session_bound d d1" using tame_one[OF Cons.prems, of d rq] 1 by simp
  with session_bound_trans[OF _ Cons.IH[OF Cons.prems, of d1]] 1 show ?case
    by (cases e1; cases "resolve_requests Z rqs d1") auto
qed simp

lemma tame_pending: "tame Z \<Longrightarrow> session_bound d (snd (snd (resolve_pending Z pend d)))"
proof (induction pend arbitrary: d)
  case (Cons x pend)
  obtain iid v where x: "x = (iid, v)" by force
  obtain out d1 e where r: "resolve_interrupts Z [v] d = (out, d1, e)" by (metis prod_cases3)
  have "session_bound d d1" using tame_requests[OF Cons.prems, of d] r unfolding resolve_interrupts_def by (metis fst_conv snd_conv)
  with session_bound_trans[OF _ Cons.IH[OF Cons.prems, of d1]] r show ?case
    by (cases e; cases "resolve_pending Z pend d1") (auto simp: x)
qed simp

lemma tame_stream:
  assumes "tame Z" "\<And>pl d. session_bound d (snd (snd (graph pl d)))"
    and "stream_turn Z graph pl d = Some y"
  shows "session_bound d (snd (snd y))"
proof -
  have "Z' = Z \<longrightarrow> graph' = graph \<longrightarrow> session_bound d (snd (snd y))"
    if "stream_turn Z' graph' pl d = Some y" for Z' graph' pl d y
  proof (rule stream_turn.raw_induct[OF _ that], intro impI)
    fix f Z' graph' pl d y
    assume ih: "\<And>Z' graph' pl d y. f Z' graph' pl d = Some y \<Longrightarrow> Z' = Z \<longrightarrow> graph' = graph \<longrightarrow> session_bound d (snd (snd y))"
      and body: "(case graph' pl d of (evs, intrs, d1) \<Rightarrow>
        if intrs = [] then Some (evs @ [ev DONE [] []], None, d1)
        else (case resolve_pending Z' (unique_interrupts [] intrs) d1 of
            (evs2, Inl e, d2) \<Rightarrow> Some (evs @ evs2, Some e, d2)
          | (evs2, Inr resolved, d2) \<Rightarrow>
              Option.bind (f Z' graph' (resume_payload resolved) d2)
                (\<lambda>(evs3, e, d3). Some (evs @ evs2 @ evs3, e, d3)))) = Some y"
      and eq: "Z' = Z" "graph' = graph"
    obtain evs ints d1 where g: "graph pl d = (evs, ints, d1)" by (metis prod_cases3)
    have b1: "session_bound d d1" using assms(2)[of d pl] g by simp
    obtain evs2 res d2 where r: "resolve_pending Z (unique_interrupts [] ints) d1 = (evs2, res, d2)" by (metis prod_cases3)
    have b2: "session_bound d d2"
      using session_bound_trans[OF b1 tame_pending[OF assms(1), of d1 "unique_interrupts [] ints"]] r by simp
    have rec: "session_bound d d3" if "f Z graph pl' d2 = Some (evs3, e, d3)" for pl' evs3 e d3
      using session_bound_trans[OF b2] ih[OF that] by simp
    from body g r b1 b2 eq show "session_bound d (snd (snd y))"
      by (auto split: if_splits sum.splits bind_splits intro: rec)
  qed
  then show ?thesis using assms(3) by blast
qed

lemma tame_resume:
  assumes "tame Z" "\<And>pl d. session_bound d (snd (snd (graph pl d)))"
    and "resume_pending_approval Z graph ints d = Some y"
  shows "session_bound d (snd (snd y))"
proof (cases "unique_interrupts [] ints = []")
  case True
  with assms(3) show ?thesis by (auto simp: resume_pending_approval_def)
next
  case False
  obtain evs res d1 where r: "resolve_pending Z (unique_interrupts [] ints) d = (evs, res, d1)" by (metis prod_cases3)
  have b: "session_bound d d1" using tame_pending[OF assms(1), of d "unique_interrupts [] ints"] r by simp
  have "session_bound d d2" if "stream_turn Z graph pl d1 = Some (evs', e, d2)" for pl evs' e d2
    using session_bound_trans[OF b] tame_stream[OF assms(1,2) that] by simp
  with assms(3) False r b show ?thesis
    by (auto simp: resume_pending_approval_def Let_def split: sum.splits)
qed

lemma verdict_none_iff: "make_verdict_approver U ok s msg plan edits = None \<longleftrightarrow> remember_scope_of U s = None"
  by (simp add: make_verdict_approver_def verdict_reply_def)

text \<open>The thread, the verdict and the resumed turn of a token that is known.\<close>

lemma resume_parked_cases:
  assumes "resume_parked_approval U graph pend tok ok s msg plan edits del F w = Some (evs, err, F', w')"
  obtains "wk_driver w' = wk_driver w" "wk_params w' = wk_params w" "F' = F"
      "(\<forall>r. pa_get U tok F \<noteq> Inr (Some r)) \<or> remember_scope_of U s = None"
  | r ap e d where "pa_get U tok F = Inr (Some r)" "make_verdict_approver U ok s msg plan edits = Some ap"
      "resume_pending_approval ((wk_params w)\<lparr>p_approver := ap\<rparr>) graph
         (pend (if wk_thread w \<noteq> None then Some (pa_thread_id r) else None)) (wk_driver w) = Some (evs, e, d)"
      "wk_driver w' = d" "wk_params w' = wk_params w" "F' = (if del then snd (pa_delete U tok F) else F)"
proof -
  show thesis
  proof (cases "pa_get U tok F")
    case (Inr ro)
    show thesis
    proof (cases ro)
      case (Some r)
      show thesis
      proof (cases "make_verdict_approver U ok s msg plan edits :: (ApprovalRequest \<Rightarrow> PermissionEngine \<Rightarrow> 'a \<Rightarrow> ApprovalReply \<times> PermissionEngine \<times> 'a) option")
        case (Some ap)
        let ?t = "if wk_thread w \<noteq> None then Some (pa_thread_id r) else None"
        from assms Inr \<open>ro = Some r\<close> Some obtain e d where
          "resume_pending_approval ((wk_params w)\<lparr>p_approver := ap\<rparr>) graph (pend ?t) (wk_driver w) = Some (evs, e, d)"
          "wk_driver w' = d" "wk_params w' = wk_params w" "F' = (if del then snd (pa_delete U tok F) else F)"
          by (auto simp: resume_parked_approval_def Let_def split: if_splits prod.splits sum.splits)
        with that(2) Inr \<open>ro = Some r\<close> Some show thesis by blast
      next
        case None
        with assms Inr Some have "wk_driver w' = wk_driver w" "wk_params w' = wk_params w" "F' = F"
          by (auto simp: resume_parked_approval_def Let_def split: if_splits)
        with that(1) None show thesis by (simp add: verdict_none_iff)
      qed
    qed (use assms Inr that(1) in \<open>auto simp: resume_parked_approval_def\<close>)
  qed (use assms that(1) in \<open>auto simp: resume_parked_approval_def\<close>)
qed

section \<open>Properties\<close>


text \<open>
  A parked question is kept until it is settled: parking records the question under its token with
  its route, and leaves every other row as it was; when the turn of a known token has been resumed,
  exactly that row is gone.
\<close>

theorem parked_until_settled:
  assumes "file_ok pending_key F"
    and "park root_s thread intr chat mid cf on_park tok q F x = (pe, F1, x1)"
    and "resume_parked_approval U graph pend tok ok s msg plan edits True F1 w = Some (evs, err, F2, w')"
    and "remember_scope_of U s \<noteq> None"
  shows "(\<exists>r. pa_get U tok F1 = Inr (Some r) \<and> pa_root r = root_s \<and> pa_thread_id r = thread
        \<and> pa_interrupt_id r = intr \<and> pa_chat_id r = chat \<and> pa_message_id r = mid)
     \<and> pa_get U tok F2 = Inr None
     \<and> (k \<noteq> tok \<longrightarrow> pa_get U k F1 = pa_get U k F \<and> pa_get U k F2 = pa_get U k F)"
proof -
  obtain r where F1: "F1 = store_put pa_to_dict pending_key tok r F" and
    r: "pa_root r = root_s" "pa_thread_id r = thread" "pa_interrupt_id r = intr" "pa_chat_id r = chat" "pa_message_id r = mid"
    using assms(2) by (cases cf) (auto simp: park_def pa_put_def Let_def split: option.splits prod.splits)
  have g1: "pa_get U k F1 = (if k = tok then Inr (Some r) else pa_get U k F)" for k
    unfolding pa_get_def F1 by (rule parked.get_put[OF assms(1)]) simp
  have ok1: "file_ok pending_key F1" unfolding F1 by (rule parked.put_ok[OF assms(1)])
  have "F2 = snd (pa_delete U tok F1)"
    using assms(3)
  proof (cases rule: resume_parked_cases)
    case 1
    with g1[of tok] assms(4) show ?thesis by simp
  qed simp
  then have "pa_get U k F2 = (if k = tok then Inr None else pa_get U k F1)" for k
    using parked.get_del[OF ok1, of U k tok] by (simp add: pa_get_def pa_delete_def)
  with g1 r show ?thesis by simp
qed


section \<open>A concrete turn\<close>

text \<open>A graph that raises one more, dangerous, call as long as the session has no approvals.\<close>

definition two_step_graph :: "unit graph" where
  "two_step_graph pl d = (if session_allow (d_engine d) = []
     then ([], [(None, IDict (Some [demo_request ''execute'' ''command'' ''sudo ls'']))], d) else ([], [], d))"

definition ask_worker :: "unit worker" where
  "ask_worker = \<lparr>wk_thread = Some (u ''t1''), wk_params = demo_params, wk_driver = demo_driver None\<rparr>"

definition make_pending :: "pystr option \<Rightarrow> (pystr option \<times> interrupt_value) list" where
  "make_pending t = [(Some (u ''i1''), IDict (Some [demo_request ''execute'' ''command'' ''make all'']))]"

definition parked_file :: json_file where
  "parked_file = fst (snd (park (u ''/p'') (u ''t1'') (u ''i1'') 7 None None (None :: (_ \<Rightarrow> _ \<Rightarrow> unit \<Rightarrow> unit option \<times> unit) option)
     (u ''tok'') (request (mk_action SHELL (u ''make all'') (u ''execute'') []) (presult ASK []) [] []) None ()))"

definition remote_yes :: "ApprovalRequest \<Rightarrow> PermissionEngine \<Rightarrow> unit \<Rightarrow> ApprovalReply \<times> PermissionEngine \<times> unit" where
  "remote_yes q E x = (\<lparr>approved = True, reply_scope = SESSION, message = [], edited_args = None, plan_mode_target = None\<rparr>, E, x)"

lemma two_step_bound: "session_bound d (snd (snd (two_step_graph pl d)))"
  by (simp add: two_step_graph_def)

lemma remote_yes_verdict: "make_verdict_approver ascii_uni True (ScopeText (u ''Always'')) [] None None = Some remote_yes"
proof -
  have "remember_scope_of ascii_uni (ScopeText (u ''Always'')) = Some ALWAYS" by code_simp
  then show ?thesis by (simp add: make_verdict_approver_def verdict_reply_def fun_eq_iff remote_yes_def)
qed

lemma demo_resume:
  "\<exists>evs w'. resume_parked_approval ascii_uni two_step_graph make_pending (u ''tok'') True (ScopeText (u ''Always''))
     [] None None True parked_file ask_worker
   = Some (evs, None, snd (pa_delete ascii_uni (u ''tok'') parked_file), w') \<and> session_allow (d_engine (wk_driver w')) \<noteq> []"
proof -
  let ?Z = "demo_params\<lparr>p_approver := remote_yes\<rparr>"
  let ?P = "[(Some (u ''i1''), IDict (Some [demo_request ''execute'' ''command'' ''make all'']))]"
  obtain evs res d1 where r: "resolve_pending ?Z ?P (demo_driver None) = (evs, res, d1)" by (metis prod_cases3)
  have "fst (snd (resolve_pending ?Z ?P (demo_driver None))) = Inr [(Some (u ''i1''), [Approve])]"
    "session_allow (d_engine (snd (snd (resolve_pending ?Z ?P (demo_driver None))))) \<noteq> []" by code_simp+
  with r have res: "res = Inr [(Some (u ''i1''), [Approve])]" and sa: "session_allow (d_engine d1) \<noteq> []" by simp_all
  have st: "stream_turn ?Z two_step_graph pl d1 = Some ([ev DONE [] []], None, d1)" for pl
    using sa by (subst stream_turn.simps) (simp add: two_step_graph_def)
  have u: "unique_interrupts [] ?P = ?P" by (simp add: u_def)
  have rp: "resume_pending_approval ?Z two_step_graph ?P (demo_driver None) = Some (evs @ [ev DONE [] []], None, d1)"
    by (simp add: resume_pending_approval_def u r res st del: unique_interrupts.simps resolve_pending.simps)
  have g: "fst (pa_delete ascii_uni (u ''tok'') parked_file) = pa_get ascii_uni (u ''tok'') parked_file"
    unfolding pa_delete_def pa_get_def by (rule parked.del_returns[symmetric])
  have p: "pa_get ascii_uni (u ''tok'') parked_file = Inr (Some \<lparr>pa_token = u ''tok'', pa_root = u ''/p'',
      pa_thread_id = u ''t1'', pa_interrupt_id = u ''i1'', pa_chat_id = 7, pa_message_id = None, pa_card = None\<rparr>)"
    by (simp add: parked_file_def park_def pa_put_def pa_get_def parked.get_put)
  obtain F' where "pa_delete ascii_uni (u ''tok'') parked_file = (pa_get ascii_uni (u ''tok'') parked_file, F')"
    using g by (metis prod.collapse)
  then show ?thesis
    using sa by (simp add: resume_parked_approval_def p remote_yes_verdict ask_worker_def make_pending_def rp)
qed


theorem parked_until_settled_witness:
  "\<exists>R. resume_parked_approval ascii_uni two_step_graph make_pending (u ''tok'') True (ScopeText (u ''Always''))
     [] None None True parked_file ask_worker = Some R
     \<and> (\<exists>r. pa_get ascii_uni (u ''tok'') parked_file = Inr (Some r) \<and> pa_root r = u ''/p'' \<and> pa_thread_id r = u ''t1''
        \<and> pa_interrupt_id r = u ''i1'' \<and> pa_chat_id r = 7 \<and> pa_message_id r = None)
     \<and> pa_get ascii_uni (u ''tok'') (fst (snd (snd R))) = Inr None"
proof -
  obtain evs F2 w' where R: "resume_parked_approval ascii_uni two_step_graph make_pending (u ''tok'') True
     (ScopeText (u ''Always'')) [] None None True parked_file ask_worker = Some (evs, None, F2, w')"
    using demo_resume by blast
  let ?cb = "None :: (_ \<Rightarrow> _ \<Rightarrow> unit \<Rightarrow> unit option \<times> unit) option"
  let ?q = "request (mk_action SHELL (u ''make all'') (u ''execute'') []) (presult ASK []) [] []"
  obtain pe where p: "park (u ''/p'') (u ''t1'') (u ''i1'') 7 None None ?cb (u ''tok'') ?q None () = (pe, parked_file, ())"
    by (simp add: parked_file_def park_def)
  have s: "remember_scope_of ascii_uni (ScopeText (u ''Always'')) \<noteq> None" by code_simp
  from parked_until_settled[OF file_ok_None p R s, of "u ''tok''"] R show ?thesis by auto
qed


end
