(* ===== verification/Read_Filter.thy ===== *)
theory Read_Filter
  imports Bridge
begin

text \<open>
  The filter of read results, \<^verbatim>\<open>src/src/jarn/agent/read_filter.py\<close>, with the file types of
  \<^verbatim>\<open>src/src/jarn/agent/files.py\<close>: what the search and read tools return passes through it before
  the model sees it. The tools themselves are a parameter (\<open>handler\<close>), and so is
  \<^verbatim>\<open>ast.literal_eval\<close> (\<open>evl\<close>, \<open>None\<close> for the errors that are caught).
\<close>

section \<open>File types\<close>

definition IMAGE_EXTS :: "pystr list" where
  "IMAGE_EXTS = map u [''.png'', ''.jpg'', ''.jpeg'', ''.gif'', ''.webp'', ''.bmp'', ''.svg'']"
definition DOC_EXTS :: "pystr list" where
  "DOC_EXTS = [u ''.pdf'']"
definition AUDIO_EXTS :: "pystr list" where
  "AUDIO_EXTS = map u [''.mp3'', ''.wav'', ''.m4a'', ''.ogg'', ''.oga'', ''.flac'']"
definition VIDEO_EXTS :: "pystr list" where
  "VIDEO_EXTS = map u [''.mp4'', ''.mov'', ''.webm'', ''.mkv'', ''.avi'']"
definition MULTIMODAL_EXTS :: "pystr list" where
  "MULTIMODAL_EXTS = IMAGE_EXTS @ DOC_EXTS @ AUDIO_EXTS @ VIDEO_EXTS"

text \<open>\<^verbatim>\<open>Path(path).suffix\<close>: the last dot of the name and what follows, unless the dot is the first or
  the last character.\<close>

definition path_suffix :: "pystr \<Rightarrow> pystr" where
  "path_suffix path =
     (let name = (case ptail (parse_path path) of [] \<Rightarrow> [] | t # ts \<Rightarrow> last (t # ts));
          ext = takeWhile (\<lambda>c. c \<noteq> 46) (rev name)
      in if 46 \<in> set name \<and> ext \<noteq> [] \<and> length ext + 1 < length name then 46 # rev ext else [])"

definition is_multimodal_path :: "pyuni \<Rightarrow> pystr \<Rightarrow> bool" where
  "is_multimodal_path U path \<longleftrightarrow> lower U (path_suffix path) \<in> set MULTIMODAL_EXTS"

definition modality_of :: "pyuni \<Rightarrow> pystr \<Rightarrow> pystr" where
  "modality_of U path =
     (let ext = lower U (path_suffix path)
      in if ext \<in> set IMAGE_EXTS then u ''image''
         else if ext \<in> set DOC_EXTS then u ''document''
         else if ext \<in> set AUDIO_EXTS then u ''audio''
         else if ext \<in> set VIDEO_EXTS then u ''video''
         else u ''text'')"

section \<open>Filtering search output\<close>

definition REDACTION_NOTICE :: pystr where
  "REDACTION_NOTICE = u ''[jarn: omitted matches in read-restricted files (e.g. .env / keys); read a specific approved path to view it]''"

definition EMPTY_AFTER_REDACTION :: pystr where
  "EMPTY_AFTER_REDACTION = u ''No matches found (matches in read-restricted files were omitted)''"

definition ascii_letter :: "int \<Rightarrow> bool" where
  "ascii_letter c \<longleftrightarrow> (65 \<le> c \<and> c \<le> 90) \<or> (97 \<le> c \<and> c \<le> 122)"

fun abs_windows :: "pystr \<Rightarrow> bool" where
  "abs_windows (c # d # e # s) = (ascii_letter c \<and> d = 58 \<and> (e = 92 \<or> e = 47) \<or> c = 92 \<and> d = 92)"
| "abs_windows [c, d] = (c = 92 \<and> d = 92)"
| "abs_windows _ = False"

definition looks_absolute :: "pystr \<Rightarrow> bool" where
  "looks_absolute line \<longleftrightarrow> take 1 line = [47] \<or> abs_windows line"

text \<open>\<^verbatim>\<open>s.rsplit(sep, 1)[0]\<close>, or \<open>None\<close> when \<^verbatim>\<open>sep\<close> does not occur.\<close>

fun before_last :: "pystr \<Rightarrow> pystr \<Rightarrow> pystr option" where
  "before_last sep [] = None"
| "before_last sep (c # cs) =
     (case before_last sep cs of
        Some p \<Rightarrow> Some (c # p)
      | None \<Rightarrow> if startswith (c # cs) sep then Some [] else None)"

definition count_line_path :: "pystr \<Rightarrow> pystr" where
  "count_line_path line = (case before_last (u '': '') line of None \<Rightarrow> line | Some p \<Rightarrow> p)"

definition filter_line_mode :: "pystr \<Rightarrow> (pystr \<Rightarrow> bool) \<Rightarrow> (pystr \<Rightarrow> pystr) \<Rightarrow> pystr \<times> bool" where
  "filter_line_mode content blocked path_of =
     (let drop_line = (\<lambda>line. looks_absolute line \<and> blocked (path_of line)); lines = split_chr 10 content
      in (py_join [10] (filter (\<lambda>l. \<not> drop_line l) lines), list_ex drop_line lines))"

text \<open>The loop of \<^verbatim>\<open>_filter_content_mode\<close>; \<open>skip\<close> says that the current file is blocked.\<close>

fun content_loop :: "(pystr \<Rightarrow> bool) \<Rightarrow> bool \<Rightarrow> pystr list \<Rightarrow> pystr list \<times> bool" where
  "content_loop blocked skip [] = ([], False)"
| "content_loop blocked skip (line # lines) =
     (if looks_absolute line \<and> endswith line [58] then
        (if blocked (butlast line) then (case content_loop blocked True lines of (ks, _) \<Rightarrow> (ks, True))
         else (case content_loop blocked False lines of (ks, r) \<Rightarrow> (line # ks, r)))
      else if startswith line [32] \<or> startswith line [9] \<or> line = [] then
        (if skip then content_loop blocked skip lines
         else (case content_loop blocked skip lines of (ks, r) \<Rightarrow> (line # ks, r)))
      else (case content_loop blocked False lines of (ks, r) \<Rightarrow> (line # ks, r)))"

definition filter_content_mode :: "pystr \<Rightarrow> (pystr \<Rightarrow> bool) \<Rightarrow> pystr \<times> bool" where
  "filter_content_mode content blocked =
     (case content_loop blocked False (split_chr 10 content) of (ks, r) \<Rightarrow> (py_join [10] ks, r))"

definition filter_grep_content :: "pystr \<Rightarrow> pystr \<Rightarrow> (pystr \<Rightarrow> bool) \<Rightarrow> pystr \<times> bool" where
  "filter_grep_content content output_mode blocked =
     (case (if output_mode = u ''content'' then filter_content_mode content blocked
            else if output_mode = u ''count'' then filter_line_mode content blocked count_line_path
            else filter_line_mode content blocked (\<lambda>l. l)) of
        (filtered, removed) \<Rightarrow>
          if \<not> removed then (content, False)
          else if strip_ws filtered = [] then (EMPTY_AFTER_REDACTION, True)
          else (filtered @ [10] @ REDACTION_NOTICE, True))"

section \<open>The middleware\<close>

datatype content = CText pystr | CBlocks "json list"

record ToolMessage =
  tm_content :: content
  tm_name :: "pystr option"
  tm_call_id :: "pystr option"
  tm_status :: pystr

datatype 'r tool_result = Message ToolMessage | OtherResult 'r

record ToolCall =
  tc_name :: "pystr option"
  tc_args :: args
  tc_id :: "pystr option"

record ReadResultFilter =
  rf_engine :: PermissionEngine
  rf_multimodal :: bool
  rf_unsupported :: "pystr list"

definition file_path_arg :: "pyuni \<Rightarrow> ToolCall \<Rightarrow> pystr" where
  "file_path_arg U call = py_str U (aget_or U (tc_args call) [''file_path''] (JStr []))"

definition error_message :: "pystr \<Rightarrow> pystr option \<Rightarrow> ToolMessage" where
  "error_message text cid = \<lparr>tm_content = CText text, tm_name = Some (u ''read_file''), tm_call_id = cid, tm_status = u ''error''\<rparr>"

definition target_text :: "pystr \<Rightarrow> pystr" where
  "target_text path = (if path \<noteq> [] then path else u ''this file'')"

definition multimodal_disabled_message :: "ToolCall \<Rightarrow> pystr \<Rightarrow> ToolMessage" where
  "multimodal_disabled_message call path =
     error_message (u ''Error: multimodal read disabled for '' @ target_text path
       @ u ''; media file reads are not available in this context'') (tc_id call)"

definition unsupported_media_message :: "ToolCall \<Rightarrow> pystr \<Rightarrow> pystr \<Rightarrow> ToolMessage" where
  "unsupported_media_message call path modality =
     error_message (u ''Error: the active model provider cannot accept '' @ modality @ u '' content from ''
       @ target_text path @ u ''; use a compatible model or convert the file first'') (tc_id call)"

definition disabled_multimodal_read :: "pyuni \<Rightarrow> ReadResultFilter \<Rightarrow> ToolCall \<Rightarrow> ToolMessage option" where
  "disabled_multimodal_read U R call =
     (let path = file_path_arg U call
      in if rf_multimodal R \<or> tc_name call \<noteq> Some (u ''read_file'') \<or> path = [] \<or> \<not> is_multimodal_path U path
         then None else Some (multimodal_disabled_message call path))"

definition unsupported_media_read :: "pyuni \<Rightarrow> ReadResultFilter \<Rightarrow> ToolCall \<Rightarrow> ToolMessage option" where
  "unsupported_media_read U R call =
     (let path = file_path_arg U call; modality = modality_of U path
      in if rf_unsupported R = [] \<or> tc_name call \<noteq> Some (u ''read_file'') \<or> modality \<notin> set (rf_unsupported R)
         then None else Some (unsupported_media_message call path modality))"

definition filter_grep :: "pyuni \<Rightarrow> host \<Rightarrow> ReadResultFilter \<Rightarrow> ToolCall \<Rightarrow> ToolMessage \<Rightarrow> ToolMessage" where
  "filter_grep U H R call m =
     (case tm_content m of
        CBlocks _ \<Rightarrow> m
      | CText text \<Rightarrow>
          if text = [] then m
          else (let mode = py_str U (aget_or U (tc_args call) [''output_mode''] (JStr (u ''files_with_matches'')))
                in case filter_grep_content text mode (read_content_blocked U H (rf_engine R)) of
                     (new, removed) \<Rightarrow> if \<not> removed then m else m\<lparr>tm_content := CText new\<rparr>))"

fun all_strs :: "json list \<Rightarrow> pystr list option" where
  "all_strs [] = Some []"
| "all_strs (JStr s # js) = map_option ((#) s) (all_strs js)"
| "all_strs (_ # js) = None"

definition parse_glob_paths :: "(pystr \<Rightarrow> json option) \<Rightarrow> pystr \<Rightarrow> pystr list option" where
  "parse_glob_paths evl text = (case evl text of Some (JList js) \<Rightarrow> all_strs js | _ \<Rightarrow> None)"

text \<open>\<^verbatim>\<open>str(paths)\<close>, the text of a list of strings.\<close>

definition glob_text :: "pyuni \<Rightarrow> pystr list \<Rightarrow> pystr" where
  "glob_text U paths = py_str U (JList (map JStr paths))"

definition filter_glob :: "pyuni \<Rightarrow> host \<Rightarrow> (pystr \<Rightarrow> json option) \<Rightarrow> ReadResultFilter \<Rightarrow> ToolMessage \<Rightarrow> ToolMessage" where
  "filter_glob U H evl R m =
     (case tm_content m of
        CBlocks _ \<Rightarrow> m
      | CText text \<Rightarrow>
          if text = [] then m
          else (case parse_glob_paths evl text of
                  None \<Rightarrow> m
                | Some paths \<Rightarrow>
                    (let kept = filter (\<lambda>p. \<not> is_read_denied_path U H (rf_engine R) p) paths
                     in if length kept = length paths then m else m\<lparr>tm_content := CText (glob_text U kept)\<rparr>)))"

definition block_type :: "json \<Rightarrow> json option" where
  "block_type b = (case b of JObj kvs \<Rightarrow> Some (aget kvs ''type'') | _ \<Rightarrow> None)"

definition filter_read_file :: "pyuni \<Rightarrow> host \<Rightarrow> ReadResultFilter \<Rightarrow> ToolCall \<Rightarrow> ToolMessage \<Rightarrow> ToolMessage" where
  "filter_read_file U H R call m =
     (let path = file_path_arg U call
      in if path \<noteq> [] \<and> is_read_denied_path U H (rf_engine R) path
         then error_message (u ''Error: permission denied for read on '' @ path)
                (if tc_id call = None \<or> tc_id call = Some [] then tm_call_id m else tc_id call)
         else (case tm_content m of
             CText _ \<Rightarrow> m
           | CBlocks bs \<Rightarrow>
               if \<not> rf_multimodal R \<and> list_ex (\<lambda>b. block_type b \<noteq> None \<and> block_type b \<noteq> Some (JStr (u ''text''))) bs
               then multimodal_disabled_message call path
               else (case filter (\<lambda>b. block_type b \<in> Some ` JStr ` set (rf_unsupported R)) bs of
                       [] \<Rightarrow> m
                     | b # _ \<Rightarrow> unsupported_media_message call path (py_str U (the (block_type b))))))"

definition filter_result :: "pyuni \<Rightarrow> host \<Rightarrow> (pystr \<Rightarrow> json option) \<Rightarrow> ReadResultFilter \<Rightarrow> ToolCall
    \<Rightarrow> 'r tool_result \<Rightarrow> 'r tool_result" where
  "filter_result U H evl R call res =
     (case res of
        OtherResult r \<Rightarrow> res
      | Message m \<Rightarrow>
          (let name = (if tc_name call = None \<or> tc_name call = Some [] then tm_name m else tc_name call)
           in if name = Some (u ''grep'') then Message (filter_grep U H R call m)
              else if name = Some (u ''glob'') then Message (filter_glob U H evl R m)
              else if name = Some (u ''read_file'') then Message (filter_read_file U H R call m)
              else res))"

definition wrap_tool_call :: "pyuni \<Rightarrow> host \<Rightarrow> (pystr \<Rightarrow> json option) \<Rightarrow> ReadResultFilter \<Rightarrow> ToolCall
    \<Rightarrow> (ToolCall \<Rightarrow> 'x \<Rightarrow> 'r tool_result \<times> 'x) \<Rightarrow> 'x \<Rightarrow> 'r tool_result \<times> 'x" where
  "wrap_tool_call U H evl R call handler x =
     (case disabled_multimodal_read U R call of
        Some m \<Rightarrow> (Message m, x)
      | None \<Rightarrow>
          (case unsupported_media_read U R call of
             Some m \<Rightarrow> (Message m, x)
           | None \<Rightarrow> (case handler call x of (res, x') \<Rightarrow> (filter_result U H evl R call res, x'))))"

section \<open>Search output\<close>

text \<open>
  The display of a search in content mode, as the docstring of \<^verbatim>\<open>_filter_grep_content\<close> describes it:
  for every file a header, the absolute path with a colon, then its indented match lines.
\<close>

definition hit_lines :: "pystr \<times> pystr list \<Rightarrow> pystr list" where
  "hit_lines hit = (fst hit @ [58]) # map ((@) [32, 32]) (snd hit)"

definition grep_display :: "(pystr \<times> pystr list) list \<Rightarrow> pystr" where
  "grep_display hits = py_join [10] (concat (map hit_lines hits))"

definition hit_ok :: "pystr \<times> pystr list \<Rightarrow> bool" where
  "hit_ok hit \<longleftrightarrow> looks_absolute (fst hit) \<and> 10 \<notin> set (fst hit) \<and> list_all (\<lambda>t. 10 \<notin> set t) (snd hit)"

text \<open>A path whose contents the engine would let the agent read without asking.\<close>

definition readable :: "pyuni \<Rightarrow> host \<Rightarrow> PermissionEngine \<Rightarrow> pystr \<Rightarrow> bool" where
  "readable U H E path \<longleftrightarrow> (\<exists>r. evaluate U H E (read_action path) = Inr r \<and> decision r = ALLOW)"

lemma split_chr_py_join:
  assumes "ls \<noteq> []" "list_all (\<lambda>l. c \<notin> set l) ls"
  shows "split_chr c (py_join [c] ls) = ls"
  using assms
proof (induction ls rule: induct_list012)
  case (3 l l' ls)
  then show ?case by (simp add: split_chr_join)
qed (simp_all add: split_chr_none)

lemma looks_absolute_append: "looks_absolute p \<Longrightarrow> looks_absolute (p @ s)"
  by (cases p rule: abs_windows.cases; cases s) (auto simp: looks_absolute_def ascii_letter_def)

lemma looks_absolute_start:
  assumes "looks_absolute p"
  shows "\<exists>c s. p = c # s \<and> \<not> isspace c"
  using assms by (cases p rule: abs_windows.cases) (auto simp: looks_absolute_def isspace_def ascii_letter_def)

lemma strip_ws_start: "\<not> isspace c \<Longrightarrow> strip_ws (c # s) \<noteq> []"
  by (auto simp: strip_ws_def lstrip_with_def rstrip_with_def)

lemma indented_line [simp]: "\<not> looks_absolute (32 # t)"
  by (cases "32 # t" rule: abs_windows.cases) (auto simp: looks_absolute_def ascii_letter_def)

lemma content_loop_indented:
  "content_loop bl skip (map ((@) [32, 32]) ts @ rest) =
     (if skip then content_loop bl skip rest
      else (map ((@) [32, 32]) ts @ fst (content_loop bl skip rest), snd (content_loop bl skip rest)))"
  by (induction ts) (auto split: prod.split)

lemma content_loop_hits:
  assumes "list_all hit_ok hits"
  shows "content_loop bl skip (concat (map hit_lines hits)) =
     (concat (map hit_lines (filter (\<lambda>h. \<not> bl (fst h)) hits)), list_ex (\<lambda>h. bl (fst h)) hits)"
  using assms
proof (induction hits arbitrary: skip)
  case (Cons h hits)
  have "looks_absolute (fst h @ [58])" using Cons.prems by (simp add: hit_ok_def looks_absolute_append)
  moreover have "endswith (fst h @ [58]) [58]" by (simp add: endswith_def)
  ultimately show ?case
    using Cons by (simp add: hit_lines_def content_loop_indented)
qed simp

lemma hit_lines_clean: "hit_ok h \<Longrightarrow> list_all (\<lambda>l. 10 \<notin> set l) (hit_lines h)"
  by (auto simp: hit_ok_def hit_lines_def list_all_iff)

lemma grep_display_lines:
  assumes "list_all hit_ok hits" "hits \<noteq> []"
  shows "split_chr 10 (grep_display hits) = concat (map hit_lines hits)"
proof -
  have "concat (map hit_lines hits) \<noteq> []" using assms(2) by (cases hits) (simp_all add: hit_lines_def)
  moreover have "list_all (\<lambda>l. 10 \<notin> set l) (concat (map hit_lines hits))"
    using assms(1) hit_lines_clean by (force simp: list_all_iff)
  ultimately show ?thesis unfolding grep_display_def by (rule split_chr_py_join)
qed

lemma grep_display_visible:
  assumes "list_all hit_ok hits" "hits \<noteq> []"
  shows "strip_ws (grep_display hits) \<noteq> []"
proof -
  obtain h hs where h: "hits = h # hs" using assms(2) by (cases hits) auto
  then obtain c p where "fst h = c # p" "\<not> isspace c"
    using assms(1) looks_absolute_start[of "fst h"] by (auto simp: hit_ok_def)
  moreover obtain ls where "concat (map hit_lines hits) = (fst h @ [58]) # ls" by (simp add: h hit_lines_def)
  ultimately have "\<exists>s. grep_display hits = c # s"
    by (cases ls) (simp_all add: grep_display_def)
  with \<open>\<not> isspace c\<close> show ?thesis using strip_ws_start by auto
qed

text \<open>What the model sees of a search: the hits in readable files, with a notice when some were
  dropped.\<close>

definition visible_display :: "(pystr \<Rightarrow> bool) \<Rightarrow> (pystr \<times> pystr list) list \<Rightarrow> pystr" where
  "visible_display ok hits =
     (let vis = filter (\<lambda>h. ok (fst h)) hits
      in if vis = hits then grep_display hits
         else if vis = [] then EMPTY_AFTER_REDACTION
         else grep_display vis @ [10] @ REDACTION_NOTICE)"

lemma filter_id_iff: "filter P xs = xs \<longleftrightarrow> \<not> list_ex (\<lambda>x. \<not> P x) xs"
  by (metis (mono_tags, lifting) filter_id_conv list_ex_iff)

lemma filter_grep_display:
  assumes "list_all hit_ok hits" "hits \<noteq> []"
  shows "fst (filter_grep_content (grep_display hits) (u ''content'') bl) = visible_display (\<lambda>p. \<not> bl p) hits"
    and "snd (filter_grep_content (grep_display hits) (u ''content'') bl) = list_ex (\<lambda>h. bl (fst h)) hits"
proof -
  let ?vis = "filter (\<lambda>h. \<not> bl (fst h)) hits"
  have f: "filter_content_mode (grep_display hits) bl = (grep_display ?vis, list_ex (\<lambda>h. bl (fst h)) hits)"
    unfolding filter_content_mode_def grep_display_lines[OF assms] content_loop_hits[OF assms(1)]
    by (simp add: grep_display_def)
  have e: "strip_ws (grep_display ?vis) = [] \<longleftrightarrow> ?vis = []"
  proof
    assume "strip_ws (grep_display ?vis) = []"
    moreover have "list_all hit_ok ?vis" using assms(1) by (simp add: list_all_iff)
    ultimately show "?vis = []" using grep_display_visible by blast
  qed (simp only: grep_display_def strip_ws_def lstrip_with_def rstrip_with_def, simp)
  have "?vis = hits \<longleftrightarrow> \<not> list_ex (\<lambda>h. bl (fst h)) hits" using filter_id_iff[of "\<lambda>h. \<not> bl (fst h)" hits] by simp
  with f e show "fst (filter_grep_content (grep_display hits) (u ''content'') bl) = visible_display (\<lambda>p. \<not> bl p) hits"
    "snd (filter_grep_content (grep_display hits) (u ''content'') bl) = list_ex (\<lambda>h. bl (fst h)) hits"
    by (simp_all add: filter_grep_content_def visible_display_def Let_def)
qed

lemma readable_iff: "readable U H E path \<longleftrightarrow> \<not> read_content_blocked U H E path"
proof -
  have "\<exists>r. evaluate U H E (read_action path) = Inr r"
    using evaluate_Inl_iff[of U H E "read_action path"] by (cases "evaluate U H E (read_action path)") (auto simp: guard_for_def read_action_def)
  then show ?thesis unfolding readable_def read_blocked_iff by auto
qed

lemma all_strs_JStr [simp]: "all_strs (map JStr ps) = Some ps"
  by (induction ps) simp_all

section \<open>Properties\<close>


text \<open>
  A listing does not reveal that it was filtered: two listings with the same permitted paths look
  the same to the model, whatever denied paths they contain, so a pattern cannot be used to probe the
  names in the secret store. The only assumption on the parser of the listing is that it reads back
  these two lists.
\<close>

theorem glob_no_oracle:
  assumes "evl (glob_text U ps) = Some (JList (map JStr ps))" "evl (glob_text U qs) = Some (JList (map JStr qs))"
    and "filter (\<lambda>p. \<not> is_read_denied_path U H (rf_engine R) p) ps = filter (\<lambda>p. \<not> is_read_denied_path U H (rf_engine R) p) qs"
  shows "filter_glob U H evl R (m\<lparr>tm_content := CText (glob_text U ps)\<rparr>)
       = filter_glob U H evl R (m\<lparr>tm_content := CText (glob_text U qs)\<rparr>)
     \<and> filter_glob U H evl R (m\<lparr>tm_content := CText (glob_text U ps)\<rparr>)
       = m\<lparr>tm_content := CText (glob_text U (filter (\<lambda>p. \<not> is_read_denied_path U H (rf_engine R) p) ps))\<rparr>"
proof -
  let ?ok = "\<lambda>p. \<not> is_read_denied_path U H (rf_engine R) p"
  have "filter_glob U H evl R (m\<lparr>tm_content := CText (glob_text U xs)\<rparr>) = m\<lparr>tm_content := CText (glob_text U (filter ?ok xs))\<rparr>"
    if "evl (glob_text U xs) = Some (JList (map JStr xs))" for xs
  proof -
    have "glob_text U xs \<noteq> []" by (simp add: glob_text_def py_str_def)
    moreover have "length (filter ?ok xs) = length xs \<Longrightarrow> filter ?ok xs = xs"
      by (metis (no_types, lifting) filter_True length_filter_less less_irrefl)
    ultimately show ?thesis
      using that by (cases "length (filter ?ok xs) = length xs") (simp_all add: filter_glob_def parse_glob_paths_def Let_def)
  qed
  with assms show ?thesis by simp
qed

definition demo_filter :: ReadResultFilter where
  "demo_filter = \<lparr>rf_engine = project_engine MODE_ASK [] [], rf_multimodal = True, rf_unsupported = []\<rparr>"

definition search_call :: "string \<Rightarrow> ToolCall" where
  "search_call name = \<lparr>tc_name = Some (u name), tc_args = [(u ''output_mode'', JStr (u ''content''))], tc_id = None\<rparr>"

definition search_message :: "pystr \<Rightarrow> ToolMessage" where
  "search_message t = \<lparr>tm_content = CText t, tm_name = None, tm_call_id = None, tm_status = u ''success''\<rparr>"


theorem glob_no_oracle_witness:
  "let evl = (\<lambda>t. if t = glob_text ascii_uni [u ''a.py''] then Some (JList [JStr (u ''a.py'')])
       else Some (JList (map JStr [u ''a.py'', u ''/home/ann/.jarn/secrets/groq''])))
   in filter_glob ascii_uni user_host evl demo_filter (search_message (glob_text ascii_uni [u ''a.py'', u ''/home/ann/.jarn/secrets/groq'']))
     = filter_glob ascii_uni user_host evl demo_filter (search_message (glob_text ascii_uni [u ''a.py'']))"
proof -
  let ?qs = "[u ''a.py'', u ''/home/ann/.jarn/secrets/groq'']"
  let ?evl = "\<lambda>t. if t = glob_text ascii_uni [u ''a.py''] then Some (JList [JStr (u ''a.py'')]) else Some (JList (map JStr ?qs))"
  have n: "glob_text ascii_uni ?qs \<noteq> glob_text ascii_uni [u ''a.py'']" by code_simp
  have f: "filter (\<lambda>p. \<not> is_read_denied_path ascii_uni user_host (rf_engine demo_filter) p) ?qs
      = filter (\<lambda>p. \<not> is_read_denied_path ascii_uni user_host (rf_engine demo_filter) p) [u ''a.py'']" by code_simp
  have "?evl (glob_text ascii_uni ?qs) = Some (JList (map JStr ?qs))"
    "?evl (glob_text ascii_uni [u ''a.py'']) = Some (JList (map JStr [u ''a.py'']))" using n by simp_all
  from glob_no_oracle[where evl = ?evl, OF this f, of "search_message []"]
  show ?thesis by (simp add: Let_def search_message_def)
qed

end
