(* ===== verification/Redact.thy ===== *)
theory Redact
  imports Regex Json
begin

text \<open>
  Secret redaction: the registry of resolved secrets, \<^verbatim>\<open>redact_secrets\<close> and \<^verbatim>\<open>redact_structure\<close> of
  \<^verbatim>\<open>src/src/jarn/config/secrets.py\<close>, and the size-capped redaction of tool arguments of
  \<^verbatim>\<open>src/src/jarn/agent/tool_arg_redact.py\<close>. Substitution needs the match that Python's engine finds first, so
  the matcher here lists the ends of a match in the engine's order (greedy repetition first).
\<close>

section \<open>Substitution\<close>

fun star_greedy :: "(ctx \<Rightarrow> ctx list) \<Rightarrow> nat \<Rightarrow> ctx \<Rightarrow> ctx list" where
  "star_greedy f 0 c = [c]"
| "star_greedy f (Suc n) c =
     concat (map (star_greedy f n) (filter (\<lambda>d. length (snd d) < length (snd c)) (f c))) @ [c]"

primrec greedy_ends :: "pyuni \<Rightarrow> bool \<Rightarrow> regex \<Rightarrow> ctx \<Rightarrow> ctx list" where
  "greedy_ends U ci Eps = (\<lambda>c. [c])"
| "greedy_ends U ci (Cls neg its) = (\<lambda>c. case snd c of [] \<Rightarrow> []
      | x # xs \<Rightarrow> if cls_match U ci neg its x then [(Some x, xs)] else [])"
| "greedy_ends U ci (Cat r s) = (\<lambda>c. concat (map (greedy_ends U ci s) (greedy_ends U ci r c)))"
| "greedy_ends U ci (Alt r s) = (\<lambda>c. greedy_ends U ci r c @ greedy_ends U ci s c)"
| "greedy_ends U ci (Rep r) = (\<lambda>c. star_greedy (greedy_ends U ci r) (length (snd c)) c)"
| "greedy_ends U ci WordB = (\<lambda>c. if at_word_b U c then [c] else [])"
| "greedy_ends U ci Bos = (\<lambda>c. if fst c = None then [c] else [])"
| "greedy_ends U ci Eos = (\<lambda>c. if at_eos c then [c] else [])"
| "greedy_ends U ci (Ahead r) = (\<lambda>c. if greedy_ends U ci r c = [] then [] else [c])"

text \<open>The first match at a position: where its group 1 ends (where the match ends, if the pattern has no
  group) and where it ends.\<close>

type_synonym finder = "ctx \<Rightarrow> (ctx \<times> ctx) option"

definition first_of :: "'a list \<Rightarrow> 'a option" where
  "first_of xs = (case xs of [] \<Rightarrow> None | x # _ \<Rightarrow> Some x)"

definition plain_finder :: "pyuni \<Rightarrow> bool \<Rightarrow> regex \<Rightarrow> finder" where
  "plain_finder U ci r c = map_option (\<lambda>d. (d, d)) (first_of (greedy_ends U ci r c))"

text \<open>\<^verbatim>\<open>pattern.sub(repl, s)\<close> for patterns that match no empty string; \<open>rep\<close> gets group 1 and the match.\<close>

definition upto_end :: "pystr \<Rightarrow> ctx \<Rightarrow> pystr" where
  "upto_end s d = take (length s - length (snd d)) s"

function re_sub :: "finder \<Rightarrow> (pystr \<Rightarrow> pystr \<Rightarrow> pystr) \<Rightarrow> int option \<Rightarrow> pystr \<Rightarrow> pystr" where
  "re_sub m rep p [] = []"
| "re_sub m rep p (x # xs) =
     (case m (p, x # xs) of
        Some (g, d) \<Rightarrow>
          if length (snd d) \<le> length xs
          then rep (upto_end (x # xs) g) (upto_end (x # xs) d) @ re_sub m rep (fst d) (drop (length (x # xs) - length (snd d)) (x # xs))
          else x # re_sub m rep (Some x) xs
      | None \<Rightarrow> x # re_sub m rep (Some x) xs)"
  by pat_completeness auto
termination
  by (relation "measure (\<lambda>(m, rep, p, s). length s)") auto

text \<open>\<^verbatim>\<open>s.replace(old, new)\<close> for a non-empty \<^verbatim>\<open>old\<close>.\<close>

function py_replace :: "pystr \<Rightarrow> pystr \<Rightarrow> pystr \<Rightarrow> pystr" where
  "py_replace old new [] = []"
| "py_replace old new (x # xs) =
     (if old \<noteq> [] \<and> startswith (x # xs) old then new @ py_replace old new (drop (length old) (x # xs))
      else x # py_replace old new xs)"
  by pat_completeness auto
termination
  by (relation "measure (\<lambda>(old, new, s). length s)") auto

section \<open>The registry of resolved secrets\<close>

definition MAX_RESOLVED_SECRETS :: nat where "MAX_RESOLVED_SECRETS = 512"

text \<open>The keys of the registry, oldest first.\<close>

type_synonym registry = "pystr list"

definition remember_resolved_secret :: "pystr option \<Rightarrow> registry \<Rightarrow> registry" where
  "remember_resolved_secret v R = (case v of None \<Rightarrow> R
     | Some s \<Rightarrow> if s = [] then R
         else (let R1 = filter (\<lambda>x. x \<noteq> s) R @ [s] in drop (length R1 - MAX_RESOLVED_SECRETS) R1))"

section \<open>Patterns\<close>

definition REDACTED :: pystr where "REDACTED = u ''[REDACTED]''"

definition rep_n :: "nat \<Rightarrow> regex \<Rightarrow> regex" where
  "rep_n n r = cats (replicate n r)"

definition at_least :: "nat \<Rightarrow> regex \<Rightarrow> regex" where
  "at_least n r = Cat (rep_n n r) (Rep r)"

definition Alnum :: "citem list" where "Alnum = [CR 65 90, CR 97 122, CR 48 57]"

definition SK_KEY :: regex where
  "SK_KEY = cats [WordB, lit ''sk-'', at_least 16 (Cls False (Alnum @ [CC 95, CC 45])), WordB]"

definition BEARER :: regex where
  "BEARER = cats [WordB, lit ''Bearer'', plus1 Sp, plus1 (Cls False (Alnum @ [CC 46, CC 95, CC 45]))]"

definition BASE64_BLOB :: regex where
  "BASE64_BLOB = Cat (at_least 40 (Cls False (Alnum @ [CC 43, CC 47]))) (opt (Cat (lit ''='') (opt (lit ''=''))))"

definition VENDOR_KEYS :: regex where
  "VENDOR_KEYS = alts
     [cats [WordB, alts (map lit [''ghp'', ''gho'', ''ghs'', ''ghr'', ''ghu'']), lit ''_'', at_least 20 (Cls False Alnum), WordB],
      cats [WordB, lit ''xox'', oneof ''baprs'', lit ''-'', at_least 10 (Cls False (Alnum @ [CC 45])), WordB],
      cats [WordB, lit ''AKIA'', rep_n 16 (Cls False [CR 48 57, CR 65 90]), WordB],
      cats [WordB, lit ''AIza'', at_least 20 (Cls False (Alnum @ [CC 95, CC 45])), WordB],
      cats [WordB, lit ''glpat-'', at_least 16 (Cls False (Alnum @ [CC 95, CC 45])), WordB]]"

definition UpperU :: regex where "UpperU = Cls False [CR 65 90, CR 48 57, CC 95]"

definition NAME_GROUP :: regex where
  "NAME_GROUP = cats [WordB, Rep UpperU, alts (map lit [''API_KEY'', ''TOKEN'', ''SECRET'', ''PASSWORD'', ''PASSWD'', ''ACCESS_KEY'']), Rep UpperU]"

definition NAME_REST :: regex where
  "NAME_REST = cats [Rep Sp, oneof ''=:'', Rep Sp, plus1 (Cls True [CSp])]"

definition PEM_BEGIN :: regex where
  "PEM_BEGIN = cats [lit ''-----BEGIN '', Rep (Cls False [CR 65 90, CC 32]), lit ''PRIVATE KEY-----'']"

definition PEM_END :: regex where
  "PEM_END = cats [lit ''-----END '', Rep (Cls False [CR 65 90, CC 32]), lit ''PRIVATE KEY-----'']"

text \<open>\<^verbatim>\<open>.*?\<close> with \<^verbatim>\<open>re.DOTALL\<close> tries the shortest text first (\<open>starts\<close>).\<close>

definition pem_finder :: "pyuni \<Rightarrow> finder" where
  "pem_finder U c = map_option (\<lambda>d. (d, d)) (first_of
     (concat (map (\<lambda>b. concat (map (greedy_ends U False PEM_END) (starts (fst b) (snd b)))) (greedy_ends U False PEM_BEGIN c))))"

definition name_finder :: "pyuni \<Rightarrow> finder" where
  "name_finder U c = first_of (concat (map (\<lambda>g. map (Pair g) (greedy_ends U False NAME_REST g)) (greedy_ends U False NAME_GROUP c)))"

section \<open>Redaction of text\<close>

definition sk_replacement :: "pystr \<Rightarrow> pystr" where
  "sk_replacement token = (if length token \<ge> 4 then u ''sk-'' @ [8230] @ drop (length token - 4) token else REDACTED)"

definition bearer_replacement :: "pystr \<Rightarrow> pystr" where
  "bearer_replacement w = hd (split_ws w) @ u '' '' @ REDACTED"

definition base64_replacement :: "pystr \<Rightarrow> pystr" where
  "base64_replacement w = (if length (remdups (rstrip_with (\<lambda>c. c = 61) w)) < 2 then w else REDACTED)"

definition name_value_replacement :: "pystr \<Rightarrow> pystr" where
  "name_value_replacement g = g @ u ''='' @ REDACTED"

text \<open>The known secrets are a set; \<open>known\<close> lists it in the order Python iterates over it.\<close>

definition scrub_known :: "pystr list \<Rightarrow> pystr \<Rightarrow> pystr" where
  "scrub_known known t = fold (\<lambda>s x. if s \<noteq> [] then py_replace s REDACTED x else x) (sort_key (\<lambda>s. - int (length s)) known) t"

definition redact_secrets :: "pyuni \<Rightarrow> pystr list \<Rightarrow> pystr \<Rightarrow> pystr" where
  "redact_secrets U known value =
     (if value = [] then value
      else (let t0 = scrub_known known value;
                t1 = re_sub (pem_finder U) (\<lambda>g w. REDACTED) None t0;
                t2 = re_sub (plain_finder U True BEARER) (\<lambda>g w. bearer_replacement w) None t1;
                t3 = re_sub (plain_finder U False SK_KEY) (\<lambda>g w. sk_replacement w) None t2;
                t4 = re_sub (plain_finder U False VENDOR_KEYS) (\<lambda>g w. REDACTED) None t3;
                t5 = re_sub (plain_finder U False BASE64_BLOB) (\<lambda>g w. base64_replacement w) None t4
            in re_sub (name_finder U) (\<lambda>g w. name_value_replacement g) None t5))"

section \<open>Redaction of structures\<close>

definition SENSITIVE_FIELD :: regex where
  "SENSITIVE_FIELD = cats [Alt Bos (lit ''_''),
     alts [cats [lit ''api'', opt (lit ''_''), lit ''key''], cats [lit ''access'', opt (lit ''_''), lit ''key''], lit ''auth'',
           lit ''authorization'', lit ''credential'', lit ''password'', lit ''passwd'',
           cats [lit ''refresh'', opt (lit ''_''), lit ''token''], lit ''secret'', lit ''token''],
     Alt Eos (lit ''_'')]"

definition is_sensitive_field_name :: "pyuni \<Rightarrow> pystr \<Rightarrow> bool" where
  "is_sensitive_field_name U k = re_search U True SENSITIVE_FIELD k"

definition TOO_DEEP :: pystr where "TOO_DEEP = u ''[OMITTED: structure too deep]''"

fun redact_structure :: "pyuni \<Rightarrow> pystr list \<Rightarrow> nat \<Rightarrow> json \<Rightarrow> json" where
  "redact_structure U known d (JStr s) = (if d = 0 then JStr TOO_DEEP else JStr (redact_secrets U known s))"
| "redact_structure U known d (JObj kvs) = (if d = 0 then JStr TOO_DEEP
     else JObj (map (\<lambda>(k, v). (k, if is_sensitive_field_name U k then JStr REDACTED else redact_structure U known (d - 1) v)) kvs))"
| "redact_structure U known d (JList xs) = (if d = 0 then JStr TOO_DEEP else JList (map (redact_structure U known (d - 1)) xs))"
| "redact_structure U known d v = (if d = 0 then JStr TOO_DEEP else v)"

section \<open>Redaction of tool arguments\<close>

definition MAX_ARG_CHARS :: int where "MAX_ARG_CHARS = 2000"
definition MAX_ARG_DEPTH :: nat where "MAX_ARG_DEPTH = 6"
definition MAX_ARG_ITEMS :: nat where "MAX_ARG_ITEMS = 100"
definition MAX_ARG_TOTAL_CHARS :: int where "MAX_ARG_TOTAL_CHARS = 20000"

definition cap_str :: "pyuni \<Rightarrow> pystr list \<Rightarrow> pystr \<Rightarrow> int \<Rightarrow> (json \<times> bool) \<times> int" where
  "cap_str U known s b =
     (let redacted = redact_secrets U known s; allowance = min MAX_ARG_CHARS (max 0 b)
      in if int (length redacted) > allowance then ((JStr (take (nat allowance) redacted), True), b - allowance)
         else ((JStr redacted, False), b - int (length redacted)))"

text \<open>The argument \<open>b\<close> and the last result are the shared budget; the loops count the items.\<close>

fun cap_arg :: "pyuni \<Rightarrow> pystr list \<Rightarrow> nat \<Rightarrow> json \<Rightarrow> int \<Rightarrow> (json \<times> bool) \<times> int"
  and cap_items :: "pyuni \<Rightarrow> pystr list \<Rightarrow> nat \<Rightarrow> nat \<Rightarrow> json list \<Rightarrow> int \<Rightarrow> (json list \<times> bool) \<times> int"
  and cap_members :: "pyuni \<Rightarrow> pystr list \<Rightarrow> nat \<Rightarrow> nat \<Rightarrow> (pystr \<times> json) list \<Rightarrow> int \<Rightarrow> ((pystr \<times> json) list \<times> bool) \<times> int" where
  "cap_arg U known depth (JStr s) b = cap_str U known s b"
| "cap_arg U known depth (JObj kvs) b =
     (if depth \<ge> MAX_ARG_DEPTH then ((JStr (u ''<dict omitted: deeper than 6 levels>''), True), b)
      else (case cap_members U known depth 0 kvs b of ((out, tr), b') \<Rightarrow> ((JObj out, tr), b')))"
| "cap_arg U known depth (JList xs) b =
     (if depth \<ge> MAX_ARG_DEPTH then ((JStr (u ''<list omitted: deeper than 6 levels>''), True), b)
      else (case cap_items U known depth 0 xs b of ((out, tr), b') \<Rightarrow> ((JList out, tr), b')))"
| "cap_arg U known depth v b = ((v, False), b)"
| "cap_items U known depth n [] b = (([], False), b)"
| "cap_items U known depth n (x # xs) b =
     (if n \<ge> MAX_ARG_ITEMS \<or> b \<le> 0 then (([], True), b)
      else (case cap_arg U known (Suc depth) x b of ((y, t1), b1) \<Rightarrow>
             (case cap_items U known depth (Suc n) xs b1 of ((ys, t2), b2) \<Rightarrow> ((y # ys, t1 \<or> t2), b2))))"
| "cap_members U known depth n [] b = (([], False), b)"
| "cap_members U known depth n ((k, x) # kvs) b =
     (if n \<ge> MAX_ARG_ITEMS \<or> b \<le> 0 then (([], True), b)
      else (case cap_arg U known (Suc depth) x b of ((y, t1), b1) \<Rightarrow>
             (case cap_members U known depth (Suc n) kvs b1 of ((ys, t2), b2) \<Rightarrow> (((k, y) # ys, t1 \<or> t2), b2))))"

fun sanitize_loop :: "pyuni \<Rightarrow> pystr list \<Rightarrow> (pystr \<times> json) list \<Rightarrow> int \<Rightarrow> (pystr, json) pydict \<Rightarrow> (pystr, json) pydict" where
  "sanitize_loop U known [] b capped = capped"
| "sanitize_loop U known ((k, v) # kvs) b capped =
     (case cap_arg U known 0 v b of ((y, tr), b') \<Rightarrow>
        (let c1 = dput k y capped in sanitize_loop U known kvs b' (if tr then dput (k @ u ''__truncated'') (JBool True) c1 else c1)))"

definition sanitize_tool_args :: "pyuni \<Rightarrow> pystr list \<Rightarrow> (pystr, json) pydict \<Rightarrow> (pystr, json) pydict" where
  "sanitize_tool_args U known args = sanitize_loop U known args MAX_ARG_TOTAL_CHARS []"

section \<open>The matcher in order\<close>

lemma star_greedy_set: "(\<And>c. set (f c) = set (h c)) \<Longrightarrow> set (star_greedy f n c) = set (star_ends h n c)"
  by (induction n arbitrary: c) auto

text \<open>The order aside, it finds the same matches.\<close>

lemma greedy_ends_set: "set (greedy_ends U ci r c) = set (ends U ci r c)"
proof (induction r arbitrary: c)
  case (Rep r)
  then show ?case using star_greedy_set[of "greedy_ends U ci r" "ends U ci r"] by simp
next
  case (Ahead r)
  from Ahead[of c] have "(greedy_ends U ci r c = []) = (ends U ci r c = [])" by (metis set_empty)
  then show ?case by simp
qed (auto split: list.split)

lemma greedy_rm: "d \<in> set (greedy_ends U ci r c) \<longleftrightarrow> rm U ci r c d"
  by (simp add: greedy_ends_set ends_iff_rm)

lemma first_of_in: "first_of xs = Some x \<Longrightarrow> x \<in> set xs"
  by (cases xs) (auto simp: first_of_def)

section \<open>Substitution hides what it replaces\<close>

text \<open>An occurrence of a secret cannot reach across a piece of text that begins and ends with
  characters the secret does not have.\<close>

definition wall :: "pystr \<Rightarrow> pystr \<Rightarrow> bool" where
  "wall s mid \<longleftrightarrow> mid \<noteq> [] \<and> hd mid \<notin> set s \<and> last mid \<notin> set s \<and> \<not> contains mid s"

lemma contains_append_parts:
  assumes "contains (X @ c # Y) s" "c \<notin> set s"
  shows "contains X s \<or> contains Y s"
proof -
  from assms(1) obtain a b where ab: "X @ c # Y = a @ s @ b" by (auto simp: contains_iff)
  then consider us where "a @ s = X @ us" "us @ b = c # Y" | us where "a @ s @ us = X" "b = us @ c # Y"
    using append_eq_append_conv2[of X "c # Y" "a @ s" b] by force
  then show ?thesis
  proof cases
    case 1
    show ?thesis
    proof (cases "length a \<le> length X")
      case True
      with 1(1) obtain vs where v: "X = a @ vs" "s = vs @ us" by (auto simp: append_eq_append_conv2 dest: arg_cong[where f = length])
      then have "us = []" using 1(2) assms(2) by (cases us) auto
      then show ?thesis using v contains_iff[of X s] by (metis append.right_neutral)
    next
      case False
      with 1(1) obtain vs where v: "a = X @ vs" "vs @ s = us" "vs \<noteq> []" by (auto simp: append_eq_append_conv2 dest: arg_cong[where f = length])
      with 1(2) obtain vs' where "vs = c # vs'" "vs' @ s @ b = Y" by (cases vs) auto
      then show ?thesis by (auto simp: contains_iff)
    qed
  next
    case 2
    then show ?thesis by (auto simp: contains_iff)
  qed
qed

lemma wall_splits:
  assumes "wall s mid" "\<not> contains X s" "\<not> contains Y s"
  shows "\<not> contains (X @ mid @ Y) s"
proof
  assume c: "contains (X @ mid @ Y) s"
  obtain h t where m: "mid = h # t" "h \<notin> set s" using assms(1) by (cases mid) (auto simp: wall_def)
  with contains_append_parts[of X h "t @ Y" s] c assms(2) have ct: "contains (t @ Y) s" by simp
  show False
  proof (cases t rule: rev_exhaust)
    case Nil
    with ct assms(3) show False by simp
  next
    case (snoc t' l)
    with assms(1) m have "l \<notin> set s" by (simp add: wall_def)
    with contains_append_parts[of t' l Y s] ct snoc assms(3) have "contains t' s" by simp
    then have "contains mid s" unfolding m snoc contains_iff by (metis append_Cons append.assoc)
    with assms(1) show False by (simp add: wall_def)
  qed
qed

text \<open>What a replacement may do to a match \<open>w\<close>: keep it, or keep a beginning and an end of it around a
  wall.\<close>

definition masks :: "pystr \<Rightarrow> pystr \<Rightarrow> pystr \<Rightarrow> bool" where
  "masks s w r \<longleftrightarrow> r = w \<or> (\<exists>p mid q w1 w2. r = p @ mid @ q \<and> w = p @ w1 \<and> w = w2 @ q \<and> wall s mid)"

lemma masks_wall: "wall s r \<Longrightarrow> masks s w r"
  unfolding masks_def by (rule disjI2) (intro exI[of _ "[]"] exI[of _ r] exI[of _ "[]"] exI[of _ w], simp)

lemma not_contains_part: "\<not> contains (X @ Y @ Z) s \<Longrightarrow> \<not> contains Y s"
  by (auto simp: contains_iff) (metis append.assoc)

lemma masks_step:
  assumes "masks s w r" "\<not> contains (X @ w @ rest) s" "\<And>X'. \<not> contains (X' @ rest) s \<Longrightarrow> \<not> contains (X' @ out) s"
  shows "\<not> contains (X @ r @ out) s"
proof (cases "r = w")
  case True
  then show ?thesis using assms(2) assms(3)[of "X @ w"] by simp
next
  case False
  with assms(1) obtain p mid q w1 w2 where m: "r = p @ mid @ q" "w = p @ w1" "w = w2 @ q" "wall s mid"
    unfolding masks_def by blast
  have "\<not> contains (X @ p) s" using assms(2) m(2) not_contains_part[of "[]" "X @ p" "w1 @ rest" s] by simp
  moreover have "\<not> contains (q @ rest) s" using assms(2) m(3) not_contains_part[of "X @ w2" "q @ rest" "[]" s] by simp
  ultimately show ?thesis
    using wall_splits[OF m(4), of "X @ p" "q @ out"] assms(3)[of q] m(1) by simp
qed

lemma re_sub_hides:
  assumes "\<And>p t g d. t \<noteq> [] \<Longrightarrow> m (p, t) = Some (g, d) \<Longrightarrow> length (snd d) < length t \<Longrightarrow> masks s (upto_end t d) (rep (upto_end t g) (upto_end t d))"
  shows "\<not> contains (X @ t) s \<Longrightarrow> \<not> contains (X @ re_sub m rep p t) s"
proof (induction "length t" arbitrary: X p t rule: less_induct)
  case less
  show ?case
  proof (cases t)
    case Nil
    then show ?thesis using less.prems by simp
  next
    case (Cons x xs)
    consider (hit) g d where "m (p, t) = Some (g, d)" "length (snd d) \<le> length xs"
      | (skip) "re_sub m rep p t = x # re_sub m rep (Some x) xs"
    proof (cases "\<exists>g d. m (p, t) = Some (g, d) \<and> length (snd d) \<le> length xs")
      case False
      then have "re_sub m rep p t = x # re_sub m rep (Some x) xs" unfolding Cons by (auto split: option.split prod.split)
      then show thesis by (rule that(2))
    qed (use that(1) in blast)
    then show ?thesis
    proof cases
      case hit
      let ?rest = "drop (length t - length (snd d)) t"
      have t: "t = upto_end t d @ ?rest" by (simp add: upto_end_def)
      have "\<not> contains (X' @ re_sub m rep (fst d) ?rest) s" if "\<not> contains (X' @ ?rest) s" for X'
        using less.hyps[of ?rest X' "fst d"] that hit(2) Cons by simp
      moreover have "masks s (upto_end t d) (rep (upto_end t g) (upto_end t d))"
        using assms[of t p g d] hit Cons by simp
      ultimately have "\<not> contains (X @ rep (upto_end t g) (upto_end t d) @ re_sub m rep (fst d) ?rest) s"
        using masks_step[of s "upto_end t d" "rep (upto_end t g) (upto_end t d)" X ?rest] less.prems t by metis
      then show ?thesis using hit Cons by simp
    next
      case skip
      then show ?thesis using less.hyps[of xs "X @ [x]" "Some x"] less.prems Cons by simp
    qed
  qed
qed

lemma py_replace_hides:
  assumes "wall s new" "\<not> contains (X @ t) s"
  shows "\<not> contains (X @ py_replace old new t) s"
  using assms
proof (induction old new t arbitrary: X rule: py_replace.induct)
  case (2 old new x xs)
  show ?case
  proof (cases "old \<noteq> [] \<and> startswith (x # xs) old")
    case True
    let ?rest = "drop (length old) (x # xs)"
    from True obtain b where b: "x # xs = old @ b" by (auto simp: startswith_iff)
    have "masks s old new" using "2.prems"(1) by (rule masks_wall)
    moreover have "\<not> contains (X @ old @ ?rest) s" using "2.prems"(2) b by simp
    ultimately have "\<not> contains (X @ new @ py_replace old new ?rest) s"
      using "2.IH"(1)[OF True "2.prems"(1)] by (rule masks_step)
    then show ?thesis using True by simp
  next
    case False
    then show ?thesis using "2.IH"(2)[OF False "2.prems"(1), of "X @ [x]"] "2.prems"(2) by auto
  qed
qed simp

lemma py_replace_prefix:
  assumes "new \<noteq> []" "hd new \<notin> set r" "startswith (py_replace old new t) r"
  shows "startswith t r"
  using assms
proof (induction r arbitrary: t)
  case (Cons y r)
  show ?case
  proof (cases t)
    case (Cons x xs)
    show ?thesis
    proof (cases "old \<noteq> [] \<and> startswith (x # xs) old")
      case True
      then show ?thesis using Cons.prems \<open>t = x # xs\<close> by (cases new) auto
    next
      case False
      then have "py_replace old new t = x # py_replace old new xs" using \<open>t = x # xs\<close> by auto
      then show ?thesis using Cons.IH[of xs] Cons.prems \<open>t = x # xs\<close> by auto
    qed
  qed (use Cons.prems in simp)
qed (cases t; simp)

lemma py_replace_removes:
  assumes "wall s new" "s \<noteq> []"
  shows "\<not> contains (py_replace s new t) s"
  using assms
proof (induction s new t rule: py_replace.induct)
  case (2 s new x xs)
  show ?case
  proof (cases "startswith (x # xs) s")
    case True
    have "\<not> contains ([] @ new @ py_replace s new (drop (length s) (x # xs))) s"
      using "2.prems" "2.IH"(1) True by (intro wall_splits) auto
    then show ?thesis using True "2.prems"(2) by simp
  next
    case False
    then have "\<not> startswith (py_replace s new (x # xs)) s"
      using py_replace_prefix[of new s s "x # xs"] "2.prems"(1) by (auto simp: wall_def)
    then show ?thesis using "2.IH"(2) "2.prems" False by auto
  qed
qed simp

section \<open>Each replacement\<close>

text \<open>A secret that the placeholders themselves cannot spell.\<close>

definition opaque :: "pystr \<Rightarrow> bool" where
  "opaque s \<longleftrightarrow> s \<noteq> [] \<and> list_all (\<lambda>c. c \<notin> {91, 93, 61, 8230} \<and> \<not> isspace c) s \<and> \<not> contains (u ''REDACTED'') s"

lemma opaque_chars: "opaque s \<Longrightarrow> 91 \<notin> set s \<and> 93 \<notin> set s \<and> 61 \<notin> set s \<and> 8230 \<notin> set s \<and> 32 \<notin> set s \<and> s \<noteq> []"
proof -
  assume o: "opaque s"
  have "isspace 32" by (simp add: isspace_def)
  with o show ?thesis unfolding opaque_def list_all_iff by blast
qed

lemma wall_REDACTED:
  assumes "opaque s"
  shows "wall s REDACTED"
proof -
  have eq: "REDACTED = [] @ 91 # (u ''REDACTED'' @ 93 # [])" by code_simp
  have "\<not> contains REDACTED s"
  proof
    assume "contains REDACTED s"
    then have "contains ([] @ 91 # (u ''REDACTED'' @ 93 # [])) s" unfolding eq .
    from contains_append_parts[OF this] have "contains (u ''REDACTED'' @ 93 # []) s" using opaque_chars[OF assms] by simp
    from contains_append_parts[OF this] have "contains (u ''REDACTED'') s" using opaque_chars[OF assms] by simp
    then show False using assms by (simp add: opaque_def)
  qed
  then show ?thesis using opaque_chars[OF assms] by (simp add: wall_def) (simp add: eq)
qed

lemma wall_Cons: "wall s m \<Longrightarrow> c \<notin> set s \<Longrightarrow> s \<noteq> [] \<Longrightarrow> wall s (c # m)"
  using contains_append_parts[of "[]" c m s] by (auto simp: wall_def)

lemma wall_single: "c \<notin> set s \<Longrightarrow> s \<noteq> [] \<Longrightarrow> wall s [c]"
  by (cases s) (auto simp: wall_def)

lemma rm_lit_inv: "rm U False (lit w) c d \<Longrightarrow> snd c = u w @ snd d"
proof (induction w arbitrary: c d rule: lit.induct)
  case (3 x y w)
  then obtain e where "rm U False (Cls False [CC (of_char x)]) c e" "rm U False (lit (y # w)) e d" by (auto simp: rm_Cat_iff)
  with "3.IH"[of e d] show ?case by (auto simp: rm_Cls_iff cls_match_def u_Cons)
qed (auto simp: rm_Eps_iff rm_Cls_iff cls_match_def u_def)

lemma plain_finder_rm: "plain_finder U ci r c = Some (g, d) \<Longrightarrow> rm U ci r c d \<and> g = d"
  by (auto simp: plain_finder_def greedy_rm dest!: first_of_in)

lemma upto_end_prefix: "snd c = m @ snd d \<Longrightarrow> t = snd c \<Longrightarrow> upto_end t d = m"
  by (simp add: upto_end_def)

lemma rm_upto_end: "rm U ci r (p, t) d \<Longrightarrow> t = upto_end t d @ snd d"
  by (drule rm_consumes) (auto simp: upto_end_def)

lemma sk_masks:
  assumes "opaque s" "plain_finder U False SK_KEY (p, t) = Some (g, d)"
  shows "masks s (upto_end t d) (sk_replacement (upto_end t d))"
proof (cases "length (upto_end t d) \<ge> 4")
  case False
  then show ?thesis using masks_wall[OF wall_REDACTED[OF assms(1)]] by (simp add: sk_replacement_def)
next
  case True
  from plain_finder_rm[OF assms(2)] have r: "rm U False SK_KEY (p, t) d" by simp
  then obtain e where e: "rm U False (lit ''sk-'') (p, t) e" "rm U False (cats [at_least 16 (Cls False (Alnum @ [CC 95, CC 45])), WordB]) e d"
    by (auto simp: SK_KEY_def rm_Cat_iff rm_WordB_iff simp del: lit.simps)
  from rm_lit_inv[OF e(1)] rm_consumes[OF e(2)] obtain m where "t = u ''sk-'' @ m @ snd d" by auto
  then have w: "upto_end t d = u ''sk-'' @ m" by (simp add: upto_end_def)
  let ?w = "upto_end t d"
  have "?w = take (length ?w - 4) ?w @ drop (length ?w - 4) ?w" by simp
  moreover have "wall s [8230]" using opaque_chars[OF assms(1)] by (intro wall_single) auto
  moreover have "sk_replacement ?w = u ''sk-'' @ [8230] @ drop (length ?w - 4) ?w" using True by (simp add: sk_replacement_def)
  ultimately show ?thesis unfolding masks_def using w by blast
qed

lemma split_ws_aux_hd: "acc \<noteq> [] \<Longrightarrow> \<exists>q. rev acc @ w = hd (split_ws_aux acc w) @ q"
proof (induction w arbitrary: acc)
  case (Cons c w)
  show ?case
  proof (cases "isspace c")
    case False
    then show ?thesis using Cons.IH[of "c # acc"] by simp
  qed (use Cons.prems in auto)
qed simp

lemma split_ws_hd: "\<not> isspace x \<Longrightarrow> \<exists>q. x # w = hd (split_ws (x # w)) @ q"
  using split_ws_aux_hd[of "[x]" w] by (simp add: split_ws_def)

lemma bearer_masks:
  assumes "opaque s" "plain_finder U True BEARER (p, t) = Some (g, d)" "length (snd d) < length t"
  shows "masks s (upto_end t d) (bearer_replacement (upto_end t d))"
proof -
  from plain_finder_rm[OF assms(2)] have r: "rm U True BEARER (p, t) d" by simp
  then obtain e where "rm U True (Cls False [CC 66]) (p, t) e"
    by (auto simp: BEARER_def rm_Cat_iff rm_WordB_iff)
  then obtain x xs where x: "t = x # xs" "cls_match U True False [CC 66] x" by (auto simp: rm_Cls_iff)
  then have "66 \<in> set (ci_alts x)" by (simp add: cls_match_def)
  then have "x = 66 \<or> x = 98" by (auto simp: ci_alts_def split: if_splits)
  then have "\<not> isspace x" by (auto simp: isspace_def)
  moreover obtain w where w: "upto_end t d = x # w" using assms(3) x by (cases "length t - length (snd d)") (auto simp: upto_end_def)
  ultimately obtain q where q: "upto_end t d = hd (split_ws (upto_end t d)) @ q" using split_ws_hd by metis
  have "u '' '' @ REDACTED = 32 # REDACTED" by code_simp
  then have wl: "wall s (u '' '' @ REDACTED)" using wall_Cons[OF wall_REDACTED[OF assms(1)]] opaque_chars[OF assms(1)] by simp
  have "masks s w' (p' @ mid)" if "w' = p' @ q'" "wall s mid" for w' p' mid q'
    unfolding masks_def using that by (intro disjI2 exI[of _ p'] exI[of _ mid] exI[of _ "[]"] exI[of _ q'] exI[of _ w']) simp
  from this[OF q wl] show ?thesis by (simp add: bearer_replacement_def)
qed

lemma name_masks:
  assumes "opaque s" "name_finder U (p, t) = Some (g, d)"
  shows "masks s (upto_end t d) (name_value_replacement (upto_end t g))"
proof -
  from first_of_in[OF assms(2)[unfolded name_finder_def]] have "rm U False NAME_GROUP (p, t) g" "rm U False NAME_REST g d"
    by (auto simp: greedy_rm)
  with rm_consumes rm_upto_end obtain m where m: "t = upto_end t g @ snd g" "snd g = m @ snd d" by blast
  then have "t = (upto_end t g @ m) @ snd d" by simp
  then have w: "upto_end t d = upto_end t g @ m" by (metis append_eq_conv_conj diff_add_inverse2 length_append upto_end_def)
  have "u ''='' @ REDACTED = 61 # REDACTED" by code_simp
  then have wl: "wall s (u ''='' @ REDACTED)" using wall_Cons[OF wall_REDACTED[OF assms(1)]] opaque_chars[OF assms(1)] by simp
  show ?thesis unfolding masks_def name_value_replacement_def using w wl
    by (intro disjI2 exI[of _ "upto_end t g"] exI[of _ "u ''='' @ REDACTED"] exI[of _ "[]"] exI[of _ m] exI[of _ "upto_end t d"]) simp
qed

section \<open>Known secrets\<close>

lemma scrub_known_hides:
  assumes "opaque s" "\<not> contains t s"
  shows "\<not> contains (fold (\<lambda>s x. if s \<noteq> [] then py_replace s REDACTED x else x) known t) s"
  using assms(2)
proof (induction known arbitrary: t)
  case (Cons k known)
  then show ?case using py_replace_hides[OF wall_REDACTED[OF assms(1)], of "[]" t k] by simp
qed simp

lemma scrub_known_removes:
  assumes "opaque s" "s \<in> set known"
  shows "\<not> contains (fold (\<lambda>s x. if s \<noteq> [] then py_replace s REDACTED x else x) known t) s"
  using assms(2)
proof (induction known arbitrary: t)
  case (Cons k known)
  show ?case
  proof (cases "k = s")
    case True
    then show ?thesis
      using scrub_known_hides[OF assms(1), of "py_replace s REDACTED t" known] py_replace_removes[OF wall_REDACTED[OF assms(1)], of t]
        opaque_chars[OF assms(1)] by simp
  qed (use Cons in auto)
qed simp

lemma redact_secrets_hides:
  assumes "opaque s" "s \<in> set known"
  shows "\<not> contains (redact_secrets U known value) s"
proof (cases "value = []")
  case True
  then show ?thesis using opaque_chars[OF assms(1)] by (simp add: redact_secrets_def)
next
  case False
  have step: "\<not> contains (re_sub m rep None t) s"
    if "\<not> contains t s" "\<And>p t g d. m (p, t) = Some (g, d) \<Longrightarrow> length (snd d) < length t \<Longrightarrow> masks s (upto_end t d) (rep (upto_end t g) (upto_end t d))" for m rep t
    using re_sub_hides[of m s rep "[]" t None] that by simp
  have red: "masks s w REDACTED" for w by (rule masks_wall[OF wall_REDACTED[OF assms(1)]])
  have b64: "masks s w (base64_replacement w)" for w by (simp add: base64_replacement_def red) (simp add: masks_def)
  have t0: "\<not> contains (scrub_known known value) s"
    unfolding scrub_known_def by (rule scrub_known_removes[OF assms(1)]) (simp add: assms(2))
  define t1 where "t1 = re_sub (pem_finder U) (\<lambda>g w. REDACTED) None (scrub_known known value)"
  define t2 where "t2 = re_sub (plain_finder U True BEARER) (\<lambda>g w. bearer_replacement w) None t1"
  define t3 where "t3 = re_sub (plain_finder U False SK_KEY) (\<lambda>g w. sk_replacement w) None t2"
  define t4 where "t4 = re_sub (plain_finder U False VENDOR_KEYS) (\<lambda>g w. REDACTED) None t3"
  define t5 where "t5 = re_sub (plain_finder U False BASE64_BLOB) (\<lambda>g w. base64_replacement w) None t4"
  have "\<not> contains t1 s" unfolding t1_def by (rule step[OF t0 red])
  then have "\<not> contains t2 s" unfolding t2_def by (rule step) (rule bearer_masks[OF assms(1)])
  then have "\<not> contains t3 s" unfolding t3_def by (rule step) (rule sk_masks[OF assms(1)])
  then have "\<not> contains t4 s" unfolding t4_def by (rule step) (rule red)
  then have "\<not> contains t5 s" unfolding t5_def by (rule step) (rule b64)
  then have "\<not> contains (re_sub (name_finder U) (\<lambda>g w. name_value_replacement g) None t5) s"
    by (rule step) (rule name_masks[OF assms(1)])
  then show ?thesis using False by (simp add: redact_secrets_def Let_def t1_def t2_def t3_def t4_def t5_def)
qed

lemma remember_keeps:
  assumes "R = a @ s # b" "length b + 2 \<le> MAX_RESOLVED_SECRETS"
  shows "\<exists>a' b'. remember_resolved_secret v R = a' @ s # b' \<and> length b' \<le> Suc (length b)"
proof (cases "v = None \<or> v = Some []")
  case True
  then have "remember_resolved_secret v R = a @ s # b" using assms(1) by (auto simp: remember_resolved_secret_def)
  then show ?thesis by (intro exI[of _ a] exI[of _ b]) simp
next
  case False
  then obtain x where x: "v = Some x" "x \<noteq> []" by auto
  define R1 where "R1 = filter (\<lambda>y. y \<noteq> x) R @ [x]"
  have rem: "remember_resolved_secret v R = drop (length R1 - MAX_RESOLVED_SECRETS) R1"
    using x by (simp add: remember_resolved_secret_def R1_def Let_def)
  have cut: "\<exists>a'. drop (length R1 - MAX_RESOLVED_SECRETS) R1 = a' @ s # c" if "R1 = a1 @ s # c" "length c < MAX_RESOLVED_SECRETS" for a1 c
    using that by (intro exI[of _ "drop (length R1 - MAX_RESOLVED_SECRETS) a1"]) simp
  show ?thesis
  proof (cases "x = s")
    case True
    with cut[of "filter (\<lambda>y. y \<noteq> x) R" "[]"] assms(2) rem show ?thesis by (fastforce simp: R1_def)
  next
    case False
    let ?c = "filter (\<lambda>y. y \<noteq> x) b @ [x]"
    have "R1 = filter (\<lambda>y. y \<noteq> x) a @ s # ?c" using False by (simp add: R1_def assms(1))
    moreover have l: "length ?c \<le> Suc (length b)" by simp
    moreover have "length ?c < MAX_RESOLVED_SECRETS" using l assms(2) by linarith
    ultimately obtain a' where "remember_resolved_secret v R = a' @ s # ?c" using cut[of "filter (\<lambda>y. y \<noteq> x) a" ?c] rem by metis
    with l show ?thesis by blast
  qed
qed

lemma remember_run:
  assumes "R = a @ s # b" "length b + length vs < MAX_RESOLVED_SECRETS"
  shows "s \<in> set (fold remember_resolved_secret vs R)"
  using assms
proof (induction vs arbitrary: R a b)
  case (Cons v vs)
  then obtain a' b' where "remember_resolved_secret v R = a' @ s # b'" "length b' \<le> Suc (length b)"
    using remember_keeps[OF Cons.prems(1), of v] by auto
  with Cons.IH[of "remember_resolved_secret v R" a' b'] Cons.prems(2) show ?case by simp
qed simp

section \<open>Structures\<close>

text \<open>A condition on every string value in a structure (the keys are not values).\<close>

fun str_all :: "(pystr \<Rightarrow> bool) \<Rightarrow> json \<Rightarrow> bool" where
  "str_all P (JStr s) = P s"
| "str_all P (JList xs) = list_all (str_all P) xs"
| "str_all P (JObj kvs) = list_all (\<lambda>(k, v). str_all P v) kvs"
| "str_all P _ = True"

definition MARKERS :: "pystr list" where
  "MARKERS = [TOO_DEEP, u ''<dict omitted: deeper than 6 levels>'', u ''<list omitted: deeper than 6 levels>'']"

text \<open>A secret that neither placeholder nor marker can spell.\<close>

definition unspelled :: "pystr \<Rightarrow> bool" where
  "unspelled s \<longleftrightarrow> opaque s \<and> list_all (\<lambda>m. \<not> contains m s) MARKERS"

lemma not_contains_take: "\<not> contains t s \<Longrightarrow> \<not> contains (take n t) s"
  using not_contains_part[of "[]" "take n t" "drop n t" s] by simp

lemma redact_structure_hides:
  assumes "unspelled s" "s \<in> set known"
  shows "str_all (\<lambda>t. \<not> contains t s) (redact_structure U known d j)"
proof (induction j arbitrary: d)
  case (JList xs)
  have "\<not> contains TOO_DEEP s" using assms(1) by (simp add: unspelled_def MARKERS_def)
  with JList show ?case by (auto simp: list_all_iff)
next
  case (JObj kvs)
  have m: "\<not> contains TOO_DEEP s" "\<not> contains REDACTED s"
    using assms(1) wall_REDACTED[of s] by (simp_all add: unspelled_def MARKERS_def wall_def)
  have "str_all (\<lambda>t. \<not> contains t s) (redact_structure U known (d - 1) v)" if "(k, v) \<in> set kvs" for k v
    using JObj[of "(k, v)" v] that by (simp add: snds.simps)
  with m show ?case by (auto simp: list_all_iff)
qed (use assms in \<open>auto simp: unspelled_def MARKERS_def redact_secrets_hides\<close>)

lemma cap_str_hides:
  assumes "opaque s" "s \<in> set known"
  shows "str_all (\<lambda>t. \<not> contains t s) (fst (fst (cap_str U known x b)))"
  using redact_secrets_hides[OF assms, of U x] by (simp add: cap_str_def Let_def not_contains_take)

lemma cap_hides:
  assumes "unspelled s"
  shows "s \<in> set known \<Longrightarrow> str_all (\<lambda>t. \<not> contains t s) (fst (fst (cap_arg U known depth v b)))"
    and "s \<in> set known \<Longrightarrow> list_all (str_all (\<lambda>t. \<not> contains t s)) (fst (fst (cap_items U known depth n xs b)))"
    and "s \<in> set known \<Longrightarrow> list_all (\<lambda>(k, v). str_all (\<lambda>t. \<not> contains t s) v) (fst (fst (cap_members U known depth n kvs b)))"
proof (induction U known depth v b and U known depth n xs b and U known depth n kvs b rule: cap_arg_cap_items_cap_members.induct)
  case (1 U known depth x b)
  then show ?case using assms cap_str_hides[of s known U x b] by (simp add: unspelled_def)
qed (use assms in \<open>auto simp: unspelled_def MARKERS_def split: prod.split\<close>)

lemma sanitize_loop_hides:
  assumes "unspelled s" "s \<in> set known" "list_all (\<lambda>(k, v). str_all (\<lambda>t. \<not> contains t s) v) capped"
  shows "list_all (\<lambda>(k, v). str_all (\<lambda>t. \<not> contains t s) v) (sanitize_loop U known kvs b capped)"
  using assms(3)
proof (induction kvs arbitrary: b capped)
  case (Cons kv kvs)
  obtain k v where kv: "kv = (k, v)" by force
  obtain y tr b' where c: "cap_arg U known 0 v b = ((y, tr), b')" by (metis prod.collapse)
  have "str_all (\<lambda>t. \<not> contains t s) y" using cap_hides(1)[OF assms(1,2), of U 0 v b] c by simp
  then show ?case using Cons.IH Cons.prems by (simp add: kv c Let_def dput_all)
qed simp

section \<open>Size\<close>

text \<open>The characters of the strings in a structure, the markers of omitted parts aside.\<close>

fun chars :: "json \<Rightarrow> int" where
  "chars (JStr s) = (if s \<in> set MARKERS then 0 else int (length s))"
| "chars (JList xs) = sum_list (map chars xs)"
| "chars (JObj kvs) = sum_list (map (\<lambda>(k, v). chars v) kvs)"
| "chars _ = 0"

lemma chars_nonneg: "0 \<le> chars j"
proof (induction j)
  case (JObj kvs)
  have "0 \<le> chars v" if "(k, v) \<in> set kvs" for k v using JObj[of "(k, v)" v] that by (simp add: snds.simps)
  then show ?case by (auto intro!: sum_list_nonneg)
next
  case (JList xs)
  then show ?case by (auto intro!: sum_list_nonneg)
qed auto

lemma chars_le: "chars (JStr t) \<le> int (length t)"
  by simp

lemma cap_str_budget:
  assumes "0 \<le> b" "cap_str U known x b = ((y, tr), b')"
  shows "0 \<le> b' \<and> chars y \<le> b - b' \<and> b' \<le> b"
proof -
  define r where "r = redact_secrets U known x"
  define a where "a = min MAX_ARG_CHARS (max 0 b)"
  have a: "0 \<le> a" "a \<le> b" using assms(1) by (auto simp: a_def MAX_ARG_CHARS_def)
  show ?thesis
  proof (cases "int (length r) > a")
    case True
    then have "y = JStr (take (nat a) r)" "b' = b - a" using assms(2) by (simp_all add: cap_str_def Let_def r_def[symmetric] a_def[symmetric])
    then show ?thesis using chars_le[of "take (nat a) r"] a True by (simp del: chars.simps)
  next
    case False
    then have "y = JStr r" "b' = b - int (length r)" using assms(2) by (simp_all add: cap_str_def Let_def r_def[symmetric] a_def[symmetric])
    then show ?thesis using chars_le[of r] a False by (simp del: chars.simps)
  qed
qed

lemma cap_budget:
  shows "0 \<le> b \<Longrightarrow> cap_arg U known depth v b = ((y, tr), b') \<Longrightarrow> 0 \<le> b' \<and> chars y \<le> b - b' \<and> b' \<le> b"
    and "0 \<le> b \<Longrightarrow> cap_items U known depth n xs b = ((ys, tr), b') \<Longrightarrow> 0 \<le> b' \<and> sum_list (map chars ys) \<le> b - b' \<and> b' \<le> b"
    and "0 \<le> b \<Longrightarrow> cap_members U known depth n kvs b = ((zs, tr), b') \<Longrightarrow> 0 \<le> b' \<and> sum_list (map (\<lambda>(k, v). chars v) zs) \<le> b - b' \<and> b' \<le> b"
proof (induction U known depth v b and U known depth n xs b and U known depth n kvs b arbitrary: y tr b' and ys tr b' and zs tr b'
    rule: cap_arg_cap_items_cap_members.induct)
  case (1 U known depth x b)
  show ?case by (rule cap_str_budget[OF "1.prems"(1) "1.prems"(2)[unfolded cap_arg.simps]])
next
  case (2 U known depth kvs b)
  show ?case
  proof (cases "depth \<ge> MAX_ARG_DEPTH")
    case False
    then obtain zs where "cap_members U known depth 0 kvs b = ((zs, tr), b')" "y = JObj zs"
      using "2.prems"(2) by (auto split: prod.splits)
    with "2.IH"[OF False "2.prems"(1)] show ?thesis by simp
  qed (use "2.prems" in \<open>auto simp: MARKERS_def\<close>)
next
  case (3 U known depth xs b)
  show ?case
  proof (cases "depth \<ge> MAX_ARG_DEPTH")
    case False
    then obtain ys where "cap_items U known depth 0 xs b = ((ys, tr), b')" "y = JList ys"
      using "3.prems"(2) by (auto split: prod.splits)
    with "3.IH"[OF False "3.prems"(1)] show ?thesis by simp
  qed (use "3.prems" in \<open>auto simp: MARKERS_def\<close>)
next
  case (6 U known depth n x xs b)
  show ?case
  proof (cases "n \<ge> MAX_ARG_ITEMS \<or> b \<le> 0")
    case False
    then obtain z t1 b1 zs t2 where c: "cap_arg U known (Suc depth) x b = ((z, t1), b1)"
      "cap_items U known depth (Suc n) xs b1 = ((zs, t2), b')" "ys = z # zs"
      using "6.prems"(2) by (auto split: prod.splits)
    from "6.IH"(1)[OF False "6.prems"(1) c(1)] "6.IH"(2)[OF False c(1)[symmetric] refl _ c(2)] show ?thesis by (simp add: c(3))
  qed (use "6.prems" in auto)
next
  case (8 U known depth n k x kvs b)
  show ?case
  proof (cases "n \<ge> MAX_ARG_ITEMS \<or> b \<le> 0")
    case False
    then obtain z t1 b1 ws t2 where c: "cap_arg U known (Suc depth) x b = ((z, t1), b1)"
      "cap_members U known depth (Suc n) kvs b1 = ((ws, t2), b')" "zs = (k, z) # ws"
      using "8.prems"(2) by (auto split: prod.splits)
    from "8.IH"(1)[OF False "8.prems"(1) c(1)] "8.IH"(2)[OF False c(1)[symmetric] refl _ c(2)] show ?thesis by (simp add: c(3))
  qed (use "8.prems" in auto)
qed simp_all

lemma sum_dput: "sum_list (map (\<lambda>(k, v). chars v) (dput k y d)) \<le> sum_list (map (\<lambda>(k, v). chars v) d) + chars y"
proof (induction k y d rule: dput.induct)
  case (2 k v a b d)
  then show ?case using chars_nonneg[of b] by auto
qed simp

lemma sanitize_loop_budget:
  "0 \<le> b \<Longrightarrow> sum_list (map (\<lambda>(k, v). chars v) (sanitize_loop U known kvs b capped)) \<le> b + sum_list (map (\<lambda>(k, v). chars v) capped)"
proof (induction U known kvs b capped rule: sanitize_loop.induct)
  case (2 U known k v kvs b capped)
  obtain y tr b' where c: "cap_arg U known 0 v b = ((y, tr), b')" by (metis prod.collapse)
  let ?c = "if tr then dput (k @ u ''__truncated'') (JBool True) (dput k y capped) else dput k y capped"
  have "0 \<le> b'" "chars y \<le> b - b'" using cap_budget(1)[OF "2.prems" c] by simp_all
  moreover have "sum_list (map (\<lambda>(k, v). chars v) ?c) \<le> sum_list (map (\<lambda>(k, v). chars v) capped) + chars y"
    using sum_dput[of "k @ u ''__truncated''" "JBool True" "dput k y capped"] sum_dput[of k y capped] by auto
  ultimately show ?case using "2.IH"[OF c[symmetric] refl refl] by (simp add: c Let_def)
qed simp

section \<open>Properties\<close>

text \<open>
  A secret that was resolved is not shown afterwards: for a secret that the placeholder cannot spell,
  and as long as at most 511 other values were resolved since, no redacted text contains it, wherever
  and however often it occurs in the text, and whatever the heuristic patterns do around it.
\<close>

theorem resolved_secret_never_shown:
  assumes "opaque s" "length vs < MAX_RESOLVED_SECRETS"
  shows "\<not> contains (redact_secrets U (fold remember_resolved_secret vs (remember_resolved_secret (Some s) R)) value) s"
proof -
  have "s \<noteq> []" using assms(1) by (simp add: opaque_def)
  then have "\<exists>a. remember_resolved_secret (Some s) R = a @ s # []"
    by (auto simp: remember_resolved_secret_def Let_def MAX_RESOLVED_SECRETS_def)
  then obtain a where a: "remember_resolved_secret (Some s) R = a @ s # []" by blast
  have "s \<in> set (fold remember_resolved_secret vs (remember_resolved_secret (Some s) R))"
    by (rule remember_run[OF a]) (use assms(2) in simp)
  then show ?thesis by (rule redact_secrets_hides[OF assms(1)])
qed

theorem resolved_secret_never_shown_witness:
  "opaque (u ''hunter2'') \<and> \<not> contains (redact_secrets ascii_uni
      (fold remember_resolved_secret [Some (u ''x1'')] (remember_resolved_secret (Some (u ''hunter2'')) [])) (u ''pw hunter2hunter2 TOKEN=hunter2'')) (u ''hunter2'')"
proof -
  have o: "opaque (u ''hunter2'')" by code_simp
  show ?thesis using resolved_secret_never_shown[OF o, of "[Some (u ''x1'')]"] o by (simp add: MAX_RESOLVED_SECRETS_def)
qed

text \<open>
  The same for structured values: in a redacted structure, and in the arguments of a tool call that
  leave the agent, no string value contains a known secret, at any depth.
\<close>

theorem structures_scrubbed:
  assumes "unspelled s" "s \<in> set known"
  shows "str_all (\<lambda>t. \<not> contains t s) (redact_structure U known d j)
     \<and> str_all (\<lambda>t. \<not> contains t s) (JObj (sanitize_tool_args U known args))"
  using redact_structure_hides[OF assms] sanitize_loop_hides[OF assms, of "[]"]
  by (simp add: sanitize_tool_args_def)

theorem structures_scrubbed_witness:
  "unspelled (u ''hunter2'') \<and> str_all (\<lambda>t. \<not> contains t (u ''hunter2''))
     (JObj (sanitize_tool_args ascii_uni [u ''hunter2''] [(u ''cmd'', JList [JStr (u ''echo hunter2'')])]))"
proof -
  have "unspelled (u ''hunter2'')" by code_simp
  then show ?thesis using structures_scrubbed[of "u ''hunter2''" "[u ''hunter2'']" ascii_uni 0 JNull] by simp
qed

text \<open>
  Whatever a model passes to a tool, the strings kept in the outbound copy of its arguments have at
  most 20000 characters together (the notes about omitted parts aside).
\<close>

theorem tool_args_bounded: "sum_list (map (\<lambda>(k, v). chars v) (sanitize_tool_args U known args)) \<le> 20000"
  using sanitize_loop_budget[of MAX_ARG_TOTAL_CHARS U known args "[]"]
  by (simp add: sanitize_tool_args_def MAX_ARG_TOTAL_CHARS_def)

end
