(* ===== verification/Json_Dump.thy ===== *)
theory Json_Dump
  imports Bridge
begin

text \<open>
  \<^verbatim>\<open>json.dumps(value, separators=(",", ":"), ensure_ascii=False)\<close> on every JSON value, and its round trip
  through \<open>json_loads\<close>. Floating-point numbers are printed by the interpreter's table
  (\<open>repr_float\<close>); the round trip is stated for values without them.
\<close>

fun dumps :: "pyuni \<Rightarrow> json \<Rightarrow> pystr" where
  "dumps U JNull = u ''null''"
| "dumps U (JBool b) = (if b then u ''true'' else u ''false'')"
| "dumps U (JInt i) = str_int i"
| "dumps U (JFloat x) = repr_float U x"
| "dumps U (JStr s) = json_str s"
| "dumps U (JList xs) = 91 # py_join [44] (map (dumps U) xs) @ [93]"
| "dumps U (JObj kvs) = 123 # py_join [44] (map (\<lambda>(k, v). json_str k @ 58 # dumps U v) kvs) @ [125]"

text \<open>Values that Python can hold and that have no floating-point number.\<close>

fun plain_json :: "json \<Rightarrow> bool" where
  "plain_json (JFloat x) = False"
| "plain_json (JStr s) = code_points s"
| "plain_json (JList xs) = list_all plain_json xs"
| "plain_json (JObj kvs) = (distinct (map fst kvs) \<and> list_all (\<lambda>(k, v). code_points k \<and> plain_json v) kvs)"
| "plain_json _ = True"

section \<open>Integers\<close>

lemma dec_digits_digit: "list_all is_digit (dec_digits n)"
  by (induction n rule: dec_digits.induct) (subst dec_digits.simps, auto simp: is_digit_def[abs_def])

lemma digits_val_snoc: "digits_val (ds @ [d]) = digits_val ds * 10 + (d - 48)"
  by (simp add: digits_val_def)

lemma digits_val_dec: "digits_val (dec_digits n) = int n"
proof (induction n rule: dec_digits.induct)
  case (1 n)
  show ?case
  proof (cases "n < 10")
    case True
    then show ?thesis by (subst dec_digits.simps) (simp add: digits_val_def)
  next
    case False
    then show ?thesis
      using 1 by (subst dec_digits.simps) (simp add: digits_val_snoc zdiv_int zmod_int)
  qed
qed

lemma dec_digits_lead: "\<exists>d ds. dec_digits n = d # ds \<and> is_digit d \<and> (d = 48 \<longrightarrow> n = 0 \<and> ds = [])"
proof (induction n rule: dec_digits.induct)
  case (1 n)
  show ?case
  proof (cases "n < 10")
    case True
    then show ?thesis by (subst dec_digits.simps) (auto simp: is_digit_def)
  next
    case False
    with 1 obtain d ds where "dec_digits (n div 10) = d # ds" "is_digit d" "d = 48 \<longrightarrow> n div 10 = 0 \<and> ds = []" by auto
    moreover have "n div 10 \<noteq> 0" using False by (simp add: div_eq_0_iff)
    ultimately show ?thesis using False by (subst dec_digits.simps) auto
  qed
qed

text \<open>What may follow a value in JSON text.\<close>

definition delim :: "pystr \<Rightarrow> bool" where
  "delim s \<longleftrightarrow> s = [] \<or> hd s = 44 \<or> hd s = 93 \<or> hd s = 125"

lemma num_int_dec:
  assumes "delim s"
  shows "num_int (dec_digits n @ s) = (dec_digits n, s)"
proof -
  obtain d ds where d: "dec_digits n = d # ds" "is_digit d" "d = 48 \<longrightarrow> n = 0 \<and> ds = []" using dec_digits_lead by blast
  have "takeWhile is_digit s = []" using assms by (cases s) (auto simp: delim_def is_digit_def)
  then have "takeWhile is_digit (dec_digits n @ s) = dec_digits n"
    using dec_digits_digit[of n] by (simp add: list_all_iff takeWhile_append2)
  then show ?thesis using d by (auto simp: num_int_def)
qed

lemma num_tail:
  assumes "delim s"
  shows "num_frac s = ([], s)" "num_exp s = ([], s)"
  using assms by (cases s; auto simp: num_frac_def num_exp_def delim_def)+

lemma scan_num_int:
  assumes "delim s"
  shows "scan_num (str_int i @ s) = Some (JInt i, s)"
proof -
  obtain d ds where d: "dec_digits (nat \<bar>i\<bar>) = d # ds" "is_digit d" using dec_digits_lead by blast
  then have nd: "\<not> startswith (dec_digits (nat \<bar>i\<bar>) @ s) [45]" by (auto simp: is_digit_def)
  show ?thesis
    using num_int_dec[OF assms, of "nat \<bar>i\<bar>"] num_tail[OF assms] nd d digits_val_dec[of "nat \<bar>i\<bar>"]
    by (cases "i < 0") (simp_all add: scan_num_def str_int_def)
qed

lemma scan_atom_int:
  assumes "delim s"
  shows "scan_atom (str_int i @ s) = Some (JInt i, s)"
proof -
  obtain c t where c: "str_int i = c # t" "c = 45 \<or> is_digit c"
    using dec_digits_lead[of "nat (- i)"] dec_digits_lead[of "nat i"] by (cases "i < 0") (auto simp: str_int_def)
  then have "\<not> startswith (str_int i @ s) (u ''null'')" "\<not> startswith (str_int i @ s) (u ''true'')"
    "\<not> startswith (str_int i @ s) (u ''false'')"
    by (auto simp: u_def is_digit_def)
  then show ?thesis by (simp add: scan_atom_def keyword_def scan_num_int[OF assms])
qed

section \<open>The round trip\<close>

lemma dumps_start:
  assumes "plain_json j"
  shows "\<exists>c t. dumps U j = c # t \<and> c < 128 \<and> c \<noteq> 93 \<and> c \<noteq> 125 \<and> \<not> (c = 32 \<or> c = 9 \<or> c = 10 \<or> c = 13)"
proof (cases j)
  case (JInt i)
  then show ?thesis
    using dec_digits_lead[of "nat (- i)"] dec_digits_lead[of "nat i"] by (cases "i < 0") (auto simp: str_int_def is_digit_def)
qed (use assms in \<open>auto simp: u_def json_str_def\<close>)

lemma skip_ws_dumps: "plain_json j \<Longrightarrow> skip_ws (dumps U j @ s) = dumps U j @ s"
  using dumps_start[of j U] by (auto simp: skip_ws_no)

lemma skip_ws_delim: "delim s \<Longrightarrow> skip_ws s = s"
  by (cases s) (auto simp: delim_def skip_ws_def)

text \<open>Reading back one value, with \<open>n\<close> steps of fuel.\<close>

definition reads_back :: "pyuni \<Rightarrow> json \<Rightarrow> bool" where
  "reads_back U j \<longleftrightarrow> (\<forall>n s. 2 * length (dumps U j) \<le> n \<longrightarrow> delim s \<longrightarrow> pvalue n (dumps U j @ s) = Some (j, s))"

lemma pitems_back:
  assumes "xs \<noteq> []" "list_all plain_json xs" "list_all (reads_back U) xs"
    and "2 * length (py_join [44] (map (dumps U) xs)) < n"
  shows "pitems n (py_join [44] (map (dumps U) xs) @ 93 # s) acc = Some (JList (acc @ xs), s)"
  using assms
proof (induction xs arbitrary: n acc)
  case (Cons x xs)
  obtain m where n: "n = Suc m" using Cons.prems(4) by (cases n) auto
  show ?case
  proof (cases "xs = []")
    case True
    have "pvalue m (dumps U x @ 93 # s) = Some (x, 93 # s)"
      using Cons.prems(3,4) True n by (simp add: reads_back_def delim_def)
    then show ?thesis using True n by (simp add: pitems.simps(2) skip_ws_no)
  next
    case False
    then obtain y ys where xs: "xs = y # ys" by (cases xs) auto
    let ?rest = "py_join [44] (map (dumps U) xs) @ 93 # s"
    have j: "py_join [44] (map (dumps U) (x # xs)) = dumps U x @ 44 # py_join [44] (map (dumps U) xs)" by (simp add: xs)
    have v: "pvalue m (dumps U x @ 44 # ?rest) = Some (x, 44 # ?rest)"
      using Cons.prems(3,4) n j by (simp add: reads_back_def delim_def)
    have w: "skip_ws ?rest = ?rest"
    proof -
      have "\<exists>t. ?rest = dumps U y @ t" by (cases ys) (auto simp: xs)
      then show ?thesis using Cons.prems(2) xs skip_ws_dumps[of y U] by auto
    qed
    have "pitems m ?rest (acc @ [x]) = Some (JList ((acc @ [x]) @ xs), s)"
      using Cons.prems n j False by (intro Cons.IH) auto
    then show ?thesis unfolding j n using v w by (simp add: pitems.simps(2) skip_ws_no)
  qed
qed simp

lemma pmembers_back:
  assumes "kvs \<noteq> []" "list_all (\<lambda>(k, v). code_points k \<and> plain_json v \<and> reads_back U v) kvs"
    and "distinct (map fst kvs)" "fst ` set acc \<inter> fst ` set kvs = {}"
    and "2 * length (py_join [44] (map (\<lambda>(k, v). json_str k @ 58 # dumps U v) kvs)) < n"
  shows "pmembers n (py_join [44] (map (\<lambda>(k, v). json_str k @ 58 # dumps U v) kvs) @ 125 # s) acc = Some (JObj (acc @ kvs), s)"
  using assms
proof (induction kvs arbitrary: n acc)
  case (Cons kv kvs)
  obtain k v where kv: "kv = (k, v)" by force
  let ?f = "\<lambda>(k, v). json_str k @ 58 # dumps U v"
  obtain m where n: "n = Suc m" using Cons.prems(5) by (cases n) auto
  have cp: "code_points k" "plain_json v" "reads_back U v" using Cons.prems(2) kv by auto
  have kn: "k \<notin> fst ` set acc" using Cons.prems(4) kv by auto
  have step: "pmembers (Suc m) (?f kv @ r) acc =
      (let r3 = skip_ws r; acc' = acc @ [(k, v)]
       in if startswith r3 [125] then Some (JObj acc', tl r3)
          else if startswith r3 [44] then pmembers m (skip_ws (tl r3)) acc' else None)"
    if "2 * length (dumps U v) \<le> m" "delim r" for r
  proof -
    have e: "?f kv @ r = 34 # (tl (json_str k) @ 58 # dumps U v @ r)" using json_str_Cons[of k] by (simp add: kv)
    have "pvalue m (dumps U v @ r) = Some (v, r)" using cp(3) that by (simp add: reads_back_def)
    then show ?thesis
      unfolding e using cp kn by (simp add: pmembers.simps(2) scan_json_str skip_ws_no skip_ws_dumps dput_fresh)
  qed
  show ?case
  proof (cases "kvs = []")
    case True
    have "2 * length (dumps U v) \<le> m" using Cons.prems(5) True n by (simp add: kv)
    then show ?thesis using step[of "125 # s"] True n by (simp add: delim_def skip_ws_no kv)
  next
    case False
    then obtain y ys where ys: "kvs = y # ys" by (cases kvs) auto
    let ?rest = "py_join [44] (map ?f kvs) @ 125 # s"
    have j: "py_join [44] (map ?f (kv # kvs)) = ?f kv @ 44 # py_join [44] (map ?f kvs)" by (simp add: ys)
    have w: "skip_ws ?rest = ?rest"
    proof -
      have "\<exists>t. ?rest = 34 # t" by (cases ys; cases y) (auto simp: kv \<open>kvs = y # ys\<close> json_str_def)
      then show ?thesis by (auto simp: skip_ws_no)
    qed
    have "2 * length (dumps U v) \<le> m" using Cons.prems(5) n j by (simp add: kv)
    moreover have "pmembers m ?rest (acc @ [(k, v)]) = Some (JObj ((acc @ [(k, v)]) @ kvs), s)"
      using Cons.prems n j False by (intro Cons.IH) (auto simp: kv)
    ultimately show ?thesis unfolding j n using step[of "44 # ?rest"] w by (simp add: delim_def skip_ws_no kv)
  qed
qed simp

lemma pvalue_atom:
  "0 < n \<Longrightarrow> c \<noteq> 34 \<Longrightarrow> c \<noteq> 123 \<Longrightarrow> c \<noteq> 91 \<Longrightarrow> pvalue n (c # s) = scan_atom (c # s)"
  by (cases n) (simp_all add: pvalue.simps(2))

lemma reads_back_plain: "plain_json j \<Longrightarrow> reads_back U j"
proof (induction j)
  case (JList xs)
  have ih: "list_all (reads_back U) xs" using JList by (simp add: list_all_iff)
  show ?case unfolding reads_back_def
  proof (intro allI impI)
    fix n and s :: pystr
    assume "2 * length (dumps U (JList xs)) \<le> n" and "delim s"
    then obtain m where n: "n = Suc m" "2 * length (py_join [44] (map (dumps U) xs)) < m"
      by (cases n) auto
    show "pvalue n (dumps U (JList xs) @ s) = Some (JList xs, s)"
    proof (cases xs)
      case (Cons x ys)
      let ?r = "py_join [44] (map (dumps U) xs) @ 93 # s"
      obtain t where t: "?r = dumps U x @ t" by (cases ys) (auto simp: Cons)
      have px: "plain_json x" using JList.prems Cons by simp
      then have "skip_ws ?r = ?r" "\<not> startswith ?r [93]"
        using skip_ws_dumps[OF px, of U t] dumps_start[OF px, of U] t by auto
      moreover have "pitems m ?r [] = Some (JList xs, s)"
        using pitems_back[OF _ _ ih n(2)] JList.prems Cons by simp
      ultimately show ?thesis using n(1) by (simp add: pvalue.simps(2))
    qed (simp add: n(1) pvalue.simps(2) skip_ws_no)
  qed
next
  case (JObj kvs)
  have ih: "list_all (\<lambda>(k, v). code_points k \<and> plain_json v \<and> reads_back U v) kvs"
    using JObj by (fastforce simp: list_all_iff)
  show ?case unfolding reads_back_def
  proof (intro allI impI)
    fix n and s :: pystr
    assume "2 * length (dumps U (JObj kvs)) \<le> n" and "delim s"
    then obtain m where n: "n = Suc m" "2 * length (py_join [44] (map (\<lambda>(k, v). json_str k @ 58 # dumps U v) kvs)) < m"
      by (cases n) auto
    show "pvalue n (dumps U (JObj kvs) @ s) = Some (JObj kvs, s)"
    proof (cases kvs)
      case (Cons x ys)
      let ?r = "py_join [44] (map (\<lambda>(k, v). json_str k @ 58 # dumps U v) kvs) @ 125 # s"
      obtain t where t: "?r = 34 # t" by (cases ys; cases x) (auto simp: Cons json_str_def)
      then have "skip_ws ?r = ?r" "\<not> startswith ?r [125]" by (simp_all add: skip_ws_no)
      moreover have "pmembers m ?r [] = Some (JObj kvs, s)"
        using pmembers_back[OF _ ih, of "[]" m s] JObj.prems Cons n(2) by simp
      ultimately show ?thesis using n(1) by (simp add: pvalue.simps(2))
    qed (simp add: n(1) pvalue.simps(2) skip_ws_no)
  qed
next
  case (JInt i)
  show ?case unfolding reads_back_def
  proof (intro allI impI)
    fix n and s :: pystr
    assume "2 * length (dumps U (JInt i)) \<le> n" and d: "delim s"
    moreover obtain c t where c: "str_int i = c # t" "c = 45 \<or> is_digit c"
      using dec_digits_lead[of "nat (- i)"] dec_digits_lead[of "nat i"] by (cases "i < 0") (auto simp: str_int_def)
    ultimately obtain m where "n = Suc m" by (cases n) auto
    then show "pvalue n (dumps U (JInt i) @ s) = Some (JInt i, s)"
      using c scan_atom_int[OF d, of i] by (auto simp: pvalue.simps(2) is_digit_def)
  qed
next
  case (JStr t)
  show ?case unfolding reads_back_def
  proof (intro allI impI)
    fix n and s :: pystr
    assume "2 * length (dumps U (JStr t)) \<le> n"
    then obtain m where "n = Suc m" by (cases n) (auto simp: json_str_def)
    then show "pvalue n (dumps U (JStr t) @ s) = Some (JStr t, s)"
      using JStr by (simp add: pvalue_json_str)
  qed
next
  case JNull
  show ?case by (auto simp: reads_back_def u_def scan_atom_def keyword_def pvalue_atom)
next
  case (JBool b)
  show ?case by (auto simp: reads_back_def u_def scan_atom_def keyword_def pvalue_atom)
qed simp

text \<open>What is written is read back.\<close>

theorem loads_dumps:
  assumes "plain_json j"
  shows "json_loads (dumps U j) = Some j"
proof -
  obtain c t where c: "dumps U j = c # t" "c < 128" "\<not> (c = 32 \<or> c = 9 \<or> c = 10 \<or> c = 13)"
    using dumps_start[OF assms] by blast
  have "pvalue (Suc (2 * length (dumps U j))) (dumps U j @ []) = Some (j, [])"
    using reads_back_plain[OF assms, of U] unfolding reads_back_def by (simp add: delim_def)
  then show ?thesis
    using c by (simp add: json_loads_def skip_ws_no) (simp add: skip_ws_def)
qed

text \<open>A written value is one line.\<close>

lemma esc_chr_line: "0 \<le> c \<Longrightarrow> 10 \<notin> set (esc_chr c)"
  by (auto simp: esc_chr_def hex_digit_def)

lemma json_str_line: "code_points t \<Longrightarrow> 10 \<notin> set (json_str t)"
  using esc_chr_line by (auto simp: json_str_def code_points_def list_all_iff)

lemma py_join_line: "list_all (\<lambda>x. 10 \<notin> set x) xs \<Longrightarrow> 10 \<notin> set (py_join [44] xs)"
  by (induction "[44 :: int]" xs rule: py_join.induct) auto

lemma dumps_line: "plain_json j \<Longrightarrow> 10 \<notin> set (dumps U j)"
proof (induction j)
  case (JInt i)
  have "10 \<notin> set (dec_digits n)" for n using dec_digits_digit[of n] by (auto simp: list_all_iff is_digit_def)
  then show ?case by (simp add: str_int_def)
next
  case (JList xs)
  then show ?case by (auto intro!: py_join_line simp: list_all_iff)
next
  case (JObj kvs)
  then have "list_all (\<lambda>x. 10 \<notin> set x) (map (\<lambda>(k, v). json_str k @ 58 # dumps U v) kvs)"
    using json_str_line by (fastforce simp: list_all_iff)
  then show ?case using py_join_line by simp
qed (auto simp: u_def json_str_line)

end
