(* ===== verification/Protocol.thy ===== *)
theory Protocol
  imports Json_Dump Json_Store Cost
begin

text \<open>
  The frames between the gateway daemon and its workers, \<^verbatim>\<open>src/src/jarn/gateway/protocol.py\<close>: one JSON
  object per line. Four frames have code of their own; the others go through a generic path that
  fills the fields of a dataclass and does not check their types, so they are kinds with fields that
  hold any JSON value.
\<close>

section \<open>Frames\<close>

definition SCHEMA_VERSION :: int where "SCHEMA_VERSION = 1"

definition FRAME_KEY :: pystr where "FRAME_KEY = u ''frame''"

record MediaRef =
  mr_path :: pystr
  mr_mime :: pystr
  mr_modality :: pystr

datatype gkind = ApprovalVerdict | Cancel | Steer | EventF | ApprovalAsk | ErrorF

datatype frame =
    HandshakeFrame int
  | TurnFrame pystr pystr "MediaRef list" "int option"
  | ShutdownFrame
  | StatusFrame bool int int "pyint option"
  | GenericFrame gkind "(pystr \<times> json) list"

text \<open>The fields of the generic dataclasses, in order, with their defaults.\<close>

fun gfields :: "gkind \<Rightarrow> (string \<times> json option) list" where
  "gfields ApprovalVerdict = [(''token'', None), (''approved'', None), (''scope'', Some (JStr (u ''once''))),
     (''message'', Some (JStr [])), (''plan_mode_target'', Some JNull)]"
| "gfields Cancel = [(''thread_id'', None)]"
| "gfields Steer = [(''thread_id'', None), (''text'', None)]"
| "gfields EventF = [(''thread_id'', None), (''kind'', None), (''text'', Some (JStr [])), (''data'', Some (JObj [])),
     (''progress'', Some JNull)]"
| "gfields ApprovalAsk = [(''token'', None), (''thread_id'', None), (''action'', None), (''target'', None),
     (''description'', Some (JStr [])), (''dangerous'', Some (JBool False)), (''reason'', Some (JStr [])),
     (''args'', Some (JObj [])), (''plan'', Some JNull), (''suggested_memory'', Some JNull), (''suggested_skill'', Some JNull)]"
| "gfields ErrorF = [(''message'', None), (''code'', Some (JStr (u ''error''))), (''thread_id'', Some JNull)]"

fun gname :: "gkind \<Rightarrow> pystr" where
  "gname ApprovalVerdict = u ''approval_verdict''"
| "gname Cancel = u ''cancel''"
| "gname Steer = u ''steer''"
| "gname EventF = u ''event''"
| "gname ApprovalAsk = u ''approval_ask''"
| "gname ErrorF = u ''error''"

fun frame_name :: "frame \<Rightarrow> pystr" where
  "frame_name (HandshakeFrame v) = u ''handshake''"
| "frame_name (TurnFrame t x m c) = u ''turn''"
| "frame_name ShutdownFrame = u ''shutdown''"
| "frame_name (StatusFrame a b c d) = u ''status''"
| "frame_name (GenericFrame k fs) = gname k"

definition INBOUND_TYPES :: "pystr list" where
  "INBOUND_TYPES = [u ''handshake'', u ''turn'', gname ApprovalVerdict, gname Cancel, gname Steer, u ''shutdown'']"

definition OUTBOUND_TYPES :: "pystr list" where
  "OUTBOUND_TYPES = [gname EventF, u ''status'', gname ApprovalAsk, gname ErrorF]"

section \<open>Encoding\<close>

definition media_dict :: "MediaRef \<Rightarrow> json" where
  "media_dict m = JObj [(u ''path'', JStr (mr_path m)), (u ''mime'', JStr (mr_mime m)), (u ''modality'', JStr (mr_modality m))]"

definition pyint_json :: "pyint \<Rightarrow> json" where
  "pyint_json i = (case i of PyInt n \<Rightarrow> JInt n | PyBool b \<Rightarrow> JBool b)"

fun to_wire_dict :: "frame \<Rightarrow> args" where
  "to_wire_dict (HandshakeFrame v) = [(u ''schema_version'', JInt v)]"
| "to_wire_dict (TurnFrame tid x ms cid) = [(u ''thread_id'', JStr tid), (u ''text'', JStr x), (u ''media'', JList (map media_dict ms))]
     @ (case cid of None \<Rightarrow> [] | Some c \<Rightarrow> [(u ''chat_id'', JInt c)])"
| "to_wire_dict ShutdownFrame = []"
| "to_wire_dict (StatusFrame tif bg idle parked) = [(u ''turn_in_flight'', JBool tif), (u ''live_bg_jobs'', JInt bg), (u ''idle_ms'', JInt idle)]
     @ (case parked of None \<Rightarrow> [] | Some p \<Rightarrow> [(u ''parked_approvals'', pyint_json p)])"
| "to_wire_dict (GenericFrame k fs) = fs"

definition encode_line :: "pyuni \<Rightarrow> frame \<Rightarrow> pystr" where
  "encode_line U f = dumps U (JObj (dput FRAME_KEY (JStr (frame_name f)) (to_wire_dict f))) @ [10]"

section \<open>Decoding\<close>

text \<open>\<open>DecodeOverflow\<close> is the \<^verbatim>\<open>OverflowError\<close> of \<^verbatim>\<open>int\<close> on an infinite number, which is not caught.\<close>

datatype decode_error = ProtocolError | UnsupportedSchemaVersion int | DecodeOverflow

definition media_ref :: "pyuni \<Rightarrow> json \<Rightarrow> MediaRef option" where
  "media_ref U j = (case j of
       JObj d \<Rightarrow> (case (dget d (u ''path''), dget d (u ''mime''), dget d (u ''modality'')) of
          (Some p, Some m, Some q) \<Rightarrow> Some \<lparr>mr_path = py_str U p, mr_mime = py_str U m, mr_modality = py_str U q\<rparr>
        | _ \<Rightarrow> None)
     | _ \<Rightarrow> None)"

fun media_refs :: "pyuni \<Rightarrow> json list \<Rightarrow> MediaRef list option" where
  "media_refs U [] = Some []"
| "media_refs U (j # js) = (case media_ref U j of None \<Rightarrow> None | Some m \<Rightarrow> map_option ((#) m) (media_refs U js))"

definition decode_handshake :: "args \<Rightarrow> decode_error + frame" where
  "decode_handshake body = (case dget body (u ''schema_version'') of Some (JInt v) \<Rightarrow> Inr (HandshakeFrame v) | _ \<Rightarrow> Inl ProtocolError)"

definition decode_turn :: "pyuni \<Rightarrow> args \<Rightarrow> decode_error + frame" where
  "decode_turn U body =
     (case (case dget body (u ''media'') of None \<Rightarrow> JList [] | Some v \<Rightarrow> v) of
        JList items \<Rightarrow>
          (case (media_refs U items, aget body ''chat_id'', dget body (u ''thread_id''), dget body (u ''text'')) of
             (Some ms, JNull, Some t, Some x) \<Rightarrow> Inr (TurnFrame (py_str U t) (py_str U x) ms None)
           | (Some ms, JInt c, Some t, Some x) \<Rightarrow> Inr (TurnFrame (py_str U t) (py_str U x) ms (Some c))
           | _ \<Rightarrow> Inl ProtocolError)
      | _ \<Rightarrow> Inl ProtocolError)"

definition wire_int :: "int_conv \<Rightarrow> args \<Rightarrow> string \<Rightarrow> decode_error + int" where
  "wire_int C body k = (case dget body (u k) of None \<Rightarrow> Inl ProtocolError
     | Some v \<Rightarrow> (case py_int C v of IntOk i \<Rightarrow> Inr i | IntOverflowError \<Rightarrow> Inl DecodeOverflow | _ \<Rightarrow> Inl ProtocolError))"

definition decode_status :: "pyuni \<Rightarrow> int_conv \<Rightarrow> args \<Rightarrow> decode_error + frame" where
  "decode_status U C body =
     (let parked = (case aget body ''parked_approvals'' of JNull \<Rightarrow> Inr None | JInt i \<Rightarrow> Inr (Some (PyInt i))
             | JBool b \<Rightarrow> Inr (Some (PyBool b)) | _ \<Rightarrow> Inl ProtocolError)
      in case parked of Inl e \<Rightarrow> Inl e
         | Inr p \<Rightarrow> (case dget body (u ''turn_in_flight'') of None \<Rightarrow> Inl ProtocolError
             | Some t \<Rightarrow> (case wire_int C body ''live_bg_jobs'' of Inl e \<Rightarrow> Inl e
                 | Inr bg \<Rightarrow> (case wire_int C body ''idle_ms'' of Inl e \<Rightarrow> Inl e
                     | Inr idle \<Rightarrow> Inr (StatusFrame (truthy U t) bg idle p)))))"

text \<open>\<^verbatim>\<open>cls(**kwargs)\<close>: a missing field takes its default; without one, \<^verbatim>\<open>TypeError\<close>.\<close>

fun fill_fields :: "args \<Rightarrow> (string \<times> json option) list \<Rightarrow> (pystr \<times> json) list option" where
  "fill_fields body [] = Some []"
| "fill_fields body ((k, dflt) # fs) =
     (case (case dget body (u k) of Some v \<Rightarrow> Some v | None \<Rightarrow> dflt) of
        None \<Rightarrow> None
      | Some v \<Rightarrow> map_option ((#) (u k, v)) (fill_fields body fs))"

definition decode_generic :: "gkind \<Rightarrow> args \<Rightarrow> decode_error + frame" where
  "decode_generic k body = (case fill_fields body (gfields k) of None \<Rightarrow> Inl ProtocolError | Some fs \<Rightarrow> Inr (GenericFrame k fs))"

definition from_wire_dict :: "pyuni \<Rightarrow> int_conv \<Rightarrow> pystr \<Rightarrow> args \<Rightarrow> decode_error + frame" where
  "from_wire_dict U C name body =
     (if name = u ''handshake'' then decode_handshake body
      else if name = u ''turn'' then decode_turn U body
      else if name = u ''shutdown'' then Inr ShutdownFrame
      else if name = u ''status'' then decode_status U C body
      else (case find (\<lambda>k. gname k = name) [ApprovalVerdict, Cancel, Steer, EventF, ApprovalAsk, ErrorF] of
              Some k \<Rightarrow> decode_generic k body | None \<Rightarrow> Inl ProtocolError))"

definition decode_line :: "pyuni \<Rightarrow> int_conv \<Rightarrow> pystr list \<Rightarrow> pystr \<Rightarrow> decode_error + frame" where
  "decode_line U C registry line =
     (let txt = strip_ws line
      in if txt = [] then Inl ProtocolError
         else (case json_loads txt of
             Some (JObj obj) \<Rightarrow>
               (case dget obj FRAME_KEY of
                  Some (JStr name) \<Rightarrow>
                    if name \<notin> set registry then Inl ProtocolError
                    else (case from_wire_dict U C name (filter (\<lambda>(k, v). k \<noteq> FRAME_KEY) obj) of
                        Inr (HandshakeFrame v) \<Rightarrow> if v \<noteq> SCHEMA_VERSION then Inl (UnsupportedSchemaVersion v) else Inr (HandshakeFrame v)
                      | r \<Rightarrow> r)
                | _ \<Rightarrow> Inl ProtocolError)
           | _ \<Rightarrow> Inl ProtocolError))"

definition decode_inbound_line :: "pyuni \<Rightarrow> int_conv \<Rightarrow> pystr \<Rightarrow> decode_error + frame" where
  "decode_inbound_line U C line = decode_line U C INBOUND_TYPES line"

definition decode_outbound_line :: "pyuni \<Rightarrow> int_conv \<Rightarrow> pystr \<Rightarrow> decode_error + frame" where
  "decode_outbound_line U C line = decode_line U C OUTBOUND_TYPES line"

section \<open>Lemmas\<close>

text \<open>Frames whose texts are Python strings and whose generic fields are those of their class.\<close>

fun frame_ok :: "frame \<Rightarrow> bool" where
  "frame_ok (TurnFrame t x ms c) = (code_points t \<and> code_points x
     \<and> list_all (\<lambda>m. code_points (mr_path m) \<and> code_points (mr_mime m) \<and> code_points (mr_modality m)) ms)"
| "frame_ok (GenericFrame k fs) = (map fst fs = map (u \<circ> fst) (gfields k) \<and> list_all (plain_json \<circ> snd) fs)"
| "frame_ok (HandshakeFrame v) = (v = SCHEMA_VERSION)"
| "frame_ok _ = True"

lemma media_refs_back: "media_refs U (map media_dict ms) = Some ms"
  by (induction ms) (simp_all add: media_ref_def media_dict_def py_str_def)

lemma gfields_names: "distinct (map (u \<circ> fst) (gfields k))" "FRAME_KEY \<notin> set (map (u \<circ> fst) (gfields k))"
  "list_all code_points (map (u \<circ> fst) (gfields k))"
  by (cases k; simp add: FRAME_KEY_def; code_simp)+

lemma wire_keys:
  assumes "frame_ok f"
  shows "distinct (map fst (to_wire_dict f))" "FRAME_KEY \<notin> fst ` set (to_wire_dict f)"
proof -
  have "distinct (map fst (to_wire_dict f)) \<and> FRAME_KEY \<notin> set (map fst (to_wire_dict f))"
  proof (cases f)
    case (GenericFrame k fs)
    with assms gfields_names[of k] show ?thesis by simp
  qed (auto simp: FRAME_KEY_def split: option.split)
  then show "distinct (map fst (to_wire_dict f))" "FRAME_KEY \<notin> fst ` set (to_wire_dict f)" by simp_all
qed

lemma code_points_gname: "code_points (gname k)"
  by (cases k) simp_all

lemma wire_plain:
  assumes "frame_ok f"
  shows "list_all (\<lambda>(k, v). code_points k \<and> plain_json v) (to_wire_dict f)"
proof (cases f)
  case (TurnFrame t x ms c)
  then show ?thesis using assms by (auto simp: media_dict_def list_all_iff split: option.split)
next
  case (StatusFrame a b c d)
  then show ?thesis by (auto simp: pyint_json_def split: option.split pyint.split)
next
  case (GenericFrame k fs)
  then have "list_all code_points (map fst fs)" "list_all (plain_json \<circ> snd) fs"
    using assms gfields_names(3)[of k] by simp_all
  then show ?thesis using GenericFrame by (auto simp: list_all_iff)
qed (use assms in simp_all)

lemma encode_line_obj:
  assumes "frame_ok f"
  defines "obj \<equiv> to_wire_dict f @ [(FRAME_KEY, JStr (frame_name f))]"
  shows "encode_line U f = dumps U (JObj obj) @ [10]" "plain_json (JObj obj)"
proof -
  show "encode_line U f = dumps U (JObj obj) @ [10]"
    using wire_keys(2)[OF assms(1)] by (simp add: encode_line_def obj_def dput_fresh)
  have "code_points (frame_name f)" by (cases f) (simp_all add: code_points_gname)
  then show "plain_json (JObj obj)"
    using wire_keys[OF assms(1)] wire_plain[OF assms(1)] by (auto simp: obj_def FRAME_KEY_def)
qed

lemma strip_ws_object: "strip_ws (123 # s @ [125, 10]) = 123 # s @ [125]"
  by (simp add: strip_ws_def lstrip_with_def rstrip_with_def isspace_def)

lemma fill_fields_back:
  assumes "map fst gs = map (u \<circ> fst) ds" "\<And>k v. (k, v) \<in> set gs \<Longrightarrow> dget fs k = Some v"
  shows "fill_fields fs ds = Some gs"
  using assms
proof (induction ds arbitrary: gs)
  case (Cons d ds)
  obtain k dflt where d: "d = (k, dflt)" by force
  from Cons.prems(1) d obtain v hs where gs: "gs = (u k, v) # hs" by (cases gs) auto
  have "dget fs (u k) = Some v" "fill_fields fs ds = Some hs" using Cons gs d by auto
  then show ?case by (simp add: d gs)
qed simp

lemma find_gname: "find (\<lambda>k'. gname k' = gname k) [ApprovalVerdict, Cancel, Steer, EventF, ApprovalAsk, ErrorF] = Some k"
  by (cases k) (simp_all add: u_def)

lemma gname_special: "gname k \<notin> {u ''handshake'', u ''turn'', u ''shutdown'', u ''status''}"
  by (cases k) (simp_all add: u_def)

lemma from_to_wire:
  assumes "frame_ok f"
  shows "from_wire_dict U C (frame_name f) (to_wire_dict f) = Inr f"
proof (cases f)
  case (TurnFrame t x ms c)
  then show ?thesis
    by (cases c) (simp_all add: from_wire_dict_def decode_turn_def media_refs_back aget_def py_str_def)
next
  case (StatusFrame a b c d)
  then show ?thesis
    by (cases d) (auto simp: from_wire_dict_def decode_status_def wire_int_def aget_def pyint_json_def split: pyint.split)
next
  case (GenericFrame k fs)
  have "distinct (map fst fs)" using assms GenericFrame gfields_names(1)[of k] by simp
  then have "fill_fields fs (gfields k) = Some fs"
    using assms GenericFrame by (intro fill_fields_back) (simp_all add: dget_in dict_ok_def)
  then show ?thesis
    using GenericFrame gname_special[of k] find_gname[of k] by (simp add: from_wire_dict_def decode_generic_def)
qed (simp_all add: from_wire_dict_def decode_handshake_def)

lemma encoded_parses:
  assumes "frame_ok f"
  defines "obj \<equiv> to_wire_dict f @ [(FRAME_KEY, JStr (frame_name f))]"
  shows "strip_ws (encode_line U f) \<noteq> []" "json_loads (strip_ws (encode_line U f)) = Some (JObj obj)"
    "dget obj FRAME_KEY = Some (JStr (frame_name f))" "filter (\<lambda>(k, v). k \<noteq> FRAME_KEY) obj = to_wire_dict f"
proof -
  obtain s where s: "dumps U (JObj obj) = 123 # s @ [125]" by simp
  have strip: "strip_ws (encode_line U f) = dumps U (JObj obj)"
    unfolding encode_line_obj(1)[OF assms(1)] s[unfolded obj_def] obj_def using strip_ws_object[of s] by simp
  then show "strip_ws (encode_line U f) \<noteq> []" by (simp add: s del: dumps.simps)
  show "json_loads (strip_ws (encode_line U f)) = Some (JObj obj)"
    unfolding strip obj_def by (rule loads_dumps) (rule encode_line_obj(2)[OF assms(1)])
  have n: "k \<noteq> FRAME_KEY" if "(k, v) \<in> set (to_wire_dict f)" for k v
    using wire_keys(2)[OF assms(1)] that by force
  then show "filter (\<lambda>(k, v). k \<noteq> FRAME_KEY) obj = to_wire_dict f" by (auto simp: obj_def filter_id_conv)
  have "dget (xs @ [(FRAME_KEY, w)]) FRAME_KEY = Some w" if "FRAME_KEY \<notin> fst ` set xs" for xs and w :: json
    using that by (induction xs) auto
  then show "dget obj FRAME_KEY = Some (JStr (frame_name f))" using wire_keys(2)[OF assms(1)] obj_def by blast
qed

lemma decode_encode:
  assumes "frame_ok f" "frame_name f \<in> set registry"
  shows "decode_line U C registry (encode_line U f) = Inr f"
proof -
  have "(case Inr f of Inr (HandshakeFrame v) \<Rightarrow> if v \<noteq> SCHEMA_VERSION then Inl (UnsupportedSchemaVersion v) else Inr (HandshakeFrame v) | r \<Rightarrow> r) = Inr f"
    using assms(1) by (cases f) simp_all
  then show ?thesis
    unfolding decode_line_def Let_def
    using assms(2) from_to_wire[OF assms(1), of U C] encoded_parses(1,2)[OF assms(1), of U] encoded_parses(3,4)[OF assms(1)] by (simp del: filter_append)
qed

lemma decode_foreign:
  assumes "frame_ok f" "frame_name f \<notin> set registry"
  shows "decode_line U C registry (encode_line U f) = Inl ProtocolError"
  unfolding decode_line_def Let_def
  using assms(2) encoded_parses(1,2)[OF assms(1), of U] encoded_parses(3,4)[OF assms(1)] by (simp del: filter_append)

section \<open>What a reader of the pipe gets\<close>

lemma direction:
  "frame_name f \<in> set INBOUND_TYPES \<longleftrightarrow> frame_name f \<notin> set OUTBOUND_TYPES"
proof (cases f)
  case (GenericFrame k fs)
  then show ?thesis by (cases k) (simp_all add: INBOUND_TYPES_def OUTBOUND_TYPES_def u_def)
qed (simp_all add: INBOUND_TYPES_def OUTBOUND_TYPES_def u_def)


definition demo_steer :: frame where
  "demo_steer = GenericFrame Steer [(u ''thread_id'', JStr (u ''t1'')), (u ''text'', JStr [34, 92, 10, 128512])]"


text \<open>
  The pipe is split at newlines, so a frame must not contain one: an encoded frame has exactly one
  newline, its last character, also when a message or a tool argument in it spans lines.
\<close>

theorem frame_one_line:
  assumes "frame_ok f"
  shows "\<exists>body. encode_line U f = body @ [10] \<and> 10 \<notin> set body"
  using encode_line_obj(1)[OF assms, of U] dumps_line[OF encode_line_obj(2)[OF assms]] by blast

theorem frame_one_line_witness:
  "frame_ok demo_steer \<and> (\<exists>body. encode_line ascii_uni demo_steer = body @ [10] \<and> 10 \<notin> set body)"
proof -
  have "frame_ok demo_steer" by code_simp
  then show ?thesis using frame_one_line[of demo_steer ascii_uni] by blast
qed

end
