(* ===== verification/Roots.thy ===== *)
theory Roots
  imports Py_Path
begin

text \<open>
  The roots the gateway may work on: the path functions of \<^verbatim>\<open>src/src/jarn/config/paths.py\<close> that they rest
  on, and \<^verbatim>\<open>validate_gateway_root\<close>, \<^verbatim>\<open>_normalize_repos\<close>, \<^verbatim>\<open>resolve_repo\<close> of
  \<^verbatim>\<open>src/src/jarn/gateway/sessions.py\<close>. A path operation that raises is \<open>None\<close>.
\<close>

section \<open>Paths\<close>

definition PROJECT_DIR_NAME :: pystr where "PROJECT_DIR_NAME = u ''.jarn''"

definition CONFIG_FILENAME :: pystr where "CONFIG_FILENAME = u ''config.yaml''"

definition div_path :: "ppath \<Rightarrow> pystr \<Rightarrow> ppath" where
  "div_path p s = path_join p (parse_path s)"

text \<open>\<^verbatim>\<open>p.expanduser().resolve()\<close>\<close>

definition full_resolve :: "host \<Rightarrow> ppath \<Rightarrow> ppath option" where
  "full_resolve H p = Option.bind (expanduser H p) (h_resolve H)"

definition global_jarn_dirs :: "host \<Rightarrow> ppath list" where
  "global_jarn_dirs H = remdups (List.map_filter (\<lambda>lookup. Option.bind lookup (h_resolve H)) [global_home H, default_global_home H])"

definition global_config_path :: "host \<Rightarrow> ppath option" where
  "global_config_path H = map_option (\<lambda>h. div_path h CONFIG_FILENAME) (global_home H)"

definition personal_root :: "host \<Rightarrow> ppath option" where
  "personal_root H = map_option (\<lambda>h. div_path h (u ''personal'')) (global_home H)"

text \<open>The outer option is an exception, the inner one the \<^verbatim>\<open>None\<close> for the global tier.\<close>

definition project_dir :: "host \<Rightarrow> ppath \<Rightarrow> ppath option option" where
  "project_dir H root =
     (let directory = div_path root PROJECT_DIR_NAME
      in map_option (\<lambda>d. if d \<in> set (global_jarn_dirs H) then None else Some directory) (h_resolve H directory))"

definition project_config_path :: "host \<Rightarrow> ppath \<Rightarrow> ppath option option" where
  "project_config_path H root = map_option (map_option (\<lambda>d. div_path d CONFIG_FILENAME)) (project_dir H root)"

section \<open>Roots of the gateway\<close>

datatype root_error = ForbiddenRootError | UnknownRepoError | RootPathError

definition forbidden_home :: "host \<Rightarrow> ppath \<Rightarrow> bool" where
  "forbidden_home H p \<longleftrightarrow> Option.bind (h_home H) (h_resolve H) = Some p"

definition validate_gateway_root :: "host \<Rightarrow> ppath \<Rightarrow> root_error + ppath" where
  "validate_gateway_root H root =
     (case (full_resolve H root, Option.bind (personal_root H) (h_resolve H)) of
        (Some resolved, Some personal) \<Rightarrow>
          if resolved = personal then Inr resolved
          else if forbidden_home H resolved then Inl ForbiddenRootError
          else (case Option.bind (global_home H) (h_resolve H) of
              None \<Rightarrow> Inl RootPathError
            | Some gh \<Rightarrow>
                if resolved = gh then Inl ForbiddenRootError
                else (case (project_config_path H resolved, Option.bind (global_config_path H) (h_resolve H)) of
                    (Some pcfg, Some gcfg) \<Rightarrow>
                      (case pcfg of None \<Rightarrow> Inr resolved
                       | Some c \<Rightarrow> (case h_resolve H c of None \<Rightarrow> Inl RootPathError
                           | Some rc \<Rightarrow> if rc = gcfg then Inl ForbiddenRootError else Inr resolved))
                  | _ \<Rightarrow> Inl RootPathError))
      | _ \<Rightarrow> Inl RootPathError)"

record GatewayRepo =
  gr_path :: pystr
  gr_name :: "pystr option"

text \<open>\<^verbatim>\<open>gateway.repos\<close> is given as a list of entries or as a mapping from names to paths.\<close>

datatype repos_arg = ReposNone | ReposMapping "(pystr \<times> pystr) list" | ReposList "GatewayRepo list"

definition normalize_repos :: "repos_arg \<Rightarrow> GatewayRepo list" where
  "normalize_repos r = (case r of ReposNone \<Rightarrow> [] | ReposMapping m \<Rightarrow> map (\<lambda>(n, p). \<lparr>gr_path = p, gr_name = Some n\<rparr>) m
     | ReposList xs \<Rightarrow> xs)"

text \<open>The search by path: an entry that does not resolve is passed over, one whose user does not
  exist ends the search with \<^verbatim>\<open>RuntimeError\<close>.\<close>

fun repo_by_path :: "host \<Rightarrow> ppath \<Rightarrow> GatewayRepo list \<Rightarrow> root_error + ppath option" where
  "repo_by_path H resolved [] = Inr None"
| "repo_by_path H resolved (repo # rs) =
     (case expanduser H (parse_path (gr_path repo)) of
        None \<Rightarrow> Inl RootPathError
      | Some p \<Rightarrow> (case h_resolve H p of
            None \<Rightarrow> repo_by_path H resolved rs
          | Some q \<Rightarrow> if q = resolved then map_sum id Some (validate_gateway_root H q) else repo_by_path H resolved rs))"

definition resolve_repo :: "pyuni \<Rightarrow> host \<Rightarrow> ppath \<Rightarrow> GatewayRepo list \<Rightarrow> pystr option \<Rightarrow> root_error + ppath" where
  "resolve_repo U H personal repos target =
     (case target of
        None \<Rightarrow> Inr personal
      | Some t \<Rightarrow>
          (let raw = strip_ws t
           in if raw = [] \<or> lower U raw \<in> {u ''personal'', u ''~'', u ''default''} then Inr personal
              else (case find (\<lambda>repo. gr_name repo = Some raw) repos of
                  Some repo \<Rightarrow> validate_gateway_root H (parse_path (gr_path repo))
                | None \<Rightarrow>
                    (case expanduser H (parse_path raw) of
                       None \<Rightarrow> Inl RootPathError
                     | Some candidate \<Rightarrow>
                         (case h_resolve H candidate of
                            None \<Rightarrow> Inl UnknownRepoError
                          | Some resolved \<Rightarrow>
                              if resolved = personal then Inr personal
                              else (case repo_by_path H resolved repos of
                                  Inl e \<Rightarrow> Inl e
                                | Inr (Some r) \<Rightarrow> Inr r
                                | Inr None \<Rightarrow>
                                    (case validate_gateway_root H resolved of Inl e \<Rightarrow> Inl e | Inr _ \<Rightarrow> Inl UnknownRepoError)))))))"

text \<open>The personal root a router is built with: the one given, or \<^verbatim>\<open>~/.jarn/personal\<close> (which is created
  first); either is validated.\<close>

definition router_personal :: "host \<Rightarrow> pystr option \<Rightarrow> root_error + ppath" where
  "router_personal H given =
     (case (case given of Some s \<Rightarrow> full_resolve H (parse_path s) | None \<Rightarrow> Option.bind (personal_root H) (h_resolve H)) of
        None \<Rightarrow> Inl RootPathError
      | Some p \<Rightarrow> (case validate_gateway_root H p of Inl e \<Rightarrow> Inl e | Inr _ \<Rightarrow> Inr p))"

section \<open>Lemmas\<close>

text \<open>\<^verbatim>\<open>Path.resolve\<close> returns an absolute path and leaves a path it returned alone.\<close>

definition host_ok :: "host \<Rightarrow> bool" where
  "host_ok H \<longleftrightarrow> (\<forall>p q. h_resolve H p = Some q \<longrightarrow> is_absolute q \<and> h_resolve H q = Some q)"

lemma full_resolve_resolved: "host_ok H \<Longrightarrow> h_resolve H p = Some q \<Longrightarrow> full_resolve H q = Some q"
  by (auto simp: host_ok_def full_resolve_def expanduser_def is_absolute_def)

lemma full_resolve_Some: "full_resolve H p = Some q \<Longrightarrow> \<exists>p'. h_resolve H p' = Some q"
  by (auto simp: full_resolve_def bind_eq_Some_conv)

text \<open>
  A root that a chat must not be bound to: the home directory, the global home, or a directory whose project
  configuration is the file of the global configuration; the personal root is exempt. \<open>project_config_path\<close> gives no
  path for a directory whose \<^verbatim>\<open>.jarn\<close> lies in the global home.
\<close>

definition protected_root :: "host \<Rightarrow> ppath \<Rightarrow> bool" where
  "protected_root H p \<longleftrightarrow> Option.bind (personal_root H) (h_resolve H) \<noteq> Some p
     \<and> (forbidden_home H p \<or> Option.bind (global_home H) (h_resolve H) = Some p
        \<or> (\<exists>cfg g. project_config_path H p = Some (Some cfg) \<and> h_resolve H cfg = Some g
              \<and> Option.bind (global_config_path H) (h_resolve H) = Some g))"

lemma validate_Inr:
  assumes "validate_gateway_root H p = Inr r"
  shows "full_resolve H p = Some r" "\<not> protected_root H r"
  using assms by (auto simp: validate_gateway_root_def protected_root_def split: option.splits if_splits)

lemma repo_by_path_Some:
  assumes "host_ok H" "repo_by_path H resolved repos = Inr (Some r)"
  shows "\<exists>repo\<in>set repos. full_resolve H (parse_path (gr_path repo)) = Some r \<and> \<not> protected_root H r"
  using assms(2)
proof (induction repos)
  case (Cons repo rs)
  then show ?case
  proof (cases "\<exists>p. expanduser H (parse_path (gr_path repo)) = Some p \<and> h_resolve H p = Some resolved")
    case True
    then obtain p where p: "expanduser H (parse_path (gr_path repo)) = Some p" "h_resolve H p = Some resolved" by blast
    with Cons.prems have "validate_gateway_root H resolved = Inr r"
      by (cases "validate_gateway_root H resolved") auto
    from validate_Inr[OF this] full_resolve_resolved[OF assms(1) p(2)] p show ?thesis
      by (auto simp: full_resolve_def)
  qed (use Cons in \<open>auto split: option.splits if_splits\<close>)
qed simp

lemma resolve_repo_cases:
  assumes "host_ok H" "resolve_repo U H personal repos target = Inr r"
  shows "r = personal \<or> (\<exists>repo\<in>set repos. full_resolve H (parse_path (gr_path repo)) = Some r \<and> \<not> protected_root H r)"
proof -
  have "\<exists>repo\<in>set repos. full_resolve H (parse_path (gr_path repo)) = Some r \<and> \<not> protected_root H r"
    if "find (\<lambda>repo. gr_name repo = Some raw) repos = Some repo" "validate_gateway_root H (parse_path (gr_path repo)) = Inr r" for raw repo
    using validate_Inr[OF that(2)] that(1) by (auto simp: find_Some_iff)
  then show ?thesis
    using assms(2) repo_by_path_Some[OF assms(1)]
    by (auto simp: resolve_repo_def Let_def split: option.splits if_splits sum.splits)
qed

section \<open>Properties\<close>


lemma collapse_no_dots: "[46, 46] \<notin> set acc \<Longrightarrow> [46, 46] \<notin> set (collapse acc ws)"
proof (induction acc ws rule: collapse.induct)
  case (2 acc w ws)
  have "[46, 46] \<notin> set (tl acc)" using "2.prems" by (cases acc) auto
  with 2 show ?case by auto
qed simp

lemma collapse_id: "[46, 46] \<notin> set ws \<Longrightarrow> collapse acc ws = rev acc @ ws"
  by (induction acc ws rule: collapse.induct) auto

lemma user_host_ok: "host_ok user_host"
proof -
  have "proot (parse_path (u ''/home/ann/proj'')) = [47]" by code_simp
  then show ?thesis
    using collapse_no_dots[of "[]"]
    by (auto simp: host_ok_def user_host_def plain_host_def Let_def path_join_def is_absolute_def collapse_id)
qed


end
