(* ===== verification/Lease.thy ===== *)
theory Lease
  imports Roots
begin

text \<open>
  The mutual exclusion of project roots, \<^verbatim>\<open>src/src/jarn/gateway/lease.py\<close> (POSIX). The kernel's lock table
  says which open file description holds the lock of a lock file: one of this process, named by the
  worker that opened it, or a foreign one. \<^verbatim>\<open>flock\<close> with \<^verbatim>\<open>LOCK_EX | LOCK_NB\<close> fails at once when
  another description has the lock.
\<close>

datatype holder = Own nat | Foreign

type_synonym locks = "ppath \<Rightarrow> holder option"

definition LOCK_FILENAME :: pystr where "LOCK_FILENAME = u ''root.lock''"

definition lock_path_for :: "ppath \<Rightarrow> ppath" where
  "lock_path_for root = div_path (div_path root PROJECT_DIR_NAME) LOCK_FILENAME"

datatype lease_error = RootLeaseHeldError | LeaseOSError

text \<open>What the file system does: the lock file cannot be created or opened, or locks are not
  supported on it.\<close>

datatype lock_io = LockIoOk | LockOpenError | LockUnsupported

record RootLease =
  rl_root :: ppath
  rl_file :: "holder option"

definition new_lease :: "ppath \<Rightarrow> RootLease" where
  "new_lease root = \<lparr>rl_root = root, rl_file = None\<rparr>"

definition held :: "RootLease \<Rightarrow> bool" where
  "held l \<longleftrightarrow> rl_file l \<noteq> None"

definition try_lock :: "lock_io \<Rightarrow> holder \<Rightarrow> ppath \<Rightarrow> locks \<Rightarrow> lease_error + locks" where
  "try_lock io h p L = (case io of
       LockUnsupported \<Rightarrow> Inl LeaseOSError
     | _ \<Rightarrow> (case L p of None \<Rightarrow> Inr (L(p := Some h))
            | Some h' \<Rightarrow> if h' = h then Inr L else Inl RootLeaseHeldError))"

definition acquire :: "lock_io \<Rightarrow> holder \<Rightarrow> RootLease \<Rightarrow> locks \<Rightarrow> (lease_error + RootLease) \<times> locks" where
  "acquire io h l L =
     (if rl_file l \<noteq> None then (Inl RootLeaseHeldError, L)
      else if io = LockOpenError then (Inl LeaseOSError, L)
      else (case try_lock io h (lock_path_for (rl_root l)) L of
          Inl e \<Rightarrow> (Inl e, L)
        | Inr L' \<Rightarrow> (Inr (l\<lparr>rl_file := Some h\<rparr>), L')))"

definition unlock :: "holder \<Rightarrow> ppath \<Rightarrow> locks \<Rightarrow> locks" where
  "unlock h p L = (if L p = Some h then L(p := None) else L)"

definition release :: "RootLease \<Rightarrow> locks \<Rightarrow> RootLease \<times> locks" where
  "release l L = (case rl_file l of None \<Rightarrow> (l, L)
     | Some h \<Rightarrow> (l\<lparr>rl_file := None\<rparr>, unlock h (lock_path_for (rl_root l)) L))"

section \<open>Lemmas\<close>

lemma lock_path_inj [simp]: "lock_path_for p = lock_path_for q \<longleftrightarrow> p = q"
proof -
  have "parse_path PROJECT_DIR_NAME = \<lparr>proot = [], ptail = [PROJECT_DIR_NAME]\<rparr>"
    "parse_path LOCK_FILENAME = \<lparr>proot = [], ptail = [LOCK_FILENAME]\<rparr>" by code_simp+
  then show ?thesis by (cases p; cases q) (auto simp: lock_path_for_def div_path_def path_join_def is_absolute_def)
qed

lemma acquire_cases:
  assumes "acquire io h (new_lease root) L = (r, L')"
  obtains (ok) "r = Inr \<lparr>rl_root = root, rl_file = Some h\<rparr>" "L' = L(lock_path_for root := Some h)"
      "L (lock_path_for root) = None \<or> L (lock_path_for root) = Some h"
  | (busy) "r = Inl RootLeaseHeldError" "L' = L" "L (lock_path_for root) \<noteq> None"
  | (err) "r = Inl LeaseOSError" "L' = L"
proof -
  have "L = L(lock_path_for root := Some h)" if "L (lock_path_for root) = Some h" using that by auto
  then show thesis
    using assms that
    by (auto simp: acquire_def new_lease_def try_lock_def split: if_splits option.splits lock_io.splits)
qed

text \<open>The contract the supervisor uses: taking, holding and giving back the lock of a root.\<close>

locale root_mutex =
  fixes owner :: "'l \<Rightarrow> 'r \<Rightarrow> 'h option"
    and take :: "'h \<Rightarrow> 'r \<Rightarrow> 'l \<Rightarrow> 'l option"
    and give :: "'h \<Rightarrow> 'r \<Rightarrow> 'l \<Rightarrow> 'l"
  assumes take_owner: "take h r L = Some L' \<Longrightarrow> owner L' r' = (if r' = r then Some h else owner L r')"
    and take_free: "take h r L = Some L' \<Longrightarrow> owner L r \<in> {None, Some h}"
    and take_contended: "owner L r = Some h' \<Longrightarrow> h' \<noteq> h \<Longrightarrow> take h r L = None"
    and give_owner: "owner (give h r L) r' = (if r' = r \<and> owner L r = Some h then None else owner L r')"
begin

lemma give_other: "owner L r = Some h' \<Longrightarrow> h' \<noteq> h \<Longrightarrow> owner (give h r L) r = Some h'"
  by (simp add: give_owner)

lemma exclusive: "take h r L = Some L' \<Longrightarrow> h \<noteq> h' \<Longrightarrow> take h' r L' = None"
  by (rule take_contended) (auto simp: take_owner)

lemma retake: "take h r L = Some L' \<Longrightarrow> h \<noteq> h' \<Longrightarrow> owner (give h r L') r = None"
  by (simp add: give_owner take_owner)

end

definition lease_owner :: "locks \<Rightarrow> ppath \<Rightarrow> holder option" where
  "lease_owner L root = L (lock_path_for root)"

definition lease_take :: "holder \<Rightarrow> ppath \<Rightarrow> locks \<Rightarrow> locks option" where
  "lease_take h root L = (case acquire LockIoOk h (new_lease root) L of (Inl e, _) \<Rightarrow> None | (Inr l, L') \<Rightarrow> Some L')"

definition lease_give :: "holder \<Rightarrow> ppath \<Rightarrow> locks \<Rightarrow> locks" where
  "lease_give h root L = snd (release \<lparr>rl_root = root, rl_file = Some h\<rparr> L)"

interpretation lease: root_mutex lease_owner lease_take lease_give
proof unfold_locales
  show "lease_take h r L = Some L' \<Longrightarrow> lease_owner L' r' = (if r' = r then Some h else lease_owner L r')" for h r L L' r'
    by (cases "acquire LockIoOk h (new_lease r) L") (auto simp: lease_take_def lease_owner_def elim!: acquire_cases)
  show "lease_take h r L = Some L' \<Longrightarrow> lease_owner L r \<in> {None, Some h}" for h r L L'
    by (cases "acquire LockIoOk h (new_lease r) L") (auto simp: lease_take_def lease_owner_def elim!: acquire_cases)
  show "lease_owner L r = Some h' \<Longrightarrow> h' \<noteq> h \<Longrightarrow> lease_take h r L = None" for L r h' h
    by (simp add: lease_take_def lease_owner_def acquire_def try_lock_def new_lease_def)
  show "lease_owner (lease_give h r L) r' = (if r' = r \<and> lease_owner L r = Some h then None else lease_owner L r')" for h r L r'
    by (auto simp: lease_give_def lease_owner_def release_def unlock_def)
qed

end
