(* ===== verification/Delivery.thy ===== *)
theory Delivery
  imports Scheduler Approvals
begin

text \<open>
  The rest of \<^verbatim>\<open>src/src/jarn/gateway/scheduler.py\<close>: the file that says which chat owns the turn that
  runs on a root, and the tool with which the agent schedules jobs (with its wrapper in
  \<^verbatim>\<open>src/src/jarn/agent/builtin_tools.py\<close>). Minted job ids and the present time are arguments;
  \<open>personal\<close> is the resolved personal root.
\<close>

section \<open>The active delivery\<close>

record ActiveDelivery =
  ad_chat_id :: int
  ad_root :: pystr
  ad_thread_id :: "pystr option"

definition delivery_key :: pystr where "delivery_key = u ''delivery''"

definition ad_to_dict :: "ActiveDelivery \<Rightarrow> row" where
  "ad_to_dict r = [(u ''chat_id'', JInt (ad_chat_id r)), (u ''root'', JStr (ad_root r)), (u ''thread_id'', opt_json (ad_thread_id r))]"

definition delivery_from_raw :: "pyuni \<Rightarrow> row \<Rightarrow> pa_error + ActiveDelivery" where
  "delivery_from_raw U raw =
     (case row_chat_id raw of Inl e \<Rightarrow> Inl e
      | Inr cid \<Rightarrow> (case dget raw (u ''root'') of None \<Rightarrow> Inl PAKeyError
          | Some r \<Rightarrow> Inr \<lparr>ad_chat_id = cid, ad_root = py_str U r, ad_thread_id = opt_str U (aget raw ''thread_id'')\<rparr>))"

definition set_active_delivery :: "host \<Rightarrow> int \<Rightarrow> pystr \<Rightarrow> pystr option \<Rightarrow> json_file
    \<Rightarrow> (pa_error + ActiveDelivery) \<times> json_file" where
  "set_active_delivery H chat root tid F =
     (case resolve_root H root of Inl e \<Rightarrow> (Inl e, F)
      | Inr root_s \<Rightarrow> (let r = \<lparr>ad_chat_id = chat, ad_root = root_s, ad_thread_id = tid\<rparr>
                      in (Inr r, store_put ad_to_dict delivery_key root_s r F)))"

definition clear_active_delivery :: "host \<Rightarrow> pystr \<Rightarrow> json_file \<Rightarrow> (pa_error + unit) \<times> json_file" where
  "clear_active_delivery H root F =
     (case resolve_root H root of Inl e \<Rightarrow> (Inl e, F)
      | Inr root_s \<Rightarrow> (let data = load_rows delivery_key F
          in (Inr (), if root_s \<in> set (dkeys data) then save_rows delivery_key (dpop root_s data) else F)))"

definition get_active_delivery :: "pyuni \<Rightarrow> host \<Rightarrow> pystr option \<Rightarrow> json_file \<Rightarrow> pa_error + ActiveDelivery option" where
  "get_active_delivery U H root F =
     (let data = load_rows delivery_key F
      in if data = [] then Inr None
         else (case root of
             Some r \<Rightarrow> (case resolve_root H r of Inl e \<Rightarrow> Inl e
                | Inr root_s \<Rightarrow> (case dget data root_s of None \<Rightarrow> Inr None
                     | Some raw \<Rightarrow> map_sum id Some (delivery_from_raw U raw)))
           | None \<Rightarrow> (case data of [(k, raw)] \<Rightarrow> map_sum id Some (delivery_from_raw U raw) | _ \<Rightarrow> Inr None)))"

section \<open>The tool\<close>

definition resolve_job_root :: "pyuni \<Rightarrow> host \<Rightarrow> pystr \<Rightarrow> pystr option \<Rightarrow> pa_error + pystr" where
  "resolve_job_root U H personal root =
     (case root of None \<Rightarrow> Inr personal
      | Some r \<Rightarrow> if strip_ws r = [] \<or> lower U (strip_ws r) \<in> {u ''personal'', u ''~'', u ''default''}
                  then Inr personal else resolve_root H r)"

text \<open>\<open>TScheduleError\<close> is what the wrapper turns into text; a bad row and a bad path escape.\<close>

datatype tool_error = TScheduleError | TRow row_error | TDelivery pa_error | TValueError

definition tool_sched_error :: "sched_error \<Rightarrow> tool_error" where
  "tool_sched_error e = (case e of ScheduleError \<Rightarrow> TScheduleError | SchedValueError \<Rightarrow> TValueError | SchedRowError r \<Rightarrow> TRow r)"

text \<open>The checks of \<^verbatim>\<open>Scheduler.add\<close> that come before the root is resolved.\<close>

definition job_args_ok :: "pyuni \<Rightarrow> pystr \<Rightarrow> pystr option \<Rightarrow> pystr option \<Rightarrow> bool" where
  "job_args_ok U p cr at1 \<longleftrightarrow> strip_ws p \<noteq> [] \<and> truthy_opt cr \<noteq> truthy_opt at1 \<and> (truthy_opt cr \<longrightarrow> parse_cron U (the cr) \<noteq> None)"

definition opt_text :: "pystr option \<Rightarrow> pystr" where
  "opt_text x = (case x of None \<Rightarrow> u ''None'' | Some s \<Rightarrow> s)"

definition opt_repr :: "pyuni \<Rightarrow> pystr option \<Rightarrow> pystr" where
  "opt_repr U x = (case x of None \<Rightarrow> u ''None'' | Some s \<Rightarrow> repr_str U s)"

definition bool_text :: "bool \<Rightarrow> pystr" where
  "bool_text b = (if b then u ''True'' else u ''False'')"

definition or_opt :: "pystr option \<Rightarrow> pystr option \<Rightarrow> pystr option" where
  "or_opt x y = (if truthy_opt x then x else y)"

definition job_line :: "pyuni \<Rightarrow> ScheduledJob \<Rightarrow> pystr" where
  "job_line U j = u ''- '' @ job_id j @ u '': enabled='' @ bool_text (enabled j) @ u '' ''
     @ (if truthy_opt (cron j) then u ''cron='' @ opt_repr U (cron j) else u ''at='' @ opt_repr U (at j))
     @ u '' next_run='' @ opt_text (next_run j) @ u '' chat_id='' @ str_int (chat_id j) @ u '' prompt='' @ repr_str U (prompt j)"

definition tool_action :: "pyuni \<Rightarrow> pystr \<Rightarrow> pystr" where
  "tool_action U a = lower U (strip_ws (or_msg a (u ''create'')))"

definition delivery_chat :: "pyuni \<Rightarrow> host \<Rightarrow> int option \<Rightarrow> pystr option \<Rightarrow> json_file \<Rightarrow> tool_error + int" where
  "delivery_chat U H cid default_root D =
     (case cid of Some c \<Rightarrow> Inr c
      | None \<Rightarrow>
          (let any1 = (case get_active_delivery U H None D of Inl e \<Rightarrow> Inl (TDelivery e)
                 | Inr None \<Rightarrow> Inl TScheduleError | Inr (Some h) \<Rightarrow> Inr (ad_chat_id h))
           in case default_root of None \<Rightarrow> any1
              | Some r \<Rightarrow> (case get_active_delivery U H (Some r) D of Inl e \<Rightarrow> Inl (TDelivery e)
                   | Inr None \<Rightarrow> any1 | Inr (Some h) \<Rightarrow> Inr (ad_chat_id h))))"

record tool_args =
  ta_action :: pystr
  ta_prompt :: pystr
  ta_cron :: pystr
  ta_at :: pystr
  ta_job_id :: pystr
  ta_root :: pystr
  ta_chat_id :: "int option"
  ta_enabled :: "bool option"

definition opt_of :: "pystr \<Rightarrow> pystr option" where
  "opt_of s = (if s = [] then None else Some s)"

definition tool_create :: "pyuni \<Rightarrow> host \<Rightarrow> iso \<Rightarrow> pystr \<Rightarrow> pystr option \<Rightarrow> pystr \<Rightarrow> instant \<Rightarrow> tool_args
    \<Rightarrow> json_file \<Rightarrow> jobs_file \<Rightarrow> (tool_error + pystr) \<times> jobs_file" where
  "tool_create U H I personal default_root minted now A D F =
     (case delivery_chat U H (ta_chat_id A) default_root D of
        Inl e \<Rightarrow> (Inl e, F)
      | Inr cid \<Rightarrow>
          if \<not> job_args_ok U (ta_prompt A) (opt_of (ta_cron A)) (opt_of (ta_at A)) then (Inl TScheduleError, F)
          else (case resolve_job_root U H personal (Some (or_msg (ta_root A) (u ''personal''))) of
              Inl e \<Rightarrow> (Inl (TDelivery e), F)
            | Inr root_path \<Rightarrow>
                (case add_job U I (ta_prompt A) cid (opt_of (ta_cron A)) (opt_of (ta_at A)) root_path [] True minted now F of
                   (Inl e, F') \<Rightarrow> (Inl (tool_sched_error e), F')
                 | (Inr job, F') \<Rightarrow>
                     (Inr (u ''Scheduled job '' @ job_id job @ u '': next_run='' @ opt_text (or_opt (next_run job) (or_opt (at job) (cron job)))
                        @ u '' chat_id='' @ str_int (chat_id job) @ u '' root='' @ job_root job
                        @ u '' prompt='' @ repr_str U (prompt job)), F'))))"

definition schedule_tool_call :: "pyuni \<Rightarrow> host \<Rightarrow> iso \<Rightarrow> pystr \<Rightarrow> pystr option \<Rightarrow> pystr \<Rightarrow> instant \<Rightarrow> tool_args
    \<Rightarrow> json_file \<Rightarrow> jobs_file \<Rightarrow> (tool_error + pystr) \<times> jobs_file" where
  "schedule_tool_call U H I personal default_root minted now A D F =
     (let act = tool_action U (ta_action A); jid = strip_ws (ta_job_id A)
      in if act \<in> {u ''create'', u ''add'', u ''propose''} then tool_create U H I personal default_root minted now A D F
         else if act = u ''list'' then
           (case list_jobs U (ta_chat_id A) F of
              Inl e \<Rightarrow> (Inl (TRow e), F)
            | Inr jobs \<Rightarrow> (Inr (if jobs = [] then u ''No scheduled jobs.''
                               else py_join [10] (u ''Scheduled jobs:'' # map (job_line U) jobs)), F))
         else if act \<in> {u ''remove'', u ''delete'', u ''cancel''} then
           (if jid = [] then (Inl TScheduleError, F)
            else (case remove_job U jid F of
                (Inl e, F') \<Rightarrow> (Inl (TRow e), F')
              | (Inr None, F') \<Rightarrow> (Inr (u ''No job with id '' @ repr_str U jid @ u ''.''), F')
              | (Inr (Some _), F') \<Rightarrow> (Inr (u ''Removed scheduled job '' @ jid @ u ''.''), F')))
         else if act \<in> {u ''enable'', u ''disable''} then
           (if jid = [] then (Inl TScheduleError, F)
            else (case enable_job U I jid (case ta_enabled A of None \<Rightarrow> act = u ''enable'' | Some b \<Rightarrow> b) now F of
                (Inl e, F') \<Rightarrow> (Inl (tool_sched_error e), F')
              | (Inr job, F') \<Rightarrow> (Inr ((if enabled job then u ''Enabled'' else u ''Disabled'') @ u '' job '' @ job_id job
                   @ u ''; next_run='' @ opt_text (next_run job)), F')))
         else (Inl TScheduleError, F))"

section \<open>Lemmas\<close>

lemma ad_row_get: "row_chat_id (ad_to_dict r) = Inr (ad_chat_id r)" "dget (ad_to_dict r) (u ''root'') = Some (JStr (ad_root r))"
  "aget (ad_to_dict r) ''thread_id'' = opt_json (ad_thread_id r)"
  by (simp_all add: ad_to_dict_def row_chat_id_def aget_def)

lemma delivery_roundtrip: "delivery_from_raw U (ad_to_dict r) = Inr r"
  by (simp add: delivery_from_raw_def ad_row_get py_str_def)

interpretation deliveries: row_codec ad_to_dict "delivery_from_raw U" delivery_key "\<lambda>r. True" for U
  by unfold_locales (rule delivery_roundtrip)

lemma get_active_store:
  "resolve_root H root = Inr root_s \<Longrightarrow> get_active_delivery U H (Some root) D = store_get (delivery_from_raw U) delivery_key root_s D"
  by (auto simp: get_active_delivery_def store_get_def Let_def split: option.split)

lemma get_after_set:
  assumes "file_ok delivery_key D" "set_active_delivery H chat root tid D = (Inr r, D')"
  shows "get_active_delivery U H (Some root) D' = Inr (Some r)" "ad_chat_id r = chat"
proof -
  from assms(2) obtain root_s where rs: "resolve_root H root = Inr root_s"
    and r: "r = \<lparr>ad_chat_id = chat, ad_root = root_s, ad_thread_id = tid\<rparr>" and D': "D' = store_put ad_to_dict delivery_key root_s r D"
    by (auto simp: set_active_delivery_def Let_def split: sum.splits)
  show "get_active_delivery U H (Some root) D' = Inr (Some r)"
    unfolding get_active_store[OF rs] D' by (simp add: deliveries.get_put[OF assms(1)])
  show "ad_chat_id r = chat" by (simp add: r)
qed

lemma add_job_chat: "add_job U I p cid cr at1 rt pl en jid now F = (Inr job, F') \<Longrightarrow> chat_id job = cid \<and> job_root job = rt \<and> job_id job = jid"
  by (auto simp: add_job_def Let_def split: if_splits sum.splits)

lemma tool_create_Inr:
  assumes "tool_create U H I personal dr minted now A D F = (Inr text, F')"
  obtains cid rt job where "delivery_chat U H (ta_chat_id A) dr D = Inr cid"
    "add_job U I (ta_prompt A) cid (opt_of (ta_cron A)) (opt_of (ta_at A)) rt [] True minted now F = (Inr job, F')"
  using assms by (auto simp: tool_create_def split: sum.splits if_splits prod.splits)

section \<open>Properties\<close>

text \<open>
  A job that the agent schedules during a gateway turn belongs to the chat of that turn: after the
  router recorded that a chat owns the turn on a root, a job created by the tool without a chat id is
  stored with exactly that chat id and is found under its id.
\<close>

theorem schedule_inherits_chat:
  assumes "file_ok delivery_key D" "set_active_delivery H chat root tid D = (Inr r, D')"
    and "dict_ok (load_jobs F)" "ta_chat_id A = None" "tool_action U (ta_action A) = u ''create''"
    and "schedule_tool_call U H I personal (Some root) minted now A D' F = (Inr text, F')"
  shows "\<exists>job. get_job U minted F' = Inr (Some job) \<and> chat_id job = chat"
proof -
  have c: "delivery_chat U H (ta_chat_id A) (Some root) D' = Inr chat"
    using get_after_set[OF assms(1,2)] assms(4) by (simp add: delivery_chat_def Let_def)
  from assms(5,6) have "tool_create U H I personal (Some root) minted now A D' F = (Inr text, F')"
    by (simp add: schedule_tool_call_def Let_def)
  then obtain rt job where a: "add_job U I (ta_prompt A) chat (opt_of (ta_cron A)) (opt_of (ta_at A)) rt [] True minted now F = (Inr job, F')"
    using c by (elim tool_create_Inr) simp
  from add_job_chat[OF a] add_job_get[OF assms(3) a] show ?thesis by simp
qed

text \<open>
  The job store changes only with consent: whenever running the schedule tool on some action text
  would change the store, the gate of the call asks the approver about these arguments and approves
  exactly if the approver does. What the gate waves through without asking changes nothing.
\<close>

theorem schedule_change_needs_approval:
  assumes "uni_ascii_ok (p_uni Z)" "dget (rq_args rq) (u ''action'') = Some (JStr text)" "ta_action A = text"
    and "snd (schedule_tool_call (p_uni Z) H I personal dr minted now A D F) \<noteq> F"
  shows "\<exists>q. q_args q = rq_args rq
     \<and> (decisions (fst (schedule_handoff Z rq name d)) = [Approve]) = approved (fst (call_approver Z q d))"
proof -
  let ?act = "or_msg (lower (p_uni Z) (strip_ws text)) (u ''create'')"
  have at: "arg_text (p_uni Z) (rq_args rq) ''action'' ''create'' = text" by (simp add: arg_text_def assms(2) py_str_def)
  have "tool_action (p_uni Z) text \<noteq> u ''list''"
    using assms(3,4) by (auto simp: schedule_tool_call_def Let_def u_def split: sum.splits)
  moreover have "lower (p_uni Z) [] = []" using assms(1) by (simp add: uni_ascii_ok_def)
  ultimately have "?act \<noteq> u ''list''"
    by (auto simp: tool_action_def or_msg_def strip_ws_def lstrip_with_def rstrip_with_def u_def split: if_splits)
  then obtain q t y n m where "q_args q = rq_args rq" "schedule_handoff Z rq name d = handoff Z q t y n m d"
    by (simp add: schedule_handoff_def Let_def at request_def) (metis ApprovalRequest.select_convs(4))
  moreover have "(decisions (fst (handoff Z q t y n m d)) = [Approve]) = approved (fst (call_approver Z q d))"
    by (auto simp: handoff_def split: prod.splits)
  ultimately show ?thesis by metis
qed

definition demo_tool_args :: tool_args where
  "demo_tool_args = \<lparr>ta_action = u ''Create'', ta_prompt = u ''stand-up'', ta_cron = [], ta_at = [5], ta_job_id = [],
     ta_root = [], ta_chat_id = None, ta_enabled = None\<rparr>"

theorem schedule_inherits_chat_witness:
  "\<exists>D' job. snd (set_active_delivery user_host 7 (u ''/home/ann/proj'') None None) = D'
     \<and> get_job ascii_uni (u ''j9'') (snd (schedule_tool_call ascii_uni user_host raw_iso (u ''/p'') (Some (u ''/home/ann/proj''))
           (u ''j9'') 3 demo_tool_args D' None)) = Inr (Some job) \<and> chat_id job = 7"
proof -
  obtain r D' where s: "set_active_delivery user_host 7 (u ''/home/ann/proj'') None None = (Inr r, D')"
  proof -
    have "\<exists>p. resolve_root user_host (u ''/home/ann/proj'') = Inr p" by (rule exI[of _ "u ''/home/ann/proj''"]) code_simp
    then show ?thesis using that by (auto simp: set_active_delivery_def Let_def)
  qed
  have ok: "file_ok delivery_key None" "dict_ok (load_jobs None)" by (simp_all add: load_jobs_def load_rows_def)
  have a: "tool_action ascii_uni (ta_action demo_tool_args) = u ''create''" "ta_chat_id demo_tool_args = None" by code_simp+
  have c: "delivery_chat ascii_uni user_host None (Some (u ''/home/ann/proj'')) D' = Inr 7"
    using get_after_set[OF ok(1) s] by (simp add: delivery_chat_def Let_def)
  have j: "job_args_ok ascii_uni (ta_prompt demo_tool_args) (opt_of (ta_cron demo_tool_args)) (opt_of (ta_at demo_tool_args))" by code_simp
  have rt: "resolve_job_root ascii_uni user_host (u ''/p'') (Some (or_msg (ta_root demo_tool_args) (u ''personal''))) = Inr (u ''/p'')" by code_simp
  obtain job F' where ad: "add_job ascii_uni raw_iso (ta_prompt demo_tool_args) 7 (opt_of (ta_cron demo_tool_args)) (opt_of (ta_at demo_tool_args))
      (u ''/p'') [] True (u ''j9'') 3 None = (Inr job, F')"
    by (simp add: add_job_def demo_tool_args_def opt_of_def strip_ws_def lstrip_with_def rstrip_with_def isspace_def u_def truthy_opt_def
        compute_next_run_def raw_iso_def load_jobs_def load_rows_def dkeys_def Let_def)
  then obtain msg where t: "schedule_tool_call ascii_uni user_host raw_iso (u ''/p'') (Some (u ''/home/ann/proj'')) (u ''j9'') 3 demo_tool_args D' None = (Inr msg, F')"
    using a c j rt by (simp add: schedule_tool_call_def tool_create_def)
  from schedule_inherits_chat[OF ok(1) s ok(2) a(2,1) t] s t show ?thesis by auto
qed

theorem schedule_change_needs_approval_witness:
  "\<exists>q. q_args q = [(u ''action'', JStr (u ''Create''))]
     \<and> (decisions (fst (schedule_handoff demo_params (demo_request ''schedule_task'' ''action'' ''Create'') (u ''schedule_task'') (demo_driver None))) = [Approve])
       = approved (fst (call_approver demo_params q (demo_driver None)))"
proof -
  let ?A = "demo_tool_args\<lparr>ta_chat_id := Some 7\<rparr>"
  have a: "tool_action ascii_uni (ta_action ?A) = u ''create''" by code_simp
  have j: "job_args_ok ascii_uni (ta_prompt ?A) (opt_of (ta_cron ?A)) (opt_of (ta_at ?A))" by code_simp
  have rt: "resolve_job_root ascii_uni user_host (u ''/p'') (Some (or_msg (ta_root ?A) (u ''personal''))) = Inr (u ''/p'')" by code_simp
  obtain job F' where ad: "add_job ascii_uni raw_iso (ta_prompt ?A) 7 (opt_of (ta_cron ?A)) (opt_of (ta_at ?A))
      (u ''/p'') [] True (u ''j9'') 3 None = (Inr job, F')"
    by (simp add: add_job_def demo_tool_args_def opt_of_def strip_ws_def lstrip_with_def rstrip_with_def isspace_def u_def truthy_opt_def
        compute_next_run_def raw_iso_def load_jobs_def load_rows_def dkeys_def Let_def)
  then have "F' \<noteq> None" using add_job_put(1)[OF ad] by (simp add: store_put_def save_rows_def)
  moreover have "snd (schedule_tool_call ascii_uni user_host raw_iso (u ''/p'') None (u ''j9'') 3 ?A None None) = F'"
    using a j rt ad by (simp add: schedule_tool_call_def tool_create_def delivery_chat_def)
  ultimately have n: "snd (schedule_tool_call (p_uni demo_params) user_host raw_iso (u ''/p'') None (u ''j9'') 3 ?A None None) \<noteq> None"
    by (simp add: demo_params_def)
  have "uni_ascii_ok (p_uni demo_params)" by (simp add: demo_params_def uni_ascii_ok_ascii_uni)
  moreover have "dget (rq_args (demo_request ''schedule_task'' ''action'' ''Create'')) (u ''action'') = Some (JStr (u ''Create''))"
    "ta_action ?A = u ''Create''" by (simp_all add: demo_request_def demo_tool_args_def)
  ultimately have "\<exists>q. q_args q = rq_args (demo_request ''schedule_task'' ''action'' ''Create'')
     \<and> (decisions (fst (schedule_handoff demo_params (demo_request ''schedule_task'' ''action'' ''Create'') (u ''schedule_task'') (demo_driver None))) = [Approve])
       = approved (fst (call_approver demo_params q (demo_driver None)))"
    by (rule schedule_change_needs_approval[OF _ _ _ n])
  then show ?thesis by (simp add: demo_request_def)
qed

end
