(* ===== verification/Supervisor.thy ===== *)
theory Supervisor
  imports Protocol Lease
begin

text \<open>
  The per-root worker processes of the gateway, \<^verbatim>\<open>src/src/jarn/gateway/daemon.py\<close>. Handles are objects
  that the supervisor's dictionary and the reader threads share, so they live in a store, named by
  numbers. What the operating system decides is an argument of the operation that observes it: how a
  write to a pipe ends, how a new worker answers the handshake, with which code a process exits.
  \<open>s_exit\<close> is what \<^verbatim>\<open>popen.poll()\<close> returns at the moment and \<open>s_wrote\<close> the frames written so far.
  Roots are resolved paths; resolving one again is the identity and is left out.
\<close>

section \<open>Handles\<close>

record StatusInfo =
  st_turn :: bool
  st_jobs :: int
  st_idle :: int
  st_parked :: "pyint option"

text \<open>Where the reader thread of a worker is: waiting for a line, about to call the hook for a frame,
  on its way out after an exception, or gone.\<close>

datatype reader = Reading | InHook frame | Raised | Ended

record WorkerHandle =
  wh_root :: ppath
  wh_lease :: RootLease
  wh_status :: "StatusInfo option"
  wh_thread :: "pystr option"
  wh_dead :: bool
  wh_exit :: "int option"
  wh_ready :: bool
  wh_hs_error :: bool
  wh_reader :: reader

definition new_handle :: "ppath \<Rightarrow> RootLease \<Rightarrow> WorkerHandle" where
  "new_handle rt l = \<lparr>wh_root = rt, wh_lease = l, wh_status = None, wh_thread = None, wh_dead = False, wh_exit = None,
     wh_ready = False, wh_hs_error = False, wh_reader = Reading\<rparr>"

definition turn_in_flight :: "WorkerHandle \<Rightarrow> bool" where
  "turn_in_flight h \<longleftrightarrow> wh_thread h \<noteq> None \<or> (case wh_status h of None \<Rightarrow> False | Some s \<Rightarrow> st_turn s)"

record Sup =
  s_workers :: "(ppath, nat) pydict"
  s_handles :: "nat \<Rightarrow> WorkerHandle"
  s_next :: nat
  s_closed :: bool
  s_locks :: locks
  s_exit :: "nat \<Rightarrow> int option"
  s_wrote :: "(nat \<times> frame) list"

definition upd_h :: "nat \<Rightarrow> (WorkerHandle \<Rightarrow> WorkerHandle) \<Rightarrow> Sup \<Rightarrow> Sup" where
  "upd_h i f S = S\<lparr>s_handles := (s_handles S)(i := f (s_handles S i))\<rparr>"

definition alive :: "Sup \<Rightarrow> nat \<Rightarrow> bool" where
  "alive S i \<longleftrightarrow> \<not> wh_dead (s_handles S i) \<and> s_exit S i = None"

definition is_evictable :: "int \<Rightarrow> Sup \<Rightarrow> nat \<Rightarrow> bool" where
  "is_evictable idle_timeout_ms S i =
     (let h = s_handles S i
      in if turn_in_flight h \<or> \<not> alive S i then False
         else (case wh_status h of
             None \<Rightarrow> False
           | Some s \<Rightarrow> \<not> st_turn s \<and> \<not> st_jobs s > 0 \<and> st_idle s \<ge> idle_timeout_ms))"

definition get_worker :: "ppath \<Rightarrow> Sup \<Rightarrow> nat option" where
  "get_worker rt S = dget (s_workers S) rt"

section \<open>Frames from a worker\<close>

text \<open>An error frame before the handshake is done that makes the reader itself raise: an unhashable
  code, or a version message without a last word.\<close>

definition hs_error_raises :: "pyuni \<Rightarrow> args \<Rightarrow> bool" where
  "hs_error_raises U fs = (case aget fs ''code'' of
       JList _ \<Rightarrow> True
     | JObj _ \<Rightarrow> True
     | JStr c \<Rightarrow> c \<in> {u ''unsupported_schema_version'', u ''schema_version''}
          \<and> truthy U (aget fs ''message'')
          \<and> (case aget fs ''message'' of JStr m \<Rightarrow> split_ws m = [] | _ \<Rightarrow> True)
     | _ \<Rightarrow> False)"

definition same_thread :: "WorkerHandle \<Rightarrow> args \<Rightarrow> bool" where
  "same_thread h fs = (case (wh_thread h, aget fs ''thread_id'') of (Some t, JStr t') \<Rightarrow> t = t' | _ \<Rightarrow> False)"

definition final_kind :: "pyuni \<Rightarrow> pystr \<Rightarrow> bool" where
  "final_kind U k \<longleftrightarrow> lower U k \<in> {u ''done'', u ''cancelled'', u ''error''}"

definition pyint_succ :: "pyint \<Rightarrow> pyint" where
  "pyint_succ p = (case p of PyInt n \<Rightarrow> PyInt (n + 1) | PyBool b \<Rightarrow> PyInt (of_bool b + 1))"

definition on_error_frame :: "pyuni \<Rightarrow> args \<Rightarrow> WorkerHandle \<Rightarrow> WorkerHandle" where
  "on_error_frame U fs h =
     (if \<not> wh_ready h \<and> hs_error_raises U fs then h\<lparr>wh_reader := Raised\<rparr>
      else (let h1 = (if wh_ready h then h else h\<lparr>wh_hs_error := True, wh_ready := True\<rparr>)
            in (if truthy U (aget fs ''thread_id'') \<and> same_thread h1 fs then h1\<lparr>wh_thread := None\<rparr> else h1)
                 \<lparr>wh_reader := InHook (GenericFrame ErrorF fs)\<rparr>))"

definition on_event_frame :: "pyuni \<Rightarrow> args \<Rightarrow> WorkerHandle \<Rightarrow> WorkerHandle" where
  "on_event_frame U fs h =
     (let h1 = h\<lparr>wh_ready := True\<rparr>
      in case aget fs ''kind'' of
           JStr k \<Rightarrow> (if final_kind U k \<and> (wh_thread h1 = None \<or> same_thread h1 fs) then h1\<lparr>wh_thread := None\<rparr> else h1)
                      \<lparr>wh_reader := InHook (GenericFrame EventF fs)\<rparr>
         | _ \<Rightarrow> h1\<lparr>wh_reader := Raised\<rparr>)"

definition on_approval_ask :: "pyuni \<Rightarrow> args \<Rightarrow> WorkerHandle \<Rightarrow> WorkerHandle" where
  "on_approval_ask U fs h =
     (let h1 = h\<lparr>wh_ready := True\<rparr>;
          h2 = (if truthy U (aget fs ''thread_id'') \<and> (wh_thread h1 = None \<or> same_thread h1 fs) then h1\<lparr>wh_thread := None\<rparr> else h1);
          h3 = (case wh_status h2 of
                  Some s \<Rightarrow> if st_turn s
                     then h2\<lparr>wh_status := Some (s\<lparr>st_turn := False,
                            st_parked := Some (case st_parked s of None \<Rightarrow> PyInt 1 | Some p \<Rightarrow> pyint_succ p)\<rparr>)\<rparr>
                     else h2
                | None \<Rightarrow> h2)
      in h3\<lparr>wh_reader := InHook (GenericFrame ApprovalAsk fs)\<rparr>)"

definition dispatch_outbound :: "pyuni \<Rightarrow> frame \<Rightarrow> WorkerHandle \<Rightarrow> WorkerHandle" where
  "dispatch_outbound U f h = (case f of
       StatusFrame tif bg idle parked \<Rightarrow>
         h\<lparr>wh_status := Some \<lparr>st_turn = tif, st_jobs = bg, st_idle = idle, st_parked = parked\<rparr>,
           wh_thread := (if tif then wh_thread h else None), wh_ready := True, wh_reader := InHook f\<rparr>
     | GenericFrame k fs \<Rightarrow>
         (case k of ErrorF \<Rightarrow> on_error_frame U fs h
          | EventF \<Rightarrow> on_event_frame U fs h
          | ApprovalAsk \<Rightarrow> on_approval_ask U fs h
          | _ \<Rightarrow> h\<lparr>wh_reader := InHook f\<rparr>)
     | _ \<Rightarrow> h\<lparr>wh_reader := InHook f\<rparr>)"

text \<open>A line that is not a frame is skipped, but fails a handshake that waits for it.\<close>

definition bad_line :: "WorkerHandle \<Rightarrow> WorkerHandle" where
  "bad_line h = (if wh_ready h then h else h\<lparr>wh_hs_error := True, wh_ready := True\<rparr>)"

text \<open>\<^verbatim>\<open>_mark_dead\<close>: the second result is the call of the death hook, if there is one.\<close>

definition mark_dead :: "nat \<Rightarrow> Sup \<Rightarrow> Sup \<times> (int option \<times> pystr option) option" where
  "mark_dead i S =
     (let h = s_handles S i; code = s_exit S i
      in if wh_dead h then (upd_h i (\<lambda>h. h\<lparr>wh_reader := Ended\<rparr>) S, None)
         else (upd_h i (\<lambda>h. h\<lparr>wh_dead := True, wh_exit := code, wh_thread := None,
                     wh_hs_error := (if wh_ready h then wh_hs_error h else True), wh_ready := True, wh_reader := Ended\<rparr>) S,
               if wh_thread h \<noteq> None \<or> (wh_status h \<noteq> None \<and> code \<notin> {Some 0, None}) then Some (code, wh_thread h) else None))"

section \<open>Frames to a worker\<close>

datatype sup_error = SupClosed | SupLease lease_error | SupPopen | WorkerProtocolError
  | WorkerDeadError "int option" "pystr option" | SupWriteError

text \<open>\<open>WriteOther\<close> is an \<^verbatim>\<open>OSError\<close> other than a broken pipe.\<close>

datatype write_outcome = WriteOk | WriteBroken | WriteOther

definition write_frame :: "write_outcome \<Rightarrow> nat \<Rightarrow> frame \<Rightarrow> Sup \<Rightarrow> (sup_error + unit) \<times> Sup" where
  "write_frame w i f S =
     (let h = s_handles S i
      in if wh_dead h \<or> s_exit S i \<noteq> None
         then (Inl (WorkerDeadError (if wh_dead h then wh_exit h else s_exit S i) (wh_thread h)), S)
         else (case w of
             WriteOk \<Rightarrow> (Inr (), S\<lparr>s_wrote := s_wrote S @ [(i, f)]\<rparr>)
           | WriteBroken \<Rightarrow> (Inl (WorkerDeadError (s_exit S i) (wh_thread h)),
                            upd_h i (\<lambda>h. h\<lparr>wh_dead := True, wh_exit := s_exit S i\<rparr>) S)
           | WriteOther \<Rightarrow> (Inl SupWriteError, S)))"

section \<open>Life of a worker\<close>

definition forget :: "nat \<Rightarrow> Sup \<Rightarrow> Sup" where
  "forget i S =
     (let h = s_handles S i; rel = release (wh_lease h) (s_locks S)
      in upd_h i (\<lambda>h. h\<lparr>wh_lease := fst rel, wh_dead := True, wh_exit := (if wh_exit h = None then s_exit S i else wh_exit h)\<rparr>)
           (S\<lparr>s_workers := dpop (wh_root h) (s_workers S), s_locks := snd rel\<rparr>))"

text \<open>The end of a process that is asked to shut down, or killed: how the shutdown frame is written and
  what \<^verbatim>\<open>poll()\<close> returns after the grace periods.\<close>

record reap_outcome =
  rp_write :: write_outcome
  rp_exit :: "int option"

definition reap :: "bool \<Rightarrow> reap_outcome \<Rightarrow> nat \<Rightarrow> Sup \<Rightarrow> Sup" where
  "reap graceful r i S =
     forget i (if alive S i
       then (let S1 = (if graceful then snd (write_frame (rp_write r) i ShutdownFrame S) else S)
             in S1\<lparr>s_exit := (s_exit S1)(i := rp_exit r)\<rparr>)
       else S)"

datatype first_line = FTimeout | FEof | FBad | FFrame frame

text \<open>What happens while a worker starts: taking the lease, starting the process, writing the
  handshake, the first line of the worker, and what \<^verbatim>\<open>poll()\<close> returns when the wait is over.\<close>

record spawn_outcome =
  sp_lock :: lock_io
  sp_popen :: bool
  sp_write :: write_outcome
  sp_line :: first_line
  sp_exit :: "int option"
  sp_reap :: reap_outcome

definition first_reply :: "pyuni \<Rightarrow> first_line \<Rightarrow> nat \<Rightarrow> Sup \<Rightarrow> Sup" where
  "first_reply U l i S = (case l of
       FFrame f \<Rightarrow> upd_h i (dispatch_outbound U f) S
     | FBad \<Rightarrow> upd_h i bad_line S
     | FEof \<Rightarrow> fst (mark_dead i S)
     | FTimeout \<Rightarrow> S)"

definition spawn :: "pyuni \<Rightarrow> spawn_outcome \<Rightarrow> ppath \<Rightarrow> Sup \<Rightarrow> (sup_error + nat) \<times> Sup" where
  "spawn U sp rt S =
     (let i = s_next S
      in case acquire (sp_lock sp) (Own i) (new_lease rt) (s_locks S) of
           (Inl e, L) \<Rightarrow> (Inl (SupLease e), S\<lparr>s_locks := L\<rparr>)
         | (Inr l, L) \<Rightarrow>
             if \<not> sp_popen sp then (Inl SupPopen, S\<lparr>s_locks := snd (release l L)\<rparr>)
             else (let S1 = S\<lparr>s_locks := L, s_workers := dput rt i (s_workers S), s_next := Suc i,
                              s_handles := (s_handles S)(i := new_handle rt l), s_exit := (s_exit S)(i := None)\<rparr>
                   in case write_frame (sp_write sp) i (HandshakeFrame SCHEMA_VERSION) S1 of
                        (Inl (WorkerDeadError c t), S2) \<Rightarrow> (Inl WorkerProtocolError, forget i S2)
                      | (Inl e, S2) \<Rightarrow> (Inl e, S2)
                      | (Inr _, S2) \<Rightarrow>
                          if sp_line sp = FTimeout then (Inl WorkerProtocolError, reap False (sp_reap sp) i S2)
                          else (let S3 = first_reply U (sp_line sp) i S2;
                                    S4 = S3\<lparr>s_exit := (s_exit S3)(i := sp_exit sp)\<rparr>
                                in if wh_hs_error (s_handles S4 i) \<or> \<not> alive S4 i then (Inl WorkerProtocolError, forget i S4)
                                   else (Inr i, S4))))"

definition ensure_worker :: "pyuni \<Rightarrow> spawn_outcome \<Rightarrow> ppath \<Rightarrow> Sup \<Rightarrow> (sup_error + nat) \<times> Sup" where
  "ensure_worker U sp rt S =
     (if s_closed S then (Inl SupClosed, S)
      else (case get_worker rt S of
          Some i \<Rightarrow> if alive S i then (Inr i, S) else spawn U sp rt (forget i S)
        | None \<Rightarrow> spawn U sp rt S))"

definition restart_worker :: "pyuni \<Rightarrow> spawn_outcome \<Rightarrow> reap_outcome \<Rightarrow> ppath \<Rightarrow> Sup \<Rightarrow> (sup_error + nat) \<times> Sup" where
  "restart_worker U sp r rt S =
     (if s_closed S then (Inl SupClosed, S)
      else spawn U sp rt (case get_worker rt S of Some i \<Rightarrow> reap True r i S | None \<Rightarrow> S))"

definition reap_worker :: "bool \<Rightarrow> reap_outcome \<Rightarrow> ppath \<Rightarrow> Sup \<Rightarrow> Sup" where
  "reap_worker graceful r rt S = (case get_worker rt S of None \<Rightarrow> S | Some i \<Rightarrow> reap graceful r i S)"

fun evict_loop :: "int \<Rightarrow> (nat \<Rightarrow> reap_outcome) \<Rightarrow> nat list \<Rightarrow> Sup \<Rightarrow> ppath list \<times> Sup" where
  "evict_loop tmo r [] S = ([], S)"
| "evict_loop tmo r (i # is) S =
     (if is_evictable tmo S i
      then (let (gone, S') = evict_loop tmo r is (reap True (r i) i S) in (wh_root (s_handles S i) # gone, S'))
      else evict_loop tmo r is S)"

definition evict_idle :: "int \<Rightarrow> (nat \<Rightarrow> reap_outcome) \<Rightarrow> Sup \<Rightarrow> ppath list \<times> Sup" where
  "evict_idle tmo r S = evict_loop tmo r (map snd (s_workers S)) S"

definition shutdown :: "(nat \<Rightarrow> reap_outcome) \<Rightarrow> Sup \<Rightarrow> Sup" where
  "shutdown r S = fold (\<lambda>i. reap True (r i) i) (map snd (s_workers S)) (S\<lparr>s_closed := True\<rparr>)"

definition send :: "pyuni \<Rightarrow> spawn_outcome \<Rightarrow> write_outcome \<Rightarrow> ppath \<Rightarrow> frame \<Rightarrow> Sup \<Rightarrow> (sup_error + unit) \<times> Sup" where
  "send U sp w rt f S =
     (case ensure_worker U sp rt S of
        (Inl e, S1) \<Rightarrow> (Inl e, S1)
      | (Inr i, S1) \<Rightarrow>
          (case write_frame w i f S1 of
             (Inl e, S2) \<Rightarrow> (Inl e, S2)
           | (Inr _, S2) \<Rightarrow> (Inr (), case f of TurnFrame tid x ms c \<Rightarrow> upd_h i (\<lambda>h. h\<lparr>wh_thread := Some tid\<rparr>) S2 | _ \<Rightarrow> S2)))"

definition cancel_frame :: "pystr \<Rightarrow> frame" where
  "cancel_frame tid = GenericFrame Cancel [(u ''thread_id'', JStr tid)]"

definition steer_frame :: "pystr \<Rightarrow> pystr \<Rightarrow> frame" where
  "steer_frame tid x = GenericFrame Steer [(u ''thread_id'', JStr tid), (u ''text'', JStr x)]"

definition verdict_frame :: "pystr \<Rightarrow> bool \<Rightarrow> pystr \<Rightarrow> pystr \<Rightarrow> pystr option \<Rightarrow> frame" where
  "verdict_frame tok ok scope msg tgt = GenericFrame ApprovalVerdict [(u ''token'', JStr tok), (u ''approved'', JBool ok),
     (u ''scope'', JStr scope), (u ''message'', JStr msg), (u ''plan_mode_target'', case tgt of None \<Rightarrow> JNull | Some t \<Rightarrow> JStr t)]"

section \<open>The lease invariant\<close>

text \<open>A root's lease belongs to this process exactly while a worker of the dictionary has it.\<close>

definition tracked_ok :: "Sup \<Rightarrow> ppath \<Rightarrow> nat \<Rightarrow> bool" where
  "tracked_ok S rt i \<longleftrightarrow> i < s_next S \<and> wh_root (s_handles S i) = rt
     \<and> wh_lease (s_handles S i) = \<lparr>rl_root = rt, rl_file = Some (Own i)\<rparr> \<and> lease_owner (s_locks S) rt = Some (Own i)"

definition sup_ok :: "Sup \<Rightarrow> bool" where
  "sup_ok S \<longleftrightarrow> dict_ok (s_workers S) \<and> (\<forall>rt i. get_worker rt S = Some i \<longrightarrow> tracked_ok S rt i)
     \<and> (\<forall>p i. s_locks S p = Some (Own i) \<longrightarrow> (\<exists>rt. p = lock_path_for rt \<and> get_worker rt S = Some i))"

lemma sup_okD:
  assumes "sup_ok S" "get_worker rt S = Some i"
  shows "i < s_next S" "wh_root (s_handles S i) = rt" "wh_lease (s_handles S i) = \<lparr>rl_root = rt, rl_file = Some (Own i)\<rparr>"
    "lease_owner (s_locks S) rt = Some (Own i)"
  using assms by (auto simp: sup_ok_def tracked_ok_def)

lemma sup_ok_fresh: "sup_ok S \<Longrightarrow> s_locks S p \<noteq> Some (Own (s_next S))"
  unfolding sup_ok_def tracked_ok_def by blast

text \<open>Everything but the dictionary, the locks, the counter and the roots and leases of handles is
  irrelevant.\<close>

lemma sup_ok_cong:
  assumes "sup_ok S" "s_workers S' = s_workers S" "s_next S' = s_next S" "s_locks S' = s_locks S"
    and "\<And>i. wh_root (s_handles S' i) = wh_root (s_handles S i)" "\<And>i. wh_lease (s_handles S' i) = wh_lease (s_handles S i)"
  shows "sup_ok S'"
  using assms by (simp add: sup_ok_def tracked_ok_def get_worker_def)

definition frame_like :: "(WorkerHandle \<Rightarrow> WorkerHandle) \<Rightarrow> bool" where
  "frame_like f \<longleftrightarrow> (\<forall>h. wh_root (f h) = wh_root h \<and> wh_lease (f h) = wh_lease h)"

lemma sup_ok_upd_h [intro]: "sup_ok S \<Longrightarrow> frame_like f \<Longrightarrow> sup_ok (upd_h i f S)"
  by (rule sup_ok_cong) (auto simp: upd_h_def frame_like_def)

lemma frame_like_dispatch: "frame_like (dispatch_outbound U f)"
  unfolding frame_like_def
proof (intro allI, cases f)
  fix h k fs
  assume "f = GenericFrame k fs"
  then show "wh_root (dispatch_outbound U f h) = wh_root h \<and> wh_lease (dispatch_outbound U f h) = wh_lease h"
    by (cases k) (auto simp: dispatch_outbound_def on_error_frame_def on_event_frame_def on_approval_ask_def Let_def
        split: option.split json.split)
qed (simp_all add: dispatch_outbound_def)

lemma frame_like_bad_line: "frame_like bad_line"
  by (simp add: frame_like_def bad_line_def)

lemma sup_ok_mark_dead: "sup_ok S \<Longrightarrow> sup_ok (fst (mark_dead i S))"
  by (auto simp: mark_dead_def Let_def frame_like_def)

lemma sup_ok_write:
  assumes "write_frame w i f S = (r, S')" "sup_ok S"
  shows "sup_ok S'"
proof -
  have "sup_ok (S\<lparr>s_wrote := x\<rparr>)" for x by (rule sup_ok_cong[OF assms(2)]) simp_all
  then show ?thesis
    using assms by (auto simp: write_frame_def Let_def frame_like_def split: if_splits write_outcome.splits)
qed

lemma sup_ok_exit: "sup_ok S \<Longrightarrow> sup_ok (S\<lparr>s_exit := x\<rparr>)"
  by (rule sup_ok_cong) simp_all

lemma write_keeps [simp]: "s_workers (snd (write_frame w i f S)) = s_workers S"
  "s_next (snd (write_frame w i f S)) = s_next S"
  by (auto simp: write_frame_def Let_def upd_h_def split: write_outcome.split)

lemma sup_ok_forget:
  assumes "sup_ok S" "get_worker rt S = Some i"
  shows "sup_ok (forget i S)" "get_worker rt' (forget i S) = (if rt' = rt then None else get_worker rt' S)"
    "lease_owner (s_locks (forget i S)) rt' = (if rt' = rt then None else lease_owner (s_locks S) rt')"
proof -
  note i = sup_okD[OF assms]
  have d: "dict_ok (s_workers S)" using assms(1) by (simp add: sup_ok_def)
  have w: "s_workers (forget i S) = dpop rt (s_workers S)" "s_locks (forget i S) = lease_give (Own i) rt (s_locks S)"
    "s_next (forget i S) = s_next S"
    by (simp_all add: forget_def Let_def upd_h_def i lease_give_def)
  show g: "get_worker rt' (forget i S) = (if rt' = rt then None else get_worker rt' S)" for rt'
    by (simp add: get_worker_def w dget_dpop[OF d])
  show l: "lease_owner (s_locks (forget i S)) rt' = (if rt' = rt then None else lease_owner (s_locks S) rt')" for rt'
    using i(4) by (simp add: w lease.give_owner)
  have h: "s_handles (forget i S) j = s_handles S j" if "j \<noteq> i" for j
    using that by (simp add: forget_def Let_def upd_h_def)
  have "s_locks (forget i S) = (s_locks S)(lock_path_for rt := None)"
    using i(4) by (simp add: w(2) lease_give_def release_def unlock_def lease_owner_def)
  moreover have "rt' = rt" if "get_worker rt' S = Some i" for rt'
    using sup_okD(2)[OF assms(1) that] i(2) by simp
  ultimately show "sup_ok (forget i S)"
    unfolding sup_ok_def tracked_ok_def
  proof (intro conjI allI impI)
    show "dict_ok (s_workers (forget i S))" using d by (simp add: w dict_ok_dpop)
    fix r j
    assume "get_worker r (forget i S) = Some j"
    then have j: "get_worker r S = Some j" "r \<noteq> rt" "j \<noteq> i" using g[of r] sup_okD(2)[OF assms(1)] i(2) by (auto split: if_splits)
    with sup_okD[OF assms(1) j(1)] h[of j] l[of r] w(3)
    show "j < s_next (forget i S)" "wh_root (s_handles (forget i S) j) = r"
      "wh_lease (s_handles (forget i S) j) = \<lparr>rl_root = r, rl_file = Some (Own j)\<rparr>"
      "lease_owner (s_locks (forget i S)) r = Some (Own j)" by simp_all
  next
    fix p j
    assume *: "s_locks (forget i S) = (s_locks S)(lock_path_for rt := None)" "s_locks (forget i S) p = Some (Own j)"
    then have "s_locks S p = Some (Own j)" "p \<noteq> lock_path_for rt" by (auto split: if_splits)
    with assms(1) g show "\<exists>r. p = lock_path_for r \<and> get_worker r (forget i S) = Some j"
      unfolding sup_ok_def by (metis (no_types, lifting))
  qed
qed

lemma sup_ok_reap:
  assumes "sup_ok S" "get_worker rt S = Some i"
  shows "sup_ok (reap g r i S)" "get_worker rt' (reap g r i S) = (if rt' = rt then None else get_worker rt' S)"
proof -
  let ?S = "if alive S i then (let S1 = (if g then snd (write_frame (rp_write r) i ShutdownFrame S) else S)
             in S1\<lparr>s_exit := (s_exit S1)(i := rp_exit r)\<rparr>) else S"
  have ok: "sup_ok ?S"
    using assms(1) sup_ok_write[of "rp_write r" i ShutdownFrame S, OF prod.collapse[symmetric]]
    by (auto simp: Let_def intro: sup_ok_exit)
  have g: "get_worker x ?S = get_worker x S" for x by (simp add: get_worker_def Let_def)
  from sup_ok_forget[OF ok, of rt i] assms(2) g
  show "sup_ok (reap g r i S)" "get_worker rt' (reap g r i S) = (if rt' = rt then None else get_worker rt' S)"
    by (simp_all add: reap_def)
qed

lemma sup_ok_register:
  assumes "sup_ok S" "acquire io (Own (s_next S)) (new_lease rt) (s_locks S) = (Inr l, L)"
  shows "sup_ok (S\<lparr>s_locks := L, s_workers := dput rt (s_next S) (s_workers S), s_next := Suc (s_next S),
      s_handles := (s_handles S)(s_next S := new_handle rt l), s_exit := ex\<rparr>)" (is "sup_ok ?S")
proof -
  let ?i = "s_next S"
  from assms(2) have l: "l = \<lparr>rl_root = rt, rl_file = Some (Own ?i)\<rparr>" and L: "L = (s_locks S)(lock_path_for rt := Some (Own ?i))"
    and free: "s_locks S (lock_path_for rt) = None"
    using sup_ok_fresh[OF assms(1)] by (auto elim!: acquire_cases)
  have g: "get_worker r ?S = (if r = rt then Some ?i else get_worker r S)" for r
    by (simp add: get_worker_def dget_dput)
  have "tracked_ok ?S r j" if "get_worker r ?S = Some j" for r j
  proof (cases "r = rt")
    case True
    then show ?thesis using that g by (simp add: tracked_ok_def new_handle_def l L lease_owner_def)
  next
    case False
    with that g have "get_worker r S = Some j" by simp
    from sup_okD[OF assms(1) this] False show ?thesis by (simp add: tracked_ok_def L lease_owner_def)
  qed
  moreover have "\<exists>r. p = lock_path_for r \<and> get_worker r ?S = Some j" if p: "s_locks ?S p = Some (Own j)" for p j
  proof (cases "p = lock_path_for rt")
    case False
    with p have "s_locks S p = Some (Own j)" by (simp add: L)
    with assms(1) obtain r where "p = lock_path_for r" "get_worker r S = Some j" unfolding sup_ok_def by blast
    with False g show ?thesis by auto
  qed (use p g L in auto)
  moreover have "dict_ok (s_workers ?S)" using assms(1) by (simp add: sup_ok_def dict_ok_dput)
  ultimately show ?thesis by (simp add: sup_ok_def)
qed

lemma sup_ok_locks_back:
  assumes "sup_ok S" "acquire io (Own (s_next S)) (new_lease rt) (s_locks S) = (Inr l, L)"
  shows "snd (release l L) = s_locks S"
  using assms(2) sup_ok_fresh[OF assms(1)] by (auto elim!: acquire_cases simp: release_def unlock_def)

lemma acquire_Inl: "acquire io h l L = (Inl e, L') \<Longrightarrow> L' = L"
  by (auto simp: acquire_def split: if_splits sum.splits)

lemma first_reply_ok: "sup_ok S \<Longrightarrow> sup_ok (first_reply U l i S)"
  by (auto simp: first_reply_def frame_like_dispatch frame_like_bad_line sup_ok_mark_dead split: first_line.split)

lemma first_reply_workers: "s_workers (first_reply U l i S) = s_workers S"
  by (simp add: first_reply_def mark_dead_def upd_h_def Let_def split: first_line.split)

lemma sup_ok_spawn:
  assumes "sup_ok S" "spawn U sp rt S = (r, S')"
  shows "sup_ok S'" "r = Inr i \<Longrightarrow> get_worker rt S' = Some i \<and> alive S' i"
proof -
  let ?i = "s_next S"
  obtain q L where a: "acquire (sp_lock sp) (Own ?i) (new_lease rt) (s_locks S) = (q, L)" by force
  have "sup_ok S' \<and> (r = Inr i \<longrightarrow> get_worker rt S' = Some i \<and> alive S' i)"
  proof (cases q)
    case (Inl e)
    then show ?thesis using assms a acquire_Inl[of "sp_lock sp" "Own ?i" "new_lease rt" "s_locks S" e L]
      by (auto simp: spawn_def Let_def)
  next
    case (Inr l)
    define S1 where "S1 = S\<lparr>s_locks := L, s_workers := dput rt ?i (s_workers S), s_next := Suc ?i,
        s_handles := (s_handles S)(?i := new_handle rt l), s_exit := (s_exit S)(?i := None)\<rparr>"
    have ok1: "sup_ok S1" unfolding S1_def by (rule sup_ok_register) (use assms(1) a Inr in auto)
    have g1: "get_worker rt S1 = Some ?i" by (simp add: S1_def get_worker_def dget_dput)
    obtain q2 S2 where w: "write_frame (sp_write sp) ?i (HandshakeFrame SCHEMA_VERSION) S1 = (q2, S2)" by force
    have ok2: "sup_ok S2" by (rule sup_ok_write[OF w ok1])
    have g2: "get_worker rt S2 = Some ?i"
      using g1 write_keeps(1)[of "sp_write sp" ?i "HandshakeFrame SCHEMA_VERSION" S1] w by (simp add: get_worker_def)
    define S3 where "S3 = first_reply U (sp_line sp) ?i S2"
    define S4 where "S4 = S3\<lparr>s_exit := (s_exit S3)(?i := sp_exit sp)\<rparr>"
    have ok4: "sup_ok S4" using first_reply_ok[OF ok2] by (simp add: S4_def S3_def sup_ok_exit)
    have g4: "get_worker rt S4 = Some ?i" using g2 first_reply_workers[of U "sp_line sp" ?i S2]
      by (simp add: S4_def S3_def get_worker_def)
    have "spawn U sp rt S = (if \<not> sp_popen sp then (Inl SupPopen, S\<lparr>s_locks := snd (release l L)\<rparr>)
        else (case q2 of Inl (WorkerDeadError c t) \<Rightarrow> (Inl WorkerProtocolError, forget ?i S2)
           | Inl e \<Rightarrow> (Inl e, S2)
           | Inr _ \<Rightarrow> if sp_line sp = FTimeout then (Inl WorkerProtocolError, reap False (sp_reap sp) ?i S2)
               else if wh_hs_error (s_handles S4 ?i) \<or> \<not> alive S4 ?i then (Inl WorkerProtocolError, forget ?i S4) else (Inr ?i, S4)))"
      unfolding spawn_def Let_def a Inr S4_def S3_def using w[unfolded S1_def] by (simp split: sum.split sup_error.split)
    with assms ok2 ok4 g2 g4 sup_ok_forget(1)[OF ok2 g2] sup_ok_forget(1)[OF ok4 g4] sup_ok_reap(1)[OF ok2 g2, of False "sp_reap sp"]
      sup_ok_locks_back[OF assms(1)] a Inr
    show ?thesis by (auto split: if_splits sum.splits sup_error.splits)
  qed
  then show "sup_ok S'" "r = Inr i \<Longrightarrow> get_worker rt S' = Some i \<and> alive S' i" by blast+
qed

lemma sup_ok_ensure:
  assumes "sup_ok S" "ensure_worker U sp rt S = (r, S')"
  shows "sup_ok S'" "r = Inr i \<Longrightarrow> get_worker rt S' = Some i \<and> alive S' i"
  using assms(2) assms(1) sup_ok_forget(1)[OF assms(1), of rt] sup_ok_spawn(1)[of _ U sp rt] sup_ok_spawn(2)[of _ U sp rt _ _ i]
  by (auto simp: ensure_worker_def split: if_splits option.splits)

lemma sup_ok_restart: "sup_ok S \<Longrightarrow> restart_worker U sp rp rt S = (r, S') \<Longrightarrow> sup_ok S'"
  using sup_ok_reap(1)[of S rt _ True rp] sup_ok_spawn(1)[of _ U sp rt]
  by (auto simp: restart_worker_def split: if_splits option.splits)

lemma sup_ok_reap_worker: "sup_ok S \<Longrightarrow> sup_ok (reap_worker g r rt S)"
  using sup_ok_reap(1)[of S rt _ g r] by (auto simp: reap_worker_def split: option.split)

lemma sup_ok_send: "sup_ok S \<Longrightarrow> send U sp w rt f S = (r, S') \<Longrightarrow> sup_ok S'"
  using sup_ok_ensure(1)[of S U sp rt] sup_ok_write[of w _ f]
  by (auto simp: send_def frame_like_def split: prod.splits sum.splits frame.splits)

section \<open>Eviction and shutdown\<close>

lemma reap_other:
  assumes "j \<noteq> i"
  shows "s_handles (reap g r i S) j = s_handles S j" "s_exit (reap g r i S) j = s_exit S j"
  using assms by (auto simp: reap_def forget_def write_frame_def upd_h_def Let_def split: write_outcome.split)

lemma evictable_other: "j \<noteq> i \<Longrightarrow> is_evictable tmo (reap g r i S) j = is_evictable tmo S j"
  by (simp add: is_evictable_def alive_def reap_other Let_def)

definition tracked_list :: "nat list \<Rightarrow> Sup \<Rightarrow> bool" where
  "tracked_list xs S \<longleftrightarrow> distinct xs \<and> (\<forall>i\<in>set xs. get_worker (wh_root (s_handles S i)) S = Some i)"

lemma tracked_list_workers: "sup_ok S \<Longrightarrow> tracked_list (map snd (s_workers S)) S"
proof -
  assume ok: "sup_ok S"
  then have d: "dict_ok (s_workers S)" by (simp add: sup_ok_def)
  have w: "get_worker k S = Some i" "wh_root (s_handles S i) = k" if "(k, i) \<in> set (s_workers S)" for k i
    using that d sup_okD(2)[OF ok, of k i] by (simp_all add: get_worker_def dget_in)
  have "inj_on snd (set (s_workers S))"
  proof (rule inj_onI)
    fix x y assume "x \<in> set (s_workers S)" "y \<in> set (s_workers S)" "snd x = snd y"
    then show "x = y" using w(2)[of "fst x" "snd x"] w(2)[of "fst y" "snd y"] by (metis prod.collapse)
  qed
  moreover have "distinct (s_workers S)" using d by (simp add: dict_ok_def distinct_map)
  ultimately show ?thesis using w by (auto simp: tracked_list_def distinct_map)
qed

lemma tracked_list_reap:
  assumes "sup_ok S" "tracked_list (i # xs) S"
  shows "sup_ok (reap g r i S)" "tracked_list xs (reap g r i S)"
    "get_worker rt (reap g r i S) = (if rt = wh_root (s_handles S i) then None else get_worker rt S)"
proof -
  from assms(2) have i: "get_worker (wh_root (s_handles S i)) S = Some i" "i \<notin> set xs" by (auto simp: tracked_list_def)
  note r = sup_ok_reap[OF assms(1) i(1), where g = g and r = r]
  show "sup_ok (reap g r i S)" "get_worker rt (reap g r i S) = (if rt = wh_root (s_handles S i) then None else get_worker rt S)"
    by (rule r)+
  show "tracked_list xs (reap g r i S)"
    unfolding tracked_list_def
  proof (intro conjI ballI)
    fix j assume j: "j \<in> set xs"
    then have "get_worker (wh_root (s_handles S j)) S = Some j" "j \<noteq> i" using assms(2) i(2) by (auto simp: tracked_list_def)
    then show "get_worker (wh_root (s_handles (reap g r i S) j)) (reap g r i S) = Some j"
      using i(1) by (auto simp: r(2) reap_other)
  qed (use assms(2) in \<open>simp add: tracked_list_def\<close>)
qed

lemma evict_loop_props:
  assumes "evict_loop tmo r xs S = (gone, S')" "sup_ok S" "tracked_list xs S"
  shows "sup_ok S' \<and> set gone = (\<lambda>i. wh_root (s_handles S i)) ` {i \<in> set xs. is_evictable tmo S i}
     \<and> (\<forall>rt. get_worker rt S' = (if rt \<in> set gone then None else get_worker rt S))"
  using assms
proof (induction xs arbitrary: S gone)
  case (Cons i js)
  show ?case
  proof (cases "is_evictable tmo S i")
    case True
    obtain rs where e: "evict_loop tmo r js (reap True (r i) i S) = (rs, S')" "gone = wh_root (s_handles S i) # rs"
      using Cons.prems(1) True by (auto split: prod.splits)
    have ni: "j \<noteq> i" if "j \<in> set js" for j using Cons.prems(3) that by (auto simp: tracked_list_def)
    note t = tracked_list_reap[OF Cons.prems(2,3), where g = True and r = "r i"]
    have eq: "{j \<in> set js. is_evictable tmo (reap True (r i) i S) j} = {j \<in> set js. is_evictable tmo S j}"
      using ni evictable_other by blast
    have im: "(\<lambda>j. wh_root (s_handles (reap True (r i) i S) j)) ` X = (\<lambda>j. wh_root (s_handles S j)) ` X" if "X \<subseteq> set js" for X
      using that ni by (intro image_cong) (auto simp: reap_other)
    have st: "{a. (a = i \<or> a \<in> set js) \<and> is_evictable tmo S a} = insert i {j \<in> set js. is_evictable tmo S j}" using True by auto
    from Cons.IH[OF e(1) t(1,2)] show ?thesis
      unfolding e(2) eq im[OF Collect_restrict] by (auto simp: t(3) st)
  next
    case False
    then have "{a. (a = i \<or> a \<in> set js) \<and> is_evictable tmo S a} = {j \<in> set js. is_evictable tmo S j}" by auto
    then show ?thesis using Cons False by (auto simp: tracked_list_def)
  qed
qed simp

lemma sup_ok_evict: "sup_ok S \<Longrightarrow> evict_idle tmo r S = (gone, S') \<Longrightarrow> sup_ok S'"
  using evict_loop_props[of tmo r "map snd (s_workers S)" S] tracked_list_workers by (auto simp: evict_idle_def)

lemma fold_reap:
  assumes "sup_ok S" "tracked_list xs S"
  shows "sup_ok (fold (\<lambda>i. reap True (r i) i) xs S) \<and> (\<forall>rt. get_worker rt (fold (\<lambda>i. reap True (r i) i) xs S)
      = (if rt \<in> (\<lambda>i. wh_root (s_handles S i)) ` set xs then None else get_worker rt S))"
  using assms
proof (induction xs arbitrary: S)
  case (Cons i js)
  note t = tracked_list_reap[OF Cons.prems, where g = True and r = "r i"]
  have "wh_root (s_handles (reap True (r i) i S) j) = wh_root (s_handles S j)" if "j \<in> set js" for j
    using Cons.prems(2) that by (cases "j = i") (auto simp: tracked_list_def reap_other)
  then have "(\<lambda>j. wh_root (s_handles (reap True (r i) i S) j)) ` set js = (\<lambda>j. wh_root (s_handles S j)) ` set js" by simp
  then show ?case using Cons.IH[OF t(1,2)] by (auto simp: t(3))
qed simp

lemma sup_ok_closed: "sup_ok S \<Longrightarrow> sup_ok (S\<lparr>s_closed := b\<rparr>)"
  by (rule sup_ok_cong) simp_all

lemma shutdown_props:
  assumes "sup_ok S"
  shows "sup_ok (shutdown r S)" "get_worker rt (shutdown r S) = None" "s_locks (shutdown r S) p \<noteq> Some (Own i)"
proof -
  have t: "tracked_list (map snd (s_workers S)) (S\<lparr>s_closed := True\<rparr>)"
    using tracked_list_workers[OF assms] by (simp add: tracked_list_def get_worker_def)
  note f = fold_reap[OF sup_ok_closed[OF assms] t, where r = r]
  then show ok: "sup_ok (shutdown r S)" by (simp add: shutdown_def)
  show g: "get_worker rt (shutdown r S) = None" for rt
  proof (cases "get_worker rt S")
    case (Some i)
    then have "(rt, i) \<in> set (s_workers S)" "wh_root (s_handles S i) = rt"
      using sup_okD(2)[OF assms] by (auto simp: get_worker_def dget_Some_in)
    then have "rt \<in> (\<lambda>i. wh_root (s_handles S i)) ` set (map snd (s_workers S))" by force
    then show ?thesis using f by (simp add: shutdown_def)
  next
    case None
    then show ?thesis using f by (simp add: shutdown_def get_worker_def)
  qed
  show "s_locks (shutdown r S) p \<noteq> Some (Own i)" using ok g by (auto simp: sup_ok_def)
qed

text \<open>
  Eviction stops exactly the workers that are alive, report no running turn and no background
  job, have no turn dispatched to them and have been idle for the timeout; every other root keeps its
  worker. A pending approval does not keep a worker alive.
\<close>

theorem evict_exactly_idle:
  assumes "sup_ok S" "evict_idle tmo r S = (gone, S')"
  shows "(rt \<in> set gone \<longleftrightarrow> (\<exists>i st. get_worker rt S = Some i \<and> alive S i \<and> wh_thread (s_handles S i) = None
           \<and> wh_status (s_handles S i) = Some st \<and> \<not> st_turn st \<and> st_jobs st \<le> 0 \<and> tmo \<le> st_idle st))
     \<and> get_worker rt S' = (if rt \<in> set gone then None else get_worker rt S)"
proof -
  note e = evict_loop_props[OF assms(2)[unfolded evict_idle_def] assms(1) tracked_list_workers[OF assms(1)]]
  have w: "i \<in> set (map snd (s_workers S)) \<and> wh_root (s_handles S i) = rt \<longleftrightarrow> get_worker rt S = Some i" for i
  proof
    assume "i \<in> set (map snd (s_workers S)) \<and> wh_root (s_handles S i) = rt"
    then show "get_worker rt S = Some i" using tracked_list_workers[OF assms(1)] by (auto simp: tracked_list_def)
  next
    assume "get_worker rt S = Some i"
    then show "i \<in> set (map snd (s_workers S)) \<and> wh_root (s_handles S i) = rt"
      using sup_okD(2)[OF assms(1)] dget_Some_in[of "s_workers S" rt i] by (force simp: get_worker_def)
  qed
  have "rt \<in> set gone \<longleftrightarrow> (\<exists>i. (i \<in> set (map snd (s_workers S)) \<and> wh_root (s_handles S i) = rt) \<and> is_evictable tmo S i)"
    using e by (auto simp del: set_map)
  also have "\<dots> \<longleftrightarrow> (\<exists>i. get_worker rt S = Some i \<and> is_evictable tmo S i)" by (simp only: w)
  finally have "rt \<in> set gone \<longleftrightarrow> (\<exists>i. get_worker rt S = Some i \<and> is_evictable tmo S i)" .
  moreover have "is_evictable tmo S i \<longleftrightarrow> alive S i \<and> wh_thread (s_handles S i) = None
      \<and> (\<exists>st. wh_status (s_handles S i) = Some st \<and> \<not> st_turn st \<and> st_jobs st \<le> 0 \<and> tmo \<le> st_idle st)" for i
    by (auto simp: is_evictable_def turn_in_flight_def Let_def split: option.splits)
  moreover have "get_worker rt S' = (if rt \<in> set gone then None else get_worker rt S)" using e by blast
  ultimately show ?thesis by blast
qed

end
