(* ===== verification/Router.thy ===== *)
theory Router
  imports Supervisor Delivery
begin

text \<open>
  Session routing, \<^verbatim>\<open>src/src/jarn/gateway/sessions.py\<close>: which root and thread a chat talks to, the queues of
  messages behind a running turn, and what happens when a worker reports or dies. A router method is
  one step; a reader thread takes one step to book a frame in its handle and another to run the
  router's hook for it. \<open>genv\<close> holds what a step does not decide itself: the outcomes of the operating
  system and a freshly minted thread id. Calls of the transport's hooks are recorded in \<open>r_effects\<close>.
\<close>

section \<open>State\<close>

record QueuedTurn =
  qt_chat :: int
  qt_thread :: pystr
  qt_text :: pystr
  qt_media :: "MediaRef list"

record ChatSessionState =
  cs_root :: ppath
  cs_threads :: "ppath \<Rightarrow> pystr option"

datatype hook_call =
    OnNotice int pystr
  | OnEvent int ppath frame
  | OnDeath int ppath "int option" "pystr option"

record Router =
  r_sup :: Sup
  r_personal :: ppath
  r_repos :: "GatewayRepo list"
  r_chats :: "int \<Rightarrow> ChatSessionState option"
  r_queues :: "ppath \<Rightarrow> QueuedTurn list option"
  r_busy :: "ppath set"
  r_owner :: "ppath \<Rightarrow> int option"
  r_mode :: pystr
  r_delivery :: json_file
  r_approvals :: json_file
  r_effects :: "hook_call list"

record genv =
  e_uni :: pyuni
  e_host :: host
  e_spawn :: spawn_outcome
  e_write :: write_outcome
  e_tid :: pystr

datatype gw_error = GRoot root_error | GSup sup_error | RootBusyLeaseError | ApprovalResumeBusyError

definition emit :: "hook_call \<Rightarrow> Router \<Rightarrow> Router" where
  "emit c g = g\<lparr>r_effects := r_effects g @ [c]\<rparr>"

definition queue_of :: "Router \<Rightarrow> ppath \<Rightarrow> QueuedTurn list" where
  "queue_of g rt = (case r_queues g rt of None \<Rightarrow> [] | Some q \<Rightarrow> q)"

text \<open>A queue that becomes empty is taken out of the dictionary.\<close>

definition set_queue :: "ppath \<Rightarrow> QueuedTurn list \<Rightarrow> Router \<Rightarrow> Router" where
  "set_queue rt q g = g\<lparr>r_queues := (r_queues g)(rt := (if q = [] then None else Some q))\<rparr>"

section \<open>Notices\<close>

definition opt_int_repr :: "int option \<Rightarrow> pystr" where
  "opt_int_repr c = (case c of None \<Rightarrow> u ''None'' | Some n \<Rightarrow> str_int n)"

definition STOP_IDLE_NOTICE :: pystr where
  "STOP_IDLE_NOTICE = u ''Nothing to stop '' @ [8212] @ u '' no turn in flight.''"

definition STOP_ACCEPTED_NOTICE :: pystr where
  "STOP_ACCEPTED_NOTICE = u ''Stopping the in-flight turn'' @ [8230]"

definition lease_text :: "ppath \<Rightarrow> pystr" where
  "lease_text rt = u ''project root lease held: '' @ as_posix rt @ u '' ('' @ as_posix (lock_path_for rt) @ u '')''"

definition dead_text :: "ppath \<Rightarrow> int option \<Rightarrow> pystr option \<Rightarrow> pystr" where
  "dead_text rt c t = u ''gateway worker died for '' @ as_posix rt @ u '' (exit='' @ opt_int_repr c
     @ (case t of None \<Rightarrow> [] | Some x \<Rightarrow> u '' thread_id='' @ x) @ u '')''"

definition busy_lease_text :: "ppath \<Rightarrow> pystr" where
  "busy_lease_text rt = u ''project root is in use by another jarn process: '' @ as_posix rt
     @ u ''. Finish or quit that session, then retry.''"

definition dispatch_failed_text :: "ppath \<Rightarrow> int option \<Rightarrow> pystr" where
  "dispatch_failed_text rt c = u ''Worker for '' @ as_posix rt @ u '' failed (exit='' @ opt_int_repr c
     @ u ''). The turn was not replayed '' @ [8212] @ u '' please resend if needed.''"

definition death_text :: "ppath \<Rightarrow> int option \<Rightarrow> pystr" where
  "death_text rt c = u ''Worker for '' @ as_posix rt @ u '' died (exit='' @ opt_int_repr c
     @ u ''). In-flight turn was not replayed '' @ [8212] @ u '' send again if needed.''"

definition busy_ack :: "pystr \<Rightarrow> pystr \<Rightarrow> frame" where
  "busy_ack tid md = GenericFrame EventF [(u ''thread_id'', JStr tid), (u ''kind'', JStr (u ''busy_ack'')),
     (u ''text'', JStr (u ''Working'' @ [8230])), (u ''data'', JObj [(u ''mode'', JStr md)]), (u ''progress'', JNull)]"

section \<open>Chats and threads\<close>

definition chat_state :: "Router \<Rightarrow> int \<Rightarrow> ChatSessionState" where
  "chat_state g chat = (case r_chats g chat of None \<Rightarrow> \<lparr>cs_root = r_personal g, cs_threads = (\<lambda>_. None)\<rparr> | Some s \<Rightarrow> s)"

definition put_chat :: "int \<Rightarrow> ChatSessionState \<Rightarrow> Router \<Rightarrow> Router" where
  "put_chat chat s g = g\<lparr>r_chats := (r_chats g)(chat := Some s)\<rparr>"

definition set_thread :: "ppath \<Rightarrow> pystr \<Rightarrow> ChatSessionState \<Rightarrow> ChatSessionState" where
  "set_thread rt tid s = s\<lparr>cs_threads := (cs_threads s)(rt := Some tid)\<rparr>"

definition thread_id_for :: "genv \<Rightarrow> int \<Rightarrow> ppath \<Rightarrow> Router \<Rightarrow> pystr \<times> Router" where
  "thread_id_for E chat rt g =
     (let s = chat_state g chat
      in case cs_threads s rt of
           Some tid \<Rightarrow> (tid, put_chat chat s g)
         | None \<Rightarrow> (e_tid E, put_chat chat (set_thread rt (e_tid E) s) g))"

definition router_is_busy :: "ppath \<Rightarrow> Router \<Rightarrow> bool" where
  "router_is_busy rt g \<longleftrightarrow> rt \<in> r_busy g
     \<or> (case get_worker rt (r_sup g) of None \<Rightarrow> False | Some i \<Rightarrow> turn_in_flight (s_handles (r_sup g) i))"

definition cmd_repo :: "genv \<Rightarrow> int \<Rightarrow> pystr option \<Rightarrow> Router \<Rightarrow> (gw_error + ppath) \<times> Router" where
  "cmd_repo E chat tgt g =
     (case resolve_repo (e_uni E) (e_host E) (r_personal g) (r_repos g) tgt of
        Inl e \<Rightarrow> (Inl (GRoot e), g)
      | Inr rt \<Rightarrow>
          (let s = (chat_state g chat)\<lparr>cs_root := rt\<rparr>
           in (Inr rt, put_chat chat (case cs_threads s rt of Some _ \<Rightarrow> s | None \<Rightarrow> set_thread rt (e_tid E) s) g)))"

definition cmd_new :: "genv \<Rightarrow> int \<Rightarrow> Router \<Rightarrow> pystr \<times> Router" where
  "cmd_new E chat g = (let s = chat_state g chat in (e_tid E, put_chat chat (set_thread (cs_root s) (e_tid E) s) g))"

definition bind_thread :: "int \<Rightarrow> pystr \<Rightarrow> ppath option \<Rightarrow> Router \<Rightarrow> pystr \<times> Router" where
  "bind_thread chat tid rt g =
     (let s = chat_state g chat
      in (tid, put_chat chat (set_thread (case rt of None \<Rightarrow> cs_root s | Some p \<Rightarrow> p) tid s) g))"

section \<open>Turns\<close>

definition drop_busy :: "ppath \<Rightarrow> Router \<Rightarrow> Router" where
  "drop_busy rt g = g\<lparr>r_busy := r_busy g - {rt}\<rparr>"

definition dispatch :: "genv \<Rightarrow> ppath \<Rightarrow> int \<Rightarrow> pystr \<Rightarrow> pystr \<Rightarrow> MediaRef list \<Rightarrow> Router \<Rightarrow> (gw_error + unit) \<times> Router" where
  "dispatch E rt chat tid x ms g =
     (let g1 = g\<lparr>r_delivery := snd (set_active_delivery (e_host E) chat (as_posix rt) (Some tid) (r_delivery g))\<rparr>
      in case send (e_uni E) (e_spawn E) (e_write E) rt (TurnFrame tid x ms (Some chat)) (r_sup g1) of
           (Inr _, S) \<Rightarrow> (Inr (), g1\<lparr>r_sup := S\<rparr>)
         | (Inl e, S) \<Rightarrow>
             (let g2 = g1\<lparr>r_sup := S\<rparr>
              in case e of
                   SupLease RootLeaseHeldError \<Rightarrow> (Inl RootBusyLeaseError, emit (OnNotice chat (busy_lease_text rt)) g2)
                 | WorkerDeadError c t \<Rightarrow>
                     (Inl (GSup e), emit (OnDeath chat rt c t) (emit (OnNotice chat (dispatch_failed_text rt c)) g2))
                 | _ \<Rightarrow> (Inl (GSup e), g2)))"

text \<open>The end of \<^verbatim>\<open>submit_turn\<close> and \<^verbatim>\<open>drain_queue\<close>: a dispatch that fails gives the root free again.\<close>

definition dispatch_claimed :: "genv \<Rightarrow> ppath \<Rightarrow> int \<Rightarrow> pystr \<Rightarrow> pystr \<Rightarrow> MediaRef list \<Rightarrow> Router \<Rightarrow> (gw_error + unit) \<times> Router" where
  "dispatch_claimed E rt chat tid x ms g =
     (case dispatch E rt chat tid x ms (g\<lparr>r_busy := insert rt (r_busy g), r_owner := (r_owner g)(rt := Some chat)\<rparr>) of
        (Inr _, g1) \<Rightarrow> (Inr (), g1)
      | (Inl e, g1) \<Rightarrow> (Inl e, drop_busy rt g1))"

definition BUSY_INPUT_MODES :: "pystr list" where
  "BUSY_INPUT_MODES = [u ''steer'', u ''queue'']"

definition BUSY_INPUT_DEFAULT :: pystr where "BUSY_INPUT_DEFAULT = u ''steer''"

definition effective_mode :: "pystr option \<Rightarrow> Router \<Rightarrow> pystr" where
  "effective_mode busy_mode g =
     (let md = (case busy_mode of Some m \<Rightarrow> or_msg m (r_mode g) | None \<Rightarrow> r_mode g)
      in if md \<in> set BUSY_INPUT_MODES then md else BUSY_INPUT_DEFAULT)"

definition submit_root :: "genv \<Rightarrow> int \<Rightarrow> pystr option \<Rightarrow> Router \<Rightarrow> ppath option" where
  "submit_root E chat rt g = (case rt of None \<Rightarrow> Some (cs_root (chat_state g chat)) | Some s \<Rightarrow> full_resolve (e_host E) (parse_path s))"

definition submit_turn :: "genv \<Rightarrow> int \<Rightarrow> pystr \<Rightarrow> MediaRef list \<Rightarrow> pystr option \<Rightarrow> pystr option \<Rightarrow> Router
    \<Rightarrow> (gw_error + pystr) \<times> Router" where
  "submit_turn E chat x ms rt busy_mode g0 =
     (case submit_root E chat rt g0 of
        None \<Rightarrow> (Inl (GRoot RootPathError), g0)
      | Some key \<Rightarrow>
          (let (tid, g) = thread_id_for E chat key g0;
               in_flight_tid = (case get_worker key (r_sup g) of None \<Rightarrow> None
                  | Some i \<Rightarrow> if turn_in_flight (s_handles (r_sup g) i) then wh_thread (s_handles (r_sup g) i) else None)
           in if router_is_busy key g then
                (if effective_mode busy_mode g = u ''steer'' \<and> (in_flight_tid = None \<or> in_flight_tid = Some tid) \<and> ms = []
                 then (case send (e_uni E) (e_spawn E) (e_write E) key (steer_frame tid x) (r_sup g) of
                         (Inl e, S) \<Rightarrow> (Inl (GSup e), g\<lparr>r_sup := S\<rparr>)
                       | (Inr _, S) \<Rightarrow> (Inr tid, emit (OnEvent chat key (busy_ack tid (u ''steer''))) (g\<lparr>r_sup := S\<rparr>)))
                 else (Inr tid, emit (OnEvent chat key (busy_ack tid (u ''queue'')))
                         (set_queue key (queue_of g key @ [\<lparr>qt_chat = chat, qt_thread = tid, qt_text = x, qt_media = ms\<rparr>]) g)))
              else (case dispatch_claimed E key chat tid x ms g of
                  (Inl e, g1) \<Rightarrow> (Inl e, g1)
                | (Inr _, g1) \<Rightarrow> (Inr tid, g1))))"

definition submit_due_work :: "genv \<Rightarrow> DueWork \<Rightarrow> Router \<Rightarrow> (gw_error + pystr) \<times> Router" where
  "submit_due_work E w g = submit_turn E (w_chat_id w) (w_prompt w) [] (Some (w_root w)) (Some (u ''queue'')) g"

definition drain_queue :: "genv \<Rightarrow> ppath \<Rightarrow> Router \<Rightarrow> (gw_error + bool) \<times> Router" where
  "drain_queue E rt g =
     (if router_is_busy rt g then (Inr False, g)
      else (case queue_of g rt of
          [] \<Rightarrow> (Inr False, g)
        | item # q \<Rightarrow>
            (case dispatch_claimed E rt (qt_chat item) (qt_thread item) (qt_text item) (qt_media item) (set_queue rt q g) of
               (Inl e, g1) \<Rightarrow> (Inl e, g1)
             | (Inr _, g1) \<Rightarrow> (Inr True, g1))))"

definition clear_busy_and_drain :: "genv \<Rightarrow> ppath \<Rightarrow> Router \<Rightarrow> Router" where
  "clear_busy_and_drain E rt g =
     (let g1 = drop_busy rt g;
          g2 = (if queue_of g1 rt \<noteq> [] then g1
                else g1\<lparr>r_delivery := snd (clear_active_delivery (e_host E) (as_posix rt) (r_delivery g1))\<rparr>)
      in snd (drain_queue E rt g2))"

definition claim_approval_resume :: "genv \<Rightarrow> int \<Rightarrow> pystr \<Rightarrow> pystr \<Rightarrow> Router \<Rightarrow> (gw_error + ppath) \<times> Router" where
  "claim_approval_resume E chat rt tid g =
     (case resolve_repo (e_uni E) (e_host E) (r_personal g) (r_repos g) (Some rt) of
        Inl e \<Rightarrow> (Inl (GRoot e), g)
      | Inr p \<Rightarrow>
          if p \<in> r_busy g then (Inl ApprovalResumeBusyError, g)
          else (Inr p, put_chat chat (set_thread p tid ((chat_state g chat)\<lparr>cs_root := p\<rparr>))
                  (g\<lparr>r_owner := (r_owner g)(p := Some chat), r_busy := insert p (r_busy g)\<rparr>)))"

definition cmd_stop :: "genv \<Rightarrow> int \<Rightarrow> Router \<Rightarrow> (gw_error + bool) \<times> Router" where
  "cmd_stop E chat g =
     (let s = chat_state g chat; rt = cs_root s;
          g1 = set_queue rt (filter (\<lambda>q. qt_chat q \<noteq> chat) (queue_of g rt)) (put_chat chat s g);
          idle = (Inr False, emit (OnNotice chat STOP_IDLE_NOTICE) g1)
      in case (get_worker rt (r_sup g1), cs_threads s rt) of
           (Some i, Some tid) \<Rightarrow>
             if \<not> turn_in_flight (s_handles (r_sup g1) i) then idle
             else (case send (e_uni E) (e_spawn E) (e_write E) rt (cancel_frame tid) (r_sup g1) of
                 (Inr _, S) \<Rightarrow> (Inr True, emit (OnNotice chat STOP_ACCEPTED_NOTICE) (g1\<lparr>r_sup := S\<rparr>))
               | (Inl (WorkerDeadError c t), S) \<Rightarrow>
                   (Inr False, emit (OnNotice chat (u ''Could not stop: '' @ dead_text rt c t)) (g1\<lparr>r_sup := S\<rparr>))
               | (Inl (SupLease RootLeaseHeldError), S) \<Rightarrow>
                   (Inr False, emit (OnNotice chat (u ''Could not stop: '' @ lease_text rt)) (g1\<lparr>r_sup := S\<rparr>))
               | (Inl e, S) \<Rightarrow> (Inl (GSup e), g1\<lparr>r_sup := S\<rparr>))
         | _ \<Rightarrow> idle)"

section \<open>Frames and deaths of workers\<close>

text \<open>\<^verbatim>\<open>dict(frame.args)\<close> on what is not an object or empty counts as raising; workers send objects.\<close>

definition args_dict :: "json \<Rightarrow> args option" where
  "args_dict j = (case j of JObj d \<Rightarrow> Some d | JList [] \<Rightarrow> Some [] | JStr [] \<Rightarrow> Some [] | _ \<Rightarrow> None)"

definition ask_card :: "args \<Rightarrow> args option" where
  "ask_card fs = (case args_dict (aget fs ''args'') of
       None \<Rightarrow> None
     | Some a \<Rightarrow> Some [(u ''action'', aget fs ''action''), (u ''target'', aget fs ''target''), (u ''description'', aget fs ''description''),
         (u ''args'', JObj a), (u ''plan'', aget fs ''plan''), (u ''suggested_memory'', aget fs ''suggested_memory''),
         (u ''suggested_skill'', aget fs ''suggested_skill''), (u ''dangerous'', aget fs ''dangerous'')])"

text \<open>The card of an approval question is stored with its chat; \<open>None\<close> is an exception, which ends
  the handler and is swallowed by the reader.\<close>

definition store_card :: "genv \<Rightarrow> ppath \<Rightarrow> int \<Rightarrow> args \<Rightarrow> Router \<Rightarrow> Router option" where
  "store_card E rt chat fs g =
     (case ask_card fs of
        None \<Rightarrow> None
      | Some crd \<Rightarrow>
          (case aget fs ''token'' of
             JStr tok \<Rightarrow> (case attach_card (e_uni E) (e_host E) tok (as_posix rt) chat crd (r_approvals g) of
                 (Inl e, F) \<Rightarrow> None
               | (Inr _, F) \<Rightarrow> Some (g\<lparr>r_approvals := F\<rparr>))
           | JList _ \<Rightarrow> None
           | JObj _ \<Rightarrow> None
           | _ \<Rightarrow> Some g))"

fun frees_root :: "pyuni \<Rightarrow> frame \<Rightarrow> bool" where
  "frees_root U (GenericFrame ApprovalAsk fs) = True"
| "frees_root U (StatusFrame tif bg idle parked) = (\<not> tif)"
| "frees_root U (GenericFrame EventF fs) = (case aget fs ''kind'' of JStr k \<Rightarrow> final_kind U k | _ \<Rightarrow> False)"
| "frees_root U _ = False"

definition handle_outbound :: "genv \<Rightarrow> ppath \<Rightarrow> frame \<Rightarrow> Router \<Rightarrow> Router" where
  "handle_outbound E rt f g =
     (case (case (r_owner g rt, f) of (Some chat, GenericFrame ApprovalAsk fs) \<Rightarrow> store_card E rt chat fs g | _ \<Rightarrow> Some g) of
        None \<Rightarrow> g
      | Some g1 \<Rightarrow>
          (let g2 = (case r_owner g rt of Some chat \<Rightarrow> emit (OnEvent chat rt f) g1 | None \<Rightarrow> g1)
           in if frees_root (e_uni E) f then clear_busy_and_drain E rt g2 else g2))"

definition handle_death :: "genv \<Rightarrow> ppath \<Rightarrow> int option \<Rightarrow> pystr option \<Rightarrow> Router \<Rightarrow> Router" where
  "handle_death E rt code tid g =
     (let g1 = drop_busy rt (g\<lparr>r_owner := (r_owner g)(rt := None)\<rparr>);
          g2 = (case r_owner g rt of None \<Rightarrow> g1
                | Some chat \<Rightarrow> emit (OnDeath chat rt code tid) (emit (OnNotice chat (death_text rt code)) g1))
      in snd (drain_queue E rt g2))"

section \<open>Steps\<close>

datatype gw_op =
    Submit int pystr "MediaRef list" "pystr option" "pystr option"
  | Stop int
  | NewThread int
  | SwitchRepo int "pystr option"
  | BindThread int pystr "ppath option"
  | ClaimApproval int pystr pystr
  | SendVerdict ppath pystr bool pystr pystr "pystr option"
  | ReleaseClaim ppath
  | Drain ppath
  | ReaderLine nat frame
  | ReaderBad nat
  | ReaderHook nat
  | ReaderEnd nat
  | ProcExit nat int
  | Evict int "nat \<Rightarrow> reap_outcome"
  | Restart ppath reap_outcome
  | ReapRoot bool ppath reap_outcome
  | Shutdown "nat \<Rightarrow> reap_outcome"
  | ForeignLock ppath
  | ForeignUnlock ppath

definition reader_hook :: "genv \<Rightarrow> nat \<Rightarrow> Router \<Rightarrow> Router" where
  "reader_hook E i g = (case wh_reader (s_handles (r_sup g) i) of
       InHook f \<Rightarrow> handle_outbound E (wh_root (s_handles (r_sup g) i)) f
                     (g\<lparr>r_sup := upd_h i (\<lambda>h. h\<lparr>wh_reader := Reading\<rparr>) (r_sup g)\<rparr>)
     | _ \<Rightarrow> g)"

definition reader_end :: "genv \<Rightarrow> nat \<Rightarrow> Router \<Rightarrow> Router" where
  "reader_end E i g =
     (case mark_dead i (r_sup g) of
        (S, None) \<Rightarrow> g\<lparr>r_sup := S\<rparr>
      | (S, Some (code, tid)) \<Rightarrow> handle_death E (wh_root (s_handles S i)) code tid (g\<lparr>r_sup := S\<rparr>))"

text \<open>A step of the environment that cannot happen in a state leaves it as it is.\<close>

fun gw_apply :: "genv \<Rightarrow> gw_op \<Rightarrow> Router \<Rightarrow> Router" where
  "gw_apply E (Submit chat x ms rt md) g = snd (submit_turn E chat x ms rt md g)"
| "gw_apply E (Stop chat) g = snd (cmd_stop E chat g)"
| "gw_apply E (NewThread chat) g = snd (cmd_new E chat g)"
| "gw_apply E (SwitchRepo chat tgt) g = snd (cmd_repo E chat tgt g)"
| "gw_apply E (BindThread chat tid rt) g = snd (bind_thread chat tid rt g)"
| "gw_apply E (ClaimApproval chat rt tid) g = snd (claim_approval_resume E chat rt tid g)"
| "gw_apply E (SendVerdict rt tok ok scope msg tgt) g =
     g\<lparr>r_sup := snd (send (e_uni E) (e_spawn E) (e_write E) rt (verdict_frame tok ok scope msg tgt) (r_sup g))\<rparr>"
| "gw_apply E (ReleaseClaim rt) g = clear_busy_and_drain E rt g"
| "gw_apply E (Drain rt) g = snd (drain_queue E rt g)"
| "gw_apply E (ReaderLine i f) g =
     (if i < s_next (r_sup g) \<and> wh_reader (s_handles (r_sup g) i) = Reading
      then g\<lparr>r_sup := upd_h i (dispatch_outbound (e_uni E) f) (r_sup g)\<rparr> else g)"
| "gw_apply E (ReaderBad i) g =
     (if i < s_next (r_sup g) \<and> wh_reader (s_handles (r_sup g) i) = Reading then g\<lparr>r_sup := upd_h i bad_line (r_sup g)\<rparr> else g)"
| "gw_apply E (ReaderHook i) g = (if i < s_next (r_sup g) then reader_hook E i g else g)"
| "gw_apply E (ReaderEnd i) g =
     (if i < s_next (r_sup g) \<and> wh_reader (s_handles (r_sup g) i) \<in> {Reading, Raised} then reader_end E i g else g)"
| "gw_apply E (ProcExit i c) g =
     (if i < s_next (r_sup g) \<and> s_exit (r_sup g) i = None
      then g\<lparr>r_sup := (r_sup g)\<lparr>s_exit := (s_exit (r_sup g))(i := Some c)\<rparr>\<rparr> else g)"
| "gw_apply E (Evict tmo r) g = g\<lparr>r_sup := snd (evict_idle tmo r (r_sup g))\<rparr>"
| "gw_apply E (Restart rt r) g = g\<lparr>r_sup := snd (restart_worker (e_uni E) (e_spawn E) r rt (r_sup g))\<rparr>"
| "gw_apply E (ReapRoot gr rt r) g = g\<lparr>r_sup := reap_worker gr r rt (r_sup g)\<rparr>"
| "gw_apply E (Shutdown r) g = g\<lparr>r_sup := shutdown r (r_sup g)\<rparr>"
| "gw_apply E (ForeignLock rt) g =
     (if lease_owner (s_locks (r_sup g)) rt = None
      then g\<lparr>r_sup := (r_sup g)\<lparr>s_locks := (s_locks (r_sup g))(lock_path_for rt := Some Foreign)\<rparr>\<rparr> else g)"
| "gw_apply E (ForeignUnlock rt) g =
     (if lease_owner (s_locks (r_sup g)) rt = Some Foreign
      then g\<lparr>r_sup := (r_sup g)\<lparr>s_locks := (s_locks (r_sup g))(lock_path_for rt := None)\<rparr>\<rparr> else g)"

text \<open>A gateway that has just started, and the states it can come to.\<close>

definition new_sup :: "locks \<Rightarrow> Sup" where
  "new_sup L = \<lparr>s_workers = [], s_handles = (\<lambda>i. new_handle (parse_path []) (new_lease (parse_path []))), s_next = 0,
     s_closed = False, s_locks = L, s_exit = (\<lambda>i. None), s_wrote = []\<rparr>"

definition new_router :: "locks \<Rightarrow> ppath \<Rightarrow> GatewayRepo list \<Rightarrow> pystr \<Rightarrow> json_file \<Rightarrow> json_file \<Rightarrow> Router" where
  "new_router L personal repos md D F =
     \<lparr>r_sup = new_sup L, r_personal = personal, r_repos = repos, r_chats = (\<lambda>_. None), r_queues = (\<lambda>_. None), r_busy = {},
      r_owner = (\<lambda>_. None), r_mode = (if md \<in> set BUSY_INPUT_MODES then md else BUSY_INPUT_DEFAULT),
      r_delivery = D, r_approvals = F, r_effects = []\<rparr>"

inductive gw_reach :: "Router \<Rightarrow> Router \<Rightarrow> bool" for g0 where
  gw_start: "gw_reach g0 g0"
| gw_step: "gw_reach g0 g \<Longrightarrow> gw_reach g0 (gw_apply E op g)"

section \<open>Writes of the supervisor\<close>

definition is_turn :: "frame \<Rightarrow> bool" where
  "is_turn f = (case f of TurnFrame t x ms c \<Rightarrow> True | _ \<Rightarrow> False)"

text \<open>The turns handed to workers so far.\<close>

definition turns :: "Sup \<Rightarrow> (nat \<times> frame) list" where
  "turns S = filter (\<lambda>(i, f). is_turn f) (s_wrote S)"

lemma turns_upd_h [simp]: "turns (upd_h i f S) = turns S" "turns (S\<lparr>s_exit := x\<rparr>) = turns S" "turns (S\<lparr>s_locks := L\<rparr>) = turns S"
  "turns (S\<lparr>s_closed := b\<rparr>) = turns S"
  by (simp_all add: turns_def upd_h_def)

lemma turns_forget [simp]: "turns (forget i S) = turns S"
  by (simp add: forget_def Let_def turns_def upd_h_def)

lemma turns_write: "turns (snd (write_frame w i f S)) = turns S @ (if is_turn f \<and> isl (fst (write_frame w i f S)) = False then [(i, f)] else [])"
  by (auto simp: write_frame_def Let_def turns_def upd_h_def split: write_outcome.split)

lemma turns_reap [simp]: "turns (reap b r i S) = turns S"
  using turns_write[of "rp_write r" i ShutdownFrame S] by (simp add: reap_def Let_def is_turn_def)

lemma turns_first_reply [simp]: "turns (first_reply U l i S) = turns S"
  by (simp add: first_reply_def mark_dead_def Let_def split: first_line.split)

lemma turns_mark_dead [simp]: "turns (fst (mark_dead i S)) = turns S"
  by (simp add: mark_dead_def Let_def)

lemma turns_spawn [simp]: "turns (snd (spawn U sp rt S)) = turns S"
proof -
  have h: "turns S2 = turns S1" if "write_frame w i (HandshakeFrame v) S1 = (q, S2)" for w i v S1 q S2
    using that turns_write[of w i "HandshakeFrame v" S1] by (simp add: is_turn_def)
  show ?thesis
    by (auto simp: spawn_def Let_def split: prod.split sum.split sup_error.split dest!: h) (auto simp: turns_def)
qed

lemma turns_ensure [simp]: "turns (snd (ensure_worker U sp rt S)) = turns S"
  by (simp add: ensure_worker_def split: option.split)

lemma send_turns:
  assumes "send U sp w rt f S = (r, S')" "sup_ok S"
  shows "\<exists>i. turns S' = turns S @ (if is_turn f \<and> r = Inr () then [(i, f)] else []) \<and> (r = Inr () \<longrightarrow> get_worker rt S' = Some i)"
proof -
  obtain q S1 where e: "ensure_worker U sp rt S = (q, S1)" by force
  then have t1: "turns S1 = turns S" using turns_ensure[of U sp rt S] by simp
  show ?thesis
  proof (cases q)
    case (Inr i)
    obtain q2 S2 where w: "write_frame w i f S1 = (q2, S2)" by force
    have g: "get_worker rt S2 = Some i"
      using sup_ok_ensure(2)[OF assms(2) e, of i] Inr write_keeps(1)[of w i f S1] w by (simp add: get_worker_def)
    show ?thesis
      using assms(1) e Inr w t1 turns_write[of w i f S1] g
      by (cases q2) (auto simp: send_def get_worker_def upd_h_def turns_def is_turn_def split: frame.splits)
  qed (use assms(1) e t1 in \<open>auto simp: send_def\<close>)
qed

lemma fold_reap_turns: "turns (fold (\<lambda>i. reap True (r i) i) xs S) = turns S"
  by (induction xs arbitrary: S) simp_all

lemma turns_evict: "turns (snd (evict_loop tmo r xs S)) = turns S"
  by (induction xs arbitrary: S) (auto split: prod.split dest: arg_cong[where f = "\<lambda>z. turns (snd z)"])

section \<open>What a router step does to the supervisor\<close>

lemma dispatch_sup: "r_sup (snd (dispatch E rt chat tid x ms g))
    = snd (send (e_uni E) (e_spawn E) (e_write E) rt (TurnFrame tid x ms (Some chat)) (r_sup g))"
  by (auto simp: dispatch_def Let_def emit_def split: prod.split sum.split sup_error.split lease_error.split)

lemma dispatch_result: "isl (fst (dispatch E rt chat tid x ms g))
    = isl (fst (send (e_uni E) (e_spawn E) (e_write E) rt (TurnFrame tid x ms (Some chat)) (r_sup g)))"
  by (auto simp: dispatch_def Let_def emit_def split: prod.split sum.split sup_error.split lease_error.split)

lemma dispatch_frame:
  "r_queues (snd (dispatch E rt chat tid x ms g)) = r_queues g" "r_busy (snd (dispatch E rt chat tid x ms g)) = r_busy g"
  by (auto simp: dispatch_def Let_def emit_def split: prod.split sum.split sup_error.split lease_error.split)

lemma claimed_sup:
  "r_sup (snd (dispatch_claimed E rt chat tid x ms g)) = snd (send (e_uni E) (e_spawn E) (e_write E) rt (TurnFrame tid x ms (Some chat)) (r_sup g))"
  "isl (fst (dispatch_claimed E rt chat tid x ms g)) = isl (fst (send (e_uni E) (e_spawn E) (e_write E) rt (TurnFrame tid x ms (Some chat)) (r_sup g)))"
  "r_queues (snd (dispatch_claimed E rt chat tid x ms g)) = r_queues g"
  "rt \<in> r_busy (snd (dispatch_claimed E rt chat tid x ms g)) \<longleftrightarrow> \<not> isl (fst (dispatch_claimed E rt chat tid x ms g))"
proof -
  let ?g = "g\<lparr>r_busy := insert rt (r_busy g), r_owner := (r_owner g)(rt := Some chat)\<rparr>"
  obtain q g1 where d: "dispatch E rt chat tid x ms ?g = (q, g1)" by force
  show "r_sup (snd (dispatch_claimed E rt chat tid x ms g)) = snd (send (e_uni E) (e_spawn E) (e_write E) rt (TurnFrame tid x ms (Some chat)) (r_sup g))"
    "isl (fst (dispatch_claimed E rt chat tid x ms g)) = isl (fst (send (e_uni E) (e_spawn E) (e_write E) rt (TurnFrame tid x ms (Some chat)) (r_sup g)))"
    "r_queues (snd (dispatch_claimed E rt chat tid x ms g)) = r_queues g"
    "rt \<in> r_busy (snd (dispatch_claimed E rt chat tid x ms g)) \<longleftrightarrow> \<not> isl (fst (dispatch_claimed E rt chat tid x ms g))"
    using d dispatch_sup[of E rt chat tid x ms ?g] dispatch_result[of E rt chat tid x ms ?g] dispatch_frame[of E rt chat tid x ms ?g]
    by (cases q; simp add: dispatch_claimed_def drop_busy_def)+
qed

definition idle_worker :: "ppath \<Rightarrow> Router \<Rightarrow> bool" where
  "idle_worker rt g \<longleftrightarrow> (\<forall>i. get_worker rt (r_sup g) = Some i \<longrightarrow> \<not> turn_in_flight (s_handles (r_sup g) i))"

lemma not_busy_idle: "\<not> router_is_busy rt g \<Longrightarrow> idle_worker rt g"
  by (auto simp: router_is_busy_def idle_worker_def)

text \<open>
  A step hands over at most one turn, to the worker of a root that had none in flight; the root was not marked busy,
  unless it is one of \<open>F\<close>, the roots that the step sets free first, and it is marked busy afterwards.
\<close>

definition fair_turn :: "ppath set \<Rightarrow> Router \<Rightarrow> Router \<Rightarrow> bool" where
  "fair_turn F g g' \<longleftrightarrow> turns (r_sup g') = turns (r_sup g)
     \<or> (\<exists>rt i t x ms chat. turns (r_sup g') = turns (r_sup g) @ [(i, TurnFrame t x ms (Some chat))]
          \<and> get_worker rt (r_sup g') = Some i \<and> idle_worker rt g \<and> (rt \<in> r_busy g \<longrightarrow> rt \<in> F) \<and> rt \<in> r_busy g')"

lemma fair_same: "turns (r_sup g') = turns (r_sup g) \<Longrightarrow> fair_turn F g g'"
  by (simp add: fair_turn_def)

lemma fair_from: "fair_turn F g1 g' \<Longrightarrow> r_sup g1 = r_sup g \<Longrightarrow> F \<union> (r_busy g - r_busy g1) \<subseteq> G \<Longrightarrow> fair_turn G g g'"
proof -
  assume a: "fair_turn F g1 g'" "r_sup g1 = r_sup g" "F \<union> (r_busy g - r_busy g1) \<subseteq> G"
  have "idle_worker rt g1 = idle_worker rt g" for rt using a(2) by (simp add: idle_worker_def)
  with a show "fair_turn G g g'" unfolding fair_turn_def by (metis DiffI UnCI subsetD)
qed

lemma sup_ok_send_snd: "sup_ok S \<Longrightarrow> sup_ok (snd (send U sp w rt f S))"
  using sup_ok_send[of S U sp w rt f] by (metis prod.collapse)

lemma claimed_fair:
  assumes "sup_ok (r_sup g)" "\<not> router_is_busy rt g"
  shows "fair_turn {} g (snd (dispatch_claimed E rt chat tid x ms g))" "sup_ok (r_sup (snd (dispatch_claimed E rt chat tid x ms g)))"
proof -
  have idle: "idle_worker rt g" "rt \<notin> r_busy g" using not_busy_idle[OF assms(2)] assms(2) by (auto simp: router_is_busy_def)
  obtain r S where s: "send (e_uni E) (e_spawn E) (e_write E) rt (TurnFrame tid x ms (Some chat)) (r_sup g) = (r, S)" by force
  from send_turns[OF s assms(1)] obtain i where i: "turns S = turns (r_sup g) @ (if r = Inr () then [(i, TurnFrame tid x ms (Some chat))] else [])"
    "r = Inr () \<longrightarrow> get_worker rt S = Some i" by (auto simp: is_turn_def)
  note c = claimed_sup[where E = E and rt = rt and chat = chat and tid = tid and x = x and ms = ms and g = g]
  show "fair_turn {} g (snd (dispatch_claimed E rt chat tid x ms g))"
  proof (cases r)
    case (Inl e)
    then show ?thesis using i c(1) s by (intro fair_same) simp
  next
    case (Inr y)
    with i c s have "turns (r_sup (snd (dispatch_claimed E rt chat tid x ms g))) = turns (r_sup g) @ [(i, TurnFrame tid x ms (Some chat))]"
      "get_worker rt (r_sup (snd (dispatch_claimed E rt chat tid x ms g))) = Some i"
      "rt \<in> r_busy (snd (dispatch_claimed E rt chat tid x ms g))" by simp_all
    then show ?thesis using idle unfolding fair_turn_def by blast
  qed
  show "sup_ok (r_sup (snd (dispatch_claimed E rt chat tid x ms g)))" using c(1) sup_ok_send_snd[OF assms(1)] by simp
qed

lemma drain_cases:
  obtains (nothing) "drain_queue E rt g = (Inr False, g)"
  | (pop) item q r g' where "queue_of g rt = item # q" "\<not> router_is_busy rt g"
      "dispatch_claimed E rt (qt_chat item) (qt_thread item) (qt_text item) (qt_media item) (set_queue rt q g) = (r, g')"
      "drain_queue E rt g = (map_sum id (\<lambda>_. True) r, g')"
proof (cases "router_is_busy rt g \<or> queue_of g rt = []")
  case True
  then have "drain_queue E rt g = (Inr False, g)" by (auto simp: drain_queue_def)
  then show ?thesis by (rule nothing)
next
  case False
  then obtain item q where i: "queue_of g rt = item # q" by (cases "queue_of g rt") auto
  obtain r g' where d: "dispatch_claimed E rt (qt_chat item) (qt_thread item) (qt_text item) (qt_media item) (set_queue rt q g) = (r, g')"
    by force
  have "drain_queue E rt g = (map_sum id (\<lambda>_. True) r, g')" using False i d by (simp add: drain_queue_def split: sum.split)
  with i d False show ?thesis by (intro pop) auto
qed

lemma set_queue_sup [simp]: "r_sup (set_queue rt q g) = r_sup g" "r_sup (drop_busy rt g) = r_sup g" "r_sup (emit c g) = r_sup g"
  "r_sup (put_chat chat st g) = r_sup g"
  by (simp_all add: set_queue_def drop_busy_def emit_def put_chat_def)

lemma set_queue_busy [simp]: "r_busy (set_queue rt q g) = r_busy g" "r_busy (emit c g) = r_busy g" "r_busy (drop_busy rt g) = r_busy g - {rt}"
  by (simp_all add: set_queue_def drop_busy_def emit_def)

lemma drain_fair:
  assumes "sup_ok (r_sup g)"
  shows "fair_turn {} g (snd (drain_queue E rt g))" "sup_ok (r_sup (snd (drain_queue E rt g)))"
proof -
  have "fair_turn {} g (snd (drain_queue E rt g)) \<and> sup_ok (r_sup (snd (drain_queue E rt g)))"
  proof (cases rule: drain_cases[of E rt g])
    case nothing
    then show ?thesis using assms by (simp add: fair_same)
  next
    case (pop item q r g')
    have "\<not> router_is_busy rt (set_queue rt q g)" using pop(2) by (auto simp: router_is_busy_def split: option.splits)
    from claimed_fair[of "set_queue rt q g", OF _ this, of E "qt_chat item" "qt_thread item" "qt_text item" "qt_media item"] assms pop
    show ?thesis by (auto intro: fair_from)
  qed
  then show "fair_turn {} g (snd (drain_queue E rt g))" "sup_ok (r_sup (snd (drain_queue E rt g)))" by blast+
qed

lemma clear_fair:
  assumes "sup_ok (r_sup g)"
  shows "fair_turn {rt} g (clear_busy_and_drain E rt g)" "sup_ok (r_sup (clear_busy_and_drain E rt g))"
proof -
  define g2 where "g2 = (if queue_of (drop_busy rt g) rt \<noteq> [] then drop_busy rt g
      else (drop_busy rt g)\<lparr>r_delivery := snd (clear_active_delivery (e_host E) (as_posix rt) (r_delivery (drop_busy rt g)))\<rparr>)"
  have g2: "r_sup g2 = r_sup g" "r_busy g2 = r_busy g - {rt}" by (simp_all add: g2_def)
  have "clear_busy_and_drain E rt g = snd (drain_queue E rt g2)" by (simp add: clear_busy_and_drain_def g2_def Let_def)
  then show "fair_turn {rt} g (clear_busy_and_drain E rt g)" "sup_ok (r_sup (clear_busy_and_drain E rt g))"
    using fair_from[OF drain_fair(1)[of g2 E rt]] drain_fair(2)[of g2 E rt] assms g2 by auto
qed

lemma outbound_fair:
  assumes "sup_ok (r_sup g)"
  shows "fair_turn (if frees_root (e_uni E) f then {rt} else {}) g (handle_outbound E rt f g)" "sup_ok (r_sup (handle_outbound E rt f g))"
proof -
  have c: "r_sup g1 = r_sup g \<and> r_busy g1 = r_busy g" if "store_card E rt chat fs g = Some g1" for chat fs g1
    using that by (auto simp: store_card_def split: option.splits json.splits prod.splits sum.splits)
  define card where "card = (case (r_owner g rt, f) of (Some chat, GenericFrame ApprovalAsk fs) \<Rightarrow> store_card E rt chat fs g | _ \<Rightarrow> Some g)"
  have s: "r_sup g1 = r_sup g \<and> r_busy g1 = r_busy g" if "card = Some g1" for g1
    using that by (auto simp: card_def dest: c split: option.splits frame.splits gkind.splits)
  have "fair_turn (if frees_root (e_uni E) f then {rt} else {}) g (handle_outbound E rt f g) \<and> sup_ok (r_sup (handle_outbound E rt f g))"
  proof (cases card)
    case None
    then show ?thesis using assms by (simp add: handle_outbound_def card_def fair_same)
  next
    case (Some g1)
    define g2 where "g2 = (case r_owner g rt of Some chat \<Rightarrow> emit (OnEvent chat rt f) g1 | None \<Rightarrow> g1)"
    have g2: "r_sup g2 = r_sup g" "r_busy g2 = r_busy g" using s[OF Some] by (simp_all add: g2_def split: option.split)
    have "handle_outbound E rt f g = (if frees_root (e_uni E) f then clear_busy_and_drain E rt g2 else g2)"
      using Some by (simp add: handle_outbound_def card_def g2_def Let_def)
    then show ?thesis using clear_fair[where g = g2 and E = E and rt = rt] assms g2 by (auto intro: fair_from fair_same)
  qed
  then show "fair_turn (if frees_root (e_uni E) f then {rt} else {}) g (handle_outbound E rt f g)" "sup_ok (r_sup (handle_outbound E rt f g))" by blast+
qed

lemma death_fair:
  assumes "sup_ok (r_sup g)"
  shows "fair_turn {rt} g (handle_death E rt code tid g)" "sup_ok (r_sup (handle_death E rt code tid g))"
proof -
  define g2 where "g2 = (case r_owner g rt of None \<Rightarrow> drop_busy rt (g\<lparr>r_owner := (r_owner g)(rt := None)\<rparr>)
      | Some chat \<Rightarrow> emit (OnDeath chat rt code tid) (emit (OnNotice chat (death_text rt code)) (drop_busy rt (g\<lparr>r_owner := (r_owner g)(rt := None)\<rparr>))))"
  have "r_sup g2 = r_sup g" "r_busy g2 = r_busy g - {rt}" by (simp_all add: g2_def drop_busy_def emit_def split: option.split)
  moreover have "handle_death E rt code tid g = snd (drain_queue E rt g2)" by (simp add: handle_death_def g2_def Let_def)
  ultimately show "fair_turn {rt} g (handle_death E rt code tid g)" "sup_ok (r_sup (handle_death E rt code tid g))"
    using drain_fair[of g2 E rt] assms by (auto intro: fair_from)
qed

lemma thread_id_for_sup: "r_sup (snd (thread_id_for E chat rt g)) = r_sup g" "r_queues (snd (thread_id_for E chat rt g)) = r_queues g"
  "r_busy (snd (thread_id_for E chat rt g)) = r_busy g"
  by (simp_all add: thread_id_for_def Let_def put_chat_def split: option.split)

lemma submit_fair:
  assumes "sup_ok (r_sup g)"
  shows "fair_turn {} g (snd (submit_turn E chat x ms rt md g))" "sup_ok (r_sup (snd (submit_turn E chat x ms rt md g)))"
proof -
  have "fair_turn {} g (snd (submit_turn E chat x ms rt md g)) \<and> sup_ok (r_sup (snd (submit_turn E chat x ms rt md g)))"
  proof (cases "submit_root E chat rt g")
    case None
    then show ?thesis using assms by (simp add: submit_turn_def fair_same)
  next
    case (Some key)
    obtain tid g1 where t: "thread_id_for E chat key g = (tid, g1)" by force
    then have g1: "r_sup g1 = r_sup g" "r_busy g1 = r_busy g" using thread_id_for_sup(1,3)[of E chat key g] by simp_all
    obtain r S where st: "send (e_uni E) (e_spawn E) (e_write E) key (steer_frame tid x) (r_sup g) = (r, S)" by force
    have "turns S = turns (r_sup g)" "sup_ok S"
      using send_turns[OF st assms] sup_ok_send[OF assms st] by (auto simp: is_turn_def steer_frame_def)
    moreover obtain r2 g2 where d: "dispatch_claimed E key chat tid x ms g1 = (r2, g2)" by force
    ultimately show ?thesis
      using claimed_fair[of g1 key E chat tid x ms] assms g1
      by (simp add: submit_turn_def Some t Let_def st d split: sum.split if_splits) (auto intro: fair_from fair_same)
  qed
  then show "fair_turn {} g (snd (submit_turn E chat x ms rt md g))" "sup_ok (r_sup (snd (submit_turn E chat x ms rt md g)))" by blast+
qed

lemma stop_fair:
  assumes "sup_ok (r_sup g)"
  shows "turns (r_sup (snd (cmd_stop E chat g))) = turns (r_sup g)" "sup_ok (r_sup (snd (cmd_stop E chat g)))"
proof -
  have "turns S = turns (r_sup g) \<and> sup_ok S" if "send (e_uni E) (e_spawn E) (e_write E) rt (cancel_frame tid) (r_sup g) = (r, S)" for rt tid r S
    using send_turns[OF that assms] sup_ok_send[OF assms that] by (auto simp: is_turn_def cancel_frame_def)
  then show "turns (r_sup (snd (cmd_stop E chat g))) = turns (r_sup g)" "sup_ok (r_sup (snd (cmd_stop E chat g)))"
    using assms by (auto simp: cmd_stop_def Let_def split: option.split prod.split sum.split sup_error.split lease_error.split)
qed

lemma sup_ok_foreign:
  assumes "sup_ok S" "\<And>i. s_locks S (lock_path_for rt) \<noteq> Some (Own i)" "\<And>i. v \<noteq> Some (Own i)"
  shows "sup_ok (S\<lparr>s_locks := (s_locks S)(lock_path_for rt := v)\<rparr>)"
proof -
  have "r \<noteq> rt" if "get_worker r S = Some i" for r i
    using sup_okD(4)[OF assms(1) that] assms(2)[of i] by (auto simp: lease_owner_def)
  moreover have "s_locks S p = Some (Own i)" if "((s_locks S)(lock_path_for rt := v)) p = Some (Own i)" for p i
    using that assms(3)[of i] by (auto split: if_splits)
  ultimately show ?thesis
    using assms(1) unfolding sup_ok_def tracked_ok_def get_worker_def lease_owner_def by fastforce
qed

text \<open>The root that a step gives free before it hands over a turn.\<close>

fun freed :: "genv \<Rightarrow> gw_op \<Rightarrow> Router \<Rightarrow> ppath set" where
  "freed E (ReleaseClaim rt) g = {rt}"
| "freed E (ReaderHook i) g = (case wh_reader (s_handles (r_sup g) i) of
      InHook f \<Rightarrow> if frees_root (e_uni E) f then {wh_root (s_handles (r_sup g) i)} else {} | _ \<Rightarrow> {})"
| "freed E (ReaderEnd i) g = {wh_root (s_handles (r_sup g) i)}"
| "freed E op g = {}"

lemma reader_hook_fair:
  assumes "sup_ok (r_sup g)"
  shows "fair_turn (freed E (ReaderHook i) g) g (reader_hook E i g)" "sup_ok (r_sup (reader_hook E i g))"
proof -
  let ?g = "g\<lparr>r_sup := upd_h i (\<lambda>h. h\<lparr>wh_reader := Reading\<rparr>) (r_sup g)\<rparr>"
  have ok: "sup_ok (r_sup ?g)" using assms by (auto simp: frame_like_def)
  have "fair_turn F g g'" if "fair_turn F ?g g'" for F g'
    using that by (auto simp: fair_turn_def idle_worker_def get_worker_def upd_h_def turns_def turn_in_flight_def split: if_splits)
  then show "fair_turn (freed E (ReaderHook i) g) g (reader_hook E i g)" "sup_ok (r_sup (reader_hook E i g))"
    using outbound_fair[OF ok] assms by (auto simp: reader_hook_def fair_same split: reader.split)
qed

lemma step_sup_ok: "sup_ok (r_sup g) \<Longrightarrow> sup_ok (r_sup (gw_apply E op g))"
proof (cases op)
  case (ReaderEnd i)
  assume ok: "sup_ok (r_sup g)"
  obtain S d where m: "mark_dead i (r_sup g) = (S, d)" by force
  with sup_ok_mark_dead[OF ok, of i] have "sup_ok S" by simp
  then show ?thesis using ok ReaderEnd m death_fair(2)[of "g\<lparr>r_sup := S\<rparr>" E]
    by (auto simp: reader_end_def split: option.split)
next
  case (ReaderHook i)
  assume "sup_ok (r_sup g)"
  then show ?thesis using ReaderHook reader_hook_fair(2) by simp
next
  case (Evict tmo r)
  assume "sup_ok (r_sup g)"
  then show ?thesis using Evict sup_ok_evict[of "r_sup g" tmo r] by (cases "evict_idle tmo r (r_sup g)") simp
next
  case (Restart rt r)
  assume "sup_ok (r_sup g)"
  then show ?thesis using Restart sup_ok_restart[of "r_sup g" "e_uni E" "e_spawn E" r rt] by (cases "restart_worker (e_uni E) (e_spawn E) r rt (r_sup g)") simp
next
  case (ForeignLock rt)
  assume "sup_ok (r_sup g)"
  then show ?thesis using ForeignLock sup_ok_foreign[of "r_sup g" rt "Some Foreign"] by (simp add: lease_owner_def)
next
  case (ForeignUnlock rt)
  assume "sup_ok (r_sup g)"
  then show ?thesis using ForeignUnlock sup_ok_foreign[of "r_sup g" rt None] by (simp add: lease_owner_def)
qed (auto simp: submit_fair stop_fair clear_fair drain_fair sup_ok_send_snd sup_ok_exit sup_ok_reap_worker shutdown_props
    frame_like_dispatch frame_like_bad_line cmd_new_def cmd_repo_def bind_thread_def claim_approval_resume_def put_chat_def Let_def
    split: sum.split)

lemma sup_ok_new: "(\<And>p i. L p \<noteq> Some (Own i)) \<Longrightarrow> sup_ok (new_sup L)"
  by (simp add: sup_ok_def new_sup_def get_worker_def dict_ok_def)

lemma reach_sup_ok: "gw_reach g0 g \<Longrightarrow> sup_ok (r_sup g0) \<Longrightarrow> sup_ok (r_sup g)"
  by (induction rule: gw_reach.induct) (auto intro: step_sup_ok)

lemma reader_end_turns:
  assumes "sup_ok (r_sup g)" "turns (r_sup (reader_end E i g)) \<noteq> turns (r_sup g)"
  shows "\<exists>rt k t x ms chat. turns (r_sup (reader_end E i g)) = turns (r_sup g) @ [(k, TurnFrame t x ms (Some chat))]
     \<and> get_worker rt (r_sup (reader_end E i g)) = Some k \<and> rt \<in> r_busy (reader_end E i g)
     \<and> (rt \<in> r_busy g \<longrightarrow> rt = wh_root (s_handles (r_sup g) i))
     \<and> (\<forall>j. get_worker rt (r_sup g) = Some j \<longrightarrow> turn_in_flight (s_handles (r_sup g) j) \<longrightarrow> j = i)"
proof -
  obtain S d where m: "mark_dead i (r_sup g) = (S, d)" by force
  let ?g = "g\<lparr>r_sup := S\<rparr>"
  have ok: "sup_ok (r_sup ?g)" and t: "turns S = turns (r_sup g)"
    using sup_ok_mark_dead[OF assms(1), of i] turns_mark_dead[of i "r_sup g"] m by simp_all
  have w: "get_worker r S = get_worker r (r_sup g)" "j \<noteq> i \<Longrightarrow> s_handles S j = s_handles (r_sup g) j" for r j
    using m by (auto simp: mark_dead_def get_worker_def upd_h_def Let_def split: if_splits)
  from assms(2) m t obtain c tid where d: "d = Some (c, tid)" by (cases d) (auto simp: reader_end_def)
  then have "reader_end E i g = handle_death E (wh_root (s_handles S i)) c tid ?g" using m by (simp add: reader_end_def)
  with death_fair(1)[OF ok, where E = E and rt = "wh_root (s_handles S i)" and code = c and tid = tid] have f: "fair_turn {wh_root (s_handles S i)} ?g (reader_end E i g)" by simp
  have wr: "wh_root (s_handles S i) = wh_root (s_handles (r_sup g) i)" using m by (auto simp: mark_dead_def upd_h_def Let_def split: if_splits)
  from f assms(2) t obtain rt k t' x ms chat where n: "turns (r_sup (reader_end E i g)) = turns (r_sup g) @ [(k, TurnFrame t' x ms (Some chat))]"
    "get_worker rt (r_sup (reader_end E i g)) = Some k" "idle_worker rt ?g" "rt \<in> r_busy (reader_end E i g)"
    "rt \<in> r_busy g \<longrightarrow> rt = wh_root (s_handles (r_sup g) i)"
    unfolding fair_turn_def wr by auto
  have "j = i" if "get_worker rt (r_sup g) = Some j" "turn_in_flight (s_handles (r_sup g) j)" for j
    using n(3) that w(1)[of rt] w(2)[of j] by (cases "j = i") (auto simp: idle_worker_def)
  with n show ?thesis by blast
qed

lemma step_fair:
  assumes "sup_ok (r_sup g)"
  shows "fair_turn (freed E op g) g (gw_apply E op g) \<or> (\<exists>i. op = ReaderEnd i \<and> gw_apply E op g = reader_end E i g)"
proof (cases op)
  case (ReaderHook i)
  then show ?thesis using reader_hook_fair(1)[OF assms, of E i] by (auto simp del: freed.simps intro!: fair_same)
next
  case (SendVerdict rt tok ok scope msg tgt)
  obtain r S where s: "send (e_uni E) (e_spawn E) (e_write E) rt (verdict_frame tok ok scope msg tgt) (r_sup g) = (r, S)" by force
  then show ?thesis using send_turns[OF s assms] SendVerdict by (auto simp: is_turn_def verdict_frame_def intro!: fair_same)
next
  case (Restart rt r)
  then show ?thesis by (auto simp: restart_worker_def intro!: fair_same split: option.split)
next
  case (ReapRoot b rt r)
  then show ?thesis by (auto simp: reap_worker_def intro!: fair_same split: option.split)
next
  case (Shutdown r)
  then show ?thesis by (auto simp: shutdown_def fold_reap_turns intro!: fair_same)
next
  case (Evict tmo r)
  then show ?thesis by (auto simp: evict_idle_def turns_evict intro!: fair_same)
qed (use assms in \<open>auto simp: submit_fair stop_fair clear_fair drain_fair reader_hook_fair cmd_new_def cmd_repo_def bind_thread_def
    claim_approval_resume_def put_chat_def Let_def intro!: fair_same split: sum.split\<close>)

section \<open>Queues\<close>

lemma queue_simps [simp]: "queue_of (set_queue rt q g) rt' = (if rt' = rt then q else queue_of g rt')"
  "queue_of (drop_busy rt g) = queue_of g" "queue_of (emit c g) = queue_of g" "queue_of (put_chat chat st g) = queue_of g"
  "queue_of (g\<lparr>r_sup := S\<rparr>) = queue_of g" "queue_of (g\<lparr>r_delivery := D\<rparr>) = queue_of g" "queue_of (g\<lparr>r_owner := w\<rparr>) = queue_of g"
  "queue_of (g\<lparr>r_approvals := A\<rparr>) = queue_of g" "queue_of (g\<lparr>r_owner := w, r_busy := b\<rparr>) = queue_of g"
  by (auto simp: queue_of_def set_queue_def drop_busy_def emit_def put_chat_def fun_eq_iff)

lemma queue_claimed [simp]: "queue_of (snd (dispatch_claimed E rt chat tid x ms g)) = queue_of g"
  using claimed_sup(3)[of E rt chat tid x ms g] by (simp add: queue_of_def fun_eq_iff)

lemma queue_thread_id [simp]: "queue_of (snd (thread_id_for E chat rt g)) = queue_of g"
  using thread_id_for_sup(2)[of E chat rt g] by (simp add: queue_of_def fun_eq_iff)

definition turn_of :: "QueuedTurn \<Rightarrow> frame" where
  "turn_of it = TurnFrame (qt_thread it) (qt_text it) (qt_media it) (Some (qt_chat it))"

text \<open>A step leaves a queue alone, or takes its first message, to hand it over as the turn of this step
  unless that fails.\<close>

definition pops :: "Router \<Rightarrow> Router \<Rightarrow> ppath \<Rightarrow> bool" where
  "pops g g' rt \<longleftrightarrow> queue_of g' rt = queue_of g rt
     \<or> (\<exists>it. queue_of g rt = it # queue_of g' rt
          \<and> (turns (r_sup g') = turns (r_sup g) \<or> (\<exists>k. turns (r_sup g') = turns (r_sup g) @ [(k, turn_of it)])))"

lemma pops_from: "pops g1 g' rt \<Longrightarrow> queue_of g1 rt = queue_of g rt \<Longrightarrow> turns (r_sup g1) = turns (r_sup g) \<Longrightarrow> pops g g' rt"
  by (simp add: pops_def)

lemma pops_refl: "queue_of g' rt = queue_of g rt \<Longrightarrow> pops g g' rt"
  by (simp add: pops_def)

lemma drain_pops:
  assumes "sup_ok (r_sup g)"
  shows "pops g (snd (drain_queue E rt g)) rt'"
proof (cases rule: drain_cases[of E rt g])
  case nothing
  then show ?thesis by (simp add: pops_refl)
next
  case (pop item q r g')
  let ?g = "set_queue rt q g"
  obtain r' S where s: "send (e_uni E) (e_spawn E) (e_write E) rt (turn_of item) (r_sup ?g) = (r', S)" by force
  have "r_sup g' = S" "queue_of g' = queue_of ?g"
    using claimed_sup(1)[of E rt "qt_chat item" "qt_thread item" "qt_text item" "qt_media item" ?g]
      queue_claimed[of E rt "qt_chat item" "qt_thread item" "qt_text item" "qt_media item" ?g] pop(3) s by (simp_all add: turn_of_def)
  with send_turns[OF s] assms pop(1,4) show ?thesis by (auto simp: pops_def)
qed

lemma clear_pops: "sup_ok (r_sup g) \<Longrightarrow> pops g (clear_busy_and_drain E rt g) rt'"
  unfolding clear_busy_and_drain_def Let_def by (rule pops_from[OF drain_pops]) auto

lemma outbound_pops:
  assumes "sup_ok (r_sup g)"
  shows "pops g (handle_outbound E rt f g) rt'"
proof -
  have c: "r_sup g1 = r_sup g \<and> queue_of g1 = queue_of g" if "store_card E rt chat fs g = Some g1" for chat fs g1
    using that by (auto simp: store_card_def split: option.splits json.splits prod.splits sum.splits)
  define card where "card = (case (r_owner g rt, f) of (Some chat, GenericFrame ApprovalAsk fs) \<Rightarrow> store_card E rt chat fs g | _ \<Rightarrow> Some g)"
  have s: "r_sup g1 = r_sup g \<and> queue_of g1 = queue_of g" if "card = Some g1" for g1
    using that by (auto simp: card_def dest: c split: option.splits frame.splits gkind.splits)
  show ?thesis
  proof (cases card)
    case None
    then show ?thesis by (simp add: handle_outbound_def card_def pops_refl)
  next
    case (Some g1)
    define g2 where "g2 = (case r_owner g rt of Some chat \<Rightarrow> emit (OnEvent chat rt f) g1 | None \<Rightarrow> g1)"
    have g2: "r_sup g2 = r_sup g" "queue_of g2 = queue_of g" using s[OF Some] by (simp_all add: g2_def split: option.split)
    have "handle_outbound E rt f g = (if frees_root (e_uni E) f then clear_busy_and_drain E rt g2 else g2)"
      using Some by (simp add: handle_outbound_def card_def g2_def Let_def)
    then show ?thesis using clear_pops[of g2 E rt rt'] assms g2 by (auto intro: pops_from pops_refl)
  qed
qed

lemma death_pops:
  assumes "sup_ok (r_sup g)"
  shows "pops g (handle_death E rt code tid g) rt'"
  unfolding handle_death_def Let_def
  by (rule pops_from[OF drain_pops]) (use assms in \<open>auto split: option.split\<close>)

lemma submit_queue:
  "queue_of (snd (submit_turn E chat x ms rt md g)) rt' = queue_of g rt'
   \<or> (\<exists>it. queue_of (snd (submit_turn E chat x ms rt md g)) rt' = queue_of g rt' @ [it] \<and> qt_chat it = chat \<and> qt_text it = x \<and> qt_media it = ms)"
proof (cases "submit_root E chat rt g")
  case (Some key)
  obtain tid g1 where t: "thread_id_for E chat key g = (tid, g1)" by force
  then have "queue_of g1 = queue_of g" using queue_thread_id[of E chat key g] by simp
  moreover obtain r2 g2 where d: "dispatch_claimed E key chat tid x ms g1 = (r2, g2)" by force
  then have "queue_of g2 = queue_of g1" using queue_claimed[of E key chat tid x ms g1] by simp
  ultimately show ?thesis
    by (auto simp: submit_turn_def Some t d Let_def split: prod.split sum.split)
qed (simp add: submit_turn_def)

lemma stop_queue:
  "queue_of (snd (cmd_stop E chat g)) rt = (if rt = cs_root (chat_state g chat) then filter (\<lambda>q. qt_chat q \<noteq> chat) (queue_of g rt) else queue_of g rt)"
  by (simp add: cmd_stop_def Let_def split: option.split prod.split sum.split sup_error.split lease_error.split)

lemma reader_pops:
  assumes "sup_ok (r_sup g)"
  shows "pops g (reader_hook E i g) rt" "pops g (reader_end E i g) rt"
proof -
  let ?g = "g\<lparr>r_sup := upd_h i (\<lambda>h. h\<lparr>wh_reader := Reading\<rparr>) (r_sup g)\<rparr>"
  have "sup_ok (r_sup ?g)" using assms by (auto simp: frame_like_def)
  then show "pops g (reader_hook E i g) rt"
    using pops_from[OF outbound_pops[of ?g]] by (auto simp: reader_hook_def pops_refl split: reader.split)
  obtain S d where m: "mark_dead i (r_sup g) = (S, d)" by force
  then have "sup_ok S" "turns S = turns (r_sup g)"
    using sup_ok_mark_dead[OF assms, of i] turns_mark_dead[of i "r_sup g"] by simp_all
  then show "pops g (reader_end E i g) rt"
    using m pops_from[OF death_pops[of "g\<lparr>r_sup := S\<rparr>"]] by (auto simp: reader_end_def pops_refl split: option.split)
qed

section \<open>Properties\<close>

text \<open>
  C15. In every state the gateway can come to from a fresh start, the lease of a root belongs to this
  process exactly when the supervisor tracks a worker for that root, and then to that worker; so a
  root that another process holds has no worker here, and a root without a worker can be taken by
  others.
\<close>

theorem lease_iff_tracked:
  assumes "gw_reach (new_router L personal repos md D F) g" "\<And>p i. L p \<noteq> Some (Own i)"
  shows "lease_owner (s_locks (r_sup g)) rt = Some (Own i) \<longleftrightarrow> get_worker rt (r_sup g) = Some i"
proof -
  have "sup_ok (r_sup g)" using reach_sup_ok[OF assms(1)] sup_ok_new[of L, OF assms(2)] by (simp add: new_router_def)
  then show ?thesis unfolding sup_ok_def tracked_ok_def by (metis lease_owner_def lock_path_inj)
qed


text \<open>
  Waiting messages keep their order: in every state the gateway can come to, a step leaves the queue
  of a root as it is, or appends one message (when a chat submits it), or takes the first one, which is
  then the turn that this step hands over, if it hands over any. Only the stop command takes messages
  out of the middle, and only those of the chat that gave it.
\<close>

theorem queued_turns_in_order:
  assumes "gw_reach (new_router L personal repos md D F) g" "\<And>p i. L p \<noteq> Some (Own i)"
  shows "queue_of (gw_apply E op g) rt = queue_of g rt
     \<or> (\<exists>it r m. op = Submit (qt_chat it) (qt_text it) (qt_media it) r m \<and> queue_of (gw_apply E op g) rt = queue_of g rt @ [it])
     \<or> (\<exists>it. queue_of g rt = it # queue_of (gw_apply E op g) rt
          \<and> (turns (r_sup (gw_apply E op g)) = turns (r_sup g)
             \<or> (\<exists>k. turns (r_sup (gw_apply E op g)) = turns (r_sup g) @ [(k, turn_of it)])))
     \<or> (\<exists>chat. op = Stop chat \<and> queue_of (gw_apply E op g) rt = filter (\<lambda>it. qt_chat it \<noteq> chat) (queue_of g rt))"
proof -
  have ok: "sup_ok (r_sup g)" using reach_sup_ok[OF assms(1)] sup_ok_new[of L, OF assms(2)] by (simp add: new_router_def)
  have p: ?thesis if "pops g (gw_apply E op g) rt" using that by (auto simp: pops_def)
  have same: ?thesis if "queue_of (gw_apply E op g) rt = queue_of g rt" using that by simp
  show ?thesis
  proof (cases op)
    case (Submit chat x ms r m)
    then show ?thesis using submit_queue[of E chat x ms r m g rt] by (auto split: if_splits)
  next
    case (Stop chat)
    then show ?thesis using stop_queue[of E chat g rt] by (auto split: if_splits)
  next
    case (ReleaseClaim r)
    then show ?thesis using clear_pops[OF ok] by (intro p) simp
  next
    case (Drain r)
    then show ?thesis using drain_pops[OF ok] by (intro p) simp
  next
    case (ReaderHook i)
    then show ?thesis using reader_pops(1)[OF ok] by (intro p) (auto simp: pops_refl)
  next
    case (ReaderEnd i)
    then show ?thesis using reader_pops(2)[OF ok] by (intro p) (auto simp: pops_refl)
  qed (auto intro!: same simp: cmd_new_def cmd_repo_def bind_thread_def claim_approval_resume_def Let_def split: sum.split)
qed

text \<open>
  A worker that dies in the middle of a turn blocks its root. When the worker's last status report
  says that a turn runs, the reader marks the handle dead and tells the chat, but the handle stays the
  root's worker with that status: the queue is not continued, and the next text message of any chat on
  that root, in the default mode, neither becomes a turn nor waits in the queue; it is sent as steering
  input for a turn that no longer exists.
\<close>

theorem dead_worker_swallows_message:
  assumes "sup_ok (r_sup g)" "get_worker rt (r_sup g) = Some i" "\<not> wh_dead (s_handles (r_sup g) i)"
    and "wh_status (s_handles (r_sup g) i) = Some st" "st_turn st"
    and "cs_root (chat_state g chat) = rt" "r_mode g = u ''steer''"
  shows "queue_of (reader_end E i g) rt = queue_of g rt \<and> turns (r_sup (reader_end E i g)) = turns (r_sup g)
     \<and> \<not> alive (r_sup (reader_end E i g)) i
     \<and> queue_of (snd (submit_turn E' chat x [] None None (reader_end E i g))) rt = queue_of g rt
     \<and> turns (r_sup (snd (submit_turn E' chat x [] None None (reader_end E i g)))) = turns (r_sup g)"
proof -
  let ?g1 = "reader_end E i g"
  obtain S d where m: "mark_dead i (r_sup g) = (S, d)" by force
  have h: "s_handles S i = (s_handles (r_sup g) i)\<lparr>wh_dead := True, wh_exit := s_exit (r_sup g) i, wh_thread := None,
      wh_hs_error := (if wh_ready (s_handles (r_sup g) i) then wh_hs_error (s_handles (r_sup g) i) else True), wh_ready := True, wh_reader := Ended\<rparr>"
    "s_workers S = s_workers (r_sup g)"
    using m assms(3) by (auto simp: mark_dead_def upd_h_def Let_def)
  have flight: "turn_in_flight (s_handles S i)" and w: "get_worker rt S = Some i" and rt: "wh_root (s_handles S i) = rt" and t: "wh_thread (s_handles S i) = None"
    using h assms(2,4,5) sup_okD(2)[OF assms(1,2)] by (simp_all add: turn_in_flight_def get_worker_def)
  have tS: "turns S = turns (r_sup g)" and okS: "sup_ok S"
    using turns_mark_dead[of i "r_sup g"] sup_ok_mark_dead[OF assms(1), of i] m by simp_all
  have g1: "r_sup ?g1 = S" "r_queues ?g1 = r_queues g" "r_chats ?g1 = r_chats g" "r_personal ?g1 = r_personal g" "r_mode ?g1 = r_mode g"
  proof -
    have dr: "drain_queue E rt g' = (Inr False, g')" if "r_sup g' = S" for g'
      using that flight w by (simp add: drain_queue_def router_is_busy_def)
    show "r_sup ?g1 = S" "r_queues ?g1 = r_queues g" "r_chats ?g1 = r_chats g" "r_personal ?g1 = r_personal g" "r_mode ?g1 = r_mode g"
      using m rt by (auto simp: reader_end_def handle_death_def Let_def dr emit_def drop_busy_def split: option.split)
  qed
  have busy: "router_is_busy rt g'" if "r_sup g' = S" for g' using that w flight by (simp add: router_is_busy_def)
  have q1: "queue_of ?g1 rt = queue_of g rt" using g1(2) by (simp add: queue_of_def)
  have root: "submit_root E' chat None ?g1 = Some rt" using assms(6) g1 by (auto simp: submit_root_def chat_state_def split: option.split)
  obtain tid g2 where th: "thread_id_for E' chat rt ?g1 = (tid, g2)" by force
  then have g2: "r_sup g2 = S" "queue_of g2 = queue_of ?g1" "r_mode g2 = r_mode g"
    using thread_id_for_sup(1)[of E' chat rt ?g1] queue_thread_id[of E' chat rt ?g1] g1
    by (auto simp: thread_id_for_def Let_def put_chat_def split: option.splits)
  then have md: "effective_mode None g2 = u ''steer''" using assms(7) by (simp add: effective_mode_def BUSY_INPUT_MODES_def)
  obtain r S' where st: "send (e_uni E') (e_spawn E') (e_write E') rt (steer_frame tid x) S = (r, S')" by force
  have "turns S' = turns S" using send_turns[OF st okS] by (auto simp: is_turn_def steer_frame_def)
  moreover have "snd (submit_turn E' chat x [] None None ?g1) \<in> {g2\<lparr>r_sup := S'\<rparr>, emit (OnEvent chat rt (busy_ack tid (u ''steer''))) (g2\<lparr>r_sup := S'\<rparr>)}"
    using root th g2 busy[OF g2(1)] md st w flight t by (simp add: submit_turn_def Let_def split: sum.split)
  moreover have "\<not> alive S i" using h by (simp add: alive_def)
  ultimately show ?thesis using q1 g1 g2 tS by auto
qed

text \<open>
  A waiting message can be lost without a word: when its turn comes and the worker cannot be started
  (the new process fails the handshake, or does not start), the message has left the queue, no turn
  was handed over and no hook of the transport is called; only the log knows.
\<close>

theorem drain_failure_is_silent:
  assumes "queue_of g rt = it # q" "idle_worker rt g"
    and "ensure_worker (e_uni E) (e_spawn E) rt (r_sup g) = (Inl e, S)" "e \<in> {WorkerProtocolError, SupPopen, SupLease LeaseOSError}"
  shows "queue_of (clear_busy_and_drain E rt g) rt = q \<and> turns (r_sup (clear_busy_and_drain E rt g)) = turns (r_sup g)
     \<and> r_effects (clear_busy_and_drain E rt g) = r_effects g"
proof -
  let ?g = "set_queue rt q (drop_busy rt g)"
  have nb: "\<not> router_is_busy rt (drop_busy rt g)" using assms(2) by (auto simp: router_is_busy_def idle_worker_def drop_busy_def split: option.split)
  have s: "send (e_uni E) (e_spawn E) (e_write E) rt f (r_sup g) = (Inl e, S)" for f using assms(3) by (simp add: send_def)
  have "turns S = turns (r_sup g)" using turns_ensure[of "e_uni E" "e_spawn E" rt "r_sup g"] assms(3) by simp
  moreover have "clear_busy_and_drain E rt g = snd (dispatch_claimed E rt (qt_chat it) (qt_thread it) (qt_text it) (qt_media it) ?g)"
    using assms(1) nb by (simp add: clear_busy_and_drain_def drain_queue_def split: prod.split sum.split)
  moreover have "r_effects (snd (dispatch_claimed E rt c t x ms ?g)) = r_effects g" for c t x ms
    using assms(4) s by (auto simp: dispatch_claimed_def dispatch_def Let_def drop_busy_def set_queue_def)
  ultimately show ?thesis
    using queue_claimed[of E rt "qt_chat it" "qt_thread it" "qt_text it" "qt_media it" ?g]
      claimed_sup(1)[of E rt "qt_chat it" "qt_thread it" "qt_text it" "qt_media it" ?g] s by simp
qed

text \<open>
  A frame with which a worker says that its turn is over: an idle status, an event of one of the final kinds, or a question
  for approval (the turn is parked) whose card can be stored.
\<close>

definition says_over :: "genv \<Rightarrow> ppath \<Rightarrow> Router \<Rightarrow> frame \<Rightarrow> bool" where
  "says_over E rt g f = (case f of
       StatusFrame tif bg idle parked \<Rightarrow> \<not> tif
     | GenericFrame EventF fs \<Rightarrow> (case aget fs ''kind'' of JStr k \<Rightarrow> lower (e_uni E) k \<in> {u ''done'', u ''cancelled'', u ''error''} | _ \<Rightarrow> False)
     | GenericFrame ApprovalAsk fs \<Rightarrow> (case r_owner g rt of None \<Rightarrow> True | Some chat \<Rightarrow> store_card E rt chat fs g \<noteq> None)
     | _ \<Rightarrow> False)"

lemma says_over_handled:
  assumes "says_over E rt g f"
  obtains g2 where "handle_outbound E rt f g = clear_busy_and_drain E rt g2" "r_sup g2 = r_sup g" "queue_of g2 = queue_of g"
proof -
  have c: "r_sup g1 = r_sup g" "queue_of g1 = queue_of g" if "store_card E rt chat fs g = Some g1" for chat fs g1
    using that by (auto simp: store_card_def split: option.splits json.splits prod.splits sum.splits)
  define card where "card = (case (r_owner g rt, f) of (Some chat, GenericFrame ApprovalAsk fs) \<Rightarrow> store_card E rt chat fs g | _ \<Rightarrow> Some g)"
  have "card \<noteq> None"
    using assms by (auto simp: says_over_def card_def split: option.split frame.splits gkind.splits)
  then obtain g1 where g1: "card = Some g1" by blast
  have s: "r_sup g1 = r_sup g" "queue_of g1 = queue_of g"
    using g1 by (auto simp: card_def dest: c split: option.splits frame.splits gkind.splits)
  have "frees_root (e_uni E) f"
    using assms by (auto simp: says_over_def final_kind_def split: frame.splits gkind.splits json.splits)
  then have "handle_outbound E rt f g = clear_busy_and_drain E rt (case r_owner g rt of Some chat \<Rightarrow> emit (OnEvent chat rt f) g1 | None \<Rightarrow> g1)"
    unfolding handle_outbound_def card_def[symmetric] by (simp add: g1 Let_def)
  then show thesis using that s by (auto split: option.splits)
qed

text \<open>
  C18. A waiting message gets its turn: when a frame that says that a turn is over is handled while the supervisor is open, the worker of the root is
  alive with no turn in flight and the pipe takes the frame, the first waiting message is handed to
  that worker as a turn and leaves the queue; no new worker is started for it.
\<close>

theorem turn_end_drains_queue:
  assumes "sup_ok (r_sup g)" "get_worker rt (r_sup g) = Some i" "alive (r_sup g) i" "\<not> turn_in_flight (s_handles (r_sup g) i)"
    and "queue_of g rt = it # q" "e_write E = WriteOk" "\<not> s_closed (r_sup g)" "says_over E rt g f"
  shows "turns (r_sup (handle_outbound E rt f g)) = turns (r_sup g) @ [(i, turn_of it)]
     \<and> queue_of (handle_outbound E rt f g) rt = q \<and> get_worker rt (r_sup (handle_outbound E rt f g)) = Some i"
proof -
  obtain g2 where h: "handle_outbound E rt f g = clear_busy_and_drain E rt g2" and g2: "r_sup g2 = r_sup g" "queue_of g2 = queue_of g"
    using says_over_handled[OF assms(8)] by blast
  let ?g = "set_queue rt q (drop_busy rt g2)"
  have nb: "\<not> router_is_busy rt (drop_busy rt g2)" using assms(2,4) g2 by (simp add: router_is_busy_def drop_busy_def)
  have c: "clear_busy_and_drain E rt g2 = snd (dispatch_claimed E rt (qt_chat it) (qt_thread it) (qt_text it) (qt_media it) ?g)"
    using assms(5) nb g2 by (simp add: clear_busy_and_drain_def drain_queue_def split: prod.split sum.split)
  have "ensure_worker (e_uni E) (e_spawn E) rt (r_sup g) = (Inr i, r_sup g)" using assms(2,3,7) by (simp add: ensure_worker_def)
  moreover have "write_frame WriteOk i (turn_of it) (r_sup g) = (Inr (), (r_sup g)\<lparr>s_wrote := s_wrote (r_sup g) @ [(i, turn_of it)]\<rparr>)"
    using assms(3) by (simp add: write_frame_def alive_def Let_def)
  ultimately have s: "send (e_uni E) (e_spawn E) (e_write E) rt (turn_of it) (r_sup g)
      = (Inr (), upd_h i (\<lambda>h. h\<lparr>wh_thread := Some (qt_thread it)\<rparr>) ((r_sup g)\<lparr>s_wrote := s_wrote (r_sup g) @ [(i, turn_of it)]\<rparr>))"
    using assms(6) by (simp add: send_def turn_of_def)
  have "turns ((r_sup g)\<lparr>s_wrote := s_wrote (r_sup g) @ [(i, turn_of it)]\<rparr>) = turns (r_sup g) @ [(i, turn_of it)]"
    by (simp add: turns_def turn_of_def is_turn_def)
  then show ?thesis
    using h c s g2 claimed_sup(1)[of E rt "qt_chat it" "qt_thread it" "qt_text it" "qt_media it" ?g] assms(2)
    by (simp add: turn_of_def get_worker_def upd_h_def turns_def)
qed

section \<open>Witnesses\<close>

definition demo_spawn :: spawn_outcome where
  "demo_spawn = \<lparr>sp_lock = LockIoOk, sp_popen = True, sp_write = WriteOk, sp_line = FFrame (StatusFrame False 0 0 None),
     sp_exit = None, sp_reap = \<lparr>rp_write = WriteOk, rp_exit = Some 0\<rparr>\<rparr>"

definition demo_env :: genv where
  "demo_env = \<lparr>e_uni = ascii_uni, e_host = user_host, e_spawn = demo_spawn, e_write = WriteOk, e_tid = u ''t1''\<rparr>"

definition demo_root :: ppath where "demo_root = parse_path (u ''/home/ann/.jarn/personal'')"

definition demo_router :: Router where
  "demo_router = new_router (\<lambda>_. None) demo_root [] (u ''steer'') None None"

text \<open>A chat starts a turn, a second chat waits behind it, and the worker reports that it works.\<close>

definition demo_hi :: gw_op where "demo_hi = Submit 7 (u ''hi'') [] None None"

definition demo_wait :: gw_op where "demo_wait = Submit 8 (u ''later'') [] None (Some (u ''queue''))"

definition demo_running :: Router where
  "demo_running = gw_apply demo_env (ReaderLine 0 (StatusFrame True 0 0 None)) (gw_apply demo_env (ReaderHook 0)
      (gw_apply demo_env demo_wait (gw_apply demo_env demo_hi demo_router)))"

lemma demo_reach: "gw_reach demo_router demo_router" "gw_reach demo_router demo_running"
  unfolding demo_running_def by (intro gw_reach.intros)+

lemma demo_running_ok: "sup_ok (r_sup demo_running)"
  by (rule reach_sup_ok[OF demo_reach(2)]) (simp add: demo_router_def new_router_def sup_ok_new)

lemma demo_running_facts:
  "get_worker demo_root (r_sup demo_running) = Some 0" "\<not> wh_dead (s_handles (r_sup demo_running) 0)"
  "map_option st_turn (wh_status (s_handles (r_sup demo_running) 0)) = Some True"
  "cs_root (chat_state demo_running 7) = demo_root" "r_mode demo_running = u ''steer''"
  "map qt_text (queue_of demo_running demo_root) = [u ''later'']"
  by code_simp+

text \<open>The worker reports that it is idle; the router has not seen the report yet.\<close>

definition demo_free :: Router where
  "demo_free = gw_apply demo_env (ReaderLine 0 (StatusFrame False 0 0 None)) (gw_apply demo_env (ReaderHook 0) demo_running)"

theorem lease_iff_tracked_witness:
  "lease_owner (s_locks (r_sup demo_running)) demo_root = Some (Own 0) \<and> get_worker demo_root (r_sup demo_running) = Some 0"
  using lease_iff_tracked[OF demo_reach(2)[unfolded demo_router_def], of demo_root 0] demo_running_facts(1) by simp


theorem queued_turns_in_order_witness:
  "queue_of (gw_apply demo_env demo_wait demo_running) demo_root \<noteq> queue_of demo_running demo_root
   \<and> (\<exists>it. queue_of (gw_apply demo_env demo_wait demo_running) demo_root = queue_of demo_running demo_root @ [it])"
proof -
  let ?q = "queue_of demo_running demo_root" and ?q' = "queue_of (gw_apply demo_env demo_wait demo_running) demo_root"
  have l: "length ?q = 1" "length ?q' = 2" by code_simp+
  moreover have "?q' \<noteq> ?q" using l by auto
  ultimately show ?thesis
    using queued_turns_in_order[OF demo_reach(2)[unfolded demo_router_def], of demo_env demo_wait demo_root]
    by (auto simp: demo_wait_def dest: arg_cong[where f = length])
qed

theorem dead_worker_swallows_message_witness:
  "map qt_text (queue_of (snd (submit_turn demo_env 7 (u ''again'') [] None None (reader_end demo_env 0 demo_running))) demo_root) = [u ''later'']
   \<and> turns (r_sup (snd (submit_turn demo_env 7 (u ''again'') [] None None (reader_end demo_env 0 demo_running)))) = turns (r_sup demo_running)"
proof -
  obtain st where st: "wh_status (s_handles (r_sup demo_running) 0) = Some st" "st_turn st" using demo_running_facts(3) by blast
  show ?thesis
    using dead_worker_swallows_message[OF demo_running_ok demo_running_facts(1,2) st demo_running_facts(4,5), of demo_env demo_env "u ''again''"]
      demo_running_facts(6) by simp
qed

definition demo_no_start :: genv where
  "demo_no_start = demo_env\<lparr>e_spawn := demo_spawn\<lparr>sp_line := FBad\<rparr>\<rparr>"

definition demo_idle :: Router where
  "demo_idle = set_queue demo_root [\<lparr>qt_chat = 8, qt_thread = u ''t1'', qt_text = u ''later'', qt_media = []\<rparr>] demo_router"

theorem drain_failure_is_silent_witness:
  "queue_of demo_idle demo_root \<noteq> [] \<and> queue_of (clear_busy_and_drain demo_no_start demo_root demo_idle) demo_root = []
   \<and> r_effects (clear_busy_and_drain demo_no_start demo_root demo_idle) = r_effects demo_idle"
proof -
  let ?it = "\<lparr>qt_chat = 8, qt_thread = u ''t1'', qt_text = u ''later'', qt_media = []\<rparr>"
  have q: "queue_of demo_idle demo_root = [?it]" by (simp add: demo_idle_def)
  have i: "idle_worker demo_root demo_idle"
    by (simp add: idle_worker_def demo_idle_def demo_router_def new_router_def new_sup_def get_worker_def)
  have "isl (fst (ensure_worker ascii_uni (demo_spawn\<lparr>sp_line := FBad\<rparr>) demo_root (r_sup demo_idle)))
      \<and> projl (fst (ensure_worker ascii_uni (demo_spawn\<lparr>sp_line := FBad\<rparr>) demo_root (r_sup demo_idle))) = WorkerProtocolError" by code_simp
  then obtain S where "ensure_worker (e_uni demo_no_start) (e_spawn demo_no_start) demo_root (r_sup demo_idle) = (Inl WorkerProtocolError, S)"
    by (cases "ensure_worker ascii_uni (demo_spawn\<lparr>sp_line := FBad\<rparr>) demo_root (r_sup demo_idle)")
      (auto simp: demo_no_start_def demo_env_def isl_def)
  from drain_failure_is_silent[OF q i this] q show ?thesis by simp
qed

definition demo_reap :: "nat \<Rightarrow> reap_outcome" where
  "demo_reap i = \<lparr>rp_write = WriteOk, rp_exit = Some 0\<rparr>"

definition demo_quiet :: Router where
  "demo_quiet = gw_apply demo_env (ReaderLine 0 (StatusFrame False 0 900000 None)) (gw_apply demo_env (ReaderHook 0) (gw_apply demo_env demo_hi demo_router))"

theorem evict_exactly_idle_witness:
  "demo_root \<in> set (fst (evict_idle 300000 demo_reap (r_sup demo_quiet)))
   \<and> get_worker demo_root (snd (evict_idle 300000 demo_reap (r_sup demo_quiet))) = None"
proof -
  have "gw_reach demo_router demo_quiet" unfolding demo_quiet_def by (intro gw_reach.intros)
  then have "sup_ok (r_sup demo_quiet)" by (rule reach_sup_ok) (simp add: demo_router_def new_router_def sup_ok_new)
  moreover have "demo_root \<in> set (fst (evict_idle 300000 demo_reap (r_sup demo_quiet)))" by code_simp
  ultimately show ?thesis using evict_exactly_idle[of "r_sup demo_quiet" 300000 demo_reap _ _ demo_root]
    by (cases "evict_idle 300000 demo_reap (r_sup demo_quiet)") auto
qed

text \<open>
  The daemon's busy mark can be lost to a stale heartbeat: a status report that the worker wrote
  before it read a turn, and that is booked after the turn was handed over, frees the root, so the next
  message is handed to the same worker as a second turn although nothing reported the end of the first.
\<close>

theorem stale_heartbeat_second_turn:
  "\<exists>g. gw_reach demo_router g \<and> map fst (turns (r_sup g)) = [0, 0] \<and> \<not> wh_dead (s_handles (r_sup g) 0)"
proof -
  define g where "g = gw_apply demo_env (Submit 8 (u ''second'') [] None None) (gw_apply demo_env (ReaderHook 0)
      (gw_apply demo_env (ReaderLine 0 (StatusFrame False 0 0 None)) (gw_apply demo_env (ReaderHook 0) (gw_apply demo_env demo_hi demo_router))))"
  have "gw_reach demo_router g" unfolding g_def by (intro gw_reach.intros)
  moreover have "map fst (turns (r_sup g)) = [0, 0]" "\<not> wh_dead (s_handles (r_sup g) 0)" unfolding g_def by code_simp+
  ultimately show ?thesis by (intro exI[of _ g] conjI)
qed

theorem turn_end_drains_queue_witness:
  "\<exists>it. map fst (turns (r_sup (handle_outbound demo_env demo_root (StatusFrame False 0 0 None) demo_free))) = [0, 0]
     \<and> queue_of demo_free demo_root = [it] \<and> queue_of (handle_outbound demo_env demo_root (StatusFrame False 0 0 None) demo_free) demo_root = []"
proof -
  have "gw_reach demo_router demo_free" unfolding demo_free_def demo_running_def by (intro gw_reach.intros)
  then have ok: "sup_ok (r_sup demo_free)" by (rule reach_sup_ok) (simp add: demo_router_def new_router_def sup_ok_new)
  have f: "get_worker demo_root (r_sup demo_free) = Some 0" "alive (r_sup demo_free) 0" "\<not> turn_in_flight (s_handles (r_sup demo_free) 0)"
    "length (queue_of demo_free demo_root) = 1" "e_write demo_env = WriteOk" "\<not> s_closed (r_sup demo_free)" "map fst (turns (r_sup demo_free)) = [0]"
    by code_simp+
  then obtain it where it: "queue_of demo_free demo_root = it # []" by (auto simp: length_Suc_conv)
  have "says_over demo_env demo_root demo_free (StatusFrame False 0 0 None)" by (simp add: says_over_def)
  from turn_end_drains_queue[OF ok f(1-3) it f(5,6) this] f(7) it show ?thesis by simp
qed

end
