(* ===== verification/Worker.thy ===== *)
theory Worker
  imports Redact Protocol Approvals
begin

text \<open>
  The worker process of a root, \<^verbatim>\<open>src/src/jarn/gateway/worker.py\<close>: the redaction of everything it sends, and the
  loop that reads frames and runs at most one turn. The work of a turn itself (controller, model, slash
  commands) is outside: a task is started, may open confirmation cards, and ends with an outcome.
  Handlers run on one event loop, so each is a step; a task's done callback and the restart of a
  waiting turn (\<^verbatim>\<open>call_soon\<close>) are later steps of their own. The clock is read in milliseconds.
\<close>

section \<open>Outbound redaction\<close>

definition REDACT_DEPTH :: nat where "REDACT_DEPTH = 6"
definition REDACT_ITEMS :: nat where "REDACT_ITEMS = 100"

definition OMITTED_DEPTH :: pystr where "OMITTED_DEPTH = u ''<omitted: max depth>''"
definition TRUNCATED :: pystr where "TRUNCATED = u ''<truncated>''"

fun redact_outbound_value :: "pyuni \<Rightarrow> pystr list \<Rightarrow> nat \<Rightarrow> json \<Rightarrow> json"
  and redact_items :: "pyuni \<Rightarrow> pystr list \<Rightarrow> nat \<Rightarrow> nat \<Rightarrow> json list \<Rightarrow> json list"
  and redact_members :: "pyuni \<Rightarrow> pystr list \<Rightarrow> nat \<Rightarrow> nat \<Rightarrow> (pystr \<times> json) list \<Rightarrow> args \<Rightarrow> args" where
  "redact_outbound_value U known depth (JStr s) = JStr (redact_secrets U known s)"
| "redact_outbound_value U known depth (JObj kvs) =
     (if depth \<ge> REDACT_DEPTH then JStr OMITTED_DEPTH else JObj (redact_members U known depth 0 kvs []))"
| "redact_outbound_value U known depth (JList xs) =
     (if depth \<ge> REDACT_DEPTH then JStr OMITTED_DEPTH
      else JList (redact_items U known depth 0 xs
                    @ (if length xs > REDACT_ITEMS then [JStr TRUNCATED] else [])))"
| "redact_outbound_value U known depth v = (if depth \<ge> REDACT_DEPTH then JStr OMITTED_DEPTH else v)"
| "redact_items U known depth n [] = []"
| "redact_items U known depth n (x # xs) =
     (if n \<ge> REDACT_ITEMS then [] else redact_outbound_value U known (Suc depth) x # redact_items U known depth (Suc n) xs)"
| "redact_members U known depth n [] out = out"
| "redact_members U known depth n ((k, v) # kvs) out =
     (if n \<ge> REDACT_ITEMS then dput (u ''__truncated'') (JBool True) out
      else redact_members U known depth (Suc n) kvs
             (dput k (case v of JObj a \<Rightarrow> if k = u ''args'' then JObj (sanitize_tool_args U known a)
                                         else redact_outbound_value U known (Suc depth) v
                      | _ \<Rightarrow> redact_outbound_value U known (Suc depth) v) out))"

text \<open>The frames a worker sends, with the types of their dataclasses.\<close>

record AskFrame =
  af_token :: pystr
  af_thread :: pystr
  af_action :: pystr
  af_target :: pystr
  af_description :: pystr
  af_dangerous :: bool
  af_reason :: pystr
  af_args :: args
  af_plan :: "pystr option"
  af_memory :: "args option"
  af_skill :: "args option"

datatype out_frame =
    OEvent pystr pystr pystr args "pystr option"
  | OStatus bool int int "pyint option"
  | OAsk AskFrame
  | OError pystr pystr "pystr option"

definition red_suggestion :: "pyuni \<Rightarrow> pystr list \<Rightarrow> args option \<Rightarrow> args option" where
  "red_suggestion U known x = map_option (\<lambda>d. case redact_outbound_value U known 0 (JObj d) of
       JObj d' \<Rightarrow> d' | r \<Rightarrow> [(u ''value'', r)]) x"

definition red_dict :: "pyuni \<Rightarrow> pystr list \<Rightarrow> args \<Rightarrow> args" where
  "red_dict U known d = redact_members U known 0 0 d []"

fun redact_outbound_frame :: "pyuni \<Rightarrow> pystr list \<Rightarrow> out_frame \<Rightarrow> out_frame" where
  "redact_outbound_frame U known (OEvent tid knd x data progress) =
     OEvent tid knd (redact_secrets U known x) (red_dict U known data) progress"
| "redact_outbound_frame U known (OAsk a) =
     OAsk (a\<lparr>af_action := redact_secrets U known (af_action a), af_target := redact_secrets U known (af_target a),
             af_description := redact_secrets U known (af_description a), af_reason := redact_secrets U known (af_reason a),
             af_args := sanitize_tool_args U known (af_args a), af_plan := map_option (redact_secrets U known) (af_plan a),
             af_memory := red_suggestion U known (af_memory a), af_skill := red_suggestion U known (af_skill a)\<rparr>)"
| "redact_outbound_frame U known (OError msg cde tid) = OError (redact_secrets U known msg) cde tid"
| "redact_outbound_frame U known (OStatus a b c d) = OStatus a b c d"

definition json_of_opt :: "pystr option \<Rightarrow> json" where
  "json_of_opt x = (case x of None \<Rightarrow> JNull | Some s \<Rightarrow> JStr s)"

definition json_of_dict :: "args option \<Rightarrow> json" where
  "json_of_dict x = (case x of None \<Rightarrow> JNull | Some d \<Rightarrow> JObj d)"

fun wire_frame :: "out_frame \<Rightarrow> frame" where
  "wire_frame (OEvent tid knd x data progress) = GenericFrame EventF [(u ''thread_id'', JStr tid), (u ''kind'', JStr knd),
     (u ''text'', JStr x), (u ''data'', JObj data), (u ''progress'', json_of_opt progress)]"
| "wire_frame (OStatus a b c d) = StatusFrame a b c d"
| "wire_frame (OAsk a) = GenericFrame ApprovalAsk [(u ''token'', JStr (af_token a)), (u ''thread_id'', JStr (af_thread a)),
     (u ''action'', JStr (af_action a)), (u ''target'', JStr (af_target a)), (u ''description'', JStr (af_description a)),
     (u ''dangerous'', JBool (af_dangerous a)), (u ''reason'', JStr (af_reason a)), (u ''args'', JObj (af_args a)),
     (u ''plan'', json_of_opt (af_plan a)), (u ''suggested_memory'', json_of_dict (af_memory a)), (u ''suggested_skill'', json_of_dict (af_skill a))]"
| "wire_frame (OError msg cde tid) = GenericFrame ErrorF [(u ''message'', JStr msg), (u ''code'', JStr cde), (u ''thread_id'', json_of_opt tid)]"

section \<open>State\<close>

datatype job = TurnJob pystr pystr "MediaRef list" "int option" | VerdictJob pystr pystr

record GatewayWorker =
  gk_handshaken :: bool
  gk_shutdown :: bool
  gk_tasks :: "(job \<times> bool) list"
  gk_current :: "nat option"
  gk_thread :: "pystr option"
  gk_queued :: "job option"
  gk_callbacks :: "nat list"
  gk_kicks :: "job list"
  gk_confirms :: "(pystr, bool option) pydict"
  gk_steer :: "pystr option"
  gk_aborts :: nat
  gk_last :: int
  gk_out :: "out_frame list"
  gk_exit :: "int option"

text \<open>What a step does not decide: the registry of secrets, configuration, the clock, the pending
  approvals on disk, the number of background jobs, and the text of an exception.\<close>

record wenv =
  we_uni :: pyuni
  we_conv :: int_conv
  we_host :: host
  we_root :: pystr
  we_known :: "pystr list"
  we_mode :: pystr
  we_progress :: pystr
  we_now :: int
  we_jobs :: int
  we_file :: json_file
  we_message :: pystr

text \<open>\<^verbatim>\<open>emit\<close>: redact, then write.\<close>

definition aemit :: "wenv \<Rightarrow> out_frame \<Rightarrow> GatewayWorker \<Rightarrow> GatewayWorker" where
  "aemit E f w = w\<lparr>gk_out := gk_out w @ [redact_outbound_frame (we_uni E) (we_known E) f]\<rparr>"

definition task_running :: "GatewayWorker \<Rightarrow> nat \<Rightarrow> bool" where
  "task_running w i \<longleftrightarrow> i < length (gk_tasks w) \<and> \<not> snd (gk_tasks w ! i)"

definition worker_in_flight :: "GatewayWorker \<Rightarrow> bool" where
  "worker_in_flight w = (case gk_current w of None \<Rightarrow> False | Some i \<Rightarrow> task_running w i)"

definition parked_count :: "wenv \<Rightarrow> int" where
  "parked_count E = int (length (filter (\<lambda>r. resolve_root (we_host E) (pa_root r) = Inr (we_root E) \<or> pa_root r = we_root E)
     (pa_list (we_uni E) (we_file E))))"

definition status_frame :: "wenv \<Rightarrow> GatewayWorker \<Rightarrow> out_frame" where
  "status_frame E w = OStatus (worker_in_flight w) (we_jobs E)
     (if worker_in_flight w then 0 else max 0 (we_now E - gk_last w)) (Some (PyInt (parked_count E)))"

definition touch :: "wenv \<Rightarrow> GatewayWorker \<Rightarrow> GatewayWorker" where
  "touch E w = w\<lparr>gk_last := we_now E\<rparr>"

definition start_task :: "job \<Rightarrow> pystr \<Rightarrow> GatewayWorker \<Rightarrow> GatewayWorker" where
  "start_task j tid w = w\<lparr>gk_thread := Some tid, gk_tasks := gk_tasks w @ [(j, False)], gk_current := Some (length (gk_tasks w))\<rparr>"

section \<open>Handlers\<close>

datatype worker_exn = WorkerOrderingError | WorkerUnsupportedSchema | WorkerCrash

definition thread_matches :: "pystr \<Rightarrow> GatewayWorker \<Rightarrow> bool" where
  "thread_matches tid w = (case gk_thread w of None \<Rightarrow> True | Some t \<Rightarrow> t = [] \<or> tid = t)"

definition mismatch_text :: "pyuni \<Rightarrow> string \<Rightarrow> pystr \<Rightarrow> GatewayWorker \<Rightarrow> pystr" where
  "mismatch_text U what tid w = u what @ u '' thread_id='' @ repr_str U tid @ u '' does not match in-flight ''
     @ (case gk_thread w of None \<Rightarrow> u ''None'' | Some t \<Rightarrow> repr_str U t)"

definition handle_steer :: "wenv \<Rightarrow> pystr \<Rightarrow> pystr \<Rightarrow> GatewayWorker \<Rightarrow> GatewayWorker" where
  "handle_steer E tid x w =
     (if \<not> worker_in_flight w then aemit E (OError (u ''no turn in flight to steer'') (u ''idle'') (Some tid)) w
      else if \<not> thread_matches tid w then aemit E (OError (mismatch_text (we_uni E) ''steer'' tid w) (u ''thread_mismatch'') (Some tid)) w
      else w\<lparr>gk_steer := Some x\<rparr>)"

definition should_steer_busy :: "wenv \<Rightarrow> pystr \<Rightarrow> MediaRef list \<Rightarrow> GatewayWorker \<Rightarrow> bool" where
  "should_steer_busy E tid ms w \<longleftrightarrow> we_mode E = u ''steer'' \<and> ms = [] \<and> thread_matches tid w"

definition busy_ack_frame :: "wenv \<Rightarrow> pystr \<Rightarrow> string \<Rightarrow> out_frame" where
  "busy_ack_frame E tid md = OEvent tid (u ''busy_ack'') (u ''Working'' @ [8230]) [(u ''mode'', JStr (u md))] (Some (we_progress E))"

definition handle_turn :: "wenv \<Rightarrow> pystr \<Rightarrow> pystr \<Rightarrow> MediaRef list \<Rightarrow> int option \<Rightarrow> GatewayWorker \<Rightarrow> GatewayWorker" where
  "handle_turn E tid x ms chat w =
     (if gk_shutdown w then w
      else if worker_in_flight w then
        (if should_steer_busy E tid ms w
         then aemit E (busy_ack_frame E tid ''steer'') (handle_steer E tid x w)
         else aemit E (busy_ack_frame E tid ''queue'') (w\<lparr>gk_queued := Some (TurnJob tid x ms chat)\<rparr>))
      else start_task (TurnJob tid x ms chat) tid w)"

definition handle_job :: "wenv \<Rightarrow> job \<Rightarrow> GatewayWorker \<Rightarrow> GatewayWorker" where
  "handle_job E j w = (case j of TurnJob tid x ms chat \<Rightarrow> handle_turn E tid x ms chat w | VerdictJob _ _ \<Rightarrow> w)"

text \<open>\<^verbatim>\<open>_on_turn_done\<close>, the done callback of task \<open>i\<close>.\<close>

definition on_turn_done :: "wenv \<Rightarrow> nat \<Rightarrow> GatewayWorker \<Rightarrow> GatewayWorker" where
  "on_turn_done E i w =
     (if gk_current w = Some i
      then touch E (w\<lparr>gk_current := None, gk_thread := None, gk_queued := None,
             gk_kicks := gk_kicks w @ (case gk_queued w of Some j \<Rightarrow> if gk_shutdown w then [] else [j] | None \<Rightarrow> [])\<rparr>)
      else w)"

definition handle_approval_verdict :: "wenv \<Rightarrow> pystr \<Rightarrow> bool \<Rightarrow> GatewayWorker \<Rightarrow> worker_exn option \<times> GatewayWorker" where
  "handle_approval_verdict E tok ok w =
     (case dget (gk_confirms w) tok of
        Some r \<Rightarrow> (None, if r = None then w\<lparr>gk_confirms := dput tok (Some ok) (gk_confirms w)\<rparr> else w)
      | None \<Rightarrow>
          if worker_in_flight w
          then (None, aemit E (OError (u ''cannot resume approval while a turn is in flight'') (u ''busy'') None) w)
          else (case pa_get (we_uni E) tok (we_file E) of
              Inl e \<Rightarrow> (Some WorkerCrash, w)
            | Inr None \<Rightarrow> (None, aemit E (OError (u ''unknown approval token: '' @ tok) (u ''unknown_token'') None) w)
            | Inr (Some r) \<Rightarrow> (None, start_task (VerdictJob tok (pa_thread_id r)) (pa_thread_id r) w)))"

definition handle_cancel :: "wenv \<Rightarrow> pystr \<Rightarrow> GatewayWorker \<Rightarrow> GatewayWorker" where
  "handle_cancel E tid w0 =
     (let w = w0\<lparr>gk_queued := None\<rparr>
      in if \<not> worker_in_flight w then w
         else if \<not> thread_matches tid w
         then aemit E (OError (mismatch_text (we_uni E) ''cancel'' tid w) (u ''thread_mismatch'') (Some tid)) w
         else w\<lparr>gk_aborts := Suc (gk_aborts w)\<rparr>)"

definition handle_shutdown :: "GatewayWorker \<Rightarrow> GatewayWorker" where
  "handle_shutdown w = (let w1 = w\<lparr>gk_shutdown := True, gk_queued := None\<rparr>
     in if worker_in_flight w1 then w1\<lparr>gk_aborts := Suc (gk_aborts w1)\<rparr> else w1)"

text \<open>The fields of a generic frame that the handlers use. A field that is not a string (or, for
  \<^verbatim>\<open>approved\<close>, whatever is truthy) does not occur: the daemon writes these frames.\<close>

definition fstr :: "args \<Rightarrow> string \<Rightarrow> pystr" where
  "fstr fs k = (case aget fs k of JStr s \<Rightarrow> s | _ \<Rightarrow> [])"

definition handle_frame :: "wenv \<Rightarrow> frame \<Rightarrow> GatewayWorker \<Rightarrow> worker_exn option \<times> GatewayWorker" where
  "handle_frame E f w0 =
     (let w = touch E w0
      in case f of
           HandshakeFrame v \<Rightarrow>
             if v \<noteq> SCHEMA_VERSION then (Some WorkerUnsupportedSchema, w)
             else (let w1 = w\<lparr>gk_handshaken := True\<rparr> in (None, aemit E (status_frame E w1) w1))
         | _ \<Rightarrow>
             if \<not> gk_handshaken w
             then (Some WorkerOrderingError,
                   aemit E (OError (u ''handshake required before other frames'') (u ''handshake_required'') None) w)
             else (case f of
                 TurnFrame tid x ms chat \<Rightarrow> (None, handle_turn E tid x ms chat w)
               | ShutdownFrame \<Rightarrow> (None, handle_shutdown w)
               | GenericFrame ApprovalVerdict fs \<Rightarrow>
                   handle_approval_verdict E (fstr fs ''token'') (truthy (we_uni E) (aget fs ''approved'')) w
               | GenericFrame Cancel fs \<Rightarrow> (None, handle_cancel E (fstr fs ''thread_id'') w)
               | GenericFrame Steer fs \<Rightarrow> (None, handle_steer E (fstr fs ''thread_id'') (fstr fs ''text'') w)
               | _ \<Rightarrow> (None, aemit E (OError (u ''unsupported frame: '' @ we_message E) (u ''unsupported'') None) w)))"

section \<open>Tasks\<close>

text \<open>How \<^verbatim>\<open>_run_turn\<close> and \<^verbatim>\<open>_run_approval_verdict\<close> end.\<close>

datatype task_end = EndOk | EndParked | EndCancelled | EndFailed pystr

definition job_thread :: "job \<Rightarrow> pystr" where
  "job_thread j = (case j of TurnJob tid x ms chat \<Rightarrow> tid | VerdictJob tok tid \<Rightarrow> tid)"

definition end_frames :: "job \<Rightarrow> task_end \<Rightarrow> out_frame list" where
  "end_frames j e = (case e of
       EndOk \<Rightarrow> []
     | EndParked \<Rightarrow> []
     | EndCancelled \<Rightarrow> [OError (case j of TurnJob _ _ _ _ \<Rightarrow> u ''turn cancelled'' | VerdictJob _ _ \<Rightarrow> u ''approval resume cancelled'')
                          (u ''cancelled'') (Some (job_thread j))]
     | EndFailed msg \<Rightarrow> [OError msg (case j of TurnJob _ _ _ _ \<Rightarrow> u ''turn_failed'' | VerdictJob _ _ \<Rightarrow> u ''resume_failed'') (Some (job_thread j))])"

definition end_task :: "wenv \<Rightarrow> nat \<Rightarrow> task_end \<Rightarrow> GatewayWorker \<Rightarrow> GatewayWorker" where
  "end_task E i e w =
     (let j = fst (gk_tasks w ! i)
      in (fold (aemit E) (end_frames j e) w)\<lparr>gk_tasks := (gk_tasks w)[i := (j, True)], gk_callbacks := gk_callbacks w @ [i]\<rparr>)"

definition open_confirm :: "wenv \<Rightarrow> string \<Rightarrow> pystr \<Rightarrow> pystr \<Rightarrow> GatewayWorker \<Rightarrow> GatewayWorker" where
  "open_confirm E knd tok tid w =
     aemit E (OEvent tid (u knd @ u ''_confirm'') [] [(u ''token'', JStr tok)] (Some (we_progress E)))
       (w\<lparr>gk_confirms := dput tok None (gk_confirms w)\<rparr>)"

definition close_confirm :: "pystr \<Rightarrow> GatewayWorker \<Rightarrow> GatewayWorker" where
  "close_confirm tok w = w\<lparr>gk_confirms := dpop tok (gk_confirms w)\<rparr>"

section \<open>The main loop\<close>

text \<open>The \<^verbatim>\<open>finally\<close> of \<^verbatim>\<open>run\<close>: report and cancel a turn that still runs.\<close>

definition finish :: "wenv \<Rightarrow> int \<Rightarrow> GatewayWorker \<Rightarrow> GatewayWorker" where
  "finish E code w =
     (let w1 = w\<lparr>gk_shutdown := True, gk_exit := Some code\<rparr>
      in case gk_current w1 of
           Some i \<Rightarrow> if worker_in_flight w1
             then end_task E i EndCancelled (aemit E (OError (u ''worker exiting with turn in flight'') (u ''worker_death'') (gk_thread w1)) w1)
             else w1
         | None \<Rightarrow> w1)"

definition schema_exit :: "wenv \<Rightarrow> GatewayWorker \<Rightarrow> GatewayWorker" where
  "schema_exit E w = finish E 2 (aemit E (OError (we_message E) (u ''unsupported_schema_version'') None) w)"

definition crash_exit :: "wenv \<Rightarrow> GatewayWorker \<Rightarrow> GatewayWorker" where
  "crash_exit E w = finish E 1 (aemit E (OError (u ''worker crashed: '' @ we_message E) (u ''worker_death'') None) w)"

definition run_line :: "wenv \<Rightarrow> pystr \<Rightarrow> GatewayWorker \<Rightarrow> GatewayWorker" where
  "run_line E line w =
     (if gk_shutdown w then finish E 0 w
      else (case decode_inbound_line (we_uni E) (we_conv E) line of
          Inl (UnsupportedSchemaVersion v) \<Rightarrow> schema_exit E w
        | Inl ProtocolError \<Rightarrow> aemit E (OError (we_message E) (u ''protocol_error'') None) w
        | Inl DecodeOverflow \<Rightarrow> crash_exit E w
        | Inr f \<Rightarrow>
            (case handle_frame E f w of
               (None, w1) \<Rightarrow> if gk_shutdown w1 then finish E 0 w1 else w1
             | (Some WorkerOrderingError, w1) \<Rightarrow> finish E 2 w1
             | (Some WorkerUnsupportedSchema, w1) \<Rightarrow> schema_exit E w1
             | (Some WorkerCrash, w1) \<Rightarrow> crash_exit E w1)))"

definition heartbeat :: "wenv \<Rightarrow> GatewayWorker \<Rightarrow> GatewayWorker" where
  "heartbeat E w = (if \<not> gk_shutdown w \<and> gk_handshaken w then aemit E (status_frame E w) w else w)"

section \<open>Steps\<close>

datatype wk_op =
    StdinLine pystr
  | StdinEof
  | Heartbeat
  | TaskEnd nat task_end
  | DoneCallback nat
  | Kick
  | TaskFrame nat out_frame
  | OpenConfirm nat string pystr
  | CloseConfirm pystr

text \<open>Once the loop has ended no line is read; a task's callback runs after the task is done. A running task emits whatever
  its agent streams, and the question it parks. A step that cannot happen changes nothing.\<close>

fun wk_apply :: "wenv \<Rightarrow> wk_op \<Rightarrow> GatewayWorker \<Rightarrow> GatewayWorker" where
  "wk_apply E (StdinLine line) w = (if gk_exit w = None then run_line E line w else w)"
| "wk_apply E StdinEof w = (if gk_exit w = None then finish E 0 w else w)"
| "wk_apply E Heartbeat w = heartbeat E w"
| "wk_apply E (TaskEnd i e) w = (if task_running w i then end_task E i e w else w)"
| "wk_apply E (DoneCallback i) w =
     (if i \<in> set (gk_callbacks w) \<and> \<not> task_running w i then on_turn_done E i (w\<lparr>gk_callbacks := removeAll i (gk_callbacks w)\<rparr>) else w)"
| "wk_apply E Kick w = (case gk_kicks w of [] \<Rightarrow> w | j # js \<Rightarrow> handle_job E j (w\<lparr>gk_kicks := js\<rparr>))"
| "wk_apply E (TaskFrame i f) w = (if task_running w i then aemit E f w else w)"
| "wk_apply E (OpenConfirm i knd tok) w =
     (if task_running w i then open_confirm E knd tok (job_thread (fst (gk_tasks w ! i))) w else w)"
| "wk_apply E (CloseConfirm tok) w = close_confirm tok w"

definition new_worker :: "int \<Rightarrow> GatewayWorker" where
  "new_worker now = \<lparr>gk_handshaken = False, gk_shutdown = False, gk_tasks = [], gk_current = None, gk_thread = None, gk_queued = None,
     gk_callbacks = [], gk_kicks = [], gk_confirms = [], gk_steer = None, gk_aborts = 0, gk_last = now, gk_out = [], gk_exit = None\<rparr>"

inductive wk_reach :: "GatewayWorker \<Rightarrow> GatewayWorker \<Rightarrow> bool" for w0 where
  wk_start: "wk_reach w0 w0"
| wk_step: "wk_reach w0 w \<Longrightarrow> wk_reach w0 (wk_apply E op w)"

section \<open>One turn at a time\<close>

definition wk_ok :: "GatewayWorker \<Rightarrow> bool" where
  "wk_ok w \<longleftrightarrow> Collect (task_running w) \<subseteq> set_option (gk_current w) \<and> set_option (gk_current w) \<subseteq> {..<length (gk_tasks w)}
     \<and> (\<not> gk_handshaken w \<longrightarrow> gk_tasks w = [] \<and> gk_queued w = None \<and> gk_kicks w = [])"

lemma aemit_simps [simp]:
  "gk_tasks (aemit E f w) = gk_tasks w" "gk_current (aemit E f w) = gk_current w" "gk_queued (aemit E f w) = gk_queued w"
  "gk_kicks (aemit E f w) = gk_kicks w" "gk_handshaken (aemit E f w) = gk_handshaken w" "gk_shutdown (aemit E f w) = gk_shutdown w"
  "gk_callbacks (aemit E f w) = gk_callbacks w" "gk_exit (aemit E f w) = gk_exit w" "gk_thread (aemit E f w) = gk_thread w"
  "gk_steer (aemit E f w) = gk_steer w"
  by (simp_all add: aemit_def)

lemma touch_simps [simp]:
  "gk_tasks (touch E w) = gk_tasks w" "gk_current (touch E w) = gk_current w" "gk_queued (touch E w) = gk_queued w"
  "gk_kicks (touch E w) = gk_kicks w" "gk_handshaken (touch E w) = gk_handshaken w" "gk_shutdown (touch E w) = gk_shutdown w"
  "gk_callbacks (touch E w) = gk_callbacks w" "gk_exit (touch E w) = gk_exit w" "gk_thread (touch E w) = gk_thread w"
  by (simp_all add: touch_def)

lemma emits_simps [simp]:
  "gk_tasks (fold (aemit E) fs w) = gk_tasks w" "gk_current (fold (aemit E) fs w) = gk_current w" "gk_queued (fold (aemit E) fs w) = gk_queued w"
  "gk_kicks (fold (aemit E) fs w) = gk_kicks w" "gk_handshaken (fold (aemit E) fs w) = gk_handshaken w"
  "gk_shutdown (fold (aemit E) fs w) = gk_shutdown w" "gk_thread (fold (aemit E) fs w) = gk_thread w"
  by (induction fs arbitrary: w) simp_all

lemma flight_cong: "gk_tasks w' = gk_tasks w \<Longrightarrow> gk_current w' = gk_current w \<Longrightarrow> worker_in_flight w' = worker_in_flight w"
  by (simp add: worker_in_flight_def task_running_def split: option.split)

lemma running_cong: "gk_tasks w' = gk_tasks w \<Longrightarrow> task_running w' = task_running w"
  by (simp add: task_running_def fun_eq_iff)

lemma wk_ok_cong:
  assumes "wk_ok w" "gk_tasks w' = gk_tasks w" "gk_current w' = gk_current w"
    "gk_handshaken w' \<or> (\<not> gk_handshaken w \<and> gk_queued w' \<in> {None, gk_queued w} \<and> gk_kicks w' = gk_kicks w)"
  shows "wk_ok w'"
  using assms unfolding wk_ok_def running_cong[OF assms(2)] by auto

lemma wk_ok_fields [simp]:
  "wk_ok (aemit E f w) = wk_ok w" "wk_ok (touch E w) = wk_ok w" "wk_ok (w\<lparr>gk_steer := x\<rparr>) = wk_ok w"
  "wk_ok (w\<lparr>gk_aborts := n\<rparr>) = wk_ok w" "wk_ok (w\<lparr>gk_confirms := c\<rparr>) = wk_ok w" "wk_ok (w\<lparr>gk_shutdown := b\<rparr>) = wk_ok w"
  "wk_ok (w\<lparr>gk_callbacks := cb\<rparr>) = wk_ok w" "wk_ok (w\<lparr>gk_exit := e\<rparr>) = wk_ok w" "wk_ok (w\<lparr>gk_shutdown := b, gk_exit := e\<rparr>) = wk_ok w"
  by (simp_all add: wk_ok_def task_running_def[abs_def])

lemma wk_ok_queued: "wk_ok w \<Longrightarrow> q = None \<or> gk_handshaken w \<Longrightarrow> wk_ok (w\<lparr>gk_queued := q\<rparr>)"
  by (rule wk_ok_cong) auto

lemma wk_ok_handshake: "wk_ok w \<Longrightarrow> wk_ok (w\<lparr>gk_handshaken := True\<rparr>)"
  by (rule wk_ok_cong) auto

lemma only_current_runs: "wk_ok w \<Longrightarrow> task_running w i \<Longrightarrow> gk_current w = Some i \<and> worker_in_flight w"
  by (auto simp: wk_ok_def worker_in_flight_def)

lemma start_ok:
  assumes "wk_ok w" "gk_handshaken w" "\<not> worker_in_flight w"
  shows "wk_ok (start_task j tid w)"
proof -
  have "\<not> task_running w i" for i using only_current_runs[OF assms(1), of i] assms(3) by blast
  then have "Collect (task_running (start_task j tid w)) \<subseteq> {length (gk_tasks w)}"
    by (auto simp: task_running_def start_task_def nth_append less_Suc_eq split: if_splits)
  then show ?thesis unfolding wk_ok_def using assms(2) by (simp add: start_task_def)
qed

lemma steer_ok: "wk_ok (handle_steer E tid x w) = wk_ok w"
  by (simp add: handle_steer_def)

lemma turn_ok:
  assumes "wk_ok w" "gk_handshaken w"
  shows "wk_ok (handle_turn E tid x ms chat w)"
  using assms start_ok by (simp add: handle_turn_def steer_ok wk_ok_queued)

lemma verdict_ok:
  assumes "wk_ok w" "gk_handshaken w"
  shows "wk_ok (snd (handle_approval_verdict E tok ok w))"
  using assms start_ok by (simp add: handle_approval_verdict_def split: option.split sum.split)

lemma end_ok:
  assumes "wk_ok w" "task_running w i"
  shows "wk_ok (end_task E i e w)"
proof -
  have "task_running w k" if "task_running (end_task E i e w) k" for k
    using that by (cases "k = i") (auto simp: task_running_def end_task_def Let_def)
  then have r: "Collect (task_running (end_task E i e w)) \<subseteq> Collect (task_running w)" by blast
  have "gk_tasks w \<noteq> []" using assms(2) by (auto simp: task_running_def)
  then have "gk_handshaken w" using assms(1) by (auto simp: wk_ok_def)
  moreover have "Collect (task_running (end_task E i e w)) \<subseteq> set_option (gk_current w)" using r assms(1) unfolding wk_ok_def by blast
  ultimately show ?thesis using assms(1) unfolding wk_ok_def by (simp add: end_task_def Let_def)
qed

lemma finish_ok:
  assumes "wk_ok w"
  shows "wk_ok (finish E c w)"
proof -
  let ?w = "w\<lparr>gk_shutdown := True, gk_exit := Some c\<rparr>"
  have "task_running (aemit E f ?w) i" if "gk_current w = Some i" "worker_in_flight ?w" for f i
    using that by (simp add: worker_in_flight_def task_running_def)
  then show ?thesis using assms end_ok by (simp add: finish_def Let_def split: option.split)
qed

lemma frame_ok_keeps:
  assumes "wk_ok w"
  shows "wk_ok (snd (handle_frame E f w))"
proof -
  have t: "wk_ok (touch E w)" using assms by simp
  have "wk_ok (handle_cancel E tid (touch E w))" "wk_ok (handle_shutdown (touch E w))" for tid
    using t wk_ok_queued[OF t, of None] wk_ok_queued[of "(touch E w)\<lparr>gk_shutdown := True\<rparr>" None] by (simp_all add: handle_cancel_def handle_shutdown_def Let_def)
  then show ?thesis
    using assms turn_ok[OF t] verdict_ok[OF t] wk_ok_handshake[OF t]
    by (simp add: handle_frame_def Let_def steer_ok split: frame.split gkind.split)
qed

lemma line_ok:
  assumes "wk_ok w"
  shows "wk_ok (run_line E line w)"
proof -
  have "wk_ok w'" if "handle_frame E f w = (r, w')" for f r w' using frame_ok_keeps[OF assms, of E f] that by simp
  then show ?thesis
    using assms finish_ok
    by (simp add: run_line_def schema_exit_def crash_exit_def split: sum.split decode_error.split prod.split option.split worker_exn.split)
qed

lemma done_ok:
  assumes "wk_ok w" "\<not> task_running w i"
  shows "wk_ok (on_turn_done E i w)"
proof (cases "gk_current w = Some i")
  case True
  then have "Collect (task_running w) = {}" using assms only_current_runs[OF assms(1)] by auto
  moreover have "gk_handshaken w" using assms(1) True by (auto simp: wk_ok_def)
  ultimately show ?thesis unfolding wk_ok_def on_turn_done_def using True by (simp add: task_running_def[abs_def])
qed (use assms in \<open>simp add: on_turn_done_def\<close>)

lemma wk_step_ok:
  assumes "wk_ok w"
  shows "wk_ok (wk_apply E op w)"
proof (cases op)
  case (DoneCallback i)
  have "task_running (w\<lparr>gk_callbacks := cb\<rparr>) i = task_running w i" for cb by (simp add: task_running_def)
  then show ?thesis using DoneCallback assms done_ok[of "w\<lparr>gk_callbacks := removeAll i (gk_callbacks w)\<rparr>" i E] by simp
next
  case Kick
  show ?thesis
  proof (cases "gk_kicks w")
    case (Cons j js)
    then have h: "gk_handshaken w" using assms by (auto simp: wk_ok_def)
    have "wk_ok (w\<lparr>gk_kicks := js\<rparr>)" by (rule wk_ok_cong[OF assms]) (use h in simp_all)
    then show ?thesis using Kick Cons h turn_ok by (simp add: handle_job_def split: job.split)
  qed (use Kick assms in simp)
qed (use assms in \<open>simp_all add: line_ok finish_ok heartbeat_def end_ok open_confirm_def close_confirm_def\<close>)

lemma reach_wk_ok: "wk_reach (new_worker now) w \<Longrightarrow> wk_ok w"
proof (induction rule: wk_reach.induct)
  case wk_start
  show ?case by (simp add: wk_ok_def new_worker_def task_running_def)
qed (rule wk_step_ok)

section \<open>After the end\<close>

lemma finish_tasks: "length (gk_tasks (finish E c w)) = length (gk_tasks w)"
  by (simp add: finish_def end_task_def Let_def split: option.split)

lemma shut_turn: "gk_shutdown w \<Longrightarrow> handle_turn E tid x ms chat w = w"
  by (simp add: handle_turn_def)

lemma shut_step:
  assumes "gk_shutdown w"
  shows "length (gk_tasks (wk_apply E op w)) = length (gk_tasks w) \<and> gk_shutdown (wk_apply E op w)"
proof (cases op)
  case (StdinLine l)
  have "gk_shutdown (finish E c w)" for c by (simp add: finish_def end_task_def Let_def split: option.split)
  then show ?thesis using assms StdinLine by (simp add: run_line_def finish_tasks)
next
  case StdinEof
  have "gk_shutdown (finish E c w)" for c by (simp add: finish_def end_task_def Let_def split: option.split)
  then show ?thesis using assms StdinEof by (simp add: finish_tasks)
qed (use assms in \<open>auto simp: heartbeat_def end_task_def on_turn_done_def handle_job_def shut_turn open_confirm_def close_confirm_def Let_def
    split: list.split job.split\<close>)

section \<open>Redacted values\<close>

lemma redact_value_hides:
  assumes "unspelled s" "\<not> contains OMITTED_DEPTH s" "\<not> contains TRUNCATED s"
  shows "s \<in> set known \<Longrightarrow> str_all (\<lambda>t. \<not> contains t s) (redact_outbound_value U known depth v)"
    and "s \<in> set known \<Longrightarrow> list_all (str_all (\<lambda>t. \<not> contains t s)) (redact_items U known depth n xs)"
    and "s \<in> set known \<Longrightarrow> list_all (\<lambda>(k, v). str_all (\<lambda>t. \<not> contains t s) v) out
      \<Longrightarrow> list_all (\<lambda>(k, v). str_all (\<lambda>t. \<not> contains t s) v) (redact_members U known depth n kvs out)"
proof (induction U known depth v and U known depth n xs and U known depth n kvs out rule: redact_outbound_value_redact_items_redact_members.induct)
  case (1 U known depth x)
  then show ?case using assms(1) redact_secrets_hides[of s known U x] by (simp add: unspelled_def)
next
  case (8 U known depth n k v kvs out)
  show ?case
  proof (cases "n \<ge> REDACT_ITEMS")
    case True
    then show ?thesis using "8.prems"(2) by (simp add: dput_all)
  next
    case False
    define y where "y = (case v of JObj a \<Rightarrow> if k = u ''args'' then JObj (sanitize_tool_args U known a)
          else redact_outbound_value U known (Suc depth) v | _ \<Rightarrow> redact_outbound_value U known (Suc depth) v)"
    have "str_all (\<lambda>t. \<not> contains t s) y"
      using "8.IH"(1-7) "8.prems"(1) False sanitize_loop_hides[OF assms(1) "8.prems"(1), of "[]"]
      by (cases v) (auto simp: y_def sanitize_tool_args_def)
    then show ?thesis using "8.IH" "8.prems" False by (simp add: y_def dput_all)
  qed
qed (use assms in \<open>auto simp: list_all_iff\<close>)

text \<open>The parts of a frame that carry content (not its ids, kind, code and counters).\<close>

fun content :: "out_frame \<Rightarrow> json list" where
  "content (OEvent tid knd x data progress) = [JStr x, JObj data]"
| "content (OStatus a b c d) = []"
| "content (OAsk a) = [JStr (af_action a), JStr (af_target a), JStr (af_description a), JStr (af_reason a), JObj (af_args a),
     json_of_opt (af_plan a), json_of_dict (af_memory a), json_of_dict (af_skill a)]"
| "content (OError msg cde tid) = [JStr msg]"

section \<open>Properties\<close>

text \<open>
  C16. A worker runs one turn at a time: in every state it can come to from its start, whatever lines it
  reads and in whatever order tasks end, callbacks run and waiting turns are restarted, at most one task
  is running, and it is the one that cancel and steer address. Before the handshake none was started.
\<close>

theorem worker_runs_one_task:
  assumes "wk_reach (new_worker now) w"
  shows "(\<forall>i j. task_running w i \<and> task_running w j \<longrightarrow> i = j \<and> gk_current w = Some i)
     \<and> (\<not> gk_handshaken w \<longrightarrow> gk_tasks w = [])"
proof -
  have ok: "wk_ok w" by (rule reach_wk_ok[OF assms])
  then show ?thesis using only_current_runs[OF ok] by (fastforce simp: wk_ok_def)
qed

text \<open>
  After a worker was told to shut down, or lost its input, it starts no further turn: not from a
  line, not from a waiting turn whose predecessor ends, not from a late approval.
\<close>

theorem no_turn_after_shutdown:
  assumes "gk_shutdown w" "wk_reach w w'"
  shows "length (gk_tasks w') = length (gk_tasks w)"
proof -
  from assms(2) have "length (gk_tasks w') = length (gk_tasks w) \<and> gk_shutdown w'"
    by (induction rule: wk_reach.induct) (use assms(1) shut_step in auto)
  then show ?thesis by simp
qed

text \<open>The running turn ends, its callback runs, and what it scheduled runs.\<close>

definition after_turn :: "wenv \<Rightarrow> nat \<Rightarrow> GatewayWorker \<Rightarrow> GatewayWorker" where
  "after_turn E i w = wk_apply E Kick (wk_apply E (DoneCallback i) (wk_apply E (TaskEnd i EndOk) w))"

text \<open>
  The worker has one place for a waiting turn. When a turn runs and two more arrive that cannot steer
  it, both are acknowledged as queued, but the second takes the place of the first: when the running
  turn ends, the second is started and the first is gone.
\<close>

theorem waiting_turn_replaced:
  assumes "wk_ok w" "gk_current w = Some i" "task_running w i" "gk_kicks w = []" "\<not> gk_shutdown w" "we_mode E = u ''queue''"
    and w2_def: "w2 = handle_turn E t2 x2 ms2 c2 (handle_turn E t1 x1 ms1 c1 w)"
  shows "map fst (gk_tasks (after_turn E i w2)) = map fst (gk_tasks w) @ [TurnJob t2 x2 ms2 c2]
     \<and> gk_queued (after_turn E i w2) = None \<and> gk_kicks (after_turn E i w2) = []"
proof -
  have q: "\<not> should_steer_busy E t ms v" for t ms v using assms(6) by (simp add: should_steer_busy_def u_def)
  have il: "i < length (gk_tasks w)" using assms(3) by (simp add: task_running_def)
  have step: "gk_tasks (handle_turn E t x ms c v) = gk_tasks w \<and> gk_current (handle_turn E t x ms c v) = Some i \<and> gk_kicks (handle_turn E t x ms c v) = []
      \<and> \<not> gk_shutdown (handle_turn E t x ms c v) \<and> gk_queued (handle_turn E t x ms c v) = Some (TurnJob t x ms c)"
    if "gk_tasks v = gk_tasks w" "gk_current v = Some i" "gk_kicks v = []" "\<not> gk_shutdown v" for t x ms c v
  proof -
    have "worker_in_flight v" using that assms(3) by (simp add: worker_in_flight_def task_running_def)
    then show ?thesis using that q by (simp add: handle_turn_def)
  qed
  have w2: "gk_tasks w2 = gk_tasks w" "gk_current w2 = Some i" "gk_kicks w2 = []" "\<not> gk_shutdown w2" "gk_queued w2 = Some (TurnJob t2 x2 ms2 c2)"
    using step[of "handle_turn E t1 x1 ms1 c1 w"] step[of w] assms(2,4,5) by (simp_all add: w2_def)
  define w3 where "w3 = wk_apply E (TaskEnd i EndOk) w2"
  have r: "task_running w2 i" using w2(1) assms(3) by (simp add: task_running_def)
  have w3: "gk_tasks w3 = (gk_tasks w)[i := (fst (gk_tasks w ! i), True)]" "gk_current w3 = Some i" "gk_kicks w3 = []" "\<not> gk_shutdown w3"
    "gk_queued w3 = Some (TurnJob t2 x2 ms2 c2)" "i \<in> set (gk_callbacks w3)"
    using r w2 by (simp_all add: w3_def end_task_def Let_def)
  have nr: "\<not> task_running w3 i" using w3(1) il by (simp add: task_running_def)
  define w4 where "w4 = wk_apply E (DoneCallback i) w3"
  have w4: "gk_tasks w4 = gk_tasks w3" "gk_current w4 = None" "gk_kicks w4 = [TurnJob t2 x2 ms2 c2]" "\<not> gk_shutdown w4" "gk_queued w4 = None"
    using w3 nr by (simp_all add: w4_def on_turn_done_def)
  then have "wk_apply E Kick w4 = start_task (TurnJob t2 x2 ms2 c2) t2 (w4\<lparr>gk_kicks := []\<rparr>)"
    by (simp add: handle_job_def handle_turn_def worker_in_flight_def)
  then show ?thesis
    using w4 w3(1) il unfolding after_turn_def w3_def[symmetric] w4_def[symmetric] by (simp add: start_task_def map_update list_update_same_conv)
qed

text \<open>A frame shows a secret if one of the strings in its content contains it.\<close>

definition scrubbed :: "pystr \<Rightarrow> out_frame \<Rightarrow> bool" where
  "scrubbed s f \<longleftrightarrow> list_all (str_all (\<lambda>t. \<not> contains t s)) (content f)"

lemma frame_scrubbed:
  assumes "unspelled s" "\<not> contains OMITTED_DEPTH s" "\<not> contains TRUNCATED s" "s \<in> set known"
  shows "scrubbed s (redact_outbound_frame U known f)"
proof -
  have t: "\<not> contains (redact_secrets U known x) s" for x using assms(1,4) redact_secrets_hides by (simp add: unspelled_def)
  have m: "list_all (\<lambda>(k, v). str_all (\<lambda>t. \<not> contains t s) v) (redact_members U known 0 0 d [])" for d
    using redact_value_hides(3)[OF assms, of "[]" U 0 0 d] by simp
  have a: "list_all (\<lambda>(k, v). str_all (\<lambda>t. \<not> contains t s) v) (sanitize_tool_args U known d)" for d
    using sanitize_loop_hides[OF assms(1,4), of "[]"] by (simp add: sanitize_tool_args_def)
  have g: "str_all (\<lambda>t. \<not> contains t s) (json_of_dict (red_suggestion U known x))" for x
    using m by (cases x) (simp_all add: red_suggestion_def json_of_dict_def REDACT_DEPTH_def)
  have o: "str_all (\<lambda>t. \<not> contains t s) (json_of_opt (map_option (redact_secrets U known) x))" for x
    using t by (cases x) (simp_all add: json_of_opt_def)
  show ?thesis by (cases f) (simp_all add: scrubbed_def t m a g o red_dict_def)
qed

definition written_ok :: "pystr \<Rightarrow> GatewayWorker \<Rightarrow> bool" where
  "written_ok s w \<longleftrightarrow> list_all (scrubbed s) (gk_out w)"

text \<open>A secret that the markers cannot spell and that the registry has during a step.\<close>

definition kept_secret :: "pystr \<Rightarrow> wenv \<Rightarrow> bool" where
  "kept_secret s E \<longleftrightarrow> unspelled s \<and> \<not> contains OMITTED_DEPTH s \<and> \<not> contains TRUNCATED s \<and> s \<in> set (we_known E)"

lemma written_aemit: "kept_secret s E \<Longrightarrow> written_ok s (aemit E f w) = written_ok s w"
  using frame_scrubbed by (simp add: written_ok_def aemit_def kept_secret_def)

lemma written_emits: "kept_secret s E \<Longrightarrow> written_ok s (fold (aemit E) fs w) = written_ok s w"
  by (induction fs arbitrary: w) (simp_all add: written_aemit)

lemma written_fields [simp]:
  "written_ok s (touch E w) = written_ok s w" "written_ok s (start_task j tid w) = written_ok s w"
  "written_ok s (w\<lparr>gk_steer := x1\<rparr>) = written_ok s w" "written_ok s (w\<lparr>gk_aborts := n\<rparr>) = written_ok s w"
  "written_ok s (w\<lparr>gk_confirms := c\<rparr>) = written_ok s w" "written_ok s (w\<lparr>gk_shutdown := b\<rparr>) = written_ok s w"
  "written_ok s (w\<lparr>gk_callbacks := cb\<rparr>) = written_ok s w" "written_ok s (w\<lparr>gk_queued := q\<rparr>) = written_ok s w"
  "written_ok s (w\<lparr>gk_handshaken := b\<rparr>) = written_ok s w" "written_ok s (w\<lparr>gk_kicks := ks\<rparr>) = written_ok s w"
  "written_ok s (w\<lparr>gk_exit := e\<rparr>) = written_ok s w" "written_ok s (w\<lparr>gk_tasks := ts\<rparr>) = written_ok s w"
  "written_ok s (w\<lparr>gk_current := cu\<rparr>) = written_ok s w" "written_ok s (w\<lparr>gk_thread := th\<rparr>) = written_ok s w"
  by (simp_all add: written_ok_def touch_def start_task_def)

lemma written_finish: "kept_secret s E \<Longrightarrow> written_ok s (finish E c w) = written_ok s w"
  by (simp add: finish_def end_task_def Let_def written_aemit written_emits split: option.split)

lemma written_steer: "kept_secret s E \<Longrightarrow> written_ok s (handle_steer E tid x w) = written_ok s w"
  by (simp add: handle_steer_def written_aemit)

lemma written_turn: "kept_secret s E \<Longrightarrow> written_ok s (handle_turn E tid x ms chat w) = written_ok s w"
  by (simp add: handle_turn_def written_aemit written_steer)

lemma written_frame: "kept_secret s E \<Longrightarrow> written_ok s (snd (handle_frame E f w)) = written_ok s w"
  by (simp add: handle_frame_def handle_approval_verdict_def handle_cancel_def handle_shutdown_def Let_def written_aemit written_steer written_turn
      split: frame.split gkind.split option.split sum.split)

lemma written_line: "kept_secret s E \<Longrightarrow> written_ok s (run_line E line w) = written_ok s w"
  using written_frame[of s E _ w]
  by (auto simp: run_line_def schema_exit_def crash_exit_def written_finish written_aemit
      split: sum.split decode_error.split prod.split option.split worker_exn.split) (metis snd_conv)+

lemma written_step: "kept_secret s E \<Longrightarrow> written_ok s (wk_apply E op w) = written_ok s w"
  by (cases op) (simp_all add: written_line written_finish written_aemit written_emits written_turn heartbeat_def end_task_def
      on_turn_done_def handle_job_def open_confirm_def close_confirm_def Let_def split: list.split job.split)

text \<open>A worker from its start, with the steps and what the surroundings answer in each.\<close>

definition wk_run :: "int \<Rightarrow> (wenv \<times> wk_op) list \<Rightarrow> GatewayWorker" where
  "wk_run now steps = fold (\<lambda>(E, op). wk_apply E op) steps (new_worker now)"


section \<open>Witnesses\<close>

definition demo_wenv :: wenv where
  "demo_wenv = \<lparr>we_uni = ascii_uni, we_conv = demo_conv, we_host = user_host, we_root = u ''/p'', we_known = [u ''hunter2''], we_mode = u ''queue'',
     we_progress = u ''off'', we_now = 5, we_jobs = 0, we_file = None, we_message = u ''bad''\<rparr>"

definition demo_worker :: GatewayWorker where
  "demo_worker = start_task (TurnJob (u ''a'') (u ''hi'') [] None) (u ''a'') ((new_worker 0)\<lparr>gk_handshaken := True\<rparr>)"

definition hello_line :: pystr where "hello_line = encode_line ascii_uni (HandshakeFrame 1)"

definition greeted :: GatewayWorker where
  "greeted = wk_apply demo_wenv (StdinLine (encode_line ascii_uni (TurnFrame (u ''a'') (u ''hi'') [] None)))
     (wk_apply demo_wenv (StdinLine hello_line) (new_worker 0))"

theorem worker_runs_one_task_witness: "{i. task_running greeted i} = {0} \<and> gk_current greeted = Some 0"
proof -
  have "wk_reach (new_worker 0) greeted" unfolding greeted_def by (intro wk_reach.intros)
  note w = worker_runs_one_task[OF this]
  have "task_running greeted 0" by code_simp
  with w show ?thesis by blast
qed

theorem no_turn_after_shutdown_witness:
  "length (gk_tasks (wk_apply demo_wenv (StdinLine hello_line) (demo_worker\<lparr>gk_shutdown := True\<rparr>))) = 1"
proof -
  have "gk_shutdown (demo_worker\<lparr>gk_shutdown := True\<rparr>)" "length (gk_tasks (demo_worker\<lparr>gk_shutdown := True\<rparr>)) = 1"
    by (simp_all add: demo_worker_def start_task_def new_worker_def)
  moreover have "wk_reach v (wk_apply demo_wenv (StdinLine hello_line) v)" for v by (intro wk_reach.intros)
  ultimately show ?thesis using no_turn_after_shutdown by metis
qed

theorem waiting_turn_replaced_witness:
  "map fst (gk_tasks (after_turn demo_wenv 0 (handle_turn demo_wenv (u ''c'') (u ''two'') [] None (handle_turn demo_wenv (u ''b'') (u ''one'') [] None demo_worker))))
    = [TurnJob (u ''a'') (u ''hi'') [] None, TurnJob (u ''c'') (u ''two'') [] None]"
proof -
  have r: "task_running demo_worker i \<longleftrightarrow> i = 0" for i by (auto simp: demo_worker_def start_task_def new_worker_def task_running_def)
  have "wk_ok (new_worker 0)" by (rule reach_wk_ok[OF wk_start])
  then have "wk_ok demo_worker" unfolding demo_worker_def
    by (intro start_ok wk_ok_handshake) (simp_all add: worker_in_flight_def new_worker_def)
  moreover have "gk_current demo_worker = Some 0" "gk_kicks demo_worker = []" "\<not> gk_shutdown demo_worker" "we_mode demo_wenv = u ''queue''"
    "map fst (gk_tasks demo_worker) = [TurnJob (u ''a'') (u ''hi'') [] None]"
    by (simp_all add: demo_worker_def start_task_def new_worker_def demo_wenv_def)
  ultimately show ?thesis using waiting_turn_replaced[of demo_worker 0 demo_wenv _ "u ''c''" "u ''two''" "[]" None "u ''b''" "u ''one''" "[]" None] r by simp
qed


end
