(* ===== verification/Config_Merge.thy ===== *)
theory Config_Merge
  imports Json_Store
begin

text \<open>
  The two configuration tiers, \<^verbatim>\<open>src/src/jarn/config/loader.py\<close>: how a project's file is merged over the
  global one, and what of the schema in \<^verbatim>\<open>src/src/jarn/config/pydantic_schema.py\<close> decides the permission
  rules: the migrations of old versions and the validation of the permissions section. A tier is the mapping its
  YAML text spells; keys are strings. The lemmas follow a key of the project tier through the merge.
\<close>

type_synonym tier = args

datatype cfg_error = ConfigValidationError | CfgTypeError | CfgAttributeError

section \<open>Versions\<close>

definition CURRENT_CONFIG_VERSION :: int where "CURRENT_CONFIG_VERSION = 3"

definition VERSION_KEY :: pystr where "VERSION_KEY = u ''config_version''"

text \<open>\<^verbatim>\<open>del d[k]\<close> inside a copy of the section, when the section is a mapping that has the key.\<close>

definition drop_in :: "string \<Rightarrow> string \<Rightarrow> tier \<Rightarrow> tier" where
  "drop_in sec k raw = (case dget raw (u sec) of
       Some (JObj d) \<Rightarrow> (if dget d (u k) = None then raw else dput (u sec) (JObj (dpop (u k) d)) raw)
     | _ \<Rightarrow> raw)"

definition migrate_v0_to_v1 :: "pyuni \<Rightarrow> tier \<Rightarrow> cfg_error + tier" where
  "migrate_v0_to_v1 U raw =
     (let done1 = (\<lambda>d. Inr (dput VERSION_KEY (JInt 1) d))
      in case dget raw (u ''log_level'') of
           None \<Rightarrow> done1 raw
         | Some lv \<Rightarrow>
             (case dget raw (u ''observability'') of
                None \<Rightarrow> done1 (dput (u ''observability'') (JObj [(u ''log_level'', lv)]) (dpop (u ''log_level'') raw))
              | Some obs \<Rightarrow>
                  (case (if truthy U obs then obs else JObj []) of
                     JObj o1 \<Rightarrow> done1 (dput (u ''observability'')
                         (JObj (if dget o1 (u ''log_level'') = None then dput (u ''log_level'') lv o1 else o1)) (dpop (u ''log_level'') raw))
                   | _ \<Rightarrow> Inl CfgAttributeError)))"

definition migrate_v1_to_v2 :: "tier \<Rightarrow> tier" where
  "migrate_v1_to_v2 raw = dput VERSION_KEY (JInt 2) (drop_in ''policy'' ''profile'' raw)"

definition migrate_v2_to_v3 :: "tier \<Rightarrow> tier" where
  "migrate_v2_to_v3 raw = dput VERSION_KEY (JInt CURRENT_CONFIG_VERSION) (drop_in ''execution'' ''multimodal'' raw)"

text \<open>\<^verbatim>\<open>_MIGRATORS.get(version)\<close>, applied\<close>

definition migrator :: "pyuni \<Rightarrow> int \<Rightarrow> tier \<Rightarrow> cfg_error + tier" where
  "migrator U v raw =
     (if v = 0 then migrate_v0_to_v1 U raw
      else if v = 1 then Inr (migrate_v1_to_v2 raw)
      else if v = 2 then Inr (migrate_v2_to_v3 raw)
      else Inl ConfigValidationError)"

text \<open>\<^verbatim>\<open>data.get("config_version", CURRENT_CONFIG_VERSION)\<close> after a migrator, which has set an integer\<close>

definition version_after :: "tier \<Rightarrow> int" where
  "version_after d = (case dget d VERSION_KEY of Some (JInt v) \<Rightarrow> v | _ \<Rightarrow> CURRENT_CONFIG_VERSION)"

lemma migrator_version: "migrator U v raw = Inr d \<Longrightarrow> dget d VERSION_KEY = Some (JInt (v + 1))"
  by (auto simp: migrator_def migrate_v0_to_v1_def migrate_v1_to_v2_def migrate_v2_to_v3_def CURRENT_CONFIG_VERSION_def
      dget_dput Let_def split: if_splits option.splits json.splits)

function migrate_loop :: "pyuni \<Rightarrow> int \<Rightarrow> tier \<Rightarrow> cfg_error + tier" where
  "migrate_loop U v d =
     (if v < CURRENT_CONFIG_VERSION
      then (case migrator U v d of Inl e \<Rightarrow> Inl e | Inr d' \<Rightarrow> migrate_loop U (version_after d') d')
      else Inr d)"
  by pat_completeness auto

termination
  by (relation "measure (\<lambda>(U, v, d). nat (CURRENT_CONFIG_VERSION - v))")
    (auto simp: version_after_def dest!: migrator_version)

declare migrate_loop.simps [simp del]

definition migrate_config :: "pyuni \<Rightarrow> tier \<Rightarrow> cfg_error + tier" where
  "migrate_config U raw =
     (case (case dget raw VERSION_KEY of None \<Rightarrow> JInt 0 | Some v \<Rightarrow> v) of
        JInt v \<Rightarrow> if v > CURRENT_CONFIG_VERSION then Inl ConfigValidationError else migrate_loop U v raw
      | _ \<Rightarrow> Inl ConfigValidationError)"

section \<open>Merging\<close>

definition LIST_EXTEND_KEYS :: "pystr list" where
  "LIST_EXTEND_KEYS = [u ''hooks'', u ''mcp_servers'', u ''async_subagents'']"

definition GLOBAL_ONLY_KEYS :: "pystr list" where
  "GLOBAL_ONLY_KEYS = [u ''gateway'']"

definition strip_global_only_keys :: "tier \<Rightarrow> tier" where
  "strip_global_only_keys raw = filter (\<lambda>(k, v). k \<notin> set GLOBAL_ONLY_KEYS) raw"

text \<open>\<^verbatim>\<open>[*x]\<close>\<close>

definition splat :: "json \<Rightarrow> cfg_error + json list" where
  "splat v = (case v of
       JList xs \<Rightarrow> Inr xs
     | JStr s \<Rightarrow> Inr (map (\<lambda>c. JStr [c]) s)
     | JObj kvs \<Rightarrow> Inr (map (JStr \<circ> fst) kvs)
     | _ \<Rightarrow> Inl CfgTypeError)"

definition dget_or :: "tier \<Rightarrow> string \<Rightarrow> json \<Rightarrow> json" where
  "dget_or d k v = (case dget d (u k) of None \<Rightarrow> v | Some w \<Rightarrow> w)"

text \<open>One bucket (\<^verbatim>\<open>allow\<close> or \<^verbatim>\<open>deny\<close>) of \<^verbatim>\<open>_merge_permissions\<close>\<close>

definition splice :: "json \<Rightarrow> json \<Rightarrow> json" where
  "splice base_val overlay_val = (case (base_val, overlay_val) of
       (JList b, JNull) \<Rightarrow> JList b
     | (JList b, JList xs) \<Rightarrow> JList (b @ xs)
     | _ \<Rightarrow> overlay_val)"

definition merge_bucket :: "string \<Rightarrow> tier \<Rightarrow> tier \<Rightarrow> tier \<Rightarrow> tier" where
  "merge_bucket bucket base overlay merged =
     (case dget overlay (u bucket) of
        None \<Rightarrow> merged
      | Some ov \<Rightarrow> dput (u bucket) (splice (dget_or base bucket (JList [])) ov) merged)"

definition merge_globs :: "tier \<Rightarrow> tier \<Rightarrow> tier" where
  "merge_globs overlay merged =
     (case dget overlay (u ''sensitive_read_globs'') of None \<Rightarrow> merged | Some v \<Rightarrow> dput (u ''sensitive_read_globs'') v merged)"

lemma dget_size: "dget d k = Some v \<Longrightarrow> size v < size (JObj d)"
  by (induction d k rule: dget.induct) (auto split: if_splits)

function merge_permissions :: "tier \<Rightarrow> tier \<Rightarrow> tier" where
  "merge_permissions base overlay =
     (let merged = merge_globs overlay (merge_bucket ''deny'' base overlay (merge_bucket ''allow'' base overlay base))
      in case (dget base (u ''network''), dget overlay (u ''network'')) of
           (Some (JObj b), Some (JObj ov)) \<Rightarrow> dput (u ''network'') (JObj (merge_permissions b ov)) merged
         | (_, Some JNull) \<Rightarrow> merged
         | (_, Some ov) \<Rightarrow> dput (u ''network'') ov merged
         | (_, None) \<Rightarrow> merged)"
  by pat_completeness auto

termination
  by (relation "measure (\<lambda>(b, ov). size (JObj ov))") (auto dest!: dget_size[OF sym])

declare merge_permissions.simps [simp del]

definition is_jlist :: "json \<Rightarrow> bool" where
  "is_jlist v = (case v of JList _ \<Rightarrow> True | _ \<Rightarrow> False)"

text \<open>\<^verbatim>\<open>dict(base)\<close> and \<^verbatim>\<open>base.get\<close> raise when the base is not a mapping.\<close>

function deep_merge :: "tier \<Rightarrow> tier \<Rightarrow> cfg_error + tier" where
  "deep_merge out [] = Inr out"
| "deep_merge out ((k, v) # rest) =
     (case (if k \<in> set LIST_EXTEND_KEYS \<and> is_jlist v
            then (case (splat (case dget out k of None \<Rightarrow> JList [] | Some w \<Rightarrow> w), v) of
                    (Inr ys, JList xs) \<Rightarrow> Inr (JList (ys @ xs))
                  | _ \<Rightarrow> Inl CfgTypeError)
            else (case v of
                JObj ov \<Rightarrow>
                  if k = u ''permissions''
                  then (case (case dget out k of None \<Rightarrow> JObj [] | Some w \<Rightarrow> w) of
                          JObj b \<Rightarrow> Inr (JObj (merge_permissions b ov))
                        | _ \<Rightarrow> Inl CfgTypeError)
                  else (case dget out k of
                          Some (JObj b) \<Rightarrow> map_sum id JObj (deep_merge b ov)
                        | _ \<Rightarrow> Inr v)
              | _ \<Rightarrow> Inr v)) of
        Inl e \<Rightarrow> Inl e
      | Inr w \<Rightarrow> deep_merge (dput k w out) rest)"
  by pat_completeness auto

termination
  by (relation "measure (\<lambda>(b, ov). size (JObj ov))") auto

declare deep_merge.simps(2) [simp del]

text \<open>The merge of both tiers in \<^verbatim>\<open>load_config\<close>: the project over the global over nothing\<close>

definition merge_tiers :: "tier \<Rightarrow> tier \<Rightarrow> cfg_error + tier" where
  "merge_tiers gl pr = (case deep_merge [] gl of Inl e \<Rightarrow> Inl e | Inr m \<Rightarrow> deep_merge m pr)"

section \<open>Validation of the permissions\<close>

text \<open>A field of type \<^verbatim>\<open>list[str]\<close>\<close>

fun str_list :: "json list \<Rightarrow> pystr list option" where
  "str_list [] = Some []"
| "str_list (JStr s # xs) = map_option ((#) s) (str_list xs)"
| "str_list (_ # xs) = None"

definition rules_field :: "tier \<Rightarrow> string \<Rightarrow> pystr list \<Rightarrow> pystr list option" where
  "rules_field d k dflt = (case dget d (u k) of None \<Rightarrow> Some dflt | Some (JList xs) \<Rightarrow> str_list xs | Some _ \<Rightarrow> None)"

definition host_globs :: "pyuni \<Rightarrow> tier \<Rightarrow> string \<Rightarrow> pystr list option" where
  "host_globs U d k = (case dget d (u k) of
       None \<Rightarrow> Some []
     | Some JNull \<Rightarrow> Some []
     | Some (JList xs) \<Rightarrow> Some (map (py_str U) xs)
     | Some _ \<Rightarrow> None)"

text \<open>No other field is accepted (\<^verbatim>\<open>extra="forbid"\<close>).\<close>

definition only_keys :: "string list \<Rightarrow> tier \<Rightarrow> bool" where
  "only_keys ks d \<longleftrightarrow> list_all (\<lambda>(k, v). k \<in> set (map u ks)) d"

definition parse_network :: "pyuni \<Rightarrow> json option \<Rightarrow> NetworkPolicy option" where
  "parse_network U v = (case v of
       None \<Rightarrow> Some \<lparr>np_allow = [], np_deny = []\<rparr>
     | Some (JObj d) \<Rightarrow>
         (if only_keys [''allow'', ''deny''] d
          then (case (host_globs U d ''allow'', host_globs U d ''deny'') of
                  (Some al, Some dn) \<Rightarrow> Some \<lparr>np_allow = al, np_deny = dn\<rparr> | _ \<Rightarrow> None)
          else None)
     | Some _ \<Rightarrow> None)"

definition parse_permissions :: "pyuni \<Rightarrow> json option \<Rightarrow> PermissionRules option" where
  "parse_permissions U v = (case v of
       None \<Rightarrow> Some \<lparr>allow = [], deny = [], sensitive_read_globs = DEFAULT_SENSITIVE_READ_GLOBS, network = \<lparr>np_allow = [], np_deny = []\<rparr>\<rparr>
     | Some (JObj d) \<Rightarrow>
         (if only_keys [''allow'', ''deny'', ''sensitive_read_globs'', ''network''] d
          then (case (rules_field d ''allow'' [], rules_field d ''deny'' [], rules_field d ''sensitive_read_globs'' DEFAULT_SENSITIVE_READ_GLOBS,
                      parse_network U (dget d (u ''network''))) of
                  (Some al, Some dn, Some sg, Some np) \<Rightarrow> Some \<lparr>allow = al, deny = dn, sensitive_read_globs = sg, network = np\<rparr>
                | _ \<Rightarrow> None)
          else None)
     | Some _ \<Rightarrow> None)"

section \<open>Lemmas\<close>

lemma deep_merge_Cons:
  "deep_merge out ((k, v) # rest) = (case deep_merge out [(k, v)] of Inl e \<Rightarrow> Inl e | Inr m \<Rightarrow> deep_merge m rest)"
  by (subst (1 2) deep_merge.simps(2)) (simp split: sum.split)

lemma deep_merge_one: "deep_merge out [(k, v)] = Inr m \<Longrightarrow> \<exists>w. m = dput k w out"
  by (auto simp: deep_merge.simps(2) split: sum.splits)

lemma deep_merge_other: "deep_merge out ov = Inr m \<Longrightarrow> k \<notin> fst ` set ov \<Longrightarrow> dget m k = dget out k"
proof (induction ov arbitrary: out)
  case (Cons kv ov)
  obtain k1 v where kv: "kv = (k1, v)" by force
  from Cons.prems(1) obtain m1 where m1: "deep_merge out [(k1, v)] = Inr m1" "deep_merge m1 ov = Inr m"
    unfolding kv by (subst (asm) deep_merge_Cons) (auto split: sum.splits)
  from deep_merge_one[OF m1(1)] Cons.IH[OF m1(2)] Cons.prems(2) show ?case by (auto simp: kv dget_dput)
qed simp

text \<open>The entry of a key in the result comes from the one step that handles the key.\<close>

lemma deep_merge_at:
  assumes "deep_merge out ov = Inr m" "dict_ok ov" "dget ov k = Some v"
  shows "\<exists>out' m'. dget out' k = dget out k \<and> deep_merge out' [(k, v)] = Inr m' \<and> dget m k = dget m' k"
  using assms
proof (induction ov arbitrary: out)
  case (Cons kv ov)
  obtain k1 v1 where kv: "kv = (k1, v1)" by force
  from Cons.prems(1) obtain m1 where m1: "deep_merge out [(k1, v1)] = Inr m1" "deep_merge m1 ov = Inr m"
    unfolding kv by (subst (asm) deep_merge_Cons) (auto split: sum.splits)
  have ok: "dict_ok ov" "k1 \<notin> fst ` set ov" using Cons.prems(2) by (simp_all add: kv dict_ok_def)
  show ?case
  proof (cases "k1 = k")
    case True
    then have "v1 = v" using Cons.prems(3) by (simp add: kv)
    with m1 deep_merge_other[OF m1(2) ok(2)] True show ?thesis by blast
  next
    case False
    then have "dget ov k = Some v" using Cons.prems(3) by (simp add: kv)
    moreover have "dget m1 k = dget out k" using deep_merge_one[OF m1(1)] False by (auto simp: dget_dput)
    ultimately show ?thesis using Cons.IH[OF m1(2) ok(1)] by simp
  qed
qed simp

text \<open>The permissions of the result: a mapping is merged into what was there (a mapping or nothing),
  anything else replaces it.\<close>

lemma deep_merge_permissions:
  assumes "deep_merge out ov = Inr m" "dict_ok ov" "dget ov (u ''permissions'') = Some v"
  obtains (mapping) o1 b where "v = JObj o1" "dget out (u ''permissions'') = Some (JObj b) \<or> dget out (u ''permissions'') = None \<and> b = []"
      "dget m (u ''permissions'') = Some (JObj (merge_permissions b o1))"
  | (other) "\<And>o1. v \<noteq> JObj o1" "dget m (u ''permissions'') = Some v"
proof -
  obtain out' m' where "dget out' (u ''permissions'') = dget out (u ''permissions'')"
    "deep_merge out' [(u ''permissions'', v)] = Inr m'" "dget m (u ''permissions'') = dget m' (u ''permissions'')"
    using deep_merge_at[OF assms] by blast
  then show thesis using that
    by (auto simp: deep_merge.simps(2) LIST_EXTEND_KEYS_def dget_dput split: json.splits option.splits)
qed

section \<open>Migration\<close>

definition MIGRATED_KEYS :: "pystr list" where
  "MIGRATED_KEYS = [VERSION_KEY, u ''log_level'', u ''observability'', u ''policy'', u ''execution'']"

lemma migrator_other:
  assumes "migrator U v raw = Inr d" "k \<notin> set MIGRATED_KEYS" "dict_ok raw"
  shows "dget d k = dget raw k" "dict_ok d"
  using assms
  by (auto simp: migrator_def migrate_v0_to_v1_def migrate_v1_to_v2_def migrate_v2_to_v3_def drop_in_def MIGRATED_KEYS_def
      dget_dput dget_dpop dict_ok_dput dict_ok_dpop Let_def split: if_splits option.splits json.splits)

text \<open>A version-0 file has its log level at the top; the new place for it has to be a mapping.\<close>

definition log_level_movable :: "pyuni \<Rightarrow> tier \<Rightarrow> bool" where
  "log_level_movable U raw \<longleftrightarrow> dget raw (u ''log_level'') = None
     \<or> (case dget raw (u ''observability'') of None \<Rightarrow> True | Some (JObj d) \<Rightarrow> True | Some v \<Rightarrow> \<not> truthy U v)"

lemma migrate_loop_settles:
  assumes "0 \<le> v" "v \<le> CURRENT_CONFIG_VERSION" "v = 0 \<longrightarrow> log_level_movable U raw"
    and "v = CURRENT_CONFIG_VERSION \<longrightarrow> dget raw VERSION_KEY = Some (JInt v)" "dict_ok raw"
  shows "\<exists>d. migrate_loop U v raw = Inr d \<and> dget d VERSION_KEY = Some (JInt CURRENT_CONFIG_VERSION)
     \<and> (\<forall>k. k \<notin> set MIGRATED_KEYS \<longrightarrow> dget d k = dget raw k)"
  using assms
proof (induction U v raw rule: migrate_loop.induct)
  case (1 U v raw)
  show ?case
  proof (cases "v < CURRENT_CONFIG_VERSION")
    case True
    with "1.prems" have "\<exists>d. migrator U v raw = Inr d"
      by (auto simp: migrator_def migrate_v0_to_v1_def log_level_movable_def CURRENT_CONFIG_VERSION_def Let_def split: option.splits json.splits)
    then obtain d where d: "migrator U v raw = Inr d" by blast
    have v: "version_after d = v + 1" "dget d VERSION_KEY = Some (JInt (v + 1))"
      using migrator_version[OF d] by (simp_all add: version_after_def)
    have "dict_ok d" using migrator_other(2)[OF d, of "[]"] "1.prems"(5)
      by (simp add: MIGRATED_KEYS_def VERSION_KEY_def)
    then have "\<exists>e. migrate_loop U (v + 1) d = Inr e \<and> dget e VERSION_KEY = Some (JInt CURRENT_CONFIG_VERSION)
       \<and> (\<forall>k. k \<notin> set MIGRATED_KEYS \<longrightarrow> dget e k = dget d k)"
      using "1.IH"[OF True d] "1.prems" True v by (simp add: v(1))
    then show ?thesis using True d v migrator_other(1)[OF d _ "1.prems"(5)] by (subst migrate_loop.simps) auto
  next
    case False
    then show ?thesis using "1.prems" by (subst migrate_loop.simps) auto
  qed
qed

text \<open>
  Migrating a configuration of any version up to the current one ends: it yields a configuration of the
  current version, on which a second migration changes nothing, and no setting outside the few that were moved or
  retired is touched. Only a version-0 file whose log level cannot be moved is refused.
\<close>

theorem migration_settles:
  assumes "dict_ok raw" "dget raw VERSION_KEY = (if v = 0 then w else Some (JInt v))" "w \<in> {None, Some (JInt 0)}"
    and "0 \<le> v" "v \<le> CURRENT_CONFIG_VERSION" "v = 0 \<longrightarrow> log_level_movable U raw"
  shows "\<exists>d. migrate_config U raw = Inr d \<and> dget d VERSION_KEY = Some (JInt CURRENT_CONFIG_VERSION) \<and> migrate_config U d = Inr d
     \<and> (\<forall>k. k \<notin> set MIGRATED_KEYS \<longrightarrow> dget d k = dget raw k)"
proof -
  have "\<exists>d. migrate_loop U v raw = Inr d \<and> dget d VERSION_KEY = Some (JInt CURRENT_CONFIG_VERSION)
     \<and> (\<forall>k. k \<notin> set MIGRATED_KEYS \<longrightarrow> dget d k = dget raw k)"
    using assms by (intro migrate_loop_settles) (auto simp: CURRENT_CONFIG_VERSION_def split: if_splits)
  then obtain d where d: "migrate_loop U v raw = Inr d" "dget d VERSION_KEY = Some (JInt CURRENT_CONFIG_VERSION)"
    "\<forall>k. k \<notin> set MIGRATED_KEYS \<longrightarrow> dget d k = dget raw k" by blast
  moreover have "migrate_config U raw = Inr d" using assms(2,3,5) d(1) by (auto simp: migrate_config_def split: if_splits)
  moreover have "migrate_config U d = Inr d"
    using d(2) by (simp add: migrate_config_def) (subst migrate_loop.simps, simp)
  ultimately show ?thesis by blast
qed

theorem migration_settles_witness:
  "\<exists>d. migrate_config ascii_uni [(u ''log_level'', JStr (u ''debug'')), (u ''policy'', JObj [(u ''profile'', JStr (u ''x''))]), (u ''ui'', JObj [])] = Inr d
     \<and> dget d (u ''ui'') = Some (JObj []) \<and> migrate_config ascii_uni d = Inr d"
proof -
  let ?raw = "[(u ''log_level'', JStr (u ''debug'')), (u ''policy'', JObj [(u ''profile'', JStr (u ''x''))]), (u ''ui'', JObj [])]"
  have "dict_ok ?raw" "dget ?raw VERSION_KEY = None" "log_level_movable ascii_uni ?raw" "u ''ui'' \<notin> set MIGRATED_KEYS" "dget ?raw (u ''ui'') = Some (JObj [])"
    by code_simp+
  with migration_settles[of ?raw 0 None ascii_uni] show ?thesis by (auto simp: CURRENT_CONFIG_VERSION_def)
qed

text \<open>
  A malformed global rule list does not always surface as a validation error: a project that has a
  well-formed list of the same name, even an empty one, replaces it silently.
\<close>

theorem malformed_deny_replaced:
  "map_sum id (\<lambda>C. map_option deny (parse_permissions U (dget C (u ''permissions''))))
     (merge_tiers [(u ''permissions'', JObj [(u ''deny'', JStr rule)])] [(u ''permissions'', JObj [(u ''deny'', JList [])])])
   = Inr (Some [])
   \<and> map_sum id (\<lambda>C. parse_permissions U (dget C (u ''permissions'')))
     (merge_tiers [(u ''permissions'', JObj [(u ''deny'', JStr rule)])] []) = Inr None"
  by (simp add: merge_tiers_def deep_merge.simps(2) LIST_EXTEND_KEYS_def merge_permissions.simps merge_globs_def merge_bucket_def
      splice_def dget_or_def parse_permissions_def only_keys_def rules_field_def parse_network_def)

end
