(* ===== verification/Trust.thy ===== *)
theory Trust
  imports Config_Merge Rule_Store Roots
begin

text \<open>
  The trust boundary of a project, \<^verbatim>\<open>src/src/jarn/config/trust.py\<close>. Until its user trusts a project, only what
  can make the agent stricter is taken from the project's configuration; what was trusted is recorded
  by a digest of the rest, in a file that all processes of the machine share. \<^verbatim>\<open>hashlib.sha256\<close> is the argument
  \<open>sha\<close>. The lemmas say what an untrusted project can do to the permission engine (nothing but tighten it)
  and that concurrent writers of the trust file do not undo each other.
\<close>

section \<open>What needs trust\<close>

definition SAFE_PROJECT_KEYS :: "pystr list" where
  "SAFE_PROJECT_KEYS = [u ''ui'', u ''permissions'']"

definition dput_some :: "string \<Rightarrow> json option \<Rightarrow> tier \<Rightarrow> tier" where
  "dput_some k v d = (case v of None \<Rightarrow> d | Some x \<Rightarrow> dput (u k) x d)"

definition dangerous_network :: "json option \<Rightarrow> tier \<Rightarrow> tier" where
  "dangerous_network net danger = (case net of
       None \<Rightarrow> danger
     | Some JNull \<Rightarrow> danger
     | Some (JObj n) \<Rightarrow> dput_some ''permissions.network.allow'' (dget n (u ''allow'')) danger
     | Some v \<Rightarrow> dput (u ''permissions.network'') v danger)"

definition dangerous_of :: "pyuni \<Rightarrow> tier \<Rightarrow> tier" where
  "dangerous_of U effective =
     (let danger = filter (\<lambda>(k, v). k \<notin> set SAFE_PROJECT_KEYS \<and> k \<notin> set GLOBAL_ONLY_KEYS \<and> k \<noteq> VERSION_KEY) effective
      in case dget effective (u ''permissions'') of
           None \<Rightarrow> danger
         | Some JNull \<Rightarrow> danger
         | Some (JObj perms) \<Rightarrow>
             (let d1 = (case dget perms (u ''allow'') of Some al \<Rightarrow> if truthy U al then dput (u ''permissions.allow'') al danger else danger
                        | None \<Rightarrow> danger);
                  d2 = dangerous_network (dget perms (u ''network'')) d1
              in case dget perms (u ''sensitive_read_globs'') of
                   None \<Rightarrow> d2
                 | Some JNull \<Rightarrow> d2
                 | Some v \<Rightarrow> dput (u ''permissions.sensitive_read_globs'') v d2)
         | Some v \<Rightarrow> dput (u ''permissions'') v danger)"

definition project_dangerous :: "pyuni \<Rightarrow> tier \<Rightarrow> cfg_error + tier" where
  "project_dangerous U raw = (case migrate_config U raw of
       Inr effective \<Rightarrow> Inr (dangerous_of U effective)
     | Inl ConfigValidationError \<Rightarrow> Inr (dangerous_of U raw)
     | Inl e \<Rightarrow> Inl e)"

section \<open>What an untrusted project keeps\<close>

definition sanitize_network :: "tier \<Rightarrow> tier" where
  "sanitize_network trimmed = (case dget trimmed (u ''network'') of
       Some (JObj net) \<Rightarrow>
         (let net_trimmed = filter (\<lambda>(k, v). k \<noteq> u ''allow'' \<and> \<not> (k = u ''deny'' \<and> v = JNull)) net
          in if net_trimmed \<noteq> [] then dput (u ''network'') (JObj net_trimmed) trimmed else dpop (u ''network'') trimmed)
     | _ \<Rightarrow> trimmed)"

definition sanitize_project :: "tier \<Rightarrow> tier" where
  "sanitize_project raw =
     (let safe = filter (\<lambda>(k, v). k \<in> set SAFE_PROJECT_KEYS) raw
      in case dget safe (u ''permissions'') of
           Some (JObj perms) \<Rightarrow>
             (let trimmed = sanitize_network (filter (\<lambda>(k, v). k \<notin> {u ''allow'', u ''sensitive_read_globs''}) perms)
              in if trimmed \<noteq> [] then dput (u ''permissions'') (JObj trimmed) safe else dpop (u ''permissions'') safe)
         | _ \<Rightarrow> safe)"

definition stripped_project_keys :: "tier \<Rightarrow> pystr list" where
  "stripped_project_keys raw = sort (filter (\<lambda>k. k \<notin> set SAFE_PROJECT_KEYS) (dkeys raw))"

text \<open>The merge of \<^verbatim>\<open>load_config\<close> for the two tiers that were read.\<close>

definition load_tiers :: "bool \<Rightarrow> tier \<Rightarrow> tier \<Rightarrow> cfg_error + tier" where
  "load_tiers project_trusted gl pr =
     (let p1 = strip_global_only_keys pr
      in merge_tiers gl (if project_trusted then p1 else sanitize_project p1))"

section \<open>The digest\<close>

text \<open>\<^verbatim>\<open>json.dumps(dangerous, sort_keys=True, default=str)\<close>: ASCII output, default separators. A value of a tier
  is a JSON value, so \<^verbatim>\<open>default\<close> is not called.\<close>

definition hex4_esc :: "int \<Rightarrow> pystr" where
  "hex4_esc c = [92, 117] @ map hex_digit [c div 4096 mod 16, c div 256 mod 16, c div 16 mod 16, c mod 16]"

definition esc_ascii :: "int \<Rightarrow> pystr" where
  "esc_ascii c =
     (if c < 127 then esc_chr c
      else if c < 65536 then hex4_esc c
      else hex4_esc (55296 + (c - 65536) div 1024) @ hex4_esc (56320 + (c - 65536) mod 1024))"

definition json_ascii :: "pystr \<Rightarrow> pystr" where
  "json_ascii s = [34] @ concat (map esc_ascii s) @ [34]"

fun dumps_sorted :: "pyuni \<Rightarrow> json \<Rightarrow> pystr" where
  "dumps_sorted U JNull = u ''null''"
| "dumps_sorted U (JBool b) = (if b then u ''true'' else u ''false'')"
| "dumps_sorted U (JInt i) = str_int i"
| "dumps_sorted U (JFloat x) = repr_float U x"
| "dumps_sorted U (JStr s) = json_ascii s"
| "dumps_sorted U (JList xs) = [91] @ py_join (u '', '') (map (dumps_sorted U) xs) @ [93]"
| "dumps_sorted U (JObj kvs) =
     [123] @ py_join (u '', '') (map (\<lambda>(k, t). json_ascii k @ u '': '' @ t) (sort_key fst (map (\<lambda>(k, v). (k, dumps_sorted U v)) kvs))) @ [125]"

definition fingerprint :: "pyuni \<Rightarrow> (pystr \<Rightarrow> pystr) \<Rightarrow> tier \<Rightarrow> pystr" where
  "fingerprint U sha danger = sha (dumps_sorted U (JObj danger))"

section \<open>The trust store\<close>

record TrustStore =
  ts_path :: pystr
  ts_entries :: "(pystr, pystr) pydict"
  ts_baseline :: "(pystr, pystr) pydict"

definition trust_entries :: "pyuni \<Rightarrow> yaml \<Rightarrow> pystr \<Rightarrow> fs \<Rightarrow> store_error + (pystr, pystr) pydict" where
  "trust_entries U Y p F = (case dget F p of
       None \<Rightarrow> Inr []
     | Some FUnreadable \<Rightarrow> Inl OSError
     | Some (FText t) \<Rightarrow> Inr (case y_load Y t of
           Some (JObj d) \<Rightarrow> map (\<lambda>(k, v). (k, py_str U v)) d
         | _ \<Rightarrow> []))"

definition trust_load :: "pyuni \<Rightarrow> yaml \<Rightarrow> pystr \<Rightarrow> fs \<Rightarrow> store_error + TrustStore" where
  "trust_load U Y p F = map_sum id (\<lambda>es. \<lparr>ts_path = p, ts_entries = es, ts_baseline = es\<rparr>) (trust_entries U Y p F)"

datatype trust_status = Trusted | Changed | Untrusted

text \<open>\<^verbatim>\<open>str(root.resolve())\<close> is the key; \<open>None\<close> when it raises.\<close>

definition trust_key :: "host \<Rightarrow> ppath \<Rightarrow> pystr option" where
  "trust_key H rt = map_option as_posix (h_resolve H rt)"

definition status :: "pystr \<Rightarrow> pystr \<Rightarrow> TrustStore \<Rightarrow> trust_status" where
  "status key fp T = (case dget (ts_entries T) key of
       None \<Rightarrow> Untrusted
     | Some known \<Rightarrow> if known = fp then Trusted else Changed)"

definition trust :: "pystr \<Rightarrow> pystr \<Rightarrow> TrustStore \<Rightarrow> TrustStore" where
  "trust key fp T = T\<lparr>ts_entries := dput key fp (ts_entries T)\<rparr>"

definition untrust :: "pystr \<Rightarrow> TrustStore \<Rightarrow> TrustStore \<times> bool" where
  "untrust key T = (T\<lparr>ts_entries := dpop key (ts_entries T)\<rparr>, dget (ts_entries T) key \<noteq> None)"

text \<open>The loops of \<^verbatim>\<open>save\<close>: drop what this instance removed, then write what it added or changed.\<close>

definition merge_entries :: "TrustStore \<Rightarrow> (pystr, pystr) pydict \<Rightarrow> (pystr, pystr) pydict" where
  "merge_entries T disk =
     fold (\<lambda>(k, v) d. if dget (ts_baseline T) k \<noteq> Some v then dput k v d else d) (ts_entries T)
       (fold dpop (filter (\<lambda>k. dget (ts_entries T) k = None) (dkeys (ts_baseline T))) disk)"

definition trust_save :: "pyuni \<Rightarrow> yaml \<Rightarrow> TrustStore \<Rightarrow> fs \<Rightarrow> store_error + TrustStore \<times> fs" where
  "trust_save U Y T F = (case trust_entries U Y (ts_path T) F of
       Inl e \<Rightarrow> Inl e
     | Inr disk0 \<Rightarrow>
         (let disk = merge_entries T disk0
          in Inr (T\<lparr>ts_entries := disk, ts_baseline := disk\<rparr>,
                  dput (ts_path T) (FText (y_dump Y (JObj (map (\<lambda>(k, v). (k, JStr v)) (sort_key fst disk))))) F)))"

section \<open>Granting trust\<close>

datatype trust_result = TrustRecorded TrustStore fs | ConfigChanged | TrustRaised

definition parse_tier :: "yaml \<Rightarrow> pyuni \<Rightarrow> pystr \<Rightarrow> tier option" where
  "parse_tier Y U t = (case y_load Y t of
       None \<Rightarrow> None
     | Some v \<Rightarrow> if \<not> truthy U v then Some [] else (case v of JObj d \<Rightarrow> Some d | _ \<Rightarrow> None))"

definition commit_trust_if_unchanged :: "pyuni \<Rightarrow> yaml \<Rightarrow> (pystr \<Rightarrow> pystr) \<Rightarrow> pystr option \<Rightarrow> pystr \<Rightarrow> TrustStore \<Rightarrow> pystr \<Rightarrow> tier \<Rightarrow> fs
    \<Rightarrow> trust_result" where
  "commit_trust_if_unchanged U Y sha config_path key T raw_text parsed F =
     (case Option.bind config_path (dget F) of
        None \<Rightarrow> ConfigChanged
      | Some FUnreadable \<Rightarrow> TrustRaised
      | Some (FText t) \<Rightarrow>
          if t \<noteq> raw_text then ConfigChanged
          else (case project_dangerous U parsed of
              Inl e \<Rightarrow> TrustRaised
            | Inr danger \<Rightarrow> (case trust_save U Y (trust key (fingerprint U sha danger) T) F of
                  Inl e \<Rightarrow> TrustRaised
                | Inr (T', F') \<Rightarrow> TrustRecorded T' F')))"

definition is_project_trusted :: "pyuni \<Rightarrow> yaml \<Rightarrow> (pystr \<Rightarrow> pystr) \<Rightarrow> pystr option \<Rightarrow> pystr \<Rightarrow> TrustStore \<Rightarrow> fs \<Rightarrow> bool option" where
  "is_project_trusted U Y sha config_path key T F =
     (case (case Option.bind config_path (dget F) of
              None \<Rightarrow> Some [] | Some FUnreadable \<Rightarrow> None | Some (FText t) \<Rightarrow> parse_tier Y U t) of
        None \<Rightarrow> None
      | Some raw \<Rightarrow> (case project_dangerous U raw of
            Inl e \<Rightarrow> None
          | Inr danger \<Rightarrow> Some (danger = [] \<or> status key (fingerprint U sha danger) T = Trusted)))"

section \<open>The engine under a tighter policy\<close>

text \<open>A policy that denies more hosts and allows the same ones.\<close>

definition tighter :: "NetworkPolicy \<Rightarrow> NetworkPolicy \<Rightarrow> bool" where
  "tighter p q \<longleftrightarrow> np_allow p = np_allow q \<and> set (np_deny q) \<subseteq> set (np_deny p)"

lemma classify_tighter:
  assumes "tighter p q"
  shows "classify_host U h p = classify_host U h q \<or> classify_host U h p = DENIED"
  using assms by (auto simp: tighter_def classify_host_def host_matches_def list_ex_iff Let_def)

lemma egress_loop_tighter:
  assumes "tighter p q"
  shows "map_option level (egress_loop U p na hs) \<in> {map_option level (egress_loop U q na hs), Some BLOCKED}"
proof (induction hs arbitrary: na)
  case (Cons h hs)
  then show ?case using classify_tighter[OF assms(1), of U h] by (auto split: NetworkVerdict.splits)
qed (auto split: option.splits)

lemma net_verdict_tighter:
  assumes t: "tighter p q" and v: "net_verdict U s (Some p) = Inr x"
  shows "\<exists>y. net_verdict U s (Some q) = Inr y \<and> map_option level x \<in> {map_option level y, Some BLOCKED}"
proof (cases "policy_active (Some q)")
  case True
  then have p: "policy_active (Some p)" using t by (auto simp: policy_active_def tighter_def)
  from v p obtain hs where hs: "egress_hosts U s = Inr hs" "x = egress_loop U p None hs"
    by (cases "egress_hosts U s") (auto simp: net_verdict_def egress_verdict_def)
  then have "net_verdict U s (Some q) = Inr (egress_loop U q None hs)" using True by (simp add: net_verdict_def egress_verdict_def)
  then show ?thesis using egress_loop_tighter[OF t] hs(2) by blast
next
  case False
  then have q: "egress_loop U q None hs = None" for hs
    by (auto simp: egress_loop_None_iff policy_active_def classify_host_def host_matches_def)
  show ?thesis
  proof (cases "policy_active (Some p)")
    case True
    with v obtain hs where "x = egress_loop U p None hs"
      by (cases "egress_hosts U s") (auto simp: net_verdict_def egress_verdict_def)
    then show ?thesis using egress_loop_tighter[OF t, of U None hs] q False by (simp add: net_verdict_def)
  qed (use False v in \<open>simp add: net_verdict_def\<close>)
qed

lemma inspect_tighter:
  assumes t: "tighter p q" and v: "inspect_command U cmd (Some p) = Inr v"
  shows "\<exists>w. inspect_command U cmd (Some q) = Inr w \<and> (level v = level w \<or> level v = BLOCKED)"
proof (cases "re_search U True JARN_SECRET_PATH (normalize U cmd) \<or> rm_verdict U (normalize U cmd) \<noteq> None")
  case True
  then show ?thesis using v by (auto simp: inspect_command_def Let_def)
next
  case False
  with v obtain x where x: "net_verdict U (normalize U cmd) (Some p) = Inr x"
    by (cases "net_verdict U (normalize U cmd) (Some p)") (auto simp: inspect_command_def Let_def)
  from net_verdict_tighter[OF t x] obtain y where y: "net_verdict U (normalize U cmd) (Some q) = Inr y"
    "map_option level x \<in> {map_option level y, Some BLOCKED}" by blast
  show ?thesis using v False x y
    by (cases x; cases y) (auto simp: inspect_command_def Let_def split: option.splits if_splits)
qed

text \<open>Rules that deny more, protect more reads and allow the same make every decision at most as
  permissive, unless the guard raises.\<close>

definition stricter :: "PermissionRules \<Rightarrow> PermissionRules \<Rightarrow> bool" where
  "stricter R S \<longleftrightarrow> allow R = allow S \<and> set (deny S) \<subseteq> set (deny R)
     \<and> sensitive_read_globs R = sensitive_read_globs S \<and> tighter (network R) (network S)"

lemma evaluate_stricter:
  assumes "stricter R S" "evaluate U H (E\<lparr>rules := R\<rparr>) a = Inr r"
  shows "\<exists>s. evaluate U H (E\<lparr>rules := S\<rparr>) a = Inr s \<and> decision r \<le> decision s"
proof -
  let ?E = "E\<lparr>rules := R\<rparr>" and ?F = "E\<lparr>rules := S\<rparr>"
  have sr: "same_roots ?E ?F" by (simp add: same_roots_def)
  let ?a = "canonicalized_action H ?F a"
  have "\<exists>v. guard_for U H ?E ?a = Inr v"
    using assms(2) by (auto simp: evaluate_def Let_def same_roots_actions[OF sr] split: sum.splits)
  then obtain v where v: "guard_for U H ?E ?a = Inr v" by blast
  have "\<exists>w. guard_for U H ?F ?a = Inr w \<and> (level v = level w \<or> level v = BLOCKED)"
  proof (cases "kind ?a = SHELL")
    case True
    with v show ?thesis using inspect_tighter[of "network R" "network S" U "target ?a" v] assms(1)
      by (simp add: guard_for_def stricter_def)
  next
    case False
    with v show ?thesis using same_roots_cong(2)[OF sr, of H] by (cases "kind ?a") (auto simp: guard_for_def)
  qed
  then obtain w where w: "guard_for U H ?F ?a = Inr w" "level v = level w \<or> level v = BLOCKED" by blast
  have "result_le (evaluate U H ?E a) (evaluate U H ?F a)"
    using assms(1) by (intro evaluate_tighter[OF sr _ _ _ _ v w]) (auto simp: stricter_def all_deny_def all_allow_def)
  with assms(2) show ?thesis by (cases "evaluate U H ?F a") (auto simp: result_le_def)
qed

section \<open>The permissions of an untrusted project\<close>

lemma dget_filter_key: "dget (filter (\<lambda>(k, v). P k) d) k = (if P k then dget d k else None)"
proof (induction d)
  case (Cons kv d)
  then show ?case by (cases kv) auto
qed simp

lemma dict_ok_filter: "dict_ok d \<Longrightarrow> dict_ok (filter P d)"
  by (simp add: dict_ok_def distinct_map_filter)

lemma dget_filter_allow: "dget (filter (\<lambda>(k, v). k \<noteq> u ''allow'' \<and> Q k v) d) (u ''allow'') = None"
  by (induction d) auto

text \<open>An overlay that can only tighten: no allow rules, no globs, and a network section, if it is one, without allowed hosts.\<close>

definition deny_only :: "tier \<Rightarrow> bool" where
  "deny_only ov \<longleftrightarrow> dget ov (u ''allow'') = None \<and> dget ov (u ''sensitive_read_globs'') = None
     \<and> (case dget ov (u ''network'') of Some (JObj n) \<Rightarrow> dget n (u ''allow'') = None | _ \<Rightarrow> True)"

lemma sanitize_network_deny_only:
  assumes "dict_ok d" "dget d (u ''allow'') = None" "dget d (u ''sensitive_read_globs'') = None"
  shows "deny_only (sanitize_network d)" "dict_ok (sanitize_network d)"
  using assms dget_filter_allow[of "\<lambda>k v. \<not> (k = u ''deny'' \<and> v = JNull)"]
  by (auto simp: sanitize_network_def deny_only_def Let_def dget_dput dget_dpop dict_ok_dput dict_ok_dpop split: option.split json.split)

text \<open>The keys of a dictionary are distinct, also of the permissions inside a tier.\<close>

definition tier_ok :: "tier \<Rightarrow> bool" where
  "tier_ok raw \<longleftrightarrow> dict_ok raw \<and> (case dget raw (u ''permissions'') of Some (JObj p) \<Rightarrow> dict_ok p | _ \<Rightarrow> True)"

lemma sanitize_project_facts:
  assumes "tier_ok raw"
  shows "dict_ok (sanitize_project raw)"
    and "fst ` set (sanitize_project raw) \<subseteq> set SAFE_PROJECT_KEYS"
    and "dget (sanitize_project raw) (u ''permissions'') = Some (JObj ov) \<Longrightarrow> deny_only ov"
proof -
  let ?safe = "filter (\<lambda>(k, v). k \<in> set SAFE_PROJECT_KEYS) raw"
  have ok: "dict_ok ?safe" using assms by (simp add: tier_ok_def dict_ok_filter)
  have ks: "fst ` set ?safe \<subseteq> set SAFE_PROJECT_KEYS" by auto
  have pk: "u ''permissions'' \<in> set SAFE_PROJECT_KEYS" by (simp add: SAFE_PROJECT_KEYS_def)
  show "dict_ok (sanitize_project raw)"
    using ok by (auto simp: sanitize_project_def Let_def dict_ok_dput dict_ok_dpop split: option.split json.split)
  show "fst ` set (sanitize_project raw) \<subseteq> set SAFE_PROJECT_KEYS"
    using ks pk dpop_keys_subset[of "u ''permissions''" ?safe]
    by (auto simp: sanitize_project_def Let_def dput_keys split: option.split json.split)
  let ?t = "\<lambda>perms. filter (\<lambda>(k, v). k \<notin> {u ''allow'', u ''sensitive_read_globs''}) perms :: tier"
  have t: "deny_only (sanitize_network (?t perms))" if "dict_ok perms" for perms
    using that by (intro sanitize_network_deny_only) (simp_all add: dict_ok_filter dget_filter_key)
  show "deny_only ov" if "dget (sanitize_project raw) (u ''permissions'') = Some (JObj ov)"
    using that assms t ok pk
    by (auto simp: sanitize_project_def Let_def tier_ok_def dget_filter_key dget_dput dget_dpop split: option.splits json.splits if_splits)
qed

section \<open>Merging what is left\<close>

lemma merge_permissions_other:
  assumes "k \<noteq> u ''network''"
  shows "dget (merge_permissions b ov) k
     = dget (merge_globs ov (merge_bucket ''deny'' b ov (merge_bucket ''allow'' b ov b))) k"
  using assms by (subst merge_permissions.simps) (auto simp: Let_def dget_dput split: option.split json.split)

lemma merge_permissions_dget:
  "dget ov (u ''allow'') = None \<Longrightarrow> dget (merge_permissions b ov) (u ''allow'') = dget b (u ''allow'')"
  "dget ov (u ''sensitive_read_globs'') = None \<Longrightarrow>
     dget (merge_permissions b ov) (u ''sensitive_read_globs'') = dget b (u ''sensitive_read_globs'')"
  "dget (merge_permissions b ov) (u ''deny'') = (case dget ov (u ''deny'') of None \<Rightarrow> dget b (u ''deny'')
     | Some v \<Rightarrow> Some (splice (dget_or b ''deny'' (JList [])) v))"
  by (auto simp: merge_permissions_other merge_globs_def merge_bucket_def dget_dput split: option.split)

lemma merge_permissions_network:
  "dget (merge_permissions b ov) (u ''network'') = (case dget ov (u ''network'') of
       None \<Rightarrow> dget b (u ''network'')
     | Some JNull \<Rightarrow> dget b (u ''network'')
     | Some (JObj no) \<Rightarrow> Some (JObj (case dget b (u ''network'') of Some (JObj nb) \<Rightarrow> merge_permissions nb no | _ \<Rightarrow> no))
     | Some v \<Rightarrow> Some v)"
proof -
  have m: "dget (merge_globs ov (merge_bucket ''deny'' b ov (merge_bucket ''allow'' b ov b))) (u ''network'') = dget b (u ''network'')"
    by (auto simp: merge_globs_def merge_bucket_def dget_dput split: option.split)
  show ?thesis
    by (subst merge_permissions.simps) (simp add: Let_def dget_dput m split: option.split json.split)
qed

lemma str_list_append: "str_list (xs @ ys) = (case (str_list xs, str_list ys) of (Some a, Some b) \<Rightarrow> Some (a @ b) | _ \<Rightarrow> None)"
  by (induction xs rule: str_list.induct) (auto split: option.splits)

lemma splice_rules:
  assumes "rules_field b k [] = Some x" "rules_field m k [] = Some y"
    and "dget m (u k) = (case dget ov (u k) of None \<Rightarrow> dget b (u k) | Some v \<Rightarrow> Some (splice (dget_or b k (JList [])) v))"
  shows "set x \<subseteq> set y"
  using assms
  by (auto simp: rules_field_def splice_def dget_or_def str_list_append split: option.splits json.splits)

lemma splice_globs:
  assumes "host_globs U b k = Some x" "host_globs U m k = Some y"
    and "dget m (u k) = (case dget ov (u k) of None \<Rightarrow> dget b (u k) | Some v \<Rightarrow> Some (splice (dget_or b k (JList [])) v))"
  shows "set x \<subseteq> set y"
  using assms
  by (auto simp: host_globs_def splice_def dget_or_def split: option.splits json.splits)

lemma parse_network_Obj:
  "parse_network U (Some (JObj d)) = Some p \<Longrightarrow> host_globs U d ''allow'' = Some (np_allow p) \<and> host_globs U d ''deny'' = Some (np_deny p)"
  by (auto simp: parse_network_def split: if_splits option.splits)

lemma parse_network_tighter:
  assumes "parse_network U (dget b (u ''network'')) = Some q" "parse_network U (dget (merge_permissions b ov) (u ''network'')) = Some p"
    and "deny_only ov"
  shows "tighter p q"
proof (cases "dget ov (u ''network'') = None \<or> dget ov (u ''network'') = Some JNull")
  case True
  then show ?thesis using assms(1,2) by (auto simp: merge_permissions_network tighter_def)
next
  case False
  with assms(2) obtain no where v: "dget ov (u ''network'') = Some (JObj no)"
    by (auto simp: merge_permissions_network parse_network_def split: json.splits option.splits)
  with assms(3) have no: "dget no (u ''allow'') = None" by (simp add: deny_only_def)
  show ?thesis
  proof (cases "dget b (u ''network'')")
    case None
    then have "q = \<lparr>np_allow = [], np_deny = []\<rparr>" "parse_network U (Some (JObj no)) = Some p"
      using assms(1,2) v by (simp_all add: merge_permissions_network parse_network_def)
    then show ?thesis using parse_network_Obj[of U no p] no by (simp add: tighter_def host_globs_def)
  next
    case (Some w)
    with assms(1) obtain nb where nb: "w = JObj nb" by (cases w) (simp_all add: parse_network_def)
    let ?m = "merge_permissions nb no"
    have "parse_network U (Some (JObj ?m)) = Some p" "parse_network U (Some (JObj nb)) = Some q"
      using assms(1,2) v Some nb by (simp_all add: merge_permissions_network)
    note p = parse_network_Obj[OF this(1)] and q = parse_network_Obj[OF this(2)]
    have "np_allow p = np_allow q" using p q merge_permissions_dget(1)[OF no, of nb] by (simp add: host_globs_def)
    moreover have "set (np_deny q) \<subseteq> set (np_deny p)"
      using splice_globs[of U nb "''deny''" "np_deny q" ?m "np_deny p" no] p q merge_permissions_dget(3)[of nb no] by simp
    ultimately show ?thesis by (simp add: tighter_def)
  qed
qed

lemma parse_permissions_Obj:
  assumes "parse_permissions U (Some (JObj d)) = Some R"
  shows "rules_field d ''allow'' [] = Some (allow R)" "rules_field d ''deny'' [] = Some (deny R)"
    "rules_field d ''sensitive_read_globs'' DEFAULT_SENSITIVE_READ_GLOBS = Some (sensitive_read_globs R)"
    "parse_network U (dget d (u ''network'')) = Some (network R)"
  using assms by (auto simp: parse_permissions_def split: if_splits option.splits)

lemma parse_permissions_None: "parse_permissions U None = parse_permissions U (Some (JObj []))"
  by (simp add: parse_permissions_def only_keys_def rules_field_def parse_network_def)

lemma merged_stricter:
  assumes "parse_permissions U (Some (JObj b)) = Some S" "parse_permissions U (Some (JObj (merge_permissions b ov))) = Some R" "deny_only ov"
  shows "stricter R S"
proof -
  note b = parse_permissions_Obj[OF assms(1)] and m = parse_permissions_Obj[OF assms(2)]
  have ov: "dget ov (u ''allow'') = None" "dget ov (u ''sensitive_read_globs'') = None" using assms(3) by (simp_all add: deny_only_def)
  have "allow R = allow S" "sensitive_read_globs R = sensitive_read_globs S"
    using b(1,3) m(1,3) merge_permissions_dget(1,2)[of ov b] ov by (simp_all add: rules_field_def)
  moreover have "set (deny S) \<subseteq> set (deny R)"
    using splice_rules[OF b(2) m(2) merge_permissions_dget(3)] .
  moreover have "tighter (network R) (network S)" by (rule parse_network_tighter[OF b(4) m(4) assms(3)])
  ultimately show ?thesis by (simp add: stricter_def)
qed

lemma stricter_refl [simp]: "stricter R R"
  by (simp add: stricter_def tighter_def)

lemma untrusted_rules_stricter:
  assumes "tier_ok pr" "load_tiers False gl pr = Inr C" "deep_merge [] gl = Inr C0"
    and "parse_permissions U (dget C (u ''permissions'')) = Some R" "parse_permissions U (dget C0 (u ''permissions'')) = Some S"
  shows "stricter R S"
proof -
  let ?p = "sanitize_project (strip_global_only_keys pr)"
  have ok: "tier_ok (strip_global_only_keys pr)"
    using assms(1) by (auto simp: tier_ok_def strip_global_only_keys_def dict_ok_filter dget_filter_key)
  have m: "deep_merge C0 ?p = Inr C" using assms(2,3) by (simp add: load_tiers_def merge_tiers_def)
  show ?thesis
  proof (cases "dget ?p (u ''permissions'')")
    case None
    then have "dget C (u ''permissions'') = dget C0 (u ''permissions'')"
      by (intro deep_merge_other[OF m]) (simp add: dget_None_iff)
    with assms(4,5) show ?thesis by simp
  next
    case (Some v)
    from m sanitize_project_facts(1)[OF ok] Some show ?thesis
    proof (cases rule: deep_merge_permissions)
      case (mapping ov b)
      then have "deny_only ov" using sanitize_project_facts(3)[OF ok] Some by simp
      moreover have "parse_permissions U (Some (JObj b)) = Some S" using mapping(2) assms(5) by (auto simp: parse_permissions_None)
      ultimately show ?thesis using merged_stricter[of U b S ov R] mapping(3) assms(4) by simp
    next
      case other
      then show ?thesis using assms(4) by (cases v) (auto simp: parse_permissions_def)
    qed
  qed
qed

section \<open>Three-way merge of the trust file\<close>

lemma dict_ok_fold_dpop: "dict_ok d \<Longrightarrow> dict_ok (fold dpop ks d)"
  by (induction ks arbitrary: d) (simp_all add: dict_ok_dpop)

lemma dget_fold_dpop: "dict_ok d \<Longrightarrow> dget (fold dpop ks d) k = (if k \<in> set ks then None else dget d k)"
  by (induction ks arbitrary: d) (simp_all add: dict_ok_dpop dget_dpop)

lemma dict_ok_fold_put: "dict_ok d \<Longrightarrow> dict_ok (fold (\<lambda>(k, v) d. if P k v then dput k v d else d) es d)"
  by (induction es arbitrary: d) (auto simp: dict_ok_dput)

lemma dget_fold_put:
  "dict_ok es \<Longrightarrow> dget (fold (\<lambda>(k, v) d. if P k v then dput k v d else d) es d) k
     = (case dget es k of Some v \<Rightarrow> if P k v then Some v else dget d k | None \<Rightarrow> dget d k)"
proof (induction es arbitrary: d)
  case (Cons kv es)
  obtain k1 v where kv: "kv = (k1, v)" by force
  have ok: "dict_ok es" "k1 \<notin> fst ` set es" using Cons.prems by (simp_all add: kv dict_ok_def)
  then have "dget es k1 = None" by (simp add: dget_None_iff)
  then show ?case using Cons.IH[OF ok(1)] by (auto simp: kv dget_dput split: option.split)
qed simp

lemma merge_entries_ok: "dict_ok disk \<Longrightarrow> dict_ok (merge_entries T disk)"
  by (simp add: merge_entries_def dict_ok_fold_put dict_ok_fold_dpop)

lemma merge_entries_dget:
  assumes "dict_ok disk" "dict_ok (ts_entries T)"
  shows "dget (merge_entries T disk) k
     = (if dget (ts_entries T) k \<noteq> dget (ts_baseline T) k then dget (ts_entries T) k else dget disk k)"
proof -
  have "dget (ts_baseline T) k = None \<longleftrightarrow> k \<notin> set (dkeys (ts_baseline T))" by (simp add: dget_None_iff dkeys_def)
  then show ?thesis
    using assms by (auto simp: merge_entries_def dget_fold_put dget_fold_dpop split: option.split)
qed

lemma trust_entries_saved:
  assumes "yaml_ok Y" "dict_ok disk"
  shows "trust_entries U Y p (dput p (FText (y_dump Y (JObj (map (\<lambda>(k, v). (k, JStr v)) (sort_key fst disk))))) F) = Inr (sort_key fst disk)"
proof -
  have "map ((\<lambda>(k, v). (k, py_str U v)) \<circ> (\<lambda>(k, v). (k, JStr v))) xs = xs" for xs :: "(pystr, pystr) pydict"
    by (induction xs) (auto simp: py_str_def)
  then show ?thesis using assms(1) by (simp add: trust_entries_def dget_dput yaml_ok_def)
qed

text \<open>
  C32. Saving the trust file is a three-way merge: whatever other processes wrote since this instance read
  it, a process that reads the file afterwards finds, for every root, what this instance made of it if it changed
  the root, and otherwise what was on disk. In particular a root that another process revoked stays revoked.
\<close>

theorem trust_save_three_way:
  assumes "yaml_ok Y" "dict_ok (ts_entries T)" "dict_ok disk"
    and "trust_entries U Y (ts_path T) F = Inr disk" "trust_save U Y T F = Inr (T', F')"
    and "trust_load U Y (ts_path T) F' = Inr L"
  shows "dget (ts_entries L) key = (if dget (ts_entries T) key \<noteq> dget (ts_baseline T) key then dget (ts_entries T) key else dget disk key)
     \<and> dget (ts_entries T') key = dget (ts_entries L) key"
proof -
  let ?d = "merge_entries T disk"
  have ok: "dict_ok ?d" by (rule merge_entries_ok[OF assms(3)])
  have "T' = T\<lparr>ts_entries := ?d, ts_baseline := ?d\<rparr>"
    "F' = dput (ts_path T) (FText (y_dump Y (JObj (map (\<lambda>(k, v). (k, JStr v)) (sort_key fst ?d))))) F"
    using assms(4,5) by (auto simp: trust_save_def Let_def)
  moreover from this assms(6) trust_entries_saved[OF assms(1) ok] have "ts_entries L = sort_key fst ?d"
    by (auto simp: trust_load_def)
  ultimately show ?thesis using merge_entries_dget[OF assms(3,2), of key] ok by (simp add: dget_sort)
qed

section \<open>Properties of the boundary\<close>

text \<open>
  C20. An untrusted project can only make the agent stricter. Whatever its configuration says, every
  top-level setting except the cosmetic one and the permissions is the global one, and with the merged permission
  rules no action is decided more permissively than with the global rules alone.
\<close>

theorem untrusted_project_only_tightens:
  assumes "tier_ok pr" "load_tiers False gl pr = Inr C" "deep_merge [] gl = Inr C0"
    and "parse_permissions U (dget C (u ''permissions'')) = Some R" "parse_permissions U (dget C0 (u ''permissions'')) = Some S"
  shows "(\<forall>k. k \<notin> set SAFE_PROJECT_KEYS \<longrightarrow> dget C k = dget C0 k)
     \<and> (\<forall>r. evaluate U H (E\<lparr>rules := R\<rparr>) a = Inr r \<longrightarrow> (\<exists>s. evaluate U H (E\<lparr>rules := S\<rparr>) a = Inr s \<and> decision r \<le> decision s))"
proof (intro conjI allI impI)
  let ?p = "sanitize_project (strip_global_only_keys pr)"
  fix k assume "k \<notin> set SAFE_PROJECT_KEYS"
  moreover have "tier_ok (strip_global_only_keys pr)"
    using assms(1) by (auto simp: tier_ok_def strip_global_only_keys_def dict_ok_filter dget_filter_key)
  ultimately have "k \<notin> fst ` set ?p" using sanitize_project_facts(2) by blast
  moreover have "deep_merge C0 ?p = Inr C" using assms(2,3) by (simp add: load_tiers_def merge_tiers_def)
  ultimately show "dget C k = dget C0 k" by (intro deep_merge_other)
next
  fix r assume "evaluate U H (E\<lparr>rules := R\<rparr>) a = Inr r"
  then show "\<exists>s. evaluate U H (E\<lparr>rules := S\<rparr>) a = Inr s \<and> decision r \<le> decision s"
    by (rule evaluate_stricter[OF untrusted_rules_stricter[OF assms]])
qed

text \<open>
  What a user trusted is what runs: after trust was recorded for a project, the project counts as trusted
  exactly as long as its settings that need trust (if it has any) are spelled the same as those that were shown,
  for a digest without collisions.
\<close>

theorem trust_bound_to_content:
  assumes "inj sha"
    and "commit_trust_if_unchanged U Y sha cp key T txt parsed F = TrustRecorded T' F'" "project_dangerous U parsed = Inr danger"
    and "dget G p = Some (FText txt2)" "parse_tier Y U txt2 = Some raw2" "project_dangerous U raw2 = Inr danger2"
    and "dict_ok (ts_entries T)" "trust_entries U Y (ts_path T) F = Inr disk" "dict_ok disk"
    and "dget (ts_baseline T) key \<noteq> Some (fingerprint U sha danger) \<or> dget disk key = dget (ts_baseline T) key"
  shows "is_project_trusted U Y sha (Some p) key T' G
     = Some (danger2 = [] \<or> dumps_sorted U (JObj danger2) = dumps_sorted U (JObj danger))"
proof -
  let ?T = "trust key (fingerprint U sha danger) T"
  have "trust_save U Y ?T F = Inr (T', F')"
    using assms(2,3) by (auto simp: commit_trust_if_unchanged_def split: option.splits fnode.splits if_splits sum.splits)
  then have "ts_entries T' = merge_entries ?T disk"
    using assms(8) by (auto simp: trust_save_def trust_def Let_def)
  moreover have "dict_ok (ts_entries ?T)" using assms(7) by (simp add: trust_def dict_ok_dput)
  ultimately have "dget (ts_entries T') key = Some (fingerprint U sha danger)"
    using merge_entries_dget[OF assms(9), of ?T key] assms(10) by (auto simp: trust_def dget_dput)
  then show ?thesis using assms(1,4-6)
    by (auto simp: is_project_trusted_def status_def fingerprint_def inj_eq)
qed

section \<open>Witnesses\<close>

definition demo_global :: tier where
  "demo_global = [(u ''permissions'', JObj [(u ''deny'', JList [JStr (u ''rm *'')])])]"

definition demo_hostile :: tier where
  "demo_hostile = [(u ''permission_mode'', JStr (u ''yolo'')),
     (u ''permissions'', JObj [(u ''allow'', JList [JStr (u ''*'')]), (u ''deny'', JList [JStr (u ''curl *'')]), (u ''sensitive_read_globs'', JList [])])]"

definition demo_rules :: "pystr list \<Rightarrow> PermissionRules" where
  "demo_rules dn = \<lparr>allow = [], deny = dn, sensitive_read_globs = DEFAULT_SENSITIVE_READ_GLOBS, network = \<lparr>np_allow = [], np_deny = []\<rparr>\<rparr>"

theorem untrusted_project_only_tightens_witness:
  "\<exists>C. load_tiers False demo_global demo_hostile = Inr C \<and> dget C (u ''permission_mode'') = None
     \<and> parse_permissions ascii_uni (dget C (u ''permissions'')) = Some (demo_rules [u ''rm *'', u ''curl *''])
     \<and> (\<exists>r s. evaluate ascii_uni user_host ((project_engine YOLO [] [])\<lparr>rules := demo_rules [u ''rm *'', u ''curl *'']\<rparr>) (action SHELL (u ''curl x'') None) = Inr r
          \<and> evaluate ascii_uni user_host ((project_engine YOLO [] [])\<lparr>rules := demo_rules [u ''rm *'']\<rparr>) (action SHELL (u ''curl x'') None) = Inr s
          \<and> decision r = DENY \<and> decision r \<le> decision s)"
proof -
  have ok: "tier_ok demo_hostile" by code_simp
  let ?C = "[(u ''permissions'', JObj [(u ''deny'', JList [JStr (u ''rm *''), JStr (u ''curl *'')])])]"
  have C: "load_tiers False demo_global demo_hostile = Inr ?C" by code_simp
  have C0: "deep_merge [] demo_global = Inr demo_global" by code_simp
  have R: "parse_permissions ascii_uni (dget ?C (u ''permissions'')) = Some (demo_rules [u ''rm *'', u ''curl *''])"
    "parse_permissions ascii_uni (dget demo_global (u ''permissions'')) = Some (demo_rules [u ''rm *''])" by code_simp+
  let ?E = "project_engine YOLO [] []" and ?a = "action SHELL (u ''curl x'') None"
  have "map_sum id decision (evaluate ascii_uni user_host (?E\<lparr>rules := demo_rules [u ''rm *'', u ''curl *'']\<rparr>) ?a) = Inr DENY" by code_simp
  then obtain r where r: "evaluate ascii_uni user_host (?E\<lparr>rules := demo_rules [u ''rm *'', u ''curl *'']\<rparr>) ?a = Inr r" "decision r = DENY"
    by (cases "evaluate ascii_uni user_host (?E\<lparr>rules := demo_rules [u ''rm *'', u ''curl *'']\<rparr>) ?a") auto
  note t = untrusted_project_only_tightens[OF ok C C0 R, of user_host ?E ?a]
  from t r obtain s where "evaluate ascii_uni user_host (?E\<lparr>rules := demo_rules [u ''rm *'']\<rparr>) ?a = Inr s" "decision r \<le> decision s" by blast
  moreover have "dget ?C (u ''permission_mode'') = None" by code_simp
  ultimately show ?thesis using C R(1) r by blast
qed

definition demo_store :: TrustStore where
  "demo_store = \<lparr>ts_path = u ''t'', ts_entries = [], ts_baseline = [(u ''/a'', u ''x'')]\<rparr>"

definition demo_disk :: fs where
  "demo_disk = [(u ''t'', FText (y_dump number_yaml (JObj [(u ''/a'', JStr (u ''x'')), (u ''/b'', JStr (u ''y''))])))]"

text \<open>One process has revoked \<^verbatim>\<open>/a\<close>; meanwhile another one has trusted \<^verbatim>\<open>/b\<close>.\<close>

theorem trust_save_three_way_witness:
  "\<exists>T' F' L. trust_save ascii_uni number_yaml demo_store demo_disk = Inr (T', F') \<and> trust_load ascii_uni number_yaml (u ''t'') F' = Inr L
     \<and> dget (ts_entries L) (u ''/a'') = None \<and> dget (ts_entries L) (u ''/b'') = Some (u ''y'')"
proof -
  let ?d = "[(u ''/a'', u ''x''), (u ''/b'', u ''y'')]"
  have d: "trust_entries ascii_uni number_yaml (ts_path demo_store) demo_disk = Inr ?d"
    using number_yaml_ok by (simp add: trust_entries_def demo_store_def demo_disk_def yaml_ok_def py_str_def)
  then obtain T' F' where s: "trust_save ascii_uni number_yaml demo_store demo_disk = Inr (T', F')" by (auto simp: trust_save_def Let_def)
  have "\<exists>L. trust_load ascii_uni number_yaml (ts_path demo_store) F' = Inr L"
    using s d trust_entries_saved[OF number_yaml_ok merge_entries_ok[of ?d demo_store]]
    by (auto simp: trust_save_def Let_def trust_load_def dict_ok_def)
  then obtain L where L: "trust_load ascii_uni number_yaml (ts_path demo_store) F' = Inr L" by blast
  have ok: "dict_ok (ts_entries demo_store)" "dict_ok ?d" by (simp_all add: demo_store_def dict_ok_def)
  note t = trust_save_three_way[OF number_yaml_ok ok d s L]
  show ?thesis using t[of "u ''/a''"] t[of "u ''/b''"] s L by (auto simp: demo_store_def)
qed

theorem trust_bound_to_content_witness:
  "\<exists>T' F'. commit_trust_if_unchanged ascii_uni number_yaml id (Some (u ''c'')) (u ''/a'') \<lparr>ts_path = u ''t'', ts_entries = [], ts_baseline = []\<rparr>
       (y_dump number_yaml (JObj demo_hostile)) demo_hostile [(u ''c'', FText (y_dump number_yaml (JObj demo_hostile)))] = TrustRecorded T' F'
     \<and> is_project_trusted ascii_uni number_yaml id (Some (u ''c'')) (u ''/a'') T' [(u ''c'', FText (y_dump number_yaml (JObj [(u ''hooks'', JList [])])))] = Some False"
proof -
  let ?T = "\<lparr>ts_path = u ''t'', ts_entries = [], ts_baseline = []\<rparr>" and ?F = "[(u ''c'', FText (y_dump number_yaml (JObj demo_hostile)))]"
  let ?raw2 = "[(u ''hooks'', JList [])]"
  have "\<exists>d. project_dangerous ascii_uni demo_hostile = Inr d"
    by (rule exI[of _ "projr (project_dangerous ascii_uni demo_hostile)"]) code_simp
  then obtain d where d: "project_dangerous ascii_uni demo_hostile = Inr d" by blast
  have d2: "project_dangerous ascii_uni ?raw2 = Inr ?raw2" by code_simp
  have disk: "trust_entries ascii_uni number_yaml (ts_path ?T) ?F = Inr []" by (simp add: trust_entries_def)
  obtain T' F' where c: "commit_trust_if_unchanged ascii_uni number_yaml id (Some (u ''c'')) (u ''/a'') ?T
      (y_dump number_yaml (JObj demo_hostile)) demo_hostile ?F = TrustRecorded T' F'"
    using d by (simp add: commit_trust_if_unchanged_def trust_save_def trust_entries_def trust_def Let_def)
  let ?G = "[(u ''c'', FText (y_dump number_yaml (JObj ?raw2)))]"
  have p: "dget ?G (u ''c'') = Some (FText (y_dump number_yaml (JObj ?raw2)))" by simp
  have q: "parse_tier number_yaml ascii_uni (y_dump number_yaml (JObj ?raw2)) = Some ?raw2"
    using number_yaml_ok by (simp add: parse_tier_def yaml_ok_def)
  have t: "is_project_trusted ascii_uni number_yaml id (Some (u ''c'')) (u ''/a'') T' ?G
     = Some (?raw2 = [] \<or> dumps_sorted ascii_uni (JObj ?raw2) = dumps_sorted ascii_uni (JObj d))"
    by (rule trust_bound_to_content[OF inj_on_id c d p q d2 _ disk]) (simp_all add: dict_ok_def)
  have "dumps_sorted ascii_uni (JObj ?raw2) \<noteq> dumps_sorted ascii_uni (JObj (projr (project_dangerous ascii_uni demo_hostile)))" by code_simp
  with t c d show ?thesis by auto
qed

end
