(* ===== verification/Checkpoint.thy ===== *)
theory Checkpoint
  imports Json_Dump "HOL-Library.List_Lexorder"
begin

text \<open>
  Checkpoints of the working tree, \<^verbatim>\<open>src/src/jarn/agent/checkpoint.py\<close>. The program \<^verbatim>\<open>git\<close> is the record \<open>git\<close>:
  \<open>query\<close> runs a command that changes nothing (\<^verbatim>\<open>rev-parse\<close>, \<^verbatim>\<open>ls-tree\<close>, \<^verbatim>\<open>ls-files\<close>, \<^verbatim>\<open>log\<close>, \<^verbatim>\<open>diff\<close>, \<^verbatim>\<open>for-each-ref\<close>),
  \<open>run\<close> one that may change the repository, with an index file of its own or not, and \<open>unlink\<close> removes a path
  of the working tree. The state of the repository is the type \<open>'g\<close>. What the code relies on is stated by
  \<open>git_ok\<close> over the abstract view \<open>repo\<close>. An operation holds the checkpoint lock from its
  first read to its last write, so it is one step; a snapshot only takes it for its writes, and is one step under the
  assumption that no other process uses the stacks in between.

  The stacks of undo and redo points are numbered references; the lemmas show that the operations on them are
  those of a list, and the properties say what undo and redo do to the working tree.
\<close>

section \<open>Git\<close>

record gres =
  rc :: int
  gout :: pystr
  gerr :: pystr

record 'g git =
  query :: "pystr list \<Rightarrow> 'g \<Rightarrow> gres"
  run :: "pystr list \<Rightarrow> pystr option \<Rightarrow> 'g \<Rightarrow> gres \<times> 'g"
  unlink :: "pystr \<Rightarrow> 'g \<Rightarrow> 'g"
  tmp_index :: pystr

text \<open>\<^verbatim>\<open>str.splitlines\<close>\<close>

definition line_end :: "int \<Rightarrow> bool" where
  "line_end c \<longleftrightarrow> c \<in> {10, 11, 12, 13, 28, 29, 30, 133, 8232, 8233}"

fun splitlines_aux :: "pystr \<Rightarrow> pystr \<Rightarrow> pystr list" where
  "splitlines_aux acc [] = (if acc = [] then [] else [rev acc])"
| "splitlines_aux acc (c # s) =
     (if c = 13 \<and> s \<noteq> [] \<and> hd s = 10 then splitlines_aux acc s
      else if line_end c then rev acc # splitlines_aux [] s
      else splitlines_aux (c # acc) s)"

definition splitlines :: "pystr \<Rightarrow> pystr list" where
  "splitlines s = splitlines_aux [] s"

definition lines_of :: "gres \<Rightarrow> pystr list" where
  "lines_of r = filter (\<lambda>l. l \<noteq> []) (splitlines (gout r))"

definition is_git_repo :: "'g git \<Rightarrow> 'g \<Rightarrow> bool" where
  "is_git_repo G g = (let r = query G [u ''rev-parse'', u ''--is-inside-work-tree''] g in rc r = 0 \<and> strip_ws (gout r) = u ''true'')"

definition get_head_sha :: "'g git \<Rightarrow> 'g \<Rightarrow> pystr option" where
  "get_head_sha G g = (let r = query G [u ''rev-parse'', u ''HEAD''] g in if rc r \<noteq> 0 then None else Some (strip_ws (gout r)))"

definition list_tree_paths :: "'g git \<Rightarrow> pystr \<Rightarrow> 'g \<Rightarrow> pystr set" where
  "list_tree_paths G sha g = (let r = query G [u ''ls-tree'', u ''-r'', u ''--name-only'', sha] g in if rc r \<noteq> 0 then {} else set (lines_of r))"

definition ref_exists :: "'g git \<Rightarrow> pystr \<Rightarrow> 'g \<Rightarrow> bool" where
  "ref_exists G ref g \<longleftrightarrow> rc (query G [u ''rev-parse'', u ''--verify'', ref] g) = 0"

definition read_ref :: "'g git \<Rightarrow> pystr \<Rightarrow> 'g \<Rightarrow> pystr option" where
  "read_ref G ref g = (let r = query G [u ''rev-parse'', ref] g in if rc r \<noteq> 0 then None else Some (strip_ws (gout r)))"

definition update_ref :: "'g git \<Rightarrow> pystr \<Rightarrow> pystr \<Rightarrow> 'g \<Rightarrow> bool \<times> 'g" where
  "update_ref G ref sha g = (let (r, g') = run G [u ''update-ref'', ref, sha] None g in (rc r = 0, g'))"

definition delete_ref :: "'g git \<Rightarrow> pystr \<Rightarrow> 'g \<Rightarrow> 'g" where
  "delete_ref G ref g = snd (run G [u ''update-ref'', u ''-d'', ref] None g)"

definition read_ref_message :: "'g git \<Rightarrow> pystr \<Rightarrow> 'g \<Rightarrow> pystr" where
  "read_ref_message G sha g = (let r = query G [u ''log'', u ''-1'', u ''--pretty=%s'', sha] g in if rc r \<noteq> 0 then take 12 sha else strip_ws (gout r))"

definition tree_arg :: "pystr \<Rightarrow> pystr" where
  "tree_arg sha = sha @ u ''^{tree}''"

definition tree_sha :: "'g git \<Rightarrow> pystr \<Rightarrow> 'g \<Rightarrow> pystr option" where
  "tree_sha G sha g = (let r = query G [u ''rev-parse'', tree_arg sha] g; t = strip_ws (gout r) in if rc r \<noteq> 0 \<or> t = [] then None else Some t)"

section \<open>Turn tags\<close>

definition turn_meta_suffix :: "pystr option \<Rightarrow> int option \<Rightarrow> pystr" where
  "turn_meta_suffix thread_id turn_index = (case (thread_id, turn_index) of
       (Some t, Some i) \<Rightarrow> u '' [jarn:thread='' @ t @ u '' turn='' @ str_int i @ u '']''
     | _ \<Rightarrow> [])"

text \<open>The rest of a subject after \<^verbatim>\<open>[jarn:thread=\<close>: the thread, and the digits up to the closing bracket, which
  has to be the end (or stand before a final newline, where \<^verbatim>\<open>$\<close> also matches).\<close>

definition tag_here :: "pyuni \<Rightarrow> pystr \<Rightarrow> (pystr \<times> pystr) option" where
  "tag_here U s =
     (let pre = u ''[jarn:thread=''; mid = u '' turn='';
          r1 = drop (length pre) s; t = takeWhile (\<lambda>c. \<not> isspace c \<and> c \<noteq> 93) r1; r2 = drop (length t) r1;
          r3 = drop (length mid) r2; ds = takeWhile (\<lambda>c. digit_val U c \<noteq> None) r3
      in if startswith s pre \<and> t \<noteq> [] \<and> startswith r2 mid \<and> ds \<noteq> [] \<and> drop (length ds) r3 \<in> {[93], [93, 10]}
         then Some (t, ds) else None)"

fun turn_meta :: "pyuni \<Rightarrow> pystr \<Rightarrow> (pystr \<times> pystr) option" where
  "turn_meta U [] = tag_here U []"
| "turn_meta U (c # s) = (case tag_here U (c # s) of None \<Rightarrow> turn_meta U s | r \<Rightarrow> r)"

definition thread_id_from_subject :: "pyuni \<Rightarrow> pystr \<Rightarrow> pystr option" where
  "thread_id_from_subject U subject = map_option fst (turn_meta U subject)"

text \<open>\<^verbatim>\<open>int\<close> of matched decimal digits\<close>

definition digits_int :: "pyuni \<Rightarrow> pystr \<Rightarrow> int" where
  "digits_int U ds = foldl (\<lambda>n c. n * 10 + (case digit_val U c of Some d \<Rightarrow> d | None \<Rightarrow> 0)) 0 ds"

definition short_thread :: "pystr \<Rightarrow> pystr" where
  "short_thread tid = (if length tid \<le> 12 then tid else take 8 tid @ [8230])"

definition foreign_checkpoint_message :: "string \<Rightarrow> pystr \<Rightarrow> pystr \<Rightarrow> pystr" where
  "foreign_checkpoint_message op owner caller = u ''top checkpoint belongs to another session (owner='' @ short_thread owner
     @ u '', this session='' @ short_thread caller @ u ''). Refuse to '' @ u op @ u '' across sessions '' @ [8212] @ u '' resume that thread or wait for it.''"

section \<open>Stacks\<close>

definition UNDO_PREFIX :: pystr where "UNDO_PREFIX = u ''refs/jarn/checkpoints/stack/undo/''"

definition REDO_PREFIX :: pystr where "REDO_PREFIX = u ''refs/jarn/checkpoints/stack/redo/''"

definition snap_ref :: "pystr \<Rightarrow> pystr" where
  "snap_ref sha = u ''refs/jarn/checkpoints/snap/'' @ take 40 sha"

definition nth_ref :: "pystr \<Rightarrow> nat \<Rightarrow> pystr" where
  "nth_ref pfx i = pfx @ str_int (int i)"

partial_function (option) stack_read_from :: "'g git \<Rightarrow> pystr \<Rightarrow> nat \<Rightarrow> 'g \<Rightarrow> pystr list option" where
  "stack_read_from G pfx i g = (case read_ref G (nth_ref pfx i) g of
       None \<Rightarrow> Some []
     | Some sha \<Rightarrow> Option.bind (stack_read_from G pfx (Suc i) g) (\<lambda>xs. Some (sha # xs)))"

declare stack_read_from.simps [code]

text \<open>\<open>None\<close> when the loop does not end\<close>

definition stack_read :: "'g git \<Rightarrow> pystr \<Rightarrow> 'g \<Rightarrow> pystr list option" where
  "stack_read G pfx g = stack_read_from G pfx 0 g"

text \<open>The references \<open>i - 1\<close>, ..., \<open>0\<close> are copied one position deeper, the deepest first.\<close>

fun shift_deeper :: "'g git \<Rightarrow> pystr \<Rightarrow> nat \<Rightarrow> 'g \<Rightarrow> 'g" where
  "shift_deeper G pfx 0 g = g"
| "shift_deeper G pfx (Suc i) g = shift_deeper G pfx i
     (case read_ref G (nth_ref pfx i) g of
        Some sha \<Rightarrow> if sha \<noteq> [] then snd (update_ref G (nth_ref pfx (Suc i)) sha g) else g
      | None \<Rightarrow> g)"

definition stack_push :: "'g git \<Rightarrow> pystr \<Rightarrow> pystr \<Rightarrow> 'g \<Rightarrow> (bool \<times> 'g) option" where
  "stack_push G pfx sha g = map_option (\<lambda>entries. update_ref G (nth_ref pfx 0) sha (shift_deeper G pfx (length entries) g))
     (stack_read G pfx g)"

fun shift_up :: "'g git \<Rightarrow> pystr \<Rightarrow> nat list \<Rightarrow> 'g \<Rightarrow> 'g" where
  "shift_up G pfx [] g = g"
| "shift_up G pfx (i # is1) g = shift_up G pfx is1 (delete_ref G (nth_ref pfx i)
     (case read_ref G (nth_ref pfx i) g of
        Some sha \<Rightarrow> if sha \<noteq> [] then snd (update_ref G (nth_ref pfx (i - 1)) sha g) else g
      | None \<Rightarrow> g))"

definition stack_pop :: "'g git \<Rightarrow> pystr \<Rightarrow> 'g \<Rightarrow> (pystr option \<times> 'g) option" where
  "stack_pop G pfx g = map_option (\<lambda>entries. case entries of
       [] \<Rightarrow> (None, g)
     | tp # _ \<Rightarrow> (Some tp, shift_up G pfx [1..<length entries] (delete_ref G (nth_ref pfx 0) g)))
     (stack_read G pfx g)"

text \<open>\<^verbatim>\<open>_stack_clear\<close> from 0, \<^verbatim>\<open>_prune_stack\<close> from the maximal depth\<close>

partial_function (option) delete_from :: "'g git \<Rightarrow> pystr \<Rightarrow> nat \<Rightarrow> 'g \<Rightarrow> 'g option" where
  "delete_from G pfx i g =
     (if ref_exists G (nth_ref pfx i) g then delete_from G pfx (Suc i) (delete_ref G (nth_ref pfx i) g) else Some g)"

declare delete_from.simps [code]

definition stack_clear :: "'g git \<Rightarrow> pystr \<Rightarrow> 'g \<Rightarrow> 'g option" where
  "stack_clear G pfx g = delete_from G pfx 0 g"

section \<open>Snapshots\<close>

definition SNAPSHOT_EXCLUDE :: "pystr list" where
  "SNAPSHOT_EXCLUDE = map u [''.jarn/state.sqlite'', ''.jarn/state.sqlite-wal'', ''.jarn/state.sqlite-shm'', ''.jarn/*.lock'']"

fun reset_excluded :: "'g git \<Rightarrow> pystr list \<Rightarrow> 'g \<Rightarrow> 'g" where
  "reset_excluded G [] g = g"
| "reset_excluded G (rel # rels) g = reset_excluded G rels (snd (run G [u ''reset'', u ''HEAD'', u ''--'', rel] (Some (tmp_index G)) g))"

definition build_snapshot :: "'g git \<Rightarrow> pystr \<Rightarrow> 'g \<Rightarrow> (pystr + pystr) \<times> 'g" where
  "build_snapshot G label g =
     (case get_head_sha G g of
        None \<Rightarrow> (Inl (u ''repo has no commits yet; skipping snapshot''), g)
      | Some head_sha \<Rightarrow>
          (let ix = Some (tmp_index G); (r1, g1) = run G [u ''read-tree'', u ''HEAD''] ix g
           in if rc r1 \<noteq> 0 then (Inl (u ''read-tree failed: '' @ strip_ws (gerr r1)), g1)
              else (let (r2, g2) = run G [u ''add'', u ''-A''] ix g1
                in if rc r2 \<noteq> 0 then (Inl (u ''git add -A failed: '' @ strip_ws (gerr r2)), g2)
                   else (let g3 = reset_excluded G SNAPSHOT_EXCLUDE g2; (r4, g4) = run G [u ''write-tree''] ix g3
                     in if rc r4 \<noteq> 0 then (Inl (u ''write-tree failed: '' @ strip_ws (gerr r4)), g4)
                        else (let (r5, g5) = run G [u ''commit-tree'', strip_ws (gout r4), u ''-p'', head_sha, u ''-m'', label] None g4
                          in if rc r5 \<noteq> 0 then (Inl (u ''commit-tree failed: '' @ strip_ws (gerr r5)), g5)
                             else (Inr (strip_ws (gout r5)), g5))))))"

definition unlink_all :: "'g git \<Rightarrow> pystr list \<Rightarrow> 'g \<Rightarrow> 'g" where
  "unlink_all G ps g = fold (unlink G) ps g"

text \<open>The listing of untracked files is optional: when it fails only tracked files are removed.\<close>

definition apply_snapshot :: "'g git \<Rightarrow> pystr \<Rightarrow> 'g \<Rightarrow> (pystr + unit) \<times> 'g" where
  "apply_snapshot G sha g =
     (let snapshot_paths = list_tree_paths G sha g; current_r = query G [u ''ls-files''] g;
          untracked_r = query G [u ''ls-files'', u ''--others'', u ''--exclude-standard''] g;
          untracked = (if rc untracked_r = 0 then lines_of untracked_r else []);
          to_remove = remdups (filter (\<lambda>p. p \<notin> snapshot_paths) (lines_of current_r @ untracked))
      in if rc current_r \<noteq> 0 then (Inl (u ''ls-files failed: '' @ strip_ws (gerr current_r)), g)
         else (let (r, g1) = run G [u ''restore'', u ''--source='' @ sha, u ''--worktree'', u ''--'', u ''.''] None g
           in if rc r \<noteq> 0 then (Inl (u ''git restore failed: '' @ strip_ws (gerr r)), g1)
              else (Inr (), unlink_all G (sort to_remove) g1)))"

section \<open>The manager\<close>

record CheckpointManager =
  cm_enabled :: bool
  cm_is_repo :: bool
  cm_max_stack :: nat
  cm_aliases :: "(pystr, pystr \<times> int) pydict"

text \<open>Every operation returns a message, \<open>Inl\<close> when it was refused, and the repository; \<open>None\<close> stands for a loop
  over a stack that does not end.\<close>

type_synonym 'g outcome = "((pystr + pystr) \<times> 'g) option"

definition prune_stack :: "'g git \<Rightarrow> CheckpointManager \<Rightarrow> pystr \<Rightarrow> 'g \<Rightarrow> 'g option" where
  "prune_stack G M pfx g = delete_from G pfx (cm_max_stack M) g"

text \<open>\<^verbatim>\<open>_update_ref\<close> of the stable reference, \<^verbatim>\<open>_stack_push\<close> and \<^verbatim>\<open>_prune_stack\<close>, results ignored\<close>

definition push_point :: "'g git \<Rightarrow> CheckpointManager \<Rightarrow> pystr \<Rightarrow> pystr \<Rightarrow> 'g \<Rightarrow> 'g option" where
  "push_point G M pfx sha g =
     Option.bind (stack_push G pfx sha (snd (update_ref G (snap_ref sha) sha g))) (\<lambda>(_, g1). prune_stack G M pfx g1)"

definition guarded :: "CheckpointManager \<Rightarrow> 'g \<Rightarrow> 'g outcome \<Rightarrow> 'g outcome" where
  "guarded M g act =
     (if \<not> cm_enabled M then Some (Inl (u ''autocheckpoint disabled''), g)
      else if \<not> cm_is_repo M then Some (Inl (u ''not a git repository''), g)
      else act)"

definition same_tree :: "'g git \<Rightarrow> pystr \<Rightarrow> pystr \<Rightarrow> 'g \<Rightarrow> bool" where
  "same_tree G sha1 sha2 g =
     (let r1 = query G [u ''rev-parse'', tree_arg sha1] g; r2 = query G [u ''rev-parse'', tree_arg sha2] g
      in rc r1 = 0 \<and> rc r2 = 0 \<and> strip_ws (gout r1) = strip_ws (gout r2))"

definition snapshot :: "'g git \<Rightarrow> CheckpointManager \<Rightarrow> pystr \<Rightarrow> int \<Rightarrow> pystr option \<Rightarrow> int option \<Rightarrow> 'g \<Rightarrow> 'g outcome" where
  "snapshot G M label ts thread_id turn_index g = guarded M g
     (let full_label = u ''jarn-checkpoint: '' @ label @ u '' @ '' @ str_int ts @ turn_meta_suffix thread_id turn_index
      in case build_snapshot G full_label g of
           (Inl err, g1) \<Rightarrow> Some (Inl err, g1)
         | (Inr sha, g1) \<Rightarrow>
             Option.bind (stack_read G UNDO_PREFIX g1) (\<lambda>undo_stack.
               if undo_stack \<noteq> [] \<and> same_tree G (hd undo_stack) sha g1
               then Some (Inl (u ''nothing to snapshot (working tree already saved)''), g1)
               else (let (ok, g2) = update_ref G (snap_ref sha) sha g1
                 in if \<not> ok then Some (Inl (u ''failed to store snapshot ref''), g2)
                    else Option.bind (stack_push G UNDO_PREFIX sha g2) (\<lambda>(pushed, g3).
                      if \<not> pushed then Some (Inl (u ''failed to update undo stack''), g3)
                      else Option.bind (stack_clear G REDO_PREFIX g3) (\<lambda>g4.
                        Option.bind (prune_stack G M UNDO_PREFIX g4) (\<lambda>g5. Some (Inr full_label, g5)))))))"

definition foreign_owner_error :: "'g git \<Rightarrow> pyuni \<Rightarrow> pystr \<Rightarrow> pystr option \<Rightarrow> string \<Rightarrow> 'g \<Rightarrow> pystr option" where
  "foreign_owner_error G U sha thread_id op g = (case thread_id of
       None \<Rightarrow> None
     | Some t \<Rightarrow> if t = [] then None
         else (case thread_id_from_subject U (read_ref_message G sha g) of
             None \<Rightarrow> None
           | Some owner \<Rightarrow> if owner = t then None else Some (foreign_checkpoint_message op owner t)))"

definition owner_tag :: "pystr option \<Rightarrow> pystr" where
  "owner_tag thread_id = turn_meta_suffix thread_id (case thread_id of Some t \<Rightarrow> if t = [] then None else Some 0 | None \<Rightarrow> None)"

text \<open>\<open>Inr None\<close>: there is nothing to save\<close>

definition build_redo_point :: "'g git \<Rightarrow> int \<Rightarrow> pystr option \<Rightarrow> 'g \<Rightarrow> (pystr + pystr option) \<times> 'g" where
  "build_redo_point G ts thread_id g =
     (case build_snapshot G (u ''jarn-checkpoint: pre-undo @ '' @ str_int ts @ owner_tag thread_id) g of
        (Inr sha, g1) \<Rightarrow> (Inr (if sha = [] then None else Some sha), g1)
      | (Inl err, g1) \<Rightarrow> (if contains err (u ''no commits'') \<or> contains err (u ''nothing to'') then Inr None else Inl err, g1))"

definition capture_redo_point :: "'g git \<Rightarrow> CheckpointManager \<Rightarrow> int \<Rightarrow> pystr option \<Rightarrow> 'g \<Rightarrow> ((pystr + pystr option) \<times> 'g) option" where
  "capture_redo_point G M ts thread_id g =
     (case build_redo_point G ts thread_id g of
        (Inr (Some s), g1) \<Rightarrow> map_option (\<lambda>g2. (Inr (Some s), g2)) (push_point G M REDO_PREFIX s g1)
      | r \<Rightarrow> Some r)"

text \<open>The rest of \<^verbatim>\<open>undo\<close>, once its guards have passed and the redo point is built\<close>

definition undo_top :: "'g git \<Rightarrow> CheckpointManager \<Rightarrow> pystr option \<Rightarrow> 'g \<Rightarrow> 'g outcome" where
  "undo_top G M redo_sha g = Option.bind (stack_pop G UNDO_PREFIX g) (\<lambda>(popped, g2). case popped of
       None \<Rightarrow> Some (Inl (u ''undo stack is empty''), g2)
     | Some tgt \<Rightarrow>
         (case apply_snapshot G tgt g2 of
            (Inl err, g3) \<Rightarrow> map_option (\<lambda>(_, g4). (Inl (u ''restore failed: '' @ err), g4)) (stack_push G UNDO_PREFIX tgt g3)
          | (Inr _, g3) \<Rightarrow>
              map_option (\<lambda>g4. (Inr (u ''undone: '' @ read_ref_message G tgt g4), g4))
                (case redo_sha of None \<Rightarrow> Some g3 | Some s \<Rightarrow> push_point G M REDO_PREFIX s g3)))"

definition undo :: "'g git \<Rightarrow> pyuni \<Rightarrow> CheckpointManager \<Rightarrow> int \<Rightarrow> pystr option \<Rightarrow> pystr option \<Rightarrow> pystr option \<Rightarrow> 'g \<Rightarrow> 'g outcome" where
  "undo G U M ts thread_id expected_sha expected_tree g = guarded M g
     (Option.bind (stack_read G UNDO_PREFIX g) (\<lambda>undo_stack. case undo_stack of
        [] \<Rightarrow> Some (Inl (u ''nothing to undo''), g)
      | tp # _ \<Rightarrow>
          if expected_sha \<noteq> None \<and> expected_sha \<noteq> Some tp
          then Some (Inl (u ''checkpoint changed after preview; nothing was restored. Run /undo again to review the new target''), g)
          else (case foreign_owner_error G U tp thread_id ''undo'' g of
              Some msg \<Rightarrow> Some (Inl msg, g)
            | None \<Rightarrow>
                (case build_redo_point G ts thread_id g of
                   (Inl msg, g1) \<Rightarrow> Some (Inl (u ''could not save redo point: '' @ msg), g1)
                 | (Inr redo, g1) \<Rightarrow>
                     if expected_tree \<noteq> None \<and> Option.bind redo (\<lambda>s. tree_sha G s g1) \<noteq> expected_tree
                     then Some (Inl (u ''working tree changed after preview; nothing was restored. Run /undo again to review the new changes''), g1)
                     else undo_top G M redo g1))))"

definition redo_top :: "'g git \<Rightarrow> CheckpointManager \<Rightarrow> pystr \<Rightarrow> 'g \<Rightarrow> 'g outcome" where
  "redo_top G M pre_sha g = Option.bind (stack_pop G REDO_PREFIX g) (\<lambda>(popped, g2). case popped of
       None \<Rightarrow> Some (Inl (u ''redo stack is empty''), g2)
     | Some tgt \<Rightarrow>
         (case apply_snapshot G tgt g2 of
            (Inl err, g3) \<Rightarrow> map_option (\<lambda>(_, g4). (Inl (u ''redo failed: '' @ err), g4)) (stack_push G REDO_PREFIX tgt g3)
          | (Inr _, g3) \<Rightarrow>
              map_option (\<lambda>g4. (Inr (u ''redone: '' @ read_ref_message G tgt g4), g4)) (push_point G M UNDO_PREFIX pre_sha g3)))"

definition redo :: "'g git \<Rightarrow> pyuni \<Rightarrow> CheckpointManager \<Rightarrow> int \<Rightarrow> pystr option \<Rightarrow> 'g \<Rightarrow> 'g outcome" where
  "redo G U M ts thread_id g = guarded M g
     (Option.bind (stack_read G REDO_PREFIX g) (\<lambda>redo_stack. case redo_stack of
        [] \<Rightarrow> Some (Inl (u ''nothing to redo''), g)
      | tp # _ \<Rightarrow>
          (case foreign_owner_error G U tp thread_id ''redo'' g of
             Some msg \<Rightarrow> Some (Inl msg, g)
           | None \<Rightarrow>
               (case build_snapshot G (u ''jarn-checkpoint: pre-redo @ '' @ str_int ts @ owner_tag thread_id) g of
                  (Inl err, g1) \<Rightarrow> Some (Inl (u ''could not save pre-redo snapshot: '' @ err), g1)
                | (Inr pre_sha, g1) \<Rightarrow>
                    redo_top G M pre_sha g1))))"

definition restore_to :: "'g git \<Rightarrow> CheckpointManager \<Rightarrow> int \<Rightarrow> pystr \<Rightarrow> 'g \<Rightarrow> 'g outcome" where
  "restore_to G M ts sha g = guarded M g
     (case build_snapshot G (u ''jarn-checkpoint: pre-rewind @ '' @ str_int ts) g of (pre, g1) \<Rightarrow>
        (case apply_snapshot G sha g1 of
           (Inl err, g2) \<Rightarrow> Some (Inl (u ''restore failed: '' @ err), g2)
         | (Inr _, g2) \<Rightarrow>
             Option.bind (case pre of Inr s \<Rightarrow> push_point G M UNDO_PREFIX s g2 | Inl _ \<Rightarrow> Some g2) (\<lambda>g3.
               map_option (\<lambda>g4. (Inr (u ''restored: '' @ read_ref_message G sha g4), g4)) (stack_clear G REDO_PREFIX g3))))"

definition has_uncheckpointed_changes :: "'g git \<Rightarrow> CheckpointManager \<Rightarrow> 'g \<Rightarrow> (bool \<times> 'g) option" where
  "has_uncheckpointed_changes G M g =
     (if \<not> cm_is_repo M then Some (False, g)
      else map_option (\<lambda>undo_stack. case undo_stack of
          [] \<Rightarrow> (False, g)
        | tp # _ \<Rightarrow>
            (case build_snapshot G (u ''jarn-checkpoint: probe'') g of
               (Inl _, g1) \<Rightarrow> (False, g1)
             | (Inr probe, g1) \<Rightarrow>
                 (let r1 = query G [u ''rev-parse'', tree_arg tp] g1; r2 = query G [u ''rev-parse'', tree_arg probe] g1
                  in (rc r1 = 0 \<and> rc r2 = 0 \<and> strip_ws (gout r1) \<noteq> strip_ws (gout r2), g1))))
        (stack_read G UNDO_PREFIX g))"

section \<open>Previews\<close>

text \<open>The lines of the statistics, the tree of the working copy and the number of files that differ\<close>

definition working_tree_diff :: "'g git \<Rightarrow> pystr \<Rightarrow> 'g \<Rightarrow> (pystr + pystr list \<times> pystr \<times> nat) \<times> 'g" where
  "working_tree_diff G target_sha g =
     (case build_snapshot G (u ''jarn-checkpoint: restore preview'') g of
        (Inl err, g1) \<Rightarrow> (Inl err, g1)
      | (Inr current_sha, g1) \<Rightarrow>
          (case tree_sha G current_sha g1 of
             None \<Rightarrow> (Inl (u ''could not fingerprint the current working tree''), g1)
           | Some current_tree \<Rightarrow>
               (let stat = query G [u ''diff'', u ''--stat'', target_sha, current_sha, u ''--''] g1;
                    names = query G [u ''diff'', u ''--name-only'', u ''-z'', target_sha, current_sha, u ''--''] g1;
                    msg = (\<lambda>r. if strip_ws (gerr r) = [] then u ''git diff failed'' else strip_ws (gerr r))
                in (if rc stat \<noteq> 0 then Inl (msg stat)
                    else if rc names \<noteq> 0 then Inl (msg names)
                    else Inr (filter (\<lambda>l. strip_ws l \<noteq> []) (splitlines (gout stat)), current_tree,
                              length (filter (\<lambda>n. n \<noteq> []) (split_chr 0 (gout names)))), g1))))"

record RestorePreview =
  rp_message :: pystr
  rp_sha :: pystr
  rp_files :: "pystr list"
  rp_current_tree :: pystr
  rp_file_count :: nat

definition preview_undo :: "'g git \<Rightarrow> pyuni \<Rightarrow> CheckpointManager \<Rightarrow> pystr option \<Rightarrow> 'g \<Rightarrow> ((pystr + RestorePreview) \<times> 'g) option" where
  "preview_undo G U M thread_id g =
     (if \<not> cm_enabled M then Some (Inl (u ''autocheckpoint disabled''), g)
      else if \<not> cm_is_repo M then Some (Inl (u ''not a git repository''), g)
      else map_option (\<lambda>undo_stack. case undo_stack of
          [] \<Rightarrow> (Inl (u ''nothing to undo''), g)
        | sha # _ \<Rightarrow>
            (case foreign_owner_error G U sha thread_id ''undo'' g of
               Some msg \<Rightarrow> (Inl msg, g)
             | None \<Rightarrow>
                 (let label = read_ref_message G sha g
                  in case working_tree_diff G sha g of
                       (Inl err, g1) \<Rightarrow> (Inl (u ''could not build undo preview: '' @ err), g1)
                     | (Inr (files, current_tree, file_count), g1) \<Rightarrow>
                         (Inr \<lparr>rp_message = (if file_count \<noteq> 0 then label @ u ''; '' @ str_int (int file_count) @ u '' file(s) would change''
                                             else label @ u ''; working tree already matches this checkpoint''),
                               rp_sha = sha, rp_files = files, rp_current_tree = current_tree, rp_file_count = file_count\<rparr>, g1))))
        (stack_read G UNDO_PREFIX g))"

definition diff_stat :: "'g git \<Rightarrow> CheckpointManager \<Rightarrow> pystr \<Rightarrow> 'g \<Rightarrow> pystr list \<times> 'g" where
  "diff_stat G M sha g =
     (if \<not> cm_is_repo M then ([], g)
      else (case working_tree_diff G sha g of (Inl _, g1) \<Rightarrow> ([], g1) | (Inr (files, _), g1) \<Rightarrow> (files, g1)))"

record CheckpointEntry =
  ce_sha :: pystr
  ce_label :: pystr
  ce_ref :: pystr

definition list_entries :: "'g git \<Rightarrow> CheckpointManager \<Rightarrow> 'g \<Rightarrow> CheckpointEntry list option" where
  "list_entries G M g =
     (if \<not> cm_is_repo M then Some []
      else map_option (\<lambda>shas. map (\<lambda>(i, sha). \<lparr>ce_sha = sha, ce_label = read_ref_message G sha g, ce_ref = nth_ref UNDO_PREFIX i\<rparr>)
        (enumerate 0 shas)) (stack_read G UNDO_PREFIX g))"

section \<open>Snapshots of a turn\<close>

definition iter_snapshot_records :: "'g git \<Rightarrow> 'g \<Rightarrow> (pystr \<times> pystr) list" where
  "iter_snapshot_records G g =
     (let r = query G [u ''for-each-ref'', u ''--sort=creatordate'', u ''--format=%(objectname)%09%(subject)'', u ''refs/jarn/checkpoints/snap/''] g
      in if rc r \<noteq> 0 then []
         else map (\<lambda>l. (strip_ws (before_first 9 l), drop (Suc (length (before_first 9 l))) l)) (filter (\<lambda>l. 9 \<in> set l) (splitlines (gout r))))"

definition register_thread_alias :: "pystr \<Rightarrow> pystr \<Rightarrow> int \<Rightarrow> CheckpointManager \<Rightarrow> CheckpointManager" where
  "register_thread_alias child parent kept M = M\<lparr>cm_aliases := dput child (parent, kept) (cm_aliases M)\<rparr>"

definition tagged :: "pyuni \<Rightarrow> pystr \<Rightarrow> int \<Rightarrow> pystr \<times> pystr \<Rightarrow> bool" where
  "tagged U tid turn = (\<lambda>(sha, subject). case turn_meta U subject of Some (t, ds) \<Rightarrow> t = tid \<and> digits_int U ds = turn | None \<Rightarrow> False)"

text \<open>\<open>hops\<close> counts the remaining rounds of the loop.\<close>

fun find_hops :: "pyuni \<Rightarrow> (pystr \<times> pystr) list \<Rightarrow> CheckpointManager \<Rightarrow> int \<Rightarrow> nat \<Rightarrow> pystr \<Rightarrow> (pystr \<times> pystr) option" where
  "find_hops U records M turn 0 candidate = None"
| "find_hops U records M turn (Suc hops) candidate =
     (case filter (tagged U candidate turn) records of
        [] \<Rightarrow> (case dget (cm_aliases M) candidate of
              None \<Rightarrow> None
            | Some (parent, kept) \<Rightarrow> if turn \<ge> kept then None else find_hops U records M turn hops parent)
      | ms \<Rightarrow> Some (last ms))"

definition find_for_turn :: "'g git \<Rightarrow> pyuni \<Rightarrow> CheckpointManager \<Rightarrow> pystr \<Rightarrow> int \<Rightarrow> 'g \<Rightarrow> (pystr \<times> pystr) option" where
  "find_for_turn G U M thread_id turn g =
     (if \<not> cm_is_repo M then None else find_hops U (iter_snapshot_records G g) M turn 11 thread_id)"

section \<open>What the code relies on\<close>

text \<open>What the code can see of a repository: the working tree, the paths of the index, the references, the commits
  with their message and tree, the trees, the commit at \<^verbatim>\<open>HEAD\<close>, and the temporary index.\<close>

type_synonym tree = "pystr \<Rightarrow> pystr option"

record repo =
  work :: tree
  tracked :: "pystr set"
  refs :: "pystr \<Rightarrow> pystr option"
  commits :: "pystr \<Rightarrow> (pystr \<times> tree) option"
  objs :: "pystr \<Rightarrow> tree option"
  headc :: "pystr option"
  tmp :: tree

definition head_tree :: "repo \<Rightarrow> tree" where
  "head_tree v = (case Option.bind (headc v) (commits v) of Some (_, t) \<Rightarrow> t | None \<Rightarrow> Map.empty)"

definition stack_pfx :: "pystr \<Rightarrow> bool" where
  "stack_pfx pfx \<longleftrightarrow> pfx = UNDO_PREFIX \<or> pfx = REDO_PREFIX"

definition stack_ref :: "pystr \<Rightarrow> bool" where
  "stack_ref r \<longleftrightarrow> (\<exists>pfx i. stack_pfx pfx \<and> r = nth_ref pfx i)"

text \<open>References are read back as written, and writing one changes nothing else.\<close>

definition refs_ok :: "'g git \<Rightarrow> ('g \<Rightarrow> repo) \<Rightarrow> bool" where
  "refs_ok G V \<longleftrightarrow>
     (\<forall>r g. stack_ref r \<longrightarrow> read_ref G r g = refs (V g) r \<and> (ref_exists G r g \<longleftrightarrow> refs (V g) r \<noteq> None))
   \<and> (\<forall>r s g. commits (V g) s \<noteq> None \<and> (stack_ref r \<or> r = snap_ref s) \<longrightarrow>
        fst (update_ref G r s g) \<and> V (snd (update_ref G r s g)) = V g\<lparr>refs := (refs (V g))(r \<mapsto> s)\<rparr>)
   \<and> (\<forall>r g. stack_ref r \<longrightarrow> V (delete_ref G r g) = V g\<lparr>refs := (refs (V g))(r := None)\<rparr>)
   \<and> (\<forall>g. commits (V g) [] = None)"

text \<open>Paths that git does not ignore are \<open>vis\<close>; \<open>pm\<close> says which paths a pathspec names. A command that fails may have
  changed the temporary index or, for \<^verbatim>\<open>restore\<close>, the working tree, and nothing else. Names are plain: they are
  listed as they are, one on a line.\<close>

definition ok_then :: "('g \<Rightarrow> repo) \<Rightarrow> (gres \<times> 'g) \<Rightarrow> (gres \<Rightarrow> repo \<Rightarrow> bool) \<Rightarrow> (repo \<Rightarrow> bool) \<Rightarrow> bool" where
  "ok_then V res good bad \<longleftrightarrow> (if rc (fst res) = 0 then good (fst res) (V (snd res)) else bad (V (snd res))
      \<and> \<not> contains (strip_ws (gerr (fst res))) (u ''no commits'') \<and> \<not> contains (strip_ws (gerr (fst res))) (u ''nothing to''))"

definition build_ok :: "'g git \<Rightarrow> ('g \<Rightarrow> repo) \<Rightarrow> pystr set \<Rightarrow> (pystr \<Rightarrow> pystr \<Rightarrow> bool) \<Rightarrow> bool" where
  "build_ok G V vis pm \<longleftrightarrow> (\<forall>g. let v = V g; ix = Some (tmp_index G) in
     get_head_sha G g = headc v \<and> (\<forall>h. headc v = Some h \<longrightarrow> commits v h \<noteq> None)
   \<and> ok_then V (run G [u ''read-tree'', u ''HEAD''] ix g) (\<lambda>_ v'. v' = v\<lparr>tmp := head_tree v\<rparr>) (\<lambda>v'. \<exists>t. v' = v\<lparr>tmp := t\<rparr>)
   \<and> ok_then V (run G [u ''add'', u ''-A''] ix g) (\<lambda>_ v'. dom (tmp v) \<subseteq> vis \<longrightarrow> v' = v\<lparr>tmp := work v |` vis\<rparr>) (\<lambda>v'. \<exists>t. v' = v\<lparr>tmp := t\<rparr>)
   \<and> (\<forall>rel. V (snd (run G [u ''reset'', u ''HEAD'', u ''--'', rel] ix g)) = v\<lparr>tmp := \<lambda>p. if pm rel p then head_tree v p else tmp v p\<rparr>)
   \<and> ok_then V (run G [u ''write-tree''] ix g) (\<lambda>r v'. v' = v\<lparr>objs := (objs v)(strip_ws (gout r) \<mapsto> tmp v)\<rparr>) (\<lambda>v'. v' = v)
   \<and> (\<forall>t h label T. objs v t = Some T \<longrightarrow> ok_then V (run G [u ''commit-tree'', t, u ''-p'', h, u ''-m'', label] None g)
        (\<lambda>r v'. commits v (strip_ws (gout r)) \<in> {None, Some (label, T)} \<and> v' = v\<lparr>commits := (commits v)(strip_ws (gout r) \<mapsto> (label, T))\<rparr>)
        (\<lambda>v'. v' = v)))"

definition apply_ok :: "'g git \<Rightarrow> ('g \<Rightarrow> repo) \<Rightarrow> pystr set \<Rightarrow> bool" where
  "apply_ok G V vis \<longleftrightarrow> (\<forall>g. let v = V g; r1 = query G [u ''ls-files''] g; r2 = query G [u ''ls-files'', u ''--others'', u ''--exclude-standard''] g in
     (rc r1 = 0 \<longrightarrow> set (lines_of r1) = tracked v \<and> tracked v \<subseteq> vis)
   \<and> rc r2 = 0 \<and> set (lines_of r2) = dom (work v) \<inter> vis - tracked v
   \<and> (\<forall>s m t. commits v s = Some (m, t) \<longrightarrow> dom t \<subseteq> vis \<and> list_tree_paths G s g = dom t
        \<and> ok_then V (run G [u ''restore'', u ''--source='' @ s, u ''--worktree'', u ''--'', u ''.''] None g)
            (\<lambda>_ v'. v' = v\<lparr>work := \<lambda>p. if p \<in> dom t then t p else if p \<in> tracked v then None else work v p\<rparr>)
            (\<lambda>v'. \<exists>w. v' = v\<lparr>work := w\<rparr>))
   \<and> (\<forall>p. V (unlink G p g) = v\<lparr>work := (work v)(p := None)\<rparr>))"

definition git_ok :: "'g git \<Rightarrow> ('g \<Rightarrow> repo) \<Rightarrow> pystr set \<Rightarrow> (pystr \<Rightarrow> pystr \<Rightarrow> bool) \<Rightarrow> bool" where
  "git_ok G V vis pm \<longleftrightarrow> refs_ok G V \<and> build_ok G V vis pm \<and> apply_ok G V vis"

text \<open>The references of a stack spell the list of commits, and no deeper one is left over.\<close>

definition is_stack :: "repo \<Rightarrow> pystr \<Rightarrow> pystr list \<Rightarrow> bool" where
  "is_stack v pfx xs \<longleftrightarrow> (\<forall>i. refs v (nth_ref pfx i) = (if i < length xs then Some (xs ! i) else None))
     \<and> (\<forall>x\<in>set xs. commits v x \<noteq> None)"

section \<open>Stacks are lists\<close>

lemma str_int_inj: "str_int (int i) = str_int (int j) \<longleftrightarrow> i = j"
proof
  assume "str_int (int i) = str_int (int j)"
  then have "dec_digits i = dec_digits j" by (simp add: str_int_def)
  then have "digits_val (dec_digits i) = digits_val (dec_digits j)" by simp
  then show "i = j" by (simp add: digits_val_dec)
qed simp

lemma nth_ref_inj [simp]: "nth_ref pfx i = nth_ref pfx j \<longleftrightarrow> i = j"
  by (simp add: nth_ref_def str_int_inj)

lemma stack_ref_nth [simp]: "stack_pfx pfx \<Longrightarrow> stack_ref (nth_ref pfx i)"
  unfolding stack_ref_def by blast

lemma nth_ref_other [simp]: "nth_ref UNDO_PREFIX i \<noteq> nth_ref REDO_PREFIX j" "nth_ref REDO_PREFIX i \<noteq> nth_ref UNDO_PREFIX j"
  by (simp_all add: nth_ref_def UNDO_PREFIX_def REDO_PREFIX_def u_def)

lemma snap_ref_other: "stack_pfx pfx \<Longrightarrow> snap_ref s \<noteq> nth_ref pfx i"
  by (auto simp: stack_pfx_def nth_ref_def snap_ref_def UNDO_PREFIX_def REDO_PREFIX_def u_def)

lemma nth_ref_pfx: "stack_pfx pfx \<Longrightarrow> stack_pfx pfx' \<Longrightarrow> pfx \<noteq> pfx' \<Longrightarrow> nth_ref pfx i \<noteq> nth_ref pfx' j"
  unfolding stack_pfx_def by auto

lemma stack_pfxs [simp]: "stack_pfx UNDO_PREFIX" "stack_pfx REDO_PREFIX" "UNDO_PREFIX \<noteq> REDO_PREFIX" "REDO_PREFIX \<noteq> UNDO_PREFIX"
  by (simp_all add: stack_pfx_def UNDO_PREFIX_def REDO_PREFIX_def u_def)

lemma refs_read: "refs_ok G V \<Longrightarrow> stack_pfx pfx \<Longrightarrow> read_ref G (nth_ref pfx i) g = refs (V g) (nth_ref pfx i)"
  "refs_ok G V \<Longrightarrow> stack_pfx pfx \<Longrightarrow> ref_exists G (nth_ref pfx i) g \<longleftrightarrow> refs (V g) (nth_ref pfx i) \<noteq> None"
  unfolding refs_ok_def by simp_all

lemma refs_update:
  assumes "refs_ok G V" "commits (V g) s \<noteq> None" "stack_ref r \<or> r = snap_ref s"
  shows "fst (update_ref G r s g)" "V (snd (update_ref G r s g)) = V g\<lparr>refs := (refs (V g))(r \<mapsto> s)\<rparr>"
  using assms unfolding refs_ok_def by blast+

lemma refs_delete: "refs_ok G V \<Longrightarrow> stack_pfx pfx \<Longrightarrow> V (delete_ref G (nth_ref pfx i) g) = V g\<lparr>refs := (refs (V g))(nth_ref pfx i := None)\<rparr>"
  unfolding refs_ok_def by simp

lemma commit_nonempty: "refs_ok G V \<Longrightarrow> commits (V g) s = Some c \<Longrightarrow> s \<noteq> []"
  unfolding refs_ok_def by (metis option.distinct(1))

lemma stack_read_from_stack:
  assumes G: "refs_ok G V" "stack_pfx pfx" and "is_stack (V g) pfx xs" "i \<le> length xs"
  shows "stack_read_from G pfx i g = Some (drop i xs)"
  using assms(4)
proof (induction "length xs - i" arbitrary: i)
  case 0
  then show ?case using assms(3) by (subst stack_read_from.simps) (simp add: is_stack_def refs_read [OF G])
next
  case (Suc n)
  then have "i < length xs" "stack_read_from G pfx (Suc i) g = Some (drop (Suc i) xs)" by simp_all
  then show ?case using assms(3) by (subst stack_read_from.simps) (simp add: is_stack_def refs_read [OF G] Cons_nth_drop_Suc)
qed

lemma stack_read_stack: "refs_ok G V \<Longrightarrow> stack_pfx pfx \<Longrightarrow> is_stack (V g) pfx xs \<Longrightarrow> stack_read G pfx g = Some xs"
  unfolding stack_read_def by (subst stack_read_from_stack) simp_all

text \<open>A change of the references alone: those of one stack and the stable ones\<close>

definition moves :: "pystr \<Rightarrow> repo \<Rightarrow> repo \<Rightarrow> bool" where
  "moves pfx v v' \<longleftrightarrow> (\<exists>f. v' = v\<lparr>refs := f\<rparr> \<and> (\<forall>r. r \<notin> range (nth_ref pfx) \<union> range snap_ref \<longrightarrow> f r = refs v r))"

lemma moves_refl: "moves pfx v v"
  unfolding moves_def by (rule exI [of _ "refs v"]) simp

lemma moves_trans: "moves pfx v1 v2 \<Longrightarrow> moves pfx v2 v3 \<Longrightarrow> moves pfx v1 v3"
  unfolding moves_def by (auto intro: exI [of _ "refs v3"])

lemma moves_set: "moves pfx v (v\<lparr>refs := (refs v)(nth_ref pfx i := x)\<rparr>)"
  unfolding moves_def by (rule exI [of _ "(refs v)(nth_ref pfx i := x)"]) auto

lemma moves_other: "moves pfx v v' \<Longrightarrow> stack_pfx pfx \<Longrightarrow> stack_pfx pfx' \<Longrightarrow> pfx' \<noteq> pfx \<Longrightarrow> is_stack v' pfx' xs = is_stack v pfx' xs"
  unfolding moves_def is_stack_def using nth_ref_pfx [of pfx' pfx] snap_ref_other [of pfx'] by (auto simp: image_iff) (metis)+

lemma moves_snap: "moves pfx v (v\<lparr>refs := (refs v)(snap_ref s := x)\<rparr>)"
  unfolding moves_def by (rule exI [of _ "(refs v)(snap_ref s := x)"]) auto

lemma moves_fields:
  assumes "moves pfx v v'"
  shows "work v' = work v" "tracked v' = tracked v" "commits v' = commits v" "objs v' = objs v" "headc v' = headc v" "tmp v' = tmp v"
  using assms unfolding moves_def by auto

lemma shift_deeper_moves:
  assumes G: "refs_ok G V" "stack_pfx pfx"
    and "\<And>i. i < n \<Longrightarrow> \<exists>s c. refs (V g) (nth_ref pfx i) = Some s \<and> commits (V g) s = Some c"
  shows "moves pfx (V g) (V (shift_deeper G pfx n g))
       \<and> (\<forall>j. refs (V (shift_deeper G pfx n g)) (nth_ref pfx j)
              = refs (V g) (nth_ref pfx (if 0 < j \<and> j \<le> n then j - 1 else j)))"
  using assms(3)
proof (induction n arbitrary: g)
  case 0
  then show ?case by (simp add: moves_refl)
next
  case (Suc n)
  obtain s c where s: "refs (V g) (nth_ref pfx n) = Some s" "commits (V g) s = Some c" using Suc.prems by blast
  let ?g = "snd (update_ref G (nth_ref pfx (Suc n)) s g)"
  have V: "V ?g = V g\<lparr>refs := (refs (V g))(nth_ref pfx (Suc n) \<mapsto> s)\<rparr>"
    using refs_update(2) [OF G(1), of g s "nth_ref pfx (Suc n)"] s G(2) by simp
  have "\<exists>s c. refs (V ?g) (nth_ref pfx i) = Some s \<and> commits (V ?g) s = Some c" if "i < n" for i
    using Suc.prems [of i] that by (simp add: V)
  note IH = Suc.IH [OF this]
  have "shift_deeper G pfx (Suc n) g = shift_deeper G pfx n ?g"
    using s(1) commit_nonempty [OF G(1) s(2)] by (simp add: refs_read [OF G])
  then show ?case
    using IH s(1) moves_trans [OF moves_set [of pfx "V g" "Suc n" "Some s"]] by (auto simp: V)
qed

lemma stack_push_stack:
  assumes G: "refs_ok G V" "stack_pfx pfx" and x: "is_stack (V g) pfx xs" "commits (V g) s \<noteq> None"
  shows "\<exists>g'. stack_push G pfx s g = Some (True, g') \<and> moves pfx (V g) (V g') \<and> is_stack (V g') pfx (s # xs)"
proof -
  let ?h = "shift_deeper G pfx (length xs) g"
  have h: "moves pfx (V g) (V ?h)"
    "refs (V ?h) (nth_ref pfx j) = refs (V g) (nth_ref pfx (if 0 < j \<and> j \<le> length xs then j - 1 else j))" for j
    using shift_deeper_moves [OF G, of "length xs" g] x(1) unfolding is_stack_def by (force simp: in_set_conv_nth)+
  obtain g' where g': "update_ref G (nth_ref pfx 0) s ?h = (True, g')" "V g' = V ?h\<lparr>refs := (refs (V ?h))(nth_ref pfx 0 \<mapsto> s)\<rparr>"
    using refs_update [OF G(1), of ?h s "nth_ref pfx 0"] x(2) G(2) moves_fields(3) [OF h(1)] by (metis prod.collapse stack_ref_nth)
  have "moves pfx (V g) (V g')" using moves_trans [OF h(1) moves_set] by (simp add: g'(2))
  moreover have "is_stack (V g') pfx (s # xs)"
    using x h moves_fields(3) [OF h(1)] unfolding is_stack_def g'(2) by (auto simp: nth_Cons')
  ultimately show ?thesis
    using g'(1) stack_read_stack [OF G x(1)] by (simp add: stack_push_def)
qed

lemma shift_up_moves:
  assumes G: "refs_ok G V" "stack_pfx pfx" and "0 < a"
    and "\<And>i. a \<le> i \<Longrightarrow> i < n \<Longrightarrow> \<exists>s c. refs (V g) (nth_ref pfx i) = Some s \<and> commits (V g) s = Some c"
  shows "moves pfx (V g) (V (shift_up G pfx [a..<n] g))
       \<and> (\<forall>j. refs (V (shift_up G pfx [a..<n] g)) (nth_ref pfx j)
              = (if a \<le> Suc j \<and> Suc j < n then refs (V g) (nth_ref pfx (Suc j))
                 else if a < n \<and> Suc j = n then None else refs (V g) (nth_ref pfx j)))"
  using assms(3,4)
proof (induction "n - a" arbitrary: a g)
  case 0
  then show ?case by (auto simp: moves_refl)
next
  case (Suc k)
  then obtain b where an: "a = Suc b" "a < n" "k = n - Suc a" by (cases a) simp_all
  obtain s c where s: "refs (V g) (nth_ref pfx a) = Some s" "commits (V g) s = Some c" using Suc.prems(2) an by blast
  let ?g = "delete_ref G (nth_ref pfx a) (snd (update_ref G (nth_ref pfx b) s g))"
  have V: "V ?g = V g\<lparr>refs := (refs (V g))(nth_ref pfx b \<mapsto> s, nth_ref pfx a := None)\<rparr>"
    using refs_update(2) [OF G(1), of g s "nth_ref pfx b"] s G by (simp add: refs_delete)
  have "\<exists>s c. refs (V ?g) (nth_ref pfx i) = Some s \<and> commits (V ?g) s = Some c" if "Suc a \<le> i" "i < n" for i
    using Suc.prems(2) [of i] that unfolding V by (simp add: an(1))
  note IH = Suc.hyps(1) [OF an(3) _ this]
  have "shift_up G pfx [a..<n] g = shift_up G pfx [Suc a..<n] ?g"
    using s(1) commit_nonempty [OF G(1) s(2)] an by (simp add: upt_conv_Cons refs_read [OF G])
  moreover have "moves pfx (V g) (V ?g)"
    using moves_trans [OF moves_set moves_set, of pfx "V g" b "Some s" a None] by (simp add: V)
  ultimately show ?case
    using IH an(2) s(1) by (auto simp: V an(1) V [unfolded an(1)] intro: moves_trans)
qed

lemma stack_pop_stack:
  assumes G: "refs_ok G V" "stack_pfx pfx" and x: "is_stack (V g) pfx (x # xs)"
  shows "\<exists>g'. stack_pop G pfx g = Some (Some x, g') \<and> moves pfx (V g) (V g') \<and> is_stack (V g') pfx xs"
proof -
  let ?h = "delete_ref G (nth_ref pfx 0) g" and ?n = "length (x # xs)"
  have h: "V ?h = V g\<lparr>refs := (refs (V g))(nth_ref pfx 0 := None)\<rparr>" by (rule refs_delete [OF G])
  have "\<exists>s c. refs (V ?h) (nth_ref pfx i) = Some s \<and> commits (V ?h) s = Some c" if "1 \<le> i" "i < ?n" for i
    using x that unfolding is_stack_def by (auto simp: h nth_Cons' split: if_splits)
  note sh = shift_up_moves [OF G, of 1 ?n ?h, OF _ this]
  let ?g = "shift_up G pfx [1..<?n] ?h"
  have m: "moves pfx (V g) (V ?g)" using sh moves_trans [OF moves_set, of pfx "V g" 0 None] by (simp add: h)
  have "refs (V ?g) (nth_ref pfx j) = (if j < length xs then Some (xs ! j) else None)" for j
    using sh x unfolding is_stack_def by (auto simp: h nth_Cons')
  then have "is_stack (V ?g) pfx xs" using x moves_fields(3) [OF m] unfolding is_stack_def by auto
  then show ?thesis using m stack_read_stack [OF G x] by (simp add: stack_pop_def)
qed

lemma delete_from_stack:
  assumes G: "refs_ok G V" "stack_pfx pfx"
    and "\<And>i. a \<le> i \<Longrightarrow> (refs (V g) (nth_ref pfx i) \<noteq> None) = (i < n)"
  shows "\<exists>g'. delete_from G pfx a g = Some g' \<and> moves pfx (V g) (V g')
       \<and> (\<forall>j. refs (V g') (nth_ref pfx j) = (if a \<le> j then None else refs (V g) (nth_ref pfx j)))"
  using assms(3)
proof (induction "n - a" arbitrary: a g)
  case 0
  then show ?case by (subst delete_from.simps) (auto simp: refs_read [OF G] moves_refl)
next
  case (Suc k)
  let ?g = "delete_ref G (nth_ref pfx a) g"
  have V: "V ?g = V g\<lparr>refs := (refs (V g))(nth_ref pfx a := None)\<rparr>" by (rule refs_delete [OF G])
  have k: "k = n - Suc a" using Suc.hyps(2) by simp
  have "(refs (V ?g) (nth_ref pfx i) \<noteq> None) = (i < n)" if "Suc a \<le> i" for i
    using Suc.prems [of i] that by (simp add: V)
  then obtain g' where g': "delete_from G pfx (Suc a) ?g = Some g'" "moves pfx (V ?g) (V g')"
    "refs (V g') (nth_ref pfx j) = (if Suc a \<le> j then None else refs (V ?g) (nth_ref pfx j))" for j
    using Suc.hyps(1) [OF k, of ?g] by blast
  have "refs (V g) (nth_ref pfx a) \<noteq> None" using Suc.prems [of a] Suc.hyps(2) by simp
  then have "delete_from G pfx a g = Some g'" using g'(1) by (subst delete_from.simps) (simp add: refs_read [OF G])
  moreover have "moves pfx (V g) (V g')" using moves_trans [OF moves_set] g'(2) by (simp add: V)
  ultimately show ?case using g'(3) by (auto simp: V)
qed

lemma prune_stack_stack:
  assumes G: "refs_ok G V" "stack_pfx pfx" and x: "is_stack (V g) pfx xs"
  shows "\<exists>g'. delete_from G pfx n g = Some g' \<and> moves pfx (V g) (V g') \<and> is_stack (V g') pfx (take n xs)"
proof -
  have "(refs (V g) (nth_ref pfx i) \<noteq> None) = (i < length xs)" for i using x unfolding is_stack_def by simp
  then obtain g' where g': "delete_from G pfx n g = Some g'" "moves pfx (V g) (V g')"
    "refs (V g') (nth_ref pfx j) = (if n \<le> j then None else refs (V g) (nth_ref pfx j))" for j
    using delete_from_stack [OF G, of n g "length xs"] by blast
  then have "is_stack (V g') pfx (take n xs)"
    using x moves_fields(3) [OF g'(2)] unfolding is_stack_def by (auto dest: in_set_takeD)
  then show ?thesis using g'(1,2) by blast
qed

section \<open>Snapshots hold the working tree\<close>

text \<open>What every operation leaves alone; commits are only added.\<close>

definition kept :: "repo \<Rightarrow> repo \<Rightarrow> bool" where
  "kept v v' \<longleftrightarrow> tracked v' = tracked v \<and> headc v' = headc v \<and> commits v \<subseteq>\<^sub>m commits v'"

definition excluded :: "(pystr \<Rightarrow> pystr \<Rightarrow> bool) \<Rightarrow> pystr \<Rightarrow> bool" where
  "excluded pm p \<longleftrightarrow> (\<exists>rel \<in> set SNAPSHOT_EXCLUDE. pm rel p)"

definition snap_tree :: "pystr set \<Rightarrow> (pystr \<Rightarrow> pystr \<Rightarrow> bool) \<Rightarrow> repo \<Rightarrow> tree" where
  "snap_tree vis pm v = (\<lambda>p. if excluded pm p then head_tree v p else (work v |` vis) p)"

lemma kept_refl [simp]: "kept v v"
  by (simp add: kept_def)

lemma kept_trans [trans]: "kept v1 v2 \<Longrightarrow> kept v2 v3 \<Longrightarrow> kept v1 v3"
  unfolding kept_def by (auto intro: map_le_trans)

lemma kept_commits: "kept v v' \<Longrightarrow> commits v s = Some c \<Longrightarrow> commits v' s = Some c"
  unfolding kept_def map_le_def by (metis domI)

lemma moves_kept: "moves pfx v v' \<Longrightarrow> kept v v'"
  using moves_fields [of pfx v v'] by (simp add: kept_def)

lemma head_tree_fields [simp]:
  "head_tree (v\<lparr>tmp := t\<rparr>) = head_tree v" "head_tree (v\<lparr>work := t\<rparr>) = head_tree v"
  "head_tree (v\<lparr>refs := f\<rparr>) = head_tree v" "head_tree (v\<lparr>objs := k\<rparr>) = head_tree v"
  by (simp_all add: head_tree_def)

lemma contains_prefixed: "hd k \<notin> set p \<Longrightarrow> k \<noteq> [] \<Longrightarrow> contains (p @ e) k = contains e k"
  by (induction p) (cases k; simp)+

lemma build_laws:
  assumes "build_ok G V vis pm"
  shows "get_head_sha G g = headc (V g)" "headc (V g) = Some h \<Longrightarrow> commits (V g) h \<noteq> None"
    and "ok_then V (run G [u ''read-tree'', u ''HEAD''] (Some (tmp_index G)) g) (\<lambda>_ v'. v' = V g\<lparr>tmp := head_tree (V g)\<rparr>) (\<lambda>v'. \<exists>t. v' = V g\<lparr>tmp := t\<rparr>)"
    and "ok_then V (run G [u ''add'', u ''-A''] (Some (tmp_index G)) g)
      (\<lambda>_ v'. dom (tmp (V g)) \<subseteq> vis \<longrightarrow> v' = V g\<lparr>tmp := work (V g) |` vis\<rparr>) (\<lambda>v'. \<exists>t. v' = V g\<lparr>tmp := t\<rparr>)"
    and "V (snd (run G [u ''reset'', u ''HEAD'', u ''--'', rel] (Some (tmp_index G)) g))
      = V g\<lparr>tmp := \<lambda>p. if pm rel p then head_tree (V g) p else tmp (V g) p\<rparr>"
    and "ok_then V (run G [u ''write-tree''] (Some (tmp_index G)) g)
      (\<lambda>r v'. v' = V g\<lparr>objs := (objs (V g))(strip_ws (gout r) \<mapsto> tmp (V g))\<rparr>) (\<lambda>v'. v' = V g)"
    and "objs (V g) t = Some T \<Longrightarrow> ok_then V (run G [u ''commit-tree'', t, u ''-p'', h, u ''-m'', label] None g)
      (\<lambda>r v'. commits (V g) (strip_ws (gout r)) \<in> {None, Some (label, T)} \<and> v' = V g\<lparr>commits := (commits (V g))(strip_ws (gout r) \<mapsto> (label, T))\<rparr>)
      (\<lambda>v'. v' = V g)"
  using assms unfolding build_ok_def Let_def by blast+

lemma reset_excluded_view:
  assumes "build_ok G V vis pm"
  shows "V (reset_excluded G rels g) = V g\<lparr>tmp := \<lambda>p. if \<exists>rel\<in>set rels. pm rel p then head_tree (V g) p else tmp (V g) p\<rparr>"
proof (induction rels arbitrary: g)
  case (Cons rel rels)
  have h: "V (snd (run G [u ''reset'', u ''HEAD'', u ''--'', rel] (Some (tmp_index G)) g))
      = V g\<lparr>tmp := \<lambda>p. if pm rel p then head_tree (V g) p else tmp (V g) p\<rparr>"
    by (rule build_laws(5) [OF assms])
  show ?case unfolding reset_excluded.simps Cons.IH h
    by (rule repo.equality) (auto simp: head_tree_fields fun_eq_iff)
qed simp

lemma snap_tree_vis: "dom (head_tree v) \<subseteq> vis \<Longrightarrow> dom (snap_tree vis pm v) \<subseteq> vis"
  by (force simp: snap_tree_def restrict_map_def split: if_splits)

text \<open>The outcome of a snapshot, with the commit it made\<close>

definition built :: "pystr set \<Rightarrow> (pystr \<Rightarrow> pystr \<Rightarrow> bool) \<Rightarrow> pystr \<Rightarrow> repo \<Rightarrow> pystr + pystr \<Rightarrow> repo \<Rightarrow> bool" where
  "built vis pm label v res v' \<longleftrightarrow> kept v v' \<and> work v' = work v \<and> refs v' = refs v
     \<and> (case res of Inr s \<Rightarrow> commits v' s = Some (label, snap_tree vis pm v)
        | Inl e \<Rightarrow> headc v \<noteq> None \<longrightarrow> \<not> contains e (u ''no commits'') \<and> \<not> contains e (u ''nothing to''))"

lemma built_error:
  assumes "ok_then V (r, h) good bad" "rc r \<noteq> 0" "110 \<notin> set pre" "kept v (V h)" "work (V h) = work v" "refs (V h) = refs v"
  shows "built vis pm label v (Inl (pre @ strip_ws (gerr r))) (V h)"
  using assms unfolding built_def ok_then_def by (simp add: contains_prefixed u_def)

lemma build_snapshot_view:
  assumes B: "build_ok G V vis pm" and A: "apply_ok G V vis" and b: "build_snapshot G label g = (res, g')"
  shows "built vis pm label (V g) res (V g')"
proof (cases "headc (V g)")
  case None
  moreover have "get_head_sha G g = headc (V g)" using B unfolding build_ok_def Let_def by blast
  ultimately show ?thesis using b by (auto simp: build_snapshot_def built_def)
next
  case (Some h)
  obtain r1 g1 where run1: "run G [u ''read-tree'', u ''HEAD''] (Some (tmp_index G)) g = (r1, g1)" by fastforce
  obtain r2 g2 where run2: "run G [u ''add'', u ''-A''] (Some (tmp_index G)) g1 = (r2, g2)" by fastforce
  define g3 where g3: "g3 = reset_excluded G SNAPSHOT_EXCLUDE g2"
  obtain r4 g4 where run4: "run G [u ''write-tree''] (Some (tmp_index G)) g3 = (r4, g4)" by fastforce
  obtain r5 g5 where run5: "run G [u ''commit-tree'', strip_ws (gout r4), u ''-p'', h, u ''-m'', label] None g4 = (r5, g5)" by fastforce
  note L1 = build_laws(3) [OF B, of g, unfolded run1] and L2 = build_laws(4) [OF B, of g1, unfolded run2]
    and L4 = build_laws(6) [OF B, of g3, unfolded run4]
  have vis: "dom (head_tree (V g)) \<subseteq> vis"
    using A Some build_laws(2) [OF B Some] unfolding apply_ok_def Let_def head_tree_def by (auto split: option.splits)
  have res: "(res, g') = (if rc r1 \<noteq> 0 then (Inl (u ''read-tree failed: '' @ strip_ws (gerr r1)), g1)
      else if rc r2 \<noteq> 0 then (Inl (u ''git add -A failed: '' @ strip_ws (gerr r2)), g2)
      else if rc r4 \<noteq> 0 then (Inl (u ''write-tree failed: '' @ strip_ws (gerr r4)), g4)
      else if rc r5 \<noteq> 0 then (Inl (u ''commit-tree failed: '' @ strip_ws (gerr r5)), g5)
      else (Inr (strip_ws (gout r5)), g5))"
    using b Some by (auto simp: build_snapshot_def build_laws(1) [OF B] run1 run2 g3 [symmetric] run4 run5 Let_def)
  show ?thesis
  proof (cases "rc r1 = 0 \<and> rc r2 = 0")
    case False
    then show ?thesis
      using res L1 L2 built_error [OF L1, of "u ''read-tree failed: ''"] built_error [OF L2, of "u ''git add -A failed: ''"]
      by (auto simp: ok_then_def kept_def u_def split: if_splits)
  next
    case True
    then have "V g2 = V g\<lparr>tmp := work (V g) |` vis\<rparr>" using L1 L2 vis by (simp add: ok_then_def)
    then have V3: "V g3 = V g\<lparr>tmp := snap_tree vis pm (V g)\<rparr>"
      unfolding g3 reset_excluded_view [OF B] by (intro repo.equality) (simp_all add: snap_tree_def excluded_def fun_eq_iff)
    show ?thesis
    proof (cases "rc r4 = 0")
      case False
      then show ?thesis using True res L4 V3 built_error [OF L4, of "u ''write-tree failed: ''"] by (auto simp: ok_then_def kept_def u_def)
    next
      case r4: True
      then have V4: "V g4 = V g\<lparr>tmp := snap_tree vis pm (V g), objs := (objs (V g))(strip_ws (gout r4) \<mapsto> snap_tree vis pm (V g))\<rparr>"
        using L4 V3 by (simp add: ok_then_def)
      then have "objs (V g4) (strip_ws (gout r4)) = Some (snap_tree vis pm (V g))" by simp
      note L5 = build_laws(7) [OF B this, of h label, unfolded run5]
      show ?thesis
        using True r4 res L5 V4 built_error [OF L5, of "u ''commit-tree failed: ''"]
        by (auto simp: ok_then_def built_def kept_def map_le_def u_def split: if_splits)
    qed
  qed
qed

lemma unlink_all_view:
  assumes "apply_ok G V vis"
  shows "V (unlink_all G ps g) = V g\<lparr>work := \<lambda>p. if p \<in> set ps then None else work (V g) p\<rparr>"
  unfolding unlink_all_def
proof (induction ps arbitrary: g)
  case (Cons q ps)
  have h: "V (unlink G q g) = V g\<lparr>work := (work (V g))(q := None)\<rparr>" using assms unfolding apply_ok_def Let_def by blast
  show ?case by (rule repo.equality) (auto simp: Cons.IH h fun_eq_iff)
qed simp

lemma apply_snapshot_view:
  assumes A: "apply_ok G V vis" and c: "commits (V g) s = Some (m, t)" and a: "apply_snapshot G s g = (res, g')"
  shows "\<exists>w. V g' = V g\<lparr>work := w\<rparr> \<and> (res = Inr () \<longrightarrow> w = (\<lambda>p. if p \<in> vis then t p else work (V g) p))"
proof -
  let ?r1 = "query G [u ''ls-files''] g" and ?r2 = "query G [u ''ls-files'', u ''--others'', u ''--exclude-standard''] g"
  obtain r h where run: "run G [u ''restore'', u ''--source='' @ s, u ''--worktree'', u ''--'', u ''.''] None g = (r, h)"
    by fastforce
  have L: "rc ?r1 = 0 \<Longrightarrow> set (lines_of ?r1) = tracked (V g) \<and> tracked (V g) \<subseteq> vis"
    "rc ?r2 = 0" "set (lines_of ?r2) = dom (work (V g)) \<inter> vis - tracked (V g)"
    "dom t \<subseteq> vis" "list_tree_paths G s g = dom t"
    "ok_then V (r, h) (\<lambda>_ v'. v' = V g\<lparr>work := \<lambda>p. if p \<in> dom t then t p else if p \<in> tracked (V g) then None else work (V g) p\<rparr>)
            (\<lambda>v'. \<exists>w. v' = V g\<lparr>work := w\<rparr>)"
    using A c unfolding apply_ok_def Let_def run [symmetric] by blast+
  show ?thesis
  proof (cases "rc ?r1 = 0 \<and> rc r = 0")
    case True
    let ?rm = "sort (remdups (filter (\<lambda>p. p \<notin> dom t) (lines_of ?r1 @ lines_of ?r2)))"
    have "res = Inr ()" "V g' = V h\<lparr>work := \<lambda>p. if p \<in> set ?rm then None else work (V h) p\<rparr>"
      using a True L(2) by (auto simp: apply_snapshot_def Let_def L(5) run unlink_all_view [OF A])
    moreover have "V h = V g\<lparr>work := \<lambda>p. if p \<in> dom t then t p else if p \<in> tracked (V g) then None else work (V g) p\<rparr>"
      using L(6) True by (simp add: ok_then_def)
    ultimately have "V g' = V g\<lparr>work := \<lambda>p. if p \<in> vis then t p else work (V g) p\<rparr>"
      using L(1,3,4) True by (intro repo.equality) (auto simp: fun_eq_iff domIff)
    then show ?thesis by blast
  next
    case False
    then have "res \<noteq> Inr ()" "g' = g \<or> rc r \<noteq> 0 \<and> g' = h" using a by (auto simp: apply_snapshot_def Let_def run split: if_splits)
    moreover have "\<exists>w. V g = V g\<lparr>work := w\<rparr>" by (rule exI [of _ "work (V g)"]) simp
    ultimately show ?thesis using L(6) by (auto simp: ok_then_def)
  qed
qed

section \<open>Operations\<close>

definition stacks :: "repo \<Rightarrow> pystr list \<Rightarrow> pystr list \<Rightarrow> bool" where
  "stacks v us rs \<longleftrightarrow> is_stack v UNDO_PREFIX us \<and> is_stack v REDO_PREFIX rs"

text \<open>A step that touches one stack and perhaps the working tree\<close>

definition stack_frame :: "pystr \<Rightarrow> repo \<Rightarrow> repo \<Rightarrow> bool" where
  "stack_frame pfx v v' \<longleftrightarrow> commits v' = commits v \<and> headc v' = headc v \<and> tracked v' = tracked v
     \<and> (\<forall>pfx' xs. stack_pfx pfx' \<and> pfx' \<noteq> pfx \<longrightarrow> is_stack v' pfx' xs = is_stack v pfx' xs)"

lemma frame_trans: "stack_frame pfx v1 v2 \<Longrightarrow> stack_frame pfx v2 v3 \<Longrightarrow> stack_frame pfx v1 v3"
  by (simp add: stack_frame_def)

lemma frame_kept: "stack_frame pfx v v' \<Longrightarrow> kept v v'"
  by (simp add: stack_frame_def kept_def)

lemma moves_frame: "moves pfx v v' \<Longrightarrow> stack_pfx pfx \<Longrightarrow> stack_frame pfx v v'"
  using moves_fields [of pfx v v'] moves_other [of pfx v v'] by (simp add: stack_frame_def)

lemma is_stack_fields [simp]: "is_stack (v\<lparr>work := w\<rparr>) pfx xs = is_stack v pfx xs" "is_stack (v\<lparr>tmp := w\<rparr>) pfx xs = is_stack v pfx xs"
  by (simp_all add: is_stack_def)

lemma work_frame: "stack_frame pfx v (v\<lparr>work := w\<rparr>)"
  by (simp add: stack_frame_def)

lemma built_stacks: "built vis pm label v res v' \<Longrightarrow> is_stack v pfx xs \<Longrightarrow> is_stack v' pfx xs"
  unfolding built_def is_stack_def kept_def map_le_def by (metis domIff)

lemma built_commits: "built vis pm label v res v' \<Longrightarrow> commits v s = Some c \<Longrightarrow> commits v' s = Some c"
  unfolding built_def by (blast intro: kept_commits)

lemma push_point_view:
  assumes G: "refs_ok G V" "stack_pfx pfx" and x: "is_stack (V g) pfx xs" "commits (V g) s \<noteq> None"
  shows "\<exists>g'. push_point G M pfx s g = Some g' \<and> stack_frame pfx (V g) (V g') \<and> work (V g') = work (V g)
       \<and> is_stack (V g') pfx (take (cm_max_stack M) (s # xs))"
proof -
  let ?h = "snd (update_ref G (snap_ref s) s g)"
  have h: "V ?h = V g\<lparr>refs := (refs (V g))(snap_ref s \<mapsto> s)\<rparr>" by (rule refs_update(2) [OF G(1) x(2)]) simp
  have xh: "is_stack (V ?h) pfx xs" using x(1) snap_ref_other [OF G(2), THEN not_sym, of _ s] unfolding is_stack_def h by simp
  obtain g1 where g1: "stack_push G pfx s ?h = Some (True, g1)" "moves pfx (V ?h) (V g1)" "is_stack (V g1) pfx (s # xs)"
    using stack_push_stack [OF G xh] x(2) by (auto simp: h)
  obtain g2 where g2: "delete_from G pfx (cm_max_stack M) g1 = Some g2" "moves pfx (V g1) (V g2)"
    "is_stack (V g2) pfx (take (cm_max_stack M) (s # xs))"
    using prune_stack_stack [OF G g1(3)] by blast
  have "moves pfx (V g) (V g2)" using moves_trans [OF moves_trans [OF moves_snap g1(2) [unfolded h]] g2(2)] .
  then show ?thesis using g1(1) g2(1,3) moves_frame G(2) moves_fields(1) unfolding push_point_def prune_stack_def by fastforce
qed

text \<open>What \<^verbatim>\<open>undo\<close> and \<^verbatim>\<open>redo\<close> share: the top is popped and applied, and pushed back when that failed.\<close>

lemma pop_apply:
  assumes G: "git_ok G V vis pm" and pfx: "stack_pfx pfx" and x: "is_stack (V g) pfx (tp # xs)" and c: "commits (V g) tp = Some (m, t)"
  obtains g2 res g3 where "stack_pop G pfx g = Some (Some tp, g2)" "apply_snapshot G tp g2 = (res, g3)"
    "stack_frame pfx (V g) (V g3)" "is_stack (V g3) pfx xs"
    "res = Inr () \<Longrightarrow> work (V g3) = (\<lambda>p. if p \<in> vis then t p else work (V g) p)"
    "\<And>e. res = Inl e \<Longrightarrow> \<exists>g4. stack_push G pfx tp g3 = Some (True, g4) \<and> stack_frame pfx (V g) (V g4) \<and> is_stack (V g4) pfx (tp # xs)"
proof -
  have G': "refs_ok G V" "apply_ok G V vis" using G by (simp_all add: git_ok_def)
  obtain g2 where g2: "stack_pop G pfx g = Some (Some tp, g2)" "moves pfx (V g) (V g2)" "is_stack (V g2) pfx xs"
    using stack_pop_stack [OF G'(1) pfx x] by blast
  obtain res g3 where a: "apply_snapshot G tp g2 = (res, g3)" by fastforce
  have c2: "commits (V g2) tp = Some (m, t)" using c moves_fields(3) [OF g2(2)] by simp
  obtain w where w: "V g3 = V g2\<lparr>work := w\<rparr>" "res = Inr () \<longrightarrow> w = (\<lambda>p. if p \<in> vis then t p else work (V g2) p)"
    using apply_snapshot_view [OF G'(2) c2 a] by blast
  have f: "stack_frame pfx (V g) (V g3)" using frame_trans [OF moves_frame [OF g2(2) pfx] work_frame] by (simp add: w(1))
  have x3: "is_stack (V g3) pfx xs" using g2(3) by (simp add: w(1))
  have "\<exists>g4. stack_push G pfx tp g3 = Some (True, g4) \<and> stack_frame pfx (V g) (V g4) \<and> is_stack (V g4) pfx (tp # xs)"
    using stack_push_stack [OF G'(1) pfx x3, of tp] c2 frame_trans [OF f moves_frame [OF _ pfx]] by (auto simp: w(1))
  moreover have "res = Inr () \<Longrightarrow> work (V g3) = (\<lambda>p. if p \<in> vis then t p else work (V g) p)"
    using w moves_fields(1) [OF g2(2)] by (simp add: fun_eq_iff)
  ultimately show ?thesis using that [OF g2(1) a f x3] by blast
qed

lemma swap_top:
  assumes G: "git_ok G V vis pm" and P: "stack_pfx pfx" "stack_pfx pfx'" "pfx' \<noteq> pfx"
    and x: "is_stack (V g) pfx (tp # xs)" "is_stack (V g) pfx' ys" and c: "commits (V g) tp = Some (m, t)"
    and sp: "\<And>s. sp = Some s \<Longrightarrow> commits (V g) s \<noteq> None"
  obtains g2 g3 e g4 where "stack_pop G pfx g = Some (Some tp, g2)" "apply_snapshot G tp g2 = (Inl e, g3)"
      "stack_push G pfx tp g3 = Some (True, g4)" "kept (V g) (V g4)" "is_stack (V g4) pfx (tp # xs)" "is_stack (V g4) pfx' ys"
  | g2 g3 g4 where "stack_pop G pfx g = Some (Some tp, g2)" "apply_snapshot G tp g2 = (Inr (), g3)"
      "(case sp of None \<Rightarrow> Some g3 | Some s \<Rightarrow> push_point G M pfx' s g3) = Some g4"
      "kept (V g) (V g4)" "work (V g4) = (\<lambda>p. if p \<in> vis then t p else work (V g) p)"
      "is_stack (V g4) pfx xs" "is_stack (V g4) pfx' (case sp of None \<Rightarrow> ys | Some s \<Rightarrow> take (cm_max_stack M) (s # ys))"
proof (rule pop_apply [OF G P(1) x(1) c])
  fix g2 res g3
  assume g3: "stack_pop G pfx g = Some (Some tp, g2)" "apply_snapshot G tp g2 = (res, g3)" "stack_frame pfx (V g) (V g3)" "is_stack (V g3) pfx xs"
    "res = Inr () \<Longrightarrow> work (V g3) = (\<lambda>p. if p \<in> vis then t p else work (V g) p)"
    "\<And>e. res = Inl e \<Longrightarrow> \<exists>g4. stack_push G pfx tp g3 = Some (True, g4) \<and> stack_frame pfx (V g) (V g4) \<and> is_stack (V g4) pfx (tp # xs)"
  have other: "is_stack (V g') pfx' ys" if "stack_frame pfx (V g) (V g')" for g' using that x(2) P unfolding stack_frame_def by blast
  show thesis
  proof (cases res)
    case (Inl e)
    then show thesis using that(1) g3(1,2) g3(6) [OF Inl] other frame_kept by blast
  next
    case (Inr a)
    then have w: "apply_snapshot G tp g2 = (Inr (), g3)" "work (V g3) = (\<lambda>p. if p \<in> vis then t p else work (V g) p)"
      using g3(2,5) by simp_all
    show thesis
    proof (cases sp)
      case None
      then show thesis using that(2) [OF g3(1) w(1), of g3] w(2) g3(3,4) other frame_kept by simp
    next
      case (Some s)
      have "commits (V g3) s \<noteq> None" using sp [OF Some] g3(3) by (simp add: stack_frame_def)
      then obtain g4 where g4: "push_point G M pfx' s g3 = Some g4" "stack_frame pfx' (V g3) (V g4)" "work (V g4) = work (V g3)"
        "is_stack (V g4) pfx' (take (cm_max_stack M) (s # ys))"
        using push_point_view [of G V pfx' g3 ys s M] P(2) other [OF g3(3)] G unfolding git_ok_def by blast
      have "is_stack (V g4) pfx xs" using g4(2) g3(4) P unfolding stack_frame_def by metis
      then show thesis using that(2) [OF g3(1) w(1), of g4] Some g4 w(2) kept_trans [OF frame_kept [OF g3(3)] frame_kept [OF g4(2)]] by simp
    qed
  qed
qed

text \<open>A refused operation leaves both stacks as they were, and the working tree unless the restore itself failed; one
  that succeeds has put the top of the one stack into the working tree and the former tree onto the other.\<close>

definition refused :: "repo \<Rightarrow> repo \<Rightarrow> pystr list \<Rightarrow> pystr list \<Rightarrow> bool \<Rightarrow> bool" where
  "refused v v' us rs half \<longleftrightarrow> kept v v' \<and> stacks v' us rs \<and> (work v' = work v \<or> half)"

definition restored :: "pystr set \<Rightarrow> repo \<Rightarrow> repo \<Rightarrow> pystr \<Rightarrow> bool" where
  "restored vis v v' sha \<longleftrightarrow> kept v v' \<and> (\<exists>m t. commits v sha = Some (m, t) \<and> work v' = (\<lambda>p. if p \<in> vis then t p else work v p))"

definition saved :: "pystr set \<Rightarrow> (pystr \<Rightarrow> pystr \<Rightarrow> bool) \<Rightarrow> repo \<Rightarrow> repo \<Rightarrow> pystr \<Rightarrow> bool" where
  "saved vis pm v v' s \<longleftrightarrow> (\<exists>label. commits v' s = Some (label, snap_tree vis pm v))"

lemma disjE3: "P \<or> Q \<or> R \<Longrightarrow> (P \<Longrightarrow> T) \<Longrightarrow> (Q \<Longrightarrow> T) \<Longrightarrow> (R \<Longrightarrow> T) \<Longrightarrow> T"
  by blast

lemma built_refused: "built vis pm label v res v' \<Longrightarrow> stacks v us rs \<Longrightarrow> refused v v' us rs half"
  using built_stacks [of vis pm label v res v'] unfolding refused_def stacks_def built_def by simp

lemma build_redo_point_view:
  assumes G: "git_ok G V vis pm" and b: "build_redo_point G ts thread_id g = (res, g1)"
  obtains label r where "built vis pm label (V g) r (V g1)"
    "\<And>s. res = Inr (Some s) \<Longrightarrow> commits (V g1) s = Some (label, snap_tree vis pm (V g))"
    "headc (V g) \<noteq> None \<Longrightarrow> res \<noteq> Inr None"
proof -
  let ?label = "u ''jarn-checkpoint: pre-undo @ '' @ str_int ts @ owner_tag thread_id"
  obtain r where r: "build_snapshot G ?label g = (r, g1)" using b by (auto simp: build_redo_point_def split: prod.splits sum.splits)
  have v: "built vis pm ?label (V g) r (V g1)" using build_snapshot_view [of G V vis pm, OF _ _ r] G by (simp add: git_ok_def)
  moreover have "commits (V g1) [] = None" using G unfolding git_ok_def refs_ok_def by blast
  ultimately show ?thesis
    using that [OF v] b r by (auto simp: build_redo_point_def built_def split: sum.splits if_splits)
qed

lemma undo_guards:
  assumes "stack_read G UNDO_PREFIX g = Some us" "build_redo_point G ts thread_id g = (b, g1)"
  shows "(\<exists>e. undo G U M ts thread_id expected_sha expected_tree g = Some (Inl e, g))
       \<or> (\<exists>e. undo G U M ts thread_id expected_sha expected_tree g = Some (Inl e, g1))
       \<or> (\<exists>tp us' rp. us = tp # us' \<and> b = Inr rp \<and> foreign_owner_error G U tp thread_id ''undo'' g = None
            \<and> undo G U M ts thread_id expected_sha expected_tree g = undo_top G M rp g1)"
  using assms unfolding undo_def guarded_def by (simp split: list.splits option.splits sum.splits)

lemma undo_outcome:
  assumes G: "git_ok G V vis pm" and S: "stacks (V g) us rs"
  obtains e g' where "undo G U M ts thread_id expected_sha expected_tree g = Some (Inl e, g')"
      "refused (V g) (V g') us rs (startswith e (u ''restore failed: ''))"
  | msg tp us' rp g' where "undo G U M ts thread_id expected_sha expected_tree g = Some (Inr msg, g')"
      "us = tp # us'" "restored vis (V g) (V g') tp"
      "foreign_owner_error G U tp thread_id ''undo'' g = None"
      "case rp of Some s \<Rightarrow> stacks (V g') us' (take (cm_max_stack M) (s # rs)) \<and> saved vis pm (V g) (V g') s | None \<Rightarrow> stacks (V g') us' rs"
      "headc (V g) \<noteq> None \<Longrightarrow> rp \<noteq> None"
proof -
  let ?undo = "undo G U M ts thread_id expected_sha expected_tree g"
  have R: "refs_ok G V" using G by (simp add: git_ok_def)
  have read: "stack_read G UNDO_PREFIX g = Some us" using stack_read_stack [OF R] S unfolding stacks_def by simp
  have same: "refused (V g) (V g) us rs half" for half using S by (simp add: refused_def)
  obtain b g1 where b: "build_redo_point G ts thread_id g = (b, g1)" by fastforce
  obtain label r where v: "built vis pm label (V g) r (V g1)"
    "\<And>s. b = Inr (Some s) \<Longrightarrow> commits (V g1) s = Some (label, snap_tree vis pm (V g))" "headc (V g) \<noteq> None \<Longrightarrow> b \<noteq> Inr None"
    using build_redo_point_view [OF G b] by blast
  note half = built_refused [OF v(1) S]
  show ?thesis
  proof (rule disjE3 [OF undo_guards [OF read b, of U M expected_sha expected_tree]], goal_cases)
    case 3
    then obtain tp us' rp where us: "us = tp # us'" and rp: "b = Inr rp" and f: "foreign_owner_error G U tp thread_id ''undo'' g = None"
      and u: "?undo = undo_top G M rp g1" by blast
    have "is_stack (V g) UNDO_PREFIX us" "is_stack (V g) REDO_PREFIX rs" using S by (simp_all add: stacks_def)
    then obtain m t where c: "commits (V g) tp = Some (m, t)" unfolding us is_stack_def by auto
    note s1 = built_stacks [OF v(1)] and c1 = built_commits [OF v(1) c]
    have w1: "work (V g1) = work (V g)" "kept (V g) (V g1)" using v(1) by (simp_all add: built_def)
    have x1: "is_stack (V g1) UNDO_PREFIX (tp # us')" "is_stack (V g1) REDO_PREFIX rs" using s1 S us by (simp_all add: stacks_def)
    have sp: "commits (V g1) s \<noteq> None" if "rp = Some s" for s using v(2) rp that by simp
    show ?thesis
    proof (rule swap_top [OF G stack_pfxs(1,2,4) x1 c1, where sp = rp and M = M], goal_cases)
      case (2 g2 g3 e g4)
      then have "?undo = Some (Inl (u ''restore failed: '' @ e), g4)" by (simp add: u undo_top_def)
      moreover have "refused (V g) (V g4) us rs True" using 2 kept_trans [OF w1(2)] us by (simp add: refused_def stacks_def)
      ultimately show ?case using that(1) by (simp add: startswith_append)
    next
      case (3 g2 g3 g4)
      have "restored vis (V g) (V g4) tp" using 3(4,5) kept_trans [OF w1(2)] c w1(1) by (auto simp: restored_def fun_eq_iff)
      moreover have "saved vis pm (V g) (V g4) s" if "rp = Some s" for s
        using v(2) [of s] rp that kept_commits [OF 3(4)] by (auto simp: saved_def)
      ultimately show ?case using that(2) [of _ g4 tp us' rp] 3 u us f v(3) rp by (simp add: undo_top_def stacks_def split: option.splits)
    qed (use sp in blast)
  qed (use that(1) same half in blast)+
qed

lemma redo_guards:
  assumes "stack_read G REDO_PREFIX g = Some rs"
    "build_snapshot G (u ''jarn-checkpoint: pre-redo @ '' @ str_int ts @ owner_tag thread_id) g = (b, g1)"
  shows "(\<exists>e. redo G U M ts thread_id g = Some (Inl e, g)) \<or> (\<exists>e. redo G U M ts thread_id g = Some (Inl e, g1))
       \<or> (\<exists>tp rs' s. rs = tp # rs' \<and> b = Inr s \<and> foreign_owner_error G U tp thread_id ''redo'' g = None
            \<and> redo G U M ts thread_id g = redo_top G M s g1)"
  using assms unfolding redo_def guarded_def by (simp split: list.splits option.splits sum.splits)

lemma redo_outcome:
  assumes G: "git_ok G V vis pm" and S: "stacks (V g) us rs"
  obtains e g' where "redo G U M ts thread_id g = Some (Inl e, g')" "refused (V g) (V g') us rs (startswith e (u ''redo failed: ''))"
  | msg tp rs' s g' where "redo G U M ts thread_id g = Some (Inr msg, g')" "rs = tp # rs'" "restored vis (V g) (V g') tp"
      "foreign_owner_error G U tp thread_id ''redo'' g = None"
      "stacks (V g') (take (cm_max_stack M) (s # us)) rs'" "saved vis pm (V g) (V g') s"
proof -
  let ?redo = "redo G U M ts thread_id g" and ?label = "u ''jarn-checkpoint: pre-redo @ '' @ str_int ts @ owner_tag thread_id"
  have R: "refs_ok G V" "build_ok G V vis pm" "apply_ok G V vis" using G by (simp_all add: git_ok_def)
  have read: "stack_read G REDO_PREFIX g = Some rs" using stack_read_stack [OF R(1)] S unfolding stacks_def by simp
  have same: "refused (V g) (V g) us rs half" for half using S by (simp add: refused_def)
  obtain b g1 where b: "build_snapshot G ?label g = (b, g1)" by fastforce
  note v = build_snapshot_view [OF R(2,3) b]
  note half = built_refused [OF v S]
  show ?thesis
  proof (rule disjE3 [OF redo_guards [OF read b, of U M]], goal_cases)
    case 3
    then obtain tp rs' s where rs: "rs = tp # rs'" and s: "b = Inr s" and f: "foreign_owner_error G U tp thread_id ''redo'' g = None"
      and u: "?redo = redo_top G M s g1" by blast
    have "is_stack (V g) REDO_PREFIX rs" using S by (simp add: stacks_def)
    then obtain m t where c: "commits (V g) tp = Some (m, t)" unfolding rs is_stack_def by auto
    note s1 = built_stacks [OF v] and c1 = built_commits [OF v c]
    have w1: "work (V g1) = work (V g)" "kept (V g) (V g1)" "commits (V g1) s = Some (?label, snap_tree vis pm (V g))"
      using v s by (simp_all add: built_def)
    have x1: "is_stack (V g1) REDO_PREFIX (tp # rs')" "is_stack (V g1) UNDO_PREFIX us" using s1 S rs by (simp_all add: stacks_def)
    show ?thesis
    proof (rule swap_top [OF G stack_pfxs(2,1,3) x1 c1, where sp = "Some s" and M = M], goal_cases)
      case (2 g2 g3 e g4)
      then have "?redo = Some (Inl (u ''redo failed: '' @ e), g4)" by (simp add: u redo_top_def)
      moreover have "refused (V g) (V g4) us rs True" using 2 kept_trans [OF w1(2)] rs by (simp add: refused_def stacks_def)
      ultimately show ?case using that(1) by simp
    next
      case (3 g2 g3 g4)
      have "restored vis (V g) (V g4) tp" using 3(4,5) kept_trans [OF w1(2)] c w1(1) by (auto simp: restored_def fun_eq_iff)
      moreover have "saved vis pm (V g) (V g4) s" using kept_commits [OF 3(4) w1(3)] by (auto simp: saved_def)
      ultimately show ?case using that(2) [of _ g4 tp rs' s] 3 u rs f by (simp add: redo_top_def stacks_def)
    qed (use w1(3) in simp)
  qed (use that(1) same half in blast)+
qed

lemma restore_to_outcome:
  assumes G: "git_ok G V vis pm" and S: "stacks (V g) us rs" and c: "commits (V g) sha = Some (m, t)"
  obtains e g' where "restore_to G M ts sha g = Some (Inl e, g')" "refused (V g) (V g') us rs (startswith e (u ''restore failed: ''))"
  | msg us' g' where "restore_to G M ts sha g = Some (Inr msg, g')" "restored vis (V g) (V g') sha" "stacks (V g') us' []"
      "us' = us \<or> (\<exists>s. us' = take (cm_max_stack M) (s # us) \<and> saved vis pm (V g) (V g') s)"
proof -
  let ?label = "u ''jarn-checkpoint: pre-rewind @ '' @ str_int ts"
  have R: "refs_ok G V" "build_ok G V vis pm" "apply_ok G V vis" using G by (simp_all add: git_ok_def)
  obtain b g1 where b: "build_snapshot G ?label g = (b, g1)" by fastforce
  note v = build_snapshot_view [OF R(2,3) b]
  note c1 = built_commits [OF v c]
  have w1: "work (V g1) = work (V g)" "kept (V g) (V g1)" "stacks (V g1) us rs"
    using v built_stacks [OF v] S by (simp_all add: built_def stacks_def)
  obtain r g2 where a: "apply_snapshot G sha g1 = (r, g2)" by fastforce
  obtain w where w: "V g2 = V g1\<lparr>work := w\<rparr>" "r = Inr () \<longrightarrow> w = (\<lambda>p. if p \<in> vis then t p else work (V g1) p)"
    using apply_snapshot_view [OF R(3) c1 a] by blast
  have k2: "kept (V g) (V g2)" using w1(2) by (simp add: w(1) kept_def)
  have s2: "is_stack (V g2) UNDO_PREFIX us" "is_stack (V g2) REDO_PREFIX rs" using w1(3) by (simp_all add: w(1) stacks_def)
  consider (off) "\<not> (cm_enabled M \<and> cm_is_repo M)" | (failed) e where "cm_enabled M" "cm_is_repo M" "r = Inl e"
    | (ok) "cm_enabled M" "cm_is_repo M" "r = Inr ()" by (cases r) auto
  then show ?thesis
  proof cases
    case off
    then have "\<exists>e. restore_to G M ts sha g = Some (Inl e, g)" by (simp add: restore_to_def guarded_def)
    then show ?thesis using that(1) S by (auto simp: refused_def)
  next
    case failed
    then show ?thesis using that(1) [of "u ''restore failed: '' @ e" g2] k2 s2 b a by (simp add: restore_to_def guarded_def refused_def stacks_def)
  next
    case ok
    have "\<exists>g3 us'. (case b of Inr s \<Rightarrow> push_point G M UNDO_PREFIX s g2 | Inl _ \<Rightarrow> Some g2) = Some g3 \<and> stack_frame UNDO_PREFIX (V g2) (V g3)
        \<and> work (V g3) = work (V g2) \<and> is_stack (V g3) UNDO_PREFIX us' \<and> (us' = us \<or> (\<exists>s. us' = take (cm_max_stack M) (s # us) \<and> saved vis pm (V g) (V g2) s))"
    proof (cases b)
      case (Inl e)
      then show ?thesis using s2(1) by (auto simp: stack_frame_def)
    next
      case (Inr s)
      then have cs: "commits (V g2) s = Some (?label, snap_tree vis pm (V g))" using v by (simp add: w(1) built_def)
      then show ?thesis using push_point_view [OF R(1) stack_pfxs(1) s2(1), of s M] Inr unfolding saved_def by fastforce
    qed
    then obtain g3 us' where g3: "(case b of Inr s \<Rightarrow> push_point G M UNDO_PREFIX s g2 | Inl _ \<Rightarrow> Some g2) = Some g3" "stack_frame UNDO_PREFIX (V g2) (V g3)"
      "work (V g3) = work (V g2)" "is_stack (V g3) UNDO_PREFIX us'" "us' = us \<or> (\<exists>s. us' = take (cm_max_stack M) (s # us) \<and> saved vis pm (V g) (V g2) s)"
      by blast
    have "is_stack (V g3) REDO_PREFIX rs" using s2(2) g3(2) by (simp add: stack_frame_def)
    then obtain g4 where g4: "delete_from G REDO_PREFIX 0 g3 = Some g4" "moves REDO_PREFIX (V g3) (V g4)" "is_stack (V g4) REDO_PREFIX []"
      using prune_stack_stack [OF R(1) stack_pfxs(2), of g3 rs 0] by auto
    have k4: "kept (V g2) (V g4)" using kept_trans [OF frame_kept [OF g3(2)] moves_kept [OF g4(2)]] .
    show ?thesis
    proof (rule that(2))
      show "restore_to G M ts sha g = Some (Inr (u ''restored: '' @ read_ref_message G sha g4), g4)"
        using ok a b g3(1) g4(1) by (simp add: restore_to_def guarded_def stack_clear_def)
      show "restored vis (V g) (V g4) sha"
        using kept_trans [OF k2 k4] c g3(3) moves_fields(1) [OF g4(2)] w ok(3) w1(1) by (auto simp: restored_def fun_eq_iff)
      show "stacks (V g4) us' []" using g4(3) moves_other [OF g4(2)] g3(4) by (simp add: stacks_def)
      show "us' = us \<or> (\<exists>s. us' = take (cm_max_stack M) (s # us) \<and> saved vis pm (V g) (V g4) s)"
        using g3(5) kept_commits [OF k4] unfolding saved_def by blast
    qed
  qed
qed

lemma snapshot_guards:
  assumes "build_snapshot G (u ''jarn-checkpoint: '' @ label @ u '' @ '' @ str_int ts @ turn_meta_suffix thread_id turn_index) g = (b, g1)"
    "stack_read G UNDO_PREFIX g1 = Some us"
  shows "(\<exists>e. snapshot G M label ts thread_id turn_index g = Some (Inl e, g)) \<or> (\<exists>e. snapshot G M label ts thread_id turn_index g = Some (Inl e, g1))
       \<or> (\<exists>s. b = Inr s \<and> cm_enabled M \<and> cm_is_repo M \<and> \<not> (us \<noteq> [] \<and> same_tree G (hd us) s g1))"
  using assms unfolding snapshot_def guarded_def by (simp split: sum.splits)

lemma snapshot_outcome:
  assumes G: "git_ok G V vis pm" and S: "stacks (V g) us rs"
  obtains e g' where "snapshot G M label ts thread_id turn_index g = Some (Inl e, g')" "refused (V g) (V g') us rs False"
  | full s g' where "snapshot G M label ts thread_id turn_index g = Some (Inr full, g')"
      "full = u ''jarn-checkpoint: '' @ label @ u '' @ '' @ str_int ts @ turn_meta_suffix thread_id turn_index"
      "kept (V g) (V g')" "work (V g') = work (V g)" "commits (V g') s = Some (full, snap_tree vis pm (V g))"
      "stacks (V g') (take (cm_max_stack M) (s # us)) []"
proof -
  let ?full = "u ''jarn-checkpoint: '' @ label @ u '' @ '' @ str_int ts @ turn_meta_suffix thread_id turn_index"
  let ?snap = "snapshot G M label ts thread_id turn_index g"
  have R: "refs_ok G V" "build_ok G V vis pm" "apply_ok G V vis" using G by (simp_all add: git_ok_def)
  obtain b g1 where b: "build_snapshot G ?full g = (b, g1)" by fastforce
  note v = build_snapshot_view [OF R(2,3) b]
  have s1: "is_stack (V g1) UNDO_PREFIX us" "is_stack (V g1) REDO_PREFIX rs" using built_stacks [OF v] S by (simp_all add: stacks_def)
  note read = stack_read_stack [OF R(1) stack_pfxs(1) s1(1)]
  consider (off) "\<exists>e. ?snap = Some (Inl e, g)" | (skip) "\<exists>e. ?snap = Some (Inl e, g1)"
    | (go) s where "b = Inr s" "cm_enabled M" "cm_is_repo M" "\<not> (us \<noteq> [] \<and> same_tree G (hd us) s g1)"
    using snapshot_guards [OF b read, of M] by blast
  then show ?thesis
  proof cases
    case off
    then show ?thesis using that(1) S by (auto simp: refused_def)
  next
    case skip
    then show ?thesis using that(1) built_refused [OF v S] by blast
  next
    case (go s)
    have w1: "work (V g1) = work (V g)" "kept (V g) (V g1)" "commits (V g1) s = Some (?full, snap_tree vis pm (V g))"
      using v go by (simp_all add: built_def)
    obtain g2 where g2: "update_ref G (snap_ref s) s g1 = (True, g2)" "V g2 = V g1\<lparr>refs := (refs (V g1))(snap_ref s \<mapsto> s)\<rparr>"
      using refs_update [OF R(1), of g1 s "snap_ref s"] w1(3) by (cases "update_ref G (snap_ref s) s g1") simp
    have m2: "moves UNDO_PREFIX (V g1) (V g2)" unfolding g2(2) by (rule moves_snap)
    have s2: "is_stack (V g2) UNDO_PREFIX us"
      using s1(1) snap_ref_other [OF stack_pfxs(1), THEN not_sym, of _ s] unfolding is_stack_def g2(2) by simp
    obtain g3 where g3: "stack_push G UNDO_PREFIX s g2 = Some (True, g3)" "moves UNDO_PREFIX (V g2) (V g3)" "is_stack (V g3) UNDO_PREFIX (s # us)"
      using stack_push_stack [OF R(1) stack_pfxs(1) s2, of s] w1(3) moves_fields(3) [OF m2] by auto
    have m3: "moves UNDO_PREFIX (V g1) (V g3)" using moves_trans [OF m2 g3(2)] .
    have "is_stack (V g3) REDO_PREFIX rs" using moves_other [OF m3] s1(2) by simp
    then obtain g4 where g4: "delete_from G REDO_PREFIX 0 g3 = Some g4" "moves REDO_PREFIX (V g3) (V g4)" "is_stack (V g4) REDO_PREFIX []"
      using prune_stack_stack [OF R(1) stack_pfxs(2), of g3 rs 0] by auto
    have "is_stack (V g4) UNDO_PREFIX (s # us)" using moves_other [OF g4(2)] g3(3) by simp
    then obtain g5 where g5: "delete_from G UNDO_PREFIX (cm_max_stack M) g4 = Some g5" "moves UNDO_PREFIX (V g4) (V g5)"
      "is_stack (V g5) UNDO_PREFIX (take (cm_max_stack M) (s # us))"
      using prune_stack_stack [OF R(1) stack_pfxs(1)] by blast
    have k: "kept (V g1) (V g5)" using kept_trans [OF moves_kept [OF m3] kept_trans [OF moves_kept [OF g4(2)] moves_kept [OF g5(2)]]] .
    show ?thesis
    proof (rule that(2) [OF _ refl])
      show "?snap = Some (Inr ?full, g5)"
        using go b read g2(1) g3(1) g4(1) g5(1) by (auto simp: snapshot_def guarded_def Let_def stack_clear_def prune_stack_def)
      show "kept (V g) (V g5)" by (rule kept_trans [OF w1(2) k])
      show "work (V g5) = work (V g)" using w1(1) moves_fields(1) [OF m3] moves_fields(1) [OF g4(2)] moves_fields(1) [OF g5(2)] by simp
      show "commits (V g5) s = Some (?full, snap_tree vis pm (V g))" by (rule kept_commits [OF k w1(3)])
      show "stacks (V g5) (take (cm_max_stack M) (s # us)) []" using g5(3) moves_other [OF g5(2)] g4(3) by (simp add: stacks_def)
    qed
  qed
qed

end
