(* ===== verification/Undo.thy ===== *)
theory Undo
  imports Checkpoint
begin

text \<open>
  What the checkpoints of \<^verbatim>\<open>src/src/jarn/agent/checkpoint.py\<close> guarantee: the tags of a snapshot are read back,
  an undo never crosses sessions, undo and redo are inverse on the working tree, and no sequence of operations
  changes \<^verbatim>\<open>HEAD\<close> or the index or breaks a stack. The laws of git are shown to be satisfiable by a small repository.
\<close>

section \<open>Tags\<close>

text \<open>\<^verbatim>\<open>\d\<close> on ASCII characters\<close>

definition ascii_digits :: "pyuni \<Rightarrow> bool" where
  "ascii_digits U \<longleftrightarrow> (\<forall>c. 0 \<le> c \<and> c < 128 \<longrightarrow> digit_val U c = (if 48 \<le> c \<and> c \<le> 57 then Some (c - 48) else None))"

text \<open>A thread identifier without white space or a closing bracket, such as a hexadecimal one\<close>

definition plain_thread :: "pystr \<Rightarrow> bool" where
  "plain_thread t \<longleftrightarrow> t \<noteq> [] \<and> (\<forall>c\<in>set t. \<not> isspace c \<and> c \<noteq> 93)"

lemma drop_length_append [simp]: "drop (length xs) (xs @ ys) = ys"
  by simp

lemma takeWhile_stop: "(\<And>x. x \<in> set xs \<Longrightarrow> P x) \<Longrightarrow> ys = [] \<or> \<not> P (hd ys) \<Longrightarrow> takeWhile P (xs @ ys) = xs"
  by (induction xs) (cases ys; simp)+

lemma digit_ascii: "ascii_digits U \<Longrightarrow> is_digit c \<Longrightarrow> digit_val U c = Some (c - 48)"
  by (simp add: ascii_digits_def is_digit_def)

lemma digit_blank: "ascii_digits U \<Longrightarrow> digit_val U 32 = None" "ascii_digits U \<Longrightarrow> digit_val U 93 = None"
  by (simp_all add: ascii_digits_def)

lemma str_int_digits:
  assumes "0 \<le> i"
  shows "\<And>c. c \<in> set (str_int i) \<Longrightarrow> is_digit c" "str_int i \<noteq> []"
proof -
  have "str_int i = dec_digits (nat i)" using assms by (simp add: str_int_def)
  then show "\<And>c. c \<in> set (str_int i) \<Longrightarrow> is_digit c" "str_int i \<noteq> []"
    using dec_digits_digit [of "nat i"] dec_digits_lead [of "nat i"] by (auto simp: list_all_iff)
qed

lemma digits_int_str_int:
  assumes "ascii_digits U" "0 \<le> i"
  shows "digits_int U (str_int i) = i"
proof -
  have *: "foldl (\<lambda>n c. n * 10 + (case digit_val U c of Some d \<Rightarrow> d | None \<Rightarrow> 0)) a ds = foldl (\<lambda>n d. n * 10 + (d - 48)) a ds"
    if "list_all is_digit ds" for a ds
    using that by (induction ds arbitrary: a) (simp_all add: digit_ascii [OF assms(1)])
  have "str_int i = dec_digits (nat i)" using assms(2) by (simp add: str_int_def)
  then show ?thesis
    using * [OF dec_digits_digit, of 0 "nat i"] digits_val_dec [of "nat i"] assms(2) by (simp add: digits_int_def digits_val_def)
qed

text \<open>No tag has a bracket after a blank, so a tag at an earlier position cannot reach the end of the subject.\<close>

definition adjacent :: "'a list \<Rightarrow> ('a \<times> 'a) set" where
  "adjacent xs = set (zip xs (tl xs))"

lemma adjacent_append: "xs \<noteq> [] \<Longrightarrow> ys \<noteq> [] \<Longrightarrow> adjacent (xs @ ys) = insert (last xs, hd ys) (adjacent xs \<union> adjacent ys)"
proof (induction xs)
  case (Cons x xs)
  then show ?case by (cases xs; cases ys) (auto simp: adjacent_def)
qed simp

lemma adjacent_mid: "(x, y) \<in> adjacent (xs @ x # y # ys)"
proof (induction xs)
  case (Cons z xs)
  then show ?case by (cases xs) (auto simp: adjacent_def)
qed (simp add: adjacent_def)

lemma adjacent_fst: "p \<in> adjacent xs \<Longrightarrow> fst p \<in> set xs"
  unfolding adjacent_def by (cases p) (auto dest: set_zip_leftD)

lemma tag_here_shape:
  assumes "tag_here U s = Some (t, ds)"
  obtains e where "s = u ''[jarn:thread='' @ t @ u '' turn='' @ ds @ e" "plain_thread t" "ds \<noteq> []"
    "\<And>c. c \<in> set ds \<Longrightarrow> digit_val U c \<noteq> None" "e \<in> {[93], [93, 10]}"
proof -
  let ?pre = "u ''[jarn:thread=''" and ?mid = "u '' turn=''" and ?P = "\<lambda>c. \<not> isspace c \<and> c \<noteq> 93"
  define r1 where "r1 = drop (length ?pre) s"
  define r3 where "r3 = drop (length ?mid) (drop (length t) r1)"
  have *: "startswith s ?pre" "t = takeWhile ?P r1" "t \<noteq> []" "startswith (drop (length t) r1) ?mid" "ds \<noteq> []"
    "ds = takeWhile (\<lambda>c. digit_val U c \<noteq> None) r3" "drop (length ds) r3 \<in> {[93], [93, 10]}"
    using assms unfolding tag_here_def Let_def r1_def r3_def by (auto split: if_splits)
  have "s = ?pre @ r1" using *(1) by (auto simp: startswith_iff r1_def)
  moreover have "r1 = t @ drop (length t) r1" using *(2) by (metis takeWhile_eq_take append_take_drop_id)
  moreover have "drop (length t) r1 = ?mid @ r3" using *(4) unfolding r3_def by (metis startswith_iff append_eq_conv_conj)
  moreover have "r3 = ds @ drop (length ds) r3" using *(6) by (metis takeWhile_eq_take append_take_drop_id)
  ultimately have s: "s = ?pre @ t @ ?mid @ ds @ drop (length ds) r3" by metis
  have "plain_thread t" unfolding plain_thread_def using *(2,3) by (metis (mono_tags, lifting) set_takeWhileD)
  moreover have "\<And>c. c \<in> set ds \<Longrightarrow> digit_val U c \<noteq> None" using *(6) by (metis (mono_tags, lifting) set_takeWhileD)
  ultimately show ?thesis using that [OF s] *(5,7) by blast
qed

lemma no_earlier_tag:
  assumes U: "ascii_digits U"
  shows "tag_here U (c # l @ 32 # 91 # r) = None"
proof (rule ccontr)
  assume "tag_here U (c # l @ 32 # 91 # r) \<noteq> None"
  then obtain t ds where "tag_here U (c # l @ 32 # 91 # r) = Some (t, ds)" by auto
  then obtain e where s: "c # l @ 32 # 91 # r = u ''[jarn:thread='' @ t @ u '' turn='' @ ds @ e" and t: "plain_thread t" and ds: "ds \<noteq> []"
    "\<And>c. c \<in> set ds \<Longrightarrow> digit_val U c \<noteq> None" and e: "e \<in> {[93], [93, 10]}" by (rule tag_here_shape) blast
  have "(32, 91) \<in> adjacent ((c # l) @ 32 # 91 # r)" by (rule adjacent_mid)
  then have "(32, 91) \<in> adjacent (u ''[jarn:thread='' @ t @ u '' turn='' @ ds @ e)" using s by simp
  moreover have "(32, 91) \<notin> adjacent (u ''[jarn:thread='')" "(32, 91) \<notin> adjacent (u '' turn='')"
    by (simp_all add: adjacent_def u_def)
  moreover have "isspace 32" by (simp add: isspace_def)
  then have "32 \<notin> set t" using t unfolding plain_thread_def by blast
  then have "(32, 91) \<notin> adjacent t" "last t \<noteq> 32" using t adjacent_fst [of "(32, 91)" t] last_in_set [of t]
    unfolding plain_thread_def fst_conv by metis+
  moreover have "32 \<notin> set ds" using ds(2) [of 32] digit_blank(1) [OF U] by blast
  then have "(32, 91) \<notin> adjacent ds" "last ds \<noteq> 32" using adjacent_fst [of "(32, 91)" ds] ds(1) last_in_set [of ds] unfolding fst_conv by metis+
  moreover have "(32, 91) \<notin> adjacent e" using e by (auto simp: adjacent_def)
  moreover have "u ''[jarn:thread='' \<noteq> []" "last (u ''[jarn:thread='') = 61" "u '' turn='' \<noteq> []" "last (u '' turn='') = 61"
    "hd (u '' turn='' @ ds @ e) = 32" "t \<noteq> []" "e \<noteq> []"
    using t e by (auto simp: u_def plain_thread_def)
  ultimately show False using ds(1) by (simp add: adjacent_append)
qed

lemma str_int_chars: "c \<in> set (str_int i) \<Longrightarrow> is_digit c \<or> c = 45"
  using dec_digits_digit by (auto simp: str_int_def list_all_iff split: if_splits)

lemma turn_meta_suffix_read:
  assumes U: "ascii_digits U" and a: "plain_thread a" and i: "0 \<le> i"
  shows "turn_meta U (l @ turn_meta_suffix (Some a) (Some i)) = Some (a, str_int i)"
proof -
  let ?tag = "u ''[jarn:thread='' @ a @ u '' turn='' @ str_int i @ u '']''"
  have suf: "turn_meta_suffix (Some a) (Some i) = 32 # ?tag" by (simp add: turn_meta_suffix_def u_def)
  have "takeWhile (\<lambda>c. \<not> isspace c \<and> c \<noteq> 93) (a @ u '' turn='' @ str_int i @ u '']'') = a"
    using a by (intro takeWhile_stop) (auto simp: plain_thread_def u_def isspace_def)
  moreover have "takeWhile (\<lambda>c. digit_val U c \<noteq> None) (str_int i @ u '']'') = str_int i"
    using U str_int_digits [OF i] digit_ascii [OF U] digit_blank [OF U] by (intro takeWhile_stop) (auto simp: u_def)
  ultimately have tag: "tag_here U ?tag = Some (a, str_int i)"
    using a str_int_digits(2) [OF i] unfolding tag_here_def Let_def plain_thread_def
    by (simp only: drop_length_append startswith_append append_assoc) (simp add: u_def)
  have hd: "?tag = 91 # drop 1 ?tag" by (simp add: u_def)
  show ?thesis
  proof (induction l)
    case Nil
    have "tag_here U (32 # ?tag) = None" by (simp add: tag_here_def u_def)
    then have "turn_meta U (32 # ?tag) = turn_meta U ?tag" by simp
    also have "\<dots> = Some (a, str_int i)" using tag by (subst hd, subst (asm) hd) simp
    finally show ?case by (simp add: suf)
  next
    case (Cons c l)
    have "tag_here U (c # l @ turn_meta_suffix (Some a) (Some i)) = None" unfolding suf by (subst hd) (rule no_earlier_tag [OF U])
    then show ?case using Cons.IH by simp
  qed
qed

section \<open>Ownership\<close>

text \<open>A message of one line, without blanks at its ends, is read back as it was written.\<close>

definition messages_ok :: "'g git \<Rightarrow> ('g \<Rightarrow> repo) \<Rightarrow> bool" where
  "messages_ok G V \<longleftrightarrow> (\<forall>g s m t. commits (V g) s = Some (m, t) \<and> 10 \<notin> set m \<and> strip_ws m = m \<longrightarrow> read_ref_message G s g = m)"

lemma dropWhile_id: "s = [] \<or> \<not> P (hd s) \<Longrightarrow> dropWhile P s = s"
  by (cases s) simp_all

lemma strip_ws_ends: "s \<noteq> [] \<Longrightarrow> \<not> isspace (hd s) \<Longrightarrow> \<not> isspace (last s) \<Longrightarrow> strip_ws s = s"
  using dropWhile_id [of s isspace] dropWhile_id [of "rev s" isspace] by (simp add: strip_ws_def rstrip_with_def lstrip_with_def hd_rev)

lemma snapshot_owner:
  assumes U: "ascii_digits U" and a: "plain_thread a" "0 \<le> i" and l: "10 \<notin> set label" and G: "messages_ok G V"
    and c: "commits (V g) s = Some (u ''jarn-checkpoint: '' @ label @ u '' @ '' @ str_int ts @ turn_meta_suffix (Some a) (Some i), t)"
  shows "thread_id_from_subject U (read_ref_message G s g) = Some a"
proof -
  let ?m = "u ''jarn-checkpoint: '' @ label @ u '' @ '' @ str_int ts @ turn_meta_suffix (Some a) (Some i)"
  have sp: "isspace 10" "\<not> isspace 93" "\<not> isspace 106" by (simp_all add: isspace_def)
  have "last ?m = 93" "hd ?m = 106" by (simp_all add: turn_meta_suffix_def u_def)
  then have st: "strip_ws ?m = ?m" using sp by (intro strip_ws_ends) (simp_all add: u_def)
  have "10 \<notin> set a" using a(1) sp(1) unfolding plain_thread_def by blast
  moreover have "10 \<notin> set (str_int j)" for j using str_int_chars [of 10 j] by (auto simp: is_digit_def)
  ultimately have "10 \<notin> set ?m" using l unfolding turn_meta_suffix_def set_append option.case prod.case
    by (simp add: u_def)
  with st have "read_ref_message G s g = ?m" using G c unfolding messages_ok_def by blast
  then show ?thesis
    using turn_meta_suffix_read [OF U a, of "u ''jarn-checkpoint: '' @ label @ u '' @ '' @ str_int ts"] by (simp add: thread_id_from_subject_def)
qed

lemma foreign_undo_refused:
  assumes read: "stack_read G UNDO_PREFIX g = Some (s # us)" and own: "thread_id_from_subject U (read_ref_message G s g) = Some a"
    and b: "b \<noteq> a" "b \<noteq> []"
  shows "\<exists>e. undo G U M ts (Some b) expected_sha expected_tree g = Some (Inl e, g)"
proof -
  have "foreign_owner_error G U s (Some b) ''undo'' g = Some (foreign_checkpoint_message ''undo'' a b)"
    using own b by (simp add: foreign_owner_error_def)
  then show ?thesis using read by (simp add: undo_def guarded_def)
qed

section \<open>Properties\<close>


text \<open>
  An undo stays within its session: right after a snapshot tagged for one thread, an undo on behalf of any other thread is
  refused and changes nothing in the repository.
\<close>

theorem undo_within_session:
  assumes G: "git_ok G V vis pm" "messages_ok G V" and U: "ascii_digits U" and S: "stacks (V g) us rs" and M: "0 < cm_max_stack M"
    and a: "plain_thread a" "0 \<le> i" "10 \<notin> set label" and b: "b \<noteq> a" "b \<noteq> []"
    and s: "snapshot G M label ts (Some a) (Some i) g = Some (Inr full, g1)"
  shows "\<exists>e. undo G U M ts' (Some b) expected_sha expected_tree g1 = Some (Inl e, g1)"
proof (rule snapshot_outcome [OF G(1) S, of M label ts "Some a" "Some i"])
  fix full' sha g'
  assume "snapshot G M label ts (Some a) (Some i) g = Some (Inr full', g')"
    and full': "full' = u ''jarn-checkpoint: '' @ label @ u '' @ '' @ str_int ts @ turn_meta_suffix (Some a) (Some i)"
    and c: "commits (V g') sha = Some (full', snap_tree vis pm (V g))" and S': "stacks (V g') (take (cm_max_stack M) (sha # us)) []"
  then have g': "g' = g1" using s by simp
  have read: "stack_read G UNDO_PREFIX g1 = Some (sha # take (cm_max_stack M - 1) us)"
    using stack_read_stack [of G V UNDO_PREFIX g1] S' G(1) M unfolding git_ok_def stacks_def g' by (simp add: take_Cons')
  have "thread_id_from_subject U (read_ref_message G sha g1) = Some a"
    using c unfolding full' g' by (rule snapshot_owner [OF U a G(2)])
  then show ?thesis by (rule foreign_undo_refused [OF read _ b])
qed (use s in simp)

text \<open>The steps of a session: the operations, with any arguments, and edits of the working tree between them\<close>

inductive ck_step :: "'g git \<Rightarrow> ('g \<Rightarrow> repo) \<Rightarrow> pyuni \<Rightarrow> CheckpointManager \<Rightarrow> 'g \<Rightarrow> 'g \<Rightarrow> bool" for G V U M where
  ck_edit: "V g' = V g\<lparr>work := w\<rparr> \<Longrightarrow> ck_step G V U M g g'"
| ck_snapshot: "snapshot G M label ts thread_id turn_index g = Some (res, g') \<Longrightarrow> ck_step G V U M g g'"
| ck_undo: "undo G U M ts thread_id expected_sha expected_tree g = Some (res, g') \<Longrightarrow> ck_step G V U M g g'"
| ck_redo: "redo G U M ts thread_id g = Some (res, g') \<Longrightarrow> ck_step G V U M g g'"
| ck_restore: "commits (V g) sha \<noteq> None \<Longrightarrow> restore_to G M ts sha g = Some (res, g') \<Longrightarrow> ck_step G V U M g g'"

definition good_stacks :: "CheckpointManager \<Rightarrow> repo \<Rightarrow> bool" where
  "good_stacks M v \<longleftrightarrow> (\<exists>us rs. stacks v us rs \<and> length us \<le> cm_max_stack M \<and> length rs \<le> cm_max_stack M)"

lemma good_stacksI: "stacks v us rs \<Longrightarrow> length us \<le> cm_max_stack M \<Longrightarrow> length rs \<le> cm_max_stack M \<Longrightarrow> good_stacks M v"
  unfolding good_stacks_def by blast

lemma ck_step_keeps:
  assumes G: "git_ok G V vis pm" and s: "ck_step G V U M g g'" and S: "good_stacks M (V g)"
  shows "good_stacks M (V g') \<and> kept (V g) (V g')"
proof -
  obtain us rs where us: "stacks (V g) us rs" "length us \<le> cm_max_stack M" "length rs \<le> cm_max_stack M" using S unfolding good_stacks_def by blast
  show ?thesis using s
  proof cases
    case (ck_edit w)
    then have "stacks (V g') us rs" "kept (V g) (V g')" using us(1) by (simp_all add: stacks_def kept_def)
    then show ?thesis using us(2,3) by (blast intro: good_stacksI)
  next
    case (ck_snapshot label ts thread_id turn_index res)
    show ?thesis
      by (rule snapshot_outcome [OF G us(1), of M label ts thread_id turn_index])
        (use ck_snapshot us(2,3) in \<open>auto simp: refused_def intro: good_stacksI\<close>)
  next
    case (ck_undo ts thread_id es et res)
    show ?thesis
      by (rule undo_outcome [OF G us(1), of U M ts thread_id es et])
        (use ck_undo us(2,3) in \<open>auto simp: refused_def restored_def intro: good_stacksI split: option.splits\<close>)
  next
    case (ck_redo ts thread_id res)
    show ?thesis
      by (rule redo_outcome [OF G us(1), of U M ts thread_id])
        (use ck_redo us(2,3) in \<open>auto simp: refused_def restored_def intro: good_stacksI\<close>)
  next
    case (ck_restore sha ts res)
    then obtain m t where c: "commits (V g) sha = Some (m, t)" by auto
    show ?thesis
      by (rule restore_to_outcome [OF G us(1) c, of M ts])
        (use ck_restore us(2,3) in \<open>auto simp: refused_def restored_def intro: good_stacksI\<close>)
  qed
qed

lemma ck_reach_keeps:
  assumes G: "git_ok G V vis pm" and s: "(ck_step G V U M)\<^sup>*\<^sup>* g g'" and S: "good_stacks M (V g)"
  shows "good_stacks M (V g') \<and> kept (V g) (V g')"
  using s
proof (induction rule: rtranclp_induct)
  case base
  then show ?case using S by simp
next
  case (step y z)
  then show ?case using ck_step_keeps [OF G step.hyps(2)] kept_trans by blast
qed


text \<open>
  The loops over the stacks end: in every state a session can reach, a snapshot, an undo and a redo return a result, and an
  undo that is refused leaves both stacks as they were.
\<close>

theorem checkpoint_returns:
  assumes "git_ok G V vis pm" "good_stacks M (V g0)" "(ck_step G V U M)\<^sup>*\<^sup>* g0 g"
  shows "(\<exists>r g'. snapshot G M label ts thread_id turn_index g = Some (r, g')) \<and> (\<exists>r g'. redo G U M ts thread_id g = Some (r, g'))
    \<and> (\<exists>r g'. undo G U M ts thread_id expected_sha expected_tree g = Some (r, g')
         \<and> (case r of Inl e \<Rightarrow> \<exists>us rs. stacks (V g) us rs \<and> stacks (V g') us rs \<and> (work (V g') = work (V g) \<or> startswith e (u ''restore failed: ''))
            | Inr _ \<Rightarrow> True))"
proof -
  obtain us rs where S: "stacks (V g) us rs" using ck_reach_keeps [OF assms(1,3,2)] unfolding good_stacks_def by blast
  have "\<exists>r g'. snapshot G M label ts thread_id turn_index g = Some (r, g')"
    by (rule snapshot_outcome [OF assms(1) S, of M label ts thread_id turn_index]) blast+
  moreover have "\<exists>r g'. redo G U M ts thread_id g = Some (r, g')"
    by (rule redo_outcome [OF assms(1) S, of U M ts thread_id]) blast+
  moreover have "\<exists>r g'. undo G U M ts thread_id expected_sha expected_tree g = Some (r, g')
         \<and> (case r of Inl e \<Rightarrow> \<exists>us rs. stacks (V g) us rs \<and> stacks (V g') us rs \<and> (work (V g') = work (V g) \<or> startswith e (u ''restore failed: ''))
            | Inr _ \<Rightarrow> True)"
    by (rule undo_outcome [OF assms(1) S, of U M ts thread_id expected_sha expected_tree]) (use S in \<open>force simp: refused_def\<close>)+
  ultimately show ?thesis by blast
qed

section \<open>A small repository\<close>

text \<open>One visible file, \<^verbatim>\<open>a\<close>, an empty first commit at \<^verbatim>\<open>HEAD\<close> and an empty index. A commit is named by as many letters as there are
  commits, a tree by the file it holds.\<close>

record mini =
  mwork :: tree
  mrefs :: "pystr \<Rightarrow> pystr option"
  mlog :: "(pystr \<times> pystr option) list"
  mtmp :: "pystr option"

definition file_a :: pystr where "file_a = u ''a''"

definition one_file :: "pystr option \<Rightarrow> tree" where
  "one_file x = (\<lambda>p. if p = file_a then x else None)"

definition tree_name :: "pystr option \<Rightarrow> pystr" where
  "tree_name x = (case x of None \<Rightarrow> u ''t'' | Some s \<Rightarrow> u ''u'' @ s @ u ''.'')"

definition named_tree :: "pystr \<Rightarrow> pystr option option" where
  "named_tree t = (if t = u ''t'' then Some None else if t = [] \<or> hd t \<noteq> 117 \<or> length t < 2 \<or> last t \<noteq> 46 then None else Some (Some (butlast (tl t))))"

definition commit_name :: "nat \<Rightarrow> pystr" where
  "commit_name n = replicate (Suc n) 99"

definition head_name :: pystr where "head_name = u ''h''"

definition mini_commit :: "mini \<Rightarrow> pystr \<Rightarrow> (pystr \<times> pystr option) option" where
  "mini_commit g s = (if s = head_name then Some (u ''first'', None)
     else if s \<noteq> [] \<and> s = commit_name (length s - 1) \<and> length s \<le> length (mlog g) then Some (mlog g ! (length s - 1)) else None)"

definition okay :: "pystr \<Rightarrow> gres" where "okay s = \<lparr>rc = 0, gout = s, gerr = []\<rparr>"

definition failed :: gres where "failed = \<lparr>rc = 128, gout = [], gerr = u ''fatal''\<rparr>"

definition listing :: "pystr option \<Rightarrow> pystr" where
  "listing x = (if x = None then [] else file_a @ [10])"

definition mini_query :: "pystr list \<Rightarrow> mini \<Rightarrow> gres" where
  "mini_query args g =
     (if args = [u ''rev-parse'', u ''HEAD''] then okay head_name
      else if args = [u ''ls-files''] then okay []
      else if args = [u ''ls-files'', u ''--others'', u ''--exclude-standard''] then okay (listing (mwork g file_a))
      else if length args = 2 \<and> hd args = u ''rev-parse'' then (case mrefs g (args ! 1) of Some s \<Rightarrow> okay s | None \<Rightarrow> failed)
      else if length args = 3 \<and> hd args = u ''rev-parse'' then (if mrefs g (args ! 2) = None then failed else okay [])
      else if length args = 4 \<and> hd args = u ''ls-tree'' then (case mini_commit g (args ! 3) of Some (_, x) \<Rightarrow> okay (listing x) | None \<Rightarrow> failed)
      else if length args = 4 \<and> hd args = u ''log'' then (case mini_commit g (args ! 3) of Some (m, _) \<Rightarrow> okay m | None \<Rightarrow> failed)
      else failed)"

definition mini_run :: "pystr list \<Rightarrow> pystr option \<Rightarrow> mini \<Rightarrow> gres \<times> mini" where
  "mini_run args ix g =
     (if args = [] then (failed, g)
      else if hd args = u ''read-tree'' then (okay [], g\<lparr>mtmp := None\<rparr>)
      else if hd args = u ''add'' then (okay [], g\<lparr>mtmp := mwork g file_a\<rparr>)
      else if hd args = u ''reset'' \<and> length args = 4 then (okay [], if args ! 3 = file_a then g\<lparr>mtmp := None\<rparr> else g)
      else if hd args = u ''write-tree'' then (okay (tree_name (mtmp g)), g)
      else if hd args = u ''commit-tree'' \<and> length args = 6
        then (case named_tree (args ! 1) of
                None \<Rightarrow> (failed, g)
              | Some x \<Rightarrow> (okay (commit_name (length (mlog g))), g\<lparr>mlog := mlog g @ [(args ! 5, x)]\<rparr>))
      else if hd args = u ''update-ref'' \<and> length args = 3
        then (if args ! 1 = u ''-d'' then (okay [], g\<lparr>mrefs := (mrefs g)(args ! 2 := None)\<rparr>)
              else (okay [], g\<lparr>mrefs := (mrefs g)(args ! 1 := Some (args ! 2))\<rparr>))
      else if hd args = u ''restore'' \<and> length args = 5
        then (case mini_commit g (drop 9 (args ! 1)) of
                None \<Rightarrow> (failed, g)
              | Some (_, x) \<Rightarrow> (okay [], g\<lparr>mwork := (\<lambda>p. if p = file_a \<and> x \<noteq> None then x else mwork g p)\<rparr>))
      else (failed, g))"

definition mini_git :: "mini git" where
  "mini_git = \<lparr>query = mini_query, run = mini_run, unlink = (\<lambda>p g. g\<lparr>mwork := (mwork g)(p := None)\<rparr>), tmp_index = u ''/tmp/idx''\<rparr>"

definition mini_view :: "mini \<Rightarrow> repo" where
  "mini_view g = \<lparr>work = mwork g, tracked = {}, refs = (\<lambda>r. map_option strip_ws (mrefs g r)),
     commits = (\<lambda>s. map_option (\<lambda>(m, x). (m, one_file x)) (mini_commit g s)),
     objs = (\<lambda>t. map_option one_file (named_tree t)), headc = Some head_name, tmp = one_file (mtmp g)\<rparr>"

lemma mini_sel [simp]: "query mini_git = mini_query" "run mini_git = mini_run" "unlink mini_git p g = g\<lparr>mwork := (mwork g)(p := None)\<rparr>"
  by (simp_all add: mini_git_def)

lemma nth_ref_start: "stack_pfx pfx \<Longrightarrow> \<exists>xs. nth_ref pfx i = u ''refs/jarn/'' @ xs"
  by (auto simp: stack_pfx_def nth_ref_def UNDO_PREFIX_def REDO_PREFIX_def u_def)

lemma mini_commit_fields [simp]: "mini_commit (g\<lparr>mtmp := y\<rparr>) s = mini_commit g s" "mini_commit (g\<lparr>mwork := w\<rparr>) s = mini_commit g s"
  "mini_commit (g\<lparr>mrefs := f\<rparr>) s = mini_commit g s"
  by (simp_all add: mini_commit_def)

lemma own_ref_start: "stack_ref (u ''-d'') \<Longrightarrow> False" "u ''-d'' = snap_ref s \<Longrightarrow> False"
proof -
  assume "stack_ref (u ''-d'')"
  then obtain xs where "u ''-d'' = u ''refs/jarn/'' @ xs" unfolding stack_ref_def using nth_ref_start by metis
  then show False by (simp add: u_def)
qed (simp add: snap_ref_def u_def)

lemma head_name_ends: "head_name \<noteq> []" "hd head_name = 104" "last head_name = 104"
  by (simp_all add: head_name_def u_def)

lemma mini_commit_strip: "mini_commit g s = Some c \<Longrightarrow> strip_ws s = s \<and> s \<noteq> []"
proof -
  assume "mini_commit g s = Some c"
  then have "s = head_name \<or> s = commit_name (length s - 1)" by (auto simp: mini_commit_def split: if_splits)
  moreover have "\<not> isspace 99" "\<not> isspace 104" by (simp_all add: isspace_def)
  ultimately show ?thesis
    using strip_ws_ends [of s] last_replicate [of "Suc (length s - 1)" 99] by (metis (no_types, lifting) commit_name_def head_name_ends hd_replicate list.distinct(1) nat.distinct(1) replicate_Suc)
qed

lemma mini_refs_ok: "refs_ok mini_git mini_view"
  unfolding refs_ok_def
proof (intro conjI allI impI, goal_cases)
  case (1 r g)
  then obtain xs where "r = u ''refs/jarn/'' @ xs" unfolding stack_ref_def using nth_ref_start by blast
  then show ?case by (auto simp: read_ref_def mini_query_def mini_view_def okay_def failed_def u_def split: option.splits)
next
  case (2 r g)
  then obtain xs where "r = u ''refs/jarn/'' @ xs" unfolding stack_ref_def using nth_ref_start by blast
  then show ?case by (auto simp: ref_exists_def mini_query_def mini_view_def okay_def failed_def u_def split: option.splits)
next
  case (3 r s g)
  then have "r \<noteq> u ''-d''" by (auto dest: own_ref_start)
  then show ?case by (simp add: update_ref_def mini_run_def okay_def u_def)
next
  case (4 r s g)
  then have "r \<noteq> u ''-d''" by (auto dest: own_ref_start)
  moreover have "strip_ws s = s" using 4 mini_commit_strip by (auto simp: mini_view_def)
  ultimately show ?case by (intro repo.equality) (simp_all add: update_ref_def mini_run_def okay_def u_def mini_view_def fun_eq_iff)
next
  case (5 r g)
  then show ?case by (intro repo.equality) (simp_all add: delete_ref_def mini_run_def okay_def u_def mini_view_def fun_eq_iff)
next
  case (6 g)
  then show ?case by (simp add: mini_view_def mini_commit_def head_name_def u_def)
qed

lemma one_file_simps [simp]: "one_file None = Map.empty" "dom (one_file x) = (if x = None then {} else {file_a})" "one_file x file_a = x"
  by (auto simp: one_file_def split: if_splits)

lemma one_file_restrict: "w |` {file_a} = one_file (w file_a)"
  by (auto simp: one_file_def restrict_map_def)

lemma tree_name_strip [simp]: "strip_ws (tree_name x) = tree_name x"
  by (rule strip_ws_ends) (auto simp: tree_name_def u_def isspace_def split: option.splits)

lemma named_tree_name [simp]: "named_tree (tree_name x) = Some x"
  by (auto simp: named_tree_def tree_name_def u_def split: option.splits)

lemma commit_name_strip [simp]: "strip_ws (commit_name n) = commit_name n"
  by (rule strip_ws_ends) (simp_all add: commit_name_def isspace_def)

lemma mini_head [simp]: "head_tree (mini_view g) = Map.empty"
  by (simp add: head_tree_def mini_view_def mini_commit_def)

lemma commit_name_simps [simp]: "length (commit_name n) = Suc n" "commit_name n = commit_name k \<longleftrightarrow> n = k" "commit_name n \<noteq> []"
  "head_name \<noteq> commit_name n" "commit_name n \<noteq> head_name"
  by (simp_all add: commit_name_def head_name_def u_def)

lemma mini_commit_name: "mini_commit g (commit_name k) = (if k < length (mlog g) then Some (mlog g ! k) else None)"
  by (simp add: mini_commit_def Suc_le_eq)

lemma mini_commit_new: "mini_commit (g\<lparr>mlog := mlog g @ [c]\<rparr>) s = (if s = commit_name (length (mlog g)) then Some c else mini_commit g s)"
proof (cases "\<exists>k. s = commit_name k")
  case True
  then show ?thesis by (auto simp: mini_commit_name nth_append)
next
  case False
  then have "s \<noteq> commit_name k" for k by blast
  then show ?thesis by (simp add: mini_commit_def)
qed

lemma mini_build_ok: "build_ok mini_git mini_view {file_a} (=)"
  unfolding build_ok_def Let_def
proof (intro conjI allI impI, goal_cases)
  case (1 g)
  then show ?case by (simp add: get_head_sha_def mini_query_def okay_def mini_view_def) (simp add: head_name_def u_def strip_ws_ends isspace_def)
next
  case (2 g h)
  then show ?case by (auto simp: mini_view_def mini_commit_def)
next
  case (3 g)
  then show ?case by (simp add: ok_then_def mini_run_def okay_def) (simp add: mini_view_def)
next
  case (4 g)
  then show ?case by (simp add: ok_then_def mini_run_def okay_def u_def) (simp add: mini_view_def one_file_restrict)
next
  case (5 g rel)
  then show ?case by (intro repo.equality) (simp_all add: fun_eq_iff mini_run_def u_def, simp_all add: mini_view_def one_file_def)
next
  case (6 g)
  then show ?case by (simp add: ok_then_def mini_run_def okay_def u_def) (auto simp add: mini_view_def fun_eq_iff)
next
  case (7 g t h label T)
  then obtain x where x: "named_tree t = Some x" "T = one_file x" by (auto simp: mini_view_def)
  have new: "mini_commit g (commit_name (length (mlog g))) = None" by (simp add: mini_commit_name)
  have "mini_run [u ''commit-tree'', t, u ''-p'', h, u ''-m'', label] None g
      = (okay (commit_name (length (mlog g))), g\<lparr>mlog := mlog g @ [(label, x)]\<rparr>)"
    using x(1) by (simp add: mini_run_def u_def)
  then show ?case
    using x new by (auto simp: ok_then_def okay_def mini_view_def mini_commit_new fun_eq_iff)
qed

lemma lines_listing: "lines_of (okay (listing x)) = (if x = None then [] else [file_a])" "lines_of (okay []) = []"
  by (simp_all add: lines_of_def okay_def listing_def file_a_def u_def splitlines_def line_end_def)

lemma mini_list_tree: "mini_commit g s = Some (m, x) \<Longrightarrow> list_tree_paths mini_git s g = (if x = None then {} else {file_a})"
  using lines_listing(1) [of x] by (cases x) (simp_all add: list_tree_paths_def mini_query_def u_def, simp_all add: okay_def)

lemma mini_restore: "mini_commit g s = Some (m, x) \<Longrightarrow>
  mini_run [u ''restore'', u ''--source='' @ s, u ''--worktree'', u ''--'', u ''.''] None g
  = (okay [], g\<lparr>mwork := \<lambda>p. if p = file_a \<and> x \<noteq> None then x else mwork g p\<rparr>)"
  by (simp add: mini_run_def u_def)

lemma mini_apply_ok: "apply_ok mini_git mini_view {file_a}"
  unfolding apply_ok_def Let_def
proof (intro conjI allI impI, goal_cases)
  case (8 g p)
  then show ?case by (intro repo.equality) (simp_all add: mini_view_def)
next
  case (7 g s m t)
  then obtain x where x: "mini_commit g s = Some (m, x)" "t = one_file x" by (auto simp: mini_view_def)
  have w: "work (mini_view g) = mwork g" "tracked (mini_view g) = {}" by (simp_all add: mini_view_def)
  show ?case unfolding mini_sel mini_restore [OF x(1)] ok_then_def x(2) w
    by (simp add: okay_def) (auto simp: mini_view_def fun_eq_iff)
next
  case (6 g s m t)
  then obtain x where "mini_commit g s = Some (m, x)" "t = one_file x" by (auto simp: mini_view_def)
  then show ?case using mini_list_tree by simp
qed (auto simp: mini_query_def mini_view_def lines_listing [unfolded okay_def] u_def okay_def one_file_def split: if_splits)

lemma mini_git_ok: "git_ok mini_git mini_view {file_a} (=)"
  by (simp add: git_ok_def mini_refs_ok mini_build_ok mini_apply_ok)

lemma mini_messages_ok: "messages_ok mini_git mini_view"
  unfolding messages_ok_def
  by (auto simp: mini_view_def read_ref_message_def mini_query_def okay_def u_def)

text \<open>A session: the file is saved on turn 0 of thread \<^verbatim>\<open>A\<close>, edited, undone and redone.\<close>

definition ck_manager :: CheckpointManager where
  "ck_manager = \<lparr>cm_enabled = True, cm_is_repo = True, cm_max_stack = 20, cm_aliases = []\<rparr>"

definition ck_start :: mini where
  "ck_start = \<lparr>mwork = [file_a \<mapsto> u ''1''], mrefs = Map.empty, mlog = [], mtmp = None\<rparr>"

definition ck_saved :: "(pystr + pystr) \<times> mini" where
  "ck_saved = the (snapshot mini_git ck_manager (u ''turn'') 5 (Some (u ''A'')) (Some 0) ck_start)"

definition ck_edited :: mini where
  "ck_edited = (snd ck_saved)\<lparr>mwork := [file_a \<mapsto> u ''2'']\<rparr>"

definition ck_undone :: "(pystr + pystr) \<times> mini" where
  "ck_undone = the (undo mini_git ascii_uni ck_manager 6 (Some (u ''A'')) None None ck_edited)"

definition ck_redone :: "(pystr + pystr) \<times> mini" where
  "ck_redone = the (redo mini_git ascii_uni ck_manager 7 (Some (u ''A'')) (snd ck_undone))"

definition is_inr :: "'a + 'b \<Rightarrow> bool" where
  "is_inr x = (case x of Inr _ \<Rightarrow> True | Inl _ \<Rightarrow> False)"

lemma ck_session_runs: "is_inr (fst ck_saved) \<and> is_inr (fst ck_undone) \<and> is_inr (fst ck_redone)"
  by code_simp

lemma ck_session_file: "mwork (snd ck_undone) file_a = Some (u ''1'') \<and> mwork ck_edited file_a = Some (u ''2'')"
  by code_simp

lemma ck_start_stacks: "stacks (mini_view ck_start) [] []"
  by (simp add: stacks_def is_stack_def ck_start_def mini_view_def)

lemma ascii_digits_uni: "ascii_digits ascii_uni"
  by (simp add: ascii_digits_def ascii_uni_def)

lemma mini_ops: "x \<noteq> None \<Longrightarrow> is_inr (fst (the x)) \<Longrightarrow> \<exists>m. x = Some (Inr m, snd (the x))"
  by (auto simp: is_inr_def split: sum.splits)

lemma ck_saved_run:
  obtains full where "snapshot mini_git ck_manager (u ''turn'') 5 (Some (u ''A'')) (Some 0) ck_start = Some (Inr full, snd ck_saved)"
proof -
  have "snapshot mini_git ck_manager (u ''turn'') 5 (Some (u ''A'')) (Some 0) ck_start \<noteq> None"
    by (rule snapshot_outcome [OF mini_git_ok ck_start_stacks, of ck_manager "u ''turn''" 5 "Some (u ''A'')" "Some 0"]) simp_all
  then show ?thesis using that mini_ops ck_session_runs unfolding ck_saved_def by blast
qed

lemma ck_saved_good: "good_stacks ck_manager (mini_view ck_start)" "(ck_step mini_git mini_view U ck_manager)\<^sup>*\<^sup>* ck_start ck_edited"
proof -
  show "good_stacks ck_manager (mini_view ck_start)" by (rule good_stacksI [OF ck_start_stacks]) simp_all
  obtain full where "snapshot mini_git ck_manager (u ''turn'') 5 (Some (u ''A'')) (Some 0) ck_start = Some (Inr full, snd ck_saved)" by (rule ck_saved_run)
  then have "ck_step mini_git mini_view U ck_manager ck_start (snd ck_saved)" by (rule ck_snapshot)
  moreover have "mini_view ck_edited = mini_view (snd ck_saved)\<lparr>work := [file_a \<mapsto> u ''2'']\<rparr>" by (simp add: ck_edited_def mini_view_def)
  then have "ck_step mini_git mini_view U ck_manager (snd ck_saved) ck_edited" by (rule ck_edit)
  ultimately show "(ck_step mini_git mini_view U ck_manager)\<^sup>*\<^sup>* ck_start ck_edited" by (meson converse_rtranclp_into_rtranclp r_into_rtranclp)
qed

lemma mini_undo_returns:
  assumes "stacks (mini_view g) us rs"
  shows "undo mini_git U M ts t es et g \<noteq> None" "redo mini_git U M ts t g \<noteq> None"
  by (rule undo_outcome [OF mini_git_ok assms, of U M ts t es et]; simp) (rule redo_outcome [OF mini_git_ok assms, of U M ts t]; simp)


theorem undo_within_session_witness:
  "\<exists>e. undo mini_git ascii_uni ck_manager 6 (Some (u ''B'')) None None (snd ck_saved) = Some (Inl e, snd ck_saved)"
proof -
  obtain full where s: "snapshot mini_git ck_manager (u ''turn'') 5 (Some (u ''A'')) (Some 0) ck_start = Some (Inr full, snd ck_saved)"
    by (rule ck_saved_run)
  show ?thesis
    by (rule undo_within_session [OF mini_git_ok mini_messages_ok ascii_digits_uni ck_start_stacks _ _ _ _ _ _ s])
      (simp_all add: ck_manager_def plain_thread_def u_def isspace_def)
qed


theorem checkpoint_returns_witness:
  "\<exists>r g'. undo mini_git ascii_uni ck_manager 6 (Some (u ''A'')) None None ck_edited = Some (r, g')"
proof -
  show ?thesis
    using checkpoint_returns [OF mini_git_ok ck_saved_good, where U = ascii_uni and ts = 6 and thread_id = "Some (u ''A'')" and expected_sha = None
        and expected_tree = None, THEN conjunct2, THEN conjunct2]
    by (elim exE conjE) (intro exI)
qed

end
