(* ===== verification/Telegram.thy ===== *)
theory Telegram
  imports Approvals
begin

text \<open>
  The inbound half of the Telegram transport: who may talk to the bot (\<^verbatim>\<open>src/src/jarn/telegram/auth.py\<close>), the texts and
  buttons it sends (\<^verbatim>\<open>htmlutil.py\<close> and the callback codec and cards of \<^verbatim>\<open>outbox.py\<close>) and what an update makes the
  bot do (\<^verbatim>\<open>bot.py\<close>). An update is the JSON object of the Bot API; a missing member and \<^verbatim>\<open>null\<close> are the same to the
  code. A handled update gives the list of its effects, in order. The answers of the backend and the media download
  are not modelled: an authorized message is the effect \<open>HandleMessage\<close>.
\<close>

section \<open>Text\<close>

definition TELEGRAM_MESSAGE_MAX :: nat where "TELEGRAM_MESSAGE_MAX = 4096"

definition CHUNK :: nat where "CHUNK = 3900"

definition escape_html :: "pystr \<Rightarrow> pystr" where
  "escape_html s = concat (map (\<lambda>c. if c = 38 then u ''&amp;'' else if c = 60 then u ''&lt;'' else if c = 62 then u ''&gt;'' else [c]) s)"

text \<open>\<^verbatim>\<open>str.rfind\<close> of one character, \<open>None\<close> for -1\<close>

fun rfind_chr :: "int \<Rightarrow> pystr \<Rightarrow> nat option" where
  "rfind_chr c [] = None"
| "rfind_chr c (x # xs) = (case rfind_chr c xs of Some i \<Rightarrow> Some (Suc i) | None \<Rightarrow> if x = c then Some 0 else None)"

definition break_pos :: "pystr \<Rightarrow> nat \<Rightarrow> nat" where
  "break_pos window limit =
     (let q = limit div 4
      in case rfind_chr 10 window of
           Some b \<Rightarrow> if b < q then (case rfind_chr 32 window of Some s \<Rightarrow> if s < q then limit else s | None \<Rightarrow> limit) else b
         | None \<Rightarrow> (case rfind_chr 32 window of Some s \<Rightarrow> if s < q then limit else s | None \<Rightarrow> limit))"

partial_function (option) chunks :: "pystr \<Rightarrow> nat \<Rightarrow> pystr list option" where
  "chunks remaining limit =
     (if remaining = [] then Some []
      else if length remaining \<le> limit then Some [remaining]
      else (let b = break_pos (take limit remaining) limit;
                piece = rstrip_with (\<lambda>c. c = 10) (take b remaining);
                (piece1, b1) = (if piece = [] then (take limit remaining, limit) else (piece, b))
            in Option.bind (chunks (lstrip_with (\<lambda>c. c = 10) (drop b1 remaining)) limit) (\<lambda>ps. Some (piece1 # ps))))"

declare chunks.simps [code]

definition chunk_html :: "pystr \<Rightarrow> nat \<Rightarrow> pystr list option" where
  "chunk_html s limit =
     (if s = [] then Some [[]]
      else if length s \<le> limit then Some [s]
      else chunks s (if limit \<ge> CHUNK then min limit CHUNK else limit))"

section \<open>Callback buttons\<close>

definition CB_MAX :: nat where "CB_MAX = 64"

text \<open>The length of the UTF-8 encoding, which fails on a surrogate\<close>

definition utf8_chr :: "int \<Rightarrow> nat option" where
  "utf8_chr c = (if c < 128 then Some 1 else if c < 2048 then Some 2 else if 55296 \<le> c \<and> c \<le> 57343 then None else if c < 65536 then Some 3 else Some 4)"

fun utf8_len :: "pystr \<Rightarrow> nat option" where
  "utf8_len [] = Some 0"
| "utf8_len (c # s) = (case (utf8_chr c, utf8_len s) of (Some a, Some b) \<Rightarrow> Some (a + b) | _ \<Rightarrow> None)"

datatype cb_error = IndexErr | ValueErr

definition encode_callback :: "pystr \<Rightarrow> pystr \<Rightarrow> pystr \<Rightarrow> cb_error + pystr" where
  "encode_callback kd token act =
     (case kd of
        [] \<Rightarrow> Inl IndexErr
      | k # _ \<Rightarrow> (let payload = k # 58 # token @ 58 # act
          in case utf8_len payload of None \<Rightarrow> Inl ValueErr | Some n \<Rightarrow> if n > CB_MAX then Inl ValueErr else Inr payload))"

record CallbackKind =
  cb_kind :: pystr
  cb_token :: pystr
  cb_action :: pystr

definition kind_map :: "(pystr, pystr) pydict" where
  "kind_map = map (\<lambda>(a, b). (u a, u b)) [(''t'', ''tool''), (''m'', ''memory''), (''s'', ''skill''), (''p'', ''plan''), (''y'', ''yolo''), (''u'', ''undo'')]"

text \<open>\<^verbatim>\<open>data.split(":", 2)\<close> when it gives three parts\<close>

definition split3 :: "pystr \<Rightarrow> (pystr \<times> pystr \<times> pystr) option" where
  "split3 s = (let a = before_first 58 s; r = drop (Suc (length a)) s; b = before_first 58 r
     in if 58 \<in> set s \<and> 58 \<in> set r then Some (a, b, drop (Suc (length b)) r) else None)"

definition parse_callback :: "pystr \<Rightarrow> CallbackKind option" where
  "parse_callback data = (case split3 data of
       None \<Rightarrow> None
     | Some (pfx, token, act) \<Rightarrow>
         (case dget kind_map pfx of
            None \<Rightarrow> None
          | Some kd \<Rightarrow> if token = [] then None else Some \<lparr>cb_kind = kd, cb_token = token, cb_action = act\<rparr>))"

text \<open>The payloads of the buttons of a card, from the left\<close>

datatype card_kind = MemoryCard | SkillCard | PlanCard | ToolCard | YoloCard | UndoCard

definition card_buttons :: "card_kind \<Rightarrow> pystr \<times> pystr list" where
  "card_buttons k = (case k of
       MemoryCard \<Rightarrow> (u ''m'', map u [''save'', ''decline''])
     | SkillCard \<Rightarrow> (u ''s'', map u [''save'', ''decline''])
     | PlanCard \<Rightarrow> (u ''p'', map u [''auto-edit'', ''ask'', ''keep''])
     | ToolCard \<Rightarrow> (u ''t'', map u [''once'', ''session'', ''deny''])
     | YoloCard \<Rightarrow> (u ''y'', map u [''ok'', ''no''])
     | UndoCard \<Rightarrow> (u ''u'', map u [''ok'', ''no'']))"

section \<open>Who may talk\<close>

definition field :: "string \<Rightarrow> json \<Rightarrow> json" where
  "field k j = (case j of JObj d \<Rightarrow> aget d k | _ \<Rightarrow> JNull)"

definition is_private_chat :: "pyuni \<Rightarrow> json \<Rightarrow> bool" where
  "is_private_chat U chat \<longleftrightarrow> chat \<noteq> JNull \<and> py_str U (field ''type'' chat) = u ''private''"

definition sender_of :: "pyuni \<Rightarrow> json \<Rightarrow> json" where
  "sender_of U obj = (if truthy U (field ''from_user'' obj) then field ''from_user'' obj else field ''from'' obj)"

fun principal_in :: "pyuni \<Rightarrow> string list \<Rightarrow> json \<Rightarrow> int option" where
  "principal_in U [] upd = None"
| "principal_in U (attr # attrs) upd =
     (if field attr upd = JNull then principal_in U attrs upd
      else (case field ''id'' (sender_of U (field attr upd)) of JInt i \<Rightarrow> Some i | _ \<Rightarrow> None))"

definition principal_from_update :: "pyuni \<Rightarrow> json \<Rightarrow> int option" where
  "principal_from_update U upd = principal_in U [''callback_query'', ''message'', ''edited_message''] upd"

definition chat_from_update :: "json \<Rightarrow> json" where
  "chat_from_update upd =
     (let msg = field ''message'' (field ''callback_query'' upd)
      in if msg \<noteq> JNull then field ''chat'' msg
         else if field ''message'' upd \<noteq> JNull then field ''chat'' (field ''message'' upd)
         else field ''chat'' (field ''edited_message'' upd))"

datatype reject = not_private | no_principal | not_allowed

record AuthDecision =
  au_ok :: bool
  au_user :: "int option"
  au_chat :: json
  au_reason :: "reject option"

definition authorize_update :: "pyuni \<Rightarrow> json \<Rightarrow> int list \<Rightarrow> AuthDecision" where
  "authorize_update U upd allowed =
     (let chat = chat_from_update upd; cid = field ''id'' chat
      in if \<not> is_private_chat U chat then \<lparr>au_ok = False, au_user = None, au_chat = cid, au_reason = Some not_private\<rparr>
         else (case principal_from_update U upd of
             None \<Rightarrow> \<lparr>au_ok = False, au_user = None, au_chat = cid, au_reason = Some no_principal\<rparr>
           | Some i \<Rightarrow> if i \<notin> set allowed then \<lparr>au_ok = False, au_user = Some i, au_chat = cid, au_reason = Some not_allowed\<rparr>
                       else \<lparr>au_ok = True, au_user = Some i, au_chat = cid, au_reason = None\<rparr>))"

section \<open>What an update does\<close>

record Verdict =
  vd_token :: pystr
  vd_approved :: bool
  vd_scope :: pystr
  vd_target :: "pystr option"
  vd_message :: pystr
  vd_kind :: pystr

datatype effect =
    AnswerCallback json
  | SettleCard json int pystr pystr
  | SubmitVerdict json int Verdict
  | HandleMessage json int json

definition callback_verdict :: "CallbackKind \<Rightarrow> Verdict" where
  "callback_verdict p =
     (let a = cb_action p; k = cb_kind p;
          v = (\<lambda>ok scope tgt msg. \<lparr>vd_token = cb_token p, vd_approved = ok, vd_scope = scope, vd_target = tgt, vd_message = msg, vd_kind = k\<rparr>)
      in if k \<in> {u ''yolo'', u ''undo''} then v (a = u ''ok'') (u ''once'') None []
         else if k = u ''tool'' then
           (let ok = (a \<in> {u ''once'', u ''session''})
            in v ok (if ok \<and> a = u ''session'' then u ''session'' else u ''once'') None (if ok then [] else u ''denied by operator''))
         else if k \<in> {u ''memory'', u ''skill''} then v (a = u ''save'') (u ''once'') None (if a = u ''save'' then [] else u ''declined'')
         else if a = u ''keep'' then v False (u ''once'') None (u ''keep planning'')
         else v True (u ''once'') (Some (if a = u ''auto-edit'' then u ''auto-edit'' else u ''ask'')) [])"

definition settle_callback_card :: "pyuni \<Rightarrow> json \<Rightarrow> json \<Rightarrow> effect list" where
  "settle_callback_card U cb chat =
     (let msg = field ''message'' cb; or_empty = (\<lambda>j. if truthy U j then py_str U j else [])
      in case field ''message_id'' msg of
           JInt mid \<Rightarrow> [SettleCard chat mid (or_empty (field ''html_text'' msg)) (or_empty (field ''text'' msg))]
         | _ \<Rightarrow> [])"

definition handle_callback :: "pyuni \<Rightarrow> json \<Rightarrow> json \<Rightarrow> int \<Rightarrow> effect list" where
  "handle_callback U cb chat user =
     (if field ''id'' cb = JNull then [] else [AnswerCallback (field ''id'' cb)])
   @ (case (case field ''data'' cb of JStr s \<Rightarrow> parse_callback s | _ \<Rightarrow> None) of
        None \<Rightarrow> []
      | Some p \<Rightarrow> settle_callback_card U cb chat @ [SubmitVerdict chat user (callback_verdict p)])"

text \<open>\<open>None\<close> is the failed assertion on a chat without an id.\<close>

definition handle_update :: "pyuni \<Rightarrow> int list \<Rightarrow> json \<Rightarrow> effect list option" where
  "handle_update U allowed upd =
     (let d = authorize_update U upd allowed
      in if \<not> au_ok d then Some []
         else (case (au_user d, au_chat d) of
             (Some i, JNull) \<Rightarrow> None
           | (None, _) \<Rightarrow> None
           | (Some i, chat) \<Rightarrow>
               (let cb = field ''callback_query'' upd;
                    msg = (if truthy U (field ''message'' upd) then field ''message'' upd else field ''edited_message'' upd)
                in Some (if cb \<noteq> JNull then handle_callback U cb chat i
                         else if msg = JNull then [] else [HandleMessage chat i msg]))))"

section \<open>Polling\<close>

text \<open>The server keeps updates in the order of their numbers; \<^verbatim>\<open>getUpdates\<close> returns a page of those from the offset on.
  \<open>fails k\<close> says that the request for page \<open>k\<close> of the backlog raises an error other than a refused token, and \<open>srv k\<close> is what the server has
  received when that request reaches it: updates may arrive during the drain. The result is the offset and the updates of the report; the
  report that is sent to the operator counts them all and describes the first 50.\<close>

type_synonym update = "int \<times> json"

definition get_updates :: "nat \<Rightarrow> int option \<Rightarrow> update list \<Rightarrow> update list" where
  "get_updates limit offset srv = take limit (filter (\<lambda>w. case offset of None \<Rightarrow> True | Some k \<Rightarrow> k \<le> fst w) srv)"

definition next_offset :: "int option \<Rightarrow> update list \<Rightarrow> int option" where
  "next_offset offset page = (if page = [] then offset else Some (fst (last page) + 1))"

partial_function (option) drain_backlog :: "(nat \<Rightarrow> bool) \<Rightarrow> (nat \<Rightarrow> update list) \<Rightarrow> nat \<Rightarrow> int option \<Rightarrow> (int option \<times> update list) option" where
  "drain_backlog fails srv k offset =
     (if fails k then Some (offset, [])
      else (let page = get_updates 100 offset (srv k); offset1 = next_offset offset page
            in if length page < 100 then Some (offset1, page)
               else Option.bind (drain_backlog fails srv (Suc k) offset1) (\<lambda>(w, rest). Some (w, page @ rest))))"

declare drain_backlog.simps [code]

text \<open>The successful rounds of the poll loop, each with what the server then holds, and the updates handled in them\<close>

fun poll_loop :: "int option \<Rightarrow> update list list \<Rightarrow> update list \<times> int option" where
  "poll_loop offset [] = ([], offset)"
| "poll_loop offset (srv # srvs) =
     (let page = get_updates 100 offset srv; (rest, w) = poll_loop (next_offset offset page) srvs in (page @ rest, w))"

section \<open>Pieces of a message\<close>

lemma rfind_chr_less: "rfind_chr c s = Some i \<Longrightarrow> i < length s"
  by (induction s arbitrary: i) (auto split: option.splits if_splits)

lemma break_pos_le: "length window \<le> limit \<Longrightarrow> break_pos window limit \<le> limit"
  unfolding break_pos_def Let_def by (auto split: option.split dest!: rfind_chr_less)

lemma strip_keeps: "filter (\<lambda>c. c \<noteq> x) (lstrip_with (\<lambda>c. c = x) s) = filter (\<lambda>c. c \<noteq> x) s"
  "filter (\<lambda>c. c \<noteq> x) (rstrip_with (\<lambda>c. c = x) s) = filter (\<lambda>c. c \<noteq> x) s"
proof -
  show l: "filter (\<lambda>c. c \<noteq> x) (lstrip_with (\<lambda>c. c = x) s) = filter (\<lambda>c. c \<noteq> x) s" for s :: pystr
    unfolding lstrip_with_def by (induction s) auto
  show "filter (\<lambda>c. c \<noteq> x) (rstrip_with (\<lambda>c. c = x) s) = filter (\<lambda>c. c \<noteq> x) s"
    using l [of "rev s"] by (simp add: rstrip_with_def lstrip_with_def rev_filter [symmetric])
qed

lemma strip_length: "length (lstrip_with P s) \<le> length s" "length (rstrip_with P s) \<le> length s"
  using length_dropWhile_le [of P s] length_dropWhile_le [of P "rev s"] by (simp_all add: lstrip_with_def rstrip_with_def)

text \<open>A piece and where it ends: the piece is not empty and holds all but the newlines of what it stands for.\<close>

lemma chunk_step:
  assumes "limit < length s" "0 < limit"
  defines "b \<equiv> break_pos (take limit s) limit"
  defines "q \<equiv> rstrip_with (\<lambda>c. c = 10) (take b s)"
  obtains p n where "(if q = [] then (take limit s, limit) else (q, b)) = (p, n)" "p \<noteq> []" "length p \<le> limit" "0 < n" "n \<le> limit"
    "filter (\<lambda>c. c \<noteq> 10) p = filter (\<lambda>c. c \<noteq> 10) (take n s)"
proof (cases "q = []")
  case True
  moreover have "s \<noteq> []" using assms(1) by auto
  ultimately show ?thesis using that [of "take limit s" limit] assms(1,2) by simp
next
  case False
  have "b \<le> limit" unfolding b_def by (rule break_pos_le) simp
  moreover have "length q \<le> b" unfolding q_def using strip_length(2) [of "\<lambda>c. c = 10" "take b s"] by simp
  moreover have "filter (\<lambda>c. c \<noteq> 10) q = filter (\<lambda>c. c \<noteq> 10) (take b s)" unfolding q_def by (rule strip_keeps)
  ultimately show ?thesis using that [of q b] False by (cases b) auto
qed

lemma chunks_ok:
  assumes "0 < limit"
  shows "\<exists>ps. chunks s limit = Some ps \<and> (s \<noteq> [] \<longrightarrow> ps \<noteq> []) \<and> (\<forall>p\<in>set ps. p \<noteq> [] \<and> length p \<le> limit) \<and> filter (\<lambda>c. c \<noteq> 10) (concat ps) = filter (\<lambda>c. c \<noteq> 10) s"
proof (induction "length s" arbitrary: s rule: less_induct)
  case less
  show ?case
  proof (cases "length s \<le> limit")
    case True
    then show ?thesis by (subst chunks.simps) simp
  next
    case False
    let ?b = "break_pos (take limit s) limit"
    obtain p n where p: "(if rstrip_with (\<lambda>c. c = 10) (take ?b s) = [] then (take limit s, limit)
        else (rstrip_with (\<lambda>c. c = 10) (take ?b s), ?b)) = (p, n)" "p \<noteq> []" "length p \<le> limit" "0 < n" "n \<le> limit"
      "filter (\<lambda>c. c \<noteq> 10) p = filter (\<lambda>c. c \<noteq> 10) (take n s)"
      using chunk_step [of limit s] False assms by auto
    let ?r = "lstrip_with (\<lambda>c. c = 10) (drop n s)"
    have "length ?r < length s" using strip_length(1) [of "\<lambda>c. c = 10" "drop n s"] p(4) False assms by simp
    then obtain ps where ps: "chunks ?r limit = Some ps" "\<forall>p\<in>set ps. p \<noteq> [] \<and> length p \<le> limit"
      "filter (\<lambda>c. c \<noteq> 10) (concat ps) = filter (\<lambda>c. c \<noteq> 10) ?r" using less by blast
    have "chunks s limit = Some (p # ps)" using False p(1) ps(1) by (subst chunks.simps) (auto simp: Let_def)
    moreover have "filter (\<lambda>c. c \<noteq> 10) (concat (p # ps)) = filter (\<lambda>c. c \<noteq> 10) s"
      using p(6) ps(3) strip_keeps(1) [of 10 "drop n s"] by (metis concat.simps(2) filter_append append_take_drop_id)
    ultimately show ?thesis using ps(2) p(2,3) by (intro exI [of _ "p # ps"]) simp
  qed
qed

text \<open>
  Cutting a text into messages always ends, every piece is within Telegram's limit of 4096 characters, and nothing of the text
  is lost or changed but newlines at the cuts.
\<close>

theorem chunk_html_pieces:
  "\<exists>ps. chunk_html s TELEGRAM_MESSAGE_MAX = Some ps \<and> ps \<noteq> [] \<and> list_all (\<lambda>p. length p \<le> TELEGRAM_MESSAGE_MAX) ps
     \<and> filter (\<lambda>c. c \<noteq> 10) (concat ps) = filter (\<lambda>c. c \<noteq> 10) s"
proof (cases "length s \<le> TELEGRAM_MESSAGE_MAX")
  case True
  then show ?thesis by (auto simp: chunk_html_def)
next
  case False
  then have s: "s \<noteq> []" by auto
  obtain ps where ps: "chunks s CHUNK = Some ps" "ps \<noteq> []" "\<forall>p\<in>set ps. p \<noteq> [] \<and> length p \<le> CHUNK"
    "filter (\<lambda>c. c \<noteq> 10) (concat ps) = filter (\<lambda>c. c \<noteq> 10) s" using chunks_ok [of CHUNK s] s by (auto simp: CHUNK_def)
  have "chunk_html s TELEGRAM_MESSAGE_MAX = Some ps" using False s ps(1) by (simp add: chunk_html_def TELEGRAM_MESSAGE_MAX_def CHUNK_def)
  moreover have "list_all (\<lambda>p. length p \<le> TELEGRAM_MESSAGE_MAX) ps"
    using ps(3) by (fastforce simp: list_all_iff TELEGRAM_MESSAGE_MAX_def CHUNK_def)
  ultimately show ?thesis using ps(2,4) by blast
qed

section \<open>Buttons\<close>

lemma before_first_mid: "c \<notin> set xs \<Longrightarrow> before_first c (xs @ c # ys) = xs"
  unfolding before_first_def by (induction xs) auto

lemma split3_payload: "58 \<notin> set token \<Longrightarrow> k \<noteq> 58 \<Longrightarrow> split3 (k # 58 # token @ 58 # act) = Some ([k], token, act)"
  using before_first_mid [of 58 "[k]" "token @ 58 # act"] before_first_mid [of 58 token act] by (simp add: split3_def Let_def)

lemma encode_payload:
  "encode_callback (k # ks) token act = Inr payload \<longleftrightarrow>
     payload = k # 58 # token @ 58 # act \<and> (\<exists>n. utf8_len payload = Some n \<and> n \<le> CB_MAX)"
  by (auto simp: encode_callback_def Let_def split: option.splits)

text \<open>The buttons that say yes\<close>

definition card_yes :: "card_kind \<Rightarrow> pystr list" where
  "card_yes k = (case k of MemoryCard \<Rightarrow> [u ''save''] | SkillCard \<Rightarrow> [u ''save''] | PlanCard \<Rightarrow> [u ''auto-edit'', u ''ask'']
     | ToolCard \<Rightarrow> [u ''once'', u ''session''] | YoloCard \<Rightarrow> [u ''ok''] | UndoCard \<Rightarrow> [u ''ok''])"

definition card_name :: "card_kind \<Rightarrow> pystr" where
  "card_name k = u (case k of MemoryCard \<Rightarrow> ''memory'' | SkillCard \<Rightarrow> ''skill'' | PlanCard \<Rightarrow> ''plan'' | ToolCard \<Rightarrow> ''tool'' | YoloCard \<Rightarrow> ''yolo'' | UndoCard \<Rightarrow> ''undo'')"

lemma card_verdict:
  fixes token :: pystr
  assumes "a \<in> set (snd (card_buttons k))"
  defines "v \<equiv> callback_verdict \<lparr>cb_kind = card_name k, cb_token = token, cb_action = a\<rparr>"
  shows "vd_approved v \<longleftrightarrow> a \<in> set (card_yes k)" "vd_scope v = (if k = ToolCard \<and> a = u ''session'' then u ''session'' else u ''once'')"
    "vd_token v = token" "vd_kind v = card_name k"
  using assms by (cases k; auto simp: card_buttons_def callback_verdict_def card_yes_def card_name_def u_def)+

text \<open>
  A button that a card carries fits the 64 bytes of Telegram, and tapping it is read back as the token and the answer it stands
  for: it approves exactly when it is one of the yes buttons, and it asks to remember for at most the session.
\<close>

theorem card_tap:
  assumes "58 \<notin> set token" "token \<noteq> []" and "a \<in> set (snd (card_buttons k))"
    and "encode_callback (fst (card_buttons k)) token a = Inr payload"
  shows "\<exists>p n. parse_callback payload = Some p \<and> utf8_len payload = Some n \<and> n \<le> 64
    \<and> vd_token (callback_verdict p) = token \<and> vd_kind (callback_verdict p) = card_name k
    \<and> (vd_approved (callback_verdict p) \<longleftrightarrow> a \<in> set (card_yes k))
    \<and> vd_scope (callback_verdict p) = (if k = ToolCard \<and> a = u ''session'' then u ''session'' else u ''once'')"
proof -
  let ?p = "\<lparr>cb_kind = card_name k, cb_token = token, cb_action = a\<rparr>"
  obtain c where c: "fst (card_buttons k) = [c]" "c \<noteq> 58" "dget kind_map [c] = Some (card_name k)"
    by (cases k) (simp_all add: card_buttons_def kind_map_def card_name_def u_def)
  have pay: "payload = c # 58 # token @ 58 # a" "\<exists>n. utf8_len payload = Some n \<and> n \<le> 64"
    using assms(4) unfolding c(1) encode_payload CB_MAX_def by blast+
  have "parse_callback payload = Some ?p" using split3_payload [OF assms(1) c(2), of a] c(3) assms(2) pay(1) by (simp add: parse_callback_def)
  then show ?thesis using card_verdict [OF assms(3), of token] pay(2) by blast
qed

theorem card_tap_witness:
  "\<exists>p n. parse_callback (u ''t:ab:session'') = Some p \<and> utf8_len (u ''t:ab:session'') = Some n \<and> n \<le> 64
    \<and> vd_token (callback_verdict p) = u ''ab'' \<and> vd_kind (callback_verdict p) = card_name ToolCard
    \<and> (vd_approved (callback_verdict p) \<longleftrightarrow> u ''session'' \<in> set (card_yes ToolCard))
    \<and> vd_scope (callback_verdict p) = (if ToolCard = ToolCard \<and> u ''session'' = u ''session'' then u ''session'' else u ''once'')"
proof (rule card_tap)
  show "58 \<notin> set (u ''ab'')" "u ''ab'' \<noteq> []" "u ''session'' \<in> set (snd (card_buttons ToolCard))" by (simp_all add: u_def card_buttons_def)
  show "encode_callback (fst (card_buttons ToolCard)) (u ''ab'') (u ''session'') = Inr (u ''t:ab:session'')" by code_simp
qed

section \<open>Authority\<close>

definition effect_user :: "effect \<Rightarrow> int option" where
  "effect_user e = (case e of SubmitVerdict _ i _ \<Rightarrow> Some i | HandleMessage _ i _ \<Rightarrow> Some i | _ \<Rightarrow> None)"

lemma authorize_ok: "au_ok (authorize_update U upd allowed) \<longleftrightarrow>
    is_private_chat U (chat_from_update upd) \<and> (\<exists>i. principal_from_update U upd = Some i \<and> i \<in> set allowed)"
  "au_ok (authorize_update U upd allowed) \<Longrightarrow> au_user (authorize_update U upd allowed) = principal_from_update U upd"
  by (auto simp: authorize_update_def Let_def split: option.splits if_splits)

lemma handle_callback_user: "e \<in> set (handle_callback U cb chat i) \<Longrightarrow> effect_user e = None \<or> effect_user e = Some i"
  by (auto simp: handle_callback_def settle_callback_card_def Let_def effect_user_def split: option.splits json.splits if_splits)

lemma handle_update_effects:
  assumes "handle_update U allowed upd = Some es" "es \<noteq> []"
  obtains i where "principal_from_update U upd = Some i" "i \<in> set allowed" "is_private_chat U (chat_from_update upd)"
    "\<And>e. e \<in> set es \<Longrightarrow> effect_user e = None \<or> effect_user e = Some i"
proof -
  have ok: "au_ok (authorize_update U upd allowed)" using assms by (auto simp: handle_update_def Let_def split: if_splits)
  then obtain i where i: "principal_from_update U upd = Some i" "i \<in> set allowed" "is_private_chat U (chat_from_update upd)"
    using authorize_ok(1) by blast
  have "effect_user e = None \<or> effect_user e = Some i" if "e \<in> set es" for e
    using assms(1) that ok authorize_ok(2) [OF ok] i(1) handle_callback_user [of e U]
    by (auto simp: handle_update_def Let_def effect_user_def split: json.splits if_splits)
  then show ?thesis using that i by blast
qed

text \<open>
  Who stands behind an update, read off the Bot API object alone: the tap of a button or a message carries its sender in \<^verbatim>\<open>from_user\<close>
  or \<^verbatim>\<open>from\<close>, whatever the number of the chat it came through. A tap belongs to the chat of the card it was made on; where Telegram sends no
  card with it, to the chat of the message beside it.
\<close>

definition sent_by :: "int \<Rightarrow> json \<Rightarrow> bool" where
  "sent_by i obj \<longleftrightarrow> (\<exists>d k p. obj = JObj d \<and> k \<in> {''from_user'', ''from''} \<and> aget d k = JObj p \<and> aget p ''id'' = JInt i)"

definition in_private :: "pyuni \<Rightarrow> json \<Rightarrow> json \<Rightarrow> bool" where
  "in_private U cid msg \<longleftrightarrow> (\<exists>d c. msg = JObj d \<and> aget d ''chat'' = c \<and> c \<noteq> JNull \<and> py_str U (field ''type'' c) = u ''private'' \<and> field ''id'' c = cid)"

definition plain_message :: "(pystr \<times> json) list \<Rightarrow> json" where
  "plain_message d = (if aget d ''message'' = JNull then aget d ''edited_message'' else aget d ''message'')"

inductive from_operator :: "pyuni \<Rightarrow> json \<Rightarrow> int \<Rightarrow> json \<Rightarrow> bool" for U where
  text_message: "\<lbrakk>aget d ''callback_query'' = JNull; sent_by i (plain_message d); in_private U cid (plain_message d)\<rbrakk>
    \<Longrightarrow> from_operator U (JObj d) i cid"
| tap_on_card: "\<lbrakk>aget d ''callback_query'' = JObj cb; sent_by i (JObj cb); in_private U cid (aget cb ''message'')\<rbrakk>
    \<Longrightarrow> from_operator U (JObj d) i cid"
| tap_without_card: "\<lbrakk>aget d ''callback_query'' = JObj cb; sent_by i (JObj cb); aget cb ''message'' = JNull; in_private U cid (plain_message d)\<rbrakk>
    \<Longrightarrow> from_operator U (JObj d) i cid"

definition effect_chat :: "effect \<Rightarrow> json option" where
  "effect_chat e = (case e of SettleCard c _ _ _ \<Rightarrow> Some c | SubmitVerdict c _ _ \<Rightarrow> Some c | HandleMessage c _ _ \<Rightarrow> Some c | _ \<Rightarrow> None)"

lemma field_obj: "field k x \<noteq> JNull \<Longrightarrow> \<exists>d. x = JObj d \<and> field k x = aget d k"
  by (cases x) (simp_all add: field_def)

lemma field_JObj [simp]: "field k (JObj d) = aget d k"
  by (simp add: field_def)

lemma field_JNull [simp]: "field k JNull = JNull"
  by (simp add: field_def)

lemma id_of_sender: "field ''id'' (sender_of U obj) = JInt i \<Longrightarrow> sent_by i obj"
proof -
  assume a: "field ''id'' (sender_of U obj) = JInt i"
  obtain k where k: "k \<in> {''from_user'', ''from''}" "sender_of U obj = field k obj" unfolding sender_of_def by (metis insertCI)
  obtain p where p: "field k obj = JObj p" "aget p ''id'' = JInt i" using field_obj [of "''id''" "field k obj"] a k(2) by auto
  then obtain d where "obj = JObj d" "aget d k = JObj p" using field_obj [of k obj] by auto
  then show "sent_by i obj" using k(1) p(2) unfolding sent_by_def by blast
qed

lemma private_field:
  assumes "is_private_chat U (field ''chat'' m)"
  shows "in_private U (field ''id'' (field ''chat'' m)) m"
  using assms field_obj [of "''chat''" m] unfolding is_private_chat_def in_private_def by auto

lemma authorized_from_operator:
  assumes i: "principal_from_update U upd = Some i" and pr: "is_private_chat U (chat_from_update upd)"
  shows "from_operator U upd i (field ''id'' (chat_from_update upd))"
proof -
  obtain k where "field k upd \<noteq> JNull" using i by (auto simp: principal_from_update_def split: if_splits)
  then obtain d where d: "upd = JObj d" using field_obj by blast
  show ?thesis
  proof (cases "aget d ''callback_query'' = JNull")
    case True
    have "sent_by i (plain_message d)"
      using i True id_of_sender unfolding d principal_from_update_def plain_message_def by (auto split: if_splits json.splits)
    moreover have "chat_from_update upd = field ''chat'' (plain_message d)" using True by (simp add: d chat_from_update_def plain_message_def Let_def)
    ultimately show ?thesis using from_operator.text_message [of d i U] True pr private_field d by metis
  next
    case False
    then have s: "sent_by i (aget d ''callback_query'')"
      using i id_of_sender unfolding d principal_from_update_def by (auto split: json.splits)
    then obtain cb where cb: "aget d ''callback_query'' = JObj cb" unfolding sent_by_def by blast
    show ?thesis
    proof (cases "aget cb ''message'' = JNull")
      case True
      then have "chat_from_update upd = field ''chat'' (plain_message d)" using cb by (simp add: d chat_from_update_def plain_message_def Let_def)
      then show ?thesis using from_operator.tap_without_card [of d cb i U] True pr private_field d cb s by metis
    next
      case False
      then have "chat_from_update upd = field ''chat'' (aget cb ''message'')" using cb by (simp add: d chat_from_update_def Let_def)
      then show ?thesis using from_operator.tap_on_card [of d cb i U] pr private_field d cb s by metis
    qed
  qed
qed

lemma handle_callback_chat: "e \<in> set (handle_callback U cb chat i) \<Longrightarrow> effect_chat e = None \<or> effect_chat e = Some chat"
  by (auto simp: handle_callback_def settle_callback_card_def Let_def effect_chat_def split: option.splits json.splits if_splits)

lemma handle_update_chat:
  assumes "handle_update U allowed upd = Some es" "e \<in> set es"
  shows "effect_chat e \<in> {None, Some (field ''id'' (chat_from_update upd))}"
proof -
  have c: "au_chat (authorize_update U upd allowed) = field ''id'' (chat_from_update upd)"
    by (simp add: authorize_update_def Let_def split: option.split)
  show ?thesis using assms c handle_callback_chat [of e U]
    by (auto simp: handle_update_def Let_def effect_chat_def split: json.splits option.splits if_splits)
qed

text \<open>
  C30. The bot is deny-by-default: whatever an update makes it do, the update is the tap or message of a user \<open>i\<close> on the allow list whose
  number stands in the sender of that very tap or message, it came through a private chat, and everything that is done is done in the name of
  \<open>i\<close> and in that chat. An update of any other shape, a number that only the chat carries, and every update under an empty list have no effect.
  The sender and the chat are read off the update by \<open>from_operator\<close>, which does not use the code's extractors.
\<close>

theorem telegram_authority:
  assumes "handle_update U allowed upd = Some es" "es \<noteq> []"
  shows "\<exists>i cid. i \<in> set allowed \<and> from_operator U upd i cid
    \<and> list_all (\<lambda>e. effect_user e \<in> {None, Some i} \<and> effect_chat e \<in> {None, Some cid}) es"
proof -
  obtain i where i: "principal_from_update U upd = Some i" "i \<in> set allowed" "is_private_chat U (chat_from_update upd)"
    "\<And>e. e \<in> set es \<Longrightarrow> effect_user e = None \<or> effect_user e = Some i" using handle_update_effects [OF assms] by blast
  then show ?thesis using authorized_from_operator [OF i(1,3)] handle_update_chat [OF assms(1)]
    by (intro exI [of _ i] exI [of _ "field ''id'' (chat_from_update upd)"]) (auto simp: list_all_iff)
qed

definition tap_update :: json where
  "tap_update = JObj [(u ''callback_query'', JObj [(u ''from'', JObj [(u ''id'', JInt 7)]), (u ''data'', JStr (u ''t:ab:once'')),
     (u ''message'', JObj [(u ''chat'', JObj [(u ''id'', JInt 7), (u ''type'', JStr (u ''private''))])])])]"

lemma tap_update_effects: "handle_update ascii_uni [7] tap_update
    = Some [SubmitVerdict (JInt 7) 7 (callback_verdict \<lparr>cb_kind = u ''tool'', cb_token = u ''ab'', cb_action = u ''once''\<rparr>)]"
  by code_simp

theorem telegram_authority_witness:
  "\<exists>cid. from_operator ascii_uni tap_update 7 cid"
  using telegram_authority [OF tap_update_effects] by auto

section \<open>Every update at most once\<close>

definition numbered :: "update list \<Rightarrow> bool" where
  "numbered srv \<longleftrightarrow> sorted_wrt (<) (map fst srv)"

lemma get_updates_numbered: "numbered srv \<Longrightarrow> numbered (get_updates n offset srv)"
  unfolding numbered_def get_updates_def sorted_wrt_map by (intro sorted_wrt_take sorted_wrt_filter)

lemma get_updates_from: "w \<in> set (get_updates n (Some k) srv) \<Longrightarrow> k \<le> fst w"
  unfolding get_updates_def by (auto dest: in_set_takeD)

lemma numbered_last: "numbered (p :: update list) \<Longrightarrow> w \<in> set p \<Longrightarrow> fst w \<le> fst (last p)"
  unfolding numbered_def sorted_wrt_map
  by (induction p) (auto simp: less_imp_le split: if_splits)

lemma numbered_append: "numbered (xs @ ys) \<longleftrightarrow> numbered xs \<and> numbered ys \<and> (\<forall>x\<in>set xs. \<forall>y\<in>set ys. fst x < fst y)"
  unfolding numbered_def by (auto simp: sorted_wrt_append)

text \<open>What a poll handles is in order and from the offset on.\<close>

lemma poll_loop_numbered:
  assumes "\<And>srv. srv \<in> set srvs \<Longrightarrow> numbered srv"
  shows "numbered (fst (poll_loop offset srvs)) \<and> (\<forall>k w. offset = Some k \<and> w \<in> set (fst (poll_loop offset srvs)) \<longrightarrow> k \<le> fst w)"
  using assms
proof (induction srvs arbitrary: offset)
  case Nil
  then show ?case by (simp add: numbered_def)
next
  case (Cons srv srvs)
  let ?page = "get_updates 100 offset srv" and ?rest = "fst (poll_loop (next_offset offset (get_updates 100 offset srv)) srvs)"
  have IH: "numbered ?rest" "\<And>k w. next_offset offset ?page = Some k \<Longrightarrow> w \<in> set ?rest \<Longrightarrow> k \<le> fst w"
    using Cons.IH [of "next_offset offset ?page"] Cons.prems by auto
  have page: "numbered ?page" using get_updates_numbered Cons.prems by simp
  have "fst x < fst y" if "x \<in> set ?page" "y \<in> set ?rest" for x y
  proof -
    have "?page \<noteq> []" using that(1) by (metis empty_iff list.set(1))
    then have "fst (last ?page) + 1 \<le> fst y" using IH(2) [OF _ that(2)] by (simp add: next_offset_def)
    then show ?thesis using numbered_last [OF page that(1)] by simp
  qed
  then have "numbered (?page @ ?rest)" using page IH(1) by (auto simp: numbered_append)
  moreover have "k \<le> fst w" if "offset = Some k" "w \<in> set (?page @ ?rest)" for k w
  proof -
    have pk: "k \<le> fst x" if "x \<in> set ?page" for x using get_updates_from that \<open>offset = Some k\<close> by blast
    show ?thesis
    proof (cases "?page = []")
      case True
      then show ?thesis using that IH(2) [of k w] by (simp add: next_offset_def)
    next
      case False
      then show ?thesis using that pk pk [of "last ?page"] IH(2) [of "fst (last ?page) + 1" w] by (fastforce simp: next_offset_def)
    qed
  qed
  moreover have "fst (poll_loop offset (srv # srvs)) = ?page @ ?rest" by (simp add: Let_def split_def)
  ultimately show ?case by metis
qed

text \<open>The offset after a drain without errors is past every update of the backlog.\<close>

lemma filter_take_drop: "numbered srv \<Longrightarrow> n < length srv \<Longrightarrow> filter (\<lambda>w. fst (srv ! n) + 1 \<le> fst w) srv = drop (Suc n) srv"
proof (induction srv arbitrary: n)
  case (Cons x srv)
  then have x: "numbered srv" "\<And>y. y \<in> set srv \<Longrightarrow> fst x < fst y" by (auto simp: numbered_def)
  show ?case
  proof (cases n)
    case 0
    have "filter (\<lambda>w. fst x + 1 \<le> fst w) srv = srv" using x(2) by (intro filter_True) force
    then show ?thesis using 0 by simp
  next
    case (Suc m)
    then have "fst x < fst (srv ! m)" using x(2) Cons.prems(2) nth_mem by auto
    then show ?thesis using Cons.IH [OF x(1), of m] Suc Cons.prems(2) by simp
  qed
qed simp

lemma growth: "(\<And>k. \<exists>late. srv (Suc k) = srv k @ late) \<Longrightarrow> k \<le> m \<Longrightarrow> \<exists>late. srv m = srv k @ (late :: update list)"
proof (induction m)
  case (Suc m)
  show ?case
  proof (cases "k = Suc m")
    case False
    then obtain late where "srv m = srv k @ late" using Suc by auto
    moreover obtain later where "srv (Suc m) = srv m @ later" using Suc.prems(1) by blast
    ultimately show ?thesis by simp
  qed simp
qed simp

lemma drain_all:
  assumes num: "\<And>k. numbered (srv k)" and grows: "\<And>k. \<exists>late. srv (Suc k) = srv k @ late" and "\<And>k. length (srv k) \<le> N"
    and "offset = (if n = 0 then None else Some (fst (srv k ! (n - 1)) + 1))" "n \<le> length (srv k)"
  shows "\<exists>m\<ge>k. drain_backlog (\<lambda>_. False) srv k offset = Some (if srv m = [] then None else Some (fst (last (srv m)) + 1), drop n (srv m))"
  using assms(4,5)
proof (induction "N - n" arbitrary: n offset k rule: less_induct)
  case less
  have page: "get_updates 100 offset (srv k) = take 100 (drop n (srv k))"
    using filter_take_drop [OF num, of "n - 1" k] less.prems by (cases n) (simp_all add: get_updates_def)
  show ?case
  proof (cases "length (srv k) - n < 100")
    case True
    then have "take 100 (drop n (srv k)) = drop n (srv k)" by simp
    moreover have "next_offset offset (drop n (srv k)) = (if srv k = [] then None else Some (fst (last (srv k)) + 1))"
      using less.prems by (auto simp: next_offset_def last_conv_nth)
    ultimately show ?thesis using True page by (intro exI [of _ k]) (subst drain_backlog.simps, simp add: Let_def)
  next
    case False
    then have n: "n + 100 \<le> length (srv k)" by simp
    obtain late where late: "srv (Suc k) = srv k @ late" using grows by blast
    have l: "last (take 100 (drop n (srv k))) = srv k ! (n + 99)"
      using n by (subst last_conv_nth) (auto simp: min_def intro: arg_cong [where f = "nth (srv k)"])
    have "next_offset offset (take 100 (drop n (srv k))) = Some (fst (srv (Suc k) ! (n + 100 - 1)) + 1)"
      using n l late by (auto simp: next_offset_def add.commute nth_append)
    then obtain m where m: "Suc k \<le> m" "drain_backlog (\<lambda>_. False) srv (Suc k) (next_offset offset (take 100 (drop n (srv k))))
        = Some (if srv m = [] then None else Some (fst (last (srv m)) + 1), drop (n + 100) (srv m))"
      using less.hyps [of "n + 100" _ "Suc k"] n late assms(3) [of k] by fastforce
    obtain later where "srv m = srv k @ later" using growth [of srv k m] grows m(1) by auto
    then have "take 100 (drop n (srv k)) = take 100 (drop n (srv m))" using n by simp
    then have "take 100 (drop n (srv k)) @ drop (n + 100) (srv m) = drop n (srv m)" by (metis append_take_drop_id add.commute drop_drop)
    then show ?thesis using False page n m by (intro exI [of _ m]) (subst drain_backlog.simps, simp add: Let_def)
  qed
qed



text \<open>When the first request fails the offset is unknown, and the poll loop handles the whole first page of the backlog.\<close>

lemma backlog_executed_after_error:
  "drain_backlog (\<lambda>k. k = 0) srv 0 None = Some (None, []) \<and> fst (poll_loop None [srv 0]) = take 100 (srv 0)"
  by (subst drain_backlog.simps) (simp add: get_updates_def Let_def)

end
