(* ===== verification/Outbox.thy ===== *)
theory Outbox
  imports Telegram Complex_Main
begin

text \<open>
  The draft channel of \<^verbatim>\<open>src/src/jarn/telegram/outbox.py\<close>. An \<open>outbox\<close> holds, per chat, what the dictionaries of the class hold
  for it, an absent entry being the default that the code reads. A coroutine runs without interruption up to its next
  \<^verbatim>\<open>await\<close> that can suspend: the locks are never held across one, so every locked block is atomic, and what remains are the
  HTTP request of \<^verbatim>\<open>_run_flush\<close> (\<open>d_http\<close> lists the requests under way, one for each coroutine that makes one) and the wait for the idle
  event in \<^verbatim>\<open>_commit_draft\<close> and \<^verbatim>\<open>_invalidate_draft\<close>: the generations of those that wait are \<open>d_waits\<close>; setting the event moves
  them to \<open>d_woken\<close>, the coroutines that go on at some later time, whatever the event is then. The relation \<open>ob_step\<close> interleaves
  these segments in every order. The progress bubble and the texts of the cards are not modelled.
\<close>

section \<open>State\<close>

record draft =
  d_id :: "int option"
  d_buf :: pystr
  d_alive :: bool
  d_last :: "rat option"
  d_sent :: nat
  d_pending :: bool
  d_inflight :: bool
  d_gen :: nat
  d_idle :: bool
  d_http :: "(int \<times> pystr) list"
  d_waits :: "nat list"
  d_woken :: "nat list"

record outbox =
  ob_interval :: rat
  ob_threshold :: nat
  ob_seq :: int
  ob_drafts :: "int \<Rightarrow> draft"

definition no_draft :: draft where
  "no_draft = \<lparr>d_id = None, d_buf = [], d_alive = False, d_last = None, d_sent = 0, d_pending = False, d_inflight = False,
     d_gen = 0, d_idle = True, d_http = [], d_waits = [], d_woken = []\<rparr>"

definition DRAFT_FLUSH_INTERVAL_S :: rat where "DRAFT_FLUSH_INTERVAL_S = 6 / 10"

definition DRAFT_CHUNK_THRESHOLD :: nat where "DRAFT_CHUNK_THRESHOLD = 280"

definition new_outbox :: outbox where
  "new_outbox = \<lparr>ob_interval = DRAFT_FLUSH_INTERVAL_S, ob_threshold = DRAFT_CHUNK_THRESHOLD, ob_seq = 0, ob_drafts = (\<lambda>_. no_draft)\<rparr>"

definition set_draft :: "int \<Rightarrow> draft \<Rightarrow> outbox \<Rightarrow> outbox" where
  "set_draft chat d ob = ob\<lparr>ob_drafts := (ob_drafts ob)(chat := d)\<rparr>"

section \<open>Operations\<close>

definition draft_number :: "int \<Rightarrow> int \<Rightarrow> int" where
  "draft_number chat seq = (let n = (\<bar>chat\<bar> mod 1000000) * 1000 + seq mod 1000 in if n = 0 then 1 else n)"

definition next_draft_id :: "int \<Rightarrow> outbox \<Rightarrow> outbox" where
  "next_draft_id chat ob =
     (let seq = ob_seq ob + 1; d = ob_drafts ob chat
      in set_draft chat (d\<lparr>d_gen := d_gen d + 1, d_id := Some (draft_number chat seq), d_buf := [], d_alive := True, d_sent := 0,
           d_pending := False, d_last := None\<rparr>) (ob\<lparr>ob_seq := seq\<rparr>))"

definition restart_draft :: "draft \<Rightarrow> draft" where
  "restart_draft d = d\<lparr>d_alive := False, d_buf := [], d_id := None, d_sent := 0, d_pending := False, d_last := None\<rparr>"

definition should_flush_now :: "outbox \<Rightarrow> rat \<Rightarrow> draft \<Rightarrow> bool" where
  "should_flush_now ob now d =
     (let pending = int (length (d_buf d)) - int (d_sent d)
      in if pending \<le> 0 then False
         else (case d_last d of
             None \<Rightarrow> True
           | Some t \<Rightarrow> pending \<ge> int (ob_threshold ob) \<or> now - t \<ge> ob_interval ob))"

definition set_idle :: "draft \<Rightarrow> draft" where
  "set_idle d = d\<lparr>d_inflight := False, d_idle := True, d_waits := [], d_woken := d_woken d @ d_waits d\<rparr>"

text \<open>\<^verbatim>\<open>_run_flush\<close> up to its request, or through its \<^verbatim>\<open>finally\<close> block when there is nothing to send\<close>

function run_flush :: "draft \<Rightarrow> draft" where
  "run_flush d =
     (case d_id d of
        Some i \<Rightarrow> if d_alive d then d\<lparr>d_http := d_http d @ [(i, d_buf d)]\<rparr> else set_idle d
      | None \<Rightarrow> if d_alive d \<and> d_pending d then run_flush (d\<lparr>d_pending := False, d_inflight := True\<rparr>)
                else set_idle d)"
  by pat_completeness auto
termination by (relation "measure (\<lambda>d. if d_pending d then 1 else 0)") auto

declare run_flush.simps [simp del]

text \<open>The \<^verbatim>\<open>finally\<close> block after the request\<close>

definition flush_finally :: "draft \<Rightarrow> draft" where
  "flush_finally d =
     (if d_alive d \<and> d_pending d then run_flush (d\<lparr>d_pending := False, d_inflight := True\<rparr>)
      else set_idle d)"

text \<open>The request number \<open>k\<close> of those under way returns, or fails.\<close>

definition http_return :: "nat \<Rightarrow> bool \<Rightarrow> rat \<Rightarrow> draft \<Rightarrow> draft" where
  "http_return k ok now d =
     (if k < length (d_http d)
      then flush_finally ((if ok then d\<lparr>d_last := Some now, d_sent := length (snd (d_http d ! k))\<rparr> else d)
             \<lparr>d_http := take k (d_http d) @ drop (Suc k) (d_http d)\<rparr>)
      else d)"

definition clip_draft :: "pystr \<Rightarrow> pystr" where
  "clip_draft buf = (if length buf > TELEGRAM_MESSAGE_MAX then drop (length buf - TELEGRAM_MESSAGE_MAX) buf else buf)"

definition append_draft :: "int \<Rightarrow> pystr \<Rightarrow> rat \<Rightarrow> outbox \<Rightarrow> outbox" where
  "append_draft chat chunk now ob =
     (if chunk = [] then ob
      else (let ob1 = (if d_alive (ob_drafts ob chat) then ob else next_draft_id chat ob);
                d = ob_drafts ob1 chat; d1 = d\<lparr>d_buf := clip_draft (d_buf d @ chunk)\<rparr>
            in set_draft chat
                 (if d_inflight d1 then d1\<lparr>d_pending := True\<rparr>
                  else if \<not> should_flush_now ob1 now d1 then d1
                  else run_flush (d1\<lparr>d_inflight := True, d_idle := False\<rparr>)) ob1))"

definition keepalive_draft :: "draft \<Rightarrow> draft" where
  "keepalive_draft d =
     (if \<not> d_alive d \<or> d_id d = None then d
      else if d_inflight d then d\<lparr>d_pending := True\<rparr>
      else run_flush (d\<lparr>d_inflight := True, d_idle := False\<rparr>))"

text \<open>\<^verbatim>\<open>_commit_draft\<close> (and \<^verbatim>\<open>_invalidate_draft\<close>, which returns nothing) before and after its wait\<close>

definition commit_begin :: "draft \<Rightarrow> pystr \<times> draft" where
  "commit_begin d =
     (let d1 = d\<lparr>d_alive := False, d_pending := False\<rparr>
      in (d_buf d, if d_idle d then d1\<lparr>d_woken := d_gen d # d_woken d\<rparr> else d1\<lparr>d_waits := d_gen d # d_waits d\<rparr>))"

definition commit_end :: "nat \<Rightarrow> draft \<Rightarrow> draft" where
  "commit_end gen d = (let d1 = d\<lparr>d_woken := remove1 gen (d_woken d)\<rparr> in if d_gen d = gen then restart_draft d1 else d1)"

text \<open>The real messages of \<^verbatim>\<open>finalize\<close> and of \<^verbatim>\<open>_send_card\<close> before the card\<close>

definition emit_committed :: "pystr \<Rightarrow> pystr list option" where
  "emit_committed buf = (if strip_ws buf = [] then Some [] else chunk_html (escape_html buf) TELEGRAM_MESSAGE_MAX)"

section \<open>Interleavings\<close>

inductive ob_step :: "int \<Rightarrow> outbox \<Rightarrow> outbox \<Rightarrow> bool" for chat where
  ob_append: "ob_step chat ob (append_draft chat chunk now ob)"
| ob_http: "ob_step chat ob (set_draft chat (http_return k ok now (ob_drafts ob chat)) ob)"
| ob_keepalive: "ob_step chat ob (set_draft chat (keepalive_draft (ob_drafts ob chat)) ob)"
| ob_commit: "ob_step chat ob (set_draft chat (snd (commit_begin (ob_drafts ob chat))) ob)"
| ob_committed: "gen \<in> set (d_woken (ob_drafts ob chat)) \<Longrightarrow>
    ob_step chat ob (set_draft chat (commit_end gen (ob_drafts ob chat)) ob)"

text \<open>Steps of a live draft, with the text they add\<close>

inductive live_run :: "int \<Rightarrow> outbox \<Rightarrow> pystr \<Rightarrow> outbox \<Rightarrow> bool" for chat where
  live_stop: "live_run chat ob [] ob"
| live_append: "live_run chat ob s ob1 \<Longrightarrow> live_run chat ob (s @ chunk) (append_draft chat chunk now ob1)"
| live_http: "live_run chat ob s ob1 \<Longrightarrow> live_run chat ob s (set_draft chat (http_return k ok now (ob_drafts ob1 chat)) ob1)"
| live_keepalive: "live_run chat ob s ob1 \<Longrightarrow> live_run chat ob s (set_draft chat (keepalive_draft (ob_drafts ob1 chat)) ob1)"

section \<open>Lemmas\<close>

text \<open>The part of the invariant that a flush does not touch, and the whole\<close>

definition draft_base :: "draft \<Rightarrow> bool" where
  "draft_base d \<longleftrightarrow> (d_alive d \<longrightarrow> d_id d \<noteq> None) \<and> d_id d \<noteq> Some 0 \<and> length (d_buf d) \<le> TELEGRAM_MESSAGE_MAX
     \<and> (\<forall>g\<in>set (d_waits d). g \<le> d_gen d \<and> (g = d_gen d \<longrightarrow> \<not> d_alive d))
     \<and> (\<forall>g\<in>set (d_woken d). g \<le> d_gen d \<and> (g = d_gen d \<longrightarrow> \<not> d_alive d))"

definition draft_inv :: "draft \<Rightarrow> bool" where
  "draft_inv d \<longleftrightarrow> draft_base d \<and> length (d_http d) = (if d_inflight d then 1 else 0) \<and> (d_idle d \<longleftrightarrow> \<not> d_inflight d)
     \<and> (d_pending d \<longrightarrow> d_inflight d \<and> d_alive d)
     \<and> (\<forall>(i, b)\<in>set (d_http d). i \<noteq> 0 \<and> length b \<le> TELEGRAM_MESSAGE_MAX)"

lemma draft_base_fields [simp]:
  "draft_base (d\<lparr>d_http := x\<rparr>) = draft_base d" "draft_base (d\<lparr>d_inflight := b\<rparr>) = draft_base d" "draft_base (d\<lparr>d_idle := b\<rparr>) = draft_base d"
  "draft_base (d\<lparr>d_pending := b\<rparr>) = draft_base d" "draft_base (d\<lparr>d_last := y\<rparr>) = draft_base d" "draft_base (d\<lparr>d_sent := n\<rparr>) = draft_base d"
  "draft_base (set_idle d) = draft_base d"
  by (auto simp: draft_base_def set_idle_def)

lemma set_idle_simps [simp]:
  "d_inflight (set_idle d) = False" "d_idle (set_idle d) = True" "d_http (set_idle d) = d_http d" "d_pending (set_idle d) = d_pending d"
  "d_alive (set_idle d) = d_alive d" "d_buf (set_idle d) = d_buf d"
  by (simp_all add: set_idle_def)

lemma draft_number_nonzero: "draft_number chat seq \<noteq> 0"
  by (simp add: draft_number_def Let_def)

lemma clip_length: "length (clip_draft b) \<le> TELEGRAM_MESSAGE_MAX"
  by (simp add: clip_draft_def)

lemma clip_tail: "clip_draft b = drop (length b - TELEGRAM_MESSAGE_MAX) b"
  by (simp add: clip_draft_def)

lemma clip_append: "clip_draft (clip_draft b @ c) = clip_draft (b @ c)"
  by (cases "length b \<le> TELEGRAM_MESSAGE_MAX") (simp_all add: clip_tail add.commute)

lemma clip_short: "length b \<le> TELEGRAM_MESSAGE_MAX \<Longrightarrow> clip_draft b = b"
  by (simp add: clip_draft_def)

lemma run_flush_live: "d_alive d \<Longrightarrow> d_id d = Some i \<Longrightarrow> run_flush d = d\<lparr>d_http := d_http d @ [(i, d_buf d)]\<rparr>"
  by (simp add: run_flush.simps)

lemma set_draft_get [simp]: "ob_drafts (set_draft chat d ob) chat = d" "c \<noteq> chat \<Longrightarrow> ob_drafts (set_draft chat d ob) c = ob_drafts ob c"
  by (simp_all add: set_draft_def)

lemma no_draft_inv: "draft_inv no_draft"
  by (simp add: draft_inv_def draft_base_def no_draft_def)

text \<open>A flush that has taken the flag makes its request.\<close>

lemma run_flush_inv:
  assumes "draft_base d" "d_alive d" "\<not> d_pending d" "d_inflight d" "\<not> d_idle d" "d_http d = []"
  shows "draft_inv (run_flush d)"
proof -
  obtain i where i: "d_id d = Some i" "i \<noteq> 0" using assms(1,2) by (auto simp: draft_base_def)
  then show ?thesis unfolding run_flush_live [OF assms(2) i(1)] draft_inv_def using assms by (simp add: draft_base_def)
qed

lemma flush_finally_inv: "draft_base d \<Longrightarrow> d_http d = [] \<Longrightarrow> \<not> d_idle d \<Longrightarrow> d_pending d \<longrightarrow> d_alive d \<Longrightarrow> draft_inv (flush_finally d)"
  unfolding flush_finally_def by (auto intro!: run_flush_inv) (simp_all add: draft_inv_def)

lemma http_return_inv:
  assumes "draft_inv d"
  shows "draft_inv (http_return k ok now d)"
proof (cases "k < length (d_http d)")
  case True
  then have k: "k = 0" "length (d_http d) = 1" "\<not> d_idle d" using assms by (auto simp: draft_inv_def split: if_splits)
  let ?d = "(if ok then d\<lparr>d_last := Some now, d_sent := length (snd (d_http d ! 0))\<rparr> else d)\<lparr>d_http := []\<rparr>"
  have "draft_base d" "d_pending d \<longrightarrow> d_alive d" using assms by (auto simp: draft_inv_def)
  then have "draft_inv (flush_finally ?d)" using k by (intro flush_finally_inv) simp_all
  then show ?thesis using k by (simp add: http_return_def)
qed (use assms in \<open>simp add: http_return_def\<close>)

lemma keepalive_inv: "draft_inv d \<Longrightarrow> draft_inv (keepalive_draft d)"
  unfolding keepalive_draft_def by (auto intro!: run_flush_inv) (auto simp: draft_inv_def)

lemma commit_begin_inv: "draft_inv d \<Longrightarrow> draft_inv (snd (commit_begin d))"
  by (auto simp: commit_begin_def Let_def draft_inv_def draft_base_def)

lemma commit_end_inv: "draft_inv d \<Longrightarrow> draft_inv (commit_end g d)"
  by (auto simp: commit_end_def Let_def restart_draft_def draft_inv_def draft_base_def dest: notin_set_remove1 set_mp [OF set_remove1_subset])

lemma next_draft_id_base:
  assumes "draft_inv (ob_drafts ob chat)"
  defines "d \<equiv> ob_drafts (next_draft_id chat ob) chat"
  shows "draft_inv d" "d_alive d" "d_http d = d_http (ob_drafts ob chat)"
  using assms(1) unfolding d_def by (auto simp: next_draft_id_def Let_def draft_inv_def draft_base_def draft_number_nonzero)

lemma append_draft_inv:
  assumes "draft_inv (ob_drafts ob chat)"
  shows "draft_inv (ob_drafts (append_draft chat chunk now ob) chat)"
proof -
  define ob1 where "ob1 = (if d_alive (ob_drafts ob chat) then ob else next_draft_id chat ob)"
  define d where "d = ob_drafts ob1 chat"
  have d: "draft_inv d" "d_alive d" using assms next_draft_id_base [of ob chat] by (auto simp: d_def ob1_def)
  let ?d = "d\<lparr>d_buf := clip_draft (d_buf d @ chunk)\<rparr>"
  have b: "draft_base ?d" using d clip_length by (simp add: draft_inv_def draft_base_def)
  have "draft_inv (if d_inflight ?d then ?d\<lparr>d_pending := True\<rparr> else if \<not> should_flush_now ob1 now ?d then ?d
      else run_flush (?d\<lparr>d_inflight := True, d_idle := False\<rparr>))"
    using b d run_flush_inv [of "?d\<lparr>d_inflight := True, d_idle := False\<rparr>"] by (auto simp: draft_inv_def)
  then show ?thesis using assms unfolding append_draft_def Let_def ob1_def [symmetric] d_def [symmetric] by simp
qed

lemma ob_step_inv: "ob_step chat ob ob' \<Longrightarrow> draft_inv (ob_drafts ob chat) \<Longrightarrow> draft_inv (ob_drafts ob' chat)"
  by (induction rule: ob_step.induct)
    (simp_all add: append_draft_inv http_return_inv keepalive_inv commit_begin_inv commit_end_inv)

lemma ob_steps_inv:
  assumes "(ob_step chat)\<^sup>*\<^sup>* ob ob'" "draft_inv (ob_drafts ob chat)"
  shows "draft_inv (ob_drafts ob' chat)"
  using assms by (induction rule: rtranclp_induct) (auto dest: ob_step_inv)

section \<open>Properties\<close>

text \<open>
  C33. In every interleaving of text, keep-alives, finished requests, commits and invalidations at most one draft request is under
  way, namely when the in-flight flag is set, which is when the idle event is not; an unsent change is only left to a request that is under way, a draft
  number is never zero, and a draft that was begun while a commit waited survives the end of that commit.
\<close>

theorem outbox_invariant:
  assumes "(ob_step chat)\<^sup>*\<^sup>* new_outbox ob"
  defines "d \<equiv> ob_drafts ob chat"
  shows "length (d_http d) = (if d_inflight d then 1 else 0) \<and> (d_idle d \<longleftrightarrow> \<not> d_inflight d)
    \<and> (d_pending d = (d_pending d \<and> d_inflight d \<and> d_alive d)) \<and> d_id d \<noteq> Some 0
    \<and> list_all (\<lambda>g. \<not> d_alive d \<or> d_buf (commit_end g d) = d_buf d) (d_waits d @ d_woken d)"
proof -
  have "draft_inv d" unfolding d_def by (rule ob_steps_inv [OF assms(1)]) (simp add: new_outbox_def no_draft_inv)
  then show ?thesis by (auto simp: draft_inv_def draft_base_def list_all_iff commit_end_def Let_def)
qed

text \<open>
  Changes are coalesced and none is lost: when a request returns, whether it worked or not, and text came in meanwhile, exactly one
  further request starts at once and carries the whole buffer; otherwise the channel is idle.
\<close>

theorem trailing_flush:
  assumes "(ob_step chat)\<^sup>*\<^sup>* new_outbox ob" and "d_http (ob_drafts ob chat) = [(i, b)]"
  defines "d \<equiv> ob_drafts ob chat"
  shows "d_http (http_return 0 ok now d) = (if d_pending d then [(the (d_id d), d_buf d)] else [])
    \<and> d_inflight (http_return 0 ok now d) = d_pending d \<and> \<not> d_pending (http_return 0 ok now d) \<and> d_buf (http_return 0 ok now d) = d_buf d"
proof -
  have inv: "draft_inv d" unfolding d_def by (rule ob_steps_inv [OF assms(1)]) (simp add: new_outbox_def no_draft_inv)
  show ?thesis
  proof (cases "d_pending d")
    case True
    then obtain n where n: "d_id d = Some n" "d_alive d" using inv by (auto simp: draft_inv_def draft_base_def)
    then show ?thesis using assms(2) True by (simp add: http_return_def flush_finally_def run_flush_live d_def [symmetric])
  next
    case False
    then show ?thesis using assms(2) by (simp add: http_return_def flush_finally_def d_def [symmetric])
  qed
qed

lemma run_flush_text: "d_buf (run_flush d) = d_buf d" "d_alive (run_flush d) = d_alive d"
  by (induction d rule: run_flush.induct; subst run_flush.simps; simp split: option.splits)+

lemma http_return_text: "d_buf (http_return k ok now d) = d_buf d" "d_alive (http_return k ok now d) = d_alive d"
  by (simp_all add: http_return_def flush_finally_def run_flush_text split: option.splits)

lemma keepalive_text: "d_buf (keepalive_draft d) = d_buf d" "d_alive (keepalive_draft d) = d_alive d"
  by (simp_all add: keepalive_draft_def run_flush_text)

definition live_text :: "draft \<Rightarrow> pystr" where
  "live_text d = (if d_alive d then d_buf d else [])"

lemma live_text_flush: "live_text (http_return k ok now d) = live_text d" "live_text (keepalive_draft d) = live_text d"
  by (simp_all add: live_text_def http_return_text keepalive_text)

lemma append_text: "chunk \<noteq> [] \<Longrightarrow> d_buf (ob_drafts (append_draft chat chunk now ob) chat) = clip_draft (live_text (ob_drafts ob chat) @ chunk)"
  "chunk \<noteq> [] \<Longrightarrow> d_alive (ob_drafts (append_draft chat chunk now ob) chat)"
  by (simp_all add: append_draft_def Let_def live_text_def next_draft_id_def run_flush_text)

lemma append_live_text: "length (d_buf (ob_drafts ob chat)) \<le> TELEGRAM_MESSAGE_MAX \<Longrightarrow>
    live_text (ob_drafts (append_draft chat chunk now ob) chat) = clip_draft (live_text (ob_drafts ob chat) @ chunk)"
proof (cases "chunk = []")
  case True
  then show "length (d_buf (ob_drafts ob chat)) \<le> TELEGRAM_MESSAGE_MAX \<Longrightarrow>
      live_text (ob_drafts (append_draft chat chunk now ob) chat) = clip_draft (live_text (ob_drafts ob chat) @ chunk)"
    by (simp add: append_draft_def live_text_def clip_short)
next
  case False
  then show ?thesis using append_text [OF False, of chat now ob] by (simp add: live_text_def)
qed

lemma draft_inv_length: "draft_inv d \<Longrightarrow> length (d_buf d) \<le> TELEGRAM_MESSAGE_MAX"
  by (simp add: draft_inv_def draft_base_def)

lemma live_run_text:
  assumes "live_run chat ob s ob'" "draft_inv (ob_drafts ob chat)"
  shows "draft_inv (ob_drafts ob' chat) \<and> live_text (ob_drafts ob' chat) = clip_draft (live_text (ob_drafts ob chat) @ s)"
  using assms
proof (induction rule: live_run.induct)
  case (live_stop ob)
  then show ?case by (simp add: clip_short live_text_def draft_inv_length)
next
  case (live_append ob s ob1 chunk now)
  then have "draft_inv (ob_drafts ob1 chat)" by simp
  then show ?case using live_append append_live_text [OF draft_inv_length, of ob1 chat chunk now]
      clip_append [of "live_text (ob_drafts ob chat) @ s" chunk] by (simp add: append_draft_inv)
qed (simp_all add: http_return_inv keepalive_inv live_text_flush)

text \<open>
  What is kept of a streamed reply: however the chunks, requests and keep-alives interleave, the text that \<^verbatim>\<open>finalize\<close> or a card
  commits is the last 4096 characters of the text that was streamed. A reply of at most 4096 characters is kept whole; of a
  longer one the beginning is lost.
\<close>

theorem committed_text:
  assumes "live_run chat new_outbox s ob" "s \<noteq> []"
  shows "fst (commit_begin (ob_drafts ob chat)) = drop (length s - TELEGRAM_MESSAGE_MAX) s"
proof -
  have d: "ob_drafts new_outbox chat = no_draft" by (simp add: new_outbox_def)
  then have t: "live_text (ob_drafts ob chat) = clip_draft s"
    using live_run_text [OF assms(1)] no_draft_inv by (simp add: live_text_def no_draft_def)
  moreover have "clip_draft s \<noteq> []" using assms(2) by (cases "length s") (auto simp: clip_draft_def TELEGRAM_MESSAGE_MAX_def)
  ultimately have "d_buf (ob_drafts ob chat) = clip_draft s" by (auto simp: live_text_def split: if_splits)
  then show ?thesis by (simp add: commit_begin_def clip_tail Let_def)
qed

section \<open>Witnesses\<close>

definition ob_one :: outbox where "ob_one = append_draft 7 (u ''hi'') 0 new_outbox"

lemma ob_one_reach: "(ob_step 7)\<^sup>*\<^sup>* new_outbox ob_one" "live_run 7 new_outbox ([] @ u ''hi'') ob_one"
  unfolding ob_one_def by (rule r_into_rtranclp, rule ob_append) (rule live_append, rule live_stop)

lemma ob_one_http: "d_http (ob_drafts ob_one 7) = [(7001, u ''hi'')]"
  by (simp add: ob_one_def append_draft_def new_outbox_def no_draft_def next_draft_id_def Let_def should_flush_now_def run_flush_live
      draft_number_def clip_draft_def TELEGRAM_MESSAGE_MAX_def u_def)

theorem outbox_invariant_witness: "d_inflight (ob_drafts ob_one 7) \<and> \<not> d_idle (ob_drafts ob_one 7)"
  using outbox_invariant [OF ob_one_reach(1)] ob_one_http by (simp split: if_splits)

theorem trailing_flush_witness: "\<not> d_pending (http_return 0 True 1 (ob_drafts ob_one 7))"
  using trailing_flush [OF ob_one_reach(1) ob_one_http, of True 1] by blast

theorem committed_text_witness: "fst (commit_begin (ob_drafts ob_one 7)) = u ''hi''"
  using committed_text [OF ob_one_reach(2)] by (simp add: u_def TELEGRAM_MESSAGE_MAX_def)

text \<open>Once the buffer is full and sent, new text no longer makes a request due.\<close>

lemma full_draft_never_due:
  assumes "d_sent d = TELEGRAM_MESSAGE_MAX" "length (d_buf d) \<le> TELEGRAM_MESSAGE_MAX"
  shows "\<not> should_flush_now ob now (d\<lparr>d_buf := clip_draft (d_buf d @ chunk)\<rparr>)"
  using clip_length [of "d_buf d @ chunk"] assms by (simp add: should_flush_now_def Let_def)

end
