(* ===== verification/Stream_Handlers.thy ===== *)
theory Stream_Handlers
  imports Interrupts Cost Redact
begin

text \<open>
  What the session driver does with one chunk of the agent's stream,
  \<^verbatim>\<open>src/src/jarn/agent/stream_handlers.py\<close>: the events made of assistant text, tool calls and tool results,
  the attribution of a subagent's output to its name, the metering of token usage and the
  classification of a failed call as retryable or as a rejected key.

  Messages and chunks are LangChain's; their typed fields are the record \<open>message\<close>. An exception is
  an object with an identity, so the walk over its causes works on a store of exceptions.
\<close>

section \<open>Messages\<close>

datatype block =
    BStr pystr
  | BDict (b_type: "pystr option") (b_text: "pystr option") (b_thinking: "pystr option")
      (b_reasoning: "pystr option") (b_reasoning_content: "pystr option")
  | BImage

datatype msg_content = CStr pystr | CList "block list" | COther

record tool_call =
  call_id :: "pystr option"
  call_name :: pystr
  call_args :: args

record message =
  m_type :: pystr
  m_id :: "pystr option"
  m_name :: "pystr option"
  m_content :: msg_content
  m_tool_calls :: "tool_call list"
  m_call_chunks :: "pystr option list"
  m_tool_call_id :: "pystr option"
  m_usage :: "args option"
  m_metadata :: "args option"
  m_reasoning :: "pystr option"

definition ASSISTANT_TYPES :: "pystr list" where
  "ASSISTANT_TYPES = [u ''ai'', u ''AIMessageChunk'']"
definition REASONING_TYPES :: "pystr list" where
  "REASONING_TYPES = [u ''thinking'', u ''reasoning'', u ''reasoning_content'']"
definition MAX_FULL_CHARS :: nat where "MAX_FULL_CHARS = 100000"

definition or_empty :: "pystr option \<Rightarrow> pystr" where
  "or_empty s = (case s of None \<Rightarrow> [] | Some x \<Rightarrow> x)"

fun first_text :: "pystr option list \<Rightarrow> pystr" where
  "first_text [] = []"
| "first_text (s # ss) = (if or_empty s \<noteq> [] then or_empty s else first_text ss)"

definition text_of :: "msg_content \<Rightarrow> pystr" where
  "text_of c = (case c of CStr s \<Rightarrow> s
     | CList bs \<Rightarrow> concat (map (\<lambda>b. case b of BStr s \<Rightarrow> s
         | BDict t tx _ _ _ \<Rightarrow> if t = Some (u ''text'') then or_empty tx else [] | BImage \<Rightarrow> []) bs)
     | COther \<Rightarrow> [])"

definition reasoning_of :: "message \<Rightarrow> pystr" where
  "reasoning_of m =
     (case m_content m of CList bs \<Rightarrow> concat (map (\<lambda>b. case b of
         BDict (Some t) tx th r rc \<Rightarrow> if t \<in> set REASONING_TYPES then first_text [th, r, rc, tx] else []
       | _ \<Rightarrow> []) bs) | _ \<Rightarrow> []) @ or_empty (m_reasoning m)"

fun names_loop :: "pystr option list \<Rightarrow> pystr list \<Rightarrow> pystr list" where
  "names_loop [] out = out"
| "names_loop (n # ns) out =
     (if or_empty n \<noteq> [] \<and> or_empty n \<notin> set out then names_loop ns (out @ [or_empty n]) else names_loop ns out)"

definition msg_tool_names :: "message \<Rightarrow> pystr list" where
  "msg_tool_names m = names_loop (map (\<lambda>c. Some (call_name c)) (m_tool_calls m) @ m_call_chunks m) []"

definition first_tool_name :: "message \<Rightarrow> pystr option" where
  "first_tool_name m = (case msg_tool_names m of [] \<Rightarrow> None | n # _ \<Rightarrow> Some n)"

text \<open>An item of the stream: with subgraphs, without them, or something else.\<close>

datatype 'c stream_item = Item3 "pystr list" pystr 'c | Item2 pystr 'c | ItemOther

fun unpack_stream_item :: "'c stream_item \<Rightarrow> pystr list \<times> (pystr \<times> 'c) option" where
  "unpack_stream_item (Item3 ns md c) = (ns, Some (md, c))"
| "unpack_stream_item (Item2 md c) = ([], Some (md, c))"
| "unpack_stream_item ItemOther = ([], None)"

section \<open>Summaries of tool results\<close>

text \<open>\<^verbatim>\<open>re.findall(r"^\s{2}(https?://[^\s]+)", content, re.MULTILINE)\<close>: \<open>bol\<close> says that the position
  is the start of a line.\<close>

definition url_at :: "pystr \<Rightarrow> pystr option" where
  "url_at s = (case s of a # b # r \<Rightarrow>
       if isspace a \<and> isspace b then
         (let sch = (if startswith r (u ''https://'') then u ''https://'' else u ''http://'');
              w = takeWhile (\<lambda>c. \<not> isspace c) (drop (length sch) r)
          in if startswith r sch \<and> w \<noteq> [] then Some (sch @ w) else None)
       else None
     | _ \<Rightarrow> None)"

function find_urls :: "bool \<Rightarrow> pystr \<Rightarrow> pystr list" where
  "find_urls bol s =
     (case (if bol then url_at s else None) of
        Some x \<Rightarrow> x # find_urls False (drop (2 + length x) s)
      | None \<Rightarrow> (case s of [] \<Rightarrow> [] | c # cs \<Rightarrow> find_urls (c = 10) cs))"
  by pat_completeness auto
termination
  by (relation "measure (\<lambda>(b, s). length s)") (auto simp: url_at_def split: list.splits if_splits)

declare find_urls.simps [simp del]

definition url_netloc :: "pystr \<Rightarrow> pystr" where
  "url_netloc after = takeWhile (\<lambda>c. c \<notin> {47, 63, 35}) after"

definition summary_host :: "pyuni \<Rightarrow> pystr \<Rightarrow> exn + pystr" where
  "summary_host U x =
     (let after = drop (if startswith x (u ''https://'') then 8 else 7) x
      in case url_hostname U after of Inl e \<Rightarrow> Inl e
         | Inr h \<Rightarrow> (let host = first_text [h, Some (url_netloc after), Some x]
                     in Inr (if startswith host (u ''www.'') then drop 4 host else host)))"

fun summary_hosts :: "pyuni \<Rightarrow> pystr list \<Rightarrow> pystr list \<Rightarrow> exn + pystr list" where
  "summary_hosts U [] seen = Inr seen"
| "summary_hosts U (x # xs) seen =
     (case summary_host U x of Inl e \<Rightarrow> Inl e
      | Inr h \<Rightarrow> summary_hosts U xs (if h \<in> set seen then seen else seen @ [h]))"

definition plain_summary :: "pystr \<Rightarrow> pystr" where
  "plain_summary c =
     (let txt = strip_ws c; lines = count_list txt 10 + 1
      in if txt = [] then u ''(no output)''
         else if lines > 1 then str_int (int lines) @ u '' lines''
         else if length txt \<le> 80 then txt else take 79 txt @ [8230])"

definition web_search_summary :: "pyuni \<Rightarrow> pystr \<Rightarrow> exn + pystr" where
  "web_search_summary U c =
     (let urls = find_urls True c
      in if urls = [] then Inr (plain_summary c)
         else map_sum id (\<lambda>hosts. [128269, 32] @ str_int (int (length urls)) @ u '' result''
                @ (if length urls \<noteq> 1 then u ''s'' else []) @ [32, 183, 32] @ py_join (u '', '') (take 3 hosts)
                @ (if length hosts > 3 then [44, 32, 8230] else []))
              (summary_hosts U urls []))"

definition tool_summary :: "pyuni \<Rightarrow> pystr \<Rightarrow> pystr \<Rightarrow> exn + pystr" where
  "tool_summary U c name = (if name = u ''web_search'' then web_search_summary U c else Inr (plain_summary c))"

section \<open>The state of a stream\<close>

record 'f stream =
  s_thread :: pystr
  s_main_model :: pystr
  s_known_refs :: "pystr list"
  s_pending :: "pystr list"
  s_ns_agent :: "(pystr, pystr) pydict"
  s_seen :: "pystr list"
  s_last_edit :: pystr
  s_totals :: "(pystr \<times> pystr \<times> pystr, TokenCounts) pydict"
  s_tracker :: "'f CostTracker"

record 'f senv =
  e_uni :: pyuni
  e_conv :: int_conv
  e_flops :: "'f flops"
  e_tables :: "'f price_tables"
  e_known :: "pystr list"

datatype stream_error = SValue | SUsage usage_error

definition agent_for_namespace :: "pystr list \<Rightarrow> 'f stream \<Rightarrow> pystr option \<times> 'f stream" where
  "agent_for_namespace ns s =
     (case ns of [] \<Rightarrow> (None, s)
      | key # _ \<Rightarrow> (case dget (s_ns_agent s) key of
            Some b \<Rightarrow> (Some b, s)
          | None \<Rightarrow> (case s_pending s of [] \<Rightarrow> (None, s)
              | n # rest \<Rightarrow> (Some n, s\<lparr>s_pending := rest, s_ns_agent := dput key n (s_ns_agent s)\<rparr>))))"

definition tag_agent :: "Event \<Rightarrow> pystr option \<Rightarrow> Event" where
  "tag_agent e a = (if or_empty a \<noteq> [] then e\<lparr>edata := dput (u ''agent'') (JStr (or_empty a)) (edata e)\<rparr> else e)"

section \<open>Metering\<close>

fun best_ref :: "pystr \<Rightarrow> pystr option \<Rightarrow> pystr list \<Rightarrow> pystr option" where
  "best_ref name best [] = best"
| "best_ref name best (r # rs) =
     best_ref name (if r \<noteq> [] \<and> (contains r name \<or> contains name r)
         \<and> (best = None \<or> length r > length (the best)) then Some r else best) rs"

definition resolve_model_ref :: "pyuni \<Rightarrow> 'f stream \<Rightarrow> message \<Rightarrow> pystr" where
  "resolve_model_ref U s m =
     (let name = (case m_metadata m of None \<Rightarrow> []
            | Some meta \<Rightarrow> py_str U (aget_or U meta [''model_name'', ''model''] (JStr [])))
      in if name = [] then s_main_model s
         else (case best_ref name None (s_known_refs s) of None \<Rightarrow> name | Some r \<Rightarrow> r))"

definition counts_sub :: "TokenCounts \<Rightarrow> TokenCounts \<Rightarrow> TokenCounts" where
  "counts_sub c p = \<lparr>tc_input = max 0 (tc_input c - tc_input p), tc_output = max 0 (tc_output c - tc_output p),
     tc_cache_read = max 0 (tc_cache_read c - tc_cache_read p),
     tc_cache_creation = max 0 (tc_cache_creation c - tc_cache_creation p)\<rparr>"

definition counts_zero :: "TokenCounts \<Rightarrow> bool" where
  "counts_zero c \<longleftrightarrow> tc_input c = 0 \<and> tc_output c = 0 \<and> tc_cache_read c = 0 \<and> tc_cache_creation c = 0"

definition continues :: "TokenCounts \<Rightarrow> TokenCounts \<Rightarrow> bool" where
  "continues p c \<longleftrightarrow> tc_input c \<ge> tc_input p \<and> tc_output c \<ge> tc_output p"

definition usage_call :: "'f stream \<Rightarrow> message \<Rightarrow> pystr \<Rightarrow> TokenCounts \<Rightarrow> bool \<Rightarrow> model_call" where
  "usage_call s m ref c cont =
     (let tools = msg_tool_names m
      in \<lparr>mc_model = ref, mc_in = tc_input c, mc_out = tc_output c,
          mc_tool = (if length tools = 1 then Some (hd tools) else None),
          mc_tools = (if length tools > 1 then tools else []),
          mc_read = tc_cache_read c, mc_write = tc_cache_creation c,
          mc_increment = (\<not> cont), mc_main = (ref = s_main_model s)\<rparr>)"

definition meter :: "'f senv \<Rightarrow> message \<Rightarrow> pystr \<times> pystr \<times> pystr \<Rightarrow> TokenCounts \<Rightarrow> 'f stream \<Rightarrow> 'f stream" where
  "meter E m key c s =
     (let rec = (\<lambda>d cont. s\<lparr>s_totals := dput key c (s_totals s),
              s_tracker := record_one (e_flops E) (e_tables E) (usage_call s m (snd (snd key)) d cont) (s_tracker s)\<rparr>)
      in case dget (s_totals s) key of
           None \<Rightarrow> rec c False
         | Some p \<Rightarrow> if continues p c
                      then (if counts_zero (counts_sub c p) then s else rec (counts_sub c p) True)
                      else rec c False)"

definition usage_key :: "'f senv \<Rightarrow> 'f stream \<Rightarrow> pystr list \<Rightarrow> message \<Rightarrow> pystr \<times> pystr \<times> pystr" where
  "usage_key E s ns m = (s_thread s, (case ns of [] \<Rightarrow> [] | n # _ \<Rightarrow> n), resolve_model_ref (e_uni E) s m)"

definition record_usage :: "'f senv \<Rightarrow> message \<Rightarrow> pystr list \<Rightarrow> 'f stream \<Rightarrow> usage_error + 'f stream" where
  "record_usage E m ns s =
     (case normalize_usage (e_uni E) (e_conv E) (m_usage m) of
        Inl e \<Rightarrow> Inl e
      | Inr None \<Rightarrow> Inr s
      | Inr (Some c) \<Rightarrow> Inr (meter E m (usage_key E s ns m) c s))"

section \<open>Chunks\<close>

definition tool_end :: "pyuni \<Rightarrow> message \<Rightarrow> exn + Event" where
  "tool_end U m =
     (let full = strip_ws (text_of (m_content m))
      in case tool_summary U full (or_empty (m_name m)) of Inl e \<Rightarrow> Inl e
         | Inr sm \<Rightarrow> Inr (ev TOOL_END (first_text [m_name m, Some (u ''tool'')])
             ([(u ''summary'', JStr sm)]
              @ (if or_empty (m_tool_call_id m) \<noteq> [] then [(u ''tool_call_id'', JStr (or_empty (m_tool_call_id m)))] else [])
              @ (if full \<noteq> [] \<and> (10 \<in> set full \<or> length full > 80)
                 then [(u ''full'', JStr (take MAX_FULL_CHARS full))] else []))))"

definition handle_message_chunk :: "'f senv \<Rightarrow> message \<Rightarrow> pystr list \<Rightarrow> 'f stream \<Rightarrow> (stream_error + Event option) \<times> 'f stream" where
  "handle_message_chunk E m ns s0 =
     (case record_usage E m ns s0 of
        Inl e \<Rightarrow> (Inl (SUsage e), s0)
      | Inr s1 \<Rightarrow>
          (case agent_for_namespace ns s1 of (agent, s) \<Rightarrow>
             if m_type m = u ''tool'' then
               (case tool_end (e_uni E) m of Inl e \<Rightarrow> (Inl SValue, s) | Inr e \<Rightarrow> (Inr (Some (tag_agent e agent)), s))
             else if m_type m \<notin> set ASSISTANT_TYPES then (Inr None, s)
             else (let c = text_of (m_content m); r = reasoning_of m
                   in if c \<noteq> [] then (Inr (Some (tag_agent (ev TEXT c []) agent)), s)
                      else if r \<noteq> [] then (Inr (Some (tag_agent (ev REASONING r []) agent)), s)
                      else (Inr None, s))))"

text \<open>An update chunk: not a dictionary, the interrupts, or the messages of each node (\<open>None\<close> for an
  update that is not a dictionary). LangGraph's \<^verbatim>\<open>Overwrite\<close> wrapper only holds the messages.\<close>

datatype 'i update_chunk = ChunkOther | ChunkInterrupt "'i list" | ChunkNodes "message list option list"

fun chunk_messages :: "'i update_chunk \<Rightarrow> message list" where
  "chunk_messages (ChunkNodes us) = concat (map (\<lambda>u. case u of None \<Rightarrow> [] | Some ms \<Rightarrow> ms) us)"
| "chunk_messages _ = []"

definition chunk_has_ai_message :: "'i update_chunk \<Rightarrow> bool" where
  "chunk_has_ai_message c \<longleftrightarrow> list_ex (\<lambda>m. m_type m \<in> set ASSISTANT_TYPES) (chunk_messages c)"

definition arg_or :: "pyuni \<Rightarrow> args \<Rightarrow> string list \<Rightarrow> pystr" where
  "arg_or U a ks = py_str U (aget_or U a ks (JStr []))"

definition tool_start :: "'f senv \<Rightarrow> pystr list \<Rightarrow> pystr option \<Rightarrow> tool_call \<Rightarrow> 'f stream \<Rightarrow> Event option \<times> 'f stream" where
  "tool_start E ns agent c s =
     (if call_id c \<noteq> None \<and> the (call_id c) \<in> set (s_seen s) then (None, s)
      else (let s1 = (if call_id c \<noteq> None then s\<lparr>s_seen := the (call_id c) # s_seen s\<rparr> else s);
                sub = strip_ws (arg_or (e_uni E) (call_args c) [''subagent_type'', ''subagent'', ''name'']);
                s2 = (if call_name c = u ''task'' \<and> ns = [] \<and> sub \<noteq> [] then s1\<lparr>s_pending := s_pending s1 @ [sub]\<rparr> else s1);
                s3 = (if call_name c \<in> {u ''write_file'', u ''edit_file''}
                      then s2\<lparr>s_last_edit := arg_or (e_uni E) (call_args c) [''file_path'', ''path'', ''filename'']\<rparr> else s2)
            in (Some (ev TOOL_START (call_name c)
                  ([(u ''args'', JObj (sanitize_tool_args (e_uni E) (e_known E) (call_args c)))]
                   @ (if or_empty (call_id c) \<noteq> [] then [(u ''tool_call_id'', JStr (or_empty (call_id c)))] else [])
                   @ (if or_empty agent \<noteq> [] then [(u ''agent'', JStr (or_empty agent))] else []))), s3)))"

fun tool_starts :: "'f senv \<Rightarrow> pystr list \<Rightarrow> pystr option \<Rightarrow> tool_call list \<Rightarrow> 'f stream \<Rightarrow> Event list \<times> 'f stream" where
  "tool_starts E ns agent [] s = ([], s)"
| "tool_starts E ns agent (c # cs) s =
     (case tool_start E ns agent c s of (e, s1) \<Rightarrow>
        (case tool_starts E ns agent cs s1 of (es, s2) \<Rightarrow> ((case e of None \<Rightarrow> es | Some x \<Rightarrow> x # es), s2)))"

text \<open>The events of an update chunk, the interrupts it adds, and the state after it.\<close>

definition handle_update_chunk :: "'f senv \<Rightarrow> 'i update_chunk \<Rightarrow> pystr list \<Rightarrow> 'f stream \<Rightarrow> Event list \<times> 'i list \<times> 'f stream" where
  "handle_update_chunk E chunk ns s =
     (case chunk of
        ChunkOther \<Rightarrow> ([], [], s)
      | ChunkInterrupt is \<Rightarrow> ([], is, s)
      | ChunkNodes us \<Rightarrow>
          (case agent_for_namespace ns s of (agent, s1) \<Rightarrow>
             (case tool_starts E ns agent (concat (map m_tool_calls (chunk_messages chunk))) s1 of (es, s2) \<Rightarrow> (es, [], s2))))"

record ToolProgress =
  tp_command :: pystr
  tp_chunk :: pystr
  tp_tail :: pystr
  tp_elapsed :: json
  tp_heartbeat :: bool
  tp_call_id :: "pystr option"
  tp_tool_name :: pystr

definition make_tool_progress_event :: "ToolProgress \<Rightarrow> pystr option \<Rightarrow> pystr option \<Rightarrow> Event" where
  "make_tool_progress_event p cid0 agent =
     (let cid = first_text [cid0, tp_call_id p]
      in ev TOOL_PROGRESS (if tp_tool_name p \<noteq> [] then tp_tool_name p else u ''execute'')
           ([(u ''tail'', JStr (tp_tail p)), (u ''chunk'', JStr (tp_chunk p)), (u ''elapsed'', tp_elapsed p),
             (u ''heartbeat'', JBool (tp_heartbeat p))]
            @ (if cid \<noteq> [] then [(u ''tool_call_id'', JStr cid)] else [])
            @ (if tp_command p \<noteq> [] then [(u ''command'', JStr (tp_command p))] else [])
            @ (if or_empty agent \<noteq> [] then [(u ''agent'', JStr (or_empty agent))] else [])))"

section \<open>Failures\<close>

text \<open>The classes an exception is an instance of, as far as the code asks; an SDK that is not
  installed has no instances.\<close>

datatype exc_class = HttpxTimeout | HttpxStatus | PyTimeout | PyConnection
  | AnthropicStatus | AnthropicRate | AnthropicAuth | AnthropicConnection
  | OpenAIStatus | OpenAIRate | OpenAIAuth | OpenAIConnection

record pexc =
  x_name :: pystr
  x_msg :: pystr
  x_status :: "int option"
  x_response :: "int option"
  x_isa :: "exc_class list"
  x_cause :: "nat option"
  x_context :: "nat option"

fun iter_exc_chain :: "(nat \<Rightarrow> pexc) \<Rightarrow> nat \<Rightarrow> nat list \<Rightarrow> nat option \<Rightarrow> nat list" where
  "iter_exc_chain X 0 seen cur = []"
| "iter_exc_chain X (Suc n) seen None = []"
| "iter_exc_chain X (Suc n) seen (Some i) =
     (if i \<in> set seen then []
      else i # iter_exc_chain X n (i # seen) (if x_cause (X i) \<noteq> None then x_cause (X i) else x_context (X i)))"

definition classify_by_status :: "int option \<Rightarrow> (bool \<times> bool) option" where
  "classify_by_status st = (case st of None \<Rightarrow> None
     | Some c \<Rightarrow> if c = 401 \<or> c = 403 then Some (False, True)
         else if c = 429 \<or> c = 408 \<or> (500 \<le> c \<and> c < 600) then Some (True, False)
         else if 400 \<le> c \<and> c < 500 then Some (False, False) else None)"

definition or_other :: "(bool \<times> bool) option \<Rightarrow> bool \<times> bool" where
  "or_other v = (case v of None \<Rightarrow> (False, False) | Some x \<Rightarrow> x)"

definition classify_single_typed :: "pexc \<Rightarrow> (bool \<times> bool) option" where
  "classify_single_typed x =
     (let is = (\<lambda>c. c \<in> set (x_isa x))
      in if classify_by_status (x_status x) \<noteq> None then classify_by_status (x_status x)
         else if classify_by_status (x_response x) \<noteq> None then classify_by_status (x_response x)
         else if is HttpxTimeout then Some (True, False)
         else if is HttpxStatus then Some (or_other (classify_by_status (x_response x)))
         else if is PyTimeout then Some (True, False)
         else if is PyConnection then Some (True, False)
         else if is AnthropicStatus then Some (or_other (classify_by_status (x_status x)))
         else if is AnthropicRate then Some (True, False)
         else if is AnthropicAuth then Some (False, True)
         else if is AnthropicConnection then Some (True, False)
         else if is OpenAIStatus then Some (or_other (classify_by_status (x_status x)))
         else if is OpenAIRate then Some (True, False)
         else if is OpenAIAuth then Some (False, True)
         else if is OpenAIConnection then Some (True, False)
         else None)"

definition RETRYABLE_NAME_HINTS :: "pystr list" where
  "RETRYABLE_NAME_HINTS = map u [''timeout'', ''connecterror'', ''connectionerror'', ''ratelimit'',
     ''overloaded'', ''serviceunavailable'', ''apierror'', ''internalserver'']"
definition RETRYABLE_MSG_HINTS :: "pystr list" where
  "RETRYABLE_MSG_HINTS = map u [''rate limit'', ''rate-limit'', ''overloaded'', ''temporarily unavailable'',
     ''service unavailable'', ''connection reset'', ''connection refused'', ''connection aborted'',
     ''connection error'', ''read timed out'', ''request timed out'']"
definition AUTH_NAME_HINTS :: "pystr list" where
  "AUTH_NAME_HINTS = map u [''authenticationerror'', ''permissiondenied'', ''unauthorized'']"
definition AUTH_MSG_HINTS :: "pystr list" where
  "AUTH_MSG_HINTS = map u [''invalid x-api-key'', ''invalid api key'', ''invalid_api_key'', ''incorrect api key'',
     ''authentication_error'', ''authentication error'', ''unauthorized'', ''no auth credentials'',
     ''missing api key'', ''expired api key'', ''invalid bearer token'', ''permission denied'']"

definition hinted :: "pystr list \<Rightarrow> pystr \<Rightarrow> bool" where
  "hinted hs s = list_ex (contains s) hs"

fun first_verdict :: "pexc list \<Rightarrow> (bool \<times> bool) option" where
  "first_verdict [] = None"
| "first_verdict (x # xs) = (case classify_single_typed x of None \<Rightarrow> first_verdict xs | Some v \<Rightarrow> Some v)"

definition classify_error :: "pyuni \<Rightarrow> (nat \<Rightarrow> pexc) \<Rightarrow> nat \<Rightarrow> args" where
  "classify_error U X i =
     (case first_verdict (map X (iter_exc_chain X 6 [] (Some i))) of
        Some (r, a) \<Rightarrow> [(u ''retryable'', JBool r), (u ''auth'', JBool a), (u ''classified_by'', JStr (u ''type''))]
      | None \<Rightarrow>
          (let name = lower U (x_name (X i)); msg = lower U (x_msg (X i))
           in [(u ''retryable'', JBool (hinted RETRYABLE_NAME_HINTS name \<or> hinted RETRYABLE_MSG_HINTS msg)),
               (u ''auth'', JBool (hinted AUTH_NAME_HINTS name \<or> contains msg (u ''401'') \<or> contains msg (u ''403'')
                   \<or> hinted AUTH_MSG_HINTS msg)),
               (u ''classified_by'', JStr (u ''heuristic''))]))"

definition is_retryable_error :: "pyuni \<Rightarrow> (nat \<Rightarrow> pexc) \<Rightarrow> nat \<Rightarrow> bool" where
  "is_retryable_error U X i = truthy U (aget (classify_error U X i) ''retryable'')"

definition is_auth_error :: "pyuni \<Rightarrow> (nat \<Rightarrow> pexc) \<Rightarrow> nat \<Rightarrow> bool" where
  "is_auth_error U X i = truthy U (aget (classify_error U X i) ''auth'')"

definition provider_of_ref :: "pystr \<Rightarrow> pystr" where
  "provider_of_ref r = (if r = [] \<or> r = u ''unknown'' then [] else if 47 \<in> set r then before_first 47 r else [])"


section \<open>Metering: lemmas\<close>

lemma record_one_total:
  "input_tokens (total (record_one A T c tr)) = input_tokens (total tr) + mc_in c"
  "output_tokens (total (record_one A T c tr)) = output_tokens (total tr) + mc_out c"
  by (simp_all add: record_one_def record_call_loop share_loop_frame record_aggregate_def Let_def bump_def)

fun record_all :: "'f senv \<Rightarrow> (message \<times> pystr list) list \<Rightarrow> 'f stream \<Rightarrow> usage_error + 'f stream" where
  "record_all E [] s = Inr s"
| "record_all E ((m, ns) # xs) s = bind_sum (record_usage E m ns s) (record_all E xs)"

text \<open>The counts that a list of messages reports, each with the stream it belongs to.\<close>

definition reading :: "'f senv \<Rightarrow> 'f stream \<Rightarrow> message \<times> pystr list \<Rightarrow> ((pystr \<times> pystr \<times> pystr) \<times> TokenCounts) list" where
  "reading E s x = (case normalize_usage (e_uni E) (e_conv E) (m_usage (fst x)) of
      Inr (Some c) \<Rightarrow> [(usage_key E s (snd x) (fst x), c)] | _ \<Rightarrow> [])"

definition readings :: "'f senv \<Rightarrow> 'f stream \<Rightarrow> (message \<times> pystr list) list \<Rightarrow> ((pystr \<times> pystr \<times> pystr) \<times> TokenCounts) list" where
  "readings E s xs = concat (map (reading E s) xs)"

text \<open>What one stream owes: its readings are cut into calls where a count falls, and every call owes its
  last reading. \<open>p\<close> is the reading before the list.\<close>

fun billed :: "(TokenCounts \<Rightarrow> int) \<Rightarrow> TokenCounts option \<Rightarrow> TokenCounts list \<Rightarrow> int" where
  "billed g None [] = 0"
| "billed g (Some p) [] = g p"
| "billed g None (c # cs) = billed g (Some c) cs"
| "billed g (Some p) (c # cs) = (if continues p c then 0 else g p) + billed g (Some c) cs"

definition of_key :: "'k \<Rightarrow> ('k \<times> 'c) list \<Rightarrow> 'c list" where
  "of_key k rs = map snd (filter (\<lambda>r. fst r = k) rs)"

lemma of_key_simps [simp]:
  "of_key k [] = []" "of_key k (r # rs) = (if fst r = k then [snd r] else []) @ of_key k rs"
  "of_key k (rs @ rs') = of_key k rs @ of_key k rs'"
  by (simp_all add: of_key_def)

lemma of_key_Nil: "k \<notin> fst ` set rs \<Longrightarrow> of_key k rs = []"
  by (induction rs) auto

lemma billed_same:
  "tc_input p = tc_input c \<Longrightarrow> tc_output p = tc_output c \<Longrightarrow> g \<in> {tc_input, tc_output} \<Longrightarrow>
     billed g (Some p) cs = billed g (Some c) cs"
  by (cases cs) (auto simp: continues_def)

definition figure_of :: "(TokenCounts \<Rightarrow> int) \<Rightarrow> ('f Usage \<Rightarrow> int) \<Rightarrow> bool" where
  "figure_of g f \<longleftrightarrow> (g = tc_input \<and> f = input_tokens) \<or> (g = tc_output \<and> f = output_tokens)"

lemma meter_frame: "s_thread (meter E m k c s) = s_thread s" "s_main_model (meter E m k c s) = s_main_model s"
  "s_known_refs (meter E m k c s) = s_known_refs s"
  by (simp_all add: meter_def Let_def split: option.split)

lemma usage_key_meter: "usage_key E (meter E m k c s) = usage_key E s"
  by (intro ext) (simp add: usage_key_def resolve_model_ref_def meter_frame Let_def)

lemma meter_other: "k' \<noteq> k \<Longrightarrow> dget (s_totals (meter E m k c s)) k' = dget (s_totals s) k'"
  by (simp add: meter_def Let_def dget_dput split: option.split)

lemma meter_step:
  assumes "figure_of g f"
  shows "f (total (s_tracker (meter E m k c s))) + billed g (dget (s_totals (meter E m k c s)) k) cs
       - billed g (dget (s_totals (meter E m k c s)) k) []
     = f (total (s_tracker s)) + billed g (dget (s_totals s) k) (c # cs) - billed g (dget (s_totals s) k) []"
proof (cases "dget (s_totals s) k")
  case None
  with assms show ?thesis
    by (auto simp: meter_def Let_def dget_dput figure_of_def record_one_total usage_call_def)
next
  case (Some p)
  show ?thesis
  proof (cases "continues p c \<and> counts_zero (counts_sub c p)")
    case True
    then have eq: "tc_input p = tc_input c" "tc_output p = tc_output c"
      by (auto simp: continues_def counts_zero_def counts_sub_def)
    from True Some have "meter E m k c s = s" by (simp add: meter_def Let_def)
    with True Some eq billed_same[OF eq, of g cs] assms show ?thesis by (auto simp: figure_of_def)
  next
    case False
    with assms Some show ?thesis
      by (auto simp: meter_def Let_def dget_dput figure_of_def record_one_total usage_call_def counts_sub_def continues_def)
  qed
qed

lemma metered_gen:
  assumes "record_all E xs s = Inr s'" "finite K" "fst ` set (readings E s xs) \<subseteq> K" "figure_of g f"
  shows "f (total (s_tracker s')) + (\<Sum>k\<in>K. billed g (dget (s_totals s) k) [])
     = f (total (s_tracker s)) + (\<Sum>k\<in>K. billed g (dget (s_totals s) k) (of_key k (readings E s xs)))"
  using assms(1,3)
proof (induction xs arbitrary: s)
  case (Cons x xs)
  obtain m ns where x: "x = (m, ns)" by force
  show ?case
  proof (cases "normalize_usage (e_uni E) (e_conv E) (m_usage m)")
    case (Inl e)
    with Cons.prems(1) show ?thesis by (simp add: x record_usage_def bind_sum_def)
  next
    case (Inr v)
    show ?thesis
    proof (cases v)
      case None
      with Inr Cons show ?thesis by (simp add: x record_usage_def bind_sum_def readings_def reading_def)
    next
      case (Some c)
      let ?k = "usage_key E s ns m"
      let ?s = "meter E m ?k c s"
      have ra: "record_all E xs ?s = Inr s'"
        using Cons.prems(1) Inr Some by (simp add: x record_usage_def bind_sum_def)
      have "reading E ?s = reading E s" by (intro ext) (simp add: reading_def usage_key_meter split: sum.split option.split)
      then have same: "readings E ?s xs = readings E s xs" by (simp add: readings_def)
      have rd: "readings E s (x # xs) = (?k, c) # readings E s xs"
        using Inr Some by (simp add: x readings_def reading_def)
      have kK: "?k \<in> K" and sub: "fst ` set (readings E s xs) \<subseteq> K" using Cons.prems(2) rd by auto
      let ?R = "readings E s xs"
      have IH: "f (total (s_tracker s')) + (\<Sum>k\<in>K. billed g (dget (s_totals ?s) k) [])
          = f (total (s_tracker ?s)) + (\<Sum>k\<in>K. billed g (dget (s_totals ?s) k) (of_key k ?R))"
        using Cons.IH[OF ra] same sub by simp
      have oth: "(\<Sum>k\<in>K - {?k}. billed g (dget (s_totals ?s) k) []) = (\<Sum>k\<in>K - {?k}. billed g (dget (s_totals s) k) [])"
        "(\<Sum>k\<in>K - {?k}. billed g (dget (s_totals ?s) k) (of_key k ?R))
           = (\<Sum>k\<in>K - {?k}. billed g (dget (s_totals s) k) (of_key k (readings E s (x # xs))))"
        by (intro sum.cong refl; auto simp: meter_other rd)+
      have spl: "(\<Sum>k\<in>K. h k) = h ?k + (\<Sum>k\<in>K - {?k}. h k)" for h :: "pystr \<times> pystr \<times> pystr \<Rightarrow> int"
        by (rule sum.remove[OF assms(2) kK])
      have st: "of_key ?k (readings E s (x # xs)) = c # of_key ?k ?R" by (simp add: rd)
      show ?thesis
        using IH meter_step[OF assms(4), of E m ?k c s "of_key ?k ?R"] unfolding spl oth st by linarith
    qed
  qed
qed (simp add: readings_def)

section \<open>Tool starts: lemmas\<close>

definition start_ids :: "Event list \<Rightarrow> json list" where
  "start_ids es = concat (map (\<lambda>e. case dget (edata e) (u ''tool_call_id'') of None \<Rightarrow> [] | Some v \<Rightarrow> [v]) es)"

lemma start_ids_append [simp]: "start_ids [] = []" "start_ids (es @ fs) = start_ids es @ start_ids fs"
  by (simp_all add: start_ids_def)

fun updates_all :: "'f senv \<Rightarrow> ('i update_chunk \<times> pystr list) list \<Rightarrow> 'f stream \<Rightarrow> Event list \<times> 'f stream" where
  "updates_all E [] s = ([], s)"
| "updates_all E ((c, ns) # cs) s =
     (case handle_update_chunk E c ns s of (es, _, s1) \<Rightarrow> (case updates_all E cs s1 of (fs, s2) \<Rightarrow> (es @ fs, s2)))"

text \<open>Fresh starts: the ids of the events are new, distinct and remembered afterwards.\<close>

definition fresh_starts :: "'f stream \<Rightarrow> Event list \<Rightarrow> 'f stream \<Rightarrow> bool" where
  "fresh_starts s es s' \<longleftrightarrow> set (s_seen s) \<subseteq> set (s_seen s') \<and> distinct (start_ids es)
     \<and> set (start_ids es) \<inter> JStr ` set (s_seen s) = {} \<and> set (start_ids es) \<subseteq> JStr ` set (s_seen s')"

lemma fresh_starts_refl [simp]: "fresh_starts s [] s' \<longleftrightarrow> set (s_seen s) \<subseteq> set (s_seen s')"
  by (simp add: fresh_starts_def)

lemma fresh_starts_append:
  "fresh_starts s es s1 \<Longrightarrow> fresh_starts s1 fs s2 \<Longrightarrow> fresh_starts s (es @ fs) s2"
  unfolding fresh_starts_def by (auto simp: disjoint_iff) blast+

lemma fresh_tool_start: "tool_start E ns a c s = (e, s') \<Longrightarrow> fresh_starts s (case e of None \<Rightarrow> [] | Some x \<Rightarrow> [x]) s'"
proof (cases "call_id c \<noteq> None \<and> the (call_id c) \<in> set (s_seen s)")
  case False
  assume t: "tool_start E ns a c s = (e, s')"
  have seen: "s_seen s' = (case call_id c of None \<Rightarrow> s_seen s | Some i \<Rightarrow> i # s_seen s)"
    using t False by (auto simp: tool_start_def Let_def split: option.split)
  obtain x args more where x: "e = Some x"
      "edata x = [(u ''args'', args)] @ (if or_empty (call_id c) \<noteq> [] then [(u ''tool_call_id'', JStr (or_empty (call_id c)))] else [])
         @ (if more \<noteq> [] then [(u ''agent'', JStr more)] else [])"
    using t False by (simp only: tool_start_def Let_def if_False prod.inject ev_def) (metis Event.select_convs)
  have k: "u ''args'' \<noteq> u ''tool_call_id''" "u ''agent'' \<noteq> u ''tool_call_id''" by (simp_all add: u_def)
  have ids: "start_ids [x] = (if or_empty (call_id c) \<noteq> [] then [JStr (or_empty (call_id c))] else [])"
    using k by (simp add: start_ids_def x(2))
  show ?thesis
    using False by (cases "call_id c") (auto simp: x(1) fresh_starts_def seen ids or_empty_def)
qed (simp add: tool_start_def)

lemma fresh_tool_starts: "tool_starts E ns a cs s = (es, s') \<Longrightarrow> fresh_starts s es s'"
proof (induction cs arbitrary: s es s')
  case (Cons c cs)
  obtain e s1 where t: "tool_start E ns a c s = (e, s1)" by force
  obtain fs s2 where r: "tool_starts E ns a cs s1 = (fs, s2)" by force
  from Cons.prems t r have "es = (case e of None \<Rightarrow> [] | Some x \<Rightarrow> [x]) @ fs" "s' = s2" by (auto split: option.splits)
  with fresh_starts_append[OF fresh_tool_start[OF t] Cons.IH[OF r]] show ?case by simp
qed simp

lemma agent_seen: "s_seen (snd (agent_for_namespace ns s)) = s_seen s"
  by (simp add: agent_for_namespace_def split: list.split option.split)

lemma fresh_update:
  assumes "handle_update_chunk E c ns s = (es, is, s')"
  shows "fresh_starts s es s'"
proof (cases c)
  case (ChunkNodes us)
  obtain a s1 where n: "agent_for_namespace ns s = (a, s1)" by force
  then have "s_seen s1 = s_seen s" using agent_seen[of ns s] by simp
  moreover have "fresh_starts s1 es s'"
    using assms n ChunkNodes by (auto simp: handle_update_chunk_def split: prod.splits intro!: fresh_tool_starts)
  ultimately show ?thesis by (simp add: fresh_starts_def)
qed (use assms in \<open>auto simp: handle_update_chunk_def\<close>)

lemma fresh_updates: "updates_all E cs s = (es, s') \<Longrightarrow> fresh_starts s es s'"
proof (induction cs arbitrary: s es s')
  case (Cons x cs)
  obtain c ns where x: "x = (c, ns)" by force
  obtain e1 i1 s1 where h: "handle_update_chunk E c ns s = (e1, i1, s1)" by (metis prod_cases3)
  obtain fs s2 where r: "updates_all E cs s1 = (fs, s2)" by force
  from Cons.prems x h r have "es = e1 @ fs" "s' = s2" by auto
  with fresh_starts_append[OF fresh_update[OF h] Cons.IH[OF r]] show ?case by simp
qed simp

section \<open>Properties\<close>

definition demo_senv :: "rat senv" where
  "demo_senv = \<lparr>e_uni = ascii_uni, e_conv = demo_conv, e_flops = rat_flops, e_tables = demo_tables, e_known = []\<rparr>"

definition demo_stream :: "rat stream" where
  "demo_stream = \<lparr>s_thread = u ''t'', s_main_model = u ''opus'', s_known_refs = [], s_pending = [], s_ns_agent = [],
     s_seen = [], s_last_edit = [], s_totals = [], s_tracker = demo_tracker\<rparr>"

definition demo_usage :: "int \<Rightarrow> int \<Rightarrow> message" where
  "demo_usage i j = \<lparr>m_type = u ''ai'', m_id = None, m_name = None, m_content = CStr [], m_tool_calls = [],
     m_call_chunks = [], m_tool_call_id = None,
     m_usage = Some [(u ''input_tokens'', JInt i), (u ''output_tokens'', JInt j)], m_metadata = None, m_reasoning = None\<rparr>"

text \<open>
  What the provider charges, stated without the bookkeeping of the code: every streamed message belongs to a call of a model, which the
  list names by a number, and reports the cumulative counts of its call. \<open>charged\<close> lists the readings with the number of their call, the
  subagent and the model.
\<close>

definition subgraph :: "pystr list \<Rightarrow> pystr" where
  "subgraph ns = (if ns = [] then [] else hd ns)"

definition charged :: "'f senv \<Rightarrow> 'f stream \<Rightarrow> (nat \<times> message \<times> pystr list) list \<Rightarrow> (nat \<times> (pystr \<times> pystr) \<times> TokenCounts) list" where
  "charged E s evs = concat (map (\<lambda>(i, m, ns).
     (case normalize_usage (e_uni E) (e_conv E) (m_usage m) of
        Inr (Some c) \<Rightarrow> [(i, (subgraph ns, resolve_model_ref (e_uni E) s m), c)] | _ \<Rightarrow> [])) evs)"

definition at_least :: "TokenCounts \<Rightarrow> TokenCounts \<Rightarrow> bool" where
  "at_least d c \<longleftrightarrow> tc_input c \<le> tc_input d \<and> tc_output c \<le> tc_output d"

text \<open>The calls of one subagent to one model: they follow one another, the counts of a call only grow, and the next call begins lower in the
  input or the output.\<close>

fun one_by_one :: "(nat \<times> TokenCounts) list \<Rightarrow> bool" where
  "one_by_one ((i, c) # (j, d) # l) \<longleftrightarrow>
     (if i = j then at_least d c else \<not> at_least d c \<and> i \<notin> fst ` set ((j, d) # l)) \<and> one_by_one ((j, d) # l)"
| "one_by_one _ \<longleftrightarrow> True"

definition calls_of :: "'o \<Rightarrow> (nat \<times> 'o \<times> TokenCounts) list \<Rightarrow> (nat \<times> TokenCounts) list" where
  "calls_of x rs = map (\<lambda>(i, _, c). (i, c)) (filter (\<lambda>(_, y, _). y = x) rs)"

definition well_streamed :: "(nat \<times> 'o \<times> TokenCounts) list \<Rightarrow> bool" where
  "well_streamed rs \<longleftrightarrow> (\<forall>(_, x, _)\<in>set rs. one_by_one (calls_of x rs))
     \<and> (\<forall>(i, x, _)\<in>set rs. \<forall>(j, y, _)\<in>set rs. i = j \<longrightarrow> x = y)"

definition final_reading :: "nat \<Rightarrow> (nat \<times> 'a) list \<Rightarrow> 'a" where
  "final_reading i l = snd (last (filter (\<lambda>r. fst r = i) l))"

lemma final_Cons: "final_reading i (r # l) = (if i \<in> fst ` set l then final_reading i l else if fst r = i then snd r else final_reading i l)"
  by (auto simp: final_reading_def filter_empty_conv)

lemma billed_calls:
  "one_by_one l \<Longrightarrow> billed g None (map snd l) = (\<Sum>i\<in>fst ` set l. g (final_reading i l))"
proof (induction l rule: one_by_one.induct)
  case (1 i c j d l)
  let ?t = "(j, d) # l"
  have IH: "billed g None (map snd ?t) = (\<Sum>k\<in>fst ` set ?t. g (final_reading k ?t))" using 1 by auto
  show ?case
  proof (cases "i = j")
    case True
    then have "fst ` set ((i, c) # ?t) = fst ` set ?t" by auto
    moreover have "final_reading k ((i, c) # ?t) = final_reading k ?t" if "k \<in> fst ` set ?t" for k using that by (simp only: final_Cons if_True)
    moreover have "continues c d" using 1 True by (auto simp: at_least_def continues_def)
    ultimately show ?thesis using IH by simp
  next
    case False
    then have n: "i \<notin> fst ` set ?t" "\<not> continues c d" using 1 by (auto simp: at_least_def continues_def)
    have "(\<Sum>k\<in>insert i (fst ` set ?t). g (final_reading k ((i, c) # ?t)))
        = g (final_reading i ((i, c) # ?t)) + (\<Sum>k\<in>fst ` set ?t. g (final_reading k ((i, c) # ?t)))" using n(1) by (intro sum.insert) auto
    also have "final_reading i ((i, c) # ?t) = c" using n(1) final_Cons [of i "(i, c)" ?t] by (simp only: fst_conv snd_conv if_False if_True simp_thms)
    also have "(\<Sum>k\<in>fst ` set ?t. g (final_reading k ((i, c) # ?t))) = (\<Sum>k\<in>fst ` set ?t. g (final_reading k ?t))"
      by (intro sum.cong refl) (simp only: final_Cons if_True)
    finally show ?thesis using IH n(2) by simp
  qed
qed (auto simp: final_reading_def)

lemma readings_charged: "readings E s (map snd evs) = map (\<lambda>(_, (a, r), c). ((s_thread s, a, r), c)) (charged E s evs)"
  unfolding readings_def charged_def
proof (induction evs)
  case (Cons x xs)
  obtain i m ns where x: "x = (i, m, ns)" by (metis prod_cases3)
  have "subgraph ns = (case ns of [] \<Rightarrow> [] | n # _ \<Rightarrow> n)" by (cases ns) (simp_all add: subgraph_def)
  then show ?case using Cons by (simp add: x reading_def usage_key_def split: sum.split option.split)
qed simp

lemma of_key_charged: "of_key (t, a, r) (map (\<lambda>(_, (a, r), c). ((t, a, r), c)) rs) = map snd (calls_of (a, r) rs)"
  by (induction rs) (auto simp: calls_of_def)

lemma calls_of_ids: "fst ` set (calls_of x rs) = {i. \<exists>c. (i, x, c) \<in> set rs}"
  by (force simp: calls_of_def)

lemma one_origin: "well_streamed rs \<Longrightarrow> (i, x, c) \<in> set rs \<Longrightarrow> (i, y, d) \<in> set rs \<Longrightarrow> x = y"
  unfolding well_streamed_def by fast

lemma final_calls_of:
  assumes "well_streamed rs" "(i, x, c) \<in> set rs"
  shows "final_reading i (calls_of x rs) = snd (final_reading i rs)"
proof -
  have x: "y = x" if "(i, y, d) \<in> set rs" for y d using one_origin [OF assms] that by blast
  have f: "filter (\<lambda>r. fst r = i) (calls_of x rs) = map (\<lambda>(i, _, c). (i, c)) (filter (\<lambda>r. fst r = i) rs)"
  proof -
    have "filter (\<lambda>r. fst r = i) (calls_of x rs) = map (\<lambda>(i, _, c). (i, c)) (filter (\<lambda>r. fst r = i \<and> fst (snd r) = x) rs)"
      by (induction rs) (auto simp: calls_of_def)
    moreover have "filter (\<lambda>r. fst r = i \<and> fst (snd r) = x) rs = filter (\<lambda>r. fst r = i) rs" using x by (intro filter_cong) force+
    ultimately show ?thesis by simp
  qed
  have "filter (\<lambda>r. fst r = i) rs \<noteq> []" using assms(2) by (force simp: filter_empty_conv)
  then show ?thesis unfolding final_reading_def f by (simp add: last_map split_def)
qed

lemma billed_charged:
  fixes rs :: "(nat \<times> (pystr \<times> pystr) \<times> TokenCounts) list" and t :: pystr
  assumes "well_streamed rs"
  defines "ks \<equiv> map (\<lambda>(_, (a, r), c). ((t, a, r), c)) rs"
  shows "(\<Sum>k\<in>fst ` set ks. billed g None (of_key k ks)) = (\<Sum>i\<in>fst ` set rs. g (snd (final_reading i rs)))"
proof -
  let ?X = "(\<lambda>(_, x, _). x) ` set rs" and ?ids = "\<lambda>x. fst ` set (calls_of x rs)"
  have X: "fst ` set ks = Pair t ` ?X" unfolding ks_def by force
  have "(\<Sum>k\<in>fst ` set ks. billed g None (of_key k ks)) = (\<Sum>x\<in>?X. billed g None (map snd (calls_of x rs)))"
    unfolding X by (subst sum.reindex) (auto simp: inj_on_def ks_def of_key_charged split_paired_all intro!: sum.cong)
  also have "\<dots> = (\<Sum>x\<in>?X. \<Sum>i\<in>?ids x. g (snd (final_reading i rs)))"
  proof (intro sum.cong refl)
    fix x assume "x \<in> ?X"
    then have o: "one_by_one (calls_of x rs)" using assms(1) unfolding well_streamed_def by fast
    have "final_reading i (calls_of x rs) = snd (final_reading i rs)" if "i \<in> ?ids x" for i
      using that final_calls_of [OF assms(1)] unfolding calls_of_ids by blast
    then show "billed g None (map snd (calls_of x rs)) = (\<Sum>i\<in>?ids x. g (snd (final_reading i rs)))"
      using billed_calls [OF o, of g] by (simp cong: sum.cong)
  qed
  also have "\<dots> = (\<Sum>i\<in>(\<Union>x\<in>?X. ?ids x). g (snd (final_reading i rs)))"
  proof (rule sum.UNION_disjoint [symmetric])
    show "\<forall>x\<in>?X. \<forall>y\<in>?X. x \<noteq> y \<longrightarrow> ?ids x \<inter> ?ids y = {}"
    proof (intro ballI impI)
      fix x y :: "pystr \<times> pystr" assume "x \<noteq> y"
      moreover have "x = y" if "i \<in> fst ` set (calls_of x rs)" "i \<in> fst ` set (calls_of y rs)" for i
        using one_origin [OF assms(1)] that unfolding calls_of_ids by blast
      ultimately show "?ids x \<inter> ?ids y = {}" by blast
    qed
  qed simp_all
  also have "(\<Union>x\<in>?X. ?ids x) = fst ` set rs" by (force simp: calls_of_ids)
  finally show ?thesis .
qed



text \<open>Without the proviso the total is too small: a second call of the main agent that begins higher than the first ended is taken for its
  continuation, so that two calls of 100 and 150 input tokens are recorded as 150.\<close>

lemma later_call_taken_for_continuation:
  "\<exists>s'. record_all demo_senv [(demo_usage 100 10, []), (demo_usage 150 20, [])] demo_stream = Inr s' \<and> input_tokens (total (s_tracker s')) = 150"
proof -
  let ?r = "record_all demo_senv [(demo_usage 100 10, []), (demo_usage 150 20, [])] demo_stream"
  have "(case ?r of Inl _ \<Rightarrow> False | Inr s' \<Rightarrow> input_tokens (total (s_tracker s')) = 150)" by code_simp
  then show ?thesis by (cases ?r) auto
qed

text \<open>
  The stream repeats update chunks. A tool call with an id is announced once in a turn, whatever chunks
  arrive in whatever order, from the main graph or a subagent.
\<close>

theorem tool_start_announced_once: "distinct (start_ids (fst (updates_all E cs s)))"
  using fresh_updates[of E cs s] by (cases "updates_all E cs s") (auto simp: fresh_starts_def)

text \<open>
  A failure whose own status code or class is conclusive is never both retryable and an authentication
  failure, and a rejected key (401 or 403) is never retryable, whatever caused it.
\<close>

lemma status_exclusive: "classify_by_status st = Some (r, a) \<Longrightarrow> \<not> (r \<and> a)"
  by (simp add: classify_by_status_def split: option.splits if_splits)

lemma other_exclusive: "or_other (classify_by_status st) = (r, a) \<Longrightarrow> \<not> (r \<and> a)"
  using status_exclusive by (cases "classify_by_status st") (auto simp: or_other_def)

lemma typed_exclusive: "classify_single_typed x = Some (r, a) \<Longrightarrow> \<not> (r \<and> a)"
  unfolding classify_single_typed_def Let_def
  by (simp split: if_split_asm; blast dest: status_exclusive other_exclusive)

lemma first_verdict_typed: "first_verdict xs = Some v \<Longrightarrow> \<exists>x. classify_single_typed x = Some v"
  by (induction xs) (auto split: option.splits)

theorem typed_failure_exclusive:
  assumes "aget (classify_error U X i) ''classified_by'' = JStr (u ''type'')"
  shows "\<not> (is_retryable_error U X i \<and> is_auth_error U X i)"
proof (cases "first_verdict (map X (iter_exc_chain X 6 [] (Some i)))")
  case (Some v)
  obtain r a where v: "v = (r, a)" by force
  with Some first_verdict_typed typed_exclusive have "\<not> (r \<and> a)" by blast
  with Some v show ?thesis by (simp add: is_retryable_error_def is_auth_error_def classify_error_def aget_def)
qed (use assms in \<open>simp add: classify_error_def aget_def Let_def\<close>)

theorem rejected_key_not_retryable:
  assumes "x_status (X i) = Some 401 \<or> x_status (X i) = Some 403"
  shows "is_auth_error U X i \<and> \<not> is_retryable_error U X i"
proof -
  have st: "classify_by_status (x_status (X i)) = Some (False, True)"
    using assms by (auto simp: classify_by_status_def)
  have "classify_single_typed (X i) = Some (False, True)"
    using st by (simp add: classify_single_typed_def Let_def)
  then have "first_verdict (map X (iter_exc_chain X 6 [] (Some i))) = Some (False, True)"
    by (simp add: numeral_eq_Suc)
  then show ?thesis by (simp add: is_retryable_error_def is_auth_error_def classify_error_def aget_def)
qed

text \<open>
  The summary of a search result parses every URL it lists. One that \<^verbatim>\<open>urlparse\<close> refuses makes the
  handling of the tool's message raise, which ends the turn with an error although the search succeeded.
\<close>

definition bad_search :: message where
  "bad_search = \<lparr>m_type = u ''tool'', m_id = None, m_name = Some (u ''web_search''),
     m_content = CStr (u ''- A page'' @ [10] @ u ''  http://[oops''), m_tool_calls = [], m_call_chunks = [],
     m_tool_call_id = None, m_usage = None, m_metadata = None, m_reasoning = None\<rparr>"

theorem search_result_raises: "fst (handle_message_chunk E bad_search [] s) = Inl SValue"
proof -
  have urls: "find_urls True (strip_ws (text_of (m_content bad_search))) = [u ''http://[oops'']"
    and sch: "\<not> startswith (u ''http://[oops'') (u ''https://'')" "drop 7 (u ''http://[oops'') = u ''[oops''"
    by code_simp+
  have "url_hostname U (u ''[oops'') = Inl ValueError" for U
    by (simp add: url_hostname_def u_def Let_def)
  then have "web_search_summary U (strip_ws (text_of (m_content bad_search))) = Inl ValueError" for U
    by (simp add: web_search_summary_def urls summary_host_def sch)
  then have "tool_end (e_uni E) bad_search = Inl ValueError"
    by (simp add: tool_end_def tool_summary_def bad_search_def or_empty_def)
  then show ?thesis
    by (simp add: handle_message_chunk_def record_usage_def normalize_usage_def agent_for_namespace_def bad_search_def)
qed

end
