(* ===== verification/Verify.thy ===== *)
theory Verify
  imports Interrupts Json
begin

text \<open>
  The verification gate, \<^verbatim>\<open>src/src/jarn/agent/verify.py\<close>: which commands check a project, which package scripts
  may run without supervision, and how the gate runs them after edits, under the same permission
  policy as the agent's own shell commands.

  The files of the project are the record \<open>project_fs\<close>; the one-line summary of a command's output
  and the sum of its durations are parameters. \<open>ran\<close> in a result is the list of the commands
  executed.
\<close>

section \<open>Package scripts\<close>

definition UNSAFE_SCRIPT_TOKENS :: "pystr list" where
  "UNSAFE_SCRIPT_TOKENS = map u [''fix'', ''write'', ''watch'', ''dev'', ''serve'', ''start'']"
definition UNSAFE_SCRIPT_BODY_MARKERS :: "pystr list" where
  "UNSAFE_SCRIPT_BODY_MARKERS = map u [''--fix'', ''--write'', '':fix'', '':write'', ''--watch'']"

definition split_script_tokens :: "pyuni \<Rightarrow> pystr \<Rightarrow> pystr list" where
  "split_script_tokens U name =
     filter (\<lambda>t. t \<noteq> []) (concat (map (split_chr 45) (split_chr 58 (lower U name))))"

definition is_verify_safe :: "pyuni \<Rightarrow> pystr \<Rightarrow> json \<Rightarrow> exn + bool" where
  "is_verify_safe U name body =
     (let txt = (if truthy U body then py_str U body else [])
      in if list_ex (\<lambda>t. t \<in> set UNSAFE_SCRIPT_TOKENS) (split_script_tokens U name) then Inr False
         else if list_ex (contains (lower U txt)) UNSAFE_SCRIPT_BODY_MARKERS then Inr False
         else if strip_ws txt \<noteq> []
         then map_sum id (\<lambda>v. level v \<notin> {DANGEROUS, BLOCKED}) (inspect_command U txt None)
         else Inr True)"

text \<open>\<^verbatim>\<open>shlex.quote\<close>\<close>

definition quote_safe :: "int \<Rightarrow> bool" where
  "quote_safe c \<longleftrightarrow> ascii_alnum c \<or> c = 95 \<or> c \<in> set (u ''@%+=:,./-'')"

definition shlex_quote :: "pystr \<Rightarrow> pystr" where
  "shlex_quote s =
     (if s = [] then [39, 39]
      else if list_all quote_safe s then s
      else 39 # concat (map (\<lambda>c. if c = 39 then [39, 34, 39, 34, 39] else [c]) s) @ [39])"

section \<open>Detection\<close>

datatype read_result = ReadOk pystr | ReadOSError | ReadUnicodeError

record project_fs =
  pf_is_dir :: bool
  pf_file :: "pystr \<Rightarrow> bool"
  pf_dir :: "pystr \<Rightarrow> bool"
  pf_read :: "pystr \<Rightarrow> read_result"

record capabilities =
  cap_test :: "pystr list"
  cap_build :: "pystr list"
  cap_lint :: "pystr list"

datatype verify_error = VUnicode | VAttribute | VGuard exn

definition NODE_SCRIPT_BUCKETS :: "(pystr list \<times> nat) list" where
  "NODE_SCRIPT_BUCKETS = [([u ''test''], 0), ([u ''build''], 1), ([u ''lint''], 2), ([u ''check'', u ''typecheck''], 2)]"

definition add_cap :: "nat \<Rightarrow> pystr \<Rightarrow> capabilities \<Rightarrow> capabilities" where
  "add_cap b c caps =
     (if b = 0 then caps\<lparr>cap_test := add_once c (cap_test caps)\<rparr>
      else if b = 1 then caps\<lparr>cap_build := add_once c (cap_build caps)\<rparr>
      else caps\<lparr>cap_lint := add_once c (cap_lint caps)\<rparr>)"

fun script_bucket :: "pystr list \<Rightarrow> (pystr list \<times> nat) list \<Rightarrow> nat option" where
  "script_bucket toks [] = None"
| "script_bucket toks ((ks, b) # bs) = (if list_ex (\<lambda>t. t \<in> set ks) toks then Some b else script_bucket toks bs)"

definition script_command :: "pystr \<Rightarrow> pystr \<Rightarrow> pystr" where
  "script_command runner name = runner @ [32] @ shlex_quote name"

fun add_scripts :: "pyuni \<Rightarrow> pystr \<Rightarrow> (pystr \<times> json) list \<Rightarrow> capabilities \<Rightarrow> verify_error + capabilities" where
  "add_scripts U runner [] caps = Inr caps"
| "add_scripts U runner ((name, body) # ss) caps =
     (case is_verify_safe U name body of
        Inl e \<Rightarrow> Inl (VGuard e)
      | Inr False \<Rightarrow> add_scripts U runner ss caps
      | Inr True \<Rightarrow> add_scripts U runner ss
          (case script_bucket (split_script_tokens U name) NODE_SCRIPT_BUCKETS of
             None \<Rightarrow> caps | Some b \<Rightarrow> add_cap b (script_command runner name) caps))"

definition node_runner :: "project_fs \<Rightarrow> pystr" where
  "node_runner P = (if pf_file P (u ''pnpm-lock.yaml'') then u ''pnpm''
     else if pf_file P (u ''yarn.lock'') then u ''yarn''
     else if pf_file P (u ''bun.lockb'') then u ''bun run'' else u ''npm run'')"

definition detect_node :: "pyuni \<Rightarrow> project_fs \<Rightarrow> capabilities \<Rightarrow> verify_error + capabilities" where
  "detect_node U P caps =
     (if \<not> pf_file P (u ''package.json'') then Inr caps
      else case pf_read P (u ''package.json'') of
          ReadOSError \<Rightarrow> Inr caps
        | ReadUnicodeError \<Rightarrow> Inl VUnicode
        | ReadOk t \<Rightarrow>
            (case json_loads t of
               None \<Rightarrow> Inr caps
             | Some (JObj data) \<Rightarrow>
                 (case aget_or U data [''scripts''] (JObj []) of
                    JObj scripts \<Rightarrow> add_scripts U (node_runner P) scripts caps
                  | _ \<Rightarrow> Inl VAttribute)
             | Some _ \<Rightarrow> Inl VAttribute))"

definition pyproject_text :: "project_fs \<Rightarrow> verify_error + pystr" where
  "pyproject_text P =
     (if \<not> pf_file P (u ''pyproject.toml'') then Inr []
      else case pf_read P (u ''pyproject.toml'') of
        ReadOk t \<Rightarrow> Inr t | ReadOSError \<Rightarrow> Inr [] | ReadUnicodeError \<Rightarrow> Inl VUnicode)"

definition has_pytest_config :: "project_fs \<Rightarrow> pystr \<Rightarrow> bool" where
  "has_pytest_config P t \<longleftrightarrow> pf_file P (u ''pytest.ini'') \<or> contains t (u ''[tool.pytest.ini_options]'')
     \<or> contains t (u ''[tool.pytest]'')
     \<or> list_ex (\<lambda>(q, r). contains t (q # u ''pytest'' @ [r])) [(34, 34), (34, 39), (39, 34), (39, 39)]"

definition has_ruff_config :: "project_fs \<Rightarrow> pystr \<Rightarrow> bool" where
  "has_ruff_config P t \<longleftrightarrow> pf_file P (u ''ruff.toml'') \<or> contains t (u ''[tool.ruff]'')"

definition detect_python :: "project_fs \<Rightarrow> capabilities \<Rightarrow> verify_error + capabilities" where
  "detect_python P caps =
     map_sum id (\<lambda>t.
       (let c1 = (if has_pytest_config P t \<and> (pf_dir P (u ''tests'') \<or> pf_file P (u ''pyproject.toml''))
                  then caps\<lparr>cap_test := cap_test caps @ [u ''pytest -q'']\<rparr> else caps)
        in if has_ruff_config P t then c1\<lparr>cap_lint := cap_lint c1 @ [u ''ruff check .'']\<rparr> else c1)) (pyproject_text P)"

text \<open>The targets of a makefile: the names at the start of a line that white space and a colon follow.\<close>

definition target_chr :: "int \<Rightarrow> bool" where
  "target_chr c \<longleftrightarrow> ascii_alnum c \<or> c \<in> {95, 46, 45}"

fun make_targets :: "bool \<Rightarrow> pystr \<Rightarrow> pystr list" where
  "make_targets bol [] = []"
| "make_targets bol (c # cs) =
     (let w = takeWhile target_chr (c # cs); rest = dropWhile isspace (drop (length w) (c # cs))
      in (if bol \<and> w \<noteq> [] \<and> startswith rest [58] then [w] else []) @ make_targets (c = 10) cs)"

definition detect_make :: "project_fs \<Rightarrow> capabilities \<Rightarrow> verify_error + capabilities" where
  "detect_make P caps =
     (if \<not> pf_file P (u ''Makefile'') then Inr caps
      else case pf_read P (u ''Makefile'') of
          ReadOSError \<Rightarrow> Inr caps
        | ReadUnicodeError \<Rightarrow> Inl VUnicode
        | ReadOk t \<Rightarrow>
            (let ts = make_targets True t;
                 mk = (\<lambda>n xs. if u n \<in> set ts then xs @ [u (''make '' @ n)] else xs)
             in Inr \<lparr>cap_test = mk ''test'' (cap_test caps), cap_build = mk ''build'' (cap_build caps),
                     cap_lint = mk ''lint'' (cap_lint caps)\<rparr>))"

definition detect_rust_go :: "project_fs \<Rightarrow> capabilities \<Rightarrow> capabilities" where
  "detect_rust_go P caps =
     (let c1 = (if pf_file P (u ''Cargo.toml'')
            then caps\<lparr>cap_test := cap_test caps @ [u ''cargo test''], cap_build := cap_build caps @ [u ''cargo build'']\<rparr> else caps)
      in if pf_file P (u ''go.mod'')
         then c1\<lparr>cap_test := cap_test c1 @ [u ''go test ./...''], cap_build := cap_build c1 @ [u ''go build ./...'']\<rparr> else c1)"

definition detect_capabilities :: "pyuni \<Rightarrow> project_fs \<Rightarrow> verify_error + capabilities" where
  "detect_capabilities U P =
     (let c0 = \<lparr>cap_test = [], cap_build = [], cap_lint = []\<rparr>
      in if \<not> pf_is_dir P then Inr c0
         else case detect_node U P c0 of Inl e \<Rightarrow> Inl e
           | Inr c1 \<Rightarrow> (case detect_python P c1 of Inl e \<Rightarrow> Inl e
               | Inr c2 \<Rightarrow> map_sum id (detect_rust_go P) (detect_make P c2)))"

definition primary_test_command :: "pyuni \<Rightarrow> project_fs option \<Rightarrow> verify_error + pystr option" where
  "primary_test_command U root = (case root of None \<Rightarrow> Inr None
     | Some P \<Rightarrow> map_sum id (\<lambda>c. case cap_test c of [] \<Rightarrow> None | t # _ \<Rightarrow> Some t) (detect_capabilities U P))"

definition dedupe :: "pystr list \<Rightarrow> pystr list" where
  "dedupe cs = fold add_once cs []"

definition gate_commands :: "pyuni \<Rightarrow> project_fs option \<Rightarrow> verify_error + pystr list" where
  "gate_commands U root = (case root of None \<Rightarrow> Inr []
     | Some P \<Rightarrow> map_sum id (\<lambda>c. dedupe (cap_test c @ cap_build c @ cap_lint c)) (detect_capabilities U P))"

definition as_prompt_block :: "capabilities \<Rightarrow> pystr" where
  "as_prompt_block c =
     (let line = (\<lambda>l cmd. u ''- '' @ u l @ u '': `'' @ cmd @ u ''`'')
      in if cap_test c = [] \<and> cap_build c = [] \<and> cap_lint c = [] then []
         else py_join [10] ([u ''# Verification commands (detected)'']
           @ map (line ''test'') (cap_test c) @ map (line ''build'') (cap_build c) @ map (line ''lint'') (cap_lint c)
           @ [10 # u ''Run the relevant command(s) to verify changes before reporting done.'']))"

section \<open>Running the gate\<close>

record exec_result =
  er_exit :: int
  er_output :: pystr
  er_secs :: json

record command_outcome =
  co_cmd :: pystr
  co_ok :: bool
  co_summary :: pystr
  co_output :: pystr
  co_secs :: json

record 'x verify_env =
  v_root :: "project_fs option"
  v_executor :: "(pystr \<Rightarrow> 'x \<Rightarrow> exec_result \<times> 'x) option"
  v_summarize :: "pystr \<Rightarrow> pystr \<Rightarrow> int \<Rightarrow> pystr"
  v_total :: "json list \<Rightarrow> json"

definition verify_payload :: "pystr \<Rightarrow> bool \<Rightarrow> string \<Rightarrow> pystr \<Rightarrow> json \<Rightarrow> args" where
  "verify_payload cmd ok md summary secs = [(u ''cmd'', JStr cmd), (u ''ok'', JBool ok), (u ''mode'', JStr (u md)),
     (u ''summary'', JStr summary), (u ''secs'', secs)]"

definition last_chars :: "nat \<Rightarrow> pystr \<Rightarrow> pystr" where
  "last_chars n s = drop (length s - n) s"

definition aggregate_outcomes :: "'x verify_env \<Rightarrow> command_outcome list \<Rightarrow> args" where
  "aggregate_outcomes V os =
     (let secs = v_total V (map co_secs os); failed = filter (\<lambda>c. \<not> co_ok c) os;
          joined = (\<lambda>cs. py_join (u '' && '') (map co_cmd cs))
      in if failed = [] then
           verify_payload (joined os) True ''auto''
             (if length os = 1 then co_summary (hd os) else str_int (int (length os)) @ u '' checks passed'') secs
         else (let full = py_join [10, 10] (map (\<lambda>c. u ''$ '' @ co_cmd c @ [10] @ co_output c)
                     (filter (\<lambda>c. co_output c \<noteq> []) failed))
               in verify_payload (joined failed) False ''auto''
                    (if length failed = 1 then co_summary (hd failed)
                     else py_join (u ''; '') (map (\<lambda>c. co_cmd c @ u '': '' @ co_summary c) failed)) secs
                  @ (if full \<noteq> [] then [(u ''full_output'', JStr (last_chars 20000 full))] else [])))"

fun execute_all :: "'x verify_env \<Rightarrow> (pystr \<Rightarrow> 'x \<Rightarrow> exec_result \<times> 'x) \<Rightarrow> pystr list \<Rightarrow> 'x \<Rightarrow> command_outcome list \<times> 'x" where
  "execute_all V ex [] x = ([], x)"
| "execute_all V ex (c # cs) x =
     (case ex c x of (r, x1) \<Rightarrow>
        (let out = strip_ws (er_output r)
         in case execute_all V ex cs x1 of (os, x2) \<Rightarrow>
              (\<lparr>co_cmd = c, co_ok = (er_exit r = 0), co_summary = v_summarize V c out (er_exit r),
                co_output = out, co_secs = er_secs r\<rparr> # os, x2)))"

definition verify_action :: "pystr \<Rightarrow> Action" where
  "verify_action cmd = mk_action SHELL cmd (u ''execute'') []"

definition verify_request :: "pystr \<Rightarrow> PermissionResult \<Rightarrow> ApprovalRequest" where
  "verify_request cmd r = request (verify_action cmd) r (u ''run verification command: '' @ cmd) [(u ''command'', JStr cmd)]"

definition verify_event :: "args \<Rightarrow> Event" where
  "verify_event d = ev NOTICE [] [(u ''verify'', JObj d)]"

text \<open>The whole set is authorised before any command runs. \<open>Inl\<close> ends the gate: with an event, or with
  the exception of the engine.\<close>

definition authorize_one :: "'x params \<Rightarrow> pystr \<Rightarrow> 'x driver \<Rightarrow> ((exn + Event) + unit) \<times> 'x driver" where
  "authorize_one Z cmd d =
     (let refuse = (\<lambda>md why. Inl (Inr (verify_event (verify_payload cmd False md why (JFloat (u ''0.0''))))))
      in case evaluate (p_uni Z) (p_host Z) (d_engine d) (verify_action cmd) of
           Inl e \<Rightarrow> (Inl (Inl e), d)
         | Inr r \<Rightarrow>
             (case decision r of
                DENY \<Rightarrow> (refuse ''blocked'' (u ''verification denied: '' @ reason r), d)
              | ALLOW \<Rightarrow> (Inr (), d)
              | ASK \<Rightarrow>
                  (case call_approver Z (verify_request cmd r) d of (reply, d1) \<Rightarrow>
                     if \<not> approved reply
                     then (refuse ''refused'' (u ''verification refused: '' @ or_msg (message reply) (reason r)), d1)
                     else (Inr (), driver_remember Z (verify_action cmd) (reply_scope reply) d1))))"

fun authorize :: "'x params \<Rightarrow> pystr list \<Rightarrow> 'x driver \<Rightarrow> ((exn + Event) + unit) \<times> 'x driver" where
  "authorize Z [] d = (Inr (), d)"
| "authorize Z (cmd # cmds) d =
     (case authorize_one Z cmd d of (Inl e, d1) \<Rightarrow> (Inl e, d1) | (Inr _, d1) \<Rightarrow> authorize Z cmds d1)"

datatype verify_gate = GateOff | GateSuggest | GateAuto

record 'x verify_result =
  vr_event :: "Event option"
  vr_driver :: "'x driver"
  vr_ran :: "pystr list"

definition verify_after_edit :: "'x params \<Rightarrow> 'x verify_env \<Rightarrow> verify_gate \<Rightarrow> pystr \<Rightarrow> 'x driver \<Rightarrow> verify_error + 'x verify_result" where
  "verify_after_edit Z V gate tool_name d =
     (let stop = (\<lambda>e d'. Inr \<lparr>vr_event = e, vr_driver = d', vr_ran = []\<rparr>)
      in if gate = GateOff \<or> tool_name \<notin> {u ''write_file'', u ''edit_file''} then stop None d
         else case gate_commands (p_uni Z) (v_root V) of
             Inl e \<Rightarrow> Inl e
           | Inr cmds \<Rightarrow>
               if cmds = [] then stop None d
               else if gate = GateSuggest
               then stop (Some (verify_event [(u ''cmd'', JStr (py_join (u '' && '') cmds)), (u ''mode'', JStr (u ''suggest''))])) d
               else (case authorize Z cmds d of
                   (Inl (Inl e), d1) \<Rightarrow> Inl (VGuard e)
                 | (Inl (Inr e), d1) \<Rightarrow> stop (Some e) d1
                 | (Inr _, d1) \<Rightarrow>
                     (case v_executor V of
                        None \<Rightarrow> stop (Some (verify_event (verify_payload (py_join (u '' && '') cmds) False ''unavailable''
                                  (u ''no verification execution backend'') (JFloat (u ''0.0''))))) d1
                      | Some ex \<Rightarrow>
                          (case execute_all V ex cmds (d_ext d1) of (os, x) \<Rightarrow>
                             Inr \<lparr>vr_event = Some (verify_event (aggregate_outcomes V os)),
                                  vr_driver = d1\<lparr>d_ext := x\<rparr>, vr_ran = map co_cmd os\<rparr>))))"

section \<open>Lemmas\<close>

lemma execute_all_cmds: "map co_cmd (fst (execute_all V ex cs x)) = cs"
  by (induction cs arbitrary: x) (simp_all add: Let_def split_beta)

text \<open>A command is cleared in a state when the engine allows it there, or asks and the approver accepts.\<close>

definition cleared :: "'x params \<Rightarrow> pystr \<Rightarrow> 'x driver \<Rightarrow> bool" where
  "cleared Z cmd d \<longleftrightarrow> (\<exists>r. evaluate (p_uni Z) (p_host Z) (d_engine d) (verify_action cmd) = Inr r
     \<and> (decision r = ALLOW \<or> decision r = ASK \<and> approved (fst (p_approver Z (verify_request cmd r) (d_engine d) (d_ext d)))))"

lemma authorize_one_cleared: "fst (authorize_one Z cmd d) = Inr w \<longleftrightarrow> cleared Z cmd d"
  by (auto simp: authorize_one_def cleared_def Let_def call_approver_def split: sum.splits Decision.splits prod.splits)

lemma authorize_all_cleared:
  "authorize Z cmds d = (Inr w, d') \<Longrightarrow> i < length cmds \<Longrightarrow> cleared Z (cmds ! i) (snd (authorize Z (take i cmds) d))"
proof (induction cmds arbitrary: d i)
  case (Cons c cmds)
  obtain o1 d1 where o1: "authorize_one Z c d = (o1, d1)" by force
  with Cons.prems(1) obtain v where v: "o1 = Inr v" by (cases o1) auto
  with o1 have "cleared Z c d" using authorize_one_cleared by (metis fst_conv)
  with Cons o1 v show ?case by (cases i) auto
qed simp

lemma quoted_go:
  assumes "list_all quote_safe s"
  shows "shlex_go ShWord t q (s @ r) = shlex_go ShWord (rev s @ t) q r"
  using assms
proof (induction s arbitrary: t)
  case (Cons c s)
  then have "\<not> sh_ws c" "\<not> sh_quote c" "c \<noteq> 92"
    by (auto simp: quote_safe_def ascii_alnum_def sh_ws_def sh_quote_def u_def)
  with Cons show ?case by simp
qed simp

lemma quoted_body_go:
  "shlex_go (ShQuote 39) t q (concat (map (\<lambda>c. if c = 39 then [39, 34, 39, 34, 39] else [c]) s) @ 39 # r)
     = shlex_go ShWord (rev s @ t) True r"
  by (induction s arbitrary: t q) (auto simp: sh_quote_def sh_ws_def)

lemma shlex_quote_go:
  assumes "r = [] \<or> sh_ws (hd r)"
  shows "shlex_go ShSpace [] False (shlex_quote s @ r) = map_option (\<lambda>ts. s # ts) (shlex_go ShSpace [] False r)"
proof -
  have w: "shlex_go ShWord (rev s) True r = map_option (\<lambda>ts. s # ts) (shlex_go ShSpace [] False r)" for s
    using assms by (cases r) simp_all
  have w': "s \<noteq> [] \<Longrightarrow> shlex_go ShWord (rev s) False r = map_option (\<lambda>ts. s # ts) (shlex_go ShSpace [] False r)"
    using assms by (cases r) simp_all
  consider "s = []" | "s \<noteq> []" "list_all quote_safe s" | "\<not> list_all quote_safe s" by blast
  then show ?thesis
  proof cases
    case 1
    with w[of "[]"] show ?thesis by (simp add: shlex_quote_def sh_ws_def sh_quote_def)
  next
    case 2
    then obtain c cs where s: "s = c # cs" by (cases s) auto
    with 2 have "\<not> sh_ws c" "\<not> sh_quote c" "c \<noteq> 92" "list_all quote_safe cs"
      by (auto simp: quote_safe_def ascii_alnum_def sh_ws_def sh_quote_def u_def)
    with 2 s w' quoted_go[of cs "[c]" False r] show ?thesis by (simp add: shlex_quote_def)
  next
    case 3
    with w[of s] quoted_body_go[of "[]" False s r] show ?thesis
      by (auto simp: shlex_quote_def sh_ws_def sh_quote_def)
  qed
qed


section \<open>Properties\<close>

text \<open>
  C23. The gate is atomic and obeys the permission policy: when it ran anything, it ran exactly the commands
  it detected, and each of them was cleared before the first one started, in the state that the
  clearing of the earlier ones had left.
\<close>

theorem verify_all_or_nothing:
  assumes "verify_after_edit Z V gate t d = Inr r" "vr_ran r \<noteq> []"
  shows "gate = GateAuto \<and> gate_commands (p_uni Z) (v_root V) = Inr (vr_ran r)
    \<and> list_all (\<lambda>i. cleared Z (vr_ran r ! i) (snd (authorize Z (take i (vr_ran r)) d))) [0..<length (vr_ran r)]"
proof -
  have on: "\<not> (gate = GateOff \<or> t \<notin> {u ''write_file'', u ''edit_file''})"
  proof
    assume "gate = GateOff \<or> t \<notin> {u ''write_file'', u ''edit_file''}"
    then have "verify_after_edit Z V gate t d = Inr \<lparr>vr_event = None, vr_driver = d, vr_ran = []\<rparr>"
      unfolding verify_after_edit_def Let_def by (rule if_P)
    with assms show False by auto
  qed
  obtain cmds where c: "gate_commands (p_uni Z) (v_root V) = Inr cmds"
    using assms(1)[unfolded verify_after_edit_def Let_def if_not_P[OF on]]
    by (cases "gate_commands (p_uni Z) (v_root V)") simp_all
  obtain o1 d1 where a: "authorize Z cmds d = (o1, d1)" by force
  note def = assms(1)[unfolded verify_after_edit_def Let_def if_not_P[OF on] c sum.case a]
  have ne: "cmds \<noteq> []" and gt: "gate = GateAuto"
    using def assms(2) on by (cases gate; auto split: if_splits)+
  obtain w where o1: "o1 = Inr w" using def assms(2) ne gt by (cases o1) (auto split: sum.splits)
  have ran: "vr_ran r = cmds"
    using arg_cong[OF def, of "\<lambda>x. vr_ran (projr x)"] assms(2) ne gt o1 execute_all_cmds[of V _ cmds "d_ext d1"]
    by (cases "v_executor V") (simp_all add: split_beta)
  from authorize_all_cleared[of Z cmds d w d1] a o1 c gt ran show ?thesis by (simp add: list_all_iff)
qed

text \<open>
  No injection: whatever a package script is called, the command that runs it reads as the runner
  followed by the name as one argument.
\<close>

theorem script_name_one_argument:
  "shlex_split (script_command (node_runner P) name) = Some (split_ws (node_runner P) @ [name])"
proof -
  have q: "shlex_go ShSpace [] False (shlex_quote name) = Some [name]" using shlex_quote_go[of "[]" name] by simp
  have "node_runner P \<in> {u ''pnpm'', u ''yarn'', u ''bun run'', u ''npm run''}" by (simp add: node_runner_def)
  moreover have "split_ws (u ''pnpm'') = [u ''pnpm'']" "split_ws (u ''yarn'') = [u ''yarn'']"
    "split_ws (u ''bun run'') = [u ''bun'', u ''run'']" "split_ws (u ''npm run'') = [u ''npm'', u ''run'']" by code_simp+
  ultimately show ?thesis
    by (auto simp: shlex_split_def script_command_def q) (simp_all add: u_def sh_ws_def sh_quote_def q)
qed

text \<open>The verdict of the gate is the conjunction of the exit codes.\<close>

theorem aggregate_ok_iff: "dget (aggregate_outcomes V os) (u ''ok'') = Some (JBool (list_all co_ok os))"
  by (auto simp: aggregate_outcomes_def verify_payload_def Let_def filter_empty_conv list_all_iff)


section \<open>Scripts that may run unattended\<close>

definition cap_cmds :: "capabilities \<Rightarrow> pystr set" where
  "cap_cmds c = set (cap_test c) \<union> set (cap_build c) \<union> set (cap_lint c)"

lemma add_cap_cmds: "cap_cmds (add_cap b c caps) = insert c (cap_cmds caps)"
  by (auto simp: add_cap_def cap_cmds_def)

lemma add_scripts_safe:
  "add_scripts U runner ss caps = Inr c \<Longrightarrow> cmd \<in> cap_cmds c \<Longrightarrow> cmd \<in> cap_cmds caps
     \<or> (\<exists>name body. (name, body) \<in> set ss \<and> is_verify_safe U name body = Inr True \<and> cmd = script_command runner name)"
proof (induction ss arbitrary: caps)
  case (Cons x ss)
  obtain name body where x: "x = (name, body)" by force
  from Cons.prems(1) x obtain b where b: "is_verify_safe U name body = Inr b"
    by (cases "is_verify_safe U name body") auto
  show ?case
  proof (cases b)
    case False
    with Cons b x show ?thesis by fastforce
  next
    case True
    let ?caps = "case script_bucket (split_script_tokens U name) NODE_SCRIPT_BUCKETS of
       None \<Rightarrow> caps | Some b \<Rightarrow> add_cap b (script_command runner name) caps"
    have "add_scripts U runner ss ?caps = Inr c" using Cons.prems(1) b x True by simp
    with Cons.IH Cons.prems(2) have "cmd \<in> cap_cmds ?caps
      \<or> (\<exists>name body. (name, body) \<in> set ss \<and> is_verify_safe U name body = Inr True \<and> cmd = script_command runner name)" by blast
    then show ?thesis using b x True add_cap_cmds by (auto split: option.splits)
  qed
qed simp

lemma verify_safe_meaning:
  assumes "is_verify_safe U name body = Inr True"
  shows "list_all (\<lambda>t. t \<notin> set UNSAFE_SCRIPT_TOKENS) (split_script_tokens U name)
    \<and> (strip_ws (if truthy U body then py_str U body else []) = []
       \<or> (\<exists>v. inspect_command U (py_str U body) None = Inr v \<and> level v = SAFE))"
proof -
  have lv: "level v \<noteq> DANGEROUS \<and> level v \<noteq> BLOCKED \<longleftrightarrow> level v = SAFE" for v by (cases "level v") auto
  have e: "strip_ws [] = []" by (simp add: strip_ws_def lstrip_with_def rstrip_with_def)
  show ?thesis using assms
    by (cases "inspect_command U (py_str U body) None")
       (auto simp: is_verify_safe_def Let_def e list_ex_iff list_all_iff split: if_splits dest: iffD1[OF lv, OF conjI])
qed

text \<open>
  Every package script that the gate may run has a name without a mutating or never-ending token, and a
  body that the danger guard finds safe.
\<close>

theorem gate_scripts_guarded:
  assumes "detect_node U P \<lparr>cap_test = [], cap_build = [], cap_lint = []\<rparr> = Inr c"
    and "cmd \<in> set (cap_test c @ cap_build c @ cap_lint c)"
  shows "\<exists>name body. cmd = script_command (node_runner P) name
    \<and> list_all (\<lambda>t. t \<notin> set UNSAFE_SCRIPT_TOKENS) (split_script_tokens U name)
    \<and> (strip_ws (if truthy U body then py_str U body else []) = []
       \<or> (\<exists>v. inspect_command U (py_str U body) None = Inr v \<and> level v = SAFE))"
proof -
  let ?c0 = "\<lparr>cap_test = [], cap_build = [], cap_lint = []\<rparr>"
  have e: "cap_cmds ?c0 = {}" by (simp add: cap_cmds_def)
  have m: "cmd \<in> cap_cmds c" using assms(2) by (auto simp: cap_cmds_def)
  then have ne: "c \<noteq> ?c0" using e by auto
  obtain ss where "add_scripts U (node_runner P) ss ?c0 = Inr c"
    using assms(1) ne by (auto simp: detect_node_def simp del: aget_or.simps split: if_splits read_result.splits option.splits json.splits)
  from add_scripts_safe[OF this m] e verify_safe_meaning[of U] show ?thesis by blast
qed

text \<open>A project whose only file is its package file with two scripts.\<close>

definition demo_project :: project_fs where
  "demo_project = \<lparr>pf_is_dir = True, pf_file = (\<lambda>n. n = u ''package.json''), pf_dir = (\<lambda>_. False),
     pf_read = (\<lambda>_. ReadOk (u ''{'' @ [34] @ u ''scripts'' @ [34] @ u '': {'' @ [34] @ u ''test'' @ [34] @ u '': '' @ [34] @ u ''jest''
       @ [34] @ u '', '' @ [34] @ u ''lint:fix'' @ [34] @ u '': '' @ [34] @ u ''eslint'' @ [34] @ u ''}}''))\<rparr>"

definition demo_verify :: "unit verify_env" where
  "demo_verify = \<lparr>v_root = Some demo_project, v_executor = Some (\<lambda>c x. (\<lparr>er_exit = 0, er_output = [], er_secs = JInt 0\<rparr>, x)),
     v_summarize = (\<lambda>c o1 e. []), v_total = (\<lambda>xs. JInt 0)\<rparr>"

theorem gate_scripts_guarded_witness:
  "\<exists>name body. u ''npm run test'' = script_command (node_runner demo_project) name
    \<and> list_all (\<lambda>t. t \<notin> set UNSAFE_SCRIPT_TOKENS) (split_script_tokens ascii_uni name)
    \<and> (strip_ws (if truthy ascii_uni body then py_str ascii_uni body else []) = []
       \<or> (\<exists>v. inspect_command ascii_uni (py_str ascii_uni body) None = Inr v \<and> level v = SAFE))"
proof -
  have "detect_node ascii_uni demo_project \<lparr>cap_test = [], cap_build = [], cap_lint = []\<rparr>
      = Inr \<lparr>cap_test = [u ''npm run test''], cap_build = [], cap_lint = []\<rparr>" by code_simp
  from gate_scripts_guarded[OF this, of "u ''npm run test''"] show ?thesis by simp
qed

theorem verify_all_or_nothing_witness:
  "\<exists>r. verify_after_edit (demo_params\<lparr>p_approver := always_yes\<rparr>) demo_verify GateAuto (u ''edit_file'') saving_driver = Inr r
     \<and> vr_ran r = [u ''npm run test'']
     \<and> cleared (demo_params\<lparr>p_approver := always_yes\<rparr>) (u ''npm run test'') saving_driver"
proof -
  let ?v = "verify_after_edit (demo_params\<lparr>p_approver := always_yes\<rparr>) demo_verify GateAuto (u ''edit_file'') saving_driver"
  have "\<not> isl ?v" and ran: "vr_ran (projr ?v) = [u ''npm run test'']" by code_simp+
  then obtain r where r: "?v = Inr r" by (cases ?v) auto
  with ran have ran: "vr_ran r = [u ''npm run test'']" by simp
  with verify_all_or_nothing[OF r] show ?thesis by (intro exI[of _ r]) (simp add: r)
qed

text \<open>
  The gate hands the approver's scope to the engine as it is, unlike the ordinary tool gate. When a
  verification command is flagged by the guard, an approval \<^emph>\<open>always\<close> is written to the persistent store, which
  the ordinary gate never does. The name of a package script is enough to be flagged.
\<close>

theorem verify_persists_flagged:
  "let Z = demo_params\<lparr>p_approver := always_yes\<rparr>; cmd = script_command (u ''npm run'') (u ''test:rm -rf x'');
       res = authorize Z [cmd] saving_driver
   in is_verify_safe ascii_uni (u ''test:rm -rf x'') (JStr (u ''jest'')) = Inr True
    \<and> (\<exists>r. evaluate (p_uni Z) (p_host Z) (d_engine saving_driver) (verify_action cmd) = Inr r \<and> block_remember_always r)
    \<and> d_saved (snd res) \<noteq> []"
proof -
  let ?Z = "demo_params\<lparr>p_approver := always_yes\<rparr>"
  let ?c = "script_command (u ''npm run'') (u ''test:rm -rf x'')"
  have "case evaluate (p_uni ?Z) (p_host ?Z) (d_engine saving_driver) (verify_action ?c) of Inl e \<Rightarrow> False
      | Inr r \<Rightarrow> block_remember_always r" by code_simp
  then have "\<exists>r. evaluate (p_uni ?Z) (p_host ?Z) (d_engine saving_driver) (verify_action ?c) = Inr r \<and> block_remember_always r"
    by (cases "evaluate (p_uni ?Z) (p_host ?Z) (d_engine saving_driver) (verify_action ?c)") auto
  moreover have "is_verify_safe ascii_uni (u ''test:rm -rf x'') (JStr (u ''jest'')) = Inr True" by code_simp
  moreover have "d_saved (snd (authorize ?Z [?c] saving_driver)) \<noteq> []" by code_simp
  ultimately show ?thesis unfolding Let_def by blast
qed

end
