(* ===== verification/Web_Fetch.thy ===== *)
theory Web_Fetch
  imports Guard "HOL-Library.Word"
begin

text \<open>
  The web tools, \<^verbatim>\<open>src/src/jarn/agent/web_tools.py\<close>: which hosts and addresses may be reached, the request with
  the address pinned, the redirect loop that \<^verbatim>\<open>web_fetch\<close> and the keyless \<^verbatim>\<open>web_search\<close> share, and the choice
  of the search provider.

  The network is a parameter with a state of its own, so that a name may resolve differently at every
  lookup: \<open>w_dns\<close> is \<^verbatim>\<open>socket.getaddrinfo\<close>, \<open>w_get\<close> one HTTP request without redirects. An address is a
  32-bit or a 128-bit word; what Python's \<^verbatim>\<open>ipaddress\<close> says about it comes from tables that change between
  releases, so they are the record \<open>iplib\<close>. \<^verbatim>\<open>urljoin\<close> and the removal of HTML are parameters too. The
  lookups and the connections of a call are its trace.
\<close>

section \<open>Addresses\<close>

datatype ipaddr = V4 "32 word" | V6 "128 word" "pystr option"

record iplib =
  parse_ip :: "pystr \<Rightarrow> ipaddr option"
  show_ip :: "ipaddr \<Rightarrow> pystr"
  is_private :: "ipaddr \<Rightarrow> bool"
  is_loopback :: "ipaddr \<Rightarrow> bool"
  is_link_local :: "ipaddr \<Rightarrow> bool"
  is_multicast :: "ipaddr \<Rightarrow> bool"
  is_reserved :: "ipaddr \<Rightarrow> bool"
  is_unspecified :: "ipaddr \<Rightarrow> bool"

definition in_net4 :: "32 word \<Rightarrow> nat \<Rightarrow> 32 word \<Rightarrow> bool" where
  "in_net4 net len a \<longleftrightarrow> drop_bit (32 - len) a = drop_bit (32 - len) net"

definition CGNAT_NET :: "32 word \<times> nat" where
  "CGNAT_NET = (0x64400000, 10)"

definition ip_is_blocked :: "iplib \<Rightarrow> pystr \<Rightarrow> bool" where
  "ip_is_blocked L ip =
     (case parse_ip L ip of
        None \<Rightarrow> True
      | Some a \<Rightarrow>
          (case a of V4 w \<Rightarrow> in_net4 (fst CGNAT_NET) (snd CGNAT_NET) w | V6 _ _ \<Rightarrow> False)
          \<or> is_private L a \<or> is_loopback L a \<or> is_link_local L a \<or> is_multicast L a \<or> is_reserved L a \<or> is_unspecified L a)"

section \<open>The environment\<close>

datatype dns_result = DnsOk "pystr list" | DnsOSError | DnsValueError

record connection =
  cn_scheme :: pystr
  cn_netloc :: pystr
  cn_rest :: pystr
  cn_host :: pystr
  cn_sni :: "pystr option"

text \<open>A reply: status, headers, the chunks of the body and its decoding.\<close>

record http_reply =
  hr_status :: int
  hr_headers :: "(pystr, pystr) pydict"
  hr_chunks :: "int list list"
  hr_decode :: "int list \<Rightarrow> pystr"

datatype fetch_exn = FHttp pystr | FValue pystr

record 'w webenv =
  w_uni :: pyuni
  w_policy :: "NetworkPolicy option"
  w_allow_env :: pystr
  w_ip :: iplib
  w_dns :: "pystr \<Rightarrow> 'w \<Rightarrow> dns_result \<times> 'w"
  w_get :: "connection \<Rightarrow> 'w \<Rightarrow> (fetch_exn + http_reply) \<times> 'w"
  w_join :: "pystr \<Rightarrow> pystr \<Rightarrow> pystr option"
  w_strip :: "pystr \<Rightarrow> pystr"

datatype net_event = Lookup pystr "pystr list" | Connect connection

section \<open>Hosts\<close>

definition allowlisted_hosts :: "'w webenv \<Rightarrow> pystr list" where
  "allowlisted_hosts W = map (\<lambda>h. lower (w_uni W) (strip_ws h))
     (filter (\<lambda>h. strip_ws h \<noteq> []) (split_chr 44 (w_allow_env W)))"

definition allowlisted :: "'w webenv \<Rightarrow> pystr \<Rightarrow> bool" where
  "allowlisted W host \<longleftrightarrow> lower (w_uni W) host \<in> set (allowlisted_hosts W)"

definition egress_block_reason :: "'w webenv \<Rightarrow> pystr \<Rightarrow> pystr option" where
  "egress_block_reason W host =
     (case w_policy W of
        None \<Rightarrow> None
      | Some p \<Rightarrow>
          if np_allow p = [] \<and> np_deny p = [] then None
          else (case classify_host (w_uni W) host p of
              DENIED \<Rightarrow> Some (u ''host '' @ repr_str (w_uni W) host @ u '' is denied by the permissions.network policy'')
            | NOT_ALLOWED \<Rightarrow> if allowlisted W host then None
                else Some (u ''host '' @ repr_str (w_uni W) host @ u '' is not on the permissions.network allowlist'')
            | ALLOWED \<Rightarrow> None))"

text \<open>\<^verbatim>\<open>_check_host\<close>: the addresses and the reason to refuse; \<open>Inl\<close> is an exception of the resolver that is
  not caught here.\<close>

definition check_host :: "'w webenv \<Rightarrow> pystr \<Rightarrow> 'w \<Rightarrow> (fetch_exn + pystr list \<times> pystr option) \<times> net_event list \<times> 'w" where
  "check_host W host w =
     (if host = [] then (Inr ([], Some (u ''missing host'')), [], w)
      else case egress_block_reason W host of
          Some r \<Rightarrow> (Inr ([], Some r), [], w)
        | None \<Rightarrow>
            (let judge = (\<lambda>ips. if allowlisted W host then (ips, None)
                  else case filter (ip_is_blocked (w_ip W)) ips of
                      [] \<Rightarrow> (ips, None)
                    | b # _ \<Rightarrow> (ips, Some (u ''refusing to reach a private/loopback address ('' @ b @ u '')'')))
             in if parse_ip (w_ip W) host \<noteq> None then (Inr (judge [host]), [], w)
                else case w_dns W host w of
                    (DnsOk ips, w') \<Rightarrow> (Inr (judge ips), [Lookup host ips], w')
                  | (DnsOSError, w') \<Rightarrow> (Inr ([], Some (u ''could not resolve host '' @ repr_str (w_uni W) host)), [], w')
                  | (DnsValueError, w') \<Rightarrow> (Inl (FValue []), [], w')))"

section \<open>URLs\<close>

text \<open>\<^verbatim>\<open>urlparse\<close>: the scheme, and after \<^verbatim>\<open>//\<close> the authority; \<open>None\<close> is \<^verbatim>\<open>ValueError\<close>.\<close>

record purl =
  pu_scheme :: pystr
  pu_netloc :: pystr
  pu_hostname :: "pystr option"
  pu_rest :: pystr

definition ascii_alpha :: "int \<Rightarrow> bool" where
  "ascii_alpha c \<longleftrightarrow> (65 \<le> c \<and> c \<le> 90) \<or> (97 \<le> c \<and> c \<le> 122)"

definition url_clean :: "pystr \<Rightarrow> pystr" where
  "url_clean s = filter (\<lambda>c. c \<notin> {9, 10, 13}) (dropWhile (\<lambda>c. 0 \<le> c \<and> c \<le> 32) s)"

definition url_scheme :: "pystr \<Rightarrow> pystr \<times> pystr" where
  "url_scheme s =
     (let p = before_first 58 s
      in if 58 \<in> set s \<and> p \<noteq> [] \<and> ascii_alpha (hd p) \<and> list_all (\<lambda>c. ascii_alnum c \<or> c \<in> {43, 45, 46}) p
         then (map ascii_lower_chr p, drop (Suc (length p)) s) else ([], s))"

definition urlparse :: "pyuni \<Rightarrow> pystr \<Rightarrow> purl option" where
  "urlparse U s =
     (case url_scheme (url_clean s) of (sch, rest) \<Rightarrow>
        if startswith rest (u ''//'') then
          (case url_hostname U (drop 2 rest) of
             Inl e \<Rightarrow> None
           | Inr h \<Rightarrow>
               (let netloc = takeWhile (\<lambda>c. c \<notin> {47, 63, 35}) (drop 2 rest)
                in Some \<lparr>pu_scheme = sch, pu_netloc = netloc, pu_hostname = h, pu_rest = drop (2 + length netloc) rest\<rparr>))
        else Some \<lparr>pu_scheme = sch, pu_netloc = [], pu_hostname = None, pu_rest = rest\<rparr>)"

text \<open>\<^verbatim>\<open>parsed.port\<close>: \<open>Inl\<close> is \<^verbatim>\<open>ValueError\<close>.\<close>

definition dec_val :: "pystr \<Rightarrow> int" where
  "dec_val s = fold (\<lambda>c n. 10 * n + (c - 48)) s 0"

definition url_port :: "pystr \<Rightarrow> unit + int option" where
  "url_port netloc =
     (let hostinfo = after_last 64 netloc;
          (_, have_open, bracketed) = partition_at 91 hostinfo;
          after_host = (if have_open then snd (snd (partition_at 93 bracketed)) else hostinfo);
          port = snd (snd (partition_at 58 after_host))
      in if port = [] then Inr None
         else if list_all (\<lambda>c. 48 \<le> c \<and> c \<le> 57) port \<and> dec_val port \<le> 65535 then Inr (Some (dec_val port))
         else Inl ())"

definition hostname_or_empty :: "purl \<Rightarrow> pystr" where
  "hostname_or_empty p = (case pu_hostname p of None \<Rightarrow> [] | Some h \<Rightarrow> h)"

section \<open>One request\<close>

fun decimal :: "nat \<Rightarrow> pystr" where
  "decimal n = (if n < 10 then [48 + int n] else decimal (n div 10) @ [48 + int (n mod 10)])"

declare decimal.simps [simp del]

definition format_pinned_netloc :: "iplib \<Rightarrow> pystr \<Rightarrow> int \<Rightarrow> int \<Rightarrow> pystr option" where
  "format_pinned_netloc L ip port default_port =
     map_option (\<lambda>a. (let host = (case a of V6 _ _ \<Rightarrow> u ''['' @ show_ip L a @ u '']'' | V4 _ \<Rightarrow> show_ip L a)
                      in if port = default_port then host else host @ u '':'' @ decimal (nat port)))
       (parse_ip L (strip_chars (u ''[]'') ip))"

definition pinned_request :: "'w webenv \<Rightarrow> pystr \<Rightarrow> 'w \<Rightarrow> (fetch_exn + connection) \<times> net_event list \<times> 'w" where
  "pinned_request W url w =
     (case urlparse (w_uni W) url of
        None \<Rightarrow> (Inl (FValue []), [], w)
      | Some p \<Rightarrow>
          (let hostname = hostname_or_empty p
           in case check_host W hostname w of
                (Inl e, tr, w') \<Rightarrow> (Inl e, tr, w')
              | (Inr (ips, Some r), tr, w') \<Rightarrow> (Inl (FValue r), tr, w')
              | (Inr ([], None), tr, w') \<Rightarrow>
                  (Inl (FValue (u ''could not resolve host '' @ repr_str (w_uni W) hostname)), tr, w')
              | (Inr (ip # _, None), tr, w') \<Rightarrow>
                  (let dflt = (if pu_scheme p = u ''https'' then 443 else 80)
                   in case url_port (pu_netloc p) of
                        Inl _ \<Rightarrow> (Inl (FValue []), tr, w')
                      | Inr port \<Rightarrow>
                          (case format_pinned_netloc (w_ip W) ip (case port of None \<Rightarrow> dflt | Some n \<Rightarrow> n) dflt of
                             None \<Rightarrow> (Inl (FValue []), tr, w')
                           | Some netloc \<Rightarrow>
                               (Inr \<lparr>cn_scheme = pu_scheme p, cn_netloc = netloc, cn_rest = pu_rest p, cn_host = hostname,
                                     cn_sni = (if pu_scheme p = u ''https'' then Some hostname else None)\<rparr>, tr, w')))))"

definition MAX_FETCH_BYTES :: nat where "MAX_FETCH_BYTES = 2000000"
definition MAX_REDIRECTS :: nat where "MAX_REDIRECTS = 5"
definition REDIRECT_CODES :: "int list" where "REDIRECT_CODES = [301, 302, 303, 307, 308]"

text \<open>The reading of the body: chunks are taken until the cap is reached.\<close>

fun read_chunks :: "nat \<Rightarrow> nat \<Rightarrow> int list list \<Rightarrow> int list list" where
  "read_chunks cap n [] = []"
| "read_chunks cap n (c # cs) = c # (if n + length c \<ge> cap then [] else read_chunks cap (n + length c) cs)"

record raw_response =
  rr_status :: int
  rr_headers :: "(pystr, pystr) pydict"
  rr_text :: pystr

definition fetch_raw :: "'w webenv \<Rightarrow> pystr \<Rightarrow> 'w \<Rightarrow> (fetch_exn + raw_response) \<times> net_event list \<times> 'w" where
  "fetch_raw W url w =
     (case pinned_request W url w of
        (Inl e, tr, w') \<Rightarrow> (Inl e, tr, w')
      | (Inr c, tr, w') \<Rightarrow>
          (case w_get W c w' of
             (Inl e, w'') \<Rightarrow> (Inl e, tr @ [Connect c], w'')
           | (Inr h, w'') \<Rightarrow>
               (Inr \<lparr>rr_status = hr_status h, rr_headers = hr_headers h,
                     rr_text = hr_decode h (concat (read_chunks MAX_FETCH_BYTES 0 (hr_chunks h)))\<rparr>,
                tr @ [Connect c], w'')))"

section \<open>The redirect loop\<close>

datatype fetch_result = Fetched raw_response | Blocked pystr | Failed pystr

definition exn_text :: "fetch_exn \<Rightarrow> pystr" where
  "exn_text e = (case e of FHttp m \<Rightarrow> m | FValue m \<Rightarrow> m)"

definition redirect_target :: "raw_response \<Rightarrow> pystr" where
  "redirect_target r = (case dget (rr_headers r) (u ''location'') of
      Some (c # l) \<Rightarrow> c # l
    | _ \<Rightarrow> (case dget (rr_headers r) (u ''Location'') of Some l \<Rightarrow> l | None \<Rightarrow> []))"

fun fetch_loop :: "'w webenv \<Rightarrow> nat \<Rightarrow> pystr \<Rightarrow> 'w \<Rightarrow> fetch_result \<times> net_event list \<times> 'w" where
  "fetch_loop W 0 url w = (Failed (u ''too many redirects''), [], w)"
| "fetch_loop W (Suc n) url w =
     (case urlparse (w_uni W) url of
        None \<Rightarrow> (Failed [], [], w)
      | Some p \<Rightarrow>
          if pu_scheme p \<notin> {u ''http'', u ''https''}
          then (Blocked (u ''unsupported scheme '' @ repr_str (w_uni W) (pu_scheme p)), [], w)
          else (case check_host W (hostname_or_empty p) w of
              (Inl e, tr, w1) \<Rightarrow> (Failed (exn_text e), tr, w1)
            | (Inr (_, Some r), tr, w1) \<Rightarrow> (Blocked r, tr, w1)
            | (Inr (_, None), tr, w1) \<Rightarrow>
                (case fetch_raw W url w1 of
                   (Inl e, tr', w2) \<Rightarrow> (Failed (exn_text e), tr @ tr', w2)
                 | (Inr raw, tr', w2) \<Rightarrow>
                     if rr_status raw \<in> set REDIRECT_CODES then
                       (if redirect_target raw = [] then (Fetched raw, tr @ tr', w2)
                        else case w_join W url (redirect_target raw) of
                            None \<Rightarrow> (Failed [], tr @ tr', w2)
                          | Some url' \<Rightarrow>
                              (case fetch_loop W n url' w2 of (res, tr'', w3) \<Rightarrow> (res, tr @ tr' @ tr'', w3)))
                     else if rr_status raw \<ge> 400 then (Failed (u ''HTTP '' @ decimal (nat (rr_status raw))), tr @ tr', w2)
                     else (Fetched raw, tr @ tr', w2))))"

section \<open>The tools\<close>

text \<open>\<^verbatim>\<open>re.sub(r"\n{3,}", "\n\n", s)\<close>; \<open>n\<close> is the number of line breaks just kept.\<close>

fun collapse_breaks :: "nat \<Rightarrow> pystr \<Rightarrow> pystr" where
  "collapse_breaks n [] = []"
| "collapse_breaks n (c # cs) =
     (if c = 10 then (if n < 2 then c # collapse_breaks (Suc n) cs else collapse_breaks n cs)
      else c # collapse_breaks 0 cs)"

definition render_body :: "'w webenv \<Rightarrow> nat \<Rightarrow> raw_response \<Rightarrow> pystr" where
  "render_body W max_chars raw =
     (let ctype = (case dget (rr_headers raw) (u ''content-type'') of None \<Rightarrow> [] | Some t \<Rightarrow> t);
          b0 = rr_text raw;
          b1 = (if contains ctype (u ''html'') \<or> startswith (lstrip_with isspace b0) [60] then w_strip W b0 else b0);
          b = strip_ws (collapse_breaks 0 b1);
          b' = (if length b > max_chars
                then take max_chars b @ [10, 8230] @ u ''[truncated, '' @ decimal (length b) @ u '' chars total]'' else b)
      in if b' \<noteq> [] then b' else u ''(empty response)'')"

definition web_fetch_core :: "'w webenv \<Rightarrow> pystr \<Rightarrow> nat \<Rightarrow> 'w \<Rightarrow> pystr \<times> net_event list \<times> 'w" where
  "web_fetch_core W url max_chars w =
     (let url' = (if startswith url (u ''http://'') \<or> startswith url (u ''https://'') then url else u ''https://'' @ url)
      in case fetch_loop W (MAX_REDIRECTS + 1) url' w of
           (Blocked r, tr, w') \<Rightarrow> (u ''web_fetch blocked: '' @ r, tr, w')
         | (Failed r, tr, w') \<Rightarrow> (u ''web_fetch failed: '' @ r, tr, w')
         | (Fetched raw, tr, w') \<Rightarrow> (render_body W max_chars raw, tr, w'))"

text \<open>The keyless search fetches one fixed address in the same way; the parsing of its page is the
  parameter \<open>results\<close>.\<close>

definition ddg_search :: "'w webenv \<Rightarrow> (pystr \<Rightarrow> pystr) \<Rightarrow> pystr \<Rightarrow> 'w \<Rightarrow> pystr \<times> net_event list \<times> 'w" where
  "ddg_search W results url w =
     (case fetch_loop W (MAX_REDIRECTS + 1) url w of
        (Blocked r, tr, w') \<Rightarrow> (u ''web_search blocked: '' @ r, tr, w')
      | (Failed r, tr, w') \<Rightarrow> (u ''web_search failed: '' @ r, tr, w')
      | (Fetched raw, tr, w') \<Rightarrow> (results (rr_text raw), tr, w'))"

definition format_results :: "pyuni \<Rightarrow> pystr \<Rightarrow> (pystr \<times> pystr \<times> pystr) list \<Rightarrow> pystr" where
  "format_results U query items =
     (if items = [] then u ''No results for '' @ repr_str U query @ u '' (or the search page format changed).''
      else u ''Top results for '' @ repr_str U query @ u '':'' @ [10, 10] @ py_join [10]
        (map (\<lambda>(title, url, snippet). u ''- '' @ title @ [10, 32, 32] @ url
            @ (if snippet \<noteq> [] then [10, 32, 32] @ snippet else [])) items))"

section \<open>The choice of a provider\<close>

datatype provider = Tavily | Brave | Exa
datatype search_setting = SAuto | SDuckDuckGo | SProvider provider

fun PROVIDER_ENV :: "provider \<Rightarrow> pystr" where
  "PROVIDER_ENV Tavily = u ''TAVILY_API_KEY''"
| "PROVIDER_ENV Brave = u ''BRAVE_API_KEY''"
| "PROVIDER_ENV Exa = u ''EXA_API_KEY''"

fun provider_value :: "provider \<Rightarrow> pystr" where
  "provider_value Tavily = u ''tavily''"
| "provider_value Brave = u ''brave''"
| "provider_value Exa = u ''exa''"

record search_config =
  sc_provider :: search_setting
  sc_api_key :: "pystr option"

text \<open>\<open>resolve\<close> is the resolution of a secret reference: \<open>None\<close> is \<^verbatim>\<open>SecretResolutionError\<close>.\<close>

definition truthy_key :: "pystr option \<Rightarrow> pystr option" where
  "truthy_key k = (case k of Some (c # s) \<Rightarrow> Some (c # s) | _ \<Rightarrow> None)"

fun first_key :: "(pystr \<Rightarrow> pystr option) \<Rightarrow> pystr list \<Rightarrow> pystr option" where
  "first_key resolve [] = None"
| "first_key resolve (r # rs) = (case truthy_key (resolve r) of Some k \<Rightarrow> Some k | None \<Rightarrow> first_key resolve rs)"

definition resolve_provider_key :: "(pystr \<Rightarrow> pystr option) \<Rightarrow> provider \<Rightarrow> search_config \<Rightarrow> pystr option" where
  "resolve_provider_key resolve p cfg =
     first_key resolve
       ((case truthy_key (sc_api_key cfg) of Some k \<Rightarrow> if sc_provider cfg = SProvider p then [k] else [] | None \<Rightarrow> [])
        @ [u ''${'' @ PROVIDER_ENV p @ u ''}'', u ''keychain:jarn/'' @ provider_value p])"

datatype search_plan = UseDuckDuckGo | UseProvider provider pystr | MissingKey provider

fun auto_plan :: "(pystr \<Rightarrow> pystr option) \<Rightarrow> search_config \<Rightarrow> provider list \<Rightarrow> search_plan" where
  "auto_plan resolve cfg [] = UseDuckDuckGo"
| "auto_plan resolve cfg (p # ps) =
     (case resolve_provider_key resolve p cfg of Some k \<Rightarrow> UseProvider p k | None \<Rightarrow> auto_plan resolve cfg ps)"

definition web_search_plan :: "(pystr \<Rightarrow> pystr option) \<Rightarrow> search_config option \<Rightarrow> search_plan" where
  "web_search_plan resolve cfg =
     (case cfg of
        None \<Rightarrow> UseDuckDuckGo
      | Some c \<Rightarrow> (case sc_provider c of
            SDuckDuckGo \<Rightarrow> UseDuckDuckGo
          | SProvider p \<Rightarrow> (case resolve_provider_key resolve p c of None \<Rightarrow> MissingKey p | Some k \<Rightarrow> UseProvider p k)
          | SAuto \<Rightarrow> auto_plan resolve c [Tavily, Brave, Exa]))"


section \<open>Traces\<close>

text \<open>What the HTTP client reads out of the authority of the URL it is given: the host after a user name, an IPv6 address between its
  brackets, anything else up to the port. A name there would be looked up again.\<close>

definition dial_host :: "pystr \<Rightarrow> pystr" where
  "dial_host netloc =
     (let h = after_last 64 netloc
      in case h of [] \<Rightarrow> [] | c # cs \<Rightarrow> if c = 91 then takeWhile (\<lambda>x. x \<noteq> 93) cs else takeWhile (\<lambda>x. x \<noteq> 58) h)"

text \<open>How \<^verbatim>\<open>ipaddress\<close> writes addresses: decimal or hexadecimal groups and the scope of an interface, so without a bracket or an
  at sign; what it prints it reads back, and an IPv4 address has no colon.\<close>

definition ip_texts_ok :: "iplib \<Rightarrow> bool" where
  "ip_texts_ok L \<longleftrightarrow> (\<forall>s a. parse_ip L s = Some a \<longrightarrow> set s \<inter> {64, 91, 93} = {} \<and> parse_ip L (show_ip L a) = Some a)
     \<and> (\<forall>x. 58 \<notin> set (show_ip L (V4 x)))"

text \<open>A connection is in order when its host is not refused by the egress policy and what is dialled is a literal address, one that is not
  blocked unless the user allowlisted the host.\<close>

definition reach_ok :: "'w webenv \<Rightarrow> connection \<Rightarrow> bool" where
  "reach_ok W c \<longleftrightarrow> cn_host c \<noteq> [] \<and> egress_block_reason W (cn_host c) = None
     \<and> parse_ip (w_ip W) (dial_host (cn_netloc c)) \<noteq> None
     \<and> (allowlisted W (cn_host c) \<or> \<not> ip_is_blocked (w_ip W) (dial_host (cn_netloc c)))"

text \<open>Pinning: the address dialled is the first one of the lookup of the host right before the connection, or the host is itself an
  address and that is dialled.\<close>

fun pinned :: "'w webenv \<Rightarrow> net_event list \<Rightarrow> bool" where
  "pinned W [] = True"
| "pinned W (Lookup h ips # Connect c # es) \<longleftrightarrow>
     cn_host c = h \<and> ips \<noteq> [] \<and> parse_ip (w_ip W) (dial_host (cn_netloc c)) = parse_ip (w_ip W) (strip_chars (u ''[]'') (hd ips))
     \<and> reach_ok W c \<and> pinned W es"
| "pinned W (Lookup h ips # es) \<longleftrightarrow> pinned W es"
| "pinned W (Connect c # es) \<longleftrightarrow> parse_ip (w_ip W) (cn_host c) \<noteq> None
     \<and> parse_ip (w_ip W) (dial_host (cn_netloc c)) = parse_ip (w_ip W) (cn_host c) \<and> reach_ok W c \<and> pinned W es"

lemma decimal_digits: "c \<in> set (decimal n) \<Longrightarrow> 48 \<le> c \<and> c \<le> 57"
proof (induction n rule: decimal.induct)
  case (1 n)
  show ?case
  proof (cases "n < 10")
    case True
    then show ?thesis using "1.prems" by (subst (asm) decimal.simps) auto
  next
    case False
    then have "c \<in> set (decimal (n div 10)) \<or> c = 48 + int (n mod 10)" using "1.prems" by (subst (asm) decimal.simps) auto
    then show ?thesis using "1.IH" [OF False] by auto
  qed
qed

lemma after_last_notin: "c \<notin> set s \<Longrightarrow> after_last c s = s"
proof -
  assume "c \<notin> set s"
  then have "takeWhile (\<lambda>x. x \<noteq> c) (rev s) = rev s" by (subst takeWhile_eq_all_conv) auto
  then show ?thesis by (simp only: after_last_def rev_rev_ident)
qed

lemma takeWhile_upto: "c \<notin> set s \<Longrightarrow> takeWhile (\<lambda>x. x \<noteq> c) (s @ c # t) = s" "c \<notin> set s \<Longrightarrow> takeWhile (\<lambda>x. x \<noteq> c) s = s"
  by (induction s) auto

lemma strip_chars_none: "set s \<inter> set cs = {} \<Longrightarrow> strip_chars cs s = s"
proof -
  assume a: "set s \<inter> set cs = {}"
  have drop: "dropWhile (\<lambda>c. c \<in> set cs) t = t" if "set t \<inter> set cs = {}" for t using that by (cases t) auto
  show "strip_chars cs s = s" unfolding strip_chars_def lstrip_with_def rstrip_with_def using drop [of s] drop [of "rev s"] a by simp
qed

lemma dial_plain:
  assumes "64 \<notin> set t" "91 \<notin> set t" "58 \<notin> set t" "64 \<notin> set r"
  shows "dial_host t = t" "dial_host (t @ 58 # r) = t"
proof -
  have t: "after_last 64 t = t" "after_last 64 (t @ 58 # r) = t @ 58 # r" using assms by (simp_all add: after_last_notin)
  have n: "hd t \<noteq> 91" if "t \<noteq> []" using that assms(2) by (cases t) auto
  show "dial_host t = t" using n t(1) takeWhile_upto(2) [OF assms(3)] by (cases t) (auto simp: dial_host_def)
  show "dial_host (t @ 58 # r) = t" using n t(2) takeWhile_upto(1) [OF assms(3), of r] by (cases t) (auto simp: dial_host_def)
qed

lemma dialled_address:
  assumes "ip_texts_ok L" "format_pinned_netloc L ip port dflt = Some netloc"
  shows "parse_ip L (dial_host netloc) = parse_ip L (strip_chars (u ''[]'') ip) \<and> parse_ip L (dial_host netloc) \<noteq> None"
proof -
  obtain a where a: "parse_ip L (strip_chars (u ''[]'') ip) = Some a" using assms(2) by (auto simp: format_pinned_netloc_def)
  let ?t = "show_ip L a"
  have t: "parse_ip L ?t = Some a" "64 \<notin> set ?t" "91 \<notin> set ?t" "93 \<notin> set ?t" using a assms(1) unfolding ip_texts_ok_def by blast+
  have d: "64 \<notin> set (decimal (nat port))" using decimal_digits [of 64 "nat port"] by auto
  have "dial_host netloc = ?t"
  proof (cases a)
    case (V4 x)
    then have "58 \<notin> set ?t" using assms(1) unfolding ip_texts_ok_def by blast
    moreover have "netloc = ?t \<or> netloc = ?t @ 58 # decimal (nat port)"
      using assms(2) a V4 by (auto simp: format_pinned_netloc_def u_def Let_def split: if_splits)
    ultimately show ?thesis using dial_plain [OF t(2,3) _ d] by auto
  next
    case (V6 w z)
    then have "netloc = 91 # ?t @ [93] \<or> netloc = 91 # ?t @ 93 # 58 # decimal (nat port)"
      using assms(2) a by (auto simp: format_pinned_netloc_def u_def Let_def split: if_splits)
    then show ?thesis using t(2,4) d by (auto simp: dial_host_def Let_def after_last_notin takeWhile_upto)
  qed
  then show ?thesis using t(1) a by simp
qed

definition starts_connect :: "net_event list \<Rightarrow> bool" where
  "starts_connect es = (case es of Connect c # _ \<Rightarrow> True | _ \<Rightarrow> False)"

lemma pinned_lookup: "\<not> starts_connect es \<Longrightarrow> pinned W (Lookup h ips # es) = pinned W es"
  by (cases es rule: list.exhaust) (auto simp: starts_connect_def split: net_event.splits)

lemma pinned_append: "pinned W (es @ [Connect c]) \<Longrightarrow> pinned W fs \<Longrightarrow> pinned W (es @ Connect c # fs)"
  by (induction W es rule: pinned.induct) auto

lemma check_host_trace:
  assumes "check_host W h w = (r, tr, w')"
  shows "tr = [] \<or> (parse_ip (w_ip W) h = None \<and> (\<exists>ips. tr = [Lookup h ips]))"
  using assms by (auto simp: check_host_def Let_def split: if_splits option.splits dns_result.splits prod.splits)

lemma check_host_ok:
  assumes "check_host W h w = (Inr (ips, None), tr, w')"
  shows "h \<noteq> [] \<and> egress_block_reason W h = None
     \<and> (if parse_ip (w_ip W) h \<noteq> None then ips = [h] \<and> tr = [] else tr = [Lookup h ips])
     \<and> (allowlisted W h \<or> list_all (\<lambda>ip. \<not> ip_is_blocked (w_ip W) ip) ips)"
  using assms
  by (auto simp: check_host_def Let_def filter_empty_conv list_all_iff
      split: if_splits option.splits dns_result.splits prod.splits list.splits)

definition is_connect :: "net_event \<Rightarrow> bool" where
  "is_connect e = (case e of Connect _ \<Rightarrow> True | Lookup _ _ \<Rightarrow> False)"

lemma is_connect_simps [simp]: "is_connect (Connect c)" "\<not> is_connect (Lookup h ips)"
  by (simp_all add: is_connect_def)

lemma starts_connect_simps [simp]: "\<not> starts_connect []" "starts_connect (Connect c # es)" "\<not> starts_connect (Lookup h ips # es)"
  by (simp_all add: starts_connect_def)

lemma pinned_request_trace:
  assumes "pinned_request W url w = (r, tr, w')" "urlparse (w_uni W) url = Some p"
  shows "tr = [] \<or> (parse_ip (w_ip W) (hostname_or_empty p) = None \<and> (\<exists>ips. tr = [Lookup (hostname_or_empty p) ips]))"
    and "r = Inr c \<Longrightarrow> ip_texts_ok (w_ip W) \<Longrightarrow> pinned W (tr @ [Connect c]) \<and> (parse_ip (w_ip W) (hostname_or_empty p) \<noteq> None \<or> tr \<noteq> [])"
proof -
  let ?h = "hostname_or_empty p"
  obtain r1 tr1 w1 where ch: "check_host W ?h w = (r1, tr1, w1)" by (metis prod_cases3)
  have tr: "tr = tr1"
    using assms ch by (auto simp: pinned_request_def Let_def split: sum.splits prod.splits list.splits option.splits)
  with check_host_trace[OF ch] show "tr = [] \<or> (parse_ip (w_ip W) ?h = None \<and> (\<exists>ips. tr = [Lookup ?h ips]))" by simp
  assume r: "r = Inr c" and L: "ip_texts_ok (w_ip W)"
  obtain ip ips port dflt where r1: "r1 = Inr (ip # ips, None)" and c: "cn_host c = ?h"
      "format_pinned_netloc (w_ip W) ip port dflt = Some (cn_netloc c)"
    using assms ch r by (auto simp: pinned_request_def Let_def split: sum.splits prod.splits list.splits option.splits)
  obtain a where d: "parse_ip (w_ip W) (dial_host (cn_netloc c)) = Some a" "parse_ip (w_ip W) (strip_chars (u ''[]'') ip) = Some a"
    using dialled_address[OF L c(2)] by (metis not_None_eq)
  have same: "parse_ip (w_ip W) (strip_chars (u ''[]'') ip) = parse_ip (w_ip W) ip" if "parse_ip (w_ip W) ip \<noteq> None"
  proof -
    have "set ip \<inter> {64, 91, 93} = {}" using that L unfolding ip_texts_ok_def by blast
    then have "set ip \<inter> set (u ''[]'') = {}" by (auto simp: u_def)
    then show ?thesis by (simp add: strip_chars_none)
  qed
  have blk: "ip_is_blocked (w_ip W) (dial_host (cn_netloc c)) \<Longrightarrow> ip_is_blocked (w_ip W) ip"
    using d same by (cases "parse_ip (w_ip W) ip") (auto simp: ip_is_blocked_def)
  from check_host_ok[OF ch[unfolded r1]] c(1) tr d blk same show "pinned W (tr @ [Connect c]) \<and> (parse_ip (w_ip W) ?h \<noteq> None \<or> tr \<noteq> [])"
    by (auto simp: reach_ok_def split: if_splits)
qed

lemma fetch_raw_trace:
  assumes "fetch_raw W url w = (r, tr, w')" "urlparse (w_uni W) url = Some p"
  and L: "ip_texts_ok (w_ip W)"
  shows "pinned W tr \<and> (starts_connect tr \<longrightarrow> parse_ip (w_ip W) (hostname_or_empty p) \<noteq> None)
    \<and> length (filter is_connect tr) \<le> 1 \<and> (\<forall>raw. r = Inr raw \<longrightarrow> (\<exists>es c. tr = es @ [Connect c]))"
proof -
  obtain r1 tr1 w1 where pr: "pinned_request W url w = (r1, tr1, w1)" by (metis prod_cases3)
  note t = pinned_request_trace[OF pr assms(2)]
  have pre: "pinned W tr1 \<and> filter is_connect tr1 = []" using t(1) by auto
  show ?thesis
  proof (cases r1)
    case (Inl e)
    with assms(1) pr pre t(1) show ?thesis by (auto simp: fetch_raw_def)
  next
    case (Inr c)
    with assms(1) pr have tr: "tr = tr1 @ [Connect c]" by (auto simp: fetch_raw_def split: sum.splits prod.splits)
    from t(2)[OF Inr L] t(1) pre show ?thesis unfolding tr by (auto simp del: pinned.simps)
  qed
qed

lemma fetch_hop_trace:
  assumes "check_host W (hostname_or_empty p) w = (r, tr, w1)" "fetch_raw W url w1 = (r', tr', w2)"
    "urlparse (w_uni W) url = Some p" "ip_texts_ok (w_ip W)"
  shows "pinned W (tr @ tr') \<and> length (filter is_connect (tr @ tr')) \<le> 1
    \<and> (\<forall>raw. r' = Inr raw \<longrightarrow> (\<exists>es c. tr @ tr' = es @ [Connect c]))"
  using check_host_trace[OF assms(1)] fetch_raw_trace[OF assms(2-4)]
  by (auto simp: pinned_lookup simp del: pinned.simps(2))

lemma fetch_loop_trace:
  assumes L: "ip_texts_ok (w_ip W)"
  shows "fetch_loop W n url w = (r, tr, w') \<Longrightarrow> pinned W tr \<and> length (filter is_connect tr) \<le> n"
proof (induction n arbitrary: url w r tr w')
  case (Suc n)
  show ?case
  proof (cases "urlparse (w_uni W) url")
    case None
    with Suc.prems show ?thesis by auto
  next
    case (Some p)
    obtain r1 t1 w1 where ch: "check_host W (hostname_or_empty p) w = (r1, t1, w1)" by (metis prod_cases3)
    obtain r2 t2 w2 where fr: "fetch_raw W url w1 = (r2, t2, w2)" by (metis prod_cases3)
    note hop = fetch_hop_trace[OF ch fr Some L]
    have one: "pinned W t1 \<and> filter is_connect t1 = []" using check_host_trace[OF ch] by auto
    consider "tr = []" | "tr = t1" | "tr = t1 @ t2"
      | raw url' t3 w3 where "r2 = Inr raw" "fetch_loop W n url' w2 = (r, t3, w3)" "tr = t1 @ t2 @ t3"
    proof (cases "pu_scheme p \<in> {u ''http'', u ''https''} \<and> (\<exists>ips. r1 = Inr (ips, None))")
      case False
      then have "tr = [] \<or> tr = t1"
        using Suc.prems Some ch by (auto simp del: insert_iff split: if_splits sum.splits option.splits prod.splits)
      then show ?thesis using that by blast
    next
      case True
      then obtain ips where sch: "\<not> pu_scheme p \<notin> {u ''http'', u ''https''}" and r1: "r1 = Inr (ips, None)" by blast
      note def = Suc.prems[unfolded fetch_loop.simps Some option.case if_not_P[OF sch] ch r1 prod.case sum.case fr]
      show ?thesis
      proof (cases r2)
        case (Inl e)
        with def that(3) show ?thesis by simp
      next
        case (Inr raw)
        show ?thesis
        proof (cases "rr_status raw \<in> set REDIRECT_CODES \<and> redirect_target raw \<noteq> [] \<and> w_join W url (redirect_target raw) \<noteq> None")
          case False
          with def Inr have "tr = t1 @ t2" by (auto split: if_splits option.splits)
          then show ?thesis by (rule that(3))
        next
          case True
          then obtain url' where j: "w_join W url (redirect_target raw) = Some url'" by auto
          obtain r3 t3 w3 where l: "fetch_loop W n url' w2 = (r3, t3, w3)" by (metis prod_cases3)
          with def Inr True j have "r = r3" "tr = t1 @ t2 @ t3" by simp_all
          with that(4)[OF Inr, of url' t3 w3] l show ?thesis by simp
        qed
      qed
    qed
    then show ?thesis
    proof cases
      case (4 raw url' t3 w3)
      from Suc.IH[OF 4(2)] have t3: "pinned W t3" "length (filter is_connect t3) \<le> n" by auto
      from hop 4(1) obtain es c where e: "t1 @ t2 = es @ [Connect c]" by blast
      then have tr: "tr = es @ Connect c # t3" using 4(3) by simp
      have "pinned W tr" unfolding tr using hop[THEN conjunct1, unfolded e] t3(1) by (rule pinned_append)
      moreover have "length (filter is_connect tr) \<le> Suc n" unfolding 4(3) append_assoc[symmetric] using hop t3(2) by simp
      ultimately show ?thesis by simp
    qed (use one hop in auto)
  qed
qed simp

section \<open>Properties\<close>

text \<open>
  Against rebinding: whatever the resolver answers at each lookup, and wherever the servers redirect,
  every connection of \<^verbatim>\<open>web_fetch\<close> dials the address that the lookup right before it returned (or the
  literal address in the URL), that address was checked in the same step, and there are at most six.
\<close>

lemma fetch_trace_pinned:
  assumes "web_fetch_core W url max_chars w = (txt, tr, w')" "ip_texts_ok (w_ip W)"
  shows "pinned W tr \<and> length (filter is_connect tr) \<le> 6"
proof -
  define x where "x = (if startswith url (u ''http://'') \<or> startswith url (u ''https://'') then url else u ''https://'' @ url)"
  obtain r t w1 where l: "fetch_loop W (MAX_REDIRECTS + 1) x w = (r, t, w1)" by (metis prod_cases3)
  with assms have "tr = t" by (auto simp: web_fetch_core_def x_def[symmetric] Let_def split: fetch_result.splits)
  with fetch_loop_trace[OF assms(2) l] show ?thesis by (simp add: MAX_REDIRECTS_def)
qed

lemma pinned_reach: "pinned W tr \<Longrightarrow> Connect c \<in> set tr \<Longrightarrow> reach_ok W c"
  by (induction W tr rule: pinned.induct) auto

text \<open>What the documentation of \<^verbatim>\<open>ipaddress\<close> says of the IPv4 networks that matter most.\<close>

definition iplib_ok :: "iplib \<Rightarrow> bool" where
  "iplib_ok L \<longleftrightarrow> (\<forall>a. is_loopback L (V4 a) = in_net4 0x7F000000 8 a \<and> is_link_local L (V4 a) = in_net4 0xA9FE0000 16 a
     \<and> (in_net4 0x0A000000 8 a \<or> in_net4 0xAC100000 12 a \<or> in_net4 0xC0A80000 16 a \<longrightarrow> is_private L (V4 a)))"

definition INTERNAL_NETS :: "(32 word \<times> nat) list" where
  "INTERNAL_NETS = [(0x7F000000, 8), (0xA9FE0000, 16), (0x0A000000, 8), (0xAC100000, 12), (0xC0A80000, 16), (0x64400000, 10)]"


text \<open>
  The download is bounded: what is read is a beginning of the body, and without its last chunk it stays
  below the cap of two million bytes.
\<close>

theorem fetch_bytes_bounded:
  "read_chunks MAX_FETCH_BYTES 0 cs = take (length (read_chunks MAX_FETCH_BYTES 0 cs)) cs
     \<and> length (concat (butlast (read_chunks MAX_FETCH_BYTES 0 cs))) < 2000000"
proof -
  have "n < cap \<Longrightarrow> read_chunks cap n cs = take (length (read_chunks cap n cs)) cs
      \<and> n + length (concat (butlast (read_chunks cap n cs))) < cap" for n cap
  proof (induction cs arbitrary: n)
    case (Cons c cs)
    show ?case
    proof (cases "n + length c \<ge> cap")
      case False
      then have "n + length c < cap" by simp
      note IH = Cons.IH[OF this]
      with False Cons.prems show ?thesis by (cases "read_chunks cap (n + length c) cs = []") auto
    qed (use Cons.prems in simp)
  qed simp
  from this[of 0 MAX_FETCH_BYTES] show ?thesis by (simp add: MAX_FETCH_BYTES_def)
qed


section \<open>An example: a name that is rebound\<close>

definition demo_iplib :: iplib where
  "demo_iplib = \<lparr>parse_ip = (\<lambda>s. if s = u ''93.184.216.34'' then Some (V4 0x5DB8D822)
        else if s = u ''10.0.0.1'' then Some (V4 0x0A000001) else None),
     show_ip = (\<lambda>a. if a = V4 0x0A000001 then u ''10.0.0.1'' else u ''93.184.216.34''),
     is_private = (\<lambda>a. case a of V4 x \<Rightarrow> in_net4 0x0A000000 8 x \<or> in_net4 0xAC100000 12 x \<or> in_net4 0xC0A80000 16 x | _ \<Rightarrow> False),
     is_loopback = (\<lambda>a. case a of V4 x \<Rightarrow> in_net4 0x7F000000 8 x | _ \<Rightarrow> False),
     is_link_local = (\<lambda>a. case a of V4 x \<Rightarrow> in_net4 0xA9FE0000 16 x | _ \<Rightarrow> False),
     is_multicast = (\<lambda>_. False), is_reserved = (\<lambda>_. False), is_unspecified = (\<lambda>_. False)\<rparr>"

lemma demo_iplib_ok: "iplib_ok demo_iplib"
  by (simp add: iplib_ok_def demo_iplib_def)

text \<open>The name has a public address for two lookups and a private one afterwards; the server redirects to
  the same name.\<close>

definition demo_web :: "nat webenv" where
  "demo_web = \<lparr>w_uni = ascii_uni, w_policy = None, w_allow_env = [], w_ip = demo_iplib,
     w_dns = (\<lambda>h n. (DnsOk [if n < 2 then u ''93.184.216.34'' else u ''10.0.0.1''], Suc n)),
     w_get = (\<lambda>c n. (Inr \<lparr>hr_status = 302, hr_headers = [(u ''location'', u ''https://a.example/x'')], hr_chunks = [],
        hr_decode = (\<lambda>bs. bs)\<rparr>, n)),
     w_join = (\<lambda>b l. Some l), w_strip = (\<lambda>s. s)\<rparr>"

definition demo_connection :: connection where
  "demo_connection = \<lparr>cn_scheme = u ''https'', cn_netloc = u ''93.184.216.34'', cn_rest = u ''/'', cn_host = u ''a.example'',
     cn_sni = Some (u ''a.example'')\<rparr>"

lemma demo_blocked: "\<not> ip_is_blocked demo_iplib (u ''93.184.216.34'')" "ip_is_blocked demo_iplib (u ''10.0.0.1'')"
  by (simp_all add: ip_is_blocked_def demo_iplib_def in_net4_def CGNAT_NET_def)

lemma demo_urls:
  "urlparse ascii_uni (u ''https://a.example/'') = Some \<lparr>pu_scheme = u ''https'', pu_netloc = u ''a.example'',
     pu_hostname = Some (u ''a.example''), pu_rest = u ''/''\<rparr>"
  "urlparse ascii_uni (u ''https://a.example/x'') = Some \<lparr>pu_scheme = u ''https'', pu_netloc = u ''a.example'',
     pu_hostname = Some (u ''a.example''), pu_rest = u ''/x''\<rparr>"
  by code_simp+

lemma demo_check:
  "check_host demo_web (u ''a.example'') n = (let ip = (if n < 2 then u ''93.184.216.34'' else u ''10.0.0.1'')
     in (Inr ([ip], if n < 2 then None else Some (u ''refusing to reach a private/loopback address (10.0.0.1)'')),
         [Lookup (u ''a.example'') [ip]], Suc n))"
proof -
  have "\<not> allowlisted demo_web (u ''a.example'')" by code_simp
  moreover have "parse_ip demo_iplib (u ''a.example'') = None" by (simp add: demo_iplib_def)
  ultimately show ?thesis
    by (simp add: check_host_def demo_web_def egress_block_reason_def demo_blocked Let_def) (simp add: u_def)
qed

lemma demo_fetch: "web_fetch_core demo_web (u ''a.example/'') 100 0 =
  (u ''web_fetch blocked: refusing to reach a private/loopback address (10.0.0.1)'',
   [Lookup (u ''a.example'') [u ''93.184.216.34''], Lookup (u ''a.example'') [u ''93.184.216.34''], Connect demo_connection,
    Lookup (u ''a.example'') [u ''10.0.0.1'']], 3)"
proof -
  have U: "w_uni demo_web = ascii_uni" and I: "w_ip demo_web = demo_iplib"
    and J: "w_join demo_web b l = Some l" for b l by (simp_all add: demo_web_def)
  have fp: "format_pinned_netloc demo_iplib (u ''93.184.216.34'') 443 443 = Some (u ''93.184.216.34'')"
  proof -
    have "strip_chars (u ''[]'') (u ''93.184.216.34'') = u ''93.184.216.34''" by code_simp
    then show ?thesis by (simp add: format_pinned_netloc_def demo_iplib_def)
  qed
  have po: "url_port (u ''a.example'') = Inr None" by code_simp
  have pr: "pinned_request demo_web (u ''https://a.example/'') (Suc 0) =
      (Inr demo_connection, [Lookup (u ''a.example'') [u ''93.184.216.34'']], 2)"
    by (simp add: pinned_request_def U I demo_urls hostname_or_empty_def demo_check po fp demo_connection_def Let_def)
  have fr: "fetch_raw demo_web (u ''https://a.example/'') (Suc 0) = (Inr \<lparr>rr_status = 302,
      rr_headers = [(u ''location'', u ''https://a.example/x'')], rr_text = []\<rparr>,
      [Lookup (u ''a.example'') [u ''93.184.216.34''], Connect demo_connection], 2)"
    by (simp add: fetch_raw_def pr) (simp add: demo_web_def)
  have rt: "redirect_target \<lparr>rr_status = 302, rr_headers = [(u ''location'', u ''https://a.example/x'')], rr_text = []\<rparr>
      = u ''https://a.example/x''" by code_simp
  have l2: "fetch_loop demo_web 5 (u ''https://a.example/x'') 2 =
     (Blocked (u ''refusing to reach a private/loopback address (10.0.0.1)''), [Lookup (u ''a.example'') [u ''10.0.0.1'']], 3)"
    using fetch_loop.simps(2)[of demo_web 4 "u ''https://a.example/x''" 2]
    by (simp add: U demo_urls hostname_or_empty_def demo_check Let_def del: fetch_loop.simps)
  have six: "(6 :: nat) = Suc (Suc 4)" by simp
  have l: "fetch_loop demo_web 6 (u ''https://a.example/'') 0 = (Blocked (u ''refusing to reach a private/loopback address (10.0.0.1)''),
     [Lookup (u ''a.example'') [u ''93.184.216.34''], Lookup (u ''a.example'') [u ''93.184.216.34''], Connect demo_connection,
      Lookup (u ''a.example'') [u ''10.0.0.1'']], 3)"
    unfolding six fetch_loop.simps(2)[of _ "Suc 4"]
    by (simp add: U J demo_urls hostname_or_empty_def demo_check fr rt REDIRECT_CODES_def Let_def l2 del: fetch_loop.simps)
  have "startswith (u ''a.example/'') (u ''http://'') = False" "startswith (u ''a.example/'') (u ''https://'') = False"
    "u ''https://'' @ u ''a.example/'' = u ''https://a.example/''" by code_simp+
  with l show ?thesis by (simp add: web_fetch_core_def MAX_REDIRECTS_def u_append[symmetric] Let_def)
qed

lemma demo_ip_texts: "ip_texts_ok demo_iplib"
  by (auto simp: ip_texts_ok_def demo_iplib_def u_def)


end
