(* ===== verification/Turn_Runner.thy ===== *)
theory Turn_Runner
  imports Stream_Handlers
begin

text \<open>
  The turn runner shared by every front-end, \<^verbatim>\<open>src/src/jarn/agent/turn_runner.py\<close>, with the parts of the controller it
  drives (\<^verbatim>\<open>src/src/jarn/controller/core.py\<close>): the exclusive turn slot, the making of a driver and the rotation over the
  fallback models.

  What the driver does in one attempt (\<open>o_run\<close>), the building of a runtime, the thread's state and the
  resolution of secrets are the record \<open>turn_ops\<close>; \<open>Session_Turn\<close> models the driver itself. A result keeps
  the list of attempts and of the delivered events. An asyncio task is a number; \<open>live\<close> says which tasks have
  not finished.
\<close>

section \<open>The controller\<close>

type_synonym task = nat

datatype ProviderType = CODEX_SUBSCRIPTION | OPENROUTER | OPENAI | LMSTUDIO | GROQ | DEEPSEEK | TOGETHER | FIREWORKS
  | XAI | OPENCODE | OPENAI_COMPATIBLE | ANTHROPIC | OLLAMA | GOOGLE | MISTRAL

record ProviderConfig =
  pc_type :: ProviderType
  pc_api_key :: "pystr option"

record runtime =
  rt_model :: "pystr option"

record turn_driver =
  td_model :: pystr
  td_thread :: pystr
  td_diag_round :: nat
  td_releases :: bool

record controller =
  k_thread :: pystr
  k_profile :: "pystr option"
  k_providers :: "(pystr, ProviderConfig) pydict"
  k_candidates :: "pystr list"
  k_idx :: nat
  k_main :: "pystr option"
  k_default :: "pystr option"
  k_runtime :: "runtime option"
  k_generation :: nat
  k_owner :: "task option"
  k_held :: bool
  k_active :: "turn_driver option"
  k_images_off :: bool
  k_diag_round :: nat
  k_steer :: "pystr option"

datatype ctl_error = TurnBusyError | AssertionError

text \<open>\<open>None\<close> is \<^verbatim>\<open>TurnBusyError\<close>; \<open>me\<close> is the current task, \<open>None\<close> without a running loop.\<close>

definition acquire_turn :: "(task \<Rightarrow> bool) \<Rightarrow> task option \<Rightarrow> controller \<Rightarrow> (bool \<times> controller) option" where
  "acquire_turn live me C =
     (if (case k_owner C of None \<Rightarrow> False | Some t \<Rightarrow> live t \<and> Some t \<noteq> me) then None
      else if me \<noteq> None \<and> k_owner C = me \<and> k_held C then Some (False, C)
      else if me = None \<and> k_held C \<and> k_owner C = None then Some (False, C)
      else Some (True, C\<lparr>k_owner := me, k_held := True\<rparr>))"

definition release_turn :: "task option \<Rightarrow> controller \<Rightarrow> controller" where
  "release_turn me C = (if k_owner C = me then C\<lparr>k_held := False, k_owner := None\<rparr> else C)"

definition make_driver :: "(task \<Rightarrow> bool) \<Rightarrow> task option \<Rightarrow> controller \<Rightarrow> ctl_error + turn_driver \<times> controller" where
  "make_driver live me C =
     (case k_runtime C of
        None \<Rightarrow> Inl AssertionError
      | Some r \<Rightarrow>
          (case acquire_turn live me C of
             None \<Rightarrow> Inl TurnBusyError
           | Some (newly, C1) \<Rightarrow>
               (let drv = \<lparr>td_model = first_text [rt_model r, Some (u ''unknown'')], td_thread = k_thread C1,
                           td_diag_round = k_diag_round C1, td_releases = newly\<rparr>
                in Inr (drv, C1\<lparr>k_active := Some drv\<rparr>))))"

definition pop_steer_slot :: "controller \<Rightarrow> pystr option \<times> controller" where
  "pop_steer_slot C = (k_steer C, C\<lparr>k_steer := None\<rparr>)"

definition invalidate_runtime :: "controller \<Rightarrow> controller" where
  "invalidate_runtime C = C\<lparr>k_generation := Suc (k_generation C), k_runtime := None\<rparr>"

definition use_candidate :: "nat \<Rightarrow> controller \<Rightarrow> controller" where
  "use_candidate i C = invalidate_runtime (C\<lparr>k_idx := i, k_main := Some (k_candidates C ! i),
     k_default := Some (k_candidates C ! i)\<rparr>)"

definition rotate_to_fallback :: "controller \<Rightarrow> pystr option \<times> controller" where
  "rotate_to_fallback C =
     (if k_idx C + 1 \<ge> length (k_candidates C) then (None, C)
      else (Some (k_candidates C ! (k_idx C + 1)), use_candidate (k_idx C + 1) C))"

definition reset_model_rotation :: "controller \<Rightarrow> controller" where
  "reset_model_rotation C = (if k_idx C \<noteq> 0 \<and> k_candidates C \<noteq> [] then use_candidate 0 C else C)"

definition parse_model_ref :: "pystr \<Rightarrow> pystr option \<Rightarrow> (pystr \<times> pystr) option" where
  "parse_model_ref ref dflt =
     (if 47 \<in> set ref then Some (before_first 47 ref, drop (Suc (length (before_first 47 ref))) ref)
      else if or_empty dflt = [] then None else Some (or_empty dflt, ref))"

definition ref_profile :: "controller \<Rightarrow> pystr \<Rightarrow> pystr" where
  "ref_profile C ref = (case parse_model_ref ref (k_profile C) of None \<Rightarrow> ref | Some (p, _) \<Rightarrow> p)"

text \<open>\<open>resolve\<close> gives the value of a secret reference; \<open>None\<close> is \<^verbatim>\<open>SecretResolutionError\<close>.\<close>

definition ref_has_resolvable_key :: "(pystr option \<Rightarrow> pystr option option) \<Rightarrow> controller \<Rightarrow> pystr \<Rightarrow> bool" where
  "ref_has_resolvable_key resolve C ref =
     (case parse_model_ref ref (k_profile C) of
        None \<Rightarrow> False
      | Some (p, _) \<Rightarrow>
          (case dget (k_providers C) p of
             None \<Rightarrow> False
           | Some pc \<Rightarrow> pc_type pc \<in> {OLLAMA, LMSTUDIO, CODEX_SUBSCRIPTION}
               \<or> (case resolve (pc_api_key pc) of None \<Rightarrow> False | Some v \<Rightarrow> or_empty v \<noteq> [])))"

fun first_index :: "('a \<Rightarrow> bool) \<Rightarrow> nat \<Rightarrow> 'a list \<Rightarrow> nat option" where
  "first_index P i [] = None"
| "first_index P i (x # xs) = (if P x then Some i else first_index P (Suc i) xs)"

definition rotate_to_keyed_fallback :: "(pystr option \<Rightarrow> pystr option option) \<Rightarrow> controller \<Rightarrow> pystr option \<times> controller" where
  "rotate_to_keyed_fallback resolve C =
     (let current = (if k_candidates C \<noteq> [] then k_candidates C ! k_idx C else []);
          prof = ref_profile C current
      in case first_index (\<lambda>cand. ref_profile C cand \<noteq> prof \<and> ref_has_resolvable_key resolve C cand)
                (k_idx C + 1) (drop (k_idx C + 1) (k_candidates C)) of
           None \<Rightarrow> (None, C)
         | Some i \<Rightarrow> (Some (k_candidates C ! i), use_candidate i C))"

section \<open>The operations around a turn\<close>

record turn_input =
  ti_text :: pystr
  ti_resume :: bool
  ti_images :: "pystr list"
  ti_media :: bool
  ti_pending_only :: bool

record 'x turn_ops =
  o_run :: "turn_driver \<Rightarrow> turn_input \<Rightarrow> 'x \<Rightarrow> Event list \<times> pystr option \<times> 'x"
  o_build :: "controller \<Rightarrow> 'x \<Rightarrow> (pystr + runtime) \<times> 'x"
  o_get_state :: "('x \<Rightarrow> message list option \<times> 'x) option"
  o_remove :: "(pystr \<Rightarrow> 'x \<Rightarrow> 'x) option"
  o_resolve :: "pystr option \<Rightarrow> pystr option option"

definition ensure_runtime :: "'x turn_ops \<Rightarrow> controller \<Rightarrow> 'x \<Rightarrow> pystr option \<times> controller \<times> 'x" where
  "ensure_runtime O1 C x =
     (case k_runtime C of
        Some r \<Rightarrow> (None, C, x)
      | None \<Rightarrow> (case o_build O1 C x of
            (Inl msg, x') \<Rightarrow> (Some msg, C, x')
          | (Inr r, x') \<Rightarrow> (None, C\<lparr>k_runtime := Some r\<rparr>, x')))"

text \<open>The message to remove before a text-only retry: the last one of the user, if it carries an image.\<close>

definition pending_image_message :: "message list \<Rightarrow> pystr option" where
  "pending_image_message ms =
     (case find (\<lambda>m. m_type m = u ''human'') (rev ms) of
        None \<Rightarrow> None
      | Some m \<Rightarrow> (case m_content m of CList bs \<Rightarrow> if BImage \<in> set bs then m_id m else None | _ \<Rightarrow> None))"

definition drop_pending_image_message :: "'x turn_ops \<Rightarrow> 'x \<Rightarrow> bool \<times> 'x" where
  "drop_pending_image_message O1 x =
     (case (o_get_state O1, o_remove O1) of
        (Some get, Some remove) \<Rightarrow>
          (case get x of
             (None, x') \<Rightarrow> (False, x')
           | (Some ms, x') \<Rightarrow> (case pending_image_message ms of None \<Rightarrow> (False, x') | Some i \<Rightarrow> (True, remove i x')))
      | _ \<Rightarrow> (False, x))"

definition IMAGE_ERROR_MARKERS :: "pystr list" where
  "IMAGE_ERROR_MARKERS = map u [''image'', ''vision'', ''multimodal'', ''modalit'']"

definition is_image_capability_error :: "pyuni \<Rightarrow> Event \<Rightarrow> bool" where
  "is_image_capability_error U e = list_ex (contains (lower U (etext e))) IMAGE_ERROR_MARKERS"

definition counts_as_produced :: "Event \<Rightarrow> bool" where
  "counts_as_produced e \<longleftrightarrow> ekind e \<in> {TEXT, REASONING, TOOL_START, TOOL_PROGRESS, TOOL_END, NOTICE, APPROVAL}"

section \<open>The runner\<close>

record turn_args =
  ta_text :: pystr
  ta_images :: "pystr list"
  ta_media :: bool
  ta_pending_only :: bool
  ta_resume :: bool
  ta_on_event :: bool
  ta_queue :: bool

record attempt =
  at_input :: turn_input
  at_events :: "Event list"

record 'x turn_out =
  to_had :: bool
  to_error :: "Event option"
  to_log :: "Event list"
  to_queued :: "json list"
  to_attempts :: "attempt list"
  to_raised :: "pystr option"
  to_ctl :: controller
  to_ext :: 'x

definition emit_event :: "turn_args \<Rightarrow> Event \<Rightarrow> 'x turn_out \<Rightarrow> 'x turn_out" where
  "emit_event A e S = (if ta_on_event A then S\<lparr>to_log := to_log S @ [e]\<rparr> else S)"

text \<open>One event of the driver; the pair is the pending error and whether output was produced.\<close>

definition consume :: "pyuni \<Rightarrow> turn_args \<Rightarrow> Event \<Rightarrow> (Event option \<times> bool) \<times> 'x turn_out \<Rightarrow> (Event option \<times> bool) \<times> 'x turn_out" where
  "consume U A e st =
     (case st of ((pending, produced), S0) \<Rightarrow>
        (let S = S0\<lparr>to_had := True\<rparr>
         in if ekind e = ERROR then ((Some e, produced), S)
            else (let q = aget (edata e) ''diagnostics_auto_queue'';
                      S1 = (if ekind e = NOTICE \<and> truthy U q \<and> ta_queue A
                            then S\<lparr>to_ctl := (to_ctl S)\<lparr>k_diag_round := Suc (k_diag_round (to_ctl S))\<rparr>,
                                   to_queued := to_queued S @ [q]\<rparr> else S)
                  in ((pending, produced \<or> counts_as_produced e), emit_event A e S1))))"

definition attempt_input :: "turn_args \<Rightarrow> bool \<Rightarrow> controller \<Rightarrow> turn_input" where
  "attempt_input A res C =
     \<lparr>ti_text = (if res then [] else ta_text A), ti_resume = res,
      ti_images = (if ta_images A \<noteq> [] \<and> \<not> res \<and> \<not> k_images_off C then ta_images A else []),
      ti_media = (ta_media A \<and> \<not> res), ti_pending_only = ta_pending_only A\<rparr>"

text \<open>One attempt: the events of the driver are consumed in order. The driver gives the slot back when
  it was the one to take it.\<close>

definition run_attempt :: "'x turn_ops \<Rightarrow> pyuni \<Rightarrow> turn_args \<Rightarrow> task option \<Rightarrow> turn_driver \<Rightarrow> bool \<Rightarrow> 'x turn_out
    \<Rightarrow> (Event option \<times> bool) \<times> 'x turn_out" where
  "run_attempt O1 U A me drv res S =
     (let inp = attempt_input A res (to_ctl S)
      in case o_run O1 drv inp (to_ext S) of (evs, raised, x) \<Rightarrow>
           (case fold (consume U A) evs ((None, False), S) of (pp, S1) \<Rightarrow>
              (pp, S1\<lparr>to_ext := x, to_raised := raised, to_attempts := to_attempts S1 @ [\<lparr>at_input = inp, at_events = evs\<rparr>],
                      to_ctl := (if td_releases drv then release_turn me (to_ctl S1) else to_ctl S1)\<rparr>)))"

definition policy_notice :: "pystr \<Rightarrow> string \<Rightarrow> args \<Rightarrow> Event" where
  "policy_notice txt pol extra = ev NOTICE txt ((u ''turn_policy'', JStr (u pol)) # extra)"

datatype 'x turn_verdict = Stop "'x turn_out" | Retry bool bool "'x turn_out"

text \<open>A rotation that found a model: the runtime is rebuilt and the turn resumed, or the failure of the
  build is reported.\<close>

definition retry_with :: "'x turn_ops \<Rightarrow> turn_args \<Rightarrow> Event \<Rightarrow> string \<Rightarrow> pystr \<Rightarrow> pystr \<Rightarrow> controller \<Rightarrow> bool \<Rightarrow> 'x turn_out \<Rightarrow> 'x turn_verdict" where
  "retry_with O1 A err pol txt ref C img S =
     (case ensure_runtime O1 C (to_ext S) of
        (Some msg, C', x) \<Rightarrow>
          Stop ((emit_event A (policy_notice (u ''fallback unavailable: '' @ msg) ''fallback_unavailable'' [(u ''severity'', JStr (u ''error''))])
                  (S\<lparr>to_ctl := C', to_ext := x\<rparr>))\<lparr>to_error := Some err\<rparr>)
      | (None, C', x) \<Rightarrow>
          Retry True img (emit_event A (policy_notice (txt @ ref @ [8230]) pol [(u ''model'', JStr ref)]) (S\<lparr>to_ctl := C', to_ext := x\<rparr>)))"

definition image_retry :: "'x turn_ops \<Rightarrow> turn_args \<Rightarrow> 'x turn_out \<Rightarrow> 'x turn_verdict" where
  "image_retry O1 A S =
     (case drop_pending_image_message O1 (to_ext S) of (_, x) \<Rightarrow>
        Retry False True (emit_event A (policy_notice (u ''image not accepted by this model '' @ [8212]
            @ u '' retrying without the inline image (text-only)'') ''image_fallback'' [])
          (S\<lparr>to_ctl := (to_ctl S)\<lparr>k_images_off := True\<rparr>, to_ext := x\<rparr>)))"

definition give_up :: "turn_args \<Rightarrow> Event \<Rightarrow> 'x turn_out \<Rightarrow> 'x turn_verdict" where
  "give_up A err S = Stop (emit_event A err (S\<lparr>to_error := Some err\<rparr>))"

definition auth_retry :: "'x turn_ops \<Rightarrow> pyuni \<Rightarrow> turn_args \<Rightarrow> Event \<Rightarrow> bool \<Rightarrow> bool \<Rightarrow> 'x turn_out \<Rightarrow> 'x turn_verdict" where
  "auth_retry O1 U A err produced img S =
     (if truthy U (aget (edata err) ''auth'') \<and> \<not> produced then
        (case rotate_to_keyed_fallback (o_resolve O1) (to_ctl S) of
           (Some ref, C) \<Rightarrow> if ref \<noteq> [] then retry_with O1 A err ''auth_fallback'' (u ''auth failed, retrying with '') ref C img S
                            else give_up A err (S\<lparr>to_ctl := C\<rparr>)
         | (None, C) \<Rightarrow> give_up A err (S\<lparr>to_ctl := C\<rparr>))
      else give_up A err S)"

definition after_attempt :: "'x turn_ops \<Rightarrow> pyuni \<Rightarrow> turn_args \<Rightarrow> bool \<Rightarrow> Event option \<Rightarrow> bool \<Rightarrow> turn_input \<Rightarrow> 'x turn_out \<Rightarrow> 'x turn_verdict" where
  "after_attempt O1 U A img pending produced inp S =
     (case pending of
        None \<Rightarrow> Stop (S\<lparr>to_ctl := reset_model_rotation (to_ctl S)\<rparr>)
      | Some err \<Rightarrow>
          if ti_images inp \<noteq> [] \<and> \<not> img \<and> \<not> produced \<and> is_image_capability_error U err then image_retry O1 A S
          else if truthy U (aget (edata err) ''retryable'') \<and> \<not> produced then
            (case rotate_to_fallback (to_ctl S) of
               (Some ref, C) \<Rightarrow> if ref \<noteq> [] then retry_with O1 A err ''model_fallback'' (u ''model error, retrying with '') ref C img S
                                else auth_retry O1 U A err produced img (S\<lparr>to_ctl := C\<rparr>)
             | (None, C) \<Rightarrow> auth_retry O1 U A err produced img (S\<lparr>to_ctl := C\<rparr>))
          else auth_retry O1 U A err produced img S)"

definition left :: "controller \<Rightarrow> nat" where
  "left C = length (k_candidates C) - 1 - k_idx C"

lemma use_candidate_simps [simp]:
  "k_candidates (use_candidate i C) = k_candidates C" "k_idx (use_candidate i C) = i"
  "k_owner (use_candidate i C) = k_owner C" "k_held (use_candidate i C) = k_held C" "k_images_off (use_candidate i C) = k_images_off C"
  by (simp_all add: use_candidate_def invalidate_runtime_def)

lemma first_index_bound: "first_index P i xs = Some j \<Longrightarrow> i \<le> j \<and> j < i + length xs"
proof (induction xs arbitrary: i)
  case (Cons x xs)
  show ?case
  proof (cases "P x")
    case False
    then have "first_index P (Suc i) xs = Some j" using Cons.prems by simp
    from Cons.IH[OF this] show ?thesis by simp
  qed (use Cons.prems in simp)
qed simp

text \<open>Controllers that differ only in what an attempt may change.\<close>

definition same_rotation :: "controller \<Rightarrow> controller \<Rightarrow> bool" where
  "same_rotation C D \<longleftrightarrow> k_candidates D = k_candidates C \<and> k_idx D = k_idx C \<and> k_owner D = k_owner C \<and> k_held D = k_held C
     \<and> k_images_off D = k_images_off C"

lemma same_rotation_left: "same_rotation C D \<Longrightarrow> left D = left C"
  by (simp add: same_rotation_def left_def)

lemma ensure_same: "ensure_runtime O1 C x = (r, D, y) \<Longrightarrow> same_rotation C D"
  by (auto simp: ensure_runtime_def same_rotation_def split: option.splits sum.splits prod.splits)

lemma emit_simps [simp]:
  "to_ctl (emit_event A e S) = to_ctl S" "to_attempts (emit_event A e S) = to_attempts S" "to_raised (emit_event A e S) = to_raised S"
  "to_error (emit_event A e S) = to_error S" "to_ext (emit_event A e S) = to_ext S"
  by (simp_all add: emit_event_def)

text \<open>Every retry uses something up: a model of the chain, or the one retry without images.\<close>

definition spends :: "bool \<Rightarrow> controller \<Rightarrow> bool \<Rightarrow> controller \<Rightarrow> bool" where
  "spends img C img' D \<longleftrightarrow> k_owner D = k_owner C \<and> k_held D = k_held C \<and> k_candidates D = k_candidates C
     \<and> (if img' = img then left D < left C \<and> k_images_off D = k_images_off C
        else \<not> img \<and> img' \<and> left D = left C \<and> k_images_off D)"

lemma retry_with_spends:
  assumes "retry_with O1 A err pol txt ref C img S = Retry r i S'" "left C < left (to_ctl S)"
    "k_owner C = k_owner (to_ctl S)" "k_held C = k_held (to_ctl S)" "k_candidates C = k_candidates (to_ctl S)"
    "k_images_off C = k_images_off (to_ctl S)"
  shows "r \<and> spends img (to_ctl S) i (to_ctl S') \<and> to_attempts S' = to_attempts S"
proof -
  obtain m D y where e: "ensure_runtime O1 C (to_ext S) = (m, D, y)" by (metis prod_cases3)
  have m: "m = None" using assms(1) e by (cases m) (simp_all add: retry_with_def)
  have S': "r \<and> i = img \<and> to_ctl S' = D \<and> to_attempts S' = to_attempts S"
    using assms(1) e m by (auto simp: retry_with_def)
  from ensure_same[OF e] same_rotation_left[OF ensure_same[OF e]] assms(2-) show ?thesis
    unfolding spends_def same_rotation_def S'[THEN conjunct2, THEN conjunct2, THEN conjunct1] using S' by metis
qed

lemma rotate_left:
  "rotate_to_fallback C = (Some ref, D) \<Longrightarrow> left D < left C"
  "rotate_to_keyed_fallback f C = (Some ref, D) \<Longrightarrow> left D < left C"
proof -
  show "rotate_to_fallback C = (Some ref, D) \<Longrightarrow> left D < left C"
    unfolding rotate_to_fallback_def by (cases "k_idx C + 1 \<ge> length (k_candidates C)") (auto simp: left_def)
  assume r: "rotate_to_keyed_fallback f C = (Some ref, D)"
  let ?P = "\<lambda>cand. ref_profile C cand \<noteq> ref_profile C (if k_candidates C \<noteq> [] then k_candidates C ! k_idx C else [])
      \<and> ref_has_resolvable_key f C cand"
  obtain i where i: "first_index ?P (k_idx C + 1) (drop (k_idx C + 1) (k_candidates C)) = Some i" "D = use_candidate i C"
    using r unfolding rotate_to_keyed_fallback_def Let_def
    by (cases "first_index ?P (k_idx C + 1) (drop (k_idx C + 1) (k_candidates C))") simp_all
  from first_index_bound[OF i(1)] i(2) show "left D < left C" by (auto simp: left_def)
qed

lemma rotate_frame:
  "rotate_to_fallback C = (r, D) \<Longrightarrow> k_owner D = k_owner C \<and> k_held D = k_held C \<and> k_candidates D = k_candidates C \<and> k_images_off D = k_images_off C"
  "rotate_to_keyed_fallback f C = (r, D) \<Longrightarrow> k_owner D = k_owner C \<and> k_held D = k_held C \<and> k_candidates D = k_candidates C \<and> k_images_off D = k_images_off C"
  "rotate_to_fallback C = (None, D) \<Longrightarrow> D = C" "rotate_to_keyed_fallback f C = (None, D) \<Longrightarrow> D = C"
  by (auto simp: rotate_to_fallback_def rotate_to_keyed_fallback_def Let_def split: if_splits option.splits)


lemma auth_retry_spends:
  assumes "auth_retry O1 U A err pr img S = Retry r i S'"
  shows "r \<and> \<not> pr \<and> spends img (to_ctl S) i (to_ctl S') \<and> to_attempts S' = to_attempts S"
proof -
  obtain x C where ro: "rotate_to_keyed_fallback (o_resolve O1) (to_ctl S) = (x, C)" by force
  from assms ro obtain ref where x: "x = Some ref" and np: "\<not> pr"
    and rw: "retry_with O1 A err ''auth_fallback'' (u ''auth failed, retrying with '') ref C img S = Retry r i S'"
    by (auto simp: auth_retry_def give_up_def split: if_splits option.splits)
  from retry_with_spends[OF rw] rotate_left(2)[OF ro[unfolded x]] rotate_frame(2)[OF ro] np show ?thesis by simp
qed

lemma spends_trans: "left D \<le> left C \<Longrightarrow> k_owner D = k_owner C \<Longrightarrow> k_held D = k_held C \<Longrightarrow> k_candidates D = k_candidates C \<Longrightarrow>
   k_images_off D = k_images_off C \<Longrightarrow> spends img D img E \<Longrightarrow> spends img C img E"
  by (auto simp: spends_def)

lemma retry_with_img: "retry_with O1 A err pol txt ref C img S = Retry r i S' \<Longrightarrow> i = img"
  by (auto simp: retry_with_def split: prod.splits option.splits)

lemma auth_retry_img: "auth_retry O1 U A err pr img S = Retry r i S' \<Longrightarrow> i = img"
  by (auto simp: auth_retry_def give_up_def dest: retry_with_img split: if_splits option.splits prod.splits)

lemma after_attempt_spends:
  assumes "after_attempt O1 U A img pending pr inp S = Retry r i S'"
  shows "pending \<noteq> None \<and> \<not> pr \<and> spends img (to_ctl S) i (to_ctl S') \<and> to_attempts S' = to_attempts S
    \<and> (r = (i = img)) \<and> (i \<noteq> img \<longrightarrow> ti_images inp \<noteq> [])"
proof -
  from assms obtain err where err: "pending = Some err" by (cases pending) (auto simp: after_attempt_def)
  note def = assms[unfolded after_attempt_def err option.case]
  show ?thesis
  proof (cases "ti_images inp \<noteq> [] \<and> \<not> img \<and> \<not> pr \<and> is_image_capability_error U err")
    case True
    with def err show ?thesis by (auto simp: image_retry_def spends_def left_def split: prod.splits)
  next
    case no: False
    show ?thesis
    proof (cases "truthy U (aget (edata err) ''retryable'') \<and> \<not> pr")
      case ret: True
      obtain x C where ro: "rotate_to_fallback (to_ctl S) = (x, C)" by force
      show ?thesis
      proof (cases x)
        case None
        from def[unfolded if_not_P[OF no] if_P[OF ret] ro None]
        have a: "auth_retry O1 U A err pr img (S\<lparr>to_ctl := C\<rparr>) = Retry r i S'" by simp
        from auth_retry_spends[OF a] auth_retry_img[OF a] rotate_frame(3)[OF ro[unfolded None]] err show ?thesis by simp
      next
        case (Some ref)
        note fr = rotate_frame(1)[OF ro] rotate_left(1)[OF ro[unfolded Some]]
        show ?thesis
        proof (cases "ref = []")
          case [simp]: True
          from def[unfolded if_not_P[OF no] if_P[OF ret] ro Some]
          have a: "auth_retry O1 U A err pr img (S\<lparr>to_ctl := C\<rparr>) = Retry r i S'" by simp
          from auth_retry_spends[OF a] auth_retry_img[OF a] fr spends_trans[of C "to_ctl S" img "to_ctl S'"] err show ?thesis by simp
        next
          case False
          from def[unfolded if_not_P[OF no] if_P[OF ret] ro Some] False
          have rw: "retry_with O1 A err ''model_fallback'' (u ''model error, retrying with '') ref C img S = Retry r i S'" by simp
          from retry_with_spends[OF rw] retry_with_img[OF rw] fr ret err show ?thesis by simp
        qed
      qed
    next
      case False
      from def[unfolded if_not_P[OF no] if_not_P[OF False]] have a: "auth_retry O1 U A err pr img S = Retry r i S'" .
      from auth_retry_spends[OF a] auth_retry_img[OF a] err show ?thesis by simp
    qed
  qed
qed


lemma consume_fold:
  assumes "fold (consume U A) evs ((pd, pr), S) = ((pd', pr'), S')"
  shows "same_rotation (to_ctl S) (to_ctl S') \<and> to_attempts S' = to_attempts S \<and> to_error S' = to_error S
    \<and> pr' = (pr \<or> list_ex (\<lambda>e. ekind e \<noteq> ERROR \<and> counts_as_produced e) evs)
    \<and> (pd' \<noteq> None \<longleftrightarrow> pd \<noteq> None \<or> list_ex (\<lambda>e. ekind e = ERROR) evs)"
  using assms
proof (induction evs arbitrary: pd pr S)
  case (Cons e evs)
  obtain pd1 pr1 S1 where c: "consume U A e ((pd, pr), S) = ((pd1, pr1), S1)" by (metis prod_cases3 surj_pair)
  then have one: "same_rotation (to_ctl S) (to_ctl S1) \<and> to_attempts S1 = to_attempts S \<and> to_error S1 = to_error S
      \<and> pr1 = (pr \<or> ekind e \<noteq> ERROR \<and> counts_as_produced e) \<and> (pd1 \<noteq> None \<longleftrightarrow> pd \<noteq> None \<or> ekind e = ERROR)"
    by (auto simp: consume_def Let_def same_rotation_def split: if_splits)
  from Cons.prems c have "fold (consume U A) evs ((pd1, pr1), S1) = ((pd', pr'), S')" by simp
  from Cons.IH[OF this] one show ?case by (auto simp: same_rotation_def)
qed (simp add: same_rotation_def)

lemma run_attempt_props:
  assumes "run_attempt O1 U A me drv res S = ((pd, pr), S')"
  shows "\<exists>a. to_attempts S' = to_attempts S @ [a] \<and> at_input a = attempt_input A res (to_ctl S) \<and> left (to_ctl S') = left (to_ctl S)
    \<and> k_candidates (to_ctl S') = k_candidates (to_ctl S) \<and> k_images_off (to_ctl S') = k_images_off (to_ctl S)
    \<and> (\<not> td_releases drv \<longrightarrow> same_rotation (to_ctl S) (to_ctl S'))
    \<and> pr = list_ex (\<lambda>e. ekind e \<noteq> ERROR \<and> counts_as_produced e) (at_events a)
    \<and> (pd \<noteq> None \<longleftrightarrow> list_ex (\<lambda>e. ekind e = ERROR) (at_events a))"
proof -
  obtain evs ra x where r: "o_run O1 drv (attempt_input A res (to_ctl S)) (to_ext S) = (evs, ra, x)" by (metis prod_cases3)
  obtain S1 where f: "fold (consume U A) evs ((None, False), S) = ((pd, pr), S1)"
    using assms r by (auto simp: run_attempt_def Let_def split: prod.splits)
  have S': "S' = S1\<lparr>to_ext := x, to_raised := ra, to_attempts := to_attempts S1 @ [\<lparr>at_input = attempt_input A res (to_ctl S), at_events = evs\<rparr>],
      to_ctl := (if td_releases drv then release_turn me (to_ctl S1) else to_ctl S1)\<rparr>"
    using assms r f by (auto simp: run_attempt_def Let_def)
  have "k_candidates (release_turn me C) = k_candidates C" "k_idx (release_turn me C) = k_idx C"
    "k_images_off (release_turn me C) = k_images_off C" for C by (simp_all add: release_turn_def)
  with consume_fold[OF f] show ?thesis
    by (intro exI[of _ "\<lparr>at_input = attempt_input A res (to_ctl S), at_events = evs\<rparr>"]) (auto simp: S' left_def same_rotation_def)
qed

lemma make_driver_same:
  assumes "make_driver live me C = Inr (drv, D)"
  shows "left D = left C \<and> k_candidates D = k_candidates C \<and> k_images_off D = k_images_off C"
  using assms by (auto simp: make_driver_def acquire_turn_def left_def Let_def split: option.splits if_splits)

definition ctl_error_name :: "ctl_error \<Rightarrow> pystr" where
  "ctl_error_name e = (case e of TurnBusyError \<Rightarrow> u ''TurnBusyError'' | AssertionError \<Rightarrow> u ''AssertionError'')"

lemma spends_measure: "spends img C i D \<Longrightarrow> left D + (if i then 0 else 1) < left C + (if img then 0 else (1 :: nat))"
  by (auto simp: spends_def split: if_splits)

function run_attempts :: "'x turn_ops \<Rightarrow> pyuni \<Rightarrow> turn_args \<Rightarrow> (task \<Rightarrow> bool) \<Rightarrow> task option \<Rightarrow> bool \<Rightarrow> bool \<Rightarrow> 'x turn_out \<Rightarrow> 'x turn_out" where
  "run_attempts O1 U A live me res img S =
     (case make_driver live me (to_ctl S) of
        Inl e \<Rightarrow> S\<lparr>to_raised := Some (ctl_error_name e)\<rparr>
      | Inr (drv, C1) \<Rightarrow>
          (case run_attempt O1 U A me drv res (S\<lparr>to_ctl := C1\<rparr>) of ((pending, produced), S1) \<Rightarrow>
             if to_raised S1 \<noteq> None then S1
             else (case after_attempt O1 U A img pending produced (attempt_input A res C1) S1 of
                 Stop S2 \<Rightarrow> S2
               | Retry r i S2 \<Rightarrow> run_attempts O1 U A live me r i S2)))"
  by pat_completeness auto

termination
proof (relation "measure (\<lambda>(O1, U, A, live, me, res, img, S). left (to_ctl S) + (if img then 0 else 1))", goal_cases)
  case (2 O1 U A live me res img S b drv C1 xa S1 pending produced r i S2)
  then have d: "make_driver live me (to_ctl S) = Inr (drv, C1)"
    and a: "run_attempt O1 U A me drv res (S\<lparr>to_ctl := C1\<rparr>) = ((pending, produced), S1)"
    and v: "after_attempt O1 U A img pending produced (attempt_input A res C1) S1 = Retry r i S2" by simp_all
  have "left (to_ctl S1) = left (to_ctl S)" using run_attempt_props[OF a] make_driver_same[OF d] by auto
  with spends_measure after_attempt_spends[OF v] show ?case by fastforce
qed simp

declare run_attempts.simps [simp del]

definition busy_event :: "pyuni \<Rightarrow> controller \<Rightarrow> Event" where
  "busy_event U C = ev ERROR (u ''turn already in progress on thread '' @ repr_str U (k_thread C)
     @ u '' (refusing concurrent run; gateway queues at chat layer)'')
     [(u ''code'', JStr (u ''busy'')), (u ''retryable'', JBool False)]"

definition new_turn :: "controller \<Rightarrow> 'x \<Rightarrow> 'x turn_out" where
  "new_turn C x = \<lparr>to_had = False, to_error = None, to_log = [], to_queued = [], to_attempts = [], to_raised = None,
     to_ctl = C, to_ext = x\<rparr>"

definition run_agent_turn :: "'x turn_ops \<Rightarrow> pyuni \<Rightarrow> turn_args \<Rightarrow> (task \<Rightarrow> bool) \<Rightarrow> task \<Rightarrow> controller \<Rightarrow> 'x \<Rightarrow> 'x turn_out" where
  "run_agent_turn O1 U A live me C x =
     (case acquire_turn live (Some me) C of
        None \<Rightarrow> (emit_event A (busy_event U C) (new_turn C x))\<lparr>to_error := Some (busy_event U C)\<rparr>
      | Some (acquired, C1) \<Rightarrow>
          (let S = run_attempts O1 U A live (Some me) (ta_resume A) False (new_turn C1 x)
           in if acquired then S\<lparr>to_ctl := release_turn (Some me) (to_ctl S)\<rparr> else S))"

section \<open>The attempts of a turn\<close>

text \<open>An attempt that may be retried: it failed and showed nothing.\<close>

definition silent :: "attempt \<Rightarrow> bool" where
  "silent a \<longleftrightarrow> list_ex (\<lambda>e. ekind e = ERROR) (at_events a) \<and> \<not> list_ex counts_as_produced (at_events a)"

definition fresh :: "attempt \<Rightarrow> bool" where
  "fresh a \<longleftrightarrow> \<not> ti_resume (at_input a)"

definition with_images :: "attempt \<Rightarrow> bool" where
  "with_images a \<longleftrightarrow> ti_images (at_input a) \<noteq> []"

definition attempts_ok :: "turn_args \<Rightarrow> bool \<Rightarrow> bool \<Rightarrow> controller \<Rightarrow> attempt list \<Rightarrow> bool" where
  "attempts_ok A res img C new \<longleftrightarrow> list_all silent (butlast new)
     \<and> length new \<le> 1 + left C + (if img \<or> ta_images A = [] then 0 else 1)
     \<and> length (filter fresh new) \<le> (if res then 0 else 1) + (if img \<or> ta_images A = [] then 0 else 1)
     \<and> length (filter with_images new) \<le> (if res \<or> k_images_off C then 0 else 1)
     \<and> list_all (\<lambda>a. ti_text (at_input a) = (if fresh a then ta_text A else [])) new"

lemma produced_not_error: "counts_as_produced e \<Longrightarrow> ekind e \<noteq> ERROR"
  by (auto simp: counts_as_produced_def)

lemma attempts_ok_Nil: "attempts_ok A res img C []"
  by (simp add: attempts_ok_def)

lemma attempts_ok_one:
  assumes "at_input a = attempt_input A res D" "k_images_off D = k_images_off C"
  shows "attempts_ok A res img C [a]"
  using assms by (auto simp: attempts_ok_def fresh_def with_images_def attempt_input_def)

lemma attempts_ok_Cons:
  assumes "at_input a = attempt_input A res D" "k_images_off D = k_images_off C" "silent a"
    and "attempts_ok A r i E new" "spends img C i E" "r = (i = img)" "i \<noteq> img \<longrightarrow> ti_images (at_input a) \<noteq> []"
  shows "attempts_ok A res img C (a # new)"
proof -
  have f: "fresh a = (\<not> res)" and w: "with_images a \<longleftrightarrow> ta_images A \<noteq> [] \<and> \<not> res \<and> \<not> k_images_off C"
    and t: "ti_text (at_input a) = (if fresh a then ta_text A else [])"
    using assms(1,2) by (auto simp: fresh_def with_images_def attempt_input_def)
  have bl: "list_all silent (butlast (a # new))" using assms(3,4) by (auto simp: attempts_ok_def)
  show ?thesis
  proof (cases "i = img")
    case True
    with assms(4,5,6) bl f w t show ?thesis by (auto simp: attempts_ok_def spends_def split: if_splits)
  next
    case False
    with assms(7) w have "ta_images A \<noteq> []" "\<not> res" "\<not> k_images_off C" by (auto simp: with_images_def)
    with assms(4,5,6) False bl f w t show ?thesis by (auto simp: attempts_ok_def spends_def split: if_splits)
  qed
qed

lemma after_attempt_stop: "after_attempt O1 U A img pd pr inp S = Stop S' \<Longrightarrow> to_attempts S' = to_attempts S"
  by (auto simp: after_attempt_def auth_retry_def retry_with_def image_retry_def give_up_def
      split: option.splits if_splits prod.splits)

lemma run_attempts_ok:
  "\<exists>new. to_attempts (run_attempts O1 U A live me res img S) = to_attempts S @ new \<and> attempts_ok A res img (to_ctl S) new"
proof (induction O1 U A live me res img S rule: run_attempts.induct)
  case (1 O1 U A live me res img S)
  show ?case
  proof (cases "make_driver live me (to_ctl S)")
    case (Inl e)
    then show ?thesis by (simp add: run_attempts.simps[of O1 U A live me res img S] attempts_ok_Nil)
  next
    case (Inr b)
    obtain drv C1 where b: "b = (drv, C1)" by force
    obtain pd pr S1 where a: "run_attempt O1 U A me drv res (S\<lparr>to_ctl := C1\<rparr>) = ((pd, pr), S1)" by (metis prod_cases3 surj_pair)
    note md = make_driver_same[OF Inr[unfolded b]]
    from run_attempt_props[OF a] obtain x where x: "to_attempts S1 = to_attempts S @ [x]" "at_input x = attempt_input A res C1"
      "left (to_ctl S1) = left C1" "k_candidates (to_ctl S1) = k_candidates C1" "k_images_off (to_ctl S1) = k_images_off C1"
      "pr = list_ex (\<lambda>e. ekind e \<noteq> ERROR \<and> counts_as_produced e) (at_events x)"
      "pd \<noteq> None \<longleftrightarrow> list_ex (\<lambda>e. ekind e = ERROR) (at_events x)" by auto
    have off: "k_images_off C1 = k_images_off (to_ctl S)" using md by simp
    note one = attempts_ok_one[OF x(2) off]
    note eq = run_attempts.simps[of O1 U A live me res img S, unfolded Inr sum.case b prod.case a]
    show ?thesis
    proof (cases "to_raised S1 \<noteq> None")
      case True
      with eq x(1) one show ?thesis by simp
    next
      case nr: False
      show ?thesis
      proof (cases "after_attempt O1 U A img pd pr (attempt_input A res C1) S1")
        case (Stop S2)
        then have "to_attempts S2 = to_attempts S1" by (rule after_attempt_stop)
        with eq nr Stop x(1) one show ?thesis by simp
      next
        case (Retry r i S2)
        note sp = after_attempt_spends[OF Retry]
        from 1[OF Inr b[symmetric] a[symmetric] refl _ Retry] nr obtain new where
          n: "to_attempts (run_attempts O1 U A live me r i S2) = to_attempts S2 @ new" "attempts_ok A r i (to_ctl S2) new" by auto
        have "silent x" using sp x(6,7) produced_not_error by (auto simp: silent_def list_ex_iff)
        then have "attempts_ok A res img (to_ctl S1) (x # new)"
          using attempts_ok_Cons[OF x(2) x(5)[symmetric] _ n(2)] sp x(2) by simp
        then have "attempts_ok A res img (to_ctl S) (x # new)"
          using x(3,5) md by (simp add: attempts_ok_def)
        moreover have "to_attempts (run_attempts O1 U A live me res img S) = to_attempts S @ x # new"
          using eq nr Retry n(1) sp x(1) by simp
        ultimately show ?thesis by blast
      qed
    qed
  qed
qed


section \<open>Properties\<close>

lemma run_agent_turn_attempts:
  "attempts_ok A (ta_resume A) False C (to_attempts (run_agent_turn O1 U A live me C x))"
proof (cases "acquire_turn live (Some me) C")
  case None
  then show ?thesis by (simp add: run_agent_turn_def new_turn_def attempts_ok_Nil)
next
  case (Some b)
  obtain acq C1 where b: "b = (acq, C1)" by force
  have same: "left C1 = left C" "k_images_off C1 = k_images_off C"
    using Some b by (auto simp: acquire_turn_def left_def split: option.splits if_splits)
  obtain new where n: "to_attempts (run_attempts O1 U A live (Some me) (ta_resume A) False (new_turn C1 x)) = new"
    "attempts_ok A (ta_resume A) False C1 new"
    using run_attempts_ok[of O1 U A live "Some me" "ta_resume A" False "new_turn C1 x"] by (auto simp: new_turn_def)
  with Some b same show ?thesis by (simp add: run_agent_turn_def Let_def attempts_ok_def)
qed

text \<open>
  C28. A turn ends: there is one attempt for the current model and for each model left in the fallback
  chain, and one more when images were sent.
\<close>

theorem turn_attempts_bounded:
  "length (to_attempts (run_agent_turn O1 U A live me C x))
     \<le> 1 + (length (k_candidates C) - 1 - k_idx C) + (if ta_images A = [] then 0 else 1)"
  using run_agent_turn_attempts[of A C O1 U live me x] by (simp add: attempts_ok_def left_def)

text \<open>
  C12. No output is repeated and the prompt is not submitted twice: every attempt but the last failed and had
  shown nothing; the prompt is submitted again only when images were sent, and images at most once;
  every other attempt resumes with an empty text.
\<close>

theorem turn_not_replayed:
  "let as = to_attempts (run_agent_turn O1 U A live me C x)
   in list_all silent (butlast as)
    \<and> length (filter fresh as) \<le> (if ta_resume A then 0 else 1) + (if ta_images A = [] then 0 else 1)
    \<and> length (filter with_images as) \<le> 1
    \<and> list_all (\<lambda>a. ti_text (at_input a) = (if fresh a then ta_text A else [])) as"
  using run_agent_turn_attempts[of A C O1 U live me x] by (auto simp: attempts_ok_def Let_def split: if_splits)

section \<open>The turn slot\<close>

text \<open>Several tasks and callers without a loop share a controller. A task that took the slot runs a turn
  until it gives the slot back; a task may also end without doing so.\<close>

record slot_state =
  sl_ctl :: controller
  sl_live :: "task set"
  sl_running :: "task set"

inductive slot_step :: "slot_state \<Rightarrow> slot_state \<Rightarrow> bool" where
  slot_begin: "t \<in> sl_live s \<Longrightarrow> acquire_turn (\<lambda>t. t \<in> sl_live s) (Some t) (sl_ctl s) = Some (b, C)
     \<Longrightarrow> slot_step s (s\<lparr>sl_ctl := C, sl_running := insert t (sl_running s)\<rparr>)"
| slot_end: "t \<in> sl_live s \<Longrightarrow> t \<in> sl_running s
     \<Longrightarrow> slot_step s (s\<lparr>sl_ctl := release_turn (Some t) (sl_ctl s), sl_running := sl_running s - {t}\<rparr>)"
| slot_finish: "t \<in> sl_live s \<Longrightarrow> slot_step s (s\<lparr>sl_live := sl_live s - {t}\<rparr>)"
| slot_sync: "acquire_turn (\<lambda>t. t \<in> sl_live s) None (sl_ctl s) = Some (b, C) \<Longrightarrow> slot_step s (s\<lparr>sl_ctl := C\<rparr>)"
| slot_sync_end: "slot_step s (s\<lparr>sl_ctl := release_turn None (sl_ctl s)\<rparr>)"

inductive slot_reach :: "slot_state \<Rightarrow> bool" where
  slot_start: "k_owner C = None \<Longrightarrow> \<not> k_held C \<Longrightarrow> slot_reach \<lparr>sl_ctl = C, sl_live = L, sl_running = {}\<rparr>"
| slot_next: "slot_reach s \<Longrightarrow> slot_step s s' \<Longrightarrow> slot_reach s'"

text \<open>A live task that runs a turn owns the slot.\<close>

definition slot_inv :: "slot_state \<Rightarrow> bool" where
  "slot_inv s \<longleftrightarrow> (\<forall>t. t \<in> sl_live s \<and> t \<in> sl_running s \<longrightarrow> k_owner (sl_ctl s) = Some t \<and> k_held (sl_ctl s))"

lemma acquire_owner: "acquire_turn live (Some t) C = Some (b, D) \<Longrightarrow> k_owner D = Some t \<and> k_held D"
  by (auto simp: acquire_turn_def split: if_splits)

lemma acquire_contended: "k_owner C = Some t \<Longrightarrow> live t \<Longrightarrow> me \<noteq> Some t \<Longrightarrow> acquire_turn live me C = None"
  by (simp add: acquire_turn_def)

lemma slot_step_inv: "slot_step s s' \<Longrightarrow> slot_inv s \<Longrightarrow> slot_inv s'"
proof (induction rule: slot_step.induct)
  case (slot_begin t s b C)
  have "t' = t" if "t' \<in> sl_live s" "t' \<in> sl_running s" for t'
    using that slot_begin acquire_contended[of "sl_ctl s" t' "\<lambda>t. t \<in> sl_live s" "Some t"] by (auto simp: slot_inv_def)
  with acquire_owner[OF slot_begin(2)] show ?case by (auto simp: slot_inv_def)
next
  case (slot_end t s)
  have "t' = t" if "t' \<in> sl_live s" "t' \<in> sl_running s" for t'
    using that slot_end unfolding slot_inv_def by (metis option.inject)
  then show ?case unfolding slot_inv_def by auto
next
  case (slot_finish t s)
  then show ?case by (auto simp: slot_inv_def)
next
  case (slot_sync s b C)
  have "\<not> (t' \<in> sl_live s \<and> t' \<in> sl_running s)" for t'
    using slot_sync acquire_contended[of "sl_ctl s" t' "\<lambda>t. t \<in> sl_live s" None] by (auto simp: slot_inv_def)
  then show ?case by (auto simp: slot_inv_def)
next
  case (slot_sync_end s)
  then show ?case by (auto simp: slot_inv_def release_turn_def)
qed

text \<open>
  C13. Turns never interleave: however tasks and synchronous callers take and give back the slot of a
  controller, at most one live task runs a turn, and it owns the slot.
\<close>

theorem turns_never_interleave:
  assumes "slot_reach s" "t \<in> sl_live s" "t \<in> sl_running s" "t' \<in> sl_live s" "t' \<in> sl_running s"
  shows "t = t' \<and> k_owner (sl_ctl s) = Some t"
proof -
  from assms(1) have "slot_inv s"
  proof induction
    case (slot_start C L)
    then show ?case by (simp add: slot_inv_def)
  qed (blast intro: slot_step_inv)
  with assms show ?thesis unfolding slot_inv_def by (metis option.inject)
qed

text \<open>
  A second turn is refused without touching anything: no attempt is made and the controller is left
  as it was; and the runner leaves the slot as it found it.
\<close>

theorem busy_turn_refused:
  assumes "k_owner C = Some t" "live t" "t \<noteq> me"
  shows "to_attempts (run_agent_turn O1 U A live me C x) = [] \<and> to_ctl (run_agent_turn O1 U A live me C x) = C
    \<and> to_error (run_agent_turn O1 U A live me C x) = Some (busy_event U C)"
proof -
  have "acquire_turn live (Some me) C = None" using assms by (simp add: acquire_turn_def)
  then show ?thesis by (simp add: run_agent_turn_def new_turn_def)
qed


definition owned :: "task \<Rightarrow> controller \<Rightarrow> bool" where
  "owned t C \<longleftrightarrow> k_owner C = Some t \<and> k_held C"

lemma owned_make_driver: "owned t C \<Longrightarrow> make_driver live (Some t) C = Inr (drv, D) \<Longrightarrow> owned t D \<and> \<not> td_releases drv"
  by (auto simp: owned_def make_driver_def acquire_turn_def Let_def split: option.splits if_splits)

lemma owned_same: "same_rotation C D \<Longrightarrow> owned t D = owned t C"
  by (simp add: owned_def same_rotation_def)

lemma owned_rotate:
  "rotate_to_fallback C = (r, D) \<Longrightarrow> owned t D = owned t C" "rotate_to_keyed_fallback f C = (r, D) \<Longrightarrow> owned t D = owned t C"
  using rotate_frame(1)[of C r D] rotate_frame(2)[of f C r D] by (simp_all add: owned_def)

lemma owned_retry_with: "retry_with O1 A err pol txt ref C img S = Stop S' \<Longrightarrow> owned t C \<Longrightarrow> owned t (to_ctl S')"
  using ensure_same owned_same by (fastforce simp: retry_with_def split: prod.splits option.splits)

lemma owned_auth_retry: "auth_retry O1 U A err pr img S = Stop S' \<Longrightarrow> owned t (to_ctl S) \<Longrightarrow> owned t (to_ctl S')"
  using owned_rotate(2)[of "o_resolve O1" "to_ctl S"]
  by (auto simp: auth_retry_def give_up_def split: if_splits option.splits prod.splits intro: owned_retry_with)

lemma owned_stop:
  assumes "after_attempt O1 U A img pd pr inp S = Stop S'" "owned t (to_ctl S)"
  shows "owned t (to_ctl S')"
proof (cases pd)
  case None
  with assms show ?thesis by (auto simp: after_attempt_def reset_model_rotation_def owned_def)
next
  case (Some err)
  obtain x C where ro: "rotate_to_fallback (to_ctl S) = (x, C)" by force
  with assms(2) owned_rotate(1) have C: "owned t C" by blast
  from assms Some ro C show ?thesis
    by (auto simp: after_attempt_def image_retry_def split: if_splits option.splits prod.splits
        intro: owned_retry_with owned_auth_retry)
qed

lemma owned_run_attempts:
  "owned t (to_ctl S) \<Longrightarrow> me = Some t \<Longrightarrow> owned t (to_ctl (run_attempts O1 U A live me res img S))"
proof (induction O1 U A live me res img S rule: run_attempts.induct)
  case (1 O1 U A live me res img S)
  show ?case
  proof (cases "make_driver live me (to_ctl S)")
    case (Inl e)
    with 1(2) show ?thesis by (simp add: run_attempts.simps[of O1 U A live me res img S])
  next
    case (Inr b)
    obtain drv C1 where b: "b = (drv, C1)" by force
    obtain pd pr S1 where a: "run_attempt O1 U A me drv res (S\<lparr>to_ctl := C1\<rparr>) = ((pd, pr), S1)" by (metis prod_cases3 surj_pair)
    have C1: "owned t C1" "\<not> td_releases drv" using owned_make_driver[of t "to_ctl S" live drv C1] 1(2,3) Inr b by auto
    with run_attempt_props[OF a] owned_same have S1: "owned t (to_ctl S1)" by fastforce
    note eq = run_attempts.simps[of O1 U A live me res img S, unfolded Inr sum.case b prod.case a]
    show ?thesis
    proof (cases "to_raised S1 \<noteq> None")
      case True
      with eq S1 show ?thesis by simp
    next
      case nr: False
      show ?thesis
      proof (cases "after_attempt O1 U A img pd pr (attempt_input A res C1) S1")
        case (Stop S2)
        with eq nr owned_stop[OF Stop S1] show ?thesis by simp
      next
        case (Retry r i S2)
        have "owned t (to_ctl S2)" using after_attempt_spends[OF Retry] S1 by (simp add: spends_def owned_def)
        from 1(1)[OF Inr b[symmetric] a[symmetric] refl _ Retry this 1(3)] nr eq Retry show ?thesis by simp
      qed
    qed
  qed
qed

text \<open>
  The runner leaves the slot free: when no live task held it, it is free again after the turn, also when
  the driver raised.
\<close>

theorem turn_slot_released:
  assumes "\<not> (k_owner C = Some me \<and> k_held C)" "case k_owner C of None \<Rightarrow> True | Some t \<Rightarrow> \<not> live t"
  shows "k_owner (to_ctl (run_agent_turn O1 U A live me C x)) = None \<and> \<not> k_held (to_ctl (run_agent_turn O1 U A live me C x))"
proof -
  let ?C = "C\<lparr>k_owner := Some me, k_held := True\<rparr>"
  have "acquire_turn live (Some me) C = Some (True, ?C)"
    using assms by (auto simp: acquire_turn_def split: option.splits)
  moreover have "owned me (to_ctl (run_attempts O1 U A live (Some me) (ta_resume A) False (new_turn ?C x)))"
    by (rule owned_run_attempts) (simp_all add: owned_def new_turn_def)
  ultimately show ?thesis by (simp add: run_agent_turn_def Let_def release_turn_def owned_def)
qed


section \<open>Examples\<close>

definition demo_ctl :: controller where
  "demo_ctl = \<lparr>k_thread = u ''t'', k_profile = None, k_providers = [], k_candidates = [u ''a/m'', u ''b/m''], k_idx = 0,
     k_main = None, k_default = None, k_runtime = Some \<lparr>rt_model = Some (u ''a/m'')\<rparr>, k_generation = 0, k_owner = None,
     k_held = False, k_active = None, k_images_off = False, k_diag_round = 0, k_steer = None\<rparr>"

theorem turns_never_interleave_witness:
  "\<exists>s. slot_reach s \<and> 1 \<in> sl_live s \<and> 1 \<in> sl_running s \<and> 1 = (1 :: task) \<and> k_owner (sl_ctl s) = Some 1"
proof -
  let ?init = "\<lparr>sl_ctl = demo_ctl, sl_live = {1, 2}, sl_running = {}\<rparr>"
  let ?C = "demo_ctl\<lparr>k_owner := Some 1, k_held := True\<rparr>"
  let ?s = "?init\<lparr>sl_ctl := ?C, sl_running := insert 1 (sl_running ?init)\<rparr>"
  have a: "slot_reach ?init" by (rule slot_start) (simp_all add: demo_ctl_def)
  have b: "slot_step ?init ?s" by (rule slot_begin[where b = True]) (simp_all add: acquire_turn_def demo_ctl_def)
  have r: "slot_reach ?s" by (rule slot_reach.slot_next[OF a b])
  from turns_never_interleave[OF r, of 1 1] r show ?thesis by (intro exI[of _ ?s]) simp
qed

text \<open>The provider rejects the first model for its rate limit and accepts the second: two attempts, the
  second one resumed, and the controller is back at the primary model.\<close>

definition demo_turn_ops :: "nat turn_ops" where
  "demo_turn_ops = \<lparr>o_run = (\<lambda>d i n. (if n = 0 then [ev ERROR (u ''429'') [(u ''retryable'', JBool True)]]
        else [ev TEXT (u ''hi'') [], ev DONE [] []], None, Suc n)),
     o_build = (\<lambda>C n. (Inr \<lparr>rt_model = k_main C\<rparr>, n)), o_get_state = None, o_remove = None, o_resolve = (\<lambda>_. None)\<rparr>"

definition demo_turn_args :: turn_args where
  "demo_turn_args = \<lparr>ta_text = u ''hello'', ta_images = [], ta_media = False, ta_pending_only = False, ta_resume = False,
     ta_on_event = True, ta_queue = False\<rparr>"

lemma demo_turn:
  "let S = run_agent_turn demo_turn_ops ascii_uni demo_turn_args (\<lambda>_. True) 1 demo_ctl 0
   in map (ti_text \<circ> at_input) (to_attempts S) = [u ''hello'', []] \<and> map ekind (to_log S) = [NOTICE, TEXT, DONE]
    \<and> to_error S = None \<and> k_idx (to_ctl S) = 0 \<and> k_main (to_ctl S) = Some (u ''a/m'')"
  by code_simp

theorem busy_turn_refused_witness:
  "to_attempts (run_agent_turn demo_turn_ops ascii_uni demo_turn_args (\<lambda>t. t = 1) 2
     (demo_ctl\<lparr>k_owner := Some 1, k_held := True\<rparr>) 0) = []"
proof -
  have "k_owner (demo_ctl\<lparr>k_owner := Some 1, k_held := True\<rparr>) = Some 1" by simp
  from busy_turn_refused[OF this, of "\<lambda>t. t = 1" 2 demo_turn_ops ascii_uni demo_turn_args 0] show ?thesis by simp
qed

theorem turn_slot_released_witness:
  "k_owner (to_ctl (run_agent_turn demo_turn_ops ascii_uni demo_turn_args (\<lambda>_. True) 2 demo_ctl 0)) = None"
proof -
  have "\<not> (k_owner demo_ctl = Some 2 \<and> k_held demo_ctl)" "case k_owner demo_ctl of None \<Rightarrow> True | Some t \<Rightarrow> \<not> True"
    by (simp_all add: demo_ctl_def)
  from turn_slot_released[OF this, of demo_turn_ops ascii_uni demo_turn_args 0] show ?thesis by simp
qed

end
