(* ===== verification/Session_Turn.thy ===== *)
theory Session_Turn
  imports Approvals Stream_Handlers Verify
begin

text \<open>
  One turn of the session driver, \<^verbatim>\<open>src/src/jarn/agent/session.py\<close>: the streaming loop with steering, budget,
  interrupts and the undo snapshot, the verification of edits with its repair rounds, the diagnostics, and \<^verbatim>\<open>run_turn\<close>
  around it.

  The compiled graph is a third-party object: the record \<open>agent_ops\<close> gives what it answers, on a world \<open>'x\<close> that
  it shares with the approver, the hooks and the shell. What a turn does is its list of \<open>act\<close>s: the events it
  yields, what it submits or appends to the graph, what it writes to the transcript, and the life of the
  snapshot. The loop runs as long as the graph streams, so a run has a number of pulls; running out of them is
  a turn that was cancelled at that point.
\<close>

section \<open>The agent and the driver\<close>

type_synonym interrupt = "pystr option \<times> interrupt_value"

datatype item = IMessage "pystr list" message | IUpdate "pystr list" "interrupt update_chunk" | IProgress ToolProgress | IIgnored

datatype user_content = UText pystr | UBlocks pystr "pystr list"
datatype input_msg = SystemMsg pystr | UserMsg user_content
datatype payload = PMessages "input_msg list" | PResume resume | PNone

datatype pull = PItem item | PDone | PRaise nat

datatype hist_read = HMessages "message list" | HEmpty | HRaise

record 'x agent_ops =
  g_start :: "payload \<Rightarrow> 'x \<Rightarrow> nat option \<times> 'x"
  g_next :: "'x \<Rightarrow> pull \<times> 'x"
  g_close :: "'x \<Rightarrow> 'x"
  g_append :: "pystr \<Rightarrow> 'x \<Rightarrow> 'x"
  g_history :: "('x \<Rightarrow> hist_read) option"
  g_state :: "('x \<Rightarrow> (message list \<times> interrupt list) option) option"
  g_state_error :: "'x \<Rightarrow> pystr"
  g_drain :: "'x \<Rightarrow> 'x"

datatype diag_mode = DiagOff | DiagSuggest | DiagAuto

record pdiag =
  dg_error :: bool
  dg_line :: pystr

datatype entry = WUser pystr | WAssistant pystr | WToolStart pystr json | WToolEnd pystr json

datatype act =
    Yield Event | Submit payload | Append pystr | Repair pystr | Write entry | SnapStart | SnapSettled | SnapDetached
  | VerifySkipped

record ('x, 'f) sconf =
  c_params :: "'x params"
  c_env :: "'f senv"
  c_verify :: "'x \<Rightarrow> 'x verify_env"
  c_agent :: "'x agent_ops"
  c_gate :: verify_gate
  c_max_repair :: nat
  c_transcript :: bool
  c_checkpoint :: bool
  c_diag_mode :: diag_mode
  c_diag_max :: nat
  c_diag_round :: nat
  c_collect :: "pystr list \<Rightarrow> 'x \<Rightarrow> pdiag list option \<times> 'x"
  c_format :: "pdiag list \<Rightarrow> pystr"
  c_steer_source :: "('x \<Rightarrow> pystr option \<times> 'x) option"
  c_inject :: bool
  c_date :: pystr
  c_modules :: "'x \<Rightarrow> pystr list \<times> 'x"
  c_image_ok :: "pystr \<Rightarrow> bool"
  c_exc :: "nat \<Rightarrow> pexc"
  c_internal :: "stream_error \<Rightarrow> nat"
  c_snap_fails :: "'x \<Rightarrow> bool \<times> 'x"
  c_summary :: "'f CostTracker \<Rightarrow> pystr"
  c_budget_text :: "'f CostTracker \<Rightarrow> pystr"

record ('x, 'f) sess =
  z_driver :: "'x driver"
  z_stream :: "'f stream"
  z_text :: pystr
  z_committed :: pystr
  z_dirty :: bool
  z_round :: nat
  z_edited :: "pystr list"
  z_exec_call :: "pystr option"
  z_exec_agent :: "pystr option"
  z_steer :: "pystr option"
  z_snap :: bool
  z_notice_pending :: bool
  z_notice_shown :: bool
  z_date :: "(pystr, pystr) pydict"

definition on_ext :: "('x \<Rightarrow> 'x) \<Rightarrow> ('x, 'f) sess \<Rightarrow> ('x, 'f) sess" where
  "on_ext f s = s\<lparr>z_driver := (z_driver s)\<lparr>d_ext := f (d_ext (z_driver s))\<rparr>\<rparr>"

definition ext :: "('x, 'f) sess \<Rightarrow> 'x" where
  "ext s = d_ext (z_driver s)"

definition write_if :: "('x, 'f) sconf \<Rightarrow> entry \<Rightarrow> act list" where
  "write_if K e = (if c_transcript K then [Write e] else [])"

definition data_str :: "args \<Rightarrow> string \<Rightarrow> pystr option" where
  "data_str d k = (case dget d (u k) of Some (JStr s) \<Rightarrow> Some s | _ \<Rightarrow> None)"

section \<open>The undo snapshot\<close>

definition SNAPSHOT_FAIL_NOTICE :: pystr where
  "SNAPSHOT_FAIL_NOTICE = u ''checkpoint failed '' @ [8212] @ u '' /undo unavailable this turn (see ~/.jarn/logs/jarn.log)''"

definition start_snapshot :: "('x, 'f) sess \<Rightarrow> act list \<times> ('x, 'f) sess" where
  "start_snapshot s = ([SnapStart], s\<lparr>z_snap := True\<rparr>)"

definition handle_snapshot_failure :: "('x, 'f) sess \<Rightarrow> ('x, 'f) sess" where
  "handle_snapshot_failure s = (if \<not> z_notice_shown s then s\<lparr>z_notice_pending := True\<rparr> else s)"

definition collect_snapshot :: "('x, 'f) sconf \<Rightarrow> ('x, 'f) sess \<Rightarrow> ('x, 'f) sess" where
  "collect_snapshot K s =
     (case c_snap_fails K (ext s) of (failed, x) \<Rightarrow>
        (let s1 = (on_ext (\<lambda>_. x) s)\<lparr>z_snap := False\<rparr> in if failed then handle_snapshot_failure s1 else s1))"

definition ensure_snapshot :: "('x, 'f) sconf \<Rightarrow> ('x, 'f) sess \<Rightarrow> act list \<times> ('x, 'f) sess" where
  "ensure_snapshot K s = (if z_snap s then ([SnapSettled], collect_snapshot K s) else ([], s))"

definition pending_snapshot_notice :: "('x, 'f) sconf \<Rightarrow> ('x, 'f) sess \<Rightarrow> act list \<times> ('x, 'f) sess" where
  "pending_snapshot_notice K s =
     (if c_checkpoint K \<and> z_notice_pending s \<and> \<not> z_notice_shown s
      then ([Yield (ev NOTICE SNAPSHOT_FAIL_NOTICE [])], s\<lparr>z_notice_pending := False, z_notice_shown := True\<rparr>)
      else ([], s))"

text \<open>The cleanup: a snapshot that is still set is collected or detached to finish on its own.\<close>

definition detach_pending_snapshot :: "('x, 'f) sconf \<Rightarrow> ('x, 'f) sess \<Rightarrow> act list \<times> ('x, 'f) sess" where
  "detach_pending_snapshot K s = (if z_snap s then ([SnapDetached], collect_snapshot K s) else ([], s))"

section \<open>Steering\<close>

definition messages_settled :: "message list \<Rightarrow> bool" where
  "messages_settled ms = (if ms = [] then True else \<not> (m_type (last ms) = u ''ai'' \<and> m_tool_calls (last ms) \<noteq> []))"

definition state_settled :: "'x agent_ops \<Rightarrow> 'x \<Rightarrow> bool" where
  "state_settled G x = (case g_state G of None \<Rightarrow> True
     | Some f \<Rightarrow> (case f x of None \<Rightarrow> True | Some (ms, _) \<Rightarrow> messages_settled ms))"

definition steer_boundary_settled :: "'x agent_ops \<Rightarrow> 'x \<Rightarrow> bool" where
  "steer_boundary_settled G x = (case g_history G of
       None \<Rightarrow> state_settled G x
     | Some h \<Rightarrow> (case h x of HMessages ms \<Rightarrow> messages_settled ms | HEmpty \<Rightarrow> True | HRaise \<Rightarrow> state_settled G x))"

definition pull_steer :: "('x, 'f) sconf \<Rightarrow> pystr list \<Rightarrow> ('x, 'f) sess \<Rightarrow> ('x, 'f) sess" where
  "pull_steer K ns s = (case c_steer_source K of
       None \<Rightarrow> s
     | Some src \<Rightarrow> if ns = [] \<and> z_steer s = None
                     then (case src (ext s) of (st, x) \<Rightarrow> (on_ext (\<lambda>_. x) s)\<lparr>z_steer := st\<rparr>) else s)"

definition steers_now :: "('x, 'f) sconf \<Rightarrow> pystr list \<Rightarrow> interrupt update_chunk \<Rightarrow> ('x, 'f) sess \<Rightarrow> bool" where
  "steers_now K ns c s \<longleftrightarrow> c_steer_source K \<noteq> None \<and> ns = [] \<and> or_empty (z_steer s) \<noteq> [] \<and> chunk_has_ai_message c"

definition inject_steer :: "('x, 'f) sconf \<Rightarrow> ('x, 'f) sess \<Rightarrow> act list \<times> ('x, 'f) sess" where
  "inject_steer K s0 =
     (let s = (on_ext (g_close (c_agent K)) s0)\<lparr>z_text := z_committed s0\<rparr>; steer = or_empty (z_steer s0)
      in if steer_boundary_settled (c_agent K) (ext s)
         then ([Append steer] @ write_if K (WUser (u ''(steered) '' @ steer))
                @ [Yield (ev NOTICE (u ''(steered) '' @ steer) [(u ''steer'', JBool True)])],
               (on_ext (g_append (c_agent K) steer) s)\<lparr>z_steer := None\<rparr>)
         else ([], s))"

section \<open>One item of the stream\<close>

datatype pc = Start payload | Pulling "interrupt list" | Halt

definition error_event :: "('x, 'f) sconf \<Rightarrow> ('x, 'f) sess \<Rightarrow> nat \<Rightarrow> Event" where
  "error_event K s i =
     (let d = classify_error (e_uni (c_env K)) (c_exc K) i
      in ev ERROR (x_msg (c_exc K i))
           (if truthy (e_uni (c_env K)) (aget d ''auth'')
            then dput (u ''provider'') (JStr (provider_of_ref (s_main_model (z_stream s)))) d else d))"

definition budget_event :: "('x, 'f) sconf \<Rightarrow> ('x, 'f) sess \<Rightarrow> Event" where
  "budget_event K s = ev ERROR (c_budget_text K (s_tracker (z_stream s)))
     [(u ''retryable'', JBool False), (u ''budget'', JBool True)]"

text \<open>What follows an event of a message: the transcript, the hooks after a tool, the marks for the
  verification and the end of a live tool.\<close>

definition message_event :: "('x, 'f) sconf \<Rightarrow> Event \<Rightarrow> ('x, 'f) sess \<Rightarrow> act list \<times> ('x, 'f) sess" where
  "message_event K e s0 =
     (let tr = c_transcript K;
          s1 = (if ekind e = TEXT \<and> tr then s0\<lparr>z_text := z_text s0 @ etext e\<rparr> else s0);
          w = (if ekind e = TOOL_END then write_if K (WToolEnd (etext e) (case dget (edata e) (u ''summary'') of None \<Rightarrow> JStr [] | Some v \<Rightarrow> v)) else [])
      in case (if ekind e = TOOL_END then d_hooks (z_driver s1) else None) of
           None \<Rightarrow> (w @ [Yield e], s1)
         | Some R \<Rightarrow> (case run_post_hooks (c_params K) R (etext e) (Some (s_last_edit (z_stream s1))) (ext s1) of (notes, x) \<Rightarrow>
               (w @ [Yield e] @ map Yield notes, on_ext (\<lambda>_. x) s1)))"

definition after_tool_end :: "Event \<Rightarrow> ('x, 'f) sess \<Rightarrow> ('x, 'f) sess" where
  "after_tool_end e s =
     (let s1 = (if ekind e = TOOL_END \<and> etext e \<in> {u ''write_file'', u ''edit_file''}
            then s\<lparr>z_dirty := True, z_edited := (if s_last_edit (z_stream s) \<noteq> [] then add_once (s_last_edit (z_stream s)) (z_edited s)
                   else z_edited s)\<rparr> else s)
      in if ekind e = TOOL_END \<and> etext e = u ''execute'' then s1\<lparr>z_exec_call := None, z_exec_agent := None\<rparr> else s1)"

definition on_message :: "('x, 'f) sconf \<Rightarrow> interrupt list \<Rightarrow> pystr list \<Rightarrow> message \<Rightarrow> ('x, 'f) sess \<Rightarrow> act list \<times> pc \<times> ('x, 'f) sess" where
  "on_message K is ns m s0 =
     (case handle_message_chunk (c_env K) m ns (z_stream s0) of
        (Inl e, st) \<Rightarrow> (let s = s0\<lparr>z_stream := st\<rparr> in ([Yield (error_event K s (c_internal K e))], Halt, s))
      | (Inr ev1, st) \<Rightarrow>
          (case (case ev1 of None \<Rightarrow> ([], s0\<lparr>z_stream := st\<rparr>)
                 | Some e \<Rightarrow> map_prod id (after_tool_end e) (message_event K e (s0\<lparr>z_stream := st\<rparr>))) of
             (acts, s) \<Rightarrow>
               if should_stop (e_flops (c_env K)) (s_tracker (z_stream s))
               then (acts @ [Yield (budget_event K s)], Halt, s)
               else (acts, Pulling is, s)))"

fun start_events :: "('x, 'f) sconf \<Rightarrow> Event list \<Rightarrow> ('x, 'f) sess \<Rightarrow> act list \<times> ('x, 'f) sess" where
  "start_events K [] s = ([], s)"
| "start_events K (e # es) s =
     (let s1 = (if ekind e = TOOL_START \<and> etext e = u ''execute''
            then s\<lparr>z_exec_call := data_str (edata e) ''tool_call_id'', z_exec_agent := data_str (edata e) ''agent''\<rparr> else s);
          w = (if ekind e = TOOL_START then write_if K (WToolStart (etext e) (aget (edata e) ''args'')) else [])
      in case start_events K es s1 of (acts, s2) \<Rightarrow> (w @ [Yield e] @ acts, s2))"

definition on_update :: "('x, 'f) sconf \<Rightarrow> interrupt list \<Rightarrow> pystr list \<Rightarrow> interrupt update_chunk \<Rightarrow> ('x, 'f) sess \<Rightarrow> act list \<times> pc \<times> ('x, 'f) sess" where
  "on_update K is ns c s0 =
     (let s = pull_steer K ns s0
      in if steers_now K ns c s then (case inject_steer K s of (acts, s1) \<Rightarrow> (acts, Start PNone, s1))
         else (case handle_update_chunk (c_env K) c ns (z_stream s) of (es, new, st) \<Rightarrow>
                 (case start_events K es (s\<lparr>z_stream := st\<rparr>) of (acts, s1) \<Rightarrow>
                    (acts, Pulling (is @ new), if ns = [] then s1\<lparr>z_committed := z_text s1\<rparr> else s1))))"

section \<open>The end of a pass\<close>

definition diagnostics_after_edit :: "('x, 'f) sconf \<Rightarrow> ('x, 'f) sess \<Rightarrow> act list \<times> ('x, 'f) sess" where
  "diagnostics_after_edit K s =
     (if z_edited s = [] \<or> c_diag_mode K = DiagOff \<or> v_root (c_verify K (ext s)) = None then ([], s)
      else case c_collect K (z_edited s) (ext s) of (r, x) \<Rightarrow>
         (let s1 = on_ext (\<lambda>_. x) s; ds = (case r of None \<Rightarrow> [] | Some l \<Rightarrow> l);
              note = [Yield (ev NOTICE [] [(u ''diagnostics'', JObj [(u ''text'', JStr (c_format K ds)), (u ''count'', JInt (int (length ds)))])])]
          in if ds = [] then ([], s1)
             else if c_diag_mode K = DiagSuggest then (note, s1)
             else if \<not> list_ex dg_error ds then ([], s1)
             else if c_diag_round K \<ge> c_diag_max K then (note, s1)
             else ([Yield (ev NOTICE [] [(u ''diagnostics_auto_queue'', JStr (u ''Diagnostics after your edits:'' @ [10]
                     @ c_format K ds @ [10] @ u ''Fix them.''))])], s1)))"

definition complete_turn :: "('x, 'f) sconf \<Rightarrow> ('x, 'f) sess \<Rightarrow> act list \<times> ('x, 'f) sess" where
  "complete_turn K s0 =
     (case diagnostics_after_edit K s0 of (acts, s) \<Rightarrow>
        (acts @ (if c_transcript K \<and> z_text s \<noteq> [] then [Write (WAssistant (z_text s))] else [])
         @ [Yield (ev DONE [] [(u ''usage'', JStr (c_summary K (s_tracker (z_stream s))))])],
         if c_transcript K then s\<lparr>z_text := []\<rparr> else s))"

definition verify_data :: "Event \<Rightarrow> args" where
  "verify_data e = (case dget (edata e) (u ''verify'') of Some (JObj d) \<Rightarrow> d | _ \<Rightarrow> [])"

definition verify_failed :: "verify_gate \<Rightarrow> Event \<Rightarrow> bool" where
  "verify_failed gate e \<longleftrightarrow> gate = GateAuto \<and> dget (verify_data e) (u ''ok'') = Some (JBool False)"

definition repairable :: "Event \<Rightarrow> bool" where
  "repairable e \<longleftrightarrow> dget (verify_data e) (u ''mode'') = Some (JStr (u ''auto''))"

definition data_text :: "args \<Rightarrow> string \<Rightarrow> string \<Rightarrow> pystr" where
  "data_text d k dflt = (case data_str d k of None \<Rightarrow> u dflt | Some s \<Rightarrow> s)"

definition repair_prompt :: "args \<Rightarrow> pystr" where
  "repair_prompt d =
     (let out = last_chars 20000 (data_text d ''full_output'' '''')
      in u ''Automatic verification failed after your edits.'' @ [10] @ u ''Command: '' @ data_text d ''cmd'' '''' @ [10]
         @ u ''Summary: '' @ data_text d ''summary'' ''failed'' @ [10] @ u ''Output:'' @ [10]
         @ (if out \<noteq> [] then out else u ''(no output)'') @ [10, 10]
         @ u ''Fix the implementation. Do not merely describe the failure; edit the files so the verification command passes.'')"

definition start_repair :: "('x, 'f) sconf \<Rightarrow> Event \<Rightarrow> ('x, 'f) sess \<Rightarrow> act list \<times> pc \<times> ('x, 'f) sess" where
  "start_repair K e s0 =
     (let p = repair_prompt (verify_data e); n = Suc (z_round s0);
          s = (on_ext (g_append (c_agent K) p) s0)\<lparr>z_round := n, z_dirty := True\<rparr>
      in ([Repair p] @ write_if K (WUser (u ''(verification repair) '' @ p))
          @ [Yield (ev NOTICE (u ''verification failed '' @ [8212] @ u '' agent repair round '' @ str_int (int n) @ u ''/''
               @ str_int (int (c_max_repair K))) [(u ''verification_repair'', JBool True)])], Start PNone, s))"

text \<open>\<open>Inl\<close> is an exception that escapes the loop.\<close>

datatype turn_exn = EngineExn exn | VerifyExn verify_error | BudgetExn

definition finish_pass :: "('x, 'f) sconf \<Rightarrow> ('x, 'f) sess \<Rightarrow> act list \<times> (turn_exn + pc) \<times> ('x, 'f) sess" where
  "finish_pass K s =
     (let done = (\<lambda>acts s1. case complete_turn K s1 of (acts', s2) \<Rightarrow> (acts @ acts', Inr Halt, s2))
      in if \<not> z_dirty s then done [] s
         else case verify_after_edit (c_params K) (c_verify K (ext s)) (c_gate K) (u ''write_file'') (z_driver s) of
             Inl e \<Rightarrow> ([], Inl (VerifyExn e), s)
           | Inr r \<Rightarrow>
               (let s1 = s\<lparr>z_driver := vr_driver r\<rparr>
                in case vr_event r of
                     None \<Rightarrow> done [VerifySkipped] (s1\<lparr>z_dirty := False\<rparr>)
                   | Some e \<Rightarrow>
                       if verify_failed (c_gate K) e \<and> repairable e \<and> z_round s1 < c_max_repair K
                       then (case start_repair K e s1 of (acts, p, s2) \<Rightarrow> ([Yield e] @ acts, Inr p, s2))
                       else if verify_failed (c_gate K) e
                       then ([Yield e, Yield (ev ERROR (u ''verification failed: '' @ data_text (verify_data e) ''cmd'' ''''
                                @ [32, 8212, 32] @ data_text (verify_data e) ''summary'' ''failed'')
                                [(u ''retryable'', JBool False), (u ''verification'', JObj (verify_data e))])],
                             Inr Halt, s1\<lparr>z_dirty := False\<rparr>)
                       else done [Yield e] (s1\<lparr>z_dirty := False\<rparr>)))"

definition resolve_pass :: "('x, 'f) sconf \<Rightarrow> interrupt list \<Rightarrow> ('x, 'f) sess \<Rightarrow> act list \<times> (turn_exn + pc) \<times> ('x, 'f) sess" where
  "resolve_pass K is s =
     (case resolve_pending (c_params K) (unique_interrupts [] is) (z_driver s) of
        (evs, Inl e, d) \<Rightarrow> (map Yield evs, Inl (EngineExn e), s\<lparr>z_driver := d\<rparr>)
      | (evs, Inr res, d) \<Rightarrow>
          (case ensure_snapshot K (s\<lparr>z_driver := d\<rparr>) of (a1, s1) \<Rightarrow>
             (case pending_snapshot_notice K s1 of (a2, s2) \<Rightarrow>
                (map Yield evs @ a1 @ a2, Inr (Start (PResume (resume_payload res))), s2))))"

section \<open>The loop\<close>

definition stream_step :: "('x, 'f) sconf \<Rightarrow> pc \<Rightarrow> ('x, 'f) sess \<Rightarrow> act list \<times> (turn_exn + pc) \<times> ('x, 'f) sess" where
  "stream_step K p s =
     (case p of
        Halt \<Rightarrow> ([], Inr Halt, s)
      | Start pl \<Rightarrow>
          (case g_start (c_agent K) pl (ext s) of (r, x) \<Rightarrow>
             (let s1 = on_ext (\<lambda>_. x) s
              in case r of
                   None \<Rightarrow> ([Submit pl], Inr (Pulling []), s1)
                 | Some i \<Rightarrow> ([Submit pl, Yield (error_event K s1 i)], Inr Halt, s1)))
      | Pulling is \<Rightarrow>
          (case g_next (c_agent K) (ext s) of (r, x) \<Rightarrow>
             (let s1 = on_ext (\<lambda>_. x) s
              in case r of
                   PRaise i \<Rightarrow> ([Yield (error_event K s1 i)], Inr Halt, s1)
                 | PDone \<Rightarrow> if is = [] then finish_pass K s1 else resolve_pass K is s1
                 | PItem it \<Rightarrow>
                     (case it of
                        IProgress tp \<Rightarrow> ([Yield (make_tool_progress_event tp (z_exec_call s1) (z_exec_agent s1))], Inr (Pulling is), s1)
                      | IIgnored \<Rightarrow> ([], Inr (Pulling is), s1)
                      | IMessage ns m \<Rightarrow> (case on_message K is ns m s1 of (a, q, s2) \<Rightarrow> (a, Inr q, s2))
                      | IUpdate ns c \<Rightarrow> (case on_update K is ns c s1 of (a, q, s2) \<Rightarrow> (a, Inr q, s2))))))"

datatype run_end = Ended | Raised turn_exn | Cut

fun run_stream :: "('x, 'f) sconf \<Rightarrow> nat \<Rightarrow> pc \<Rightarrow> ('x, 'f) sess \<Rightarrow> act list \<times> run_end \<times> ('x, 'f) sess" where
  "run_stream K n Halt s = ([], Ended, s)"
| "run_stream K 0 p s = ([], Cut, s)"
| "run_stream K (Suc n) p s =
     (case stream_step K p s of
        (a, Inl e, s1) \<Rightarrow> (a, Raised e, s1)
      | (a, Inr q, s1) \<Rightarrow> (case run_stream K n q s1 of (b, r, s2) \<Rightarrow> (a @ b, r, s2)))"

section \<open>The turn\<close>

text \<open>A request: the prompt, and what \<^verbatim>\<open>prepare_media\<close> made of the attachments (\<open>None\<close> without any).\<close>

record prepared =
  m_text :: pystr
  m_images :: "pystr list"
  m_refusals :: "(pystr \<times> args) list"

record turn_request =
  q_text :: pystr
  q_resume :: bool
  q_images :: "pystr list"
  q_media :: "prepared option"
  q_pending_only :: bool

definition pending_interrupts :: "'x agent_ops \<Rightarrow> 'x \<Rightarrow> interrupt list option" where
  "pending_interrupts G x = (case g_state G of None \<Rightarrow> Some []
     | Some f \<Rightarrow> map_option (\<lambda>(_, is). unique_interrupts [] is) (f x))"

definition reset_turn_state :: "('x, 'f) sconf \<Rightarrow> bool \<Rightarrow> ('x, 'f) sess \<Rightarrow> ('x, 'f) sess" where
  "reset_turn_state K resume s0 =
     (let s = on_ext (g_drain (c_agent K)) s0; st = z_stream s0
      in s\<lparr>z_text := [], z_committed := [], z_dirty := False, z_round := 0, z_edited := [], z_exec_call := None,
           z_exec_agent := None,
           z_stream := st\<lparr>s_pending := [], s_ns_agent := [], s_seen := [], s_totals := if resume then s_totals st else []\<rparr>\<rparr>)"

definition driver_resume_pending :: "('x, 'f) sconf \<Rightarrow> nat \<Rightarrow> interrupt list \<Rightarrow> ('x, 'f) sess \<Rightarrow> act list \<times> run_end \<times> ('x, 'f) sess" where
  "driver_resume_pending K n pend s0 =
     (case (if c_checkpoint K \<and> \<not> z_snap s0 then start_snapshot s0 else ([], s0)) of (a, s) \<Rightarrow>
        (case resolve_pass K pend s of
           (b, Inl e, s1) \<Rightarrow> (a @ b, Raised e, s1)
         | (b, Inr p, s1) \<Rightarrow> (case run_stream K n p s1 of (c, r, s2) \<Rightarrow> (a @ b @ c, r, s2))))"

definition date_messages :: "('x, 'f) sconf \<Rightarrow> ('x, 'f) sess \<Rightarrow> input_msg list \<times> ('x, 'f) sess" where
  "date_messages K s =
     (let t = s_thread (z_stream s)
      in if c_inject K \<and> dget (z_date s) t \<noteq> Some (c_date K)
         then ([SystemMsg (c_date K)], s\<lparr>z_date := dput t (c_date K) (z_date s)\<rparr>) else ([], s))"

definition module_messages :: "('x, 'f) sconf \<Rightarrow> bool \<Rightarrow> ('x, 'f) sess \<Rightarrow> input_msg list \<times> ('x, 'f) sess" where
  "module_messages K resume s =
     (if c_inject K \<and> \<not> resume
      then (case c_modules K (ext s) of (ms, x) \<Rightarrow> (map SystemMsg (filter (\<lambda>m. m \<noteq> []) ms), on_ext (\<lambda>_. x) s))
      else ([], s))"

definition build_user_content :: "('x, 'f) sconf \<Rightarrow> pystr \<Rightarrow> pystr list \<Rightarrow> user_content" where
  "build_user_content K txt images =
     (let ok = filter (c_image_ok K) images in if ok = [] then UText txt else UBlocks txt ok)"

definition submit_prompt :: "('x, 'f) sconf \<Rightarrow> nat \<Rightarrow> bool \<Rightarrow> pystr \<Rightarrow> pystr list \<Rightarrow> ('x, 'f) sess \<Rightarrow> act list \<times> run_end \<times> ('x, 'f) sess" where
  "submit_prompt K n resume txt images s =
     (case date_messages K s of (dm, s1) \<Rightarrow> (case module_messages K resume s1 of (mm, s2) \<Rightarrow>
        (let msgs = dm @ mm @ (if resume then [] else [UserMsg (build_user_content K txt images)]);
             w = (if resume then [] else write_if K (WUser txt))
         in case (if c_checkpoint K \<and> \<not> resume then start_snapshot s2 else ([], s2)) of (a, s3) \<Rightarrow>
              (case run_stream K n (Start (PMessages msgs)) s3 of
                 (b, Ended, s4) \<Rightarrow> (case ensure_snapshot K s4 of (c, s5) \<Rightarrow> (w @ a @ b @ c, Ended, s5))
               | (b, r, s4) \<Rightarrow> (w @ a @ b, r, s4)))))"

definition refusal_error :: "pystr \<Rightarrow> act" where
  "refusal_error t = Yield (ev ERROR t [(u ''retryable'', JBool False)])"

definition turn_text :: "turn_request \<Rightarrow> pystr" where
  "turn_text q = (case q_media q of Some m \<Rightarrow> if q_resume q then q_text q else m_text m | None \<Rightarrow> q_text q)"

definition turn_images :: "turn_request \<Rightarrow> pystr list" where
  "turn_images q = q_images q @ (case q_media q of Some m \<Rightarrow> if q_resume q then [] else m_images m | None \<Rightarrow> [])"

definition media_only :: "turn_request \<Rightarrow> bool" where
  "media_only q \<longleftrightarrow> q_media q \<noteq> None \<and> \<not> q_resume q \<and> strip_ws (turn_text q) = [] \<and> turn_images q = []"

definition fresh_prompt :: "('x, 'f) sconf \<Rightarrow> nat \<Rightarrow> turn_request \<Rightarrow> ('x, 'f) sess \<Rightarrow> act list \<times> run_end \<times> ('x, 'f) sess" where
  "fresh_prompt K n q s =
     (if media_only q then ([Yield (ev DONE [] [])], Ended, s)
      else submit_prompt K n (q_resume q) (turn_text q) (turn_images q) s)"

text \<open>The body of the \<^verbatim>\<open>try\<close>.\<close>

definition turn_body :: "('x, 'f) sconf \<Rightarrow> nat \<Rightarrow> turn_request \<Rightarrow> ('x, 'f) sess \<Rightarrow> act list \<times> run_end \<times> ('x, 'f) sess" where
  "turn_body K n q s =
     (case pending_interrupts (c_agent K) (ext s) of
        None \<Rightarrow> ([refusal_error (u ''could not inspect pending approvals: '' @ g_state_error (c_agent K) (ext s))], Ended, s)
      | Some pend \<Rightarrow>
          if pend = [] then (if q_pending_only q then ([], Ended, s) else fresh_prompt K n q s)
          else (case driver_resume_pending K n pend s of
              (a, Ended, s1) \<Rightarrow>
                if q_resume q \<or> q_pending_only q \<or> turn_text q = [] then (a, Ended, s1)
                else (case pending_interrupts (c_agent K) (ext s1) of
                    None \<Rightarrow> (a @ [refusal_error (u ''could not verify approval completion: '' @ g_state_error (c_agent K) (ext s1))], Ended, s1)
                  | Some (_ # _) \<Rightarrow> (a @ [refusal_error (u ''the prior tool approval is still pending; the new prompt was not submitted'')], Ended, s1)
                  | Some [] \<Rightarrow> (case fresh_prompt K n q (reset_turn_state K False s1) of (b, r, s2) \<Rightarrow> (a @ b, r, s2)))
            | (a, r, s1) \<Rightarrow> (a, r, s1)))"

text \<open>The \<^verbatim>\<open>finally\<close> block; \<^verbatim>\<open>_turn_text\<close> is not empty only when the turn never reached its end.\<close>

definition turn_cleanup :: "('x, 'f) sconf \<Rightarrow> ('x, 'f) sess \<Rightarrow> act list \<times> ('x, 'f) sess" where
  "turn_cleanup K s0 =
     (case detach_pending_snapshot K s0 of (a, s) \<Rightarrow>
        if c_transcript K \<and> z_text s \<noteq> []
        then (a @ [Write (WAssistant (z_text s @ [10, 8230] @ u ''(turn interrupted)''))], s\<lparr>z_text := []\<rparr>)
        else (a, s))"

definition refusal_notices :: "turn_request \<Rightarrow> act list" where
  "refusal_notices q = (case q_media q of
       Some m \<Rightarrow> if q_resume q then [] else map (\<lambda>(t, d). Yield (ev NOTICE t d)) (m_refusals m)
     | None \<Rightarrow> [])"

definition run_turn :: "('x, 'f) sconf \<Rightarrow> nat \<Rightarrow> turn_request \<Rightarrow> ('x, 'f) sess \<Rightarrow> act list \<times> run_end \<times> ('x, 'f) sess" where
  "run_turn K n q s0 =
     (case check_or_raise (e_flops (c_env K)) (s_tracker (z_stream s0)) of
        Inl _ \<Rightarrow> ([], Raised BudgetExn, s0)
      | Inr _ \<Rightarrow>
          (case pending_snapshot_notice K (reset_turn_state K (q_resume q) s0) of (a, s) \<Rightarrow>
             (case turn_body K n q s of (b, r, s1) \<Rightarrow>
                (case turn_cleanup K s1 of (c, s2) \<Rightarrow> (a @ refusal_notices q @ b @ c, r, s2)))))"

end
