(* ===== verification/Session_Contract.thy ===== *)
theory Session_Contract
  imports Session_Turn
begin

text \<open>
  What a turn promises, as an abstract machine over four facts of the driver (the phase, whether a snapshot is in
  flight, whether an edit is unverified, how many repair rounds were spent), and the simulation that shows that
  the driver of \<open>Session_Turn\<close> implements it. The properties of a turn are properties of the machine's traces.
\<close>

section \<open>The types of the events\<close>

text \<open>What a front-end may read from an event's data: for each kind the keys with their types, and the keys that are
  always there. The data of a notice are open.\<close>

datatype jtype = TBool | TText | TDict | TAny

fun has_type :: "json \<Rightarrow> jtype \<Rightarrow> bool" where
  "has_type _ TAny = True"
| "has_type (JBool _) TBool = True"
| "has_type (JStr _) TText = True"
| "has_type (JObj _) TDict = True"
| "has_type _ _ = False"

fun schema :: "EventKind \<Rightarrow> ((pystr \<times> jtype) list \<times> pystr list) option" where
  "schema TEXT = Some ([(u ''agent'', TText)], [])"
| "schema REASONING = Some ([(u ''agent'', TText)], [])"
| "schema TOOL_START = Some ([(u ''args'', TDict), (u ''tool_call_id'', TText), (u ''agent'', TText)], [u ''args''])"
| "schema TOOL_END = Some ([(u ''summary'', TText), (u ''tool_call_id'', TText), (u ''full'', TText), (u ''agent'', TText)],
     [u ''summary''])"
| "schema TOOL_PROGRESS = Some ([(u ''tail'', TText), (u ''chunk'', TText), (u ''elapsed'', TAny), (u ''heartbeat'', TBool),
     (u ''tool_call_id'', TText), (u ''command'', TText), (u ''agent'', TText)],
     [u ''tail'', u ''chunk'', u ''elapsed'', u ''heartbeat''])"
| "schema APPROVAL = Some ([(u ''target'', TText), (u ''scope'', TText), (u ''dangerous'', TBool)], [u ''target''])"
| "schema ERROR = Some ([(u ''retryable'', TBool), (u ''auth'', TBool), (u ''classified_by'', TText), (u ''provider'', TText),
     (u ''budget'', TBool), (u ''verification'', TDict)], [u ''retryable''])"
| "schema DONE = Some ([(u ''usage'', TText)], [])"
| "schema NOTICE = None"

definition typed_data :: "(pystr \<times> jtype) list \<Rightarrow> pystr list \<Rightarrow> args \<Rightarrow> bool" where
  "typed_data S R d \<longleftrightarrow> list_all (\<lambda>(k, v). case dget S k of None \<Rightarrow> False | Some t \<Rightarrow> has_type v t) d \<and> list_all (\<lambda>k. dget d k \<noteq> None) R"

definition well_typed :: "Event \<Rightarrow> bool" where
  "well_typed e \<longleftrightarrow> (case schema (ekind e) of None \<Rightarrow> True | Some (S, R) \<Rightarrow> typed_data S R (edata e))"

lemma list_all_dput: "list_all P d \<Longrightarrow> P (k, v) \<Longrightarrow> list_all P (dput k v d)"
  by (induction k v d rule: dput.induct) auto

lemma typed_dput: "typed_data S R d \<Longrightarrow> dget S k = Some t \<Longrightarrow> has_type v t \<Longrightarrow> typed_data S R (dput k v d)"
  by (auto simp: typed_data_def dget_dput intro!: list_all_dput) (simp add: list_all_iff)

lemma notice_typed [simp]: "ekind e = NOTICE \<Longrightarrow> well_typed e"
  by (simp add: well_typed_def)

section \<open>The abstract machine\<close>

definition plain :: "Event \<Rightarrow> bool" where
  "plain e \<longleftrightarrow> ekind e \<notin> {DONE, ERROR} \<and> dget (edata e) (u ''verify'') = None \<and> well_typed e"

lemmas plain_defs = plain_def ev_def well_typed_def typed_data_def

definition verify_note :: "Event \<Rightarrow> bool" where
  "verify_note e \<longleftrightarrow> ekind e = NOTICE \<and> dget (edata e) (u ''verify'') \<noteq> None"

text \<open>Activity that neither ends the turn, submits anything, nor touches the snapshot or the verification.\<close>

fun calm_act :: "act \<Rightarrow> bool" where
  "calm_act (Yield e) = plain e"
| "calm_act (Append _) = True"
| "calm_act (Write _) = True"
| "calm_act _ = False"

abbreviation calm :: "act list \<Rightarrow> bool" where
  "calm \<equiv> list_all calm_act"

datatype aphase = AStart bool | APull | AHalt | ARaised

record astate =
  a_phase :: aphase
  a_snap :: bool
  a_dirty :: bool
  a_round :: nat

definition resumes :: "payload \<Rightarrow> bool" where
  "resumes pl \<longleftrightarrow> (case pl of PResume _ \<Rightarrow> True | _ \<Rightarrow> False)"

text \<open>The last event of a turn that fails, and of one that is done.\<close>

definition fails :: "verify_gate \<Rightarrow> Event \<Rightarrow> bool" where
  "fails gate e \<longleftrightarrow> ekind e = ERROR \<and> \<not> verify_failed gate e \<and> well_typed e"

definition finishes :: "Event \<Rightarrow> bool" where
  "finishes e \<longleftrightarrow> ekind e = DONE \<and> well_typed e"

inductive astep :: "verify_gate \<Rightarrow> nat \<Rightarrow> astate \<Rightarrow> act list \<Rightarrow> astate \<Rightarrow> bool" for gate :: verify_gate and limit :: nat where
  submit: "a_phase s = AStart b \<Longrightarrow> b = resumes pl \<Longrightarrow> astep gate limit s [Submit pl] (s\<lparr>a_phase := APull\<rparr>)"
| submit_failed: "a_phase s = AStart b \<Longrightarrow> b = resumes pl \<Longrightarrow> fails gate e
    \<Longrightarrow> astep gate limit s [Submit pl, Yield e] (s\<lparr>a_phase := AHalt\<rparr>)"
| item: "a_phase s = APull \<Longrightarrow> calm a \<Longrightarrow> a_dirty s \<longrightarrow> d \<Longrightarrow> p \<in> {APull, AStart False}
    \<Longrightarrow> astep gate limit s a (s\<lparr>a_phase := p, a_dirty := d\<rparr>)"
| failed: "a_phase s = APull \<Longrightarrow> calm a \<Longrightarrow> a_dirty s \<longrightarrow> d \<Longrightarrow> fails gate e
    \<Longrightarrow> astep gate limit s (a @ [Yield e]) (s\<lparr>a_phase := AHalt, a_dirty := d\<rparr>)"
| raised: "a_phase s = APull \<Longrightarrow> calm a \<Longrightarrow> astep gate limit s a (s\<lparr>a_phase := ARaised\<rparr>)"
| resolved: "a_phase s = APull \<Longrightarrow> calm a \<Longrightarrow> calm b
    \<Longrightarrow> astep gate limit s (a @ (if a_snap s then [SnapSettled] else []) @ b) (s\<lparr>a_phase := AStart True, a_snap := False\<rparr>)"
| clean: "a_phase s = APull \<Longrightarrow> \<not> a_dirty s \<Longrightarrow> calm a \<Longrightarrow> finishes e
    \<Longrightarrow> astep gate limit s (a @ [Yield e]) (s\<lparr>a_phase := AHalt\<rparr>)"
| skipped: "a_phase s = APull \<Longrightarrow> a_dirty s \<Longrightarrow> calm a \<Longrightarrow> finishes e
    \<Longrightarrow> astep gate limit s (VerifySkipped # a @ [Yield e]) (s\<lparr>a_phase := AHalt, a_dirty := False\<rparr>)"
| verified: "a_phase s = APull \<Longrightarrow> a_dirty s \<Longrightarrow> verify_note v \<Longrightarrow> \<not> verify_failed gate v \<Longrightarrow> calm a \<Longrightarrow> finishes e
    \<Longrightarrow> astep gate limit s (Yield v # a @ [Yield e]) (s\<lparr>a_phase := AHalt, a_dirty := False\<rparr>)"
| repair: "a_phase s = APull \<Longrightarrow> a_dirty s \<Longrightarrow> verify_note v \<Longrightarrow> verify_failed gate v \<Longrightarrow> a_round s < limit \<Longrightarrow> calm a
    \<Longrightarrow> astep gate limit s (Yield v # Repair t # a) (s\<lparr>a_phase := AStart False, a_round := Suc (a_round s)\<rparr>)"
| gave_up: "a_phase s = APull \<Longrightarrow> a_dirty s \<Longrightarrow> verify_note v \<Longrightarrow> verify_failed gate v \<Longrightarrow> fails gate e
    \<Longrightarrow> astep gate limit s [Yield v, Yield e] (s\<lparr>a_phase := AHalt, a_dirty := False\<rparr>)"

inductive atrace :: "verify_gate \<Rightarrow> nat \<Rightarrow> astate \<Rightarrow> act list \<Rightarrow> astate \<Rightarrow> bool" for gate :: verify_gate and limit :: nat where
  stop: "atrace gate limit s [] s"
| more: "astep gate limit s a t \<Longrightarrow> atrace gate limit t b v \<Longrightarrow> atrace gate limit s (a @ b) v"

lemma atrace_one: "astep gate limit s a t \<Longrightarrow> atrace gate limit s a t"
  using atrace.more[of gate limit s a t "[]" t] by (simp add: atrace.stop)

section \<open>Plain events\<close>

lemma tag_plain: "plain e \<Longrightarrow> ekind e \<in> {TEXT, REASONING, TOOL_END} \<Longrightarrow> plain (tag_agent e a)"
  by (auto simp: tag_agent_def plain_def dget_dput well_typed_def intro!: typed_dput)

lemma ended_plain:
  "plain (ev TOOL_END n ([(u ''summary'', JStr x)] @ (if P then [(u ''tool_call_id'', JStr y)] else [])
     @ (if Q then [(u ''full'', JStr z)] else [])))"
  by (simp add: plain_defs)

lemma tool_end_plain:
  assumes "tool_end U m = Inr e"
  shows "plain e \<and> ekind e = TOOL_END"
proof (cases "tool_summary U (strip_ws (text_of (m_content m))) (or_empty (m_name m))")
  case (Inr sm)
  with assms show ?thesis
    unfolding tool_end_def Let_def
    by (simp only: sum.case sum.inject) (erule subst, rule conjI, rule ended_plain, simp add: ev_def)
qed (use assms in \<open>simp add: tool_end_def\<close>)

lemma message_chunk_plain: "handle_message_chunk E m ns s = (Inr (Some e), s') \<Longrightarrow> plain e"
proof -
  have "plain (tag_agent (ev TEXT t []) a)" "plain (tag_agent (ev REASONING t []) a)" for t a
    by (intro tag_plain; simp add: plain_defs)+
  then show "handle_message_chunk E m ns s = (Inr (Some e), s') \<Longrightarrow> plain e"
    by (cases "record_usage E m ns s")
       (auto simp: handle_message_chunk_def split_beta Let_def dest!: tool_end_plain intro: tag_plain split: sum.splits if_splits)
qed

lemma announced_plain:
  "plain (ev TOOL_START n ([(u ''args'', JObj x)] @ (if P then [(u ''tool_call_id'', JStr y)] else [])
     @ (if Q then [(u ''agent'', JStr z)] else [])))"
  by (simp add: plain_defs)

lemma unless_pair: "(if C then (None, s) else (Some w, t)) = (Some e, s') \<Longrightarrow> e = w"
  by (simp split: if_split_asm)

lemma tool_start_plain: "tool_start E ns a c s = (Some e, s') \<Longrightarrow> plain e"
  unfolding tool_start_def Let_def by (drule unless_pair) (simp only: announced_plain)

lemma tool_starts_plain: "list_all plain (fst (tool_starts E ns a cs s))"
proof (induction cs arbitrary: s)
  case (Cons c cs)
  obtain e s1 where e: "tool_start E ns a c s = (e, s1)" by force
  with tool_start_plain Cons[of s1] show ?case by (auto split: option.split prod.split)
qed simp

lemma update_chunk_plain: "list_all plain (fst (handle_update_chunk E c ns s))"
  using tool_starts_plain by (auto simp: handle_update_chunk_def split_beta split: update_chunk.split)

lemma progress_plain: "plain (make_tool_progress_event p c a)"
  by (auto simp: make_tool_progress_event_def plain_defs Let_def)

lemma post_hooks_plain: "list_all plain (fst (run_post_hooks Z R name t x))"
  by (auto simp: run_post_hooks_def Let_def list_all_iff plain_def ev_def split: prod.splits)

definition plain_outcome :: "'x outcome \<Rightarrow> bool" where
  "plain_outcome o1 \<longleftrightarrow> list_all (plain \<circ> fst) (fst o1)"

lemma plain_target: "plain (ev APPROVAL t (target_data y))" "plain (ev NOTICE t [])"
    "plain (ev APPROVAL t (target_data y @ [(u ''scope'', JStr v)]))" "plain (ev APPROVAL t (target_data y @ [(u ''dangerous'', JBool b)]))"
  by (simp_all add: plain_defs target_data_def)

lemma handoff_plain: "plain_outcome (handoff Z q t y n m d)"
  by (simp add: plain_outcome_def handoff_def plain_target split: prod.split)

lemma gate_tool_plain: "plain_outcome (gate_tool Z rq name a d)"
  by (auto simp: plain_outcome_def gate_tool_def ask_user_def Let_def plain_target
      split: sum.split Decision.split prod.split option.split)

lemma ordinary_plain: "plain_outcome (ordinary_tool Z rq name d)"
  using gate_tool_plain[of Z rq name]
  by (auto simp: plain_outcome_def ordinary_tool_def Let_def plain_target list_all_iff
      split: sum.split prod.split option.split) (metis fst_conv)+

lemma resolve_one_plain: "plain_outcome (resolve_one Z rq d)"
  by (simp add: resolve_one_def Let_def plan_handoff_def memory_handoff_def skill_handoff_def handoff_plain ordinary_plain)
     (simp add: schedule_handoff_def handoff_plain Let_def, simp add: plain_outcome_def plain_target)

lemma resolve_requests_plain: "plain_outcome (resolve_requests Z rqs d)"
proof (induction rqs arbitrary: d)
  case (Cons rq rqs)
  obtain o1 d1 e where o1: "resolve_one Z rq d = (o1, d1, e)" by (metis prod_cases3)
  with resolve_one_plain[of Z rq d] Cons[of d1] show ?case
    by (cases e; cases "resolve_requests Z rqs d1") (auto simp: plain_outcome_def)
qed (simp add: plain_outcome_def)

lemma resolve_pending_plain: "list_all plain (fst (resolve_pending Z pend d))"
proof (induction pend arbitrary: d)
  case (Cons p pend)
  obtain iid v where p: "p = (iid, v)" by force
  obtain o1 d1 e where o1: "resolve_interrupts Z [v] d = (o1, d1, e)" by (metis prod_cases3)
  have "plain_outcome (o1, d1, e)" unfolding o1[symmetric] resolve_interrupts_def by (rule resolve_requests_plain)
  with o1 p Cons[of d1] show ?case
    by (cases e; cases "resolve_pending Z pend d1") (auto simp: plain_outcome_def list.pred_map)
qed simp

section \<open>The driver implements the machine\<close>

definition abs_phase :: "turn_exn + pc \<Rightarrow> aphase" where
  "abs_phase r = (case r of Inl _ \<Rightarrow> ARaised | Inr (Start pl) \<Rightarrow> AStart (resumes pl) | Inr (Pulling _) \<Rightarrow> APull | Inr Halt \<Rightarrow> AHalt)"

lemma abs_phase_simps [simp]:
  "abs_phase (Inl e) = ARaised" "abs_phase (Inr (Start pl)) = AStart (resumes pl)" "abs_phase (Inr (Pulling is)) = APull"
  "abs_phase (Inr Halt) = AHalt"
  by (simp_all add: abs_phase_def)

definition abs_turn :: "turn_exn + pc \<Rightarrow> ('x, 'f) sess \<Rightarrow> astate" where
  "abs_turn r s = \<lparr>a_phase = abs_phase r, a_snap = z_snap s, a_dirty = z_dirty s, a_round = z_round s\<rparr>"

text \<open>What the machine sees of the state.\<close>

definition core :: "('x, 'f) sess \<Rightarrow> bool \<times> bool \<times> nat" where
  "core s = (z_snap s, z_dirty s, z_round s)"

lemma core_simps [simp]:
  "core (on_ext f s) = core s" "core (s\<lparr>z_text := t\<rparr>) = core s" "core (s\<lparr>z_stream := st\<rparr>) = core s"
  "core (s\<lparr>z_committed := t\<rparr>) = core s" "core (s\<lparr>z_steer := v\<rparr>) = core s" "core (s\<lparr>z_driver := d\<rparr>) = core s"
  "core (s\<lparr>z_exec_call := c, z_exec_agent := a\<rparr>) = core s" "core (s\<lparr>z_date := dt\<rparr>) = core s"
  "core (s\<lparr>z_notice_pending := b, z_notice_shown := b'\<rparr>) = core s" "core (s\<lparr>z_notice_pending := b\<rparr>) = core s"
  by (simp_all add: core_def on_ext_def)

lemma abs_turn_core: "core s' = core s \<Longrightarrow> abs_turn r s' = (abs_turn q s)\<lparr>a_phase := abs_phase r\<rparr>"
  by (simp add: abs_turn_def core_def)

lemma abs_turn_sel [simp]:
  "a_phase (abs_turn r s) = abs_phase r" "a_snap (abs_turn r s) = z_snap s" "a_dirty (abs_turn r s) = z_dirty s"
  "a_round (abs_turn r s) = z_round s"
  by (simp_all add: abs_turn_def)

lemma write_if_calm [simp]: "calm (write_if K e)"
  by (simp add: write_if_def)

lemma map_yield_calm [simp]: "calm (map Yield es) = list_all plain es"
  by (induction es) simp_all

lemma no_verify: "dget (edata e) (u ''verify'') = None \<Longrightarrow> \<not> verify_failed gate e"
  by (simp add: verify_failed_def verify_data_def)

lemma classify_no_verify: "dget (classify_error U X i) (u ''verify'') = None"
  by (auto simp: classify_error_def Let_def split: option.split)

lemma classify_typed: "typed_data (fst (the (schema ERROR))) (snd (the (schema ERROR))) (classify_error U X i)"
  by (auto simp: classify_error_def Let_def typed_data_def split: option.split)

lemma error_event_spec [simp]: "fails gate (error_event K s i)"
  using classify_typed[of "e_uni (c_env K)" "c_exc K" i]
  by (auto simp: fails_def error_event_def Let_def ev_def dget_dput classify_no_verify well_typed_def
      intro!: no_verify typed_dput)

lemma budget_event_spec [simp]: "fails gate (budget_event K s)"
  by (auto intro!: no_verify simp: fails_def budget_event_def ev_def well_typed_def typed_data_def)

lemma message_event_spec:
  assumes "message_event K e s = (a, s')" "plain e"
  shows "calm a \<and> core s' = core s"
proof -
  let ?s = "if ekind e = TEXT \<and> c_transcript K then s\<lparr>z_text := z_text s @ etext e\<rparr> else s"
  show ?thesis
  proof (cases "if ekind e = TOOL_END then d_hooks (z_driver ?s) else None")
    case None
    with assms show ?thesis by (auto simp: message_event_def Let_def)
  next
    case (Some R)
    then have te: "ekind e = TOOL_END" by (auto split: if_splits)
    with Some assms post_hooks_plain[of "c_params K" R "etext e" "Some (s_last_edit (z_stream s))" "ext s"]
    show ?thesis by (auto simp: message_event_def Let_def split_beta)
  qed
qed

lemma after_tool_end_spec:
  "z_snap (after_tool_end e s) = z_snap s" "z_round (after_tool_end e s) = z_round s" "z_dirty s \<Longrightarrow> z_dirty (after_tool_end e s)"
  by (simp_all add: after_tool_end_def Let_def)

lemma start_events_spec: "start_events K es s = (a, s') \<Longrightarrow> list_all plain es \<Longrightarrow> calm a \<and> core s' = core s"
  by (induction K es s arbitrary: a s' rule: start_events.induct) (fastforce simp: Let_def split: prod.splits if_splits)+

lemma pull_steer_core [simp]: "core (pull_steer K ns s) = core s"
  by (simp add: pull_steer_def split: option.split prod.split)

lemma steer_note_plain: "plain (ev NOTICE t [(u ''steer'', v)])"
  by (simp add: plain_defs)

lemma inject_steer_spec: "inject_steer K s = (a, s') \<Longrightarrow> calm a \<and> core s' = core s"
  by (auto simp: inject_steer_def Let_def steer_note_plain split: if_splits)

lemma on_message_refines:
  assumes "on_message K is ns m s = (a, q, s')"
  shows "astep gate limit (abs_turn (Inr (Pulling is)) s) a (abs_turn (Inr q) s')"
proof (cases "handle_message_chunk (c_env K) m ns (z_stream s)")
  case (Pair r st)
  let ?t = "s\<lparr>z_stream := st\<rparr>"
  show ?thesis
  proof (cases r)
    case (Inl e)
    with Pair assms have "a = [] @ [Yield (error_event K ?t (c_internal K e))]" "q = Halt" "s' = ?t"
      by (auto simp: on_message_def Let_def)
    then show ?thesis
      using astep.failed[of "abs_turn (Inr (Pulling is)) s" "[]" "z_dirty s" gate "error_event K ?t (c_internal K e)" limit] by (simp add: abs_turn_def)
  next
    case (Inr o1)
    define w where "w = (case o1 of None \<Rightarrow> ([], ?t) | Some e \<Rightarrow> map_prod id (after_tool_end e) (message_event K e ?t))"
    obtain b t where bt: "w = (b, t)" by force
    have fr: "calm b" "z_snap t = z_snap s" "z_round t = z_round s" "z_dirty s \<longrightarrow> z_dirty t"
    proof -
      have "calm b \<and> z_snap t = z_snap s \<and> z_round t = z_round s \<and> (z_dirty s \<longrightarrow> z_dirty t)"
      proof (cases o1)
        case None
        with bt show ?thesis by (auto simp: w_def)
      next
        case (Some e)
        with Pair Inr have "plain e" using message_chunk_plain by blast
        obtain b' t' where me: "message_event K e ?t = (b', t')" by force
        with message_event_spec \<open>plain e\<close> have "calm b'" "core t' = core s" by fastforce+
        with Some bt me show ?thesis by (auto simp: w_def core_def after_tool_end_spec)
      qed
      then show "calm b" "z_snap t = z_snap s" "z_round t = z_round s" "z_dirty s \<longrightarrow> z_dirty t" by auto
    qed
    show ?thesis
    proof (cases "should_stop (e_flops (c_env K)) (s_tracker (z_stream t))")
      case True
      with Pair Inr assms bt have "a = b @ [Yield (budget_event K t)]" "q = Halt" "s' = t"
        by (auto simp: on_message_def w_def)
      then show ?thesis
        using astep.failed[of "abs_turn (Inr (Pulling is)) s" b "z_dirty t" gate "budget_event K t" limit] fr by (simp add: abs_turn_def)
    next
      case False
      with Pair Inr assms bt have "a = b" "q = Pulling is" "s' = t"
        by (auto simp: on_message_def w_def)
      then show ?thesis
        using astep.item[of "abs_turn (Inr (Pulling is)) s" b "z_dirty t" APull gate limit] fr by (simp add: abs_turn_def)
    qed
  qed
qed

lemma item_core:
  "calm a \<Longrightarrow> core s' = core s \<Longrightarrow> abs_phase q \<in> {APull, AStart False} \<Longrightarrow>
     astep gate limit (abs_turn (Inr (Pulling is)) s) a (abs_turn q s')"
  using astep.item[of "abs_turn (Inr (Pulling is)) s" a "z_dirty s" "abs_phase q" gate limit]
  by (auto simp: abs_turn_def core_def)

lemma on_update_refines:
  assumes "on_update K is ns c s = (a, q, s')"
  shows "astep gate limit (abs_turn (Inr (Pulling is)) s) a (abs_turn (Inr q) s')"
proof (cases "steers_now K ns c (pull_steer K ns s)")
  case True
  obtain b t where "inject_steer K (pull_steer K ns s) = (b, t)" by force
  with True assms inject_steer_spec[of K "pull_steer K ns s" b t] show ?thesis
    by (intro item_core) (auto simp: on_update_def resumes_def)
next
  case False
  obtain es new st where u1: "handle_update_chunk (c_env K) c ns (z_stream (pull_steer K ns s)) = (es, new, st)"
    by (metis prod_cases3)
  obtain b t where u2: "start_events K es (pull_steer K ns s\<lparr>z_stream := st\<rparr>) = (b, t)" by force
  have "list_all plain es"
    using update_chunk_plain[of "c_env K" c ns "z_stream (pull_steer K ns s)"] u1 by simp
  with start_events_spec[OF u2] have "calm b" "core t = core s" by auto
  with False u1 u2 assms show ?thesis by (intro item_core) (auto simp: on_update_def)
qed

lemma diagnostics_spec: "diagnostics_after_edit K s = (a, s') \<Longrightarrow> calm a \<and> core s' = core s"
proof -
  have "plain (ev NOTICE [] [(u ''diagnostics'', v)])" "plain (ev NOTICE [] [(u ''diagnostics_auto_queue'', v)])" for v
    by (simp_all add: plain_defs)
  then show "diagnostics_after_edit K s = (a, s') \<Longrightarrow> calm a \<and> core s' = core s"
    by (auto simp: diagnostics_after_edit_def Let_def split: if_splits prod.splits)
qed

lemma complete_turn_spec:
  assumes "complete_turn K s = (a, s')"
  obtains b e where "a = b @ [Yield e]" "calm b" "finishes e" "core s' = core s"
proof -
  obtain b t where bt: "diagnostics_after_edit K s = (b, t)" by force
  let ?w = "if c_transcript K \<and> z_text t \<noteq> [] then [Write (WAssistant (z_text t))] else []"
  from assms bt have "a = (b @ ?w) @ [Yield (ev DONE [] [(u ''usage'', JStr (c_summary K (s_tracker (z_stream t))))])]"
    "core s' = core t"
    by (auto simp: complete_turn_def)
  with diagnostics_spec[OF bt] show thesis by (intro that[of "b @ ?w"]) (auto simp: ev_def finishes_def well_typed_def typed_data_def)
qed

lemma verify_event_note: "verify_note (verify_event d)"
  by (simp add: verify_note_def verify_event_def ev_def)

lemma authorize_note: "authorize Z cs d = (Inl (Inr e), d') \<Longrightarrow> verify_note e"
proof (induction cs arbitrary: d)
  case (Cons c cs)
  show ?case
  proof (cases "authorize_one Z c d")
    case (Pair r d1)
    show ?thesis
    proof (cases r)
      case (Inl x)
      with Pair Cons.prems have "authorize_one Z c d = (Inl (Inr e), d')" by simp
      then show ?thesis
        by (auto simp: authorize_one_def Let_def verify_event_note
            split: sum.splits Decision.splits prod.splits if_splits)
    next
      case (Inr y)
      with Pair Cons show ?thesis by simp
    qed
  qed
qed simp

lemma verify_after_edit_note:
  "verify_after_edit Z V gate t d = Inr r \<Longrightarrow> vr_event r = Some e \<Longrightarrow> verify_note e"
  by (auto simp: verify_after_edit_def Let_def verify_event_note authorize_note
      split: if_splits sum.splits prod.splits option.splits)

lemma failed_core:
  "calm a \<Longrightarrow> core s' = core s \<Longrightarrow> fails gate e \<Longrightarrow>
     astep gate limit (abs_turn (Inr (Pulling is)) s) (a @ [Yield e]) (abs_turn (Inr Halt) s')"
  using astep.failed[of "abs_turn (Inr (Pulling is)) s" a "z_dirty s" gate e limit]
  by (auto simp: abs_turn_def core_def)

lemma raised_core:
  "calm a \<Longrightarrow> core s' = core s \<Longrightarrow> astep gate limit (abs_turn (Inr (Pulling is)) s) a (abs_turn (Inl x) s')"
  using astep.raised[of "abs_turn (Inr (Pulling is)) s" a gate limit] by (auto simp: abs_turn_def core_def)

lemma finish_pass_refines:
  assumes "finish_pass K s = (a, r, s')"
  shows "astep (c_gate K) (c_max_repair K) (abs_turn (Inr (Pulling is)) s) a (abs_turn r s')"
proof (cases "z_dirty s")
  case False
  obtain b t where bt: "complete_turn K s = (b, t)" by force
  then obtain c e where "b = c @ [Yield e]" "calm c" "finishes e" "core t = core s" by (rule complete_turn_spec)
  with False bt assms astep.clean[of "abs_turn (Inr (Pulling is)) s" c e "c_gate K" "c_max_repair K"] show ?thesis
    by (auto simp: finish_pass_def abs_turn_def core_def)
next
  case dirty: True
  let ?v = "verify_after_edit (c_params K) (c_verify K (ext s)) (c_gate K) (u ''write_file'') (z_driver s)"
  show ?thesis
  proof (cases ?v)
    case (Inl e)
    with dirty assms have "a = []" "r = Inl (VerifyExn e)" "s' = s" by (auto simp: finish_pass_def)
    then show ?thesis by (simp add: raised_core)
  next
    case (Inr w)
    let ?s = "s\<lparr>z_driver := vr_driver w\<rparr>"
    obtain b t where bt: "complete_turn K (?s\<lparr>z_dirty := False\<rparr>) = (b, t)" by force
    then obtain c e where c: "b = c @ [Yield e]" "calm c" "finishes e" "core t = core (?s\<lparr>z_dirty := False\<rparr>)"
      by (rule complete_turn_spec)
    show ?thesis
    proof (cases "vr_event w")
      case None
      with dirty Inr bt c assms astep.skipped[of "abs_turn (Inr (Pulling is)) s" c e "c_gate K" "c_max_repair K"]
      show ?thesis by (auto simp: finish_pass_def abs_turn_def core_def)
    next
      case (Some v)
      with Inr have v: "verify_note v" by (rule verify_after_edit_note)
      consider "\<not> verify_failed (c_gate K) v" | "verify_failed (c_gate K) v" "repairable v \<and> z_round s < c_max_repair K"
        | "verify_failed (c_gate K) v" "\<not> (repairable v \<and> z_round s < c_max_repair K)" by blast
      then show ?thesis
      proof cases
        case 1
        with dirty Inr bt c assms Some v astep.verified[of "abs_turn (Inr (Pulling is)) s" v "c_gate K" c e "c_max_repair K"]
        show ?thesis by (auto simp: finish_pass_def abs_turn_def core_def)
      next
        case 2
        let ?t = "repair_prompt (verify_data v)"
        let ?c = "write_if K (WUser (u ''(verification repair) '' @ ?t))
          @ [Yield (ev NOTICE (u ''verification failed '' @ [8212] @ u '' agent repair round '' @ str_int (int (Suc (z_round s)))
               @ u ''/'' @ str_int (int (c_max_repair K))) [(u ''verification_repair'', JBool True)])]"
        have "calm ?c" by (simp add: plain_defs)
        with 2 dirty Inr assms Some v astep.repair[of "abs_turn (Inr (Pulling is)) s" v "c_gate K" "c_max_repair K" ?c ?t]
        show ?thesis
          by (auto simp: finish_pass_def start_repair_def Let_def abs_turn_def on_ext_def resumes_def)
      next
        case 3
        let ?e = "ev ERROR (u ''verification failed: '' @ data_text (verify_data v) ''cmd'' ''''
            @ [32, 8212, 32] @ data_text (verify_data v) ''summary'' ''failed'')
            [(u ''retryable'', JBool False), (u ''verification'', JObj (verify_data v))]"
        have "fails (c_gate K) ?e" by (auto intro!: no_verify simp: fails_def ev_def well_typed_def typed_data_def)
        with 3 dirty Inr assms Some v astep.gave_up[of "abs_turn (Inr (Pulling is)) s" v "c_gate K" ?e "c_max_repair K"]
        show ?thesis by (auto simp: finish_pass_def abs_turn_def)
      qed
    qed
  qed
qed

lemma snapshot_notice_spec: "pending_snapshot_notice K s = (a, s') \<Longrightarrow> calm a \<and> core s' = core s"
  by (auto simp: pending_snapshot_notice_def plain_target split: if_splits)

lemma collect_core: "core (collect_snapshot K s) = (False, z_dirty s, z_round s)"
  by (simp add: collect_snapshot_def handle_snapshot_failure_def Let_def core_def on_ext_def split: prod.split)

lemma ensure_snapshot_spec:
  assumes "ensure_snapshot K s = (a, s')"
  shows "a = (if z_snap s then [SnapSettled] else [])" "core s' = (False, z_dirty s, z_round s)"
proof -
  show "a = (if z_snap s then [SnapSettled] else [])" using assms by (auto simp: ensure_snapshot_def split: if_splits)
  show "core s' = (False, z_dirty s, z_round s)"
    using assms collect_core[of K s] by (auto simp: ensure_snapshot_def core_def split: if_splits)
qed

lemma resolve_pass_refines:
  assumes "resolve_pass K is s = (a, r, s')"
  shows "astep gate limit (abs_turn (Inr (Pulling is')) s) a (abs_turn r s')"
proof -
  obtain evs res d where p: "resolve_pending (c_params K) (unique_interrupts [] is) (z_driver s) = (evs, res, d)"
    by (metis prod_cases3)
  have pl: "list_all plain evs" using resolve_pending_plain[of "c_params K" "unique_interrupts [] is" "z_driver s"] p by simp
  let ?s = "s\<lparr>z_driver := d\<rparr>"
  show ?thesis
  proof (cases res)
    case (Inl e)
    with assms p pl show ?thesis by (auto simp: resolve_pass_def intro!: raised_core)
  next
    case (Inr ds)
    obtain b1 s1 where b1: "ensure_snapshot K ?s = (b1, s1)" by force
    obtain b2 s2 where b2: "pending_snapshot_notice K s1 = (b2, s2)" by force
    note e = ensure_snapshot_spec[OF b1] snapshot_notice_spec[OF b2]
    from Inr assms p b1 b2 have "a = map Yield evs @ b1 @ b2" "r = Inr (Start (PResume (resume_payload ds)))" "s' = s2"
      by (auto simp: resolve_pass_def)
    with e pl astep.resolved[of "abs_turn (Inr (Pulling is')) s" "map Yield evs" b2 gate limit] show ?thesis
      by (auto simp: abs_turn_def core_def resumes_def)
  qed
qed

text \<open>The simulation: a step of the driver is a step of the machine.\<close>

lemma stream_step_refines:
  assumes "stream_step K p s = (a, r, s')" "p \<noteq> Halt"
  shows "astep (c_gate K) (c_max_repair K) (abs_turn (Inr p) s) a (abs_turn r s')"
proof (cases p)
  case (Start pl)
  obtain g x where g: "g_start (c_agent K) pl (ext s) = (g, x)" by force
  let ?t = "on_ext (\<lambda>_. x) s"
  show ?thesis
  proof (cases g)
    case None
    with Start g assms astep.submit[of "abs_turn (Inr p) s" "resumes pl" pl "c_gate K" "c_max_repair K"] show ?thesis
      by (auto simp: stream_step_def abs_turn_def on_ext_def)
  next
    case (Some i)
    with Start g assms
      astep.submit_failed[of "abs_turn (Inr p) s" "resumes pl" pl "c_gate K" "error_event K ?t i" "c_max_repair K"] show ?thesis
      by (auto simp: stream_step_def abs_turn_def on_ext_def Let_def)
  qed
next
  case (Pulling ints)
  obtain g x where g: "g_next (c_agent K) (ext s) = (g, x)" by force
  let ?t = "on_ext (\<lambda>_. x) s"
  have at: "abs_turn (Inr (Pulling ints)) ?t = abs_turn (Inr p) s"
    by (simp add: Pulling abs_turn_def on_ext_def)
  show ?thesis
  proof (cases g)
    case PDone
    with Pulling g assms finish_pass_refines[of K ?t a r s' ints] resolve_pass_refines[of K ints ?t a r s'] show ?thesis
      unfolding at[symmetric] by (auto simp: stream_step_def Let_def split: if_splits)
  next
    case (PRaise i)
    with Pulling g assms failed_core[of "[]" ?t s _ "error_event K ?t i"] show ?thesis
      by (auto simp: stream_step_def Let_def)
  next
    case (PItem it)
    show ?thesis
    proof (cases it)
      case (IMessage ns m)
      obtain b q t where b: "on_message K ints ns m ?t = (b, q, t)" by (metis prod_cases3)
      with IMessage PItem Pulling g assms have "a = b" "r = Inr q" "s' = t" by (auto simp: stream_step_def Let_def)
      with on_message_refines[OF b] show ?thesis unfolding at[symmetric] by simp
    next
      case (IUpdate ns c)
      obtain b q t where b: "on_update K ints ns c ?t = (b, q, t)" by (metis prod_cases3)
      with IUpdate PItem Pulling g assms have "a = b" "r = Inr q" "s' = t" by (auto simp: stream_step_def Let_def)
      with on_update_refines[OF b] show ?thesis unfolding at[symmetric] by simp
    next
      case (IProgress tp)
      with PItem Pulling g assms show ?thesis
        unfolding at[symmetric] by (auto simp: stream_step_def Let_def progress_plain intro!: item_core)
    next
      case IIgnored
      with PItem Pulling g assms show ?thesis
        unfolding at[symmetric] by (auto simp: stream_step_def Let_def intro!: item_core)
    qed
  qed
qed (use assms in simp)

lemma run_stream_Suc:
  "p \<noteq> Halt \<Longrightarrow> run_stream K (Suc n) p s =
     (case stream_step K p s of
        (a, Inl e, s1) \<Rightarrow> (a, Raised e, s1)
      | (a, Inr q, s1) \<Rightarrow> (case run_stream K n q s1 of (b, r, s2) \<Rightarrow> (a @ b, r, s2)))"
  "p \<noteq> Halt \<Longrightarrow> run_stream K 0 p s = ([], Cut, s)"
  by (cases p; simp)+

definition end_phase :: "run_end \<Rightarrow> aphase set" where
  "end_phase r = (case r of Ended \<Rightarrow> {AHalt} | Raised _ \<Rightarrow> {ARaised} | Cut \<Rightarrow> {APull} \<union> range AStart)"

lemma run_stream_refines:
  assumes "run_stream K n p s = (a, r, s')"
  obtains q where "atrace (c_gate K) (c_max_repair K) (abs_turn (Inr p) s) a (abs_turn q s')" "abs_phase q \<in> end_phase r"
proof -
  have "\<exists>q. atrace (c_gate K) (c_max_repair K) (abs_turn (Inr p) s) a (abs_turn q s') \<and> abs_phase q \<in> end_phase r"
    using assms
  proof (induction n arbitrary: p s a)
    case 0
    then show ?case by (cases p) (auto simp: end_phase_def intro: atrace.stop exI[of _ "Inr p"])
  next
    case (Suc n)
    show ?case
    proof (cases "p = Halt")
      case True
      with Suc.prems show ?thesis by (auto simp: end_phase_def intro: atrace.stop exI[of _ "Inr p"])
    next
      case False
      obtain b v t where st: "stream_step K p s = (b, v, t)" by (metis prod_cases3)
      note step = stream_step_refines[OF st False]
      show ?thesis
      proof (cases v)
        case (Inl x)
        with st False Suc.prems have "a = b @ []" "r = Raised x" "s' = t" by (auto simp: run_stream_Suc)
        with step Inl show ?thesis by (auto simp: end_phase_def intro!: exI[of _ "Inl x"] atrace_one)
      next
        case (Inr q)
        obtain c r2 t2 where rs: "run_stream K n q t = (c, r2, t2)" by (metis prod_cases3)
        with st False Inr Suc.prems have "a = b @ c" "r = r2" "s' = t2" by (auto simp: run_stream_Suc)
        with Suc.IH[of q t c] rs step Inr show ?thesis by (auto intro: atrace.more)
      qed
    qed
  qed
  with that show thesis by blast
qed

section \<open>The undo snapshot\<close>

text \<open>The life of the snapshot along a trace: at most one at a time, a resume (which lets a gated tool run) only when
  none is being built. \<open>Loose\<close> is a detached snapshot, \<open>None\<close> a violation.\<close>

datatype snap_state = Idle | Building | Loose

fun snap_act :: "act \<Rightarrow> snap_state \<Rightarrow> snap_state option" where
  "snap_act SnapStart q = (if q = Idle then Some Building else None)"
| "snap_act SnapSettled q = (if q = Building then Some Idle else None)"
| "snap_act SnapDetached q = (if q = Building then Some Loose else None)"
| "snap_act (Submit pl) q = (if resumes pl \<and> q \<noteq> Idle then None else Some q)"
| "snap_act _ q = Some q"

fun snap_run :: "snap_state \<Rightarrow> act list \<Rightarrow> snap_state option" where
  "snap_run q [] = Some q"
| "snap_run q (x # xs) = Option.bind (snap_act x q) (\<lambda>q'. snap_run q' xs)"

definition snap_of :: "bool \<Rightarrow> snap_state" where
  "snap_of b = (if b then Building else Idle)"

lemma snap_of_simps [simp]: "snap_of True = Building" "snap_of False = Idle"
  by (simp_all add: snap_of_def)

lemma snap_run_append [simp]: "snap_run q (a @ b) = Option.bind (snap_run q a) (\<lambda>q'. snap_run q' b)"
  by (induction a arbitrary: q) (auto split: bind_split)

lemma snap_run_calm [simp]: "calm a \<Longrightarrow> snap_run q a = Some q"
proof (induction a)
  case (Cons x a)
  then show ?case by (cases x) auto
qed simp

definition snap_inv :: "astate \<Rightarrow> bool" where
  "snap_inv s \<longleftrightarrow> (a_phase s = AStart True \<longrightarrow> \<not> a_snap s)"

lemma astep_snap: "astep gate limit s a t \<Longrightarrow> snap_inv s \<Longrightarrow> snap_run (snap_of (a_snap s)) a = Some (snap_of (a_snap t)) \<and> snap_inv t"
  by (induction rule: astep.induct) (auto simp: snap_inv_def resumes_def split: payload.split)

lemma atrace_snap: "atrace gate limit s a t \<Longrightarrow> snap_inv s \<Longrightarrow> snap_run (snap_of (a_snap s)) a = Some (snap_of (a_snap t)) \<and> snap_inv t"
  by (induction rule: atrace.induct) (auto dest: astep_snap)

lemma astep_settled: "astep gate limit s a t \<Longrightarrow> \<not> a_snap s \<Longrightarrow> \<not> a_snap t"
  by (induction rule: astep.induct) auto

lemma atrace_settled: "atrace gate limit s a t \<Longrightarrow> \<not> a_snap s \<Longrightarrow> \<not> a_snap t"
  by (induction rule: atrace.induct) (auto dest: astep_settled)

section \<open>The completion contract\<close>

text \<open>\<open>f\<close>: the last word of the verification on the edits was a failure.\<close>

fun honest_act :: "verify_gate \<Rightarrow> act \<Rightarrow> bool \<Rightarrow> bool option" where
  "honest_act gate (Yield e) f =
     (if ekind e = DONE then (if f then None else Some f)
      else if verify_failed gate e then Some True else if verify_note e then Some False else Some f)"
| "honest_act gate VerifySkipped f = Some False"
| "honest_act gate _ f = Some f"

fun honest :: "verify_gate \<Rightarrow> bool \<Rightarrow> act list \<Rightarrow> bool option" where
  "honest gate f [] = Some f"
| "honest gate f (x # xs) = Option.bind (honest_act gate x f) (\<lambda>f'. honest gate f' xs)"

lemma honest_append [simp]: "honest gate f (a @ b) = Option.bind (honest gate f a) (\<lambda>f'. honest gate f' b)"
  by (induction a arbitrary: f) (auto split: bind_split)

lemma honest_calm [simp]: "calm a \<Longrightarrow> honest gate f a = Some f"
proof (induction a)
  case (Cons x a)
  then show ?case by (cases x) (auto simp: plain_def no_verify verify_note_def)
qed simp

definition owes :: "bool \<Rightarrow> astate \<Rightarrow> bool" where
  "owes f s \<longleftrightarrow> (f \<longrightarrow> a_dirty s \<or> a_phase s = AHalt)"

lemma astep_honest: "astep gate limit s a t \<Longrightarrow> owes f s \<Longrightarrow> \<exists>f'. honest gate f a = Some f' \<and> owes f' t"
  by (induction rule: astep.induct) (auto simp: owes_def verify_note_def fails_def finishes_def)

lemma atrace_honest: "atrace gate limit s a t \<Longrightarrow> owes f s \<Longrightarrow> \<exists>f'. honest gate f a = Some f' \<and> owes f' t"
proof (induction arbitrary: f rule: atrace.induct)
  case (more s a t b v)
  then obtain f' where "honest gate f a = Some f'" "owes f' t" using astep_honest by blast
  with more.IH[of f'] show ?case by auto
qed simp

section \<open>Repairs and the last event\<close>

definition repairs :: "act list \<Rightarrow> nat" where
  "repairs a = length (filter (\<lambda>x. case x of Repair _ \<Rightarrow> True | _ \<Rightarrow> False) a)"

lemma repairs_simps [simp]: "repairs [] = 0" "repairs (a @ b) = repairs a + repairs b"
  "repairs (x # a) = (case x of Repair _ \<Rightarrow> 1 | _ \<Rightarrow> 0) + repairs a"
  by (simp_all add: repairs_def split: act.split)

lemma repairs_calm [simp]: "calm a \<Longrightarrow> repairs a = 0"
proof (induction a)
  case (Cons x a)
  then show ?case by (cases x) auto
qed simp

lemma astep_repairs: "astep gate limit s a t \<Longrightarrow> a_round t = a_round s + repairs a \<and> (repairs a > 0 \<longrightarrow> a_round t \<le> limit)"
  by (induction rule: astep.induct) auto

lemma atrace_repairs: "atrace gate limit s a t \<Longrightarrow> a_round t = a_round s + repairs a \<and> (repairs a > 0 \<longrightarrow> a_round t \<le> limit)"
  by (induction rule: atrace.induct) (fastforce dest: astep_repairs)+

fun yields :: "act list \<Rightarrow> Event list" where
  "yields [] = []"
| "yields (Yield e # a) = e # yields a"
| "yields (_ # a) = yields a"

lemma yields_append [simp]: "yields (a @ b) = yields a @ yields b"
  by (induction a rule: yields.induct) simp_all

definition terminal :: "Event \<Rightarrow> bool" where
  "terminal e \<longleftrightarrow> ekind e \<in> {DONE, ERROR}"

definition ongoing :: "act list \<Rightarrow> bool" where
  "ongoing a \<longleftrightarrow> list_all (\<lambda>e. \<not> terminal e) (yields a)"

lemma ongoing_simps [simp]: "ongoing []" "ongoing (a @ b) \<longleftrightarrow> ongoing a \<and> ongoing b"
  "ongoing (x # a) \<longleftrightarrow> (case x of Yield e \<Rightarrow> \<not> terminal e | _ \<Rightarrow> True) \<and> ongoing a"
  by (auto simp: ongoing_def split: act.split)

lemma ongoing_calm [simp]: "calm a \<Longrightarrow> ongoing a"
proof (induction a)
  case (Cons x a)
  then show ?case by (cases x) (auto simp: plain_def terminal_def)
qed simp

definition ends_once :: "act list \<Rightarrow> bool" where
  "ends_once a \<longleftrightarrow> (\<exists>b e. a = b @ [Yield e] \<and> terminal e \<and> ongoing b)"

lemma ends_onceI: "terminal e \<Longrightarrow> ongoing b \<Longrightarrow> ends_once (b @ [Yield e])"
  by (auto simp: ends_once_def)

lemma ends_once_append: "ongoing a \<Longrightarrow> ends_once b \<Longrightarrow> ends_once (a @ b)"
  unfolding ends_once_def by (metis append.assoc ongoing_simps(2))

lemma astep_ends: "astep gate limit s a t \<Longrightarrow> if a_phase t = AHalt then ends_once a else ongoing a"
proof (induction rule: astep.induct)
  case (submit_failed s b pl e)
  then show ?case using ends_onceI[of e "[Submit pl]"] by (simp add: terminal_def fails_def finishes_def)
next
  case (skipped s a e)
  then show ?case using ends_onceI[of e "VerifySkipped # a"] by (simp add: terminal_def fails_def finishes_def)
next
  case (verified s v a e)
  then show ?case using ends_onceI[of e "Yield v # a"] by (simp add: terminal_def verify_note_def fails_def finishes_def)
next
  case (gave_up s v e)
  then show ?case using ends_onceI[of e "[Yield v]"] by (simp add: terminal_def verify_note_def fails_def finishes_def)
qed (auto simp: verify_note_def terminal_def fails_def finishes_def intro: ends_onceI)

lemma astep_live: "astep gate limit s a t \<Longrightarrow> a_phase s \<noteq> AHalt"
  by (induction rule: astep.induct) auto

lemma atrace_ends:
  "atrace gate limit s a t \<Longrightarrow> a_phase s \<noteq> AHalt \<Longrightarrow> if a_phase t = AHalt then ends_once a else ongoing a"
proof (induction rule: atrace.induct)
  case (more s a t b v)
  show ?case
  proof (cases "a_phase t = AHalt")
    case True
    with more.hyps(2) have "b = []" "v = t" by (auto elim: atrace.cases dest: astep_live)
    with True astep_ends[OF more.hyps(1)] show ?thesis by simp
  next
    case False
    with more astep_ends[OF more.hyps(1)] show ?thesis by (auto intro: ends_once_append split: if_splits)
  qed
qed simp

section \<open>The turn\<close>

lemma stream_snap:
  assumes "run_stream K n (Start pl) s = (a, r, s')" "resumes pl \<longrightarrow> \<not> z_snap s"
  shows "snap_run (snap_of (z_snap s)) a = Some (snap_of (z_snap s'))" "\<not> z_snap s \<Longrightarrow> \<not> z_snap s'"
proof -
  obtain q where t: "atrace (c_gate K) (c_max_repair K) (abs_turn (Inr (Start pl)) s) a (abs_turn q s')"
    using run_stream_refines[OF assms(1)] by metis
  with assms(2) atrace_snap[OF t] show "snap_run (snap_of (z_snap s)) a = Some (snap_of (z_snap s'))"
    by (simp add: snap_inv_def)
  show "\<not> z_snap s \<Longrightarrow> \<not> z_snap s'" using atrace_settled[OF t] by simp
qed

lemma reset_frame: "z_snap (reset_turn_state K b s) = z_snap s"
  by (simp add: reset_turn_state_def Let_def on_ext_def)

lemma driver_resume_snap:
  assumes "driver_resume_pending K n pend s = (a, r, s')" "\<not> z_snap s"
  shows "snap_run Idle a = Some (snap_of (z_snap s'))" "r = Ended \<Longrightarrow> \<not> z_snap s'"
proof -
  obtain a0 s0 where st: "(if c_checkpoint K \<and> \<not> z_snap s then start_snapshot s else ([], s)) = (a0, s0)" by force
  with assms(2) have s0: "snap_run Idle a0 = Some (snap_of (z_snap s0))"
    by (auto simp: start_snapshot_def split: if_splits)
  obtain b v s1 where rp: "resolve_pass K pend s0 = (b, v, s1)" by (metis prod_cases3)
  have "astep (c_gate K) (c_max_repair K) (abs_turn (Inr (Pulling [])) s0) b (abs_turn v s1)"
    using rp by (rule resolve_pass_refines)
  from astep_snap[OF this] have sb: "snap_run (snap_of (z_snap s0)) b = Some (snap_of (z_snap s1))" "snap_inv (abs_turn v s1)"
    by (simp_all add: snap_inv_def)
  have "snap_run Idle a = Some (snap_of (z_snap s')) \<and> (r = Ended \<longrightarrow> \<not> z_snap s')"
  proof (cases v)
    case (Inl e)
    with assms(1) st rp s0 sb show ?thesis by (auto simp: driver_resume_pending_def)
  next
    case (Inr p)
    obtain pl where p: "p = Start (PResume pl)"
      using rp Inr by (auto simp: resolve_pass_def split: prod.splits sum.splits)
    with sb(2) Inr have ns: "\<not> z_snap s1" by (simp add: snap_inv_def resumes_def)
    obtain c r2 s2 where rs: "run_stream K n p s1 = (c, r2, s2)" by (metis prod_cases3)
    with p ns stream_snap[of K n "PResume pl" s1 c r2 s2]
    have "snap_run Idle c = Some Idle" "\<not> z_snap s2" by simp_all
    with assms(1) st rp Inr rs s0 sb ns show ?thesis by (auto simp: driver_resume_pending_def)
  qed
  then show "snap_run Idle a = Some (snap_of (z_snap s'))" "r = Ended \<Longrightarrow> \<not> z_snap s'" by auto
qed

lemma date_frame: "date_messages K s = (m, s') \<Longrightarrow> core s' = core s"
  by (auto simp: date_messages_def Let_def split: if_splits)

lemma module_frame: "module_messages K b s = (m, s') \<Longrightarrow> core s' = core s"
  by (auto simp: module_messages_def split: if_splits prod.splits)

lemma submit_prompt_snap:
  assumes "submit_prompt K n b txt images s = (a, r, s')" "\<not> z_snap s"
  shows "snap_run Idle a = Some (snap_of (z_snap s'))" "r = Ended \<Longrightarrow> \<not> z_snap s'"
proof -
  obtain dm s1 where d: "date_messages K s = (dm, s1)" by force
  obtain mm s2 where m: "module_messages K b s1 = (mm, s2)" by force
  obtain c s3 where c: "(if c_checkpoint K \<and> \<not> b then start_snapshot s2 else ([], s2)) = (c, s3)" by force
  let ?pl = "PMessages (dm @ mm @ (if b then [] else [UserMsg (build_user_content K txt images)]))"
  obtain e r2 s4 where e: "run_stream K n (Start ?pl) s3 = (e, r2, s4)" by (metis prod_cases3)
  obtain g s5 where g: "ensure_snapshot K s4 = (g, s5)" by force
  have "\<not> z_snap s2" using date_frame[OF d] module_frame[OF m] assms(2) by (simp add: core_def)
  with c have sc: "snap_run Idle c = Some (snap_of (z_snap s3))" by (auto simp: start_snapshot_def split: if_splits)
  have se: "snap_run (snap_of (z_snap s3)) e = Some (snap_of (z_snap s4))"
    using stream_snap(1)[OF e] by (simp add: resumes_def)
  have sg: "snap_run (snap_of (z_snap s4)) g = Some Idle" "\<not> z_snap s5"
    using ensure_snapshot_spec[OF g] by (auto simp: core_def)
  have "snap_run Idle a = Some (snap_of (z_snap s')) \<and> (r = Ended \<longrightarrow> \<not> z_snap s')"
    using assms(1) d m c e g sc se sg by (cases r2) (auto simp: submit_prompt_def Let_def)
  then show "snap_run Idle a = Some (snap_of (z_snap s'))" "r = Ended \<Longrightarrow> \<not> z_snap s'" by auto
qed

lemma fresh_prompt_snap:
  assumes "fresh_prompt K n q s = (a, r, s')" "\<not> z_snap s"
  shows "snap_run Idle a = Some (snap_of (z_snap s'))" "r = Ended \<Longrightarrow> \<not> z_snap s'"
  using assms submit_prompt_snap[of K n "q_resume q" "turn_text q" "turn_images q" s a r s']
  by (auto simp: fresh_prompt_def split: if_splits)

lemma turn_body_snap:
  assumes "turn_body K n q s = (a, r, s')" "\<not> z_snap s"
  shows "snap_run Idle a = Some (snap_of (z_snap s')) \<and> (r = Ended \<longrightarrow> \<not> z_snap s')"
proof (cases "pending_interrupts (c_agent K) (ext s)")
  case None
  with assms show ?thesis by (auto simp: turn_body_def refusal_error_def)
next
  case (Some pend)
  show ?thesis
  proof (cases "pend = []")
    case True
    with Some assms fresh_prompt_snap[of K n q s a r s'] show ?thesis by (auto simp: turn_body_def split: if_splits)
  next
    case False
    obtain b r1 s1 where b: "driver_resume_pending K n pend s = (b, r1, s1)" by (metis prod_cases3)
    obtain c r2 s2 where c: "fresh_prompt K n q (reset_turn_state K False s1) = (c, r2, s2)" by (metis prod_cases3)
    note b' = driver_resume_snap[OF b assms(2)]
    show ?thesis
    proof (cases "r1 = Ended")
      case True
      with b' have "\<not> z_snap s1" by simp
      then have "\<not> z_snap (reset_turn_state K False s1)" by (simp add: reset_frame)
      from fresh_prompt_snap[OF c this] True b' b c Some False assms(1) show ?thesis
        by (auto simp: turn_body_def refusal_error_def split: if_splits option.splits list.splits)
    next
      case no: False
      with b b' Some False assms(1) show ?thesis by (cases r1) (auto simp: turn_body_def)
    qed
  qed
qed

lemma cleanup_snap:
  assumes "turn_cleanup K s = (a, s')"
  shows "snap_run (snap_of (z_snap s)) a = Some (if z_snap s then Loose else Idle)" "\<not> z_snap s'"
proof -
  obtain b t where b: "detach_pending_snapshot K s = (b, t)" by force
  have t: "snap_run (snap_of (z_snap s)) b = Some (if z_snap s then Loose else Idle)" "\<not> z_snap t"
    using b collect_core[of K s] by (auto simp: detach_pending_snapshot_def core_def split: if_splits)
  show "snap_run (snap_of (z_snap s)) a = Some (if z_snap s then Loose else Idle)" "\<not> z_snap s'"
    using assms b t by (auto simp: turn_cleanup_def split: if_splits)
qed

lemma snap_run_refusals [simp]: "snap_run p (refusal_notices q) = Some p"
proof -
  have "snap_run p (map (\<lambda>(t, d). Yield (ev NOTICE t d)) l) = Some p" for l by (induction l) auto
  then show ?thesis by (simp add: refusal_notices_def split: option.split)
qed

text \<open>
  C9. A turn never resumes the graph, and so never lets a gated tool run, while the snapshot of the working
  tree is being built; it builds at most one at a time, and leaves none behind: at its end the snapshot has
  settled, or, in a turn that was cancelled or raised, has been detached.
\<close>

theorem snapshot_before_mutation:
  assumes "\<not> z_snap s" "run_turn K n q s = (a, r, s')"
  shows "\<exists>p. snap_run Idle a = Some p \<and> p \<noteq> Building \<and> (r = Ended \<longrightarrow> p = Idle) \<and> \<not> z_snap s'"
proof (cases "check_or_raise (e_flops (c_env K)) (s_tracker (z_stream s))")
  case (Inl e)
  with assms show ?thesis by (auto simp: run_turn_def)
next
  case (Inr v)
  obtain b s1 where b: "pending_snapshot_notice K (reset_turn_state K (q_resume q) s) = (b, s1)" by force
  obtain c r1 s2 where c: "turn_body K n q s1 = (c, r1, s2)" by (metis prod_cases3)
  obtain d s3 where d: "turn_cleanup K s2 = (d, s3)" by force
  from Inr b c d assms(2) have eq: "a = b @ refusal_notices q @ c @ d" "r = r1" "s' = s3"
    by (auto simp: run_turn_def)
  have sb: "snap_run Idle b = Some Idle" "\<not> z_snap s1"
    using snapshot_notice_spec[OF b] assms(1) by (auto simp: core_def reset_frame)
  with turn_body_snap[OF c] cleanup_snap[OF d] eq show ?thesis by auto
qed

text \<open>
  C11. The driver implements the machine: whatever the agent streams, what a turn does is a trace of the
  machine, from the phase in which the payload is submitted to the one in which the run stopped.
\<close>

theorem turn_refines_machine:
  assumes "run_stream K n (Start pl) s = (a, r, s')"
  shows "\<exists>q. atrace (c_gate K) (c_max_repair K) (abs_turn (Inr (Start pl)) s) a (abs_turn q s') \<and> abs_phase q \<in> end_phase r"
  using run_stream_refines[OF assms] by metis

text \<open>
  C26. The stream of a turn that ends has exactly one terminal event, and it is the last thing that happens;
  a stream that was cancelled or raised has none.
\<close>

theorem stream_ends_once:
  assumes "run_stream K n (Start pl) s = (a, r, s')"
  shows "if r = Ended then ends_once a else ongoing a"
proof -
  obtain q where q: "atrace (c_gate K) (c_max_repair K) (abs_turn (Inr (Start pl)) s) a (abs_turn q s')"
    "abs_phase q \<in> end_phase r"
    using run_stream_refines[OF assms] by metis
  from atrace_ends[OF q(1)] q(2) show ?thesis by (cases r) (auto simp: end_phase_def split: if_splits)
qed

text \<open>
  C10. The completion contract: a turn is not reported done while the last verification of its edits failed.
  (A pass with no verification command at all lifts the debt.)
\<close>

theorem done_means_verified:
  assumes "run_stream K n (Start pl) s = (a, r, s')"
  shows "honest (c_gate K) False a \<noteq> None"
proof -
  obtain q where q: "atrace (c_gate K) (c_max_repair K) (abs_turn (Inr (Start pl)) s) a (abs_turn q s')"
    using run_stream_refines[OF assms] by metis
  have "owes False (abs_turn (Inr (Start pl)) s)" by (simp add: owes_def)
  from atrace_honest[OF q this] show ?thesis by auto
qed

theorem repairs_bounded:
  assumes "run_stream K n (Start pl) s = (a, r, s')"
  shows "repairs a \<le> c_max_repair K - z_round s"
proof -
  obtain q where q: "atrace (c_gate K) (c_max_repair K) (abs_turn (Inr (Start pl)) s) a (abs_turn q s')"
    using run_stream_refines[OF assms] by metis
  from atrace_repairs[OF q] show ?thesis by (cases "repairs a") auto
qed

section \<open>Every event is well typed\<close>

definition typed :: "act list \<Rightarrow> bool" where
  "typed a \<longleftrightarrow> list_all well_typed (yields a)"

lemma typed_simps [simp]: "typed []" "typed (a @ b) \<longleftrightarrow> typed a \<and> typed b"
  "typed (x # a) \<longleftrightarrow> (case x of Yield e \<Rightarrow> well_typed e | _ \<Rightarrow> True) \<and> typed a"
  by (auto simp: typed_def split: act.split)

lemma typed_calm: "calm a \<Longrightarrow> typed a"
proof (induction a)
  case (Cons x a)
  then show ?case by (cases x) (auto simp: plain_def)
qed simp

lemma astep_typed: "astep gate limit s a t \<Longrightarrow> typed a"
  by (induction rule: astep.induct) (auto simp: typed_calm fails_def finishes_def verify_note_def)

lemma atrace_typed: "atrace gate limit s a t \<Longrightarrow> typed a"
  by (induction rule: atrace.induct) (auto dest: astep_typed)

lemma stream_typed: "run_stream K n p s = (a, r, s') \<Longrightarrow> typed a"
  by (metis run_stream_refines atrace_typed)

lemma small_typed [simp]: "typed (write_if K e)" "typed (refusal_notices q)" "typed [refusal_error t]" "typed (fst (start_snapshot s))"
proof -
  have "typed (map (\<lambda>(t, d). Yield (ev NOTICE t d)) l)" for l by (induction l) (auto simp: ev_def)
  then show "typed (refusal_notices q)" by (simp add: refusal_notices_def split: option.split)
qed (simp_all add: write_if_def refusal_error_def ev_def well_typed_def typed_data_def start_snapshot_def)

lemma driver_resume_typed: "driver_resume_pending K n pend s = (a, r, s') \<Longrightarrow> typed a"
proof -
  have "resolve_pass K pend t = (b, v, t') \<Longrightarrow> typed b" for b v t t'
    using resolve_pass_refines astep_typed by blast
  then show "driver_resume_pending K n pend s = (a, r, s') \<Longrightarrow> typed a"
    by (auto simp: driver_resume_pending_def start_snapshot_def dest: stream_typed split: if_splits prod.splits sum.splits)
qed

lemma ensure_typed: "ensure_snapshot K s = (a, s') \<Longrightarrow> typed a"
  by (auto dest!: ensure_snapshot_spec(1))

lemma fresh_prompt_typed: "fresh_prompt K n q s = (a, r, s') \<Longrightarrow> typed a"
  by (auto simp: fresh_prompt_def submit_prompt_def start_snapshot_def Let_def ev_def well_typed_def typed_data_def
      dest!: stream_typed ensure_typed split: if_splits prod.splits run_end.splits)

lemma turn_body_typed: "turn_body K n q s = (a, r, s') \<Longrightarrow> typed a"
  using small_typed(3)
  by (auto simp: turn_body_def dest!: driver_resume_typed fresh_prompt_typed
      split: if_splits prod.splits run_end.splits option.splits list.splits)

lemma cleanup_typed: "turn_cleanup K s = (a, s') \<Longrightarrow> typed a"
  by (auto simp: turn_cleanup_def detach_pending_snapshot_def split: if_splits)

text \<open>
  C27. Every event of a turn carries data of the types its kind promises, with the keys that are always there: a
  front-end may read \<^verbatim>\<open>args\<close>, \<^verbatim>\<open>summary\<close>, \<^verbatim>\<open>target\<close> and \<^verbatim>\<open>retryable\<close> unchecked.
\<close>

theorem turn_events_typed:
  assumes "run_turn K n q s = (a, r, s')"
  shows "list_all well_typed (yields a)"
proof -
  have "pending_snapshot_notice K t = (b, t') \<Longrightarrow> typed b" for b t t'
    using snapshot_notice_spec typed_calm by blast
  then have "typed a"
    using assms by (auto simp: run_turn_def dest: turn_body_typed cleanup_typed split: sum.splits prod.splits)
  then show ?thesis by (simp add: typed_def)
qed

section \<open>A scripted agent\<close>

text \<open>The agent streams a list of items; each also says whether the project has its package file from then on.
  The verification command of the project always fails.\<close>

type_synonym script = "(pull \<times> bool) list \<times> bool"

definition script_params :: "script params" where
  "script_params = \<lparr>p_uni = ascii_uni, p_host = user_host,
     p_proc = \<lparr>os_environ = [], frozen = False, platform_name = u ''darwin''\<rparr>,
     p_shell = (\<lambda>x c e. (Completed 0 [] [], x)),
     p_approver = (\<lambda>q E x. (\<lparr>approved = True, reply_scope = ONCE, message = [], edited_args = None, plan_mode_target = None\<rparr>, E, x))\<rparr>"

definition script_verify :: "script \<Rightarrow> script verify_env" where
  "script_verify w = \<lparr>v_root = Some (if snd w then demo_project else demo_project\<lparr>pf_file := (\<lambda>_. False)\<rparr>),
     v_executor = Some (\<lambda>c x. (\<lparr>er_exit = 1, er_output = [], er_secs = JInt 0\<rparr>, x)),
     v_summarize = (\<lambda>c o1 e. u ''failed''), v_total = (\<lambda>xs. JInt 0)\<rparr>"

fun script_next :: "script \<Rightarrow> pull \<times> script" where
  "script_next ([], b) = (PDone, [], b)"
| "script_next ((p, b) # ps, _) = (p, ps, b)"

definition script_agent :: "script agent_ops" where
  "script_agent = \<lparr>g_start = (\<lambda>pl x. (None, x)), g_next = script_next, g_close = (\<lambda>x. x), g_append = (\<lambda>t x. x),
     g_history = None, g_state = None, g_state_error = (\<lambda>_. []), g_drain = (\<lambda>x. x)\<rparr>"

definition script_conf :: "(script, rat) sconf" where
  "script_conf = \<lparr>c_params = script_params, c_env = demo_senv, c_verify = script_verify, c_agent = script_agent,
     c_gate = GateAuto, c_max_repair = 2, c_transcript = True, c_checkpoint = True, c_diag_mode = DiagOff, c_diag_max = 0,
     c_diag_round = 0, c_collect = (\<lambda>ps x. (None, x)), c_format = (\<lambda>_. []), c_steer_source = None, c_inject = False,
     c_date = [], c_modules = (\<lambda>x. ([], x)), c_image_ok = (\<lambda>_. False),
     c_exc = (\<lambda>_. \<lparr>x_name = [], x_msg = [], x_status = None, x_response = None, x_isa = [], x_cause = None, x_context = None\<rparr>),
     c_internal = (\<lambda>_. 0), c_snap_fails = (\<lambda>x. (False, x)), c_summary = (\<lambda>_. []), c_budget_text = (\<lambda>_. [])\<rparr>"

definition script_sess :: "(pull \<times> bool) list \<Rightarrow> (script, rat) sess" where
  "script_sess ps = \<lparr>z_driver = \<lparr>d_engine = project_engine MODE_ASK [] [], d_hooks = None, d_saved = [], d_ext = (ps, True)\<rparr>,
     z_stream = demo_stream, z_text = [], z_committed = [], z_dirty = False, z_round = 0, z_edited = [], z_exec_call = None,
     z_exec_agent = None, z_steer = None, z_snap = False, z_notice_pending = False, z_notice_shown = False, z_date = []\<rparr>"

definition edit_done :: pull where
  "edit_done = PItem (IMessage [] \<lparr>m_type = u ''tool'', m_id = None, m_name = Some (u ''edit_file''), m_content = CStr (u ''ok''),
     m_tool_calls = [], m_call_chunks = [], m_tool_call_id = None, m_usage = None, m_metadata = None, m_reasoning = None\<rparr>)"

definition asks :: pull where
  "asks = PItem (IUpdate [] (ChunkInterrupt [(Some (u ''i1''), IDict (Some [demo_request ''execute'' ''command'' ''make all'']))]))"

definition prompt :: turn_request where
  "prompt = \<lparr>q_text = u ''hi'', q_resume = False, q_images = [], q_media = None, q_pending_only = False\<rparr>"

definition dodging :: "(pull \<times> bool) list" where
  "dodging = [(edit_done, True), (PDone, True), (edit_done, False), (PDone, False)]"

lemma dodging_run:
  "case run_stream script_conf 9 (Start PNone) (script_sess dodging) of (a, r, s) \<Rightarrow>
     r = Ended \<and> VerifySkipped \<in> set a \<and> repairs a = 1 \<and> map ekind (yields a) = [TOOL_END, NOTICE, NOTICE, TOOL_END, DONE]
     \<and> map (verify_failed GateAuto) (yields a) = [False, True, False, False, False]"
  by code_simp

lemma asking_run:
  "case run_turn script_conf 9 prompt (script_sess [(asks, True), (PDone, True)]) of (a, r, s) \<Rightarrow>
     r = Ended \<and> map ekind (yields a) = [APPROVAL, DONE] \<and> SnapStart \<in> set a \<and> length (filter (\<lambda>x. case x of Submit pl \<Rightarrow> resumes pl | _ \<Rightarrow> False) a) = 1"
  by code_simp

text \<open>The contract does not bind an agent that removes the test configuration: the edit fails its
  verification, the agent is asked to repair it, deletes the package file instead, and the turn is reported done.\<close>

theorem dodged_verification:
  "\<exists>a s. run_stream script_conf 9 (Start PNone) (script_sess dodging) = (a, Ended, s) \<and> VerifySkipped \<in> set a
     \<and> map ekind (yields a) = [TOOL_END, NOTICE, NOTICE, TOOL_END, DONE]
     \<and> map (verify_failed GateAuto) (yields a) = [False, True, False, False, False]"
  using dodging_run by (auto split: prod.splits)

theorem snapshot_before_mutation_witness:
  "\<exists>a s'. run_turn script_conf 9 prompt (script_sess [(asks, True), (PDone, True)]) = (a, Ended, s')
     \<and> SnapStart \<in> set a \<and> length (filter (\<lambda>x. case x of Submit pl \<Rightarrow> resumes pl | _ \<Rightarrow> False) a) = 1
     \<and> snap_run Idle a = Some Idle \<and> \<not> z_snap s'"
proof -
  obtain a s' where r: "run_turn script_conf 9 prompt (script_sess [(asks, True), (PDone, True)]) = (a, Ended, s')"
    "SnapStart \<in> set a" "length (filter (\<lambda>x. case x of Submit pl \<Rightarrow> resumes pl | _ \<Rightarrow> False) a) = 1"
    using asking_run by (auto split: prod.splits)
  have "\<not> z_snap (script_sess [(asks, True), (PDone, True)])" by (simp add: script_sess_def)
  from snapshot_before_mutation[OF this r(1)] r show ?thesis by auto
qed

theorem stream_ends_once_witness:
  "\<exists>a s'. run_stream script_conf 9 (Start PNone) (script_sess dodging) = (a, Ended, s')
     \<and> map ekind (yields a) = [TOOL_END, NOTICE, NOTICE, TOOL_END, DONE] \<and> ends_once a"
proof -
  obtain a s' where r: "run_stream script_conf 9 (Start PNone) (script_sess dodging) = (a, Ended, s')"
    "map ekind (yields a) = [TOOL_END, NOTICE, NOTICE, TOOL_END, DONE]"
    using dodging_run by (auto split: prod.splits)
  from stream_ends_once[OF r(1)] r show ?thesis by auto
qed

theorem done_means_verified_witness:
  "\<exists>a s'. run_stream script_conf 9 (Start PNone) (script_sess dodging) = (a, Ended, s')
     \<and> map (verify_failed GateAuto) (yields a) = [False, True, False, False, False] \<and> honest GateAuto False a \<noteq> None"
proof -
  obtain a s' where r: "run_stream script_conf 9 (Start PNone) (script_sess dodging) = (a, Ended, s')"
    "map (verify_failed GateAuto) (yields a) = [False, True, False, False, False]"
    using dodging_run by (auto split: prod.splits)
  have "c_gate script_conf = GateAuto" by (simp add: script_conf_def)
  with done_means_verified[OF r(1)] r show ?thesis by auto
qed

theorem repairs_bounded_witness:
  "\<exists>a s'. run_stream script_conf 9 (Start PNone) (script_sess dodging) = (a, Ended, s') \<and> repairs a = 1 \<and> repairs a \<le> 2"
proof -
  obtain a s' where r: "run_stream script_conf 9 (Start PNone) (script_sess dodging) = (a, Ended, s')" "repairs a = 1"
    using dodging_run by (auto split: prod.splits)
  from repairs_bounded[OF r(1)] r show ?thesis by (auto simp: script_conf_def script_sess_def)
qed

theorem turn_events_typed_witness:
  "\<exists>a s'. run_turn script_conf 9 prompt (script_sess [(asks, True), (PDone, True)]) = (a, Ended, s')
     \<and> map ekind (yields a) = [APPROVAL, DONE] \<and> list_all well_typed (yields a)"
proof -
  obtain a s' where r: "run_turn script_conf 9 prompt (script_sess [(asks, True), (PDone, True)]) = (a, Ended, s')"
    "map ekind (yields a) = [APPROVAL, DONE]"
    using asking_run by (auto split: prod.splits)
  from turn_events_typed[OF r(1)] r show ?thesis by auto
qed

theorem turn_refines_machine_witness:
  "\<exists>a s' q. run_stream script_conf 9 (Start PNone) (script_sess dodging) = (a, Ended, s') \<and> repairs a = 1
     \<and> atrace GateAuto 2 (abs_turn (Inr (Start PNone)) (script_sess dodging)) a (abs_turn q s') \<and> abs_phase q = AHalt"
proof -
  obtain a s' where r: "run_stream script_conf 9 (Start PNone) (script_sess dodging) = (a, Ended, s')" "repairs a = 1"
    using dodging_run by (auto split: prod.splits)
  have "c_gate script_conf = GateAuto" "c_max_repair script_conf = 2" by (simp_all add: script_conf_def)
  with turn_refines_machine[OF r(1)] r show ?thesis by (auto simp: end_phase_def)
qed

end
