(* ===== verification/Os_Sandbox.thy ===== *)
theory Os_Sandbox
  imports Py_Path
begin

text \<open>
  The kernel sandbox around shell commands, \<^verbatim>\<open>src/src/jarn/agent/os_sandbox.py\<close>: the Seatbelt profile of macOS, which is a
  text with paths pasted into it, and the argument list of \<^verbatim>\<open>bwrap\<close> on Linux.

  What these languages mean is stated separately: a reader and an evaluator for the fragment of the profile language that
  the builder uses, and the mount operations of \<^verbatim>\<open>bwrap\<close> in the order it performs them. The properties say what a
  sandboxed command may write.
\<close>

section \<open>The builder\<close>

datatype sandbox_error = UnsafePath pystr | ResolveError | NoBackend

record sandbox_env =
  x_platform :: pystr
  x_which :: "pystr \<Rightarrow> bool"
  x_tmpdir :: "pystr option"
  x_home :: ppath
  x_exists :: "pystr \<Rightarrow> bool"
  x_resolve :: "pystr \<Rightarrow> pystr option"

definition UNSAFE_PATH_CHARS :: "int set" where
  "UNSAFE_PATH_CHARS = {34, 92, 10, 13, 41, 40}"

definition safe_sandbox_path :: "pystr \<Rightarrow> sandbox_error + pystr" where
  "safe_sandbox_path p = (if list_ex (\<lambda>c. c \<in> UNSAFE_PATH_CHARS) p then Inl (UnsafePath p) else Inr p)"

definition backend_name :: "sandbox_env \<Rightarrow> pystr option" where
  "backend_name X =
     (if x_platform X = u ''darwin'' then (if x_which X (u ''sandbox-exec'') then Some (u ''sandbox-exec'') else None)
      else if startswith (x_platform X) (u ''linux'') then (if x_which X (u ''bwrap'') then Some (u ''bwrap'') else None)
      else None)"

definition available :: "sandbox_env \<Rightarrow> bool" where
  "available X \<longleftrightarrow> backend_name X \<noteq> None"

definition tmp_path :: "sandbox_env \<Rightarrow> pystr" where
  "tmp_path X = (case x_tmpdir X of None \<Rightarrow> u ''/tmp'' | Some t \<Rightarrow> t)"

definition default_writable :: "sandbox_env \<Rightarrow> pystr list" where
  "default_writable X =
     filter (x_exists X) (as_posix (parse_path (tmp_path X))
       # map (\<lambda>n. as_posix (path_join (x_home X) (parse_path (u n)))) [''.cache'', ''.npm'', ''.cargo'', ''.local/share''])"

text \<open>\<^verbatim>\<open>_safe_sandbox_path(str(Path(p).resolve()))\<close>\<close>

definition canonical :: "sandbox_env \<Rightarrow> pystr \<Rightarrow> sandbox_error + pystr" where
  "canonical X p = (case x_resolve X p of None \<Rightarrow> Inl ResolveError | Some s \<Rightarrow> safe_sandbox_path s)"

fun canonical_all :: "sandbox_env \<Rightarrow> pystr list \<Rightarrow> sandbox_error + pystr list" where
  "canonical_all X [] = Inr []"
| "canonical_all X (p # ps) =
     (case canonical X p of Inl e \<Rightarrow> Inl e
      | Inr s \<Rightarrow> (case canonical_all X ps of Inl e \<Rightarrow> Inl e | Inr ss \<Rightarrow> Inr (s # ss)))"

fun write_allow :: "sandbox_env \<Rightarrow> pystr list \<Rightarrow> pystr list \<Rightarrow> sandbox_error + pystr list" where
  "write_allow X acc [] = Inr acc"
| "write_allow X acc (p # ps) =
     (case canonical X p of Inl e \<Rightarrow> Inl e
      | Inr s \<Rightarrow> write_allow X (if s \<in> set acc then acc else acc @ [s]) ps)"

definition subpath_clause :: "pystr \<Rightarrow> pystr" where
  "subpath_clause p = u ''  (subpath '' @ [34] @ p @ [34, 41]"

definition profile_text :: "pystr list \<Rightarrow> bool \<Rightarrow> pystr" where
  "profile_text ps net =
     strip_ws (u ''(version 1)'' @ [10] @ u ''(allow default)'' @ [10] @ u ''(deny file-write*'' @ [10]
       @ u ''  (subpath '' @ [34, 47, 34] @ u ''))'' @ [10] @ u ''(allow file-write*'' @ [10]
       @ py_join [10] (map subpath_clause ps) @ u '')'' @ [10]
       @ (if net then [] else [10] @ u ''(deny network*)''))"

definition macos_profile :: "sandbox_env \<Rightarrow> pystr \<Rightarrow> bool \<Rightarrow> pystr list \<Rightarrow> sandbox_error + pystr" where
  "macos_profile X project_root allow_network writable =
     (case canonical X (tmp_path X) of Inl e \<Rightarrow> Inl e
      | Inr tmp \<Rightarrow> (case canonical X project_root of Inl e \<Rightarrow> Inl e
         | Inr proj \<Rightarrow> (case write_allow X [proj, tmp] writable of Inl e \<Rightarrow> Inl e
            | Inr ps \<Rightarrow> Inr (profile_text ps allow_network))))"

definition macos_argv :: "sandbox_env \<Rightarrow> pystr \<Rightarrow> pystr \<Rightarrow> bool \<Rightarrow> pystr list \<Rightarrow> sandbox_error + pystr list" where
  "macos_argv X command project_root allow_network writable =
     map_sum id (\<lambda>prof. [u ''sandbox-exec'', u ''-p'', prof, u ''/bin/sh'', u ''-c'', command])
       (macos_profile X project_root allow_network writable)"

definition linux_argv :: "sandbox_env \<Rightarrow> pystr \<Rightarrow> pystr \<Rightarrow> bool \<Rightarrow> pystr list \<Rightarrow> sandbox_error + pystr list" where
  "linux_argv X command project_root allow_network writable =
     (case canonical X project_root of Inl e \<Rightarrow> Inl e
      | Inr proj \<Rightarrow> (case canonical_all X writable of Inl e \<Rightarrow> Inl e
         | Inr ps \<Rightarrow> Inr ([u ''bwrap'', u ''--ro-bind'', u ''/'', u ''/'', u ''--bind'', proj, proj]
              @ concat (map (\<lambda>p. [u ''--bind'', p, p]) ps)
              @ [u ''--tmpfs'', u ''/tmp'', u ''--dev'', u ''/dev'', u ''--proc'', u ''/proc'', u ''--die-with-parent'']
              @ (if allow_network then [] else [u ''--unshare-net'']) @ [u ''/bin/sh'', u ''-c'', command])))"

definition wrap :: "sandbox_env \<Rightarrow> pystr \<Rightarrow> pystr \<Rightarrow> bool \<Rightarrow> pystr list \<Rightarrow> sandbox_error + pystr list" where
  "wrap X command project_root allow_network writable =
     (let name = backend_name X
      in if name = Some (u ''sandbox-exec'') then macos_argv X command project_root allow_network writable
         else if name = Some (u ''bwrap'') then linux_argv X command project_root allow_network writable
         else Inl NoBackend)"

section \<open>What a profile means\<close>

text \<open>A path is inside a directory.\<close>

definition covers :: "pystr \<Rightarrow> pystr \<Rightarrow> bool" where
  "covers d q \<longleftrightarrow> d = [47] \<or> q = d \<or> startswith q (d @ [47])"

datatype sb_token = LPar | RPar | TString pystr | TAtom pystr

datatype sb_state = Outside | InAtom pystr | InString pystr | Escaped pystr

text \<open>The reader of Scheme data: lists, strings with backslash escapes, atoms.\<close>

fun sb_lex :: "sb_state \<Rightarrow> pystr \<Rightarrow> sb_token list option" where
  "sb_lex Outside [] = Some []"
| "sb_lex (InAtom acc) [] = Some [TAtom (rev acc)]"
| "sb_lex (InString acc) [] = None"
| "sb_lex (Escaped acc) [] = None"
| "sb_lex Outside (c # cs) =
     (if c = 40 then map_option ((#) LPar) (sb_lex Outside cs) else if c = 41 then map_option ((#) RPar) (sb_lex Outside cs)
      else if c = 34 then sb_lex (InString []) cs else if isspace c then sb_lex Outside cs else sb_lex (InAtom [c]) cs)"
| "sb_lex (InAtom acc) (c # cs) =
     (if c = 40 then map_option (\<lambda>ts. TAtom (rev acc) # LPar # ts) (sb_lex Outside cs)
      else if c = 41 then map_option (\<lambda>ts. TAtom (rev acc) # RPar # ts) (sb_lex Outside cs)
      else if c = 34 then map_option ((#) (TAtom (rev acc))) (sb_lex (InString []) cs)
      else if isspace c then map_option ((#) (TAtom (rev acc))) (sb_lex Outside cs) else sb_lex (InAtom (c # acc)) cs)"
| "sb_lex (InString acc) (c # cs) =
     (if c = 34 then map_option ((#) (TString (rev acc))) (sb_lex Outside cs)
      else if c = 92 then sb_lex (Escaped acc) cs else sb_lex (InString (c # acc)) cs)"
| "sb_lex (Escaped acc) (c # cs) = sb_lex (InString (c # acc)) cs"

text \<open>A rule is its verb, its operation and the directories it is restricted to.\<close>

fun sb_filters :: "sb_token list \<Rightarrow> pystr list \<times> sb_token list" where
  "sb_filters (LPar # TAtom a # TString p # RPar # ts) =
     (if a = u ''subpath'' then (case sb_filters ts of (ps, r) \<Rightarrow> (p # ps, r)) else ([], LPar # TAtom a # TString p # RPar # ts))"
| "sb_filters ts = ([], ts)"

type_synonym sb_rule = "pystr \<times> pystr \<times> pystr list"

fun sb_rules :: "nat \<Rightarrow> sb_token list \<Rightarrow> sb_rule list option" where
  "sb_rules n [] = Some []"
| "sb_rules (Suc n) (LPar # TAtom verb # TAtom oper # ts) =
     (case sb_filters ts of
        (ps, RPar # r) \<Rightarrow> map_option ((#) (verb, oper, ps)) (sb_rules n r)
      | _ \<Rightarrow> None)"
| "sb_rules _ _ = None"

definition sb_read :: "pystr \<Rightarrow> sb_rule list option" where
  "sb_read s = Option.bind (sb_lex Outside s) (\<lambda>ts. sb_rules (length ts) ts)"

text \<open>The last rule that applies to an operation decides.\<close>

definition sb_applies :: "pystr \<Rightarrow> pystr \<Rightarrow> sb_rule \<Rightarrow> bool" where
  "sb_applies oper q r = (case r of (verb, o1, ps) \<Rightarrow>
     verb \<in> {u ''allow'', u ''deny''} \<and> o1 \<in> {u ''default'', oper} \<and> (ps = [] \<or> list_ex (\<lambda>p. covers p q) ps))"

definition sb_permits :: "pystr \<Rightarrow> pystr \<Rightarrow> sb_rule list \<Rightarrow> bool" where
  "sb_permits oper q rs = (case filter (sb_applies oper q) rs of [] \<Rightarrow> False | as \<Rightarrow> fst (last as) = u ''allow'')"

section \<open>What the mounts mean\<close>

datatype mount = RoBind pystr | RwBind pystr | Fresh pystr

text \<open>The options of \<^verbatim>\<open>bwrap\<close> that the builder uses; what follows them is the command. \<open>None\<close> is a usage error.\<close>

fun bw_read :: "pystr list \<Rightarrow> (mount list \<times> bool \<times> pystr list) option" where
  "bw_read (a # ts) =
     (if a \<in> {u ''--ro-bind'', u ''--bind''} then (case ts of src # dst # r \<Rightarrow>
          if src = dst then map_option (\<lambda>(ms, net, c). ((if a = u ''--bind'' then RwBind dst else RoBind dst) # ms, net, c)) (bw_read r) else None
        | _ \<Rightarrow> None)
      else if a \<in> {u ''--tmpfs'', u ''--dev'', u ''--proc''} then (case ts of dst # r \<Rightarrow>
          map_option (\<lambda>(ms, net, c). (Fresh dst # ms, net, c)) (bw_read r) | _ \<Rightarrow> None)
      else if a = u ''--die-with-parent'' then bw_read ts
      else if a = u ''--unshare-net'' then map_option (\<lambda>(ms, net, c). (ms, False, c)) (bw_read ts)
      else Some ([], True, a # ts))"
| "bw_read [] = Some ([], True, [])"

fun mount_at :: "mount \<Rightarrow> pystr" where
  "mount_at (RoBind d) = d"
| "mount_at (RwBind d) = d"
| "mount_at (Fresh d) = d"

text \<open>The mount that a path belongs to is the last one over it.\<close>

definition mounted :: "mount list \<Rightarrow> pystr \<Rightarrow> mount option" where
  "mounted ms q = (case filter (\<lambda>m. covers (mount_at m) q) ms of [] \<Rightarrow> None | l \<Rightarrow> Some (last l))"

text \<open>A write to \<open>q\<close> in the sandbox reaches the file \<open>q\<close> of the host.\<close>

definition writes_host :: "mount list \<Rightarrow> pystr \<Rightarrow> bool" where
  "writes_host ms q = (case mounted ms q of Some (RwBind _) \<Rightarrow> True | _ \<Rightarrow> False)"

section \<open>Lemmas\<close>

definition plain_path :: "pystr \<Rightarrow> bool" where
  "plain_path p \<longleftrightarrow> list_all (\<lambda>c. c \<notin> UNSAFE_PATH_CHARS) p"

lemma canonical_plain: "canonical X p = Inr s \<Longrightarrow> plain_path s"
  by (auto simp: canonical_def safe_sandbox_path_def plain_path_def list_all_iff list_ex_iff split: option.splits if_splits)

lemma write_allow_plain: "write_allow X acc ps = Inr ss \<Longrightarrow> list_all plain_path acc \<Longrightarrow> list_all plain_path ss"
  by (induction X acc ps rule: write_allow.induct) (auto dest: canonical_plain split: sum.splits if_splits)

lemma lex_string:
  "plain_path p \<Longrightarrow> sb_lex (InString acc) (p @ 34 # r) = map_option ((#) (TString (rev acc @ p))) (sb_lex Outside r)"
  by (induction p arbitrary: acc) (auto simp: plain_path_def UNSAFE_PATH_CHARS_def)

lemma lex_clause:
  "plain_path p \<Longrightarrow> sb_lex Outside (subpath_clause p @ r)
     = map_option (\<lambda>ts. LPar # TAtom (u ''subpath'') # TString p # RPar # ts) (sb_lex Outside r)"
  by (simp add: subpath_clause_def u_def isspace_def lex_string option.map_comp comp_def)

lemma lex_clauses:
  "list_all plain_path ps \<Longrightarrow> sb_lex Outside (py_join [10] (map subpath_clause ps) @ r)
     = map_option (\<lambda>ts. concat (map (\<lambda>p. [LPar, TAtom (u ''subpath''), TString p, RPar]) ps) @ ts) (sb_lex Outside r)"
  by (cases "sb_lex Outside r"; induction ps rule: induct_list012) (auto simp: lex_clause isspace_def)

definition profile_head :: pystr where
  "profile_head = u ''(version 1)'' @ [10] @ u ''(allow default)'' @ [10] @ u ''(deny file-write*'' @ [10]
       @ u ''  (subpath '' @ [34, 47, 34] @ u ''))'' @ [10] @ u ''(allow file-write*'' @ [10]"

lemma lex_head:
  "sb_lex Outside (profile_head @ r) = map_option (\<lambda>ts. [LPar, TAtom (u ''version''), TAtom (u ''1''), RPar,
      LPar, TAtom (u ''allow''), TAtom (u ''default''), RPar,
      LPar, TAtom (u ''deny''), TAtom (u ''file-write*''), LPar, TAtom (u ''subpath''), TString [47], RPar, RPar,
      LPar, TAtom (u ''allow''), TAtom (u ''file-write*'')] @ ts) (sb_lex Outside r)"
  by (simp add: profile_head_def u_def isspace_def option.map_comp comp_def)

lemma strip_keeps_parens: "strip_ws (40 # xs @ [41]) = 40 # xs @ [41]" "strip_ws (40 # xs @ [41, 10]) = 40 # xs @ [41]"
  by (simp_all add: strip_ws_def lstrip_with_def rstrip_with_def isspace_def)

lemma profile_text_eq:
  "profile_text ps net = profile_head @ py_join [10] (map subpath_clause ps) @ u '')''
     @ (if net then [] else [10, 10] @ u ''(deny network*)'')"
proof -
  obtain h where h: "profile_head = 40 # h" by (simp add: profile_head_def u_def)
  have c: "u '')'' = [41]" "u ''(deny network*)'' = u ''(deny network*'' @ [41]" by (simp_all add: u_def)
  let ?m = "h @ py_join [10] (map subpath_clause ps)"
  have "profile_text ps net = strip_ws (profile_head @ py_join [10] (map subpath_clause ps) @ u '')'' @ [10]
      @ (if net then [] else [10] @ u ''(deny network*)''))"
    by (simp add: profile_text_def profile_head_def)
  also have "\<dots> = strip_ws (40 # ?m @ (if net then [41, 10] else [41, 10, 10] @ u ''(deny network*'' @ [41]))"
    unfolding h c by simp
  also have "\<dots> = 40 # ?m @ (if net then [41] else [41, 10, 10] @ u ''(deny network*'' @ [41])"
    using strip_keeps_parens(2)[of ?m] strip_keeps_parens(1)[of "?m @ [41, 10, 10] @ u ''(deny network*''"] by simp
  finally show ?thesis using h c by simp
qed

lemma filters_clauses:
  "sb_filters (concat (map (\<lambda>p. [LPar, TAtom (u ''subpath''), TString p, RPar]) ps) @ RPar # r) = (ps, RPar # r)"
  by (induction ps) simp_all

lemma read_profile:
  assumes "list_all plain_path ps"
  shows "sb_read (profile_text ps net) = Some ([(u ''version'', u ''1'', []), (u ''allow'', u ''default'', []),
      (u ''deny'', u ''file-write*'', [[47]]), (u ''allow'', u ''file-write*'', ps)]
      @ (if net then [] else [(u ''deny'', u ''network*'', [])]))"
proof -
  have t: "sb_lex Outside (u '')'' @ (if net then [] else [10, 10] @ u ''(deny network*)''))
      = Some (RPar # (if net then [] else [LPar, TAtom (u ''deny''), TAtom (u ''network*''), RPar]))"
    by (simp add: u_def isspace_def)
  show ?thesis
    using filters_clauses by (simp add: sb_read_def profile_text_eq lex_head lex_clauses[OF assms] t)
qed

lemma write_allow_set:
  "write_allow X acc ps = Inr ss \<Longrightarrow> set ss = set acc \<union> {s. \<exists>p\<in>set ps. canonical X p = Inr s}"
  by (induction X acc ps rule: write_allow.induct) (auto split: sum.splits if_splits)

lemma canonical_all_set: "canonical_all X ps = Inr ss \<Longrightarrow> set ss = {s. \<exists>p\<in>set ps. canonical X p = Inr s}"
  by (induction X ps arbitrary: ss rule: canonical_all.induct) (auto split: sum.splits)

section \<open>Properties\<close>

text \<open>
  C29. The profile says what the builder meant, whatever the paths are called: read as a Seatbelt profile it permits a write
  exactly inside the project, the temporary directory and the directories on the list, and network access
  exactly when it was asked for. No path can end its string and add a rule.
\<close>

theorem seatbelt_confines:
  assumes "macos_profile X project_root net writable = Inr s"
  shows "\<exists>rs ps. sb_read s = Some rs \<and> set ps = {t. \<exists>p\<in>set (project_root # tmp_path X # writable). canonical X p = Inr t}
     \<and> sb_permits (u ''file-write*'') q rs = list_ex (\<lambda>p. covers p q) ps \<and> sb_permits (u ''network*'') q rs = net"
proof -
  obtain tmp proj ps where c: "canonical X (tmp_path X) = Inr tmp" "canonical X project_root = Inr proj"
    "write_allow X [proj, tmp] writable = Inr ps" "s = profile_text ps net"
    using assms by (auto simp: macos_profile_def split: sum.splits)
  have pl: "list_all plain_path ps" using write_allow_plain[OF c(3)] canonical_plain[OF c(1)] canonical_plain[OF c(2)] by simp
  have ne: "ps \<noteq> []" and st: "set ps = {t. \<exists>p\<in>set (project_root # tmp_path X # writable). canonical X p = Inr t}"
    using write_allow_set[OF c(3)] c(1,2) by auto
  show ?thesis
    unfolding c(4) read_profile[OF pl]
    by (intro exI conjI, rule refl, rule st) (use ne in \<open>auto simp: sb_permits_def sb_applies_def covers_def\<close>)
qed

text \<open>
  The mounts on Linux: the command and its arguments are passed on as they are, and a write reaches the host exactly when
  it is inside the project or a directory on the list and not below the directories that are mounted afresh.
\<close>

theorem bwrap_confines:
  assumes "linux_argv X command project_root net writable = Inr argv"
  shows "\<exists>ms ps. bw_read (tl argv) = Some (ms, net, [u ''/bin/sh'', u ''-c'', command])
     \<and> set ps = {t. \<exists>p\<in>set (project_root # writable). canonical X p = Inr t}
     \<and> writes_host ms q = (list_ex (\<lambda>p. covers p q) ps \<and> \<not> list_ex (\<lambda>d. covers d q) (map u [''/tmp'', ''/dev'', ''/proc'']))"
proof -
  obtain proj ps where c: "canonical X project_root = Inr proj" "canonical_all X writable = Inr ps"
    using assms by (auto simp: linux_argv_def split: sum.splits)
  let ?tail = "[Fresh (u ''/tmp''), Fresh (u ''/dev''), Fresh (u ''/proc'')]"
  let ?ms = "RoBind (u ''/'') # RwBind proj # map RwBind ps @ ?tail"
  let ?rest = "[u ''--tmpfs'', u ''/tmp'', u ''--dev'', u ''/dev'', u ''--proc'', u ''/proc'', u ''--die-with-parent'']
              @ (if net then [] else [u ''--unshare-net'']) @ [u ''/bin/sh'', u ''-c'', command]"
  have b: "bw_read (concat (map (\<lambda>p. [u ''--bind'', p, p]) ps) @ r) = map_option (\<lambda>(ms, x). (map RwBind ps @ ms, x)) (bw_read r)" for r
    by (induction ps) (auto simp: option.map_comp comp_def split_beta option.map_ident)
  have "bw_read (tl argv) = Some (?ms, net, [u ''/bin/sh'', u ''-c'', command])"
    using assms c by (auto simp: linux_argv_def b)
  moreover have "set (proj # ps) = {t. \<exists>p\<in>set (project_root # writable). canonical X p = Inr t}"
    using canonical_all_set[OF c(2)] c(1) by auto
  moreover have "writes_host ?ms q = (list_ex (\<lambda>p. covers p q) (proj # ps) \<and> \<not> list_ex (\<lambda>d. covers d q) (map u [''/tmp'', ''/dev'', ''/proc'']))"
  proof -
    have "filter (\<lambda>m. covers (mount_at m) q) (map RwBind ps) = map RwBind (filter (\<lambda>p. covers p q) ps)"
      by (induction ps) auto
    moreover have "covers (u ''/'') q" by (simp add: covers_def u_def)
    moreover have "last (map RwBind l) = RwBind (last l)" if "l \<noteq> []" for l using that by (rule last_map)
    ultimately show ?thesis
      by (auto simp: writes_host_def mounted_def list_ex_iff filter_empty_conv split: list.splits mount.splits)
  qed
  ultimately show ?thesis by blast
qed

text \<open>A host without symbolic links.\<close>

definition demo_sandbox :: sandbox_env where
  "demo_sandbox = \<lparr>x_platform = u ''linux'', x_which = (\<lambda>_. True), x_tmpdir = Some (u ''/var/tmp''), x_home = parse_path (u ''/home/ann''),
     x_exists = (\<lambda>_. True), x_resolve = Some\<rparr>"

lemma demo_canonical:
  "canonical demo_sandbox (u ''/home/ann/proj'') = Inr (u ''/home/ann/proj'')" "canonical demo_sandbox (u ''/var/tmp'') = Inr (u ''/var/tmp'')"
  "canonical demo_sandbox (u ''/home/ann/.cache'') = Inr (u ''/home/ann/.cache'')" "tmp_path demo_sandbox = u ''/var/tmp''"
  by code_simp+

lemma demo_covers:
  "\<not> covers (u ''/home/ann/proj'') (u ''/home/ann/.ssh/config'')" "\<not> covers (u ''/var/tmp'') (u ''/home/ann/.ssh/config'')"
  "\<not> covers (u ''/home/ann/.cache'') (u ''/home/ann/.ssh/config'')" "covers (u ''/home/ann/proj'') (u ''/home/ann/proj/a.py'')"
  "\<not> covers (u ''/tmp'') (u ''/home/ann/proj/a.py'')" "\<not> covers (u ''/dev'') (u ''/home/ann/proj/a.py'')"
  "\<not> covers (u ''/proc'') (u ''/home/ann/proj/a.py'')"
  by code_simp+

theorem seatbelt_confines_witness:
  "\<exists>s rs. macos_profile demo_sandbox (u ''/home/ann/proj'') False [u ''/home/ann/.cache''] = Inr s \<and> sb_read s = Some rs
     \<and> \<not> sb_permits (u ''file-write*'') (u ''/home/ann/.ssh/config'') rs \<and> \<not> sb_permits (u ''network*'') [] rs"
proof -
  obtain s where s: "macos_profile demo_sandbox (u ''/home/ann/proj'') False [u ''/home/ann/.cache''] = Inr s"
    by (simp add: macos_profile_def demo_canonical)
  obtain rs ps where r: "sb_read s = Some rs"
    "set ps = {t. \<exists>p\<in>set [u ''/home/ann/proj'', tmp_path demo_sandbox, u ''/home/ann/.cache'']. canonical demo_sandbox p = Inr t}"
    "sb_permits (u ''file-write*'') (u ''/home/ann/.ssh/config'') rs = list_ex (\<lambda>p. covers p (u ''/home/ann/.ssh/config'')) ps"
    using seatbelt_confines[OF s, of "u ''/home/ann/.ssh/config''"] by blast
  have "set ps = {u ''/home/ann/proj'', u ''/var/tmp'', u ''/home/ann/.cache''}" unfolding r(2) by (auto simp: demo_canonical)
  then have "\<not> sb_permits (u ''file-write*'') (u ''/home/ann/.ssh/config'') rs" unfolding r(3) by (simp add: list_ex_iff demo_covers)
  moreover have "\<not> sb_permits (u ''network*'') [] rs" using seatbelt_confines[OF s, of "[]"] r(1) by auto
  ultimately show ?thesis using s r(1) by blast
qed

theorem bwrap_confines_witness:
  "\<exists>argv ms. linux_argv demo_sandbox (u ''make'') (u ''/home/ann/proj'') True [] = Inr argv
     \<and> bw_read (tl argv) = Some (ms, True, [u ''/bin/sh'', u ''-c'', u ''make'']) \<and> writes_host ms (u ''/home/ann/proj/a.py'')"
proof -
  obtain argv where a: "linux_argv demo_sandbox (u ''make'') (u ''/home/ann/proj'') True [] = Inr argv"
    by (simp add: linux_argv_def demo_canonical)
  obtain ms ps where r: "bw_read (tl argv) = Some (ms, True, [u ''/bin/sh'', u ''-c'', u ''make''])"
    "set ps = {t. \<exists>p\<in>set [u ''/home/ann/proj'']. canonical demo_sandbox p = Inr t}"
    "writes_host ms (u ''/home/ann/proj/a.py'') = (list_ex (\<lambda>p. covers p (u ''/home/ann/proj/a.py'')) ps
       \<and> \<not> list_ex (\<lambda>d. covers d (u ''/home/ann/proj/a.py'')) (map u [''/tmp'', ''/dev'', ''/proc'']))"
    using bwrap_confines[OF a, of "u ''/home/ann/proj/a.py''"] by blast
  have "set ps = {u ''/home/ann/proj''}" unfolding r(2) by (auto simp: demo_canonical)
  with r(3) have "writes_host ms (u ''/home/ann/proj/a.py'')" by (simp add: list_ex_iff demo_covers)
  with a r(1) show ?thesis by blast
qed

text \<open>
  The fresh \<^verbatim>\<open>/tmp\<close> is mounted after the project, so a project below \<^verbatim>\<open>/tmp\<close> is hidden by it and nothing that the command writes
  there reaches it; the module promises that the project is always writable.
\<close>

theorem project_below_tmp_hidden:
  "case linux_argv demo_sandbox (u ''make'') (u ''/tmp/proj'') True [] of Inl e \<Rightarrow> False
   | Inr argv \<Rightarrow> (case bw_read (tl argv) of None \<Rightarrow> False | Some (ms, net, c) \<Rightarrow>
       mounted ms (u ''/tmp/proj/a.py'') = Some (Fresh (u ''/tmp'')) \<and> \<not> writes_host ms (u ''/tmp/proj/a.py''))"
  by code_simp

end
