(* ===== verification/Media_Ingest.thy ===== *)
theory Media_Ingest
  imports Read_Filter
begin

text \<open>
  Attachments of a turn, \<^verbatim>\<open>src/src/jarn/agent/media_ingest.py\<close> with the image gate of \<^verbatim>\<open>src/src/jarn/agent/files.py\<close>: which files
  reach the model, where they are staged, and what is refused.

  The file system is the record \<open>media_env\<close> of the calls the code makes, on a threaded world; bytes are lists of numbers. The tables of
  \<^verbatim>\<open>mimetypes\<close> are parameters. \<open>Inl\<close> is an exception that \<^verbatim>\<open>prepare_media\<close> does not catch.
\<close>

section \<open>Types and gates\<close>

definition INLINE_IMAGE_MAX_BYTES :: nat where "INLINE_IMAGE_MAX_BYTES = 5 * 1024 * 1024"
definition DOCUMENT_MAX_BYTES :: nat where "DOCUMENT_MAX_BYTES = 50 * 1024 * 1024"

definition ALLOWED_IMAGE_MIMES :: "pystr list" where
  "ALLOWED_IMAGE_MIMES = map u [''image/png'', ''image/jpeg'', ''image/jpg'', ''image/gif'', ''image/webp'', ''image/bmp'',
     ''image/svg+xml'', ''image/x-icon'', ''image/vnd.microsoft.icon'']"

definition ALLOWED_DOCUMENT_MIMES :: "pystr list" where
  "ALLOWED_DOCUMENT_MIMES = map u [''application/pdf'', ''application/json'', ''application/xml'', ''application/javascript'',
     ''application/x-javascript'', ''application/typescript'', ''application/x-sh'', ''application/x-yaml'', ''application/yaml'',
     ''text/plain'', ''text/markdown'', ''text/csv'', ''text/html'', ''text/css'', ''text/xml'', ''text/x-python'',
     ''text/x-java-source'', ''text/x-c'', ''text/x-c++'', ''text/javascript'', ''text/typescript'', ''text/x-shellscript'', ''text/yaml'']"

definition UNSUPPORTED_MODALITIES :: "pystr list" where
  "UNSUPPORTED_MODALITIES = map u [''audio'', ''voice'', ''video'', ''unknown'']"

definition normal_mime :: "pyuni \<Rightarrow> pystr \<Rightarrow> pystr" where
  "normal_mime U m = lower U (strip_ws (before_first 59 m))"

definition image_mime_allowed :: "pyuni \<Rightarrow> pystr \<Rightarrow> bool" where
  "image_mime_allowed U m =
     (let n = normal_mime U m
      in if n = [] then False else if n \<in> set ALLOWED_IMAGE_MIMES then True
         else startswith n (u ''image/'') \<and> n \<notin> {u ''image/heic'', u ''image/heif'', u ''image/tiff''})"

definition document_mime_allowed :: "pyuni \<Rightarrow> pystr \<Rightarrow> bool" where
  "document_mime_allowed U m =
     (let n = normal_mime U m
      in if n = [] then False else n \<in> set ALLOWED_DOCUMENT_MIMES \<or> startswith n (u ''text/''))"

definition modality_from_mime :: "pyuni \<Rightarrow> pystr \<Rightarrow> pystr" where
  "modality_from_mime U m =
     (let n = normal_mime U m
      in if n = [] then u ''unknown'' else if startswith n (u ''image/'') then u ''image''
         else if startswith n (u ''audio/'') then u ''audio'' else if startswith n (u ''video/'') then u ''video''
         else if document_mime_allowed U n then u ''document'' else u ''unknown'')"

section \<open>Refusals\<close>

datatype refusal_reason = UnsupportedModality | Oversize | DisallowedType | Unreadable

record MediaInput =
  mi_data :: "pystr option"
  mi_mime :: "pystr option"
  mi_path :: "pystr option"
  mi_modality :: "pystr option"
  mi_filename :: "pystr option"

record MediaRefusal =
  mr_reason :: refusal_reason
  mr_modality :: pystr
  mr_mime :: pystr
  mr_message :: pystr
  mr_filename :: "pystr option"
  mr_size :: "nat option"
  mr_max :: "nat option"

fun reason_text :: "refusal_reason \<Rightarrow> pystr" where
  "reason_text UnsupportedModality = u ''unsupported_modality''"
| "reason_text Oversize = u ''oversize''"
| "reason_text DisallowedType = u ''disallowed_type''"
| "reason_text Unreadable = u ''unreadable''"

definition as_event_data :: "MediaRefusal \<Rightarrow> args" where
  "as_event_data r =
     [(u ''media_refusal'', JBool True), (u ''reason'', JStr (reason_text (mr_reason r))), (u ''modality'', JStr (mr_modality r)),
      (u ''mime'', JStr (mr_mime r)), (u ''message'', JStr (mr_message r))]
     @ (case mr_filename r of None \<Rightarrow> [] | Some f \<Rightarrow> [(u ''filename'', JStr f)])
     @ (case mr_size r of None \<Rightarrow> [] | Some n \<Rightarrow> [(u ''size_bytes'', JInt (int n))])
     @ (case mr_max r of None \<Rightarrow> [] | Some n \<Rightarrow> [(u ''max_bytes'', JInt (int n))])"

text \<open>\<^verbatim>\<open>f"{n / d:.1f}"\<close> for a power of two \<open>d\<close>: the quotient is exact, so a tie goes to the even digit.\<close>

definition tenths :: "nat \<Rightarrow> nat \<Rightarrow> pystr" where
  "tenths n d =
     (let q = n * 10 div d; r = n * 10 mod d; t = (if 2 * r > d \<or> 2 * r = d \<and> odd q then q + 1 else q)
      in str_int (int (t div 10)) @ [46] @ str_int (int (t mod 10)))"

definition fmt_bytes :: "nat \<Rightarrow> pystr" where
  "fmt_bytes n = (if n < 1024 then str_int (int n) @ u '' B''
     else if n < 1024 * 1024 then tenths n 1024 @ u '' KB'' else tenths n (1024 * 1024) @ u '' MB'')"

fun first_nonempty :: "pystr list \<Rightarrow> pystr" where
  "first_nonempty [] = []"
| "first_nonempty (s # ss) = (if s \<noteq> [] then s else first_nonempty ss)"

definition opt_text :: "pystr option \<Rightarrow> pystr" where
  "opt_text s = (case s of None \<Rightarrow> [] | Some t \<Rightarrow> t)"

definition refusal_message :: "refusal_reason \<Rightarrow> pystr \<Rightarrow> pystr \<Rightarrow> pystr option \<Rightarrow> nat option \<Rightarrow> nat option \<Rightarrow> pystr" where
  "refusal_message rsn md mime fname sz mx =
     (let label = first_nonempty [opt_text fname, mime, md, u ''attachment'']; instead = u ''Send text, a photo, or a document (PDF/text) instead.''
      in case rsn of
           UnsupportedModality \<Rightarrow>
             (if md \<in> {u ''audio'', u ''voice''} then u ''Voice and audio messages are not supported ('' @ label @ u ''). '' @ instead
              else if md = u ''video'' then u ''Video is not supported ('' @ label @ u ''). '' @ instead
              else u ''This media type is not supported ('' @ label @ u ''). '' @ instead)
         | Oversize \<Rightarrow>
             u ''This '' @ (if md = u ''image'' then u ''image'' else u ''file'') @ u '' is too large to accept ('' @ label @ u '': ''
             @ (case sz of None \<Rightarrow> u ''too large'' | Some n \<Rightarrow> fmt_bytes n) @ u ''; max ''
             @ (case mx of None \<Rightarrow> u ''the limit'' | Some n \<Rightarrow> fmt_bytes n) @ u '').''
         | DisallowedType \<Rightarrow>
             u ''File type '' @ first_nonempty [mime, md, u ''unknown''] @ u '' is not allowed ('' @ label @ u ''). ''
             @ u ''Send a photo or an allowlisted document (PDF/text).''
         | Unreadable \<Rightarrow> u ''Could not read attachment ('' @ label @ u '').'')"

definition refuse_media :: "refusal_reason \<Rightarrow> pystr \<Rightarrow> pystr \<Rightarrow> pystr option \<Rightarrow> nat option \<Rightarrow> nat option \<Rightarrow> MediaRefusal" where
  "refuse_media rsn md mime fname sz mx =
     \<lparr>mr_reason = rsn, mr_modality = md, mr_mime = mime, mr_message = refusal_message rsn md mime fname sz mx, mr_filename = fname,
      mr_size = sz, mr_max = mx\<rparr>"

section \<open>Staging\<close>

record 'w media_env =
  me_uni :: pyuni
  me_host :: host
  me_guess :: "pystr \<Rightarrow> pystr option"
  me_ext :: "pystr \<Rightarrow> pystr option"
  me_read :: "ppath \<Rightarrow> 'w \<Rightarrow> pystr option"
  me_is_file :: "ppath \<Rightarrow> 'w \<Rightarrow> bool"
  me_tempdir :: ppath
  me_mkdtemp :: "ppath option \<Rightarrow> 'w \<Rightarrow> ppath option \<times> 'w"
  me_rmtree :: "ppath \<Rightarrow> 'w \<Rightarrow> 'w"
  me_write :: "ppath \<Rightarrow> pystr \<Rightarrow> 'w \<Rightarrow> bool \<times> 'w"

datatype media_error = StagingRefused | MediaOSError

definition assert_outside_home :: "host \<Rightarrow> ppath \<Rightarrow> media_error option" where
  "assert_outside_home H r =
     (case h_home H of None \<Rightarrow> Some StagingRefused
      | Some h \<Rightarrow> (case h_resolve H (path_join h (parse_path (u ''.jarn''))) of None \<Rightarrow> Some MediaOSError
         | Some j \<Rightarrow> if under r j then Some StagingRefused else None))"

definition assert_safe_staging :: "host \<Rightarrow> ppath \<Rightarrow> ppath option \<Rightarrow> media_error option" where
  "assert_safe_staging H st root =
     (case h_resolve H st of None \<Rightarrow> Some MediaOSError
      | Some r \<Rightarrow>
          (case root of None \<Rightarrow> assert_outside_home H r
           | Some p \<Rightarrow> (case expanduser H p of None \<Rightarrow> Some StagingRefused
              | Some q \<Rightarrow> (case h_resolve H q of None \<Rightarrow> Some MediaOSError
                 | Some pr \<Rightarrow> if under r pr then Some StagingRefused else assert_outside_home H r))))"

text \<open>The parent of the second attempt; \<open>None\<close> when a path cannot be resolved.\<close>

definition alt_parent :: "'w media_env \<Rightarrow> ppath option \<Rightarrow> ppath option" where
  "alt_parent E root =
     (case h_resolve (me_host E) (me_tempdir E) of None \<Rightarrow> None
      | Some t \<Rightarrow> (case root of None \<Rightarrow> Some t
         | Some p \<Rightarrow> (case h_resolve (me_host E) p of None \<Rightarrow> None
            | Some pr \<Rightarrow> Some (if under t pr then parse_path (u ''/tmp'') else t))))"

definition mkdtemp_checked :: "'w media_env \<Rightarrow> ppath option \<Rightarrow> ppath option \<Rightarrow> 'w \<Rightarrow> (media_error + ppath) \<times> ppath option \<times> 'w" where
  "mkdtemp_checked E root dir w =
     (case me_mkdtemp E dir w of
        (None, w1) \<Rightarrow> (Inl MediaOSError, None, w1)
      | (Some st, w1) \<Rightarrow> (case assert_safe_staging (me_host E) st root of
            None \<Rightarrow> (Inr st, Some st, w1) | Some e \<Rightarrow> (Inl e, Some st, w1)))"

definition mkdtemp_outside_project :: "'w media_env \<Rightarrow> ppath option \<Rightarrow> 'w \<Rightarrow> (media_error + ppath) \<times> 'w" where
  "mkdtemp_outside_project E root w =
     (case mkdtemp_checked E root None w of
        (Inr st, _, w1) \<Rightarrow> (Inr st, w1)
      | (Inl MediaOSError, _, w1) \<Rightarrow> (Inl MediaOSError, w1)
      | (Inl StagingRefused, st, w1) \<Rightarrow>
          (let w2 = (case st of None \<Rightarrow> w1 | Some d \<Rightarrow> me_rmtree E d w1)
           in case alt_parent E root of None \<Rightarrow> (Inl MediaOSError, w2)
              | Some p \<Rightarrow> (case mkdtemp_checked E root (Some p) w2 of (r, _, w3) \<Rightarrow> (r, w3))))"

definition path_name :: "pystr \<Rightarrow> pystr" where
  "path_name s = (case ptail (parse_path s) of [] \<Rightarrow> [] | t # ts \<Rightarrow> last (t # ts))"

definition safe_filename :: "'w media_env \<Rightarrow> pystr option \<Rightarrow> pystr \<Rightarrow> pystr \<Rightarrow> pystr" where
  "safe_filename E fname mime dflt =
     (let raw = filter (\<lambda>c. c \<noteq> 0) (strip_ws (opt_text fname)); name = (if raw \<noteq> [] then path_name raw else []);
          ext = opt_text (me_ext E (normal_mime (me_uni E) mime));
          n1 = (if name \<in> {[], [46], [46, 46]} then (if endswith dflt ext \<or> ext = [] then dflt else u ''document'' @ ext) else name);
          n2 = (if name \<in> {[], [46], [46, 46]} \<and> n1 = u ''document'' \<and> ext \<noteq> [] then u ''document'' @ ext else n1)
      in replace_chr 92 95 (replace_chr 47 95 n2))"

record StagedDocument =
  sd_path :: ppath
  sd_dir :: ppath
  sd_mime :: pystr
  sd_filename :: pystr

definition stage_file :: "'w media_env \<Rightarrow> pystr \<Rightarrow> pystr \<Rightarrow> ppath option \<Rightarrow> 'w \<Rightarrow> (media_error + ppath \<times> ppath) \<times> 'w" where
  "stage_file E bytes name root w =
     (case mkdtemp_outside_project E root w of
        (Inl e, w1) \<Rightarrow> (Inl e, w1)
      | (Inr st, w1) \<Rightarrow>
          (let dest = path_join st (parse_path name)
           in case me_write E dest bytes w1 of (ok, w2) \<Rightarrow> (if ok then Inr (dest, st) else Inl MediaOSError, w2)))"

definition stage_document :: "'w media_env \<Rightarrow> pystr \<Rightarrow> pystr \<Rightarrow> pystr option \<Rightarrow> ppath option \<Rightarrow> 'w \<Rightarrow> (media_error + StagedDocument) \<times> 'w" where
  "stage_document E bytes mime fname root w =
     (let name = safe_filename E fname mime (u ''document'')
      in case stage_file E bytes name root w of
           (Inl e, w1) \<Rightarrow> (Inl e, w1)
         | (Inr (dest, st), w1) \<Rightarrow> (Inr \<lparr>sd_path = dest, sd_dir = st, sd_mime = mime, sd_filename = name\<rparr>, w1))"

section \<open>One item\<close>

definition resolve_mime :: "'w media_env \<Rightarrow> pystr option \<Rightarrow> pystr option \<Rightarrow> pystr option \<Rightarrow> pystr" where
  "resolve_mime E mime path fname =
     (if opt_text mime \<noteq> [] then normal_mime (me_uni E) (opt_text mime)
      else (let pname = (case path of None \<Rightarrow> [] | Some p \<Rightarrow> path_name p); hint = first_nonempty [opt_text fname, pname];
                g1 = (if hint \<noteq> [] then opt_text (me_guess E hint) else []);
                g2 = (if path \<noteq> None then opt_text (me_guess E pname) else [])
            in if g1 \<noteq> [] then lower (me_uni E) g1 else if g2 \<noteq> [] then lower (me_uni E) g2 else u ''application/octet-stream''))"

definition TEXT_EXTS :: "pystr list" where
  "TEXT_EXTS = map u [''.txt'', ''.md'', ''.csv'', ''.json'', ''.yaml'', ''.yml'', ''.py'', ''.js'', ''.ts'', ''.html'', ''.css'', ''.xml'', ''.sh'']"

definition resolve_modality :: "pyuni \<Rightarrow> pystr \<Rightarrow> pystr option \<Rightarrow> pystr option \<Rightarrow> pystr" where
  "resolve_modality U mime path fname =
     (let m = modality_from_mime U mime; hint = first_nonempty [opt_text fname, case path of None \<Rightarrow> [] | Some p \<Rightarrow> path_name p]
      in if m \<noteq> u ''unknown'' then m
         else if hint \<noteq> [] \<and> modality_of U hint \<noteq> u ''text'' then modality_of U hint
         else if hint \<noteq> [] \<and> lower U (path_suffix hint) \<in> set TEXT_EXTS then u ''document''
         else u ''unknown'')"

definition load_bytes :: "'w media_env \<Rightarrow> pystr option \<Rightarrow> pystr option \<Rightarrow> 'w \<Rightarrow> MediaRefusal + pystr" where
  "load_bytes E bytes path w =
     (case bytes of Some b \<Rightarrow> Inr b
      | None \<Rightarrow> (case path of None \<Rightarrow> Inl (refuse_media Unreadable (u ''unknown'') [] None None None)
         | Some p \<Rightarrow> (case me_read E (parse_path p) w of Some b \<Rightarrow> Inr b
            | None \<Rightarrow> Inl (refuse_media Unreadable (modality_of (me_uni E) p) [] (Some (path_name p)) None None))))"

datatype ingested = Refused MediaRefusal | Image ppath "ppath option" | Document StagedDocument

definition ingest_document :: "'w media_env \<Rightarrow> nat \<Rightarrow> pystr \<Rightarrow> pystr \<Rightarrow> pystr option \<Rightarrow> ppath option \<Rightarrow> 'w \<Rightarrow> (media_error + ingested) \<times> 'w" where
  "ingest_document E doc_max bytes mime fname root w =
     (if length bytes > doc_max
      then (Inr (Refused (refuse_media Oversize (u ''document'') mime fname (Some (length bytes)) (Some doc_max))), w)
      else (case stage_document E bytes mime fname root w of (Inl e, w1) \<Rightarrow> (Inl e, w1) | (Inr d, w1) \<Rightarrow> (Inr (Document d), w1)))"

definition ingest_image :: "'w media_env \<Rightarrow> nat \<Rightarrow> pystr \<Rightarrow> MediaInput \<Rightarrow> pystr \<Rightarrow> pystr option \<Rightarrow> ppath option \<Rightarrow> 'w \<Rightarrow> (media_error + ingested) \<times> 'w" where
  "ingest_image E img_max bytes it mime fname root w =
     (if \<not> image_mime_allowed (me_uni E) mime then (Inr (Refused (refuse_media DisallowedType (u ''image'') mime fname None None)), w)
      else if length bytes > img_max
      then (Inr (Refused (refuse_media Oversize (u ''image'') mime fname (Some (length bytes)) (Some img_max))), w)
      else if mi_path it \<noteq> None \<and> mi_data it = None \<and> me_is_file E (parse_path (the (mi_path it))) w
      then (Inr (Image (parse_path (the (mi_path it))) None), w)
      else (case stage_file E bytes (safe_filename E fname mime (u ''image.png'')) root w of
              (Inl e, w1) \<Rightarrow> (Inl e, w1) | (Inr (dest, st), w1) \<Rightarrow> (Inr (Image dest (Some st)), w1)))"

definition ingest_one :: "'w media_env \<Rightarrow> nat \<Rightarrow> nat \<Rightarrow> ppath option \<Rightarrow> MediaInput \<Rightarrow> 'w \<Rightarrow> (media_error + ingested) \<times> 'w" where
  "ingest_one E img_max doc_max root it w =
     (let U = me_uni E;
          fname = (case mi_filename it of Some f \<Rightarrow> Some f | None \<Rightarrow> map_option path_name (mi_path it));
          mime = resolve_mime E (mi_mime it) (mi_path it) fname;
          given = lower U (strip_ws (opt_text (mi_modality it)));
          md = (if given \<noteq> [] then given else resolve_modality U mime (mi_path it) fname)
      in if md \<in> set UNSUPPORTED_MODALITIES
         then (Inr (Refused (refuse_media UnsupportedModality (if md \<noteq> u ''unknown'' then md else modality_from_mime U mime) mime fname None None)), w)
         else case load_bytes E (mi_data it) (mi_path it) w of
             Inl r \<Rightarrow> (Inr (Refused r), w)
           | Inr bytes \<Rightarrow>
               if md = u ''image'' then ingest_image E img_max bytes it mime fname root w
               else if md = u ''document'' then
                 (if \<not> document_mime_allowed U mime then (Inr (Refused (refuse_media DisallowedType (u ''document'') mime fname None None)), w)
                  else ingest_document E doc_max bytes mime fname root w)
               else if document_mime_allowed U mime then ingest_document E doc_max bytes mime fname root w
               else (Inr (Refused (refuse_media DisallowedType (if md \<noteq> [] then md else u ''unknown'') mime fname None None)), w))"

section \<open>A turn's attachments\<close>

record PreparedMedia =
  pm_text :: pystr
  pm_images :: "ppath list"
  pm_documents :: "StagedDocument list"
  pm_refusals :: "MediaRefusal list"
  pm_dirs :: "ppath list"

fun add_ingested :: "ingested \<Rightarrow> PreparedMedia \<Rightarrow> PreparedMedia" where
  "add_ingested (Refused r) m = m\<lparr>pm_refusals := pm_refusals m @ [r]\<rparr>"
| "add_ingested (Image p st) m = m\<lparr>pm_images := pm_images m @ [p], pm_dirs := pm_dirs m @ (case st of None \<Rightarrow> [] | Some d \<Rightarrow> [d])\<rparr>"
| "add_ingested (Document d) m = m\<lparr>pm_documents := pm_documents m @ [d], pm_dirs := pm_dirs m @ [sd_dir d]\<rparr>"

fun ingest_all :: "'w media_env \<Rightarrow> nat \<Rightarrow> nat \<Rightarrow> ppath option \<Rightarrow> MediaInput list \<Rightarrow> PreparedMedia \<Rightarrow> 'w \<Rightarrow> (media_error + PreparedMedia) \<times> 'w" where
  "ingest_all E im dm root [] m w = (Inr m, w)"
| "ingest_all E im dm root (it # its) m w =
     (case ingest_one E im dm root it w of
        (Inl e, w1) \<Rightarrow> (Inl e, w1)
      | (Inr g, w1) \<Rightarrow> ingest_all E im dm root its (add_ingested g m) w1)"

text \<open>\<open>None\<close> when a path cannot be resolved.\<close>

definition doc_line :: "host \<Rightarrow> StagedDocument \<Rightarrow> pystr option" where
  "doc_line H d = map_option (\<lambda>p. u ''Attached document ('' @ sd_mime d @ u ''): '' @ as_posix p) (h_resolve H (sd_path d))"

definition inject_document_paths :: "host \<Rightarrow> pystr \<Rightarrow> StagedDocument list \<Rightarrow> pystr option" where
  "inject_document_paths H txt docs =
     (if docs = [] then Some txt
      else (let ls = map (doc_line H) docs; base = rstrip_with isspace txt
            in if None \<in> set ls then None
               else Some (if base \<noteq> [] then base @ [10, 10] @ py_join [10] (map the ls) else py_join [10] (map the ls))))"

definition prepare_media :: "'w media_env \<Rightarrow> nat \<Rightarrow> nat \<Rightarrow> ppath option \<Rightarrow> pystr \<Rightarrow> MediaInput list \<Rightarrow> 'w \<Rightarrow> (media_error + PreparedMedia) \<times> 'w" where
  "prepare_media E im dm root txt items w =
     (case ingest_all E im dm root items \<lparr>pm_text = txt, pm_images = [], pm_documents = [], pm_refusals = [], pm_dirs = []\<rparr> w of
        (Inl e, w1) \<Rightarrow> (Inl e, w1)
      | (Inr m, w1) \<Rightarrow> (case inject_document_paths (me_host E) txt (pm_documents m) of
            None \<Rightarrow> (Inl MediaOSError, w1) | Some t \<Rightarrow> (Inr (m\<lparr>pm_text := t\<rparr>), w1)))"

definition cleanup_staging :: "'w media_env \<Rightarrow> ppath list \<Rightarrow> 'w \<Rightarrow> 'w" where
  "cleanup_staging E dirs w = fold (me_rmtree E) dirs w"

definition pm_cleanup :: "'w media_env \<Rightarrow> PreparedMedia \<Rightarrow> 'w \<Rightarrow> PreparedMedia \<times> 'w" where
  "pm_cleanup E m w = (m\<lparr>pm_dirs := [], pm_images := [], pm_documents := []\<rparr>, cleanup_staging E (pm_dirs m) w)"

text \<open>
  The directories that the backend reads outside the project, \<^verbatim>\<open>_extra_roots\<close>, if it has such a list; the second
  result is the undo, a function of the list at that time.
\<close>

definition expose_roots :: "host \<Rightarrow> ppath list \<Rightarrow> ppath list \<Rightarrow> ppath list" where
  "expose_roots H dirs extra = fold (\<lambda>r e. if r \<in> set e then e else e @ [r]) (List.map_filter (h_resolve H) dirs) extra"

definition expose_staging_roots ::
  "host \<Rightarrow> ppath list option \<Rightarrow> ppath list \<Rightarrow> ppath list option \<times> (ppath list option \<Rightarrow> ppath list option)" where
  "expose_staging_roots H extra dirs =
     (case extra of None \<Rightarrow> (None, id)
      | Some e \<Rightarrow> if dirs = [] then (Some e, id) else (Some (expose_roots H dirs e), map_option (\<lambda>_. e)))"

section \<open>Where an attachment is put\<close>

text \<open>A directory for staging: its real place is neither in the project nor in \<^verbatim>\<open>~/.jarn\<close>.\<close>

definition safely_outside :: "host \<Rightarrow> ppath option \<Rightarrow> ppath \<Rightarrow> bool" where
  "safely_outside H proj st \<longleftrightarrow> (\<exists>r h j. h_resolve H st = Some r \<and> h_home H = Some h
     \<and> h_resolve H (path_join h (parse_path (u ''.jarn''))) = Some j \<and> \<not> under r j
     \<and> (\<forall>p. proj = Some p \<longrightarrow> (\<exists>q pr. expanduser H p = Some q \<and> h_resolve H q = Some pr \<and> \<not> under r pr)))"

text \<open>One component of a path that stays where it is joined, and a file of this name in a directory.\<close>

definition plain_name :: "pystr \<Rightarrow> bool" where
  "plain_name n \<longleftrightarrow> 47 \<notin> set n \<and> n \<notin> {[], [46], [46, 46]}"

definition file_in :: "ppath \<Rightarrow> pystr \<Rightarrow> ppath" where
  "file_in d n = d\<lparr>ptail := ptail d @ [n]\<rparr>"

lemma assert_safe_staging_None: "assert_safe_staging H st proj = None \<longleftrightarrow> safely_outside H proj st"
  by (cases proj) (auto simp: assert_safe_staging_def assert_outside_home_def safely_outside_def split: option.splits if_splits)

lemma mkdtemp_checked_Inr: "mkdtemp_checked E proj d w = (Inr st, x) \<Longrightarrow> safely_outside (me_host E) proj st"
  by (auto simp: mkdtemp_checked_def assert_safe_staging_None split: prod.splits option.splits)

lemma mkdtemp_outside: "mkdtemp_outside_project E proj w = (Inr st, w1) \<Longrightarrow> safely_outside (me_host E) proj st"
  by (auto simp: mkdtemp_outside_project_def Let_def dest: mkdtemp_checked_Inr
        split: prod.splits option.splits sum.splits media_error.splits)

lemma join_plain: "plain_name n \<Longrightarrow> path_join d (parse_path n) = file_in d n"
  by (cases n) (auto simp: plain_name_def file_in_def path_join_def parse_path_def is_absolute_def path_seg_def split_chr_none)

lemma replace_plain:
  "n \<notin> {[], [46], [46, 46]} \<Longrightarrow> plain_name (replace_chr 92 95 (replace_chr 47 95 n))"
  by (auto simp: replace_chr_def plain_name_def map_eq_Cons_conv split: if_splits)

lemma fallback_not_in:
  "d \<notin> S \<Longrightarrow> e \<notin> S \<Longrightarrow> (let n = (if nm \<in> S then (if P then d else e) else nm) in if nm \<in> S \<and> n = x \<and> Q then e else n) \<notin> S"
  by (simp add: Let_def)

lemma fallback_names: "dflt \<in> {u ''document'', u ''image.png''} \<Longrightarrow> dflt \<notin> {[], [46], [46, 46]}" "u ''document'' @ ext \<notin> {[], [46], [46, 46]}"
  by (elim insertE emptyE; simp add: u_def) (simp add: u_def)

lemma safe_filename_plain: "dflt \<in> {u ''document'', u ''image.png''} \<Longrightarrow> plain_name (safe_filename E fname mime dflt)"
  unfolding safe_filename_def Let_def by (intro replace_plain fallback_not_in[unfolded Let_def] fallback_names)

lemma stage_file_placed:
  "stage_file E bytes n proj w = (Inr (dest, st), w1) \<Longrightarrow> plain_name n \<Longrightarrow> safely_outside (me_host E) proj st \<and> dest = file_in st n"
  by (auto simp: stage_file_def join_plain Let_def split: prod.splits sum.splits if_splits dest: mkdtemp_outside)

fun placed :: "host \<Rightarrow> ppath option \<Rightarrow> MediaInput \<Rightarrow> ingested \<Rightarrow> bool" where
  "placed H proj it (Refused r) = True"
| "placed H proj it (Image p None) = (map_option parse_path (mi_path it) = Some p)"
| "placed H proj it (Image p (Some d)) = (safely_outside H proj d \<and> (\<exists>n. plain_name n \<and> p = file_in d n))"
| "placed H proj it (Document d) =
     (safely_outside H proj (sd_dir d) \<and> plain_name (sd_filename d) \<and> sd_path d = file_in (sd_dir d) (sd_filename d))"

lemma ingest_document_placed:
  "ingest_document E dm bytes mime fname proj w = (Inr g, w1) \<Longrightarrow> placed (me_host E) proj it g"
  by (auto simp: ingest_document_def stage_document_def Let_def safe_filename_plain split: prod.splits sum.splits if_splits
        dest!: stage_file_placed)

lemma ingest_image_placed:
  "ingest_image E im bytes it mime fname proj w = (Inr g, w1) \<Longrightarrow> placed (me_host E) proj it g"
  by (auto simp: ingest_image_def safe_filename_plain split: prod.splits sum.splits if_splits dest!: stage_file_placed
        intro!: exI[of _ "safe_filename E fname mime (u ''image.png'')"])

lemma ingest_one_placed: "ingest_one E im dm proj it w = (Inr g, w1) \<Longrightarrow> placed (me_host E) proj it g"
  by (auto simp: ingest_one_def Let_def split: sum.splits if_splits intro: ingest_document_placed ingest_image_placed)

text \<open>An image is a file that an attachment names, or a copy in one of the directories.\<close>

definition image_from :: "MediaInput list \<Rightarrow> ppath list \<Rightarrow> ppath \<Rightarrow> bool" where
  "image_from its dirs p \<longleftrightarrow> (\<exists>it\<in>set its. map_option parse_path (mi_path it) = Some p) \<or> (\<exists>d\<in>set dirs. \<exists>n. plain_name n \<and> p = file_in d n)"

lemma image_from_mono: "image_from its dirs p \<Longrightarrow> image_from (its @ js) (dirs @ es) p" "image_from its dirs p \<Longrightarrow> image_from (its @ js) dirs p"
  by (auto simp: image_from_def)

lemma image_from_new:
  "map_option parse_path (mi_path it) = Some p \<Longrightarrow> image_from (its @ [it]) dirs p"
  "plain_name n \<Longrightarrow> image_from its (dirs @ [d]) (file_in d n)"
  by (auto simp: image_from_def)

text \<open>The attachments of a turn, each in its place.\<close>

definition media_ok :: "host \<Rightarrow> ppath option \<Rightarrow> MediaInput list \<Rightarrow> PreparedMedia \<Rightarrow> bool" where
  "media_ok H proj its m \<longleftrightarrow>
     length (pm_images m) + length (pm_documents m) + length (pm_refusals m) = length its
     \<and> (\<forall>d\<in>set (pm_dirs m). safely_outside H proj d)
     \<and> (\<forall>d\<in>set (pm_documents m). sd_dir d \<in> set (pm_dirs m) \<and> plain_name (sd_filename d) \<and> sd_path d = file_in (sd_dir d) (sd_filename d))
     \<and> (\<forall>p\<in>set (pm_images m). image_from its (pm_dirs m) p)"

lemma add_ingested_ok: "media_ok H proj its m \<Longrightarrow> placed H proj it g \<Longrightarrow> media_ok H proj (its @ [it]) (add_ingested g m)"
  by (cases "(H, proj, it, g)" rule: placed.cases) (auto simp: media_ok_def image_from_new image_from_mono)

lemma ingest_all_ok:
  "ingest_all E im dm proj its m w = (Inr m1, w1) \<Longrightarrow> media_ok (me_host E) proj seen m \<Longrightarrow> media_ok (me_host E) proj (seen @ its) m1"
proof (induction E im dm proj its m w arbitrary: seen rule: ingest_all.induct)
  case (2 E im dm proj it its m w)
  then show ?case
    using add_ingested_ok[OF 2(3) ingest_one_placed[of E im dm proj it w]]
    by (fastforce split: prod.splits sum.splits)
qed simp

section \<open>Properties\<close>

text \<open>
  C24. Every attachment of a turn is accounted for: shown as an image, passed on as a document or refused. What is
  written for the turn lies in a fresh directory whose real place is outside the project and outside \<^verbatim>\<open>~/.jarn\<close>, in a
  file directly in it: no name that a sender chooses leads elsewhere. An image that is not such a copy is one of the
  files named by an attachment.
\<close>

theorem attachments_stay_outside:
  assumes "prepare_media E im dm proj txt items w = (Inr m, w1)"
  shows "media_ok (me_host E) proj items m"
proof -
  have "media_ok (me_host E) proj [] \<lparr>pm_text = txt, pm_images = [], pm_documents = [], pm_refusals = [], pm_dirs = []\<rparr>"
    by (simp add: media_ok_def)
  then have "media_ok (me_host E) proj items m1" if "ingest_all E im dm proj items \<lparr>pm_text = txt, pm_images = [], pm_documents = [],
      pm_refusals = [], pm_dirs = []\<rparr> w = (Inr m1, w2)" for m1 w2
    using ingest_all_ok[OF that] by fastforce
  then show ?thesis using assms by (fastforce simp: prepare_media_def media_ok_def split: prod.splits sum.splits option.splits)
qed

text \<open>The gates: what is not refused was read, is of an allowed type, neither audio nor video whatever it is called, and within the limit of its kind.\<close>

lemma allowed_not_av:
  "image_mime_allowed U m \<or> document_mime_allowed U m \<Longrightarrow> \<not> startswith (normal_mime U m) (u ''audio/'') \<and> \<not> startswith (normal_mime U m) (u ''video/'')"
  by (auto simp: image_mime_allowed_def document_mime_allowed_def ALLOWED_IMAGE_MIMES_def ALLOWED_DOCUMENT_MIMES_def Let_def u_def startswith_iff
        split: if_splits)

lemma ingest_document_gate:
  "ingest_document E dm bytes mime fname proj w = (Inr g, w1) \<Longrightarrow>
     (\<exists>r. g = Refused r) \<or> (\<exists>d. g = Document d \<and> sd_mime d = mime \<and> length bytes \<le> dm)"
  by (auto simp: ingest_document_def stage_document_def Let_def split: prod.splits sum.splits if_splits)

lemma ingest_image_gate:
  "ingest_image E im bytes it mime fname proj w = (Inr g, w1) \<Longrightarrow>
     (\<exists>r. g = Refused r) \<or> (\<exists>p st. g = Image p st \<and> image_mime_allowed (me_uni E) mime \<and> length bytes \<le> im)"
  by (auto simp: ingest_image_def split: prod.splits sum.splits if_splits)

definition item_mime :: "'w media_env \<Rightarrow> MediaInput \<Rightarrow> pystr" where
  "item_mime E it = resolve_mime E (mi_mime it) (mi_path it)
     (case mi_filename it of Some f \<Rightarrow> Some f | None \<Rightarrow> map_option path_name (mi_path it))"

fun within_gate :: "'w media_env \<Rightarrow> nat \<Rightarrow> nat \<Rightarrow> pystr \<Rightarrow> pystr \<Rightarrow> ingested \<Rightarrow> bool" where
  "within_gate E im dm mime bytes (Refused r) = True"
| "within_gate E im dm mime bytes (Image p st) = (image_mime_allowed (me_uni E) mime \<and> length bytes \<le> im)"
| "within_gate E im dm mime bytes (Document d) = (sd_mime d = mime \<and> document_mime_allowed (me_uni E) mime \<and> length bytes \<le> dm)"

lemma ingest_one_gate:
  assumes "ingest_one E im dm proj it w = (Inr g, w1)" "load_bytes E (mi_data it) (mi_path it) w = Inr bytes"
  shows "within_gate E im dm (item_mime E it) bytes g"
  using assms
  by (auto simp: ingest_one_def item_mime_def Let_def split: if_splits dest!: ingest_document_gate ingest_image_gate)

lemma ingest_one_loaded:
  "ingest_one E im dm proj it w = (Inr g, w1) \<Longrightarrow> (\<exists>r. g = Refused r)
     \<or> (\<exists>bytes. load_bytes E (mi_data it) (mi_path it) w = Inr bytes) \<and> lower (me_uni E) (strip_ws (opt_text (mi_modality it))) \<notin> set UNSUPPORTED_MODALITIES"
  by (auto simp: ingest_one_def Let_def UNSUPPORTED_MODALITIES_def u_def split: if_splits sum.splits)

text \<open>
  What is not refused has passed the gates: its bytes were read, its type is on the list for its kind and its size within the
  limit. A voice message, an audio or a video file never passes, neither by its declared kind nor by its type.
\<close>

theorem attachments_gated:
  assumes "ingest_one E im dm proj it w = (Inr g, w1)"
  shows "(\<exists>r. g = Refused r) \<or> (\<exists>bytes. load_bytes E (mi_data it) (mi_path it) w = Inr bytes \<and> within_gate E im dm (item_mime E it) bytes g
     \<and> lower (me_uni E) (strip_ws (opt_text (mi_modality it))) \<notin> set UNSUPPORTED_MODALITIES
     \<and> \<not> startswith (normal_mime (me_uni E) (item_mime E it)) (u ''audio/'') \<and> \<not> startswith (normal_mime (me_uni E) (item_mime E it)) (u ''video/''))"
  using ingest_one_loaded[OF assms] ingest_one_gate[OF assms] allowed_not_av[of "me_uni E" "item_mime E it"] by (cases g) auto

text \<open>
  The backend reads the staged directories during the turn, and nothing else that it did not read before; the undo takes
  exactly these away.
\<close>

lemma set_expose_roots: "set (expose_roots H dirs e) = set e \<union> {r. \<exists>d\<in>set dirs. h_resolve H d = Some r}"
proof -
  have "set (fold (\<lambda>r e. if r \<in> set e then e else e @ [r]) rs e) = set e \<union> set rs" for rs
    by (induction rs arbitrary: e) auto
  then show ?thesis by (force simp: expose_roots_def List.map_filter_def)
qed

theorem staging_exposed_and_undone:
  "case expose_staging_roots H extra dirs of (during, undo_fn) \<Rightarrow>
     undo_fn during = extra \<and> map_option set during = map_option (\<lambda>e. set e \<union> {r. \<exists>d\<in>set dirs. h_resolve H d = Some r}) extra"
  by (auto simp: expose_staging_roots_def set_expose_roots split: option.splits)

text \<open>A host whose world is the list of the directories made so far; the disk is full after the first.\<close>

definition demo_media :: "ppath list media_env" where
  "demo_media = \<lparr>me_uni = ascii_uni, me_host = user_host, me_guess = (\<lambda>_. None), me_ext = (\<lambda>_. None), me_read = (\<lambda>_ _. None),
     me_is_file = (\<lambda>_ _. False), me_tempdir = parse_path (u ''/tmp''),
     me_mkdtemp = (\<lambda>d w. if w = [] then (Some (parse_path (u ''/tmp/jarn-media-a'')), [parse_path (u ''/tmp/jarn-media-a'')]) else (None, w)),
     me_rmtree = removeAll, me_write = (\<lambda>_ _ w. (True, w))\<rparr>"

definition demo_note :: MediaInput where
  "demo_note = \<lparr>mi_data = Some (u ''hi''), mi_mime = Some (u ''text/plain''), mi_path = None, mi_modality = Some (u ''document''),
     mi_filename = Some (u ''../../etc/a.txt'')\<rparr>"

lemma demo_ingest: "map_prod (map_sum id pm_documents) id (prepare_media demo_media 10 10 (Some (parse_path (u ''/home/ann/proj''))) (u ''see'') [demo_note] [])
   = (Inr [\<lparr>sd_path = parse_path (u ''/tmp/jarn-media-a/a.txt''), sd_dir = parse_path (u ''/tmp/jarn-media-a''), sd_mime = u ''text/plain'',
       sd_filename = u ''a.txt''\<rparr>], [parse_path (u ''/tmp/jarn-media-a'')])"
  by code_simp

theorem attachments_stay_outside_witness:
  "\<exists>m. fst (prepare_media demo_media 10 10 (Some (parse_path (u ''/home/ann/proj''))) (u ''see'') [demo_note] []) = Inr m
     \<and> media_ok user_host (Some (parse_path (u ''/home/ann/proj''))) [demo_note] m \<and> map sd_filename (pm_documents m) = [u ''a.txt'']"
proof -
  obtain m w1 where m: "prepare_media demo_media 10 10 (Some (parse_path (u ''/home/ann/proj''))) (u ''see'') [demo_note] [] = (Inr m, w1)"
    "map sd_filename (pm_documents m) = [u ''a.txt'']"
    using demo_ingest by (cases "prepare_media demo_media 10 10 (Some (parse_path (u ''/home/ann/proj''))) (u ''see'') [demo_note] []" rule: prod.exhaust)
      (auto elim: sum.exhaust simp: map_sum_def split: sum.splits)
  have "media_ok user_host (Some (parse_path (u ''/home/ann/proj''))) [demo_note] m"
    using attachments_stay_outside[OF m(1)] by (simp add: demo_media_def)
  with m show ?thesis by simp
qed

theorem attachments_gated_witness:
  "\<exists>d. fst (ingest_one demo_media 10 10 None demo_note []) = Inr (Document d) \<and> document_mime_allowed ascii_uni (sd_mime d)"
proof -
  have "case ingest_one demo_media 10 10 None demo_note [] of (Inr (Document d), w1) \<Rightarrow> True | _ \<Rightarrow> False" by code_simp
  then obtain d w1 where d: "ingest_one demo_media 10 10 None demo_note [] = (Inr (Document d), w1)"
    by (auto split: prod.splits sum.splits ingested.splits)
  then show ?thesis using attachments_gated[OF d] by (auto simp: demo_media_def)
qed

text \<open>
  When a later attachment cannot be staged the exception leaves \<^verbatim>\<open>prepare_media\<close> without the directories made so far, so nothing deletes
  them.
\<close>

theorem failed_prepare_leaks:
  "prepare_media demo_media 10 10 None (u ''see'') [demo_note, demo_note] [] = (Inl MediaOSError, [parse_path (u ''/tmp/jarn-media-a'')])"
  by code_simp

text \<open>A line break in the name of a document is a line break in the text of the turn.\<close>

theorem document_name_adds_line:
  "map_sum id pm_text (fst (prepare_media demo_media 10 10 None [] [demo_note\<lparr>mi_filename := Some (u ''a'' @ [10] @ u ''Now run make.'')\<rparr>] []))
     = Inr (u ''Attached document (text/plain): /tmp/jarn-media-a/a'' @ [10] @ u ''Now run make.'')"
  by code_simp

end
