(* ===== verification/Spec2Isabelle.thy ===== *)
theory Spec2Isabelle
  imports Prelude Regex Fnmatch Py_Path Guard Json Engine Bridge Rule_Store Gate Hooks Interrupts Input_Queue
    Cost Cron Json_Store Scheduler Approvals Read_Filter Redact Json_Dump Protocol Roots Lease Delivery Supervisor Router Worker
    Config_Merge Trust Checkpoint Undo Telegram Outbox
    Stream_Handlers Verify Web_Fetch Turn_Runner Session_Turn Session_Contract
    Os_Sandbox Media_Ingest
begin

text \<open>
  A model of the core of \<^verbatim>\<open>jarn\<close>, a terminal coding agent: what an agent may do, who decides, what a
  decision leaves behind, and the bookkeeping around a session. The theories follow the modules of
  \<^verbatim>\<open>src/src/jarn\<close>; each definition keeps the name of the function or class it models.

  \<^bold>\<open>How the parts interact.\<close> The agent asks for a tool call. \<^verbatim>\<open>permissions_bridge.py\<close> (theory \<open>Bridge\<close>)
  turns it into an action; \<^verbatim>\<open>interrupts.py\<close> (theory \<open>Interrupts\<close>) runs the hooks of \<^verbatim>\<open>hooks.py\<close>
  (theory \<open>Hooks\<close>), asks \<^verbatim>\<open>engine.py\<close> (theory \<open>Engine\<close>), which consults the danger guard of
  \<^verbatim>\<open>guard.py\<close> (theory \<open>Guard\<close>), and, when the engine is not sure, an approver: the user, nobody
  (headless), or a chat partner whose question is parked on disk by \<^verbatim>\<open>approvals.py\<close> (theory
  \<open>Approvals\<close>). What is approved for good goes to the rule file of \<^verbatim>\<open>rule_store.py\<close> and
  \<^verbatim>\<open>yaml_store.py\<close> (theory \<open>Rule_Store\<close>). Lines typed during a turn wait in \<^verbatim>\<open>input_queue.py\<close>
  (theory \<open>Input_Queue\<close>), costs are counted by \<^verbatim>\<open>cost/\<close> (theory \<open>Cost\<close>), and \<^verbatim>\<open>scheduler.py\<close>
  (theories \<open>Cron\<close> and \<open>Scheduler\<close>) starts turns at set times.

  A turn is run by \<^verbatim>\<open>turn_runner.py\<close> on the controller of \<^verbatim>\<open>controller/core.py\<close> (theory \<open>Turn_Runner\<close>): it takes the turn slot,
  makes a driver, and retries on another model. The driver of \<^verbatim>\<open>session.py\<close> (theory \<open>Session_Turn\<close>) submits the prompt to
  the agent graph and reads its stream with \<^verbatim>\<open>stream_handlers.py\<close> (theory \<open>Stream_Handlers\<close>); it resolves interrupts through
  \<open>Interrupts\<close>, guards every resumption with the undo snapshot, and lets \<^verbatim>\<open>verify.py\<close> (theory \<open>Verify\<close>) check the edits before
  the turn counts as done. The web tools of the agent are \<^verbatim>\<open>web_tools.py\<close> (theory \<open>Web_Fetch\<close>). The
  attachments of a prompt pass \<^verbatim>\<open>media_ingest.py\<close> (theory \<open>Media_Ingest\<close>), and a shell command may be wrapped in the kernel sandbox that
  \<^verbatim>\<open>os_sandbox.py\<close> describes (theory \<open>Os_Sandbox\<close>).

  The gateway serves chats: \<^verbatim>\<open>sessions.py\<close> (theory \<open>Router\<close>) maps a chat to a project root and a thread,
  \<^verbatim>\<open>daemon.py\<close> (theory \<open>Supervisor\<close>) keeps one worker process per root under the lock of \<^verbatim>\<open>lease.py\<close>
  (theory \<open>Lease\<close>), and both sides exchange the frames of \<^verbatim>\<open>protocol.py\<close> (theory \<open>Protocol\<close>). In the
  process, \<^verbatim>\<open>worker.py\<close> (theory \<open>Worker\<close>) runs one task at a time and scrubs what it writes with the
  redaction of \<^verbatim>\<open>secrets.py\<close> and \<^verbatim>\<open>tool_arg_redact.py\<close> (theory \<open>Redact\<close>). What search tools return is cut
  to what may be read by \<^verbatim>\<open>read_filter.py\<close> (theory \<open>Read_Filter\<close>). Telegram is one transport of the gateway: \<^verbatim>\<open>auth.py\<close>
  and \<^verbatim>\<open>bot.py\<close> decide which updates reach it (theory \<open>Telegram\<close>), \<^verbatim>\<open>outbox.py\<close> streams the replies (theory \<open>Outbox\<close>).

  The rules an engine starts from come from two files: \<^verbatim>\<open>loader.py\<close> merges the project over the global one (theory
  \<open>Config_Merge\<close>), and \<^verbatim>\<open>trust.py\<close> keeps an untrusted project from loosening anything (theory \<open>Trust\<close>). What the agent did to the
  files is undone through the snapshots of \<^verbatim>\<open>checkpoint.py\<close> (theories \<open>Checkpoint\<close> and \<open>Undo\<close>).

  \<^bold>\<open>Theories.\<close>
  \<^item> \<open>Prelude\<close>: Python strings as lists of code points (\<open>u\<close> turns a literal into one), dictionaries as
    association lists in insertion order (locale \<open>dict_ops\<close>, interpreted as \<open>pydict\<close>), the record
    \<open>pyuni\<close> of the Unicode and number tables of the interpreter.
  \<^item> \<open>Regex\<close>, \<open>Fnmatch\<close>, \<open>Py_Path\<close>, \<open>Json\<close>: what the code uses of \<^verbatim>\<open>re\<close>, \<^verbatim>\<open>fnmatch\<close>, \<^verbatim>\<open>pathlib\<close> and
    \<^verbatim>\<open>json\<close>. Matching is a relation (\<open>rm\<close>, \<open>gdenotes\<close>) with an executable matcher proved equal to it.
  \<^item> \<open>Guard\<close>: the patterns, the normalisation of commands, the check of \<^verbatim>\<open>rm\<close>, the egress policy and
    \<open>inspect_command\<close>. Its lemmas say exactly when a command is blocked, safe, or makes it raise.
  \<^item> \<open>Engine\<close>: the record \<open>PermissionEngine\<close> and every method of the class; \<open>evaluate\<close> is the decision.
    Its lemmas are the exact condition of an approval, the floor that no rule can lift, monotonicity,
    and what remembering and refusing change. \<open>Decision\<close> is ordered by permissiveness.
  \<^item> \<open>Gate\<close>: a session as a sequence of approvals, refusals and mode changes. The locale
    \<open>permission_gate\<close> is the contract of a gate; the engine interprets it.
  \<^item> \<open>Rule_Store\<close>: files as a map of paths, every error as a value; rules survive the process, and a
    corrupt file is never overwritten.
  \<^item> \<open>Hooks\<close>, \<open>Interrupts\<close>: processes and approvers are parameters that thread an external state.
  \<^item> \<open>Json_Store\<close>: the JSON files of the gateway, with the locale \<open>row_codec\<close> for what a row must
    promise; \<open>Scheduler\<close> and \<open>Approvals\<close> interpret it on their rows.
  \<^item> \<open>Cron\<close>, \<open>Scheduler\<close>: the calendar, cron expressions, the search for the next firing, the job
    store and the tick.
  \<^item> \<open>Approvals\<close>: the pending map, the parking approver, the approver of a fixed verdict, and the
    interrupt loop of a resumed turn (\<^verbatim>\<open>session.py\<close>).
  \<^item> \<open>Delivery\<close>: the file that says which chat a root is working for, and the tool with which the model
    schedules jobs; a job without a chat inherits it from there.
  \<^item> \<open>Read_Filter\<close>: the filter of search, glob and read results, relative to the engine.
  \<^item> \<open>Redact\<close>: the registry of resolved secrets, the redaction patterns as finders of the leftmost match,
    nested structures and the caps of tool arguments. A resolved secret does not survive redaction.
  \<^item> \<open>Json_Dump\<close>, \<open>Protocol\<close>: the printer of JSON, proved inverse to the parser, and the frames; a frame
    comes back from its line.
  \<^item> \<open>Roots\<close>: which directories a chat may bind to.
  \<^item> \<open>Lease\<close>: lock files as a map from paths to holders; the locale \<open>root_mutex\<close> is the contract of mutual
    exclusion and \<open>Lease\<close> interprets it.
  \<^item> \<open>Supervisor\<close>, \<open>Router\<close>: the daemon as a transition system (\<open>gw_apply\<close>, \<open>gw_reach\<close>). A method of the
    router is one step, a reader thread books a frame in one step and runs the hook in another, so frames
    can be stale when they are handled. The results of the operating system are arguments of a step.
    The lemmas are the invariant that leases and tracked workers agree, when turns are handed out, the
    order of the queues, and three ways in which messages are lost or overlap.
  \<^item> \<open>Worker\<close>: the worker as a transition system (\<open>wk_apply\<close>, \<open>wk_reach\<close>) of lines read, tasks ending, callbacks
    and heartbeats.
  \<^item> \<open>Input_Queue\<close>: the queue, with the locale \<open>fifo\<close> interpreted on it.
  \<^item> \<open>Cost\<close>: prices, usage records, the tracker and the budget. Floating-point operations are the
    record \<open>flops\<close>; claims about amounts name the arithmetic they need.

  \<^item> \<open>Config_Merge\<close>: the migrations of old versions, the merge of two tiers and the validation of the permissions section.
  \<^item> \<open>Trust\<close>: what needs trust, what is left of an untrusted project, the fingerprint and the trust file. Whatever an
    untrusted project says, every decision of the engine is at most as permissive as without it; saving is a
    three-way merge; trust is bound to the content it was given to.
  \<^item> \<open>Checkpoint\<close>: every operation on snapshots and on the undo and redo stacks, with git as the record \<open>git\<close> of its
    commands. The predicate \<open>git_ok\<close> states the documented behaviour of each command over the abstract view \<open>repo\<close>.
    The lemmas show that the numbered references are lists and what each operation does to the working tree.
  \<^item> \<open>Undo\<close>: the tags of snapshots, the step relation \<open>ck_step\<close> of a session, and the properties; a small repository shows
    that \<open>git_ok\<close> can hold.
  \<^item> \<open>Telegram\<close>: admission, callbacks, the cutting of texts, the backlog and the poll loop.
  \<^item> \<open>Outbox\<close>: the draft channel as a transition system (\<open>ob_step\<close>) of the code between two suspensions.

  \<^item> \<open>Stream_Handlers\<close>: messages and chunks as records and datatypes, the state of a stream, one function per handler. Metering is
    proved equal to a reference that bills each call of each stream once; a tool call is announced once.
  \<^item> \<open>Verify\<close>: the files of a project as a record, detection, authorisation through the engine, execution. All commands are
    cleared before one runs, and the name of a script is one shell argument.
  \<^item> \<open>Web_Fetch\<close>: addresses are machine words (32 and 128 bits), the resolver and the servers answer on a threaded world
    and may change their answers. Every connection goes to an address that was checked in the same step.
  \<^item> \<open>Turn_Runner\<close>: the controller as a record and the retry loop, with a measure of what a retry uses up; the slot as a transition
    system (\<open>slot_step\<close>, \<open>slot_reach\<close>).
  \<^item> \<open>Session_Turn\<close>: a turn as the list of what it does (\<open>act\<close>): events, submissions, transcript lines and the life of the
    snapshot. \<open>run_stream\<close> runs the loop for a number of pulls.
  \<^item> \<open>Session_Contract\<close>: the abstract machine of a turn (\<open>astep\<close>, \<open>atrace\<close>), the simulation, and what follows from it for every
    agent: when the graph is resumed, when a turn is done, how it ends, and the types of the events.
  \<^item> \<open>Os_Sandbox\<close>: the profile text of Seatbelt and the arguments of \<^verbatim>\<open>bwrap\<close>, with a reader and a meaning for both languages; read
    back, they confine writes to the directories that were meant, whatever these are called.
  \<^item> \<open>Media_Ingest\<close>: the gates, the refusals and the staging of attachments on a threaded file system. Every attachment is shown,
    staged or refused, and what is staged lies outside the project and outside \<^verbatim>\<open>~/.jarn\<close>.

  This theory adds the properties that span components.

  \<^bold>\<open>Bounds and fuel.\<close> Python integers are \<open>int\<close>. \<open>json_loads\<close> runs on fuel given by the length of the
  text, which is shown to be enough. \<open>search_cron\<close> counts the minutes of the two-year search of the
  code. \<open>stream_turn\<close>, a loop that the graph can keep alive forever, is a partial function whose
  value is \<open>None\<close> when it does not end; so are the loops over the references of a stack, the cutting of texts and the
  drain of the backlog, which are shown to end. \<open>run_stream\<close> counts the items pulled from the agent: the
  claims hold for every number, and running out is a turn cancelled at that point. All other recursion is structural or has a measure.

  \<^bold>\<open>Parameters.\<close> Unicode normalisation and case tables, the resolution of symbolic links and home
  directories (\<open>host\<close>), processes, approvers, the agent graph, git, hashes, YAML text, ISO dates, the resolver, HTTP servers and
  the predicates of \<^verbatim>\<open>ipaddress\<close> are arguments of the definitions that use them. Where a claim relies on them the hypothesis is named
  (\<open>uni_ascii_ok\<close>, \<open>yaml_ok\<close>, \<open>iso_ok\<close>, \<open>git_ok\<close>, \<open>iplib_ok\<close>) and holds for the instances used in the witnesses.

  \<^bold>\<open>Not modelled.\<close> The terminal interface, the command line, onboarding, updates, the network
  services (providers, catalog, the bodies of search requests), the texts and downloads of Telegram, the processes of the execution backends and the
  databases: effects on the outside world with little logic of their own that the claims here rest on.
  Of the driver, the merge of live progress into the stream, the call that stages media and the wait for snapshots of other
  drivers are left out, of the controller the building of the runtime and the slash commands.
  Of the gateway, the slash commands and the agent body of a worker are left out: they call the controller.
  Threads interleave at the granularity of the steps named above; a write to a pipe that blocks for
  good and the interleaving inside one router method are not modelled.
\<close>

section \<open>From a tool call to its rejection\<close>

text \<open>A call that hits the hard floor, or that the pre-tool hooks stop, is rejected by one decision.\<close>

lemma gate_tool_floor:
  assumes "floor_hit (p_uni Z) (p_host Z) (d_engine d) a"
  shows "\<exists>e why. gate_tool Z rq name a d = ([(e, Some (RejectWith why))], d, None)"
proof -
  from assms obtain g where g: "guard_for (p_uni Z) (p_host Z) (d_engine d) (canonicalized_action (p_host Z) (d_engine d) a) = Inr g"
    "level g = BLOCKED \<or> touches_secret_store (p_uni Z) (p_host Z) (d_engine d) (canonicalized_action (p_host Z) (d_engine d) a)"
    by (auto simp: floor_hit_def)
  then show ?thesis
    by (cases "level g = BLOCKED")
       (simp_all add: gate_tool_def evaluate_def hard_result_def SECRET_STORE_DENIAL_def)
qed

lemma ordinary_tool_floor:
  assumes "floor_hit (p_uni Z) (p_host Z) (d_engine d) (tool_to_action (p_uni Z) name (rq_args rq))"
  shows "\<exists>out d' why. ordinary_tool Z rq name d = (out, d', None) \<and> decisions out = [RejectWith why]
     \<and> d_engine d' = d_engine d \<and> d_saved d' = d_saved d"
proof (cases "d_hooks d")
  case None
  with gate_tool_floor[OF assms, of rq name] show ?thesis by (auto simp: ordinary_tool_def)
next
  case (Some R)
  let ?a = "tool_to_action (p_uni Z) name (rq_args rq)"
  obtain ab nts x where p: "run_pre_hooks Z R name ?a (d_ext d) = ((ab, nts), x)"
    by (cases "run_pre_hooks Z R name ?a (d_ext d)") auto
  have "floor_hit (p_uni Z) (p_host Z) (d_engine (d\<lparr>d_ext := x\<rparr>)) ?a" using assms by simp
  from gate_tool_floor[OF this, of rq name] p Some show ?thesis
    by (cases ab) (auto simp: ordinary_tool_def)
qed

lemma shell_action:
  assumes "dget as (u ''command'') = Some (JStr cmd)" "cmd \<noteq> []"
  shows "tool_to_action U (u ''execute'') as = mk_action SHELL cmd (u ''execute'') []"
  using assms by (simp add: tool_to_action_def aget_def py_str_def)

section \<open>Properties\<close>

text \<open>
  C1. The floor holds from end to end: a tool call whose action is blocked by the danger guard or
  touches the secret store of the program is rejected by exactly one decision, whatever the mode,
  the rules, the hooks and the approver are; nothing is remembered and no rule is saved.
\<close>

theorem floor_call_rejected:
  assumes "floor_hit (p_uni Z) (p_host Z) (d_engine d) (tool_to_action (p_uni Z) (request_name rq) (rq_args rq))"
    and "request_name rq \<notin> {u ''exit_plan_mode'', u ''suggest_memory'', u ''suggest_skill'', u ''schedule_task''}"
  shows "\<exists>out d' why. resolve_one Z rq d = (out, d', None) \<and> decisions out = [RejectWith why]
     \<and> d_engine d' = d_engine d \<and> d_saved d' = d_saved d"
  using ordinary_tool_floor[OF assms(1)] assms(2) by (simp add: resolve_one_def)

theorem floor_call_rejected_witness:
  "\<exists>out d' why. resolve_one (demo_params\<lparr>p_approver := always_yes\<rparr>) (demo_request ''read_file'' ''path'' ''/home/ann/.jarn/secrets/openai'')
       saving_driver = (out, d', None) \<and> decisions out = [RejectWith why]
     \<and> d_engine d' = d_engine saving_driver \<and> d_saved d' = d_saved saving_driver"
proof (rule floor_call_rejected)
  let ?Z = "demo_params\<lparr>p_approver := always_yes\<rparr>"
  let ?rq = "demo_request ''read_file'' ''path'' ''/home/ann/.jarn/secrets/openai''"
  let ?c = "canonicalized_action (p_host ?Z) (d_engine saving_driver) (tool_to_action (p_uni ?Z) (request_name ?rq) (rq_args ?rq))"
  have "guard_for (p_uni ?Z) (p_host ?Z) (d_engine saving_driver) ?c = Inr (verdict SAFE [])" by code_simp
  moreover have "touches_secret_store (p_uni ?Z) (p_host ?Z) (d_engine saving_driver) ?c" by code_simp
  ultimately show "floor_hit (p_uni ?Z) (p_host ?Z) (d_engine saving_driver)
      (tool_to_action (p_uni ?Z) (request_name ?rq) (rq_args ?rq))" by (simp add: floor_hit_def)
  show "request_name ?rq \<notin> {u ''exit_plan_mode'', u ''suggest_memory'', u ''suggest_skill'', u ''schedule_task''}" by code_simp
qed

text \<open>
  The agent cannot delete a root or a home directory: a call of the shell tool whose command has
  among its normalised words \<^verbatim>\<open>rm\<close>, a recursive option and a root target is rejected, whatever the
  mode, the rules, the hooks, the network policy and the approver are.
\<close>

theorem rm_root_call_rejected:
  assumes "uni_ascii_ok (p_uni Z)" "request_name rq = u ''execute''"
    and "dget (rq_args rq) (u ''command'') = Some (JStr cmd)"
    and "u ''rm'' \<in> set (tokens (p_uni Z) cmd)" "f \<in> set (tokens (p_uni Z) cmd)" "recursive_flag f"
    and "t \<in> set (tokens (p_uni Z) cmd)" "t \<in> set root_targets"
  shows "\<exists>out d' why. resolve_one Z rq d = (out, d', None) \<and> decisions out = [RejectWith why]
     \<and> d_engine d' = d_engine d \<and> d_saved d' = d_saved d"
proof -
  obtain v where v: "inspect_command (p_uni Z) cmd (Some (network (rules (d_engine d)))) = Inr v" "level v = BLOCKED"
    using inspect_rm_root[OF assms(1,4-8)] by blast
  have "cmd \<noteq> []" using assms(1,4) by (auto simp: tokens_def translate_def split_ws_def uni_ascii_ok_def is_ascii_def)
  with assms(3) have a: "tool_to_action (p_uni Z) (request_name rq) (rq_args rq) = mk_action SHELL cmd (u ''execute'') []"
    unfolding assms(2) by (rule shell_action)
  have "floor_hit (p_uni Z) (p_host Z) (d_engine d) (tool_to_action (p_uni Z) (request_name rq) (rq_args rq))"
    unfolding a floor_hit_def using v by (simp add: canonicalized_other guard_for_def mk_action_def)
  from ordinary_tool_floor[OF this] assms(2) show ?thesis by (simp add: resolve_one_def u_def)
qed

theorem rm_root_call_rejected_witness:
  "\<exists>out d' why. resolve_one (demo_params\<lparr>p_approver := always_yes\<rparr>) (demo_request ''execute'' ''command'' ''sudo rm -fvr ~/*'')
       saving_driver = (out, d', None) \<and> decisions out = [RejectWith why]
     \<and> d_engine d' = d_engine saving_driver \<and> d_saved d' = d_saved saving_driver"
proof (rule rm_root_call_rejected[where cmd = "u ''sudo rm -fvr ~/*''" and f = "u ''-fvr''" and t = "u ''~/*''"])
  let ?U = "p_uni (demo_params\<lparr>p_approver := always_yes\<rparr>)"
  have U: "?U = ascii_uni" by (simp add: demo_params_def)
  show "uni_ascii_ok ?U" unfolding U by (rule uni_ascii_ok_ascii_uni)
  show "recursive_flag (u ''-fvr'')"
    unfolding recursive_flag_def
    by (intro disjI2 exI[of _ "u ''fv''"] exI[of _ "[]"]) (simp add: u_def ascii_letters_def)
  show "u ''rm'' \<in> set (tokens ?U (u ''sudo rm -fvr ~/*''))" "u ''-fvr'' \<in> set (tokens ?U (u ''sudo rm -fvr ~/*''))"
    "u ''~/*'' \<in> set (tokens ?U (u ''sudo rm -fvr ~/*''))" "u ''~/*'' \<in> set root_targets" by code_simp+
  show "request_name (demo_request ''execute'' ''command'' ''sudo rm -fvr ~/*'') = u ''execute''"
    "dget (rq_args (demo_request ''execute'' ''command'' ''sudo rm -fvr ~/*'')) (u ''command'') = Some (JStr (u ''sudo rm -fvr ~/*''))"
    by code_simp+
qed

end
